(* ===== verification/Prelude.thy ===== *)
theory Prelude
  imports Main "HOL-Library.Monad_Syntax"
begin

text \<open>
  Shared vocabulary of the development: the C string functions the sources call, on
  \<open>string\<close> values that stand for the characters before the terminating NUL; failed
  assertions as \<^term>\<open>None\<close>; generic facts on lists; and the interfaces (locales) that
  several components implement.

  Conventions used everywhere:
  \<^item> a C string is a \<open>string\<close> without NUL, and \<open>char_at\<close> reads the NUL at its end;
  \<^item> a NULL-terminated array of strings is a \<open>string list\<close>; where the code tells a NULL
    array from an empty one, it is a \<open>string list option\<close>;
  \<^item> \<open>nih_assert\<close> aborts the process: an operation that contains one returns an option and
    \<open>None\<close> is the abort;
  \<^item> memory allocation does not fail (most callers wrap it in \<open>NIH_MUST\<close>, which retries
    until it succeeds).
\<close>

section \<open>Fact collections\<close>

named_theorems cstring_simps \<open>unfolding rules of the C string functions\<close>
named_theorems frame_simps \<open>what an operation leaves unchanged\<close>

section \<open>C strings\<close>

definition NUL :: char where
  "NUL = CHR 0x00"

definition char_at :: "string \<Rightarrow> nat \<Rightarrow> char" where
  "char_at s i = (if i < length s then s ! i else NUL)"

definition strcspn :: "string \<Rightarrow> string \<Rightarrow> nat" where
  "strcspn s reject = length (takeWhile (\<lambda>c. c \<notin> set reject) s)"

definition strchr :: "string \<Rightarrow> char \<Rightarrow> nat option" where
  "strchr s c = (let i = length (takeWhile (\<lambda>d. d \<noteq> c) s) in if i < length s then Some i else None)"

text \<open>\<open>strncmp (a, b, n) == 0\<close> on strings without NUL.\<close>

definition strncmp_eq :: "string \<Rightarrow> string \<Rightarrow> nat \<Rightarrow> bool" where
  "strncmp_eq a b n \<longleftrightarrow> take n a = take n b"

text \<open>\<open>strstr (s, "!=")\<close> and the like: the first position where the needle starts.\<close>

fun strstr :: "string \<Rightarrow> string \<Rightarrow> nat option" where
  "strstr [] needle = (if needle = [] then Some 0 else None)"
| "strstr (c # s) needle =
     (if take (length needle) (c # s) = needle then Some 0 else map_option Suc (strstr s needle))"

lemma take_eq_mono: "take n xs = take n ys \<Longrightarrow> m \<le> n \<Longrightarrow> take m xs = take m ys"
  by (metis min.absorb1 take_take)

lemma takeWhile_notin: "c \<notin> set (takeWhile (\<lambda>d. d \<noteq> c) xs)"
  using set_takeWhileD by force

lemma find_append:
  "find P (xs @ ys) = (case find P xs of None \<Rightarrow> find P ys | Some x \<Rightarrow> Some x)"
  by (induction xs) auto

lemma length_takeWhile_less_iff:
  "length (takeWhile P xs) < length xs \<longleftrightarrow> (\<exists>x\<in>set xs. \<not> P x)"
  by (induction xs) auto

lemma nth_length_takeWhile_eq:
  "c \<in> set s \<Longrightarrow> s ! length (takeWhile (\<lambda>d. d \<noteq> c) s) = c"
  by (induction s) auto

lemma strchr_Some_iff: "strchr s c = Some i \<longleftrightarrow> c \<in> set s \<and> i = length (takeWhile (\<lambda>d. d \<noteq> c) s)"
  by (auto simp: strchr_def Let_def length_takeWhile_less_iff split: if_splits)

lemma strchr_None_iff [simp]: "strchr s c = None \<longleftrightarrow> c \<notin> set s"
  by (auto simp: strchr_def Let_def length_takeWhile_less_iff)

lemma strcspn_single [cstring_simps]: "strcspn s [c] = length (takeWhile (\<lambda>d. d \<noteq> c) s)"
  by (simp add: strcspn_def)

lemma char_at_strcspn [cstring_simps]:
  "c \<noteq> NUL \<Longrightarrow> char_at s (length (takeWhile (\<lambda>d. d \<noteq> c) s)) = c \<longleftrightarrow> c \<in> set s"
  by (auto simp: char_at_def length_takeWhile_less_iff nth_length_takeWhile_eq)

lemma char_at_append_length [simp]: "char_at (p @ r) (length p) = char_at r 0"
  by (auto simp: char_at_def nth_append)

lemma char_at_append_Suc [simp]: "char_at (p @ r) (Suc (length p)) = char_at r 1"
  by (auto simp: char_at_def nth_append)

lemma char_at_Nil [simp]: "char_at [] i = NUL"
  by (simp add: char_at_def)

lemma char_at_Cons_0 [simp]: "char_at (c # s) 0 = c"
  by (simp add: char_at_def)

lemma char_at_Cons_Suc [simp]: "char_at (c # s) (Suc i) = char_at s i"
  by (simp add: char_at_def)

section \<open>Assertions\<close>

text \<open>\<open>nih_assert (b)\<close>: continue, or abort.\<close>

definition nih_assert :: "bool \<Rightarrow> unit option" where
  "nih_assert b = (if b then Some () else None)"

lemma nih_assert_True [simp]: "nih_assert True = Some ()"
  by (simp add: nih_assert_def)

lemma nih_assert_eq_Some [simp]: "nih_assert b = Some u \<longleftrightarrow> b"
  by (simp add: nih_assert_def)

lemma bind_nih_assert_eq_Some [simp]:
  "Option.bind (nih_assert b) f = Some x \<longleftrightarrow> b \<and> f () = Some x"
  by (simp add: nih_assert_def)

lemma bind_eq_Some_E:
  assumes "Option.bind m f = Some y"
  obtains x where "m = Some x" and "f x = Some y"
  using assms by (cases m) auto

text \<open>One step of a chain of name comparisons.\<close>

lemma if_Some_E:
  assumes "(if b then Some c else r) = Some x"
  obtains "b" and "x = c" | "r = Some x"
  using assms by (cases b) simp_all

section \<open>Loops that may abort\<close>

fun foldM :: "('a \<Rightarrow> 's \<Rightarrow> 's option) \<Rightarrow> 'a list \<Rightarrow> 's \<Rightarrow> 's option" where
  "foldM f [] s = Some s"
| "foldM f (x # xs) s = Option.bind (f x s) (foldM f xs)"

lemma foldM_append: "foldM f (xs @ ys) s = Option.bind (foldM f xs s) (foldM f ys)"
  by (induction xs arbitrary: s) (auto split: Option.bind_splits)

section \<open>Decimal numbers\<close>

text \<open>\<open>printf\<close>'s \<^verbatim>\<open>%d\<close>.\<close>

function show_nat :: "nat \<Rightarrow> string" where
  "show_nat n = (if n < 10 then [char_of (48 + n)] else show_nat (n div 10) @ [char_of (48 + n mod 10)])"
  by pat_completeness auto
termination
  by (relation "measure id") auto

declare show_nat.simps [simp del]

definition show_int :: "int \<Rightarrow> string" where
  "show_int i = (if i < 0 then CHR ''-'' # show_nat (nat (- i)) else show_nat (nat i))"

section \<open>Interfaces\<close>

text \<open>
  A table of key/value entries. \<open>put\<close> stores one entry; what a later \<open>get\<close> returns is its
  only observable effect. Clients store whole lists of entries.
\<close>

locale kv_table =
  fixes get :: "'t \<Rightarrow> 'k \<Rightarrow> 'v option"
    and put :: "'x \<Rightarrow> 't \<Rightarrow> 't"
    and key_of :: "'x \<Rightarrow> 'k"
    and val_of :: "'x \<Rightarrow> 'v"
    and entry_ok :: "'x \<Rightarrow> bool"
    and key_ok :: "'k \<Rightarrow> bool"
    and inv :: "'t \<Rightarrow> bool"
  assumes get_put: "inv t \<Longrightarrow> entry_ok x \<Longrightarrow> key_ok k \<Longrightarrow>
      get (put x t) k = (if k = key_of x then Some (val_of x) else get t k)"
    and inv_put: "inv t \<Longrightarrow> entry_ok x \<Longrightarrow> inv (put x t)"
begin

lemma inv_fold_put: "inv t \<Longrightarrow> (\<forall>x\<in>set xs. entry_ok x) \<Longrightarrow> inv (fold put xs t)"
  by (induction xs arbitrary: t) (auto simp: inv_put)

text \<open>Storing a list of entries overrides the table by the list, the last entry of a key winning.\<close>

lemma get_fold_put:
  assumes "inv t" and "\<forall>x\<in>set xs. entry_ok x" and "key_ok k"
  shows "get (fold put xs t) k =
    (case map_of (rev (map (\<lambda>x. (key_of x, val_of x)) xs)) k of
       Some v \<Rightarrow> Some v | None \<Rightarrow> get t k)"
  using assms
proof (induction xs rule: rev_induct)
  case Nil
  then show ?case by simp
next
  case (snoc x xs)
  then have "inv (fold put xs t)" by (auto intro: inv_fold_put)
  with snoc show ?case by (auto simp: get_put)
qed

text \<open>Storing the same list a second time changes no answer.\<close>

lemma get_fold_put_twice:
  assumes "inv t" and "\<forall>x\<in>set xs. entry_ok x" and "key_ok k"
  shows "get (fold put xs (fold put xs t)) k = get (fold put xs t) k"
  using assms by (simp add: get_fold_put inv_fold_put split: option.splits)

end

text \<open>
  A store of counted references. \<open>acquire\<close> and \<open>release\<close> fail (abort) for what is not there,
  and \<open>release\<close> for a count that is zero. Clients hold lists of references.
\<close>

locale refcounted =
  fixes acquire :: "'r \<Rightarrow> 's \<Rightarrow> 's option"
    and release :: "'r \<Rightarrow> 's \<Rightarrow> 's option"
    and refs :: "'s \<Rightarrow> 'r \<Rightarrow> nat"
    and present :: "'s \<Rightarrow> 'r set"
  assumes acquire_present: "acquire r s \<noteq> None \<longleftrightarrow> r \<in> present s"
    and acquire_refs: "acquire r s = Some s' \<Longrightarrow> refs s' = (refs s)(r := Suc (refs s r))"
    and present_acquire: "acquire r s = Some s' \<Longrightarrow> present s' = present s"
    and release_present: "release r s \<noteq> None \<longleftrightarrow> r \<in> present s \<and> 0 < refs s r"
    and release_refs: "release r s = Some s' \<Longrightarrow> refs s' = (refs s)(r := refs s r - 1)"
    and present_release: "release r s = Some s' \<Longrightarrow> present s' = present s"
begin

lemma acquire_all:
  assumes "set rs \<subseteq> present s"
  obtains s' where "foldM acquire rs s = Some s'" and "present s' = present s"
    and "\<And>r. refs s' r = refs s r + count_list rs r"
  using assms
proof (induction rs arbitrary: s thesis)
  case Nil
  then show ?case by simp
next
  case (Cons q rs)
  have "acquire q s \<noteq> None" using Cons.prems(2) acquire_present by simp
  then obtain s1 where s1: "acquire q s = Some s1" by blast
  have "set rs \<subseteq> present s1" using Cons.prems present_acquire [OF s1] by simp
  then obtain s' where "foldM acquire rs s1 = Some s'" "present s' = present s1"
    "\<And>r. refs s' r = refs s1 r + count_list rs r"
    using Cons.IH by blast
  then show ?case
    using s1 acquire_refs [OF s1] present_acquire [OF s1] by (intro Cons.prems(1) [of s']) auto
qed

text \<open>References can be given up exactly as often as they are held.\<close>

lemma release_all:
  assumes "set rs \<subseteq> present s" and "\<And>r. count_list rs r \<le> refs s r"
  obtains s' where "foldM release rs s = Some s'" and "present s' = present s"
    and "\<And>r. refs s' r = refs s r - count_list rs r"
  using assms
proof (induction rs arbitrary: s thesis)
  case Nil
  then show ?case by simp
next
  case (Cons q rs)
  have "0 < refs s q" using Cons.prems(3) [of q] by simp
  then have "release q s \<noteq> None" using Cons.prems(2) release_present by simp
  then obtain s1 where s1: "release q s = Some s1" by blast
  have sub: "set rs \<subseteq> present s1" using Cons.prems present_release [OF s1] by simp
  have cnt: "count_list rs r \<le> refs s1 r" for r
    using Cons.prems(3) [of r] release_refs [OF s1] by (auto split: if_splits)
  obtain s' where "foldM release rs s1 = Some s'" "present s' = present s1"
    "\<And>r. refs s' r = refs s1 r - count_list rs r"
    using Cons.IH sub cnt by metis
  then show ?case
    using s1 release_refs [OF s1] present_release [OF s1] by (intro Cons.prems(1) [of s']) auto
qed

lemma release_all_iff:
  "foldM release rs s \<noteq> None \<longleftrightarrow> set rs \<subseteq> present s \<and> (\<forall>r. count_list rs r \<le> refs s r)"
proof
  assume "foldM release rs s \<noteq> None"
  then show "set rs \<subseteq> present s \<and> (\<forall>r. count_list rs r \<le> refs s r)"
  proof (induction rs arbitrary: s)
    case Nil
    then show ?case by simp
  next
    case (Cons q rs)
    then obtain s1 where s1: "release q s = Some s1" and "foldM release rs s1 \<noteq> None"
      by (auto split: Option.bind_splits)
    then have "set rs \<subseteq> present s1" and cnt: "count_list rs r \<le> refs s1 r" for r
      using Cons.IH by auto
    moreover have q: "0 < refs s q" "q \<in> present s" using s1 release_present [of q s] by auto
    moreover have "count_list (q # rs) r \<le> refs s r" for r
      using cnt [of r] q release_refs [OF s1] by (cases "r = q") auto
    ultimately show ?case using present_release [OF s1] by auto
  qed
next
  assume "set rs \<subseteq> present s \<and> (\<forall>r. count_list rs r \<le> refs s r)"
  then show "foldM release rs s \<noteq> None" by (metis option.distinct(1) release_all)
qed

text \<open>What was acquired can be released, whatever the order, and leaves the counts as they were.\<close>

lemma release_acquired:
  assumes "foldM acquire rs s = Some s1" and "set rs \<subseteq> present s" and "\<And>r. count_list qs r = count_list rs r"
  obtains s2 where "foldM release qs s1 = Some s2" and "refs s2 = refs s" and "present s2 = present s"
proof -
  obtain s' where s': "foldM acquire rs s = Some s'" "present s' = present s"
    "\<And>r. refs s' r = refs s r + count_list rs r"
    using acquire_all [OF assms(2)] by blast
  then have eq: "s' = s1" using assms(1) by simp
  have "set qs = set rs" using assms(3) by (metis count_list_0_iff subsetI subset_antisym)
  then have "set qs \<subseteq> present s1" and "count_list qs r \<le> refs s1 r" for r
    using s' eq assms by auto
  then obtain s2 where "foldM release qs s1 = Some s2" "present s2 = present s1"
    "\<And>r. refs s2 r = refs s1 r - count_list qs r"
    using release_all by blast
  then show thesis using s' eq assms(3) by (intro that [of s2]) auto
qed

end

text \<open>
  An enumeration and its names, as the \<open>..._enum_to_str\<close> / \<open>..._str_to_enum\<close> and
  \<open>..._name\<close> / \<open>..._from_name\<close> pairs define them: \<open>None\<close> is the NULL or -1 that the
  code returns for a value that is not known.
\<close>

locale enum_codec =
  fixes to_str :: "'a \<Rightarrow> string option"
    and from_str :: "string \<Rightarrow> 'a option"
    and known :: "'a \<Rightarrow> bool"
  assumes to_str_known: "to_str x \<noteq> None \<longleftrightarrow> known x"
    and from_to: "to_str x = Some s \<Longrightarrow> from_str s = Some x"
    and to_from: "from_str s = Some x \<Longrightarrow> to_str x = Some s"
begin

lemma from_str_iff: "from_str s = Some x \<longleftrightarrow> to_str x = Some s"
  using from_to to_from by blast

lemma to_str_inj: "to_str x = Some s \<Longrightarrow> to_str y = Some s \<Longrightarrow> x = y"
  by (metis from_to option.inject)

lemma round_trip: "known x \<Longrightarrow> Option.bind (to_str x) from_str = Some x"
  using to_str_known [of x] by (auto simp: from_to)

lemma unknown_name: "(\<And>x. to_str x \<noteq> Some s) \<Longrightarrow> from_str s = None"
  using to_from by (cases "from_str s") auto

end

text \<open>The conditions to check value by value, and name by name.\<close>

lemma enum_codecI:
  assumes "\<And>x. to_str x = None \<longleftrightarrow> \<not> known x" and "\<And>x. to_str x = None \<or> Option.bind (to_str x) from_str = Some x"
    and "\<And>s x. from_str s = Some x \<Longrightarrow> to_str x = Some s"
  shows "enum_codec to_str from_str known"
proof
  show "to_str x = Some s \<Longrightarrow> from_str s = Some x" for x s
    using assms(2) [of x] by simp
qed (use assms(1,3) in auto)

end
