(* ===== verification/Environ.thy ===== *)
theory Environ
  imports Prelude
begin

text \<open>
  \<^verbatim>\<open>src/init/environ.c\<close>: tables of environment variables. A table is the list of its
  \<^verbatim>\<open>KEY=VALUE\<close> strings. \<open>genv\<close> is the environment of the init process itself, as
  \<^verbatim>\<open>getenv\<close> answers it. The expansion of references is in theory \<open>Expand\<close>.

  The well-formedness invariant \<open>env_ok\<close> (every entry has an \<open>=\<close>, no key twice) is kept by
  every operation, and under it a table is the map \<open>environ_get\<close>: the operations are proved
  to be updates of that map.
\<close>

section \<open>Definitions\<close>

text \<open>\<^verbatim>\<open>environ_lookup\<close>: the index of the entry whose first \<open>len\<close> characters are those of
  the key and are followed by \<open>=\<close>.\<close>

fun environ_lookup :: "string list \<Rightarrow> string \<Rightarrow> nat \<Rightarrow> nat option" where
  "environ_lookup [] key len = None"
| "environ_lookup (e # es) key len =
     (if strncmp_eq e key len \<and> char_at e len = CHR ''='' then Some 0
      else map_option Suc (environ_lookup es key len))"

text \<open>\<^verbatim>\<open>environ_getn\<close>: the value after the entry's first \<open>=\<close>. The second \<open>None\<close> is the
  assertion that the entry has one; lemma \<open>environ_getn_assert\<close> shows that it holds.\<close>

definition environ_getn :: "string list \<Rightarrow> string \<Rightarrow> nat \<Rightarrow> string option" where
  "environ_getn env key len =
     (case environ_lookup env key len of
        None \<Rightarrow> None
      | Some i \<Rightarrow>
          (case strchr (env ! i) CHR ''='' of
             None \<Rightarrow> None
           | Some p \<Rightarrow> Some (drop (Suc p) (env ! i))))"

definition environ_get :: "string list \<Rightarrow> string \<Rightarrow> string option" where
  "environ_get env key = environ_getn env key (length key)"

text \<open>\<^verbatim>\<open>environ_add\<close>: the new entry is the string itself when it has an \<open>=\<close>, and otherwise
  takes its value from init's environment; when there is none, replacing removes.\<close>

definition environ_new_str :: "(string \<Rightarrow> string option) \<Rightarrow> string \<Rightarrow> string option" where
  "environ_new_str genv str =
     (if char_at str (strcspn str ''='') = CHR ''='' then Some str
      else map_option (\<lambda>v. str @ ''='' @ v) (genv str))"

definition environ_add ::
    "(string \<Rightarrow> string option) \<Rightarrow> bool \<Rightarrow> string \<Rightarrow> string list \<Rightarrow> string list" where
  "environ_add genv replace str env =
     (let key = strcspn str ''='';
          new_str = environ_new_str genv str
      in case environ_lookup env str key of
           Some i \<Rightarrow>
             if replace then
               (case new_str of
                  Some s \<Rightarrow> env[i := s]
                | None \<Rightarrow> take i env @ drop (Suc i) env)
             else env
         | None \<Rightarrow>
             (case new_str of
                Some s \<Rightarrow> env @ [s]
              | None \<Rightarrow> env))"

text \<open>\<^verbatim>\<open>environ_set\<close> formats a string and adds it.\<close>

definition environ_set ::
    "(string \<Rightarrow> string option) \<Rightarrow> bool \<Rightarrow> string \<Rightarrow> string list \<Rightarrow> string list" where
  "environ_set genv replace str env = environ_add genv replace str env"

fun environ_append ::
    "(string \<Rightarrow> string option) \<Rightarrow> bool \<Rightarrow> string list \<Rightarrow> string list \<Rightarrow> string list" where
  "environ_append genv replace [] env = env"
| "environ_append genv replace (e # es) env =
     environ_append genv replace es (environ_add genv replace e env)"

text \<open>
  \<^verbatim>\<open>environ_remove\<close>: the loop compares the first \<open>keylen\<close> characters of the name given with
  the entry, \<open>keylen\<close> being the length of the entry's own key; after the entries above a
  removed one have been moved down, the loop steps past the one that took its place.
  \<open>None\<close> is the NULL returned for an empty table.
\<close>

fun environ_remove_loop :: "string \<Rightarrow> string list \<Rightarrow> string list" where
  "environ_remove_loop str [] = []"
| "environ_remove_loop str (e # es) =
     (if strncmp_eq str e (strcspn e ''='') then
        (case es of [] \<Rightarrow> [] | e' # es' \<Rightarrow> e' # environ_remove_loop str es')
      else e # environ_remove_loop str es)"

definition environ_remove :: "string \<Rightarrow> string list \<Rightarrow> string list option" where
  "environ_remove str env = (if length env < 1 then None else Some (environ_remove_loop str env))"

fun environ_all_valid :: "string list \<Rightarrow> bool" where
  "environ_all_valid [] = True"
| "environ_all_valid (e # es) =
     (case strchr e CHR ''='' of None \<Rightarrow> False | Some _ \<Rightarrow> environ_all_valid es)"

section \<open>Entries and well-formed tables\<close>

definition entry_key :: "string \<Rightarrow> string" where
  "entry_key e = takeWhile (\<lambda>c. c \<noteq> CHR ''='') e"

definition entry_val :: "string \<Rightarrow> string" where
  "entry_val e = tl (dropWhile (\<lambda>c. c \<noteq> CHR ''='') e)"

definition entry_valid :: "string \<Rightarrow> bool" where
  "entry_valid e \<longleftrightarrow> CHR ''='' \<in> set e"

definition key_valid :: "string \<Rightarrow> bool" where
  "key_valid k \<longleftrightarrow> CHR ''='' \<notin> set k"

definition env_ok :: "string list \<Rightarrow> bool" where
  "env_ok env \<longleftrightarrow> (\<forall>e\<in>set env. entry_valid e) \<and> distinct (map entry_key env)"

definition env_map :: "string list \<Rightarrow> string \<Rightarrow> string option" where
  "env_map env = map_of (map (\<lambda>e. (entry_key e, entry_val e)) env)"

lemma key_valid_entry_key [simp]: "key_valid (entry_key e)"
  by (simp add: key_valid_def entry_key_def takeWhile_notin)

lemma entry_key_bare: "\<not> entry_valid e \<Longrightarrow> entry_key e = e"
  by (auto simp: entry_key_def entry_valid_def)

lemma entry_key_val: "entry_valid e \<Longrightarrow> entry_key e @ CHR ''='' # entry_val e = e"
  by (induction e) (auto simp: entry_key_def entry_val_def entry_valid_def)

lemma entry_key_append [simp]: "key_valid k \<Longrightarrow> entry_key (k @ CHR ''='' # v) = k"
  by (induction k) (auto simp: entry_key_def key_valid_def)

lemma entry_val_append [simp]: "key_valid k \<Longrightarrow> entry_val (k @ CHR ''='' # v) = v"
  by (induction k) (auto simp: entry_val_def key_valid_def)

lemma entry_valid_append [simp]: "entry_valid (k @ CHR ''='' # v)"
  by (simp add: entry_valid_def)

lemma strcspn_entry_key: "strcspn e ''='' = length (entry_key e)"
  by (simp add: strcspn_single entry_key_def)

lemma take_strcspn: "take (strcspn e ''='') e = entry_key e"
  by (metis entry_key_def strcspn_entry_key takeWhile_eq_take)

lemma drop_after_eq: "drop (Suc (length (takeWhile (\<lambda>c. c \<noteq> CHR ''='') e))) e = entry_val e"
  by (induction e) (auto simp: entry_val_def)

lemma take_prefix_key_iff:
  assumes "key_valid k"
  shows "take (length k) e = k \<and> char_at e (length k) = CHR ''='' \<longleftrightarrow>
    entry_valid e \<and> entry_key e = k"
  using assms
proof (induction k arbitrary: e)
  case Nil
  then show ?case
    by (cases e) (auto simp: entry_valid_def entry_key_def NUL_def)
next
  case (Cons c k)
  then show ?case
    by (cases e) (auto simp: entry_valid_def entry_key_def key_valid_def NUL_def)
qed

lemma environ_lookup_find:
  assumes "take len key = k" and "length k = len" and "key_valid k"
  shows "environ_lookup env key len = Some i \<longleftrightarrow>
    i < length env \<and> entry_valid (env ! i) \<and> entry_key (env ! i) = k \<and>
    (\<forall>j<i. \<not> (entry_valid (env ! j) \<and> entry_key (env ! j) = k))"
proof (induction env arbitrary: i)
  case Nil
  then show ?case by simp
next
  case (Cons e env)
  have hd: "strncmp_eq e key len \<and> char_at e len = CHR ''='' \<longleftrightarrow> entry_valid e \<and> entry_key e = k"
    using take_prefix_key_iff [of k e] assms by (auto simp: strncmp_eq_def)
  show ?case
    by (cases i) (auto simp: hd Cons.IH All_less_Suc2)
qed

lemma environ_lookup_None:
  assumes "take len key = k" and "length k = len" and "key_valid k"
  shows "environ_lookup env key len = None \<longleftrightarrow>
    (\<forall>e\<in>set env. \<not> (entry_valid e \<and> entry_key e = k))"
proof (induction env)
  case Nil
  then show ?case by simp
next
  case (Cons e env)
  have hd: "strncmp_eq e key len \<and> char_at e len = CHR ''='' \<longleftrightarrow> entry_valid e \<and> entry_key e = k"
    using take_prefix_key_iff [of k e] assms by (auto simp: strncmp_eq_def)
  show ?case by (auto simp: hd Cons.IH)
qed

lemma environ_getn_assert:
  "environ_lookup env key len = Some i \<Longrightarrow>
     i < length env \<and> strchr (env ! i) CHR ''='' \<noteq> None"
proof (induction env key len arbitrary: i rule: environ_lookup.induct)
  case (1 key len)
  then show ?case by simp
next
  case (2 e es key len)
  show ?case
  proof (cases "strncmp_eq e key len \<and> char_at e len = CHR ''=''")
    case True
    then have "len < length e" and "e ! len = CHR ''=''"
      by (auto simp: char_at_def NUL_def split: if_splits)
    then have "CHR ''='' \<in> set e" by (metis nth_mem)
    with True 2 show ?thesis by auto
  next
    case False
    with 2 show ?thesis by auto
  qed
qed

lemma environ_getn_eq:
  "environ_getn env key len =
     map_option (\<lambda>i. entry_val (env ! i)) (environ_lookup env key len)"
  using environ_getn_assert [of env key len]
  by (auto simp: environ_getn_def strchr_Some_iff drop_after_eq split: option.splits)


lemma env_map_append [simp]:
  "env_map (env @ env') k = (case env_map env k of Some v \<Rightarrow> Some v | None \<Rightarrow> env_map env' k)"
  by (simp add: env_map_def map_add_def map_of_append [symmetric] split: option.splits)

lemma env_map_Cons [simp]:
  "env_map (e # env) k = (if k = entry_key e then Some (entry_val e) else env_map env k)"
  by (simp add: env_map_def)

lemma env_map_Nil [simp]: "env_map [] k = None"
  by (simp add: env_map_def)

lemma env_map_None: "env_map env k = None \<longleftrightarrow> (\<forall>e\<in>set env. entry_key e \<noteq> k)"
  by (force simp: env_map_def map_of_eq_None_iff)

lemma environ_get_eq_map:
  assumes "\<forall>e\<in>set env. entry_valid e" and "key_valid k"
  shows "environ_get env k = env_map env k"
proof (cases "environ_lookup env k (length k)")
  case None
  with assms have "\<forall>e\<in>set env. entry_key e \<noteq> k"
    by (simp add: environ_lookup_None [of _ _ k])
  then have "env_map env k = None"
    by (auto simp: env_map_def map_of_eq_None_iff)
  with None show ?thesis by (simp add: environ_get_def environ_getn_eq)
next
  case (Some i)
  then have i: "i < length env" "entry_key (env ! i) = k"
    and least: "\<forall>j<i. entry_key (env ! j) \<noteq> k"
    using assms by (auto simp: environ_lookup_find [of _ _ k])
  have "env = take i env @ env ! i # drop (Suc i) env"
    using i(1) by (simp add: id_take_nth_drop)
  moreover have "k \<notin> entry_key ` set (take i env)"
    using least i(1) by (fastforce simp: in_set_conv_nth)
  then have "env_map (take i env) k = None"
    unfolding env_map_None by (metis imageI)
  ultimately have "env_map env k = Some (entry_val (env ! i))"
    using i(2) by (metis env_map_Cons env_map_append option.simps(4))
  with Some show ?thesis by (simp add: environ_get_def environ_getn_eq)
qed

section \<open>Adding an entry\<close>

text \<open>The value an added string carries: its own, or the one of init's environment.\<close>

definition new_value :: "(string \<Rightarrow> string option) \<Rightarrow> string \<Rightarrow> string option" where
  "new_value genv str = (if entry_valid str then Some (entry_val str) else genv str)"

lemma environ_new_str_props:
  "environ_new_str genv str = None \<longleftrightarrow> new_value genv str = None"
  "environ_new_str genv str = Some s \<Longrightarrow>
     entry_valid s \<and> entry_key s = entry_key str \<and> new_value genv str = Some (entry_val s)"
proof -
  have c: "char_at str (strcspn str ''='') = CHR ''='' \<longleftrightarrow> entry_valid str"
    by (simp add: cstring_simps entry_valid_def NUL_def)
  have b: "\<not> entry_valid str \<Longrightarrow> key_valid str"
    by (simp add: entry_valid_def key_valid_def)
  show "environ_new_str genv str = None \<longleftrightarrow> new_value genv str = None"
    by (auto simp: environ_new_str_def c new_value_def)
  show "environ_new_str genv str = Some s \<Longrightarrow>
     entry_valid s \<and> entry_key s = entry_key str \<and> new_value genv str = Some (entry_val s)"
    by (auto simp: environ_new_str_def c new_value_def b entry_key_bare split: if_splits)
qed

lemma lookup_add_key:
  "environ_lookup env str (strcspn str ''='') = environ_lookup env (entry_key str) (length (entry_key str))"
proof -
  have "strncmp_eq e str (strcspn str ''='') = strncmp_eq e (entry_key str) (length (entry_key str))" for e
    by (simp add: strncmp_eq_def take_strcspn) (simp add: strcspn_entry_key)
  then show ?thesis
    by (induction env) (auto simp: strcspn_entry_key)
qed

text \<open>The table split at the entry of a key: what replacing and removing act on.\<close>

lemma env_ok_split:
  assumes "env_ok env" and "i < length env"
  shows "env = take i env @ env ! i # drop (Suc i) env"
    and "env_ok (take i env @ drop (Suc i) env)"
    and "env_map (take i env) (entry_key (env ! i)) = None"
    and "env_map (drop (Suc i) env) (entry_key (env ! i)) = None"
proof -
  show s: "env = take i env @ env ! i # drop (Suc i) env"
    using assms by (simp add: id_take_nth_drop)
  have "distinct (map entry_key (take i env @ env ! i # drop (Suc i) env))"
    using assms(1) s by (simp add: env_ok_def)
  then have d: "distinct (map entry_key (take i env @ drop (Suc i) env))"
    and n1: "entry_key (env ! i) \<notin> entry_key ` set (take i env)"
    and n2: "entry_key (env ! i) \<notin> entry_key ` set (drop (Suc i) env)"
    by auto
  show "env_ok (take i env @ drop (Suc i) env)"
    using assms(1) d by (auto simp: env_ok_def dest: in_set_takeD in_set_dropD)
  show "env_map (take i env) (entry_key (env ! i)) = None"
    using n1 unfolding env_map_None by (metis imageI)
  show "env_map (drop (Suc i) env) (entry_key (env ! i)) = None"
    using n2 unfolding env_map_None by (metis imageI)
qed

lemma environ_lookup_key_None:
  assumes "env_ok env" and "key_valid k"
  shows "environ_lookup env k (length k) = None \<longleftrightarrow> env_map env k = None"
  using assms environ_lookup_None [of "length k" k k env]
  by (auto simp: env_ok_def env_map_None)

lemma environ_lookup_key_Some:
  assumes "env_ok env" and "key_valid k" and "environ_lookup env k (length k) = Some i"
  shows "i < length env" and "entry_key (env ! i) = k"
  using assms environ_lookup_find [of "length k" k k env i] by auto

lemma environ_add_ok:
  assumes "env_ok env"
  shows "env_ok (environ_add genv replace str env)"
    and "env_map (environ_add genv replace str env) k =
      (if k = entry_key str \<and> (replace \<or> env_map env k = None) then new_value genv str
       else env_map env k)"
proof -
  let ?k = "entry_key str"
  let ?l = "environ_lookup env ?k (length ?k)"
  have add: "environ_add genv replace str env =
      (case ?l of
         Some i \<Rightarrow> if replace then
             (case environ_new_str genv str of Some s \<Rightarrow> env[i := s]
              | None \<Rightarrow> take i env @ drop (Suc i) env) else env
       | None \<Rightarrow> (case environ_new_str genv str of Some s \<Rightarrow> env @ [s] | None \<Rightarrow> env))"
    by (simp add: environ_add_def Let_def lookup_add_key)
  have "env_ok (environ_add genv replace str env) \<and>
    env_map (environ_add genv replace str env) k =
      (if k = entry_key str \<and> (replace \<or> env_map env k = None) then new_value genv str
       else env_map env k)"
  proof (cases ?l)
    case None
    then have n: "env_map env ?k = None"
      using environ_lookup_key_None [OF assms, of ?k] by simp
    then have "\<forall>e\<in>set env. entry_key e \<noteq> ?k" by (simp add: env_map_None)
    with None n assms show ?thesis
      using environ_new_str_props [of genv str]
      by (cases "environ_new_str genv str")
        (auto simp: add env_ok_def split: option.splits)
  next
    case (Some i)
    note i = environ_lookup_key_Some [OF assms key_valid_entry_key Some]
    note sp = env_ok_split [OF assms i(1), unfolded i(2)]
    have hit: "env_map env ?k \<noteq> None"
      using environ_lookup_key_None [OF assms, of ?k] Some by simp
    have upd: "env[i := s] = take i env @ s # drop (Suc i) env" for s
      using i(1) by (simp add: upd_conv_take_nth_drop)
    have orig: "env_map env k' =
        (case env_map (take i env) k' of Some v \<Rightarrow> Some v | None \<Rightarrow>
          if k' = ?k then Some (entry_val (env ! i)) else env_map (drop (Suc i) env) k')" for k'
      by (subst sp(1), subst env_map_append, subst env_map_Cons) (simp add: i(2) cong: option.case_cong)
    show ?thesis
    proof (cases "environ_new_str genv str")
      case None
      with Some sp hit show ?thesis
        using environ_new_str_props(1) [of genv str] assms
        by (auto simp: add orig split: option.splits)
    next
      case (Some s)
      then have s: "entry_valid s" "entry_key s = ?k" "new_value genv str = Some (entry_val s)"
        using environ_new_str_props(2) by blast+
      have "distinct (map entry_key (take i env @ s # drop (Suc i) env))"
        using assms sp(1) s(2) i(2) by (metis env_ok_def list.simps(9) map_append)
      moreover have "\<forall>e\<in>set (take i env @ s # drop (Suc i) env). entry_valid e"
        using assms s(1) by (auto simp: env_ok_def dest: in_set_takeD in_set_dropD)
      ultimately have "env_ok (take i env @ s # drop (Suc i) env)"
        by (simp add: env_ok_def)
      with Some s sp hit \<open>?l = Some i\<close> assms show ?thesis
        by (auto simp: add upd orig split: option.splits)
    qed
  qed
  then show "env_ok (environ_add genv replace str env)"
    and "env_map (environ_add genv replace str env) k =
      (if k = entry_key str \<and> (replace \<or> env_map env k = None) then new_value genv str
       else env_map env k)"
    by blast+
qed

section \<open>The table interface\<close>

lemma environ_get_env_map: "env_ok env \<Longrightarrow> key_valid k \<Longrightarrow> environ_get env k = env_map env k"
  by (simp add: environ_get_eq_map env_ok_def)

lemma environ_append_fold: "environ_append genv replace es env = fold (environ_add genv replace) es env"
  by (induction es arbitrary: env) auto

interpretation env: kv_table environ_get "environ_add genv True" entry_key entry_val entry_valid
  key_valid env_ok for genv
proof unfold_locales
  fix env :: "string list" and e k :: string
  assume "env_ok env" and "entry_valid e" and "key_valid k"
  then show "environ_get (environ_add genv True e env) k =
      (if k = entry_key e then Some (entry_val e) else environ_get env k)"
    by (simp add: environ_get_env_map environ_add_ok new_value_def)
next
  fix env :: "string list" and e :: string
  assume "env_ok env" and "entry_valid e"
  then show "env_ok (environ_add genv True e env)" by (simp add: environ_add_ok)
qed

lemma env_ok_append: "env_ok env \<Longrightarrow> env_ok (environ_append genv replace es env)"
  by (induction es arbitrary: env) (auto simp: environ_add_ok)

lemma env_ok_Nil [simp]: "env_ok []"
  by (simp add: env_ok_def)

lemma environ_all_valid_iff: "environ_all_valid env \<longleftrightarrow> (\<forall>e\<in>set env. entry_valid e)"
  by (induction env) (auto simp: entry_valid_def strchr_Some_iff split: option.splits)

lemma strncmp_entry_key: "strncmp_eq str e (strcspn e ''='') \<longleftrightarrow> take (length (entry_key e)) str = entry_key e"
  by (metis strncmp_eq_def take_strcspn strcspn_entry_key)

lemma environ_remove_loop_id:
  "(\<forall>e\<in>set env. take (length (entry_key e)) k \<noteq> entry_key e) \<Longrightarrow> environ_remove_loop k env = env"
  by (induction env) (auto simp: strncmp_entry_key)

lemma environ_remove_loop_filter:
  assumes "distinct (map entry_key env)"
    and "\<forall>e\<in>set env. entry_key e \<noteq> k \<longrightarrow> take (length (entry_key e)) k \<noteq> entry_key e"
  shows "environ_remove_loop k env = filter (\<lambda>e. entry_key e \<noteq> k) env"
  using assms
proof (induction env)
  case Nil
  then show ?case by simp
next
  case (Cons e env)
  show ?case
  proof (cases "entry_key e = k")
    case True
    with Cons.prems(1) have n: "\<forall>x\<in>set env. entry_key x \<noteq> k"
      by (metis distinct.simps(2) image_eqI list.simps(9) set_map)
    with Cons.prems have "\<forall>x\<in>set (tl env). take (length (entry_key x)) k \<noteq> entry_key x"
      by (cases env) auto
    then have "environ_remove_loop k (tl env) = tl env" by (rule environ_remove_loop_id)
    moreover have "strncmp_eq k e (strcspn e ''='')" using True by (simp add: strncmp_entry_key)
    ultimately show ?thesis using True n by (cases env) (auto simp: filter_id_conv)
  next
    case False
    with Cons show ?thesis by (auto simp: strncmp_entry_key)
  qed
qed

section \<open>Properties\<close>

text \<open>C36: \<^verbatim>\<open>environ_add\<close> on a well-formed table keeps it well-formed and is an update of the
  map \<^verbatim>\<open>environ_get\<close> at the key of the string added: with \<open>replace\<close>, or when the key is
  unset, the key gets the string's value, or for a bare \<^verbatim>\<open>KEY\<close> the value init itself has
  (and is unset when it has none); every other key keeps its value.\<close>

theorem environ_add_updates:
  assumes "env_ok env" and "key_valid k"
  shows "env_ok (environ_add genv replace str env) \<and>
    environ_get (environ_add genv replace str env) k =
      (if k = entry_key str \<and> (replace \<or> environ_get env k = None) then new_value genv str
       else environ_get env k)"
  using assms by (auto simp: environ_get_env_map environ_add_ok)

theorem environ_add_updates_witness:
  "environ_get (environ_add (\<lambda>_. None) True ''TERM=vt100'' [''PATH=/bin'', ''TERM=linux'']) ''TERM''
     = Some ''vt100''"
  using environ_add_updates [of "[''PATH=/bin'', ''TERM=linux'']" "''TERM''" "\<lambda>_. None" True "''TERM=vt100''"]
  by (simp add: env_ok_def entry_valid_def entry_key_def key_valid_def new_value_def entry_val_def)

text \<open>\<^verbatim>\<open>environ_append\<close> with \<open>replace\<close> overrides the table by the given list of
  \<^verbatim>\<open>KEY=VALUE\<close> strings: a key of the list has the value of its last entry there, every other
  key keeps its value, and the table stays well-formed.\<close>

theorem environ_append_overrides:
  assumes "env_ok env" and "environ_all_valid new_env" and "key_valid k"
  shows "env_ok (environ_append genv True new_env env) \<and>
    environ_get (environ_append genv True new_env env) k =
      (case map_of (rev (map (\<lambda>e. (entry_key e, entry_val e)) new_env)) k of
         Some v \<Rightarrow> Some v | None \<Rightarrow> environ_get env k)"
  using assms env.get_fold_put [of env new_env k genv]
  by (auto simp: environ_append_fold environ_all_valid_iff env.inv_fold_put)

theorem environ_append_overrides_witness:
  "environ_get (environ_append (\<lambda>_. None) True [''A=1'', ''B=2'', ''A=3''] [''A=0'', ''C=9'']) ''A''
     = Some ''3''"
  using environ_append_overrides
    [of "[''A=0'', ''C=9'']" "[''A=1'', ''B=2'', ''A=3'']" "''A''" "\<lambda>_. None"]
  by (simp add: env_ok_def entry_valid_def entry_key_def key_valid_def entry_val_def
      environ_all_valid_iff)

text \<open>\<^verbatim>\<open>environ_remove\<close> removes exactly the entry of the name given and keeps the order of
  the others, on a well-formed table in which no other key is a prefix of that name; on an empty
  table it returns NULL.\<close>

theorem environ_remove_exact:
  assumes "env_ok env" and "env \<noteq> []"
    and "\<forall>e\<in>set env. entry_key e \<noteq> k \<longrightarrow> take (length (entry_key e)) k \<noteq> entry_key e"
  shows "environ_remove k env = Some (filter (\<lambda>e. entry_key e \<noteq> k) env) \<and>
    environ_remove k [] = None"
  using assms environ_remove_loop_filter [of env k]
  by (cases env) (auto simp: environ_remove_def env_ok_def)

theorem environ_remove_exact_witness:
  "environ_remove ''TERM'' [''PATH=/bin'', ''TERM=linux'', ''HOME=/''] =
     Some [''PATH=/bin'', ''HOME=/'']"
  using environ_remove_exact [of "[''PATH=/bin'', ''TERM=linux'', ''HOME=/'']" "''TERM''"]
  by (simp add: env_ok_def entry_valid_def entry_key_def)

text \<open>Without that condition \<^verbatim>\<open>environ_remove\<close> takes out other variables: it compares only as many characters as the
  entry's own key has, so that an entry whose key is a prefix of the name given is removed although it is a different variable.
  Entries with other keys always stay, in their order; of two entries in a row with such keys the second one stays too, because
  the loop steps past the entry that follows a removed one.\<close>

definition key_prefix :: "string \<Rightarrow> string \<Rightarrow> bool" where
  "key_prefix k e \<longleftrightarrow> take (length (entry_key e)) k = entry_key e"

lemma environ_remove_loop_keeps:
  "filter (\<lambda>e. \<not> key_prefix k e) (environ_remove_loop k env) = filter (\<lambda>e. \<not> key_prefix k e) env"
  by (induction k env rule: environ_remove_loop.induct)
    (auto simp: strncmp_entry_key key_prefix_def split: list.splits)

lemma environ_remove_prefixes:
  assumes "env \<noteq> []"
  shows "\<exists>env'. environ_remove k env = Some env' \<and>
    filter (\<lambda>e. \<not> key_prefix k e) env' = filter (\<lambda>e. \<not> key_prefix k e) env \<and>
    (\<forall>e es es'. env = es @ e # es' \<longrightarrow> key_prefix k e \<longrightarrow> (\<forall>x\<in>set es. \<not> key_prefix k x) \<longrightarrow>
       env' = es @ take 1 es' @ environ_remove_loop k (drop 1 es'))"
proof -
  have loop: "environ_remove_loop k (es @ e # es') = es @ take 1 es' @ environ_remove_loop k (drop 1 es')"
    if "key_prefix k e" "\<forall>x\<in>set es. \<not> key_prefix k x" for e es es'
    using that by (induction es) (auto simp: strncmp_entry_key key_prefix_def split: list.splits)
  then show ?thesis using assms environ_remove_loop_keeps [of k env] by (auto simp: environ_remove_def Suc_le_eq)
qed

lemma environ_remove_takes_prefix: "environ_remove ''PATHS'' [''HOME=/'', ''PATH=/bin'', ''TERM=vt100''] = Some [''HOME=/'', ''TERM=vt100'']"
  by code_simp

end
