(* ===== verification/Expand.thy ===== *)
theory Expand
  imports Environ
begin

text \<open>
  \<^verbatim>\<open>environ_expand\<close> and \<^verbatim>\<open>environ_expand_until\<close> of \<^verbatim>\<open>src/init/environ.c\<close>: the in-place
  expansion of \<^verbatim>\<open>$KEY\<close> and \<^verbatim>\<open>${...}\<close> references. The state of the C function is the
  buffer and the position in it; the function calls itself for the name and the argument
  of a bracketed reference, on the same buffer.

  \<open>expand_spec\<close> is the specification: it reads the rest of the input only, and says
  what text is produced and what input is left. \<open>environ_expand_until_spec\<close> shows that
  the in-place algorithm implements it, whatever the buffer holds before the position.
\<close>

section \<open>Definitions\<close>

datatype expand_error =
    ENVIRON_EXPECTED_OPERATOR
  | ENVIRON_MISMATCHED_BRACES
  | ENVIRON_UNKNOWN_PARAM string

datatype expand_op = OP_VALUE | OP_DEFAULT | OP_ALTERNATE

definition is_name_start :: "char \<Rightarrow> bool" where
  "is_name_start c \<longleftrightarrow> c = CHR ''_''
     \<or> (of_char CHR ''A'' \<le> (of_char c :: nat) \<and> (of_char c :: nat) \<le> of_char CHR ''Z'')
     \<or> (of_char CHR ''a'' \<le> (of_char c :: nat) \<and> (of_char c :: nat) \<le> of_char CHR ''z'')"

definition is_name_char :: "char \<Rightarrow> bool" where
  "is_name_char c \<longleftrightarrow> is_name_start c
     \<or> (of_char CHR ''0'' \<le> (of_char c :: nat) \<and> (of_char c :: nat) \<le> of_char CHR ''9'')"

text \<open>The loop that looks for the next \<open>$\<close>, a character of \<open>until\<close> or the end.\<close>

definition expand_skip :: "string \<Rightarrow> string \<Rightarrow> nat \<Rightarrow> nat" where
  "expand_skip until str pos =
     pos + length (takeWhile (\<lambda>c. c \<noteq> CHR ''$'' \<and> c \<notin> set until) (drop pos str))"

text \<open>The operator after the name of a bracketed reference: the operation, whether an empty
  value counts as unset, and where the argument starts.\<close>

definition expand_operator :: "string \<Rightarrow> nat \<Rightarrow> expand_error + (expand_op \<times> bool \<times> nat)" where
  "expand_operator str pos =
     (if char_at str pos = CHR '':'' \<and> char_at str (pos + 1) = CHR ''-'' then
        Inr (OP_DEFAULT, True, pos + 2)
      else if char_at str pos = CHR '':'' \<and> char_at str (pos + 1) = CHR ''+'' then
        Inr (OP_ALTERNATE, True, pos + 2)
      else if char_at str pos = CHR ''-'' then Inr (OP_DEFAULT, False, pos + 1)
      else if char_at str pos = CHR ''+'' then Inr (OP_ALTERNATE, False, pos + 1)
      else if char_at str pos \<noteq> CHR ''}'' \<and> char_at str pos \<noteq> NUL then
        Inl ENVIRON_EXPECTED_OPERATOR
      else Inr (OP_VALUE, False, pos))"

text \<open>The lookup and the choice of the text to substitute.\<close>

definition expand_value ::
    "string list \<Rightarrow> expand_op \<Rightarrow> bool \<Rightarrow> string \<Rightarrow> string \<Rightarrow> expand_error + string" where
  "expand_value env op ignore_empty name arg =
     (let value = environ_getn env name (length name);
          unset = (value = None \<or> (ignore_empty \<and> value = Some []))
      in case op of
           OP_VALUE \<Rightarrow>
             (case value of None \<Rightarrow> Inl (ENVIRON_UNKNOWN_PARAM name) | Some v \<Rightarrow> Inr v)
         | OP_DEFAULT \<Rightarrow> Inr (if unset then arg else the value)
         | OP_ALTERNATE \<Rightarrow> Inr (if unset then [] else arg))"

text \<open>The substitution of the text between \<open>start\<close> and \<open>end\<close> and the new position.\<close>

definition expand_subst :: "string \<Rightarrow> nat \<Rightarrow> nat \<Rightarrow> string \<Rightarrow> string \<times> nat" where
  "expand_subst str start end value =
     (take start str @ value @ drop end str,
      if length value > end - start then end + (length value - (end - start))
      else end - ((end - start) - length value))"

function (domintros) environ_expand_until ::
    "string list \<Rightarrow> string \<Rightarrow> string \<Rightarrow> nat \<Rightarrow> expand_error + (string \<times> nat)" where
  "environ_expand_until env until str pos0 =
     (let start = expand_skip until str pos0; pos = start + 1; c = char_at str pos
      in if char_at str start \<noteq> CHR ''$'' then Inr (str, start)
      else if is_name_start c then
        (let end = pos + 1 + length (takeWhile is_name_char (drop (pos + 1) str))
         in case expand_value env OP_VALUE False (take (end - pos) (drop pos str)) [] of
              Inl e \<Rightarrow> Inl e
            | Inr v \<Rightarrow> environ_expand_until env until
                (fst (expand_subst str start end v)) (snd (expand_subst str start end v)))
      else if c = CHR ''{'' \<and> char_at str (pos + 1) = CHR ''}'' then
        environ_expand_until env until
          (fst (expand_subst str start (pos + 2) ''$'')) (snd (expand_subst str start (pos + 2) ''$''))
      else if c = CHR ''{'' then
        (case environ_expand_until env ''}:-+'' str (pos + 1) of
           Inl e \<Rightarrow> Inl e
         | Inr (str1, name_end) \<Rightarrow>
             (case expand_operator str1 name_end of
                Inl e \<Rightarrow> Inl e
              | Inr (op, ignore_empty, arg_start) \<Rightarrow>
                  (case environ_expand_until env ''}'' str1 arg_start of
                     Inl e \<Rightarrow> Inl e
                   | Inr (str2, arg_end) \<Rightarrow>
                       if char_at str2 arg_end \<noteq> CHR ''}'' then Inl ENVIRON_MISMATCHED_BRACES
                       else
                         (case expand_value env op ignore_empty
                                 (take (name_end - (pos + 1)) (drop (pos + 1) str2))
                                 (take (arg_end - arg_start) (drop arg_start str2)) of
                            Inl e \<Rightarrow> Inl e
                          | Inr v \<Rightarrow> environ_expand_until env until
                              (fst (expand_subst str2 start (arg_end + 1) v))
                              (snd (expand_subst str2 start (arg_end + 1) v))))))
      else environ_expand_until env until str pos)"
  by pat_completeness auto

section \<open>Termination\<close>

text \<open>What is left to read, \<open>length str - pos\<close>, shrinks: a substitution changes only what has
  been read.\<close>

lemma expand_skip_ge [simp]: "pos \<le> expand_skip until str pos"
  by (simp add: expand_skip_def)

lemma expand_skip_less: "char_at str (expand_skip until str pos) = CHR ''$'' \<Longrightarrow>
    expand_skip until str pos < length str"
  by (auto simp: char_at_def NUL_def split: if_splits)

lemma char_at_less: "char_at str pos = c \<Longrightarrow> c \<noteq> NUL \<Longrightarrow> pos < length str"
  by (auto simp: char_at_def split: if_splits)

lemma char_at_brace_less: "char_at str pos = CHR ''{'' \<Longrightarrow> pos < length str"
    "CHR ''{'' = char_at str pos \<Longrightarrow> pos < length str"
    "char_at str pos = CHR ''}'' \<Longrightarrow> pos < length str"
  by (auto simp: char_at_def NUL_def split: if_splits)

lemma is_name_start_NUL [simp]: "\<not> is_name_start NUL"
  by (simp add: is_name_start_def NUL_def)

lemma is_name_start_less: "is_name_start (char_at str pos) \<Longrightarrow> pos < length str"
  by (metis char_at_def is_name_start_NUL)

lemma name_end_le:
  "pos < length str \<Longrightarrow> pos + 1 + length (takeWhile P (drop (pos + 1) str)) \<le> length str"
  using length_takeWhile_le [of P "drop (pos + 1) str"] by simp

lemma expand_subst_left:
  assumes "start < end" and "end \<le> length str"
  shows "length (fst (expand_subst str start end v)) - snd (expand_subst str start end v)
    = length str - end"
    and "snd (expand_subst str start end v) \<le> length (fst (expand_subst str start end v))"
    and "snd (expand_subst str start end v) = start + length v"
  using assms by (auto simp: expand_subst_def)

lemma expand_operator_le:
  "expand_operator str pos = Inr (op, ig, arg) \<Longrightarrow> pos \<le> arg \<and> (pos \<le> length str \<longrightarrow> arg \<le> length str)"
  by (auto simp: expand_operator_def NUL_def split: if_splits dest!: char_at_less)


lemma expand_left:
  assumes "environ_expand_until_dom (env, until, str, pos0)"
    and "environ_expand_until env until str pos0 = Inr (str', pos')" and "pos0 \<le> length str"
  shows "pos0 \<le> pos' \<and> pos' \<le> length str' \<and> length str' - pos' \<le> length str - pos0"
  using assms
proof (induction arbitrary: str' pos' rule: environ_expand_until.pinduct)
  case (1 env until str pos0)
  define start where "start = expand_skip until str pos0"
  define pos where "pos = start + 1"
  note unf = environ_expand_until.psimps [OF 1(1), unfolded Let_def, folded start_def pos_def]
  note IH = 1(2-7) [OF start_def, folded pos_def, OF refl refl]
  have ge: "pos0 \<le> start" by (simp add: start_def)
  show ?case
  proof (cases "char_at str start = CHR ''$''")
    case False
    with 1(8) have "str' = str" "pos' = start" by (simp_all add: unf)
    moreover have "start \<le> length str"
      using 1(9) length_takeWhile_le [of "\<lambda>c. c \<noteq> CHR ''$'' \<and> c \<notin> set until" "drop pos0 str"]
      by (simp add: start_def expand_skip_def)
    ultimately show ?thesis using ge by simp
  next
    case True
    then have s: "start < length str" by (simp add: start_def expand_skip_less)
    consider (name) "is_name_start (char_at str pos)"
      | (empty) "\<not> is_name_start (char_at str pos)"
          "char_at str pos = CHR ''{''" "char_at str (pos + 1) = CHR ''}''"
      | (brace) "\<not> is_name_start (char_at str pos)"
          "char_at str pos = CHR ''{''" "char_at str (pos + 1) \<noteq> CHR ''}''"
      | (lone) "\<not> is_name_start (char_at str pos)" "char_at str pos \<noteq> CHR ''{''"
      by blast
    then show ?thesis
    proof cases
      case name
      let ?stop = "pos + 1 + length (takeWhile is_name_char (drop (pos + 1) str))"
      have e: "start < ?stop" "?stop \<le> length str"
        using name_end_le [OF is_name_start_less [OF name]] by (auto simp: pos_def)
      from 1(8) True name obtain v where
        "expand_value env OP_VALUE False (take (?stop - pos) (drop pos str)) [] = Inr v"
        "environ_expand_until env until (fst (expand_subst str start ?stop v))
           (snd (expand_subst str start ?stop v)) = Inr (str', pos')"
        by (simp add: unf split: sum.splits)
      from IH(1) [OF _ name refl this(1) this(2)] True expand_subst_left [OF e, of v] ge e
      show ?thesis by auto
    next
      case empty
      then have e: "start < pos + 2" "pos + 2 \<le> length str"
        using char_at_less [OF empty(3)] by (auto simp: pos_def NUL_def)
      from 1(8) True empty have
        "environ_expand_until env until (fst (expand_subst str start (pos + 2) ''$''))
           (snd (expand_subst str start (pos + 2) ''$'')) = Inr (str', pos')"
        by (simp add: unf)
      from IH(2) [OF _ empty(1) _ this] True empty expand_subst_left [OF e, of "''$''"] ge e
      show ?thesis by auto
    next
      case brace
      then have p: "pos < length str" using char_at_less [of str pos] by (simp add: NUL_def)
      from 1(8) True brace obtain str1 name_end op ig arg_start str2 arg_end v where
        r1: "environ_expand_until env ''}:-+'' str (pos + 1) = Inr (str1, name_end)"
        and op: "expand_operator str1 name_end = Inr (op, ig, arg_start)"
        and r2: "environ_expand_until env ''}'' str1 arg_start = Inr (str2, arg_end)"
        and c: "char_at str2 arg_end = CHR ''}''"
        and v: "expand_value env op ig (take (name_end - (pos + 1)) (drop (pos + 1) str2))
                 (take (arg_end - arg_start) (drop arg_start str2)) = Inr v"
        and r3: "environ_expand_until env until (fst (expand_subst str2 start (arg_end + 1) v))
           (snd (expand_subst str2 start (arg_end + 1) v)) = Inr (str', pos')"
        by (auto simp: unf split: sum.splits prod.splits if_splits)
      have l1: "pos + 1 \<le> name_end" "name_end \<le> length str1" "length str1 - name_end \<le> length str - (pos + 1)"
        using IH(3) [OF _ _ _ _ r1] True brace p by auto
      have a: "name_end \<le> arg_start" "arg_start \<le> length str1"
        using expand_operator_le [OF op] l1 by auto
      have l2: "arg_start \<le> arg_end" "arg_end \<le> length str2" "length str2 - arg_end \<le> length str1 - arg_start"
        using IH(4) [OF _ _ _ _ r1 refl op refl refl r2] True brace a by auto
      have e: "start < arg_end + 1" "arg_end + 1 \<le> length str2"
        using char_at_less [OF c] l1 l2 a by (auto simp: NUL_def pos_def)
      note sub = expand_subst_left [OF e, of v]
      have "snd (expand_subst str2 start (arg_end + 1) v) \<le> pos' \<and> pos' \<le> length str' \<and>
        length str' - pos' \<le> length str2 - (arg_end + 1)"
        using IH(5) [OF _ _ _ _ r1 refl op refl refl r2 refl _ v r3] True brace c sub by simp
      moreover have "length str2 - (arg_end + 1) \<le> length str1 - arg_start" using l2 by simp
      moreover have "length str1 - arg_start \<le> length str1 - name_end" using a by simp
      moreover have "length str - (pos + 1) \<le> length str - pos0" using ge by (simp add: pos_def)
      ultimately show ?thesis using l1(3) ge sub(3) by linarith
    next
      case lone
      with 1(8) True have "environ_expand_until env until str pos = Inr (str', pos')" by (simp add: unf)
      from IH(6) [OF _ lone(1) _ lone(2) this] True lone s ge show ?thesis by (auto simp: pos_def)
    qed
  qed
qed

termination environ_expand_until
proof (relation "measure (\<lambda>(env, until, str, pos). length str - pos)", goal_cases)
  case 1
  show ?case by simp
next
  case (2 env until str pos0 x xa xb xba b)
  then have "x < length str" "xa < length str"
    by (auto simp: expand_skip_less is_name_start_less)
  then have e: "x < xba" "xba \<le> length str"
    using name_end_le [of xa str is_name_char] 2 by auto
  moreover have "pos0 \<le> x" using 2 by simp
  ultimately have "length str - xba < length str - pos0" by linarith
  then show ?case using expand_subst_left(1) [OF e, of b] by (simp add: split_beta)
next
  case (3 env until str pos0 x xa xb)
  then have "x < length str" "xa + 1 < length str"
    using char_at_less [of str "xa + 1"] by (auto simp: expand_skip_less NUL_def)
  then have e: "x < xa + 2" "xa + 2 \<le> length str" using 3 by auto
  moreover have "pos0 \<le> x" using 3 by simp
  ultimately have "length str - (xa + 2) < length str - pos0" by linarith
  then show ?case using expand_subst_left(1) [OF e, of "''$''"] by (simp add: split_beta)
next
  case (4 env until str pos0 x xa xb)
  then have "x < length str" by (auto simp: expand_skip_less)
  moreover have "pos0 \<le> x" using 4 by simp
  ultimately show ?case using 4(2) by simp
next
  case (5 env until str pos0 x xa xb b xba y ba xbb ya xbc yb)
  then have "x < length str" "xa < length str"
    by (auto simp: expand_skip_less char_at_brace_less)
  moreover from this 5 have "y \<le> length xba" "length xba - y \<le> length str - (xa + 1)"
    using expand_left [of env "''}:-+''" str "xa + 1" xba y] by auto
  moreover from 5 have "y \<le> yb" using expand_operator_le [of xba y xbb xbc yb] by auto
  moreover have "pos0 \<le> x" using 5 by simp
  ultimately show ?case using 5(2) by simp
next
  case (6 env until str pos0 x xa xb b xba y ba xbb ya xbc yb bb xbd yaa bc)
  then have l: "x < length str" "xa < length str" "yaa < length xbd"
    by (auto simp: expand_skip_less char_at_brace_less)
  with 6 have l1: "xa + 1 \<le> y" "y \<le> length xba" "length xba - y \<le> length str - (xa + 1)"
    using expand_left [of env "''}:-+''" str "xa + 1" xba y] by auto
  with 6 have a: "y \<le> yb" "yb \<le> length xba"
    using expand_operator_le [of xba y xbb xbc yb] by auto
  with 6 have "yb \<le> yaa" "length xbd - yaa \<le> length xba - yb"
    using expand_left [of env "''}''" xba yb xbd yaa] by auto
  moreover have "pos0 \<le> x" using 6 by simp
  ultimately have "length xbd - (yaa + 1) < length str - pos0" and e: "x < yaa + 1" "yaa + 1 \<le> length xbd"
    using 6(2) l l1 a by linarith+
  then show ?case using expand_subst_left(1) [OF e, of bc] by (simp add: split_beta)
next
  case (7 env until str pos0 x xa xb)
  then have "x < length str" by (auto simp: expand_skip_less)
  moreover have "pos0 \<le> x" using 7 by simp
  ultimately show ?case using 7(2) by simp
qed

declare environ_expand_until.simps [simp del]


definition environ_expand :: "string list \<Rightarrow> string \<Rightarrow> expand_error + string" where
  "environ_expand env string =
     (case environ_expand_until env [] string 0 of Inl e \<Rightarrow> Inl e | Inr (s, _) \<Rightarrow> Inr s)"

section \<open>Specification\<close>

text \<open>\<open>expands env until r res\<close>: reading \<open>r\<close> up to a character of \<open>until\<close> or its end gives
  \<open>res\<close>, the text produced with the input left, or an error. Values put in are not read again.\<close>

fun emit :: "string \<Rightarrow> expand_error + (string \<times> string) \<Rightarrow> expand_error + (string \<times> string)" where
  "emit t (Inl e) = Inl e"
| "emit t (Inr (out, r)) = Inr (t @ out, r)"

fun operator_spec :: "string \<Rightarrow> expand_error + (expand_op \<times> bool \<times> string)" where
  "operator_spec [] = Inr (OP_VALUE, False, [])"
| "operator_spec (c # r) =
     (if c = CHR '':'' \<and> r \<noteq> [] \<and> hd r = CHR ''-'' then Inr (OP_DEFAULT, True, tl r)
      else if c = CHR '':'' \<and> r \<noteq> [] \<and> hd r = CHR ''+'' then Inr (OP_ALTERNATE, True, tl r)
      else if c = CHR ''-'' then Inr (OP_DEFAULT, False, r)
      else if c = CHR ''+'' then Inr (OP_ALTERNATE, False, r)
      else if c \<noteq> CHR ''}'' \<and> c \<noteq> NUL then Inl ENVIRON_EXPECTED_OPERATOR
      else Inr (OP_VALUE, False, c # r))"

inductive expands ::
    "string list \<Rightarrow> string \<Rightarrow> string \<Rightarrow> expand_error + (string \<times> string) \<Rightarrow> bool" for env where
  at_end: "expands env until [] (Inr ([], []))"
| stop: "c \<in> set until \<Longrightarrow> c \<noteq> CHR ''$'' \<Longrightarrow> expands env until (c # r) (Inr ([], c # r))"
| plain: "c \<notin> set until \<Longrightarrow> c \<noteq> CHR ''$'' \<Longrightarrow> expands env until r res \<Longrightarrow>
    expands env until (c # r) (emit [c] res)"
| simple: "is_name_start c \<Longrightarrow>
    expand_value env OP_VALUE False (c # takeWhile is_name_char r) [] = Inr v \<Longrightarrow>
    expands env until (dropWhile is_name_char r) res \<Longrightarrow>
    expands env until (CHR ''$'' # c # r) (emit v res)"
| simple_error: "is_name_start c \<Longrightarrow>
    expand_value env OP_VALUE False (c # takeWhile is_name_char r) [] = Inl e \<Longrightarrow>
    expands env until (CHR ''$'' # c # r) (Inl e)"
| dollar: "expands env until r res \<Longrightarrow> expands env until (''${}'' @ r) (emit ''$'' res)"
| lone: "r = [] \<or> \<not> is_name_start (hd r) \<and> hd r \<noteq> CHR ''{'' \<Longrightarrow>
    expands env until r res \<Longrightarrow> expands env until (CHR ''$'' # r) (emit ''$'' res)"
| braces: "r = [] \<or> hd r \<noteq> CHR ''}'' \<Longrightarrow>
    expands env ''}:-+'' r (Inr (name, r1)) \<Longrightarrow>
    operator_spec r1 = Inr (op, ig, r2) \<Longrightarrow>
    expands env ''}'' r2 (Inr (arg, CHR ''}'' # r3)) \<Longrightarrow>
    expand_value env op ig name arg = Inr v \<Longrightarrow>
    expands env until r3 res \<Longrightarrow>
    expands env until (''${'' @ r) (emit v res)"
| braces_name: "r = [] \<or> hd r \<noteq> CHR ''}'' \<Longrightarrow>
    expands env ''}:-+'' r (Inl e) \<Longrightarrow> expands env until (''${'' @ r) (Inl e)"
| braces_operator: "r = [] \<or> hd r \<noteq> CHR ''}'' \<Longrightarrow>
    expands env ''}:-+'' r (Inr (name, r1)) \<Longrightarrow>
    operator_spec r1 = Inl e \<Longrightarrow> expands env until (''${'' @ r) (Inl e)"
| braces_arg: "r = [] \<or> hd r \<noteq> CHR ''}'' \<Longrightarrow>
    expands env ''}:-+'' r (Inr (name, r1)) \<Longrightarrow>
    operator_spec r1 = Inr (op, ig, r2) \<Longrightarrow>
    expands env ''}'' r2 (Inl e) \<Longrightarrow> expands env until (''${'' @ r) (Inl e)"
| braces_open: "r = [] \<or> hd r \<noteq> CHR ''}'' \<Longrightarrow>
    expands env ''}:-+'' r (Inr (name, r1)) \<Longrightarrow>
    operator_spec r1 = Inr (op, ig, r2) \<Longrightarrow>
    expands env ''}'' r2 (Inr (arg, [])) \<Longrightarrow>
    expands env until (''${'' @ r) (Inl ENVIRON_MISMATCHED_BRACES)"
| braces_value: "r = [] \<or> hd r \<noteq> CHR ''}'' \<Longrightarrow>
    expands env ''}:-+'' r (Inr (name, r1)) \<Longrightarrow>
    operator_spec r1 = Inr (op, ig, r2) \<Longrightarrow>
    expands env ''}'' r2 (Inr (arg, CHR ''}'' # r3)) \<Longrightarrow>
    expand_value env op ig name arg = Inl e \<Longrightarrow>
    expands env until (''${'' @ r) (Inl e)"

lemma emit_append [simp]: "emit (s @ t) res = emit s (emit t res)"
  by (cases "(s, res)" rule: emit.cases) auto

lemma emit_Nil [simp]: "emit [] res = res"
  by (cases "([] :: string, res)" rule: emit.cases) auto

lemma expands_text:
  "\<forall>c\<in>set t. c \<noteq> CHR ''$'' \<and> c \<notin> set until \<Longrightarrow> expands env until r res \<Longrightarrow>
    expands env until (t @ r) (emit t res)"
proof (induction t)
  case Nil
  then show ?case by simp
next
  case (Cons c t)
  then have "expands env until (c # t @ r) (emit [c] (emit t res))" by (intro plain) auto
  then show ?case using emit_append [of "[c]" t res] by simp
qed

text \<open>The leftover of an expansion is empty or starts with a character of \<open>until\<close>.\<close>

lemma expands_leftover:
  "expands env until r res \<Longrightarrow> res = Inr (out, c # r') \<Longrightarrow> c \<in> set until"
proof (induction arbitrary: out rule: expands.induct)
qed (auto elim!: emit.elims)

definition expanded_ok ::
    "string list \<Rightarrow> string \<Rightarrow> string \<Rightarrow> nat \<Rightarrow> expand_error + (string \<times> nat) \<Rightarrow> bool" where
  "expanded_ok env until str pos0 res =
     (case res of
        Inl e \<Rightarrow> expands env until (drop pos0 str) (Inl e)
      | Inr (s, q) \<Rightarrow> pos0 \<le> q \<and> q \<le> length s \<and> take pos0 s = take pos0 str \<and>
          expands env until (drop pos0 str) (Inr (drop pos0 (take q s), drop q s)))"

lemma expanded_ok_step:
  assumes ok: "expanded_ok env until str1 pos1 res"
    and le: "pos0 \<le> pos1" "pos1 \<le> length str1"
    and same: "take pos0 str1 = take pos0 str"
    and rule: "\<And>res'. expands env until (drop pos1 str1) res' \<Longrightarrow>
      expands env until (drop pos0 str) (emit (drop pos0 (take pos1 str1)) res')"
  shows "expanded_ok env until str pos0 res"
proof (cases res)
  case (Inl e)
  then have "expands env until (drop pos1 str1) (Inl e)" using ok by (simp add: expanded_ok_def)
  from rule [OF this] Inl show ?thesis by (simp add: expanded_ok_def)
next
  case (Inr sq)
  obtain s q where sq: "sq = (s, q)" by force
  have q: "pos1 \<le> q" "q \<le> length s" "take pos1 s = take pos1 str1"
    and e: "expands env until (drop pos1 str1) (Inr (drop pos1 (take q s), drop q s))"
    using ok Inr sq by (auto simp: expanded_ok_def)
  have "take pos0 (take pos1 s) = take pos0 (take pos1 str1)" using q(3) by simp
  then have "take pos0 s = take pos0 str1" using le by (simp add: min_def)
  moreover have "drop pos0 (take q s) = drop pos0 (take pos1 str1) @ drop pos1 (take q s)"
  proof -
    have "take q s = take pos1 str1 @ drop pos1 (take q s)"
      using q by (metis append_take_drop_id min.absorb1 take_take)
    then show ?thesis
      using le by (metis drop_append length_take min.absorb2 diff_is_0_eq drop0)
  qed
  ultimately show ?thesis using rule [OF e] Inr sq q le same by (simp add: expanded_ok_def)
qed


lemma char_at_drop: "char_at str pos = char_at (drop pos str) 0"
  by (auto simp: char_at_def)

lemma char_at_view: "drop pos str = r \<Longrightarrow> char_at str pos = char_at r 0 \<and> char_at str (Suc pos) = char_at r 1"
  by (auto simp: char_at_def)

lemma char_at_head: "char_at r 0 = c \<Longrightarrow> c \<noteq> NUL \<Longrightarrow> r = c # tl r"
  by (cases r) auto

lemma expand_operator_spec:
  assumes "pos \<le> length str"
  shows "case expand_operator str pos of
      Inl e \<Rightarrow> operator_spec (drop pos str) = Inl e
    | Inr (op, ig, a) \<Rightarrow> pos \<le> a \<and> a \<le> length str \<and>
        operator_spec (drop pos str) = Inr (op, ig, drop a str)"
proof (cases "drop pos str")
  case Nil
  with assms char_at_view [OF Nil] show ?thesis by (simp add: expand_operator_def NUL_def)
next
  case (Cons c r)
  have d: "drop (Suc pos) str = r" "drop (Suc (Suc pos)) str = tl r"
    using Cons by (metis drop_Suc list.sel(3) tl_drop)+
  have l: "Suc pos \<le> length str" using Cons by (metis Suc_leI drop_eq_Nil leI list.simps(3))
  have l2: "r \<noteq> [] \<Longrightarrow> Suc (Suc pos) \<le> length str" using d by (metis Suc_leI drop_eq_Nil leI)
  show ?thesis
    using l l2 assms Cons d char_at_view [OF Cons]
    by (cases r) (auto simp: expand_operator_def NUL_def)
qed

lemma drop_skip:
  fixes until :: string
  assumes "pos0 \<le> length str"
  defines "start \<equiv> expand_skip until str pos0"
  shows "start \<le> length str"
    and "drop pos0 str = drop pos0 (take start str) @ drop start str"
    and "\<forall>c\<in>set (drop pos0 (take start str)). c \<noteq> CHR ''$'' \<and> c \<notin> set until"
    and "drop start str \<noteq> [] \<Longrightarrow> hd (drop start str) = CHR ''$'' \<or> hd (drop start str) \<in> set until"
proof -
  let ?P = "\<lambda>c. c \<noteq> CHR ''$'' \<and> c \<notin> set until"
  let ?t = "takeWhile ?P (drop pos0 str)"
  have st: "start = pos0 + length ?t" by (simp add: start_def expand_skip_def)
  show le: "start \<le> length str"
    using assms(1) length_takeWhile_le [of ?P "drop pos0 str"] by (simp add: st)
  have t: "drop pos0 (take start str) = ?t"
    by (simp add: st drop_take takeWhile_eq_take [symmetric])
  have d: "drop start str = dropWhile ?P (drop pos0 str)"
    by (simp add: st dropWhile_eq_drop add.commute)
  show "drop pos0 str = drop pos0 (take start str) @ drop start str"
    by (simp add: t d)
  show "\<forall>c\<in>set (drop pos0 (take start str)). ?P c"
    by (auto simp: t dest: set_takeWhileD)
  show "hd (drop start str) = CHR ''$'' \<or> hd (drop start str) \<in> set until" if "drop start str \<noteq> []"
    using that hd_dropWhile [of ?P "drop pos0 str"] by (auto simp: d)
qed

text \<open>A substitution between \<open>start\<close> and \<open>end\<close>, seen from a position before it.\<close>

lemma expand_subst_view:
  fixes v :: string
  assumes "start < end" and "end \<le> length str" and "pos0 \<le> start"
  defines "str1 \<equiv> fst (expand_subst str start end v)" and "pos1 \<equiv> snd (expand_subst str start end v)"
  shows "pos0 \<le> pos1" and "pos1 \<le> length str1"
    and "take pos0 str1 = take pos0 str"
    and "drop pos1 str1 = drop end str"
    and "drop pos0 (take pos1 str1) = drop pos0 (take start str) @ v"
proof -
  have p: "pos1 = start + length v" using assms expand_subst_left(3) by simp
  have s: "str1 = take start str @ v @ drop end str" by (simp add: str1_def expand_subst_def)
  have l: "length (take start str) = start" using assms by simp
  show "pos0 \<le> pos1" "pos1 \<le> length str1" using assms(3) l by (simp_all add: p s)
  show "take pos0 str1 = take pos0 str" using assms(3) l by (simp add: s min_def)
  show "drop pos1 str1 = drop end str" using l by (simp add: p s)
  show "drop pos0 (take pos1 str1) = drop pos0 (take start str) @ v"
    using assms(3) l by (simp add: p s)
qed

lemma environ_expand_until_ok: "pos0 \<le> length str \<Longrightarrow>
    expanded_ok env until str pos0 (environ_expand_until env until str pos0)"
proof (induction env until str pos0 rule: environ_expand_until.induct)
  case (1 env until str pos0)
  define start where "start = expand_skip until str pos0"
  define pos where "pos = start + 1"
  define t where "t = drop pos0 (take start str)"
  note unf = environ_expand_until.simps [of env until str pos0, unfolded Let_def, folded start_def pos_def]
  note IH = "1.IH" [OF start_def, folded pos_def, OF refl refl]
  note sk = drop_skip [OF "1.prems", of until, folded start_def t_def]
  have ge: "pos0 \<le> start" by (simp add: start_def)
  have pre: "expands env until (drop pos0 str) (emit t res)" if "expands env until (drop start str) res" for res
    using expands_text [OF sk(3) that] sk(2) by simp
  have err: "expanded_ok env until str pos0 (Inl e)" if "expands env until (drop start str) (Inl e)" for e
    using pre [OF that] by (simp add: expanded_ok_def)
  show ?case
  proof (cases "char_at str start = CHR ''$''")
    case False
    then have "expands env until (drop start str) (Inr ([], drop start str))"
      using sk(4) char_at_view [of start str]
      by (cases "drop start str") (auto intro: expands.intros)
    from pre [OF this] False show ?thesis using ge sk(1)
      by (simp add: unf expanded_ok_def t_def)
  next
    case True
    then have s: "start < length str" by (simp add: start_def expand_skip_less)
    have ds: "drop start str = CHR ''$'' # drop pos str"
      using char_at_head [of "drop start str"] True
      by (simp add: char_at_drop [of str start] NUL_def pos_def drop_Suc tl_drop)
    have go: "expanded_ok env until str pos0 res"
      if ok: "expanded_ok env until (fst (expand_subst str2 start end v)) (snd (expand_subst str2 start end v)) res"
        and e: "start < end" "end \<le> length str2" and same: "take start str2 = take start str"
        and rule: "\<And>res'. expands env until (drop end str2) res' \<Longrightarrow>
          expands env until (drop start str) (emit v res')" for str2 "end" v res
    proof (rule expanded_ok_step [OF ok])
      note v = expand_subst_view [OF e ge, of v]
      show "pos0 \<le> snd (expand_subst str2 start end v)"
        "snd (expand_subst str2 start end v) \<le> length (fst (expand_subst str2 start end v))"
        using v by simp_all
      have "take pos0 (take start str2) = take pos0 (take start str)" by (simp add: same)
      then show "take pos0 (fst (expand_subst str2 start end v)) = take pos0 str"
        using v(3) ge by (simp add: min_def)
      fix res'
      assume "expands env until (drop (snd (expand_subst str2 start end v))
        (fst (expand_subst str2 start end v))) res'"
      then have "expands env until (drop pos0 str) (emit t (emit v res'))"
        using v(4) by (simp add: pre rule)
      then show "expands env until (drop pos0 str) (emit (drop pos0
          (take (snd (expand_subst str2 start end v)) (fst (expand_subst str2 start end v)))) res')"
        by (simp add: v(5) same t_def)
    qed
    consider (name) "is_name_start (char_at str pos)"
      | (empty) "\<not> is_name_start (char_at str pos)"
          "char_at str pos = CHR ''{''" "char_at str (pos + 1) = CHR ''}''"
      | (brace) "\<not> is_name_start (char_at str pos)"
          "char_at str pos = CHR ''{''" "char_at str (pos + 1) \<noteq> CHR ''}''"
      | (lone) "\<not> is_name_start (char_at str pos)" "char_at str pos \<noteq> CHR ''{''"
      by blast
    then show ?thesis
    proof cases
      case name
      obtain c r where cr: "drop pos str = c # r" "is_name_start c"
        using name by (cases "drop pos str") (auto simp: char_at_drop [of str pos])
      have r: "drop (pos + 1) str = r" using cr(1) by (metis Suc_eq_plus1 drop_Suc list.sel(3) tl_drop)
      define en where "en = pos + 1 + length (takeWhile is_name_char (drop (pos + 1) str))"
      have e: "start < en" "en \<le> length str"
        using name_end_le [OF is_name_start_less [OF name]] by (auto simp: pos_def en_def)
      have unf': "environ_expand_until env until str pos0 =
          (case expand_value env OP_VALUE False (take (en - pos) (drop pos str)) [] of
             Inl e \<Rightarrow> Inl e
           | Inr v \<Rightarrow> environ_expand_until env until
               (fst (expand_subst str start en v)) (snd (expand_subst str start en v)))"
        using True name unf [folded en_def] by simp
      have nm: "take (en - pos) (drop pos str) = c # takeWhile is_name_char r"
        unfolding cr(1) en_def r by (simp add: takeWhile_eq_take [symmetric])
      have de: "drop en str = dropWhile is_name_char r"
      proof -
        have "drop (pos + 1 + n) str = drop n (drop (pos + 1) str)" for n
          by (simp add: add.commute)
        then show ?thesis unfolding en_def r by (simp only: dropWhile_eq_drop)
      qed
      show ?thesis
      proof (cases "expand_value env OP_VALUE False (c # takeWhile is_name_char r) []")
        case (Inl e)
        with cr have "expands env until (drop start str) (Inl e)" unfolding ds cr(1) by (intro simple_error)
        with Inl show ?thesis by (simp add: unf' [unfolded nm] err)
      next
        case (Inr v)
        then have "expand_value env OP_VALUE False (take (en - pos) (drop pos str)) [] = Inr v"
          by (simp add: nm)
        from IH(1) [OF _ name en_def this] True have
          "expanded_ok env until (fst (expand_subst str start en v)) (snd (expand_subst str start en v))
            (environ_expand_until env until (fst (expand_subst str start en v)) (snd (expand_subst str start en v)))"
          using expand_subst_left(2) [OF e, of v] by simp
        then have "expanded_ok env until str pos0
            (environ_expand_until env until (fst (expand_subst str start en v)) (snd (expand_subst str start en v)))"
          by (rule go [OF _ e refl]) (auto simp: de ds cr intro!: simple Inr)
        with Inr show ?thesis by (simp add: unf' [unfolded nm])
      qed
    next
      case empty
      then have e: "start < pos + 2" "pos + 2 \<le> length str"
        using char_at_brace_less(3) [OF empty(3)] by (auto simp: pos_def)
      have d: "drop pos str = ''{}'' @ drop (pos + 2) str"
      proof -
        have "drop pos str = CHR ''{'' # drop (Suc pos) str"
          using char_at_head [of "drop pos str" "CHR ''{''"] empty(2)
          by (simp add: char_at_drop [of str pos] NUL_def drop_Suc tl_drop)
        moreover have "drop (Suc pos) str = CHR ''}'' # drop (Suc (Suc pos)) str"
          using char_at_head [of "drop (Suc pos) str" "CHR ''}''"] empty(3)
          by (simp add: char_at_drop [of str "Suc pos"] NUL_def drop_Suc tl_drop)
        ultimately show ?thesis by simp
      qed
      from IH(2) [OF _ empty(1)] True empty have
        "expanded_ok env until (fst (expand_subst str start (pos + 2) ''$'')) (snd (expand_subst str start (pos + 2) ''$''))
          (environ_expand_until env until (fst (expand_subst str start (pos + 2) ''$'')) (snd (expand_subst str start (pos + 2) ''$'')))"
        using expand_subst_left(2) [OF e, of "''$''"] by simp
      then have "expanded_ok env until str pos0
          (environ_expand_until env until (fst (expand_subst str start (pos + 2) ''$'')) (snd (expand_subst str start (pos + 2) ''$'')))"
        by (rule go [OF _ e refl]) (use dollar [of env until "drop (pos + 2) str"] in \<open>simp add: ds d\<close>)
      with True empty show ?thesis by (simp add: unf)
    next
      case brace
      then have p: "pos < length str" by (simp add: char_at_brace_less)
      define r where "r = drop (pos + 1) str"
      have d: "drop start str = ''${'' @ r"
        using char_at_head [of "drop pos str" "CHR ''{''"] brace(2)
        by (simp add: ds r_def char_at_drop [of str pos] NUL_def drop_Suc tl_drop)
      have hd: "r = [] \<or> hd r \<noteq> CHR ''}''"
        using brace(3) char_at_view [of "pos + 1" str r] by (cases r) (auto simp: r_def)
      have ok1: "expanded_ok env ''}:-+'' str (pos + 1) (environ_expand_until env ''}:-+'' str (pos + 1))"
        using IH(3) [OF _ brace(1)] True brace p by simp
      show ?thesis
      proof (cases "environ_expand_until env ''}:-+'' str (pos + 1)")
        case (Inl e)
        with ok1 have "expands env ''}:-+'' r (Inl e)" by (simp add: expanded_ok_def r_def)
        with hd have "expands env until (drop start str) (Inl e)" unfolding d by (intro braces_name)
        with True brace Inl show ?thesis by (simp add: unf err)
      next
        case (Inr b)
        obtain str1 name_end where r1: "environ_expand_until env ''}:-+'' str (pos + 1) = Inr (str1, name_end)"
          using Inr by (cases b) auto
        have l1: "pos + 1 \<le> name_end" "name_end \<le> length str1" "take (pos + 1) str1 = take (pos + 1) str"
          and x1: "expands env ''}:-+'' r (Inr (drop (pos + 1) (take name_end str1), drop name_end str1))"
          using ok1 r1 by (auto simp: expanded_ok_def r_def)
        note ops = expand_operator_spec [OF l1(2)]
        show ?thesis
        proof (cases "expand_operator str1 name_end")
          case (Inl e)
          with ops hd x1 have "expands env until (drop start str) (Inl e)"
            unfolding d by (intro braces_operator) auto
          with True brace r1 Inl show ?thesis by (simp add: unf err)
        next
          case (Inr b')
          obtain op ig arg_start where op: "expand_operator str1 name_end = Inr (op, ig, arg_start)"
            using Inr by (cases b') auto
          have a: "name_end \<le> arg_start" "arg_start \<le> length str1"
            and os: "operator_spec (drop name_end str1) = Inr (op, ig, drop arg_start str1)"
            using ops op by auto
          have ok2: "expanded_ok env ''}'' str1 arg_start (environ_expand_until env ''}'' str1 arg_start)"
            using IH(4) [OF _ brace(1) _ _ r1 refl op refl refl] True brace a by simp
          show ?thesis
          proof (cases "environ_expand_until env ''}'' str1 arg_start")
            case (Inl e)
            with ok2 have "expands env ''}'' (drop arg_start str1) (Inl e)" by (simp add: expanded_ok_def)
            with hd x1 os have "expands env until (drop start str) (Inl e)"
              unfolding d by (intro braces_arg) auto
            with True brace r1 op Inl show ?thesis by (simp add: unf err)
          next
            case (Inr b'')
            obtain str2 arg_end where r2: "environ_expand_until env ''}'' str1 arg_start = Inr (str2, arg_end)"
              using Inr by (cases b'') auto
            have l2: "arg_start \<le> arg_end" "arg_end \<le> length str2" "take arg_start str2 = take arg_start str1"
              and x2: "expands env ''}'' (drop arg_start str1) (Inr (drop arg_start (take arg_end str2), drop arg_end str2))"
              using ok2 r2 by (auto simp: expanded_ok_def)
            have same: "take name_end str2 = take name_end str1"
              using l2(3) a(1) by (rule take_eq_mono)
            have same': "take start str2 = take start str"
              using take_eq_mono [OF same, of start] take_eq_mono [OF l1(3), of start] l1(1)
              by (simp add: pos_def)
            define nm where "nm = drop (pos + 1) (take name_end str1)"
            define ar where "ar = drop arg_start (take arg_end str2)"
            have nm': "take (name_end - (pos + 1)) (drop (pos + 1) str2) = nm"
              unfolding nm_def same [symmetric] by (simp only: drop_take)
            have ar': "take (arg_end - arg_start) (drop arg_start str2) = ar"
              by (simp add: ar_def drop_take)
            show ?thesis
            proof (cases "char_at str2 arg_end = CHR ''}''")
              case False
              then have "drop arg_end str2 = []"
                using expands_leftover [OF x2] char_at_view [of arg_end str2]
                by (cases "drop arg_end str2") auto
              with x2 hd x1 os have "expands env until (drop start str) (Inl ENVIRON_MISMATCHED_BRACES)"
                unfolding d by (intro braces_open) auto
              with True brace r1 op r2 False show ?thesis by (simp add: unf err)
            next
              case close: True
              then have e: "start < arg_end + 1" "arg_end + 1 \<le> length str2"
                using char_at_brace_less(3) [OF close] l1 l2 a by (auto simp: pos_def)
              have "drop arg_end str2 = CHR ''}'' # drop (arg_end + 1) str2"
                using char_at_head [of "drop arg_end str2" "CHR ''}''"] close
                by (simp add: char_at_drop [of str2 arg_end] NUL_def drop_Suc tl_drop)
              with x2 have x2': "expands env ''}'' (drop arg_start str1) (Inr (ar, CHR ''}'' # drop (arg_end + 1) str2))"
                by (simp add: ar_def)
              show ?thesis
              proof (cases "expand_value env op ig nm ar")
                case (Inl e)
                with hd x1 os x2' have "expands env until (drop start str) (Inl e)"
                  unfolding d nm_def by (intro braces_value) auto
                with True brace r1 op r2 close Inl show ?thesis
                  by (simp add: unf nm' [simplified] ar' err)
              next
                case (Inr v)
                have "expand_value env op ig (take (name_end - (pos + 1)) (drop (pos + 1) str2))
                    (take (arg_end - arg_start) (drop arg_start str2)) = Inr v"
                  using Inr by (simp add: nm' [simplified] ar')
                from IH(5) [OF _ brace(1) _ _ r1 refl op refl refl r2 refl _ this] True brace close
                have "expanded_ok env until (fst (expand_subst str2 start (arg_end + 1) v))
                    (snd (expand_subst str2 start (arg_end + 1) v))
                    (environ_expand_until env until (fst (expand_subst str2 start (arg_end + 1) v))
                      (snd (expand_subst str2 start (arg_end + 1) v)))"
                  using expand_subst_left(2) [OF e, of v] by simp
                then have "expanded_ok env until str pos0
                    (environ_expand_until env until (fst (expand_subst str2 start (arg_end + 1) v))
                      (snd (expand_subst str2 start (arg_end + 1) v)))"
                  by (rule go [OF _ e same'])
                    (unfold d, rule braces [OF hd x1 [folded nm_def] os x2' Inr])
                with True brace r1 op r2 close Inr show ?thesis
                  by (simp add: unf nm' [simplified] ar')
              qed
            qed
          qed
        qed
      qed
    next
      case lone
      have "expanded_ok env until str pos (environ_expand_until env until str pos)"
        using IH(6) [OF _ lone(1) _ lone(2)] True lone s by (simp add: pos_def)
      then have "expanded_ok env until str pos0 (environ_expand_until env until str pos)"
      proof (rule expanded_ok_step)
        show "pos0 \<le> pos" "pos \<le> length str" using ge s by (simp_all add: pos_def)
        fix res' assume r: "expands env until (drop pos str) res'"
        have "drop pos str = [] \<or> \<not> is_name_start (hd (drop pos str)) \<and> hd (drop pos str) \<noteq> CHR ''{''"
          using lone by (cases "drop pos str") (auto simp: char_at_drop [of str pos])
        then have "expands env until (drop start str) (emit ''$'' res')"
          unfolding ds by (rule expands.lone) (rule r)
        moreover have "drop pos0 (take pos str) = t @ ''$''"
          using s ge ds by (simp add: pos_def t_def take_Suc_conv_app_nth nth_via_drop)
        ultimately show "expands env until (drop pos0 str) (emit (drop pos0 (take pos str)) res')"
          using pre by simp
      qed simp
      with True lone show ?thesis by (simp add: unf)
    qed
  qed
qed

section \<open>The specification is a function\<close>

lemma name_start_brace [simp]: "\<not> is_name_start CHR ''{''"
  by (simp add: is_name_start_def)

inductive_cases expands_endE: "expands env until [] y"
inductive_cases expands_charE: "expands env until (c # r) y"
inductive_cases expands_simpleE: "expands env until (CHR ''$'' # c # r) y"

lemma expands_bracesE:
  assumes "expands env until (''${'' @ r) y" and "r = [] \<or> hd r \<noteq> CHR ''}''"
  obtains (braces) name r1 op ig r2 arg r3 v res where
      "expands env ''}:-+'' r (Inr (name, r1))" "operator_spec r1 = Inr (op, ig, r2)"
      "expands env ''}'' r2 (Inr (arg, CHR ''}'' # r3))" "expand_value env op ig name arg = Inr v"
      "expands env until r3 res" "y = emit v res"
    | (bad_name) e where "expands env ''}:-+'' r (Inl e)" "y = Inl e"
    | (bad_op) name r1 e where "expands env ''}:-+'' r (Inr (name, r1))"
        "operator_spec r1 = Inl e" "y = Inl e"
    | (bad_arg) name r1 op ig r2 e where "expands env ''}:-+'' r (Inr (name, r1))"
        "operator_spec r1 = Inr (op, ig, r2)" "expands env ''}'' r2 (Inl e)" "y = Inl e"
    | (unclosed) name r1 op ig r2 arg where "expands env ''}:-+'' r (Inr (name, r1))"
        "operator_spec r1 = Inr (op, ig, r2)" "expands env ''}'' r2 (Inr (arg, []))"
        "y = Inl ENVIRON_MISMATCHED_BRACES"
    | (bad_value) name r1 op ig r2 arg r3 e where "expands env ''}:-+'' r (Inr (name, r1))"
        "operator_spec r1 = Inr (op, ig, r2)" "expands env ''}'' r2 (Inr (arg, CHR ''}'' # r3))"
        "expand_value env op ig name arg = Inl e" "y = Inl e"
  using assms by (cases rule: expands.cases) auto

lemma expands_det: "expands env until r x \<Longrightarrow> expands env until r y \<Longrightarrow> x = y"
proof (induction arbitrary: y rule: expands.induct)
  case (at_end until)
  then show ?case by (auto elim: expands_endE)
next
  case (stop c until r)
  then show ?case by (auto elim: expands_charE)
next
  case (plain c until r res)
  from plain.prems plain.hyps obtain res' where "y = emit [c] res'" "expands env until r res'"
    by (auto elim: expands_charE)
  with plain.IH show ?case by simp
next
  case (simple c r v until res)
  from simple.prems simple.hyps obtain res' where "y = emit v res'" "expands env until (dropWhile is_name_char r) res'"
    by (auto elim: expands_simpleE)
  with simple.IH show ?case by simp
next
  case (simple_error c r e until)
  from simple_error.prems simple_error.hyps show ?case by (auto elim: expands_simpleE)
next
  case (dollar until r res)
  from dollar.prems obtain res' where "y = emit ''$'' res'" "expands env until r res'"
    by (auto elim: expands_simpleE)
  with dollar.IH show ?case by simp
next
  case (lone r until res)
  from lone.prems lone.hyps obtain res' where "y = emit ''$'' res'" "expands env until r res'"
    by (auto elim: expands_charE)
  with lone.IH show ?case by simp
next
  case (braces r name r1 op ig r2 arg r3 v until res)
  note hyps = braces.hyps and IH = braces.IH
  from braces.prems hyps(1) show ?case
    by (rule expands_bracesE) (use hyps in \<open>auto dest!: IH\<close>)
next
  case (braces_name r e until)
  note hyps = braces_name.hyps and IH = braces_name.IH
  from braces_name.prems hyps(1) show ?case
    by (rule expands_bracesE) (use hyps in \<open>auto dest!: IH\<close>)
next
  case (braces_operator r name r1 e until)
  note hyps = braces_operator.hyps and IH = braces_operator.IH
  from braces_operator.prems hyps(1) show ?case
    by (rule expands_bracesE) (use hyps in \<open>auto dest!: IH\<close>)
next
  case (braces_arg r name r1 op ig r2 e until)
  note hyps = braces_arg.hyps and IH = braces_arg.IH
  from braces_arg.prems hyps(1) show ?case
    by (rule expands_bracesE) (use hyps in \<open>auto dest!: IH\<close>)
next
  case (braces_open r name r1 op ig r2 arg until)
  note hyps = braces_open.hyps and IH = braces_open.IH
  from braces_open.prems hyps(1) show ?case
    by (rule expands_bracesE) (use hyps in \<open>auto dest!: IH\<close>)
next
  case (braces_value r name r1 op ig r2 arg r3 e until)
  note hyps = braces_value.hyps and IH = braces_value.IH
  from braces_value.prems hyps(1) show ?case
    by (rule expands_bracesE) (use hyps in \<open>auto dest!: IH\<close>)
qed

lemma expands_literal:
  assumes "\<forall>c\<in>set t. c \<noteq> CHR ''$'' \<and> c \<notin> set until"
  shows "expands env until t (Inr (t, []))"
    and "c \<in> set until \<Longrightarrow> c \<noteq> CHR ''$'' \<Longrightarrow> expands env until (t @ c # r) (Inr (t, c # r))"
  using expands_text [OF assms at_end, of env] expands_text [OF assms stop, of c env r] by simp_all

lemma environ_expand_run: "expands env [] s (case environ_expand env s of Inl e \<Rightarrow> Inl e | Inr t \<Rightarrow> Inr (t, []))"
proof -
  have ok: "expanded_ok env [] s 0 (environ_expand_until env [] s 0)"
    by (rule environ_expand_until_ok) simp
  show ?thesis
  proof (cases "environ_expand_until env [] s 0")
    case (Inl e)
    with ok show ?thesis by (simp add: expanded_ok_def environ_expand_def)
  next
    case (Inr b)
    obtain s' q where b: "b = (s', q)" by force
    from ok Inr b have q: "q \<le> length s'" "expands env [] s (Inr (take q s', drop q s'))"
      by (simp_all add: expanded_ok_def)
    then have "drop q s' = []" using expands_leftover [OF q(2)] by (cases "drop q s'") auto
    with q Inr b show ?thesis by (simp add: environ_expand_def)
  qed
qed

lemma environ_expandI: "expands env [] s (Inr (t, [])) \<Longrightarrow> environ_expand env s = Inr t"
  using expands_det [OF environ_expand_run] by (fastforce split: sum.splits)

lemma environ_expand_errorI: "expands env [] s (Inl e) \<Longrightarrow> environ_expand env s = Inl e"
  using expands_det [OF environ_expand_run] by (fastforce split: sum.splits)

definition ref_name :: "string \<Rightarrow> bool" where
  "ref_name k \<longleftrightarrow> k \<noteq> [] \<and> (\<forall>c\<in>set k. c \<notin> set ''$}:-+'')"

definition literal_text :: "string \<Rightarrow> bool" where
  "literal_text t \<longleftrightarrow> CHR ''$'' \<notin> set t \<and> CHR ''}'' \<notin> set t"

lemma expands_reference:
  assumes "ref_name k" and "operator_spec (oper @ arg @ ''}'') = Inr (op, ig, arg @ ''}'')"
    and "oper @ arg @ ''}'' \<noteq> []" and "hd (oper @ arg @ ''}'') \<in> set ''}:-+''" and "literal_text arg"
  shows "expands env [] (''${'' @ k @ oper @ arg @ ''}'')
    (case expand_value env op ig k arg of Inl e \<Rightarrow> Inl e | Inr v \<Rightarrow> Inr (v, []))"
proof -
  obtain c r where cr: "oper @ arg @ ''}'' = c # r" using assms(3) by (cases "oper @ arg @ ''}''") auto
  have hd: "hd (k @ oper @ arg @ ''}'') \<noteq> CHR ''}''" "c \<in> set ''}:-+''" "c \<noteq> CHR ''$''"
    using assms(1,4) cr by (auto simp: ref_name_def)
  have n: "expands env ''}:-+'' (k @ oper @ arg @ ''}'') (Inr (k, oper @ arg @ ''}''))"
    unfolding cr using assms(1) hd(2,3) by (intro expands_literal(2)) (auto simp: ref_name_def)
  have a: "expands env ''}'' (arg @ ''}'') (Inr (arg, ''}''))"
    using assms(5) by (intro expands_literal(2)) (auto simp: literal_text_def)
  show ?thesis
  proof (cases "expand_value env op ig k arg")
    case (Inl e)
    with braces_value [OF disjI2 [OF hd(1)] n assms(2) a] show ?thesis by simp
  next
    case (Inr v)
    with braces [OF disjI2 [OF hd(1)] n assms(2) a Inr at_end] show ?thesis by simp
  qed
qed

lemma operator_spec_arg: "operator_spec ('':-'' @ r) = Inr (OP_DEFAULT, True, r)"
  "operator_spec (''-'' @ r) = Inr (OP_DEFAULT, False, r)"
  "operator_spec ('':+'' @ r) = Inr (OP_ALTERNATE, True, r)"
  "operator_spec (''+'' @ r) = Inr (OP_ALTERNATE, False, r)"
  by simp_all

lemma environ_expand_reference:
  assumes "ref_name k" and "literal_text arg"
    and "(oper, op, ig) \<in> {('':-'', OP_DEFAULT, True), (''-'', OP_DEFAULT, False),
          ('':+'', OP_ALTERNATE, True), (''+'', OP_ALTERNATE, False)}"
  shows "environ_expand env (''${'' @ k @ oper @ arg @ ''}'') = expand_value env op ig k arg"
proof -
  have "expands env [] (''${'' @ k @ oper @ arg @ ''}'')
    (case expand_value env op ig k arg of Inl e \<Rightarrow> Inl e | Inr v \<Rightarrow> Inr (v, []))"
    using assms by (intro expands_reference) auto
  then show ?thesis
    by (auto intro: environ_expandI environ_expand_errorI split: sum.splits)
qed

section \<open>Properties\<close>

text \<open>C34: \<^verbatim>\<open>environ_expand\<close>, which edits the string in place through a position and calls itself
  inside brackets, terminates on every input and computes exactly the compositional specification
  \<open>expands\<close>, for results and for each of its errors.\<close>

theorem environ_expand_refines:
  "environ_expand env s = res \<longleftrightarrow>
     expands env [] s (case res of Inl e \<Rightarrow> Inl e | Inr t \<Rightarrow> Inr (t, []))"
  using environ_expand_run [of env s]
  by (cases res) (auto intro: environ_expandI environ_expand_errorI)

text \<open>C35: the operators of bracketed references: \<^verbatim>\<open>${K:-d}\<close> is the value of \<^verbatim>\<open>K\<close> if it is set
  and not empty and otherwise \<open>d\<close>, \<^verbatim>\<open>${K-d}\<close> is the value if it is set and otherwise \<open>d\<close>,
  \<^verbatim>\<open>${K:+a}\<close> is \<open>a\<close> if \<^verbatim>\<open>K\<close> is set and not empty and otherwise nothing, and \<^verbatim>\<open>${K+a}\<close> is
  \<open>a\<close> if \<^verbatim>\<open>K\<close> is set, even to nothing, and otherwise nothing.\<close>

theorem environ_expand_operators:
  assumes "ref_name k" and "literal_text d"
  shows "environ_expand env (''${'' @ k @ '':-'' @ d @ ''}'') =
      Inr (case environ_get env k of None \<Rightarrow> d | Some v \<Rightarrow> if v = [] then d else v)
    \<and> environ_expand env (''${'' @ k @ ''-'' @ d @ ''}'') =
      Inr (case environ_get env k of None \<Rightarrow> d | Some v \<Rightarrow> v)
    \<and> environ_expand env (''${'' @ k @ '':+'' @ d @ ''}'') =
      Inr (case environ_get env k of None \<Rightarrow> [] | Some v \<Rightarrow> if v = [] then [] else d)
    \<and> environ_expand env (''${'' @ k @ ''+'' @ d @ ''}'') =
      Inr (case environ_get env k of None \<Rightarrow> [] | Some v \<Rightarrow> d)"
proof (intro conjI)
  note ref = environ_expand_reference [OF assms]
  show "environ_expand env (''${'' @ k @ '':-'' @ d @ ''}'') =
      Inr (case environ_get env k of None \<Rightarrow> d | Some v \<Rightarrow> if v = [] then d else v)"
    by (subst ref) (auto simp: expand_value_def Let_def environ_get_def split: option.splits)
  show "environ_expand env (''${'' @ k @ ''-'' @ d @ ''}'') =
      Inr (case environ_get env k of None \<Rightarrow> d | Some v \<Rightarrow> v)"
    by (subst ref) (auto simp: expand_value_def Let_def environ_get_def split: option.splits)
  show "environ_expand env (''${'' @ k @ '':+'' @ d @ ''}'') =
      Inr (case environ_get env k of None \<Rightarrow> [] | Some v \<Rightarrow> if v = [] then [] else d)"
    by (subst ref) (auto simp: expand_value_def Let_def environ_get_def split: option.splits)
  show "environ_expand env (''${'' @ k @ ''+'' @ d @ ''}'') =
      Inr (case environ_get env k of None \<Rightarrow> [] | Some v \<Rightarrow> d)"
    by (subst ref) (auto simp: expand_value_def Let_def environ_get_def split: option.splits)
qed

theorem environ_expand_operators_witness:
  "environ_expand [''K=v''] ''${K:-d}'' = Inr ''v'' \<and>
   environ_expand [''K=v''] ''${K+d}'' = Inr ''d''"
  using environ_expand_operators [of "''K''" "''d''" "[''K=v'']"]
  by (simp add: ref_name_def literal_text_def is_name_start_def is_name_char_def environ_get_def
    environ_getn_def strncmp_eq_def strchr_def)

end
