(* ===== verification/Glob.thy ===== *)
theory Glob
  imports Prelude
begin

text \<open>
  \<^verbatim>\<open>fnmatch (pattern, string, 0)\<close> of the C library, which \<^verbatim>\<open>event_operator_match\<close> calls: shell
  patterns as POSIX defines them, in the POSIX locale. With no flags set, a slash and a leading
  period are ordinary characters and a backslash quotes. \<open>fnmatch p s\<close> is the result zero.
\<close>

section \<open>Definitions\<close>

definition ord :: "char \<Rightarrow> nat" where
  "ord c = of_char c"

definition between :: "char \<Rightarrow> char \<Rightarrow> char \<Rightarrow> bool" where
  "between lo hi c \<longleftrightarrow> ord lo \<le> ord c \<and> ord c \<le> ord hi"

definition isupper :: "char \<Rightarrow> bool" where
  "isupper c \<longleftrightarrow> between CHR ''A'' CHR ''Z'' c"

definition islower :: "char \<Rightarrow> bool" where
  "islower c \<longleftrightarrow> between CHR ''a'' CHR ''z'' c"

definition isdigit :: "char \<Rightarrow> bool" where
  "isdigit c \<longleftrightarrow> between CHR ''0'' CHR ''9'' c"

text \<open>The character classes, \<open>None\<close> for a name that is not one.\<close>

definition wctype :: "string \<Rightarrow> (char \<Rightarrow> bool) option" where
  "wctype name =
     (if name = ''alpha'' then Some (\<lambda>c. isupper c \<or> islower c)
      else if name = ''digit'' then Some isdigit
      else if name = ''alnum'' then Some (\<lambda>c. isupper c \<or> islower c \<or> isdigit c)
      else if name = ''upper'' then Some isupper
      else if name = ''lower'' then Some islower
      else if name = ''space'' then Some (\<lambda>c. c = CHR '' '' \<or> between CHR 0x09 CHR 0x0D c)
      else if name = ''blank'' then Some (\<lambda>c. c = CHR '' '' \<or> c = CHR 0x09)
      else if name = ''cntrl'' then Some (\<lambda>c. between CHR 0x00 CHR 0x1F c \<or> c = CHR 0x7F)
      else if name = ''graph'' then Some (between CHR ''!'' CHR ''~'')
      else if name = ''print'' then Some (between CHR '' '' CHR ''~'')
      else if name = ''punct'' then
        Some (\<lambda>c. between CHR ''!'' CHR ''~'' c \<and> \<not> isupper c \<and> \<not> islower c \<and> \<not> isdigit c)
      else if name = ''xdigit'' then
        Some (\<lambda>c. isdigit c \<or> between CHR ''A'' CHR ''F'' c \<or> between CHR ''a'' CHR ''f'' c)
      else None)"

text \<open>The rest of a bracket expression: \<open>Unterminated\<close> when there is no closing bracket (the
  opening one is then an ordinary character), \<open>Invalid\<close> when it can match nothing, and otherwise
  whether one of its elements is the character, and the pattern after the closing bracket.\<close>

datatype bracket_result = Unterminated | Invalid | Closed bool string

fun bracket_or :: "bool \<Rightarrow> bracket_result \<Rightarrow> bracket_result" where
  "bracket_or b (Closed m r) = Closed (b \<or> m) r"
| "bracket_or b Unterminated = Unterminated"
| "bracket_or b Invalid = Invalid"

definition bracket_literal ::
    "(string \<Rightarrow> bracket_result) \<Rightarrow> char \<Rightarrow> char \<Rightarrow> string \<Rightarrow> bracket_result" where
  "bracket_literal k c lo p =
     (case p of
        d # hi # r \<Rightarrow>
          if d = CHR ''-'' \<and> hi \<noteq> CHR '']'' then
            (if hi = CHR 0x5C then
               (case r of [] \<Rightarrow> Invalid | y # r' \<Rightarrow> bracket_or (between lo y c) (k r'))
             else bracket_or (between lo hi c) (k r))
          else bracket_or (c = lo) (k p)
      | _ \<Rightarrow> bracket_or (c = lo) (k p))"

lemma bracket_literal_cong [fundef_cong]:
  assumes "p = q" and "\<And>r. length r \<le> length q \<Longrightarrow> k r = k' r" and "c = c'" and "lo = lo'"
  shows "bracket_literal k c lo p = bracket_literal k' c' lo' q"
  using assms by (auto simp: bracket_literal_def split: list.splits)

function bracket :: "bool \<Rightarrow> char \<Rightarrow> string \<Rightarrow> bracket_result" where
  "bracket first c p =
     (case p of
        [] \<Rightarrow> Unterminated
      | x # r \<Rightarrow>
          if x = CHR '']'' \<and> \<not> first then Closed False r
          else if x = CHR 0x5C then
            (case r of
               [] \<Rightarrow> Invalid
             | y # r' \<Rightarrow> bracket_literal (bracket False c) c y r')
          else if x = CHR ''['' \<and> r \<noteq> [] \<and> hd r = CHR '':'' then
            (let name = takeWhile islower (tl r);
                 r' = drop (length name) (tl r)
             in if take 2 r' = '':]'' then
                  (case wctype name of
                     None \<Rightarrow> Invalid
                   | Some member \<Rightarrow> bracket_or (member c) (bracket False c (drop 2 r')))
                else bracket_literal (bracket False c) c x r)
          else bracket_literal (bracket False c) c x r)"
  by pat_completeness auto
termination
  by (relation "measure (\<lambda>(first, c, p). length p)") (auto split: list.splits)

text \<open>The pattern against the string.\<close>

function fnmatch :: "string \<Rightarrow> string \<Rightarrow> bool" where
  "fnmatch [] s \<longleftrightarrow> s = []"
| "fnmatch (x # p) s \<longleftrightarrow>
     (if x = CHR ''*'' then
        fnmatch p s \<or> (case s of [] \<Rightarrow> False | c # s' \<Rightarrow> fnmatch (x # p) s')
      else if x = CHR ''?'' then
        (case s of [] \<Rightarrow> False | c # s' \<Rightarrow> fnmatch p s')
      else if x = CHR 0x5C then
        (case p of
           [] \<Rightarrow> False
         | y # p' \<Rightarrow> (case s of [] \<Rightarrow> False | c # s' \<Rightarrow> c = y \<and> fnmatch p' s'))
      else if x = CHR ''['' then
        (case s of
           [] \<Rightarrow> False
         | c # s' \<Rightarrow>
             (let negate = (p \<noteq> [] \<and> (hd p = CHR ''!'' \<or> hd p = CHR ''^''))
              in case bracket True c (if negate then tl p else p) of
                   Unterminated \<Rightarrow> c = x \<and> fnmatch p s'
                 | Invalid \<Rightarrow> False
                 | Closed m r \<Rightarrow> m \<noteq> negate \<and> fnmatch r s'))
      else (case s of [] \<Rightarrow> False | c # s' \<Rightarrow> c = x \<and> fnmatch p s'))"
  by pat_completeness auto
termination
  by (relation "measures [\<lambda>(p, s). length s, \<lambda>(p, s). length p]") (auto split: list.splits)

declare fnmatch.simps(2) [simp del]
declare bracket.simps [simp del]

section \<open>Facts\<close>

text \<open>A character with no meaning in patterns.\<close>

definition plain_char :: "char \<Rightarrow> bool" where
  "plain_char c \<longleftrightarrow> c \<noteq> CHR ''*'' \<and> c \<noteq> CHR ''?'' \<and> c \<noteq> CHR 0x5C \<and> c \<noteq> CHR ''[''"

lemma fnmatch_plain_Cons:
  "plain_char x \<Longrightarrow> fnmatch (x # p) s \<longleftrightarrow> (\<exists>s'. s = x # s' \<and> fnmatch p s')"
  by (auto simp: fnmatch.simps plain_char_def split: list.splits)

lemma fnmatch_plain: "(\<forall>c\<in>set p. plain_char c) \<Longrightarrow> fnmatch p s \<longleftrightarrow> s = p"
  by (induction p arbitrary: s) (auto simp: fnmatch_plain_Cons)

lemma fnmatch_plain_append:
  "(\<forall>c\<in>set p. plain_char c) \<Longrightarrow> fnmatch (p @ q) s \<longleftrightarrow> (\<exists>s'. s = p @ s' \<and> fnmatch q s')"
  by (induction p arbitrary: s) (auto simp: fnmatch_plain_Cons)

lemma fnmatch_star: "fnmatch (CHR ''*'' # p) s \<longleftrightarrow> (\<exists>t u. s = t @ u \<and> fnmatch p u)"
proof (induction s)
  case Nil
  show ?case by (auto simp: fnmatch.simps)
next
  case (Cons c s)
  have "fnmatch (CHR ''*'' # p) (c # s) \<longleftrightarrow> fnmatch p (c # s) \<or> fnmatch (CHR ''*'' # p) s"
    by (subst fnmatch.simps) simp
  with Cons show ?case by (auto simp: Cons_eq_append_conv)
qed

lemma fnmatch_star_only [simp]: "fnmatch ''*'' s"
  unfolding fnmatch_star by (intro exI [of _ s] exI [of _ "[]"]) simp

lemma fnmatch_question: "fnmatch (CHR ''?'' # p) s \<longleftrightarrow> (\<exists>c s'. s = c # s' \<and> fnmatch p s')"
  by (auto simp: fnmatch.simps split: list.splits)

lemma fnmatch_quote: "fnmatch (CHR 0x5C # y # p) s \<longleftrightarrow> (\<exists>s'. s = y # s' \<and> fnmatch p s')"
  by (auto simp: fnmatch.simps split: list.splits)

end
