(* ===== verification/Names.thy ===== *)
theory Names
  imports Prelude
begin

text \<open>
  The enumerations of \<^verbatim>\<open>src/init\<close> and the functions between their values and their names:
  the names shown to users (\<^verbatim>\<open>job_goal_name\<close>, \<^verbatim>\<open>job_state_name\<close>, \<^verbatim>\<open>process_name\<close>, ...) and the
  names written to the serialised state (the \<^verbatim>\<open>..._enum_to_str\<close> and \<^verbatim>\<open>..._str_to_enum\<close>
  functions). \<open>None\<close> is the NULL or -1 of the code. Each pair of functions is an instance of
  the interface \<open>enum_codec\<close>.
\<close>

section \<open>Enumerations\<close>

datatype JobGoal =
    JOB_STOP
  | JOB_START
  | JOB_RESPAWN

datatype JobState =
    JOB_WAITING
  | JOB_STARTING
  | JOB_SECURITY_SPAWNING
  | JOB_SECURITY
  | JOB_PRE_STARTING
  | JOB_PRE_START
  | JOB_SPAWNING
  | JOB_SPAWNED
  | JOB_POST_STARTING
  | JOB_POST_START
  | JOB_RUNNING
  | JOB_PRE_STOPPING
  | JOB_PRE_STOP
  | JOB_STOPPING
  | JOB_KILLED
  | JOB_POST_STOPPING
  | JOB_POST_STOP

datatype TraceState =
    TRACE_NONE
  | TRACE_NEW
  | TRACE_NEW_CHILD
  | TRACE_NORMAL

datatype ExpectType =
    EXPECT_NONE
  | EXPECT_STOP
  | EXPECT_DAEMON
  | EXPECT_FORK
  | EXPECT_READYFD

datatype ConsoleType =
    CONSOLE_NONE
  | CONSOLE_OUTPUT
  | CONSOLE_OWNER
  | CONSOLE_LOG

datatype EventProgress =
    EVENT_PENDING
  | EVENT_HANDLING
  | EVENT_FINISHED

datatype EventOperatorType =
    EVENT_OR
  | EVENT_AND
  | EVENT_MATCH

datatype ProcessType =
    PROCESS_INVALID
  | PROCESS_MAIN
  | PROCESS_PRE_START
  | PROCESS_POST_START
  | PROCESS_PRE_STOP
  | PROCESS_POST_STOP
  | PROCESS_SECURITY
  | PROCESS_LAST

datatype BlockedType =
    BLOCKED_JOB
  | BLOCKED_EVENT
  | BLOCKED_EMIT_METHOD
  | BLOCKED_JOB_START_METHOD
  | BLOCKED_JOB_STOP_METHOD
  | BLOCKED_JOB_RESTART_METHOD
  | BLOCKED_INSTANCE_START_METHOD
  | BLOCKED_INSTANCE_STOP_METHOD
  | BLOCKED_INSTANCE_RESTART_METHOD

section \<open>Enumerable types\<close>

text \<open>The finite types the state machine ranges over: quantifiers over them compute.\<close>

instantiation JobGoal :: enum
begin
definition enum_JobGoal :: "JobGoal list" where
  "enum_JobGoal =
     [JOB_STOP, JOB_START, JOB_RESPAWN]"
definition enum_all_JobGoal :: "(JobGoal \<Rightarrow> bool) \<Rightarrow> bool" where
  "enum_all_JobGoal P \<longleftrightarrow>
     P JOB_STOP \<and> P JOB_START \<and> P JOB_RESPAWN"
definition enum_ex_JobGoal :: "(JobGoal \<Rightarrow> bool) \<Rightarrow> bool" where
  "enum_ex_JobGoal P \<longleftrightarrow>
     P JOB_STOP \<or> P JOB_START \<or> P JOB_RESPAWN"
instance
proof
  show UNIV_eq: "UNIV = set (enum_class.enum :: JobGoal list)"
    by (auto simp: enum_JobGoal_def intro: JobGoal.exhaust)
  show "distinct (enum_class.enum :: JobGoal list)"
    by (simp add: enum_JobGoal_def)
  show "enum_class.enum_all P \<longleftrightarrow> Ball (UNIV :: JobGoal set) P" for P
    unfolding enum_all_JobGoal_def by (blast intro: JobGoal.induct)
  show "enum_class.enum_ex P \<longleftrightarrow> Bex (UNIV :: JobGoal set) P" for P
    unfolding enum_ex_JobGoal_def using JobGoal.induct [of "\<lambda>x. \<not> P x"] by blast
qed
end

instantiation JobState :: enum
begin
definition enum_JobState :: "JobState list" where
  "enum_JobState =
     [JOB_WAITING, JOB_STARTING, JOB_SECURITY_SPAWNING, JOB_SECURITY, JOB_PRE_STARTING,
     JOB_PRE_START, JOB_SPAWNING, JOB_SPAWNED, JOB_POST_STARTING, JOB_POST_START,
     JOB_RUNNING, JOB_PRE_STOPPING, JOB_PRE_STOP, JOB_STOPPING, JOB_KILLED,
     JOB_POST_STOPPING, JOB_POST_STOP]"
definition enum_all_JobState :: "(JobState \<Rightarrow> bool) \<Rightarrow> bool" where
  "enum_all_JobState P \<longleftrightarrow>
     P JOB_WAITING \<and> P JOB_STARTING \<and> P JOB_SECURITY_SPAWNING \<and> P JOB_SECURITY
     \<and> P JOB_PRE_STARTING \<and> P JOB_PRE_START \<and> P JOB_SPAWNING \<and> P
     JOB_SPAWNED \<and> P JOB_POST_STARTING \<and> P JOB_POST_START \<and> P JOB_RUNNING
     \<and> P JOB_PRE_STOPPING \<and> P JOB_PRE_STOP \<and> P JOB_STOPPING \<and> P
     JOB_KILLED \<and> P JOB_POST_STOPPING \<and> P JOB_POST_STOP"
definition enum_ex_JobState :: "(JobState \<Rightarrow> bool) \<Rightarrow> bool" where
  "enum_ex_JobState P \<longleftrightarrow>
     P JOB_WAITING \<or> P JOB_STARTING \<or> P JOB_SECURITY_SPAWNING \<or> P JOB_SECURITY
     \<or> P JOB_PRE_STARTING \<or> P JOB_PRE_START \<or> P JOB_SPAWNING \<or> P JOB_SPAWNED
     \<or> P JOB_POST_STARTING \<or> P JOB_POST_START \<or> P JOB_RUNNING \<or> P
     JOB_PRE_STOPPING \<or> P JOB_PRE_STOP \<or> P JOB_STOPPING \<or> P JOB_KILLED \<or> P
     JOB_POST_STOPPING \<or> P JOB_POST_STOP"
instance
proof
  show UNIV_eq: "UNIV = set (enum_class.enum :: JobState list)"
    by (auto simp: enum_JobState_def intro: JobState.exhaust)
  show "distinct (enum_class.enum :: JobState list)"
    by (simp add: enum_JobState_def)
  show "enum_class.enum_all P \<longleftrightarrow> Ball (UNIV :: JobState set) P" for P
    unfolding enum_all_JobState_def by (blast intro: JobState.induct)
  show "enum_class.enum_ex P \<longleftrightarrow> Bex (UNIV :: JobState set) P" for P
    unfolding enum_ex_JobState_def using JobState.induct [of "\<lambda>x. \<not> P x"] by blast
qed
end

instantiation ProcessType :: enum
begin
definition enum_ProcessType :: "ProcessType list" where
  "enum_ProcessType =
     [PROCESS_INVALID, PROCESS_MAIN, PROCESS_PRE_START, PROCESS_POST_START, PROCESS_PRE_STOP,
     PROCESS_POST_STOP, PROCESS_SECURITY, PROCESS_LAST]"
definition enum_all_ProcessType :: "(ProcessType \<Rightarrow> bool) \<Rightarrow> bool" where
  "enum_all_ProcessType P \<longleftrightarrow>
     P PROCESS_INVALID \<and> P PROCESS_MAIN \<and> P PROCESS_PRE_START \<and> P
     PROCESS_POST_START \<and> P PROCESS_PRE_STOP \<and> P PROCESS_POST_STOP \<and> P
     PROCESS_SECURITY \<and> P PROCESS_LAST"
definition enum_ex_ProcessType :: "(ProcessType \<Rightarrow> bool) \<Rightarrow> bool" where
  "enum_ex_ProcessType P \<longleftrightarrow>
     P PROCESS_INVALID \<or> P PROCESS_MAIN \<or> P PROCESS_PRE_START \<or> P
     PROCESS_POST_START \<or> P PROCESS_PRE_STOP \<or> P PROCESS_POST_STOP \<or> P
     PROCESS_SECURITY \<or> P PROCESS_LAST"
instance
proof
  show UNIV_eq: "UNIV = set (enum_class.enum :: ProcessType list)"
    by (auto simp: enum_ProcessType_def intro: ProcessType.exhaust)
  show "distinct (enum_class.enum :: ProcessType list)"
    by (simp add: enum_ProcessType_def)
  show "enum_class.enum_all P \<longleftrightarrow> Ball (UNIV :: ProcessType set) P" for P
    unfolding enum_all_ProcessType_def by (blast intro: ProcessType.induct)
  show "enum_class.enum_ex P \<longleftrightarrow> Bex (UNIV :: ProcessType set) P" for P
    unfolding enum_ex_ProcessType_def using ProcessType.induct [of "\<lambda>x. \<not> P x"] by blast
qed
end

section \<open>Names and their inverses\<close>

fun job_goal_name :: "JobGoal \<Rightarrow> string option" where
  "job_goal_name JOB_STOP = Some ''stop''"
| "job_goal_name JOB_START = Some ''start''"
| "job_goal_name JOB_RESPAWN = Some ''respawn''"

definition job_goal_from_name :: "string \<Rightarrow> JobGoal option" where
  "job_goal_from_name s =
    (if s = ''stop'' then Some JOB_STOP
     else if s = ''start'' then Some JOB_START
     else if s = ''respawn'' then Some JOB_RESPAWN
     else None)"

fun job_state_name :: "JobState \<Rightarrow> string option" where
  "job_state_name JOB_WAITING = Some ''waiting''"
| "job_state_name JOB_STARTING = Some ''starting''"
| "job_state_name JOB_SECURITY_SPAWNING = Some ''security-spawning''"
| "job_state_name JOB_SECURITY = Some ''security''"
| "job_state_name JOB_PRE_STARTING = Some ''pre-starting''"
| "job_state_name JOB_PRE_START = Some ''pre-start''"
| "job_state_name JOB_SPAWNING = Some ''spawning''"
| "job_state_name JOB_SPAWNED = Some ''spawned''"
| "job_state_name JOB_POST_STARTING = Some ''post-starting''"
| "job_state_name JOB_POST_START = Some ''post-start''"
| "job_state_name JOB_RUNNING = Some ''running''"
| "job_state_name JOB_PRE_STOPPING = Some ''pre-stopping''"
| "job_state_name JOB_PRE_STOP = Some ''pre-stop''"
| "job_state_name JOB_STOPPING = Some ''stopping''"
| "job_state_name JOB_KILLED = Some ''killed''"
| "job_state_name JOB_POST_STOPPING = Some ''post-stopping''"
| "job_state_name JOB_POST_STOP = Some ''post-stop''"

definition job_state_from_name :: "string \<Rightarrow> JobState option" where
  "job_state_from_name s =
    (if s = ''waiting'' then Some JOB_WAITING
     else if s = ''starting'' then Some JOB_STARTING
     else if s = ''security-spawning'' then Some JOB_SECURITY_SPAWNING
     else if s = ''security'' then Some JOB_SECURITY
     else if s = ''pre-starting'' then Some JOB_PRE_STARTING
     else if s = ''pre-start'' then Some JOB_PRE_START
     else if s = ''spawning'' then Some JOB_SPAWNING
     else if s = ''spawned'' then Some JOB_SPAWNED
     else if s = ''post-starting'' then Some JOB_POST_STARTING
     else if s = ''post-start'' then Some JOB_POST_START
     else if s = ''running'' then Some JOB_RUNNING
     else if s = ''pre-stopping'' then Some JOB_PRE_STOPPING
     else if s = ''pre-stop'' then Some JOB_PRE_STOP
     else if s = ''stopping'' then Some JOB_STOPPING
     else if s = ''killed'' then Some JOB_KILLED
     else if s = ''post-stopping'' then Some JOB_POST_STOPPING
     else if s = ''post-stop'' then Some JOB_POST_STOP
     else None)"

fun process_name :: "ProcessType \<Rightarrow> string option" where
  "process_name PROCESS_MAIN = Some ''main''"
| "process_name PROCESS_PRE_START = Some ''pre-start''"
| "process_name PROCESS_POST_START = Some ''post-start''"
| "process_name PROCESS_PRE_STOP = Some ''pre-stop''"
| "process_name PROCESS_POST_STOP = Some ''post-stop''"
| "process_name PROCESS_SECURITY = Some ''security''"
| "process_name PROCESS_INVALID = None"
| "process_name PROCESS_LAST = None"

definition process_from_name :: "string \<Rightarrow> ProcessType option" where
  "process_from_name s =
    (if s = ''main'' then Some PROCESS_MAIN
     else if s = ''pre-start'' then Some PROCESS_PRE_START
     else if s = ''post-start'' then Some PROCESS_POST_START
     else if s = ''pre-stop'' then Some PROCESS_PRE_STOP
     else if s = ''post-stop'' then Some PROCESS_POST_STOP
     else if s = ''security'' then Some PROCESS_SECURITY
     else None)"

fun job_goal_enum_to_str :: "JobGoal \<Rightarrow> string option" where
  "job_goal_enum_to_str JOB_STOP = Some ''JOB_STOP''"
| "job_goal_enum_to_str JOB_START = Some ''JOB_START''"
| "job_goal_enum_to_str JOB_RESPAWN = Some ''JOB_RESPAWN''"

definition job_goal_str_to_enum :: "string \<Rightarrow> JobGoal option" where
  "job_goal_str_to_enum s =
    (if s = ''JOB_STOP'' then Some JOB_STOP
     else if s = ''JOB_START'' then Some JOB_START
     else if s = ''JOB_RESPAWN'' then Some JOB_RESPAWN
     else None)"

fun job_state_enum_to_str :: "JobState \<Rightarrow> string option" where
  "job_state_enum_to_str JOB_WAITING = Some ''JOB_WAITING''"
| "job_state_enum_to_str JOB_STARTING = Some ''JOB_STARTING''"
| "job_state_enum_to_str JOB_SECURITY_SPAWNING = Some ''JOB_SECURITY_SPAWNING''"
| "job_state_enum_to_str JOB_SECURITY = Some ''JOB_SECURITY''"
| "job_state_enum_to_str JOB_PRE_STARTING = Some ''JOB_PRE_STARTING''"
| "job_state_enum_to_str JOB_PRE_START = Some ''JOB_PRE_START''"
| "job_state_enum_to_str JOB_SPAWNING = Some ''JOB_SPAWNING''"
| "job_state_enum_to_str JOB_SPAWNED = Some ''JOB_SPAWNED''"
| "job_state_enum_to_str JOB_POST_STARTING = Some ''JOB_POST_STARTING''"
| "job_state_enum_to_str JOB_POST_START = Some ''JOB_POST_START''"
| "job_state_enum_to_str JOB_RUNNING = Some ''JOB_RUNNING''"
| "job_state_enum_to_str JOB_PRE_STOPPING = Some ''JOB_PRE_STOPPING''"
| "job_state_enum_to_str JOB_PRE_STOP = Some ''JOB_PRE_STOP''"
| "job_state_enum_to_str JOB_STOPPING = Some ''JOB_STOPPING''"
| "job_state_enum_to_str JOB_KILLED = Some ''JOB_KILLED''"
| "job_state_enum_to_str JOB_POST_STOPPING = Some ''JOB_POST_STOPPING''"
| "job_state_enum_to_str JOB_POST_STOP = Some ''JOB_POST_STOP''"

definition job_state_str_to_enum :: "string \<Rightarrow> JobState option" where
  "job_state_str_to_enum s =
    (if s = ''JOB_WAITING'' then Some JOB_WAITING
     else if s = ''JOB_STARTING'' then Some JOB_STARTING
     else if s = ''JOB_SECURITY_SPAWNING'' then Some JOB_SECURITY_SPAWNING
     else if s = ''JOB_SECURITY'' then Some JOB_SECURITY
     else if s = ''JOB_PRE_STARTING'' then Some JOB_PRE_STARTING
     else if s = ''JOB_PRE_START'' then Some JOB_PRE_START
     else if s = ''JOB_SPAWNING'' then Some JOB_SPAWNING
     else if s = ''JOB_SPAWNED'' then Some JOB_SPAWNED
     else if s = ''JOB_POST_STARTING'' then Some JOB_POST_STARTING
     else if s = ''JOB_POST_START'' then Some JOB_POST_START
     else if s = ''JOB_RUNNING'' then Some JOB_RUNNING
     else if s = ''JOB_PRE_STOPPING'' then Some JOB_PRE_STOPPING
     else if s = ''JOB_PRE_STOP'' then Some JOB_PRE_STOP
     else if s = ''JOB_STOPPING'' then Some JOB_STOPPING
     else if s = ''JOB_KILLED'' then Some JOB_KILLED
     else if s = ''JOB_POST_STOPPING'' then Some JOB_POST_STOPPING
     else if s = ''JOB_POST_STOP'' then Some JOB_POST_STOP
     else None)"

fun job_trace_state_enum_to_str :: "TraceState \<Rightarrow> string option" where
  "job_trace_state_enum_to_str TRACE_NONE = Some ''TRACE_NONE''"
| "job_trace_state_enum_to_str TRACE_NEW = Some ''TRACE_NEW''"
| "job_trace_state_enum_to_str TRACE_NEW_CHILD = Some ''TRACE_NEW_CHILD''"
| "job_trace_state_enum_to_str TRACE_NORMAL = Some ''TRACE_NORMAL''"

definition job_trace_state_str_to_enum :: "string \<Rightarrow> TraceState option" where
  "job_trace_state_str_to_enum s =
    (if s = ''TRACE_NONE'' then Some TRACE_NONE
     else if s = ''TRACE_NEW'' then Some TRACE_NEW
     else if s = ''TRACE_NEW_CHILD'' then Some TRACE_NEW_CHILD
     else if s = ''TRACE_NORMAL'' then Some TRACE_NORMAL
     else None)"

fun job_class_expect_type_enum_to_str :: "ExpectType \<Rightarrow> string option" where
  "job_class_expect_type_enum_to_str EXPECT_NONE = Some ''EXPECT_NONE''"
| "job_class_expect_type_enum_to_str EXPECT_STOP = Some ''EXPECT_STOP''"
| "job_class_expect_type_enum_to_str EXPECT_DAEMON = Some ''EXPECT_DAEMON''"
| "job_class_expect_type_enum_to_str EXPECT_FORK = Some ''EXPECT_FORK''"
| "job_class_expect_type_enum_to_str EXPECT_READYFD = Some ''EXPECT_READYFD''"

definition job_class_expect_type_str_to_enum :: "string \<Rightarrow> ExpectType option" where
  "job_class_expect_type_str_to_enum s =
    (if s = ''EXPECT_NONE'' then Some EXPECT_NONE
     else if s = ''EXPECT_STOP'' then Some EXPECT_STOP
     else if s = ''EXPECT_DAEMON'' then Some EXPECT_DAEMON
     else if s = ''EXPECT_FORK'' then Some EXPECT_FORK
     else if s = ''EXPECT_READYFD'' then Some EXPECT_READYFD
     else None)"

fun job_class_console_type_enum_to_str :: "ConsoleType \<Rightarrow> string option" where
  "job_class_console_type_enum_to_str CONSOLE_NONE = Some ''CONSOLE_NONE''"
| "job_class_console_type_enum_to_str CONSOLE_OUTPUT = Some ''CONSOLE_OUTPUT''"
| "job_class_console_type_enum_to_str CONSOLE_OWNER = Some ''CONSOLE_OWNER''"
| "job_class_console_type_enum_to_str CONSOLE_LOG = Some ''CONSOLE_LOG''"

definition job_class_console_type_str_to_enum :: "string \<Rightarrow> ConsoleType option" where
  "job_class_console_type_str_to_enum s =
    (if s = ''CONSOLE_NONE'' then Some CONSOLE_NONE
     else if s = ''CONSOLE_OUTPUT'' then Some CONSOLE_OUTPUT
     else if s = ''CONSOLE_OWNER'' then Some CONSOLE_OWNER
     else if s = ''CONSOLE_LOG'' then Some CONSOLE_LOG
     else None)"

fun event_progress_enum_to_str :: "EventProgress \<Rightarrow> string option" where
  "event_progress_enum_to_str EVENT_PENDING = Some ''EVENT_PENDING''"
| "event_progress_enum_to_str EVENT_HANDLING = Some ''EVENT_HANDLING''"
| "event_progress_enum_to_str EVENT_FINISHED = Some ''EVENT_FINISHED''"

definition event_progress_str_to_enum :: "string \<Rightarrow> EventProgress option" where
  "event_progress_str_to_enum s =
    (if s = ''EVENT_PENDING'' then Some EVENT_PENDING
     else if s = ''EVENT_HANDLING'' then Some EVENT_HANDLING
     else if s = ''EVENT_FINISHED'' then Some EVENT_FINISHED
     else None)"

fun event_operator_type_enum_to_str :: "EventOperatorType \<Rightarrow> string option" where
  "event_operator_type_enum_to_str EVENT_OR = Some ''EVENT_OR''"
| "event_operator_type_enum_to_str EVENT_AND = Some ''EVENT_AND''"
| "event_operator_type_enum_to_str EVENT_MATCH = Some ''EVENT_MATCH''"

definition event_operator_type_str_to_enum :: "string \<Rightarrow> EventOperatorType option" where
  "event_operator_type_str_to_enum s =
    (if s = ''EVENT_OR'' then Some EVENT_OR
     else if s = ''EVENT_AND'' then Some EVENT_AND
     else if s = ''EVENT_MATCH'' then Some EVENT_MATCH
     else None)"

fun process_type_enum_to_str :: "ProcessType \<Rightarrow> string option" where
  "process_type_enum_to_str PROCESS_INVALID = Some ''PROCESS_INVALID''"
| "process_type_enum_to_str PROCESS_MAIN = Some ''PROCESS_MAIN''"
| "process_type_enum_to_str PROCESS_PRE_START = Some ''PROCESS_PRE_START''"
| "process_type_enum_to_str PROCESS_POST_START = Some ''PROCESS_POST_START''"
| "process_type_enum_to_str PROCESS_PRE_STOP = Some ''PROCESS_PRE_STOP''"
| "process_type_enum_to_str PROCESS_POST_STOP = Some ''PROCESS_POST_STOP''"
| "process_type_enum_to_str PROCESS_SECURITY = Some ''PROCESS_SECURITY''"
| "process_type_enum_to_str PROCESS_LAST = None"

definition process_type_str_to_enum :: "string \<Rightarrow> ProcessType option" where
  "process_type_str_to_enum s =
    (if s = ''PROCESS_INVALID'' then Some PROCESS_INVALID
     else if s = ''PROCESS_MAIN'' then Some PROCESS_MAIN
     else if s = ''PROCESS_PRE_START'' then Some PROCESS_PRE_START
     else if s = ''PROCESS_POST_START'' then Some PROCESS_POST_START
     else if s = ''PROCESS_PRE_STOP'' then Some PROCESS_PRE_STOP
     else if s = ''PROCESS_POST_STOP'' then Some PROCESS_POST_STOP
     else if s = ''PROCESS_SECURITY'' then Some PROCESS_SECURITY
     else None)"

fun blocked_type_enum_to_str :: "BlockedType \<Rightarrow> string option" where
  "blocked_type_enum_to_str BLOCKED_JOB = Some ''BLOCKED_JOB''"
| "blocked_type_enum_to_str BLOCKED_EVENT = Some ''BLOCKED_EVENT''"
| "blocked_type_enum_to_str BLOCKED_EMIT_METHOD = Some ''BLOCKED_EMIT_METHOD''"
| "blocked_type_enum_to_str BLOCKED_JOB_START_METHOD = Some ''BLOCKED_JOB_START_METHOD''"
| "blocked_type_enum_to_str BLOCKED_JOB_STOP_METHOD = Some ''BLOCKED_JOB_STOP_METHOD''"
| "blocked_type_enum_to_str BLOCKED_JOB_RESTART_METHOD = Some ''BLOCKED_JOB_RESTART_METHOD''"
| "blocked_type_enum_to_str BLOCKED_INSTANCE_START_METHOD = Some ''BLOCKED_INSTANCE_START_METHOD''"
| "blocked_type_enum_to_str BLOCKED_INSTANCE_STOP_METHOD = Some ''BLOCKED_INSTANCE_STOP_METHOD''"
| "blocked_type_enum_to_str BLOCKED_INSTANCE_RESTART_METHOD = Some ''BLOCKED_INSTANCE_RESTART_METHOD''"

definition blocked_type_str_to_enum :: "string \<Rightarrow> BlockedType option" where
  "blocked_type_str_to_enum s =
    (if s = ''BLOCKED_JOB'' then Some BLOCKED_JOB
     else if s = ''BLOCKED_EVENT'' then Some BLOCKED_EVENT
     else if s = ''BLOCKED_EMIT_METHOD'' then Some BLOCKED_EMIT_METHOD
     else if s = ''BLOCKED_JOB_START_METHOD'' then Some BLOCKED_JOB_START_METHOD
     else if s = ''BLOCKED_JOB_STOP_METHOD'' then Some BLOCKED_JOB_STOP_METHOD
     else if s = ''BLOCKED_JOB_RESTART_METHOD'' then Some BLOCKED_JOB_RESTART_METHOD
     else if s = ''BLOCKED_INSTANCE_START_METHOD'' then Some BLOCKED_INSTANCE_START_METHOD
     else if s = ''BLOCKED_INSTANCE_STOP_METHOD'' then Some BLOCKED_INSTANCE_STOP_METHOD
     else if s = ''BLOCKED_INSTANCE_RESTART_METHOD'' then Some BLOCKED_INSTANCE_RESTART_METHOD
     else None)"

text \<open>The argument of the \<^verbatim>\<open>console\<close> stanza; no function prints it.\<close>

definition job_class_console_type :: "string \<Rightarrow> ConsoleType option" where
  "job_class_console_type s =
    (if s = ''none'' then Some CONSOLE_NONE
     else if s = ''output'' then Some CONSOLE_OUTPUT
     else if s = ''owner'' then Some CONSOLE_OWNER
     else if s = ''log'' then Some CONSOLE_LOG
     else None)"

section \<open>Codecs\<close>

interpretation goal_name: enum_codec job_goal_name job_goal_from_name "\<lambda>x. True"
proof (rule enum_codecI)
  show "job_goal_name x = None \<or> Option.bind (job_goal_name x) job_goal_from_name = Some x" for x by (induct x; code_simp)
  show "job_goal_name x = None \<longleftrightarrow> \<not> (\<lambda>x. True) x" for x by (cases x) simp_all
qed (unfold job_goal_from_name_def, elim if_Some_E, simp_all)

interpretation state_name: enum_codec job_state_name job_state_from_name "\<lambda>x. True"
proof (rule enum_codecI)
  show "job_state_name x = None \<or> Option.bind (job_state_name x) job_state_from_name = Some x" for x by (induct x; code_simp)
  show "job_state_name x = None \<longleftrightarrow> \<not> (\<lambda>x. True) x" for x by (cases x) simp_all
qed (unfold job_state_from_name_def, elim if_Some_E, simp_all)

interpretation proc_name: enum_codec process_name process_from_name "\<lambda>x. x \<notin> {PROCESS_INVALID, PROCESS_LAST}"
proof (rule enum_codecI)
  show "process_name x = None \<or> Option.bind (process_name x) process_from_name = Some x" for x by (induct x; code_simp)
  show "process_name x = None \<longleftrightarrow> \<not> (\<lambda>x. x \<notin> {PROCESS_INVALID, PROCESS_LAST}) x" for x by (cases x) simp_all
qed (unfold process_from_name_def, elim if_Some_E, simp_all)

interpretation goal_enum: enum_codec job_goal_enum_to_str job_goal_str_to_enum "\<lambda>x. True"
proof (rule enum_codecI)
  show "job_goal_enum_to_str x = None \<or> Option.bind (job_goal_enum_to_str x) job_goal_str_to_enum = Some x" for x by (induct x; code_simp)
  show "job_goal_enum_to_str x = None \<longleftrightarrow> \<not> (\<lambda>x. True) x" for x by (cases x) simp_all
qed (unfold job_goal_str_to_enum_def, elim if_Some_E, simp_all)

interpretation state_enum: enum_codec job_state_enum_to_str job_state_str_to_enum "\<lambda>x. True"
proof (rule enum_codecI)
  show "job_state_enum_to_str x = None \<or> Option.bind (job_state_enum_to_str x) job_state_str_to_enum = Some x" for x by (induct x; code_simp)
  show "job_state_enum_to_str x = None \<longleftrightarrow> \<not> (\<lambda>x. True) x" for x by (cases x) simp_all
qed (unfold job_state_str_to_enum_def, elim if_Some_E, simp_all)

interpretation trace_enum: enum_codec job_trace_state_enum_to_str job_trace_state_str_to_enum "\<lambda>x. True"
proof (rule enum_codecI)
  show "job_trace_state_enum_to_str x = None \<or> Option.bind (job_trace_state_enum_to_str x) job_trace_state_str_to_enum = Some x" for x by (induct x; code_simp)
  show "job_trace_state_enum_to_str x = None \<longleftrightarrow> \<not> (\<lambda>x. True) x" for x by (cases x) simp_all
qed (unfold job_trace_state_str_to_enum_def, elim if_Some_E, simp_all)

interpretation expect_enum: enum_codec job_class_expect_type_enum_to_str job_class_expect_type_str_to_enum "\<lambda>x. True"
proof (rule enum_codecI)
  show "job_class_expect_type_enum_to_str x = None \<or> Option.bind (job_class_expect_type_enum_to_str x) job_class_expect_type_str_to_enum = Some x" for x by (induct x; code_simp)
  show "job_class_expect_type_enum_to_str x = None \<longleftrightarrow> \<not> (\<lambda>x. True) x" for x by (cases x) simp_all
qed (unfold job_class_expect_type_str_to_enum_def, elim if_Some_E, simp_all)

interpretation console_enum: enum_codec job_class_console_type_enum_to_str job_class_console_type_str_to_enum "\<lambda>x. True"
proof (rule enum_codecI)
  show "job_class_console_type_enum_to_str x = None \<or> Option.bind (job_class_console_type_enum_to_str x) job_class_console_type_str_to_enum = Some x" for x by (induct x; code_simp)
  show "job_class_console_type_enum_to_str x = None \<longleftrightarrow> \<not> (\<lambda>x. True) x" for x by (cases x) simp_all
qed (unfold job_class_console_type_str_to_enum_def, elim if_Some_E, simp_all)

interpretation progress_enum: enum_codec event_progress_enum_to_str event_progress_str_to_enum "\<lambda>x. True"
proof (rule enum_codecI)
  show "event_progress_enum_to_str x = None \<or> Option.bind (event_progress_enum_to_str x) event_progress_str_to_enum = Some x" for x by (induct x; code_simp)
  show "event_progress_enum_to_str x = None \<longleftrightarrow> \<not> (\<lambda>x. True) x" for x by (cases x) simp_all
qed (unfold event_progress_str_to_enum_def, elim if_Some_E, simp_all)

interpretation optype_enum: enum_codec event_operator_type_enum_to_str event_operator_type_str_to_enum "\<lambda>x. True"
proof (rule enum_codecI)
  show "event_operator_type_enum_to_str x = None \<or> Option.bind (event_operator_type_enum_to_str x) event_operator_type_str_to_enum = Some x" for x by (induct x; code_simp)
  show "event_operator_type_enum_to_str x = None \<longleftrightarrow> \<not> (\<lambda>x. True) x" for x by (cases x) simp_all
qed (unfold event_operator_type_str_to_enum_def, elim if_Some_E, simp_all)

interpretation process_enum: enum_codec process_type_enum_to_str process_type_str_to_enum "\<lambda>x. x \<notin> {PROCESS_LAST}"
proof (rule enum_codecI)
  show "process_type_enum_to_str x = None \<or> Option.bind (process_type_enum_to_str x) process_type_str_to_enum = Some x" for x by (induct x; code_simp)
  show "process_type_enum_to_str x = None \<longleftrightarrow> \<not> (\<lambda>x. x \<notin> {PROCESS_LAST}) x" for x by (cases x) simp_all
qed (unfold process_type_str_to_enum_def, elim if_Some_E, simp_all)

interpretation blocked_enum: enum_codec blocked_type_enum_to_str blocked_type_str_to_enum "\<lambda>x. True"
proof (rule enum_codecI)
  show "blocked_type_enum_to_str x = None \<or> Option.bind (blocked_type_enum_to_str x) blocked_type_str_to_enum = Some x" for x by (induct x; code_simp)
  show "blocked_type_enum_to_str x = None \<longleftrightarrow> \<not> (\<lambda>x. True) x" for x by (cases x) simp_all
qed (unfold blocked_type_str_to_enum_def, elim if_Some_E, simp_all)

section \<open>Properties\<close>

text \<open>the names of goals, states and processes that \<^verbatim>\<open>job_goal_name\<close>,
  \<^verbatim>\<open>job_state_name\<close> and \<^verbatim>\<open>process_name\<close> give are read back as the same value and nothing
  else is accepted: a string is read as a value exactly if it is the name of that value.\<close>

theorem names_parse_exactly:
  "(job_goal_from_name s = Some goal \<longleftrightarrow> job_goal_name goal = Some s)
   \<and> (job_state_from_name s = Some state \<longleftrightarrow> job_state_name state = Some s)
   \<and> (process_from_name s = Some process \<longleftrightarrow> process_name process = Some s)"
  by (simp only: goal_name.from_str_iff state_name.from_str_iff proc_name.from_str_iff)

text \<open>C40: the serialised form of every enumeration of the state file is read back as the value it
  was written from, and every other string is refused: goals, states, trace states, expect and
  console types, event progress, operator types, process types (all but the count
  \<^verbatim>\<open>PROCESS_LAST\<close>) and the types of blocked objects.\<close>

theorem enum_serialise_exactly:
  "(job_goal_str_to_enum s = Some g \<longleftrightarrow> job_goal_enum_to_str g = Some s)
   \<and> (job_state_str_to_enum s = Some st \<longleftrightarrow> job_state_enum_to_str st = Some s)
   \<and> (job_trace_state_str_to_enum s = Some tr \<longleftrightarrow> job_trace_state_enum_to_str tr = Some s)
   \<and> (job_class_expect_type_str_to_enum s = Some ex \<longleftrightarrow>
        job_class_expect_type_enum_to_str ex = Some s)
   \<and> (job_class_console_type_str_to_enum s = Some co \<longleftrightarrow>
        job_class_console_type_enum_to_str co = Some s)
   \<and> (event_progress_str_to_enum s = Some pr \<longleftrightarrow> event_progress_enum_to_str pr = Some s)
   \<and> (event_operator_type_str_to_enum s = Some ty \<longleftrightarrow> event_operator_type_enum_to_str ty = Some s)
   \<and> (process_type_str_to_enum s = Some p \<longleftrightarrow> process_type_enum_to_str p = Some s)
   \<and> (blocked_type_str_to_enum s = Some b \<longleftrightarrow> blocked_type_enum_to_str b = Some s)
   \<and> (process_type_enum_to_str p = None \<longleftrightarrow> p = PROCESS_LAST)"
  using process_enum.to_str_known [of p]
  by (auto simp: goal_enum.from_str_iff state_enum.from_str_iff trace_enum.from_str_iff
    expect_enum.from_str_iff console_enum.from_str_iff progress_enum.from_str_iff
    optype_enum.from_str_iff process_enum.from_str_iff blocked_enum.from_str_iff)

end
