(* ===== verification/Event.thy ===== *)
theory Event
  imports Names
begin

text \<open>
  \<^verbatim>\<open>src/init/event.h\<close>, \<^verbatim>\<open>src/init/blocked.c\<close> and the operations of \<^verbatim>\<open>src/init/event.c\<close> on the list
  of events: creating an event, blocking and unblocking it, and its position in the list.
  Handling and finishing an event, which run jobs, are in theory \<open>EventLoop\<close>.

  Objects are referred to by number (jobs, events and messages, as the code does by pointer).
  An operation on an event that is no longer in the list is an abort, like a failed assertion.
  A count of blockers is unbounded here; in the code it is an \<^verbatim>\<open>unsigned int\<close>, which would wrap
  after more than four thousand million references to one event.
\<close>

section \<open>Data\<close>

text \<open>\<^verbatim>\<open>Blocked\<close>: the union holds a job, an event or a message, according to the type.\<close>

record Blocked =
  b_type :: BlockedType
  b_data :: nat

definition blocked_new :: "BlockedType \<Rightarrow> nat \<Rightarrow> Blocked" where
  "blocked_new ty data = \<lparr>b_type = ty, b_data = data\<rparr>"

record Event =
  e_id :: nat
  e_name :: string
  e_env :: "string list"
  e_fd :: int
  e_progress :: EventProgress
  e_failed :: bool
  e_blockers :: nat
  e_blocking :: "Blocked list"

definition event_get :: "nat \<Rightarrow> Event list \<Rightarrow> Event option" where
  "event_get i evs = find (\<lambda>e. e_id e = i) evs"

definition event_upd :: "nat \<Rightarrow> (Event \<Rightarrow> Event) \<Rightarrow> Event list \<Rightarrow> Event list" where
  "event_upd i f evs = map (\<lambda>e. if e_id e = i then f e else e) evs"

definition event_ids :: "Event list \<Rightarrow> nat set" where
  "event_ids evs = e_id ` set evs"

definition blockers_of :: "Event list \<Rightarrow> nat \<Rightarrow> nat" where
  "blockers_of evs i = (case event_get i evs of None \<Rightarrow> 0 | Some e \<Rightarrow> e_blockers e)"

section \<open>Operations\<close>

text \<open>\<^verbatim>\<open>event_new\<close>: the event \<open>i\<close> is added at the end of the list, pending.\<close>

definition event_new :: "nat \<Rightarrow> string \<Rightarrow> string list \<Rightarrow> Event list \<Rightarrow> Event list option" where
  "event_new i name env evs = do {
     nih_assert (length name > 0);
     Some (evs @ [\<lparr>e_id = i, e_name = name, e_env = env, e_fd = -1, e_progress = EVENT_PENDING,
       e_failed = False, e_blockers = 0, e_blocking = []\<rparr>])
   }"

definition event_block :: "nat \<Rightarrow> Event list \<Rightarrow> Event list option" where
  "event_block i evs = do {
     nih_assert (i \<in> event_ids evs);
     Some (event_upd i (\<lambda>e. e\<lparr>e_blockers := e_blockers e + 1\<rparr>) evs)
   }"

definition event_unblock :: "nat \<Rightarrow> Event list \<Rightarrow> Event list option" where
  "event_unblock i evs = do {
     e \<leftarrow> event_get i evs;
     nih_assert (e_blockers e > 0);
     Some (event_upd i (\<lambda>e. e\<lparr>e_blockers := e_blockers e - 1\<rparr>) evs)
   }"

text \<open>\<^verbatim>\<open>event_to_index\<close>, -1 when the event is not in the list, and \<^verbatim>\<open>event_from_index\<close>.\<close>

fun event_to_index :: "nat \<Rightarrow> Event list \<Rightarrow> int" where
  "event_to_index i [] = -1"
| "event_to_index i (e # es) =
     (if e_id e = i then 0
      else (let k = event_to_index i es in if k = -1 then -1 else k + 1))"

definition event_from_index :: "int \<Rightarrow> Event list \<Rightarrow> Event option option" where
  "event_from_index k evs = do {
     nih_assert (k \<ge> 0);
     Some (if nat k < length evs then Some (evs ! nat k) else None)
   }"

section \<open>Lookup and update\<close>

lemma event_get_Nil [simp]: "event_get i [] = None"
  by (simp add: event_get_def)

lemma event_get_Cons: "event_get i (e # evs) = (if e_id e = i then Some e else event_get i evs)"
  by (simp add: event_get_def)

lemma event_upd_Nil [simp]: "event_upd i f [] = []"
  by (simp add: event_upd_def)

lemma event_upd_Cons:
  "event_upd i f (e # evs) = (if e_id e = i then f e else e) # event_upd i f evs"
  by (simp add: event_upd_def)

lemma event_get_None_iff [simp]: "event_get i evs = None \<longleftrightarrow> i \<notin> event_ids evs"
  by (induction evs) (auto simp: event_get_Cons event_ids_def)

lemma event_ids_iff: "i \<in> event_ids evs \<longleftrightarrow> (\<exists>e. event_get i evs = Some e)"
  using event_get_None_iff [of i evs] by (cases "event_get i evs") auto

lemma event_get_ids [simp]: "event_get i evs = Some e \<Longrightarrow> i \<in> event_ids evs"
  by (auto simp: event_ids_iff)

lemma event_get_id: "event_get i evs = Some e \<Longrightarrow> e_id e = i"
  by (auto simp: event_get_def find_Some_iff)

lemma event_get_set: "event_get i evs = Some e \<Longrightarrow> e \<in> set evs"
  by (auto simp: event_get_def find_Some_iff)

lemma event_get_upd:
  assumes "\<And>e. e_id (f e) = e_id e"
  shows "event_get j (event_upd i f evs) =
    (if i = j then map_option f (event_get i evs) else event_get j evs)"
  using assms by (induction evs) (auto simp: event_get_Cons event_upd_Cons)

lemma event_ids_upd [simp]:
  assumes "\<And>e. e_id (f e) = e_id e"
  shows "event_ids (event_upd i f evs) = event_ids evs"
  using assms by (induction evs) (auto simp: event_ids_def event_upd_Cons)

lemma map_e_id_upd [simp]:
  assumes "\<And>e. e_id (f e) = e_id e"
  shows "map e_id (event_upd i f evs) = map e_id evs"
  using assms by (auto simp: event_upd_def)

lemma event_ids_append [simp]: "event_ids (xs @ ys) = event_ids xs \<union> event_ids ys"
  by (auto simp: event_ids_def)

lemma event_get_append:
  "event_get i (xs @ ys) = (case event_get i xs of None \<Rightarrow> event_get i ys | Some e \<Rightarrow> Some e)"
  by (induction xs) (auto simp: event_get_Cons)

section \<open>Counting references\<close>

lemma event_block_Some_iff:
  "event_block i evs = Some evs' \<longleftrightarrow>
     i \<in> event_ids evs \<and> evs' = event_upd i (\<lambda>e. e\<lparr>e_blockers := e_blockers e + 1\<rparr>) evs"
  by (auto simp: event_block_def)

lemma event_unblock_Some_iff:
  "event_unblock i evs = Some evs' \<longleftrightarrow>
     i \<in> event_ids evs \<and> blockers_of evs i > 0 \<and>
     evs' = event_upd i (\<lambda>e. e\<lparr>e_blockers := e_blockers e - 1\<rparr>) evs"
proof (cases "i \<in> event_ids evs")
  case True
  then obtain e where "event_get i evs = Some e" by (auto simp only: event_ids_iff)
  then show ?thesis by (auto simp: event_unblock_def blockers_of_def)
next
  case False
  then show ?thesis by (auto simp: event_unblock_def elim!: bind_eq_Some_E)
qed

interpretation ev: refcounted event_block event_unblock blockers_of event_ids
proof
  fix i :: nat and evs evs' :: "Event list"
  show "event_block i evs \<noteq> None \<longleftrightarrow> i \<in> event_ids evs"
    by (auto simp: event_block_Some_iff)
  show "event_unblock i evs \<noteq> None \<longleftrightarrow> i \<in> event_ids evs \<and> 0 < blockers_of evs i"
    by (auto simp: event_unblock_Some_iff)
  show "event_block i evs = Some evs' \<Longrightarrow> event_ids evs' = event_ids evs"
    by (auto simp: event_block_Some_iff)
  show "event_unblock i evs = Some evs' \<Longrightarrow> event_ids evs' = event_ids evs"
    by (auto simp: event_unblock_Some_iff)
  show "event_block i evs = Some evs' \<Longrightarrow>
      blockers_of evs' = (blockers_of evs)(i := Suc (blockers_of evs i))"
    by (rule ext) (auto simp: event_block_Some_iff blockers_of_def event_get_upd split: option.splits)
  show "event_unblock i evs = Some evs' \<Longrightarrow>
      blockers_of evs' = (blockers_of evs)(i := blockers_of evs i - 1)"
    by (rule ext) (auto simp: event_unblock_Some_iff blockers_of_def event_get_upd split: option.splits)
qed

text \<open>Blocking and unblocking change the counts and nothing else.\<close>

definition same_but_blockers :: "Event list \<Rightarrow> Event list \<Rightarrow> bool" where
  "same_but_blockers evs evs' \<longleftrightarrow>
     map (\<lambda>e. e\<lparr>e_blockers := 0\<rparr>) evs' = map (\<lambda>e. e\<lparr>e_blockers := 0\<rparr>) evs"

lemma same_but_blockers_refl [simp]: "same_but_blockers evs evs"
  by (simp add: same_but_blockers_def)

lemma same_but_blockers_trans:
  "same_but_blockers a b \<Longrightarrow> same_but_blockers b c \<Longrightarrow> same_but_blockers a c"
  by (simp add: same_but_blockers_def)

lemma event_block_frame: "event_block i evs = Some evs' \<Longrightarrow> same_but_blockers evs evs'"
  by (auto simp: event_block_Some_iff same_but_blockers_def event_upd_def)

lemma event_unblock_frame: "event_unblock i evs = Some evs' \<Longrightarrow> same_but_blockers evs evs'"
  by (auto simp: event_unblock_Some_iff same_but_blockers_def event_upd_def)

lemma foldM_block_frame: "foldM event_block rs evs = Some evs' \<Longrightarrow> same_but_blockers evs evs'"
  by (induction rs arbitrary: evs)
    (auto elim!: bind_eq_Some_E dest: event_block_frame intro: same_but_blockers_trans)

lemma foldM_unblock_frame: "foldM event_unblock rs evs = Some evs' \<Longrightarrow> same_but_blockers evs evs'"
  by (induction rs arbitrary: evs)
    (auto elim!: bind_eq_Some_E dest: event_unblock_frame intro: same_but_blockers_trans)

lemma same_but_blockers_ids: "same_but_blockers evs evs' \<Longrightarrow> map e_id evs' = map e_id evs"
proof -
  assume "same_but_blockers evs evs'"
  then have "map e_id (map (\<lambda>e. e\<lparr>e_blockers := 0\<rparr>) evs') =
      map e_id (map (\<lambda>e. e\<lparr>e_blockers := 0\<rparr>) evs)"
    unfolding same_but_blockers_def by (simp only:)
  then show ?thesis by (simp add: comp_def)
qed

section \<open>Index\<close>

lemma event_to_index_bounds: "-1 \<le> event_to_index i evs \<and> event_to_index i evs < int (length evs)"
  by (induction evs) (auto simp: Let_def)

lemma event_to_index_found: "event_to_index i evs \<noteq> -1 \<longleftrightarrow> i \<in> event_ids evs"
proof (induction evs)
  case (Cons a evs)
  then show ?case using event_to_index_bounds [of i evs] by (auto simp: Let_def event_ids_def)
qed (simp add: event_ids_def)

lemma event_from_to_index:
  "event_get i evs = Some e \<Longrightarrow> event_from_index (event_to_index i evs) evs = Some (Some e)"
proof (induction evs)
  case Nil
  then show ?case by simp
next
  case (Cons a evs)
  show ?case
  proof (cases "e_id a = i")
    case True
    with Cons.prems show ?thesis by (simp add: event_get_Cons event_from_index_def)
  next
    case False
    with Cons.prems have get: "event_get i evs = Some e" by (simp add: event_get_Cons)
    then have "event_to_index i evs \<noteq> -1" by (simp add: event_to_index_found)
    moreover from this have "0 \<le> event_to_index i evs" using event_to_index_bounds [of i evs] by linarith
    ultimately show ?thesis
      using Cons.IH [OF get] False
      by (auto simp: event_from_index_def Let_def nat_add_distrib split: if_splits)
  qed
qed

section \<open>Properties\<close>

text \<open>serialised references to events survive: \<^verbatim>\<open>event_from_index\<close> gives back the event whose
  index \<^verbatim>\<open>event_to_index\<close> wrote, and -1 is written exactly for an event that is not in the
  list.\<close>

theorem event_index_round_trip:
  "(event_to_index i evs = -1 \<longleftrightarrow> i \<notin> event_ids evs)
   \<and> (case event_get i evs of
        None \<Rightarrow> event_from_index (event_to_index i evs) evs = None
      | Some e \<Rightarrow> event_from_index (event_to_index i evs) evs = Some (Some e))"
proof -
  have "event_to_index i evs = -1" if "event_get i evs = None"
    using that event_to_index_found [of i evs] by auto
  then show ?thesis
    using event_to_index_found [of i evs] event_from_to_index [of i evs]
    by (auto simp: event_from_index_def nih_assert_def split: option.splits)
qed

text \<open>C39: an event can be unblocked as often as it was blocked and no more: releasing a list of
  references succeeds (no failed assertion, no event that is gone) exactly if every event it
  names is there and has at least as many blockers as the list has references to it.\<close>

theorem event_unblock_all_iff:
  "foldM event_unblock rs evs \<noteq> None \<longleftrightarrow>
     set rs \<subseteq> event_ids evs \<and> (\<forall>i. count_list rs i \<le> blockers_of evs i)"
  by (rule ev.release_all_iff)

end
