(* ===== verification/EventOperator.thy ===== *)
theory EventOperator
  imports Expand Glob Event "HOL-Library.Tree"
begin

text \<open>
  \<^verbatim>\<open>src/init/event_operator.c\<close>: the trees of \<^verbatim>\<open>start on\<close> and \<^verbatim>\<open>stop on\<close> conditions. A tree of the
  code's \<^verbatim>\<open>EventOperator\<close> nodes is a binary tree whose \<^term>\<open>Leaf\<close> is the NULL child; the
  traversals \<^verbatim>\<open>NIH_TREE_FOREACH_POST\<close> and \<^verbatim>\<open>NIH_TREE_FOREACH_FULL\<close> are recursions over it.
  An operation returns \<open>None\<close> where an assertion fails.

  The invariant \<open>oper_ok\<close> says that match nodes are leaves with a name that are true when they hold
  an event, and that the other nodes have two children. It is kept by every operation, and the references a tree holds (\<open>oper_refs\<close>) are blocked in the list
  of events exactly as often as they occur.
\<close>

section \<open>Data\<close>

record oper =
  o_type :: EventOperatorType
  o_value :: bool
  o_name :: "string option"
  o_env :: "string list option"
  o_event :: "nat option"

type_synonym EventOperator = "oper tree"

fun oper_value :: "EventOperator \<Rightarrow> bool" where
  "oper_value Leaf = False"
| "oper_value (Node l a r) = o_value a"

section \<open>Operations\<close>

definition event_operator_new ::
    "EventOperatorType \<Rightarrow> string option \<Rightarrow> string list option \<Rightarrow> EventOperator option" where
  "event_operator_new ty name env = do {
     nih_assert (ty = EVENT_MATCH \<or> name = None);
     nih_assert (ty = EVENT_MATCH \<or> env = None);
     nih_assert (ty \<noteq> EVENT_MATCH \<or> name \<noteq> None);
     Some (Node Leaf
       (if ty = EVENT_MATCH
        then \<lparr>o_type = ty, o_value = False, o_name = name, o_env = env, o_event = None\<rparr>
        else \<lparr>o_type = ty, o_value = False, o_name = None, o_env = None, o_event = None\<rparr>)
       Leaf)
   }"

fun event_operator_copy ::
    "EventOperator \<Rightarrow> Event list \<Rightarrow> (EventOperator \<times> Event list) option" where
  "event_operator_copy Leaf evs = None"
| "event_operator_copy (Node l a r) evs = do {
     node \<leftarrow> event_operator_new (o_type a) (o_name a) None;
     a' \<leftarrow> (case node of Leaf \<Rightarrow> None | Node _ b _ \<Rightarrow> Some b);
     let a' = a'\<lparr>o_value := o_value a\<rparr>;
     let a' = (case o_env a of None \<Rightarrow> a' | Some env \<Rightarrow> a'\<lparr>o_env := Some env\<rparr>);
     (a', evs) \<leftarrow> (case o_event a of
         None \<Rightarrow> Some (a', evs)
       | Some i \<Rightarrow> do { evs \<leftarrow> event_block i evs; Some (a'\<lparr>o_event := Some i\<rparr>, evs) });
     (l', evs) \<leftarrow> (if l = Leaf then Some (Leaf, evs) else event_operator_copy l evs);
     (r', evs) \<leftarrow> (if r = Leaf then Some (Leaf, evs) else event_operator_copy r evs);
     Some (Node l' a' r', evs)
   }"

text \<open>\<^verbatim>\<open>event_operator_destroy\<close> is the destructor of a node; freeing a tree runs it on every node,
  a parent before its children.\<close>

definition event_operator_destroy :: "oper \<Rightarrow> Event list \<Rightarrow> Event list option" where
  "event_operator_destroy a evs =
     (case o_event a of None \<Rightarrow> Some evs | Some i \<Rightarrow> event_unblock i evs)"

fun free_operators :: "EventOperator \<Rightarrow> Event list \<Rightarrow> Event list option" where
  "free_operators Leaf evs = Some evs"
| "free_operators (Node l a r) evs = do {
     evs \<leftarrow> event_operator_destroy a evs;
     evs \<leftarrow> free_operators l evs;
     free_operators r evs
   }"

definition event_operator_update :: "EventOperator \<Rightarrow> EventOperator option" where
  "event_operator_update oper = do {
     nih_assert (oper \<noteq> Leaf);
     nih_assert (left oper \<noteq> Leaf);
     nih_assert (right oper \<noteq> Leaf);
     let l = left oper;
     let r = right oper;
     let a = value oper;
     (case o_type a of
        EVENT_OR \<Rightarrow> Some (Node l (a\<lparr>o_value := (oper_value l \<or> oper_value r)\<rparr>) r)
      | EVENT_AND \<Rightarrow> Some (Node l (a\<lparr>o_value := (oper_value l \<and> oper_value r)\<rparr>) r)
      | EVENT_MATCH \<Rightarrow> None)
   }"

text \<open>The loop of \<^verbatim>\<open>event_operator_match\<close>: \<open>oenv\<close> are the operator's arguments still to match and
  \<open>eenv\<close> the event's variables from the current position, empty when there is none.
  \<open>match_slot\<close> is the first half of its body: an argument with a name moves the position to the
  variable of that name, and is negated when the name is followed by \<^verbatim>\<open>!=\<close>.\<close>

definition match_slot ::
    "string list \<Rightarrow> string \<Rightarrow> string list \<Rightarrow> string list \<times> bool \<times> string" where
  "match_slot event_env str eenv =
     (case (case strstr str ''!='' of Some p \<Rightarrow> Some p | None \<Rightarrow> strchr str CHR ''='') of
        None \<Rightarrow> (eenv, False, str)
      | Some p \<Rightarrow>
          let eenv = (case environ_lookup event_env str p of
                        None \<Rightarrow> [] | Some i \<Rightarrow> drop i event_env)
          in if char_at str p = CHR ''!'' then (eenv, True, drop (p + 2) str)
             else (eenv, False, drop (p + 1) str))"

fun match_env ::
    "string list \<Rightarrow> string list \<Rightarrow> string list \<Rightarrow> string list \<Rightarrow> bool option" where
  "match_env env event_env [] eenv = Some True"
| "match_env env event_env (str # oenv) eenv =
     (case match_slot event_env str eenv of
        ([], negate, oval) \<Rightarrow> Some False
      | (entry # rest, negate, oval) \<Rightarrow> do {
          p \<leftarrow> strchr entry CHR ''='';
          let eval = drop (p + 1) entry;
          (case environ_expand env oval of
             Inl err \<Rightarrow> Some False
           | Inr expoval \<Rightarrow>
               if fnmatch expoval eval = negate then Some False
               else match_env env event_env oenv rest)
        })"

definition event_operator_match ::
    "EventOperator \<Rightarrow> Event \<Rightarrow> string list \<Rightarrow> bool option" where
  "event_operator_match oper event env = do {
     nih_assert (oper \<noteq> Leaf);
     nih_assert (o_type (value oper) = EVENT_MATCH);
     nih_assert (left oper = Leaf);
     nih_assert (right oper = Leaf);
     if o_name (value oper) \<noteq> Some (e_name event) then Some False
     else match_env env (e_env event)
       (case o_env (value oper) of None \<Rightarrow> [] | Some oenv \<Rightarrow> oenv) (e_env event)
   }"

text \<open>\<^verbatim>\<open>event_operator_handle\<close> visits the children before the node; the result says whether the
  event matched a node. The event is the one with number \<open>i\<close>.\<close>

fun event_operator_handle ::
    "EventOperator \<Rightarrow> nat \<Rightarrow> string list \<Rightarrow> Event list \<Rightarrow>
       (EventOperator \<times> bool \<times> Event list) option" where
  "event_operator_handle Leaf i env evs = Some (Leaf, False, evs)"
| "event_operator_handle (Node l a r) i env evs = do {
     (l, ret_l, evs) \<leftarrow> event_operator_handle l i env evs;
     (r, ret_r, evs) \<leftarrow> event_operator_handle r i env evs;
     (case o_type a of
        EVENT_MATCH \<Rightarrow> do {
          event \<leftarrow> event_get i evs;
          matched \<leftarrow> (if o_value a then Some False
                      else event_operator_match (Node l a r) event env);
          if matched then do {
            evs \<leftarrow> event_block i evs;
            Some (Node l (a\<lparr>o_value := True, o_event := Some i\<rparr>) r, True, evs)
          } else Some (Node l a r, ret_l \<or> ret_r, evs)
        }
      | _ \<Rightarrow> do {
          oper \<leftarrow> event_operator_update (Node l a r);
          Some (oper, ret_l \<or> ret_r, evs)
        })
   }"

text \<open>The nodes that \<^verbatim>\<open>NIH_TREE_FOREACH_FULL\<close> visits with \<^verbatim>\<open>event_operator_filter\<close>: in order,
  leaving out nodes whose value is not true together with everything below them.\<close>

definition event_operator_filter :: "oper \<Rightarrow> bool" where
  "event_operator_filter a \<longleftrightarrow> \<not> o_value a"

fun filtered_nodes :: "EventOperator \<Rightarrow> oper list" where
  "filtered_nodes Leaf = []"
| "filtered_nodes (Node l a r) =
     (if event_operator_filter a then [] else filtered_nodes l @ a # filtered_nodes r)"

text \<open>The events of the match nodes among them, each of which the code asserts to be set.\<close>

fun matched_events :: "oper list \<Rightarrow> Event list \<Rightarrow> Event list option" where
  "matched_events [] evs = Some []"
| "matched_events (a # as) evs =
     (if o_type a \<noteq> EVENT_MATCH then matched_events as evs
      else do {
        i \<leftarrow> o_event a;
        event \<leftarrow> event_get i evs;
        rest \<leftarrow> matched_events as evs;
        Some (event # rest)
      })"

text \<open>The list under construction ends in \<open>=\<close> until something was added to it.\<close>

definition append_item :: "string \<Rightarrow> string \<Rightarrow> string" where
  "append_item evlist item =
     (if last evlist \<noteq> CHR ''='' then evlist @ '' '' @ item else evlist @ item)"

fun environment_loop ::
    "(string \<Rightarrow> string option) \<Rightarrow> Event list \<Rightarrow> string list \<times> string option \<Rightarrow>
       string list \<times> string option" where
  "environment_loop genv [] (env, evlist) = (env, evlist)"
| "environment_loop genv (event # events) (env, evlist) =
     environment_loop genv events
       (environ_append genv True (e_env event) env,
        map_option (\<lambda>s. append_item s (e_name event)) evlist)"

definition event_operator_environment ::
    "(string \<Rightarrow> string option) \<Rightarrow> EventOperator \<Rightarrow> Event list \<Rightarrow> string list option \<Rightarrow>
       string option \<Rightarrow> string list option" where
  "event_operator_environment genv root evs env key = do {
     nih_assert (root \<noteq> Leaf);
     events \<leftarrow> matched_events (filtered_nodes root) evs;
     let env = (case env of None \<Rightarrow> [] | Some env \<Rightarrow> env);
     let evlist = map_option (\<lambda>k. k @ ''='') key;
     let (env, evlist) = environment_loop genv events (env, evlist);
     Some (case evlist of None \<Rightarrow> env | Some s \<Rightarrow> environ_add genv True s env)
   }"

fun fds_loop :: "Event list \<Rightarrow> int list \<times> string \<Rightarrow> int list \<times> string" where
  "fds_loop [] (fds, evlist) = (fds, evlist)"
| "fds_loop (event # events) (fds, evlist) =
     (if e_fd event \<ge> 0
      then fds_loop events (fds @ [e_fd event], append_item evlist (show_int (e_fd event)))
      else fds_loop events (fds, evlist))"

definition event_operator_fds ::
    "(string \<Rightarrow> string option) \<Rightarrow> EventOperator \<Rightarrow> Event list \<Rightarrow> string list \<Rightarrow> string \<Rightarrow>
       (int list \<times> string list) option" where
  "event_operator_fds genv root evs env key = do {
     nih_assert (root \<noteq> Leaf);
     events \<leftarrow> matched_events (filtered_nodes root) evs;
     let (fds, evlist) = fds_loop events ([], key @ ''='');
     Some (fds, if fds \<noteq> [] then environ_add genv True evlist env else env)
   }"

fun events_loop ::
    "Event list \<Rightarrow> Blocked list \<times> Event list \<Rightarrow> (Blocked list \<times> Event list) option" where
  "events_loop [] (list, evs) = Some (list, evs)"
| "events_loop (event # events) (list, evs) = do {
     evs \<leftarrow> event_block (e_id event) evs;
     events_loop events (list @ [blocked_new BLOCKED_EVENT (e_id event)], evs)
   }"

definition event_operator_events ::
    "EventOperator \<Rightarrow> Blocked list \<Rightarrow> Event list \<Rightarrow> (Blocked list \<times> Event list) option" where
  "event_operator_events root list evs = do {
     nih_assert (root \<noteq> Leaf);
     events \<leftarrow> matched_events (filtered_nodes root) evs;
     events_loop events (list, evs)
   }"

fun event_operator_reset ::
    "EventOperator \<Rightarrow> Event list \<Rightarrow> (EventOperator \<times> Event list) option" where
  "event_operator_reset Leaf evs = Some (Leaf, evs)"
| "event_operator_reset (Node l a r) evs = do {
     (l, evs) \<leftarrow> event_operator_reset l evs;
     (r, evs) \<leftarrow> event_operator_reset r evs;
     (case o_type a of
        EVENT_MATCH \<Rightarrow> do {
          evs \<leftarrow> (case o_event a of None \<Rightarrow> Some evs | Some i \<Rightarrow> event_unblock i evs);
          Some (Node l (a\<lparr>o_value := False, o_event := None\<rparr>) r, evs)
        }
      | _ \<Rightarrow> do {
          oper \<leftarrow> event_operator_update (Node l a r);
          Some (oper, evs)
        })
   }"

subsection \<open>Printing a condition\<close>

text \<open>\<^verbatim>\<open>state_collapse_env\<close>: NULL for an array without elements.\<close>

definition collapse_elem :: "string \<Rightarrow> string" where
  "collapse_elem elem =
     (case strchr elem CHR ''='' of
        Some p \<Rightarrow>
          if (\<exists>c\<in>set (drop p elem). c = CHR '' '' \<or> c = CHR 0x09)
          then take (p + 1) elem @ CHR 0x22 # drop (p + 1) elem @ [CHR 0x22]
          else elem
      | None \<Rightarrow> elem)"

fun collapse_loop :: "bool \<Rightarrow> string list \<Rightarrow> string option \<Rightarrow> string option" where
  "collapse_loop first [] flattened = flattened"
| "collapse_loop first (elem # elems) flattened =
     collapse_loop False elems
       (Some ((case flattened of None \<Rightarrow> [] | Some s \<Rightarrow> s) @ (if first then [] else '' '')
          @ collapse_elem elem))"

definition state_collapse_env :: "string list option \<Rightarrow> string option" where
  "state_collapse_env env = (case env of None \<Rightarrow> None | Some elems \<Rightarrow> collapse_loop True elems None)"

text \<open>A match node as text. \<^verbatim>\<open>NIH_MUST\<close> calls \<^verbatim>\<open>state_collapse_env\<close> until it returns something:
  for an empty array that is never, which is \<open>None\<close> here.\<close>

definition collapse_match :: "oper \<Rightarrow> string option" where
  "collapse_match a = do {
     name \<leftarrow> o_name a;
     (case o_env a of
        None \<Rightarrow> Some name
      | Some env \<Rightarrow> do { s \<leftarrow> state_collapse_env (Some env); Some (name @ '' '' @ s) })
   }"

definition collapse_child :: "EventOperator \<Rightarrow> string list \<Rightarrow> (string \<times> string list) option" where
  "collapse_child child stack =
     (case child of
        Leaf \<Rightarrow> None
      | Node _ a _ \<Rightarrow>
          if o_type a \<noteq> EVENT_MATCH then
            (case stack of [] \<Rightarrow> None | latest # rest \<Rightarrow> Some (latest, rest))
          else do { s \<leftarrow> collapse_match a; Some (s, stack) })"

definition collapse_visit ::
    "EventOperator \<Rightarrow> oper \<Rightarrow> EventOperator \<Rightarrow> string list \<Rightarrow> string list option" where
  "collapse_visit l a r stack = do {
     nih_assert (l \<noteq> Leaf);
     nih_assert (r \<noteq> Leaf);
     (right_expr, stack) \<leftarrow> collapse_child r stack;
     (left_expr, stack) \<leftarrow> collapse_child l stack;
     Some ((''('' @ left_expr @ '' '' @ (if o_type a = EVENT_OR then ''or'' else ''and'') @ '' ''
       @ right_expr @ '')'') # stack)
   }"

fun collapse_post :: "EventOperator \<Rightarrow> string list \<Rightarrow> string list option" where
  "collapse_post Leaf stack = Some stack"
| "collapse_post (Node l a r) stack = do {
     stack \<leftarrow> collapse_post l stack;
     stack \<leftarrow> collapse_post r stack;
     if o_type a = EVENT_MATCH then Some stack else collapse_visit l a r stack
   }"

definition event_operator_collapse :: "EventOperator \<Rightarrow> string option" where
  "event_operator_collapse condition =
     (case condition of
        Leaf \<Rightarrow> None
      | Node l a r \<Rightarrow> do {
          stack \<leftarrow> collapse_post l [];
          stack \<leftarrow> collapse_post r stack;
          stack \<leftarrow> (if o_type a = EVENT_MATCH then do { s \<leftarrow> collapse_match a; Some (s # stack) }
                    else collapse_visit l a r stack);
          nih_assert (stack \<noteq> []);
          nih_assert (tl stack = []);
          Some (hd stack)
        })"

section \<open>The invariant\<close>

fun combine :: "EventOperatorType \<Rightarrow> bool \<Rightarrow> bool \<Rightarrow> bool" where
  "combine EVENT_OR p q \<longleftrightarrow> p \<or> q"
| "combine EVENT_AND p q \<longleftrightarrow> p \<and> q"
| "combine EVENT_MATCH p q \<longleftrightarrow> False"

fun oper_ok :: "EventOperator \<Rightarrow> bool" where
  "oper_ok Leaf \<longleftrightarrow> False"
| "oper_ok (Node l a r) \<longleftrightarrow>
     (if o_type a = EVENT_MATCH then
        l = Leaf \<and> r = Leaf \<and> o_name a \<noteq> None \<and> (o_value a \<longleftrightarrow> o_event a \<noteq> None)
      else o_name a = None \<and> o_env a = None \<and> o_event a = None \<and> oper_ok l \<and> oper_ok r)"

text \<open>The values of the inner nodes follow from those below. They may lag behind between a call of
  \<^verbatim>\<open>job_class_event_block\<close>, which sets match nodes only, and the next event.\<close>

fun oper_consistent :: "EventOperator \<Rightarrow> bool" where
  "oper_consistent Leaf \<longleftrightarrow> True"
| "oper_consistent (Node l a r) \<longleftrightarrow>
     o_type a = EVENT_MATCH \<or>
     oper_consistent l \<and> oper_consistent r \<and>
     (o_value a \<longleftrightarrow> combine (o_type a) (oper_value l) (oper_value r))"

fun oper_refs :: "EventOperator \<Rightarrow> nat list" where
  "oper_refs Leaf = []"
| "oper_refs (Node l a r) =
     oper_refs l @ oper_refs r @ (case o_event a of None \<Rightarrow> [] | Some i \<Rightarrow> [i])"

lemma oper_ok_not_Leaf: "oper_ok t \<Longrightarrow> t \<noteq> Leaf"
  by auto

lemma oper_ok_induct [consumes 1, case_names leaf_match inner]:
  assumes "oper_ok t"
    and "\<And>a. o_type a = EVENT_MATCH \<Longrightarrow> o_name a \<noteq> None \<Longrightarrow> o_value a = (o_event a \<noteq> None) \<Longrightarrow>
      P (Node Leaf a Leaf)"
    and "\<And>l a r. o_type a \<noteq> EVENT_MATCH \<Longrightarrow> o_name a = None \<Longrightarrow> o_env a = None \<Longrightarrow> o_event a = None \<Longrightarrow>
      oper_ok l \<Longrightarrow> oper_ok r \<Longrightarrow>
      P l \<Longrightarrow> P r \<Longrightarrow> P (Node l a r)"
  shows "P t"
  using assms(1)
proof (induction t)
  case Leaf
  then show ?case by simp
next
  case (Node l a r)
  show ?case
  proof (cases "o_type a = EVENT_MATCH")
    case True
    with Node.prems assms(2) show ?thesis by simp
  next
    case False
    with Node assms(3) [of a l r] show ?thesis by simp
  qed
qed

lemma event_operator_update_inner:
  assumes "o_type a \<noteq> EVENT_MATCH" and "l \<noteq> Leaf" and "r \<noteq> Leaf"
  shows "event_operator_update (Node l a r) =
    Some (Node l (a\<lparr>o_value := combine (o_type a) (oper_value l) (oper_value r)\<rparr>) r)"
  using assms by (cases "o_type a") (simp_all add: event_operator_update_def)

section \<open>Matching\<close>

definition oper_matches :: "string \<Rightarrow> string list \<Rightarrow> string list \<Rightarrow> oper \<Rightarrow> bool" where
  "oper_matches name event_env env a \<longleftrightarrow>
     o_name a = Some name \<and>
     match_env env event_env (case o_env a of None \<Rightarrow> [] | Some oenv \<Rightarrow> oenv) event_env = Some True"

lemma match_slot_subset:
  "match_slot event_env str eenv = (eenv', negate, oval) \<Longrightarrow> set eenv \<subseteq> set event_env \<Longrightarrow>
     set eenv' \<subseteq> set event_env"
  using set_drop_subset [of _ event_env]
  by (auto simp: match_slot_def Let_def split: option.splits if_splits dest: in_set_dropD)

lemma match_env_total:
  assumes "\<forall>e\<in>set event_env. entry_valid e" and "set eenv \<subseteq> set event_env"
  shows "match_env env event_env oenv eenv \<noteq> None"
  using assms(2)
proof (induction oenv arbitrary: eenv)
  case Nil
  then show ?case by simp
next
  case (Cons str oenv)
  obtain eenv' negate oval where slot: "match_slot event_env str eenv = (eenv', negate, oval)"
    by (metis prod_cases3)
  show ?case
  proof (cases eenv')
    case Nil
    with slot show ?thesis by simp
  next
    case (Cons entry rest)
    then have sub: "entry \<in> set event_env" "set rest \<subseteq> set event_env"
      using match_slot_subset [OF slot Cons.prems] by auto
    then obtain p where "strchr entry CHR ''='' = Some p"
      using assms(1) by (auto simp: entry_valid_def strchr_Some_iff)
    then show ?thesis using slot Cons Cons.IH [OF sub(2)] by (auto split: sum.splits)
  qed
qed

lemma event_operator_match_eq:
  assumes "o_type a = EVENT_MATCH" and "\<forall>e\<in>set (e_env event). entry_valid e"
  shows "event_operator_match (Node Leaf a Leaf) event env =
    Some (oper_matches (e_name event) (e_env event) env a)"
proof -
  have "match_env env (e_env event) (case o_env a of None \<Rightarrow> [] | Some oenv \<Rightarrow> oenv) (e_env event) \<noteq> None"
    by (rule match_env_total) (use assms in auto)
  then show ?thesis using assms by (auto simp: event_operator_match_def oper_matches_def)
qed

section \<open>Handling an event\<close>

text \<open>What \<^verbatim>\<open>event_operator_handle\<close> makes of a tree: the match nodes that have no event yet and
  match take the event, and the other values follow.\<close>

fun oper_feed :: "(oper \<Rightarrow> bool) \<Rightarrow> nat \<Rightarrow> EventOperator \<Rightarrow> EventOperator" where
  "oper_feed m i Leaf = Leaf"
| "oper_feed m i (Node l a r) =
     (if o_type a = EVENT_MATCH then
        Node l (if \<not> o_value a \<and> m a then a\<lparr>o_value := True, o_event := Some i\<rparr> else a) r
      else
        (let l' = oper_feed m i l; r' = oper_feed m i r
         in Node l' (a\<lparr>o_value := combine (o_type a) (oper_value l') (oper_value r')\<rparr>) r'))"

text \<open>How many match nodes take it.\<close>

fun new_matches :: "(oper \<Rightarrow> bool) \<Rightarrow> EventOperator \<Rightarrow> nat" where
  "new_matches m Leaf = 0"
| "new_matches m (Node l a r) =
     (if o_type a = EVENT_MATCH then (if \<not> o_value a \<and> m a then 1 else 0)
      else new_matches m l + new_matches m r)"

lemma oper_feed_not_Leaf [simp]: "oper_feed m i t = Leaf \<longleftrightarrow> t = Leaf"
  by (cases t) (auto simp: Let_def)

lemma oper_feed_ok: "oper_ok t \<Longrightarrow> oper_ok (oper_feed m i t)"
  by (induction rule: oper_ok_induct) (auto simp: Let_def)

lemma oper_feed_consistent: "oper_ok t \<Longrightarrow> oper_consistent (oper_feed m i t)"
  by (induction rule: oper_ok_induct) (auto simp: Let_def)

lemma oper_feed_refs:
  "oper_ok t \<Longrightarrow> count_list (oper_refs (oper_feed m i t)) j =
     count_list (oper_refs t) j + (if j = i then new_matches m t else 0)"
  by (induction rule: oper_ok_induct) (auto simp: Let_def)

lemma set_oper_feed_refs:
  "oper_ok t \<Longrightarrow> set (oper_refs (oper_feed m i t)) =
     set (oper_refs t) \<union> (if new_matches m t = 0 then {} else {i})"
  by (induction rule: oper_ok_induct) (auto simp: Let_def)

lemma event_operator_update_feed:
  assumes "o_type a \<noteq> EVENT_MATCH" and "l \<noteq> Leaf" and "r \<noteq> Leaf"
  shows "event_operator_update (Node (oper_feed m i l) a (oper_feed m i r)) =
    Some (oper_feed m i (Node l a r))"
  using assms by (simp add: event_operator_update_inner Let_def)

definition block_times :: "nat \<Rightarrow> nat \<Rightarrow> Event list \<Rightarrow> Event list" where
  "block_times i n evs = event_upd i (\<lambda>e. e\<lparr>e_blockers := e_blockers e + n\<rparr>) evs"

lemma block_times_0 [simp]: "block_times i 0 evs = evs"
  by (simp add: block_times_def event_upd_def)

lemma block_times_add: "block_times i n (block_times i m evs) = block_times i (m + n) evs"
  by (auto simp: block_times_def event_upd_def add.assoc)

lemma event_block_times: "i \<in> event_ids evs \<Longrightarrow> event_block i evs = Some (block_times i 1 evs)"
  by (simp add: event_block_def block_times_def)

lemma event_get_block_times:
  "event_get j (block_times i n evs) =
     (if i = j then map_option (\<lambda>e. e\<lparr>e_blockers := e_blockers e + n\<rparr>) (event_get i evs)
      else event_get j evs)"
  by (simp add: block_times_def event_get_upd)

lemma event_ids_block_times [simp]: "event_ids (block_times i n evs) = event_ids evs"
  by (simp add: block_times_def)

lemma blockers_of_block_times:
  "i \<in> event_ids evs \<Longrightarrow>
     blockers_of (block_times i n evs) j = blockers_of evs j + (if j = i then n else 0)"
  by (auto simp: blockers_of_def event_get_block_times split: option.splits)

lemma event_operator_handle_eq:
  fixes env :: "string list"
  assumes "oper_ok t" and "event_get i evs = Some event" and "\<forall>e\<in>set (e_env event). entry_valid e"
  defines "m \<equiv> oper_matches (e_name event) (e_env event) env"
  shows "event_operator_handle t i env evs =
    Some (oper_feed m i t, new_matches m t \<noteq> 0, block_times i (new_matches m t) evs)"
  using assms(1,2,3) unfolding m_def
proof (induction arbitrary: evs event rule: oper_ok_induct)
  case (leaf_match a)
  then show ?case
    using event_block_times [of i evs]
    by (simp add: event_operator_match_eq)
next
  case (inner l a r)
  note ne = oper_ok_not_Leaf [OF inner.hyps(5)] oper_ok_not_Leaf [OF inner.hyps(6)]
  let ?m = "oper_matches (e_name event) (e_env event) env"
  let ?evs = "block_times i (new_matches ?m l) evs"
  let ?ev = "event\<lparr>e_blockers := e_blockers event + new_matches ?m l\<rparr>"
  have "event_get i ?evs = Some ?ev"
    using inner.prems(1) by (simp add: event_get_block_times)
  from inner.IH(2) [OF this] inner.prems
  have r: "event_operator_handle r i env ?evs =
      Some (oper_feed ?m i r, new_matches ?m r \<noteq> 0, block_times i (new_matches ?m r) ?evs)"
    by simp
  show ?case
    using inner.hyps(1) event_operator_update_feed [OF inner.hyps(1) ne]
    by (cases "o_type a") (simp_all add: inner.IH(1) [OF inner.prems] r block_times_add)
qed

section \<open>Resetting, copying and freeing\<close>

fun oper_clear :: "EventOperator \<Rightarrow> EventOperator" where
  "oper_clear Leaf = Leaf"
| "oper_clear (Node l a r) =
     Node (oper_clear l)
       (if o_type a = EVENT_MATCH then a\<lparr>o_value := False, o_event := None\<rparr>
        else a\<lparr>o_value := False\<rparr>) (oper_clear r)"

lemma oper_value_clear [simp]: "\<not> oper_value (oper_clear t)"
  by (cases t) auto

lemma oper_clear_not_Leaf [simp]: "oper_clear t = Leaf \<longleftrightarrow> t = Leaf"
  by (cases t) auto

lemma combine_False [simp]: "combine ty False False = False"
  by (cases ty) auto

lemma oper_clear_ok: "oper_ok t \<Longrightarrow> oper_ok (oper_clear t)"
  by (induction rule: oper_ok_induct) auto

lemma oper_clear_refs: "oper_ok t \<Longrightarrow> oper_refs (oper_clear t) = []"
  by (induction rule: oper_ok_induct) auto

lemma event_operator_reset_eq:
  assumes "oper_ok t"
  shows "event_operator_reset t evs =
    map_option (\<lambda>evs. (oper_clear t, evs)) (foldM event_unblock (oper_refs t) evs)"
  using assms
proof (induction arbitrary: evs rule: oper_ok_induct)
  case (leaf_match a)
  then show ?case by (cases "o_event a") (auto split: Option.bind_splits)
next
  case (inner l a r)
  note ne = oper_ok_not_Leaf [OF inner.hyps(5)] oper_ok_not_Leaf [OF inner.hyps(6)]
  have upd: "event_operator_update (Node (oper_clear l) a (oper_clear r)) =
      Some (oper_clear (Node l a r))"
    using inner.hyps(1) ne by (simp add: event_operator_update_inner)
  show ?case
    using inner.hyps(1,4) upd
    by (cases "o_type a")
      (auto simp: inner.IH foldM_append map_option_case split: Option.bind_splits option.splits)
qed

lemma event_operator_copy_eq:
  assumes "oper_ok t"
  shows "event_operator_copy t evs =
    map_option (\<lambda>evs. (t, evs)) (foldM event_block (oper_refs t) evs)"
  using assms
proof (induction arbitrary: evs rule: oper_ok_induct)
  case (leaf_match a)
  then show ?case
    by (cases "o_event a"; cases "o_env a")
      (auto simp: event_operator_new_def split: Option.bind_splits)
next
  case (inner l a r)
  note ne = oper_ok_not_Leaf [OF inner.hyps(5)] oper_ok_not_Leaf [OF inner.hyps(6)]
  have a: "\<lparr>o_type = o_type a, o_value = o_value a, o_name = None, o_env = None, o_event = None\<rparr> = a"
    using inner.hyps by (cases a) simp
  show ?case
    using inner.hyps(1-4) ne a
    by (auto simp: inner.IH event_operator_new_def foldM_append map_option_case
      split: Option.bind_splits option.splits)
qed

lemma free_operators_eq:
  assumes "oper_ok t"
  shows "free_operators t evs = foldM event_unblock (oper_refs t) evs"
  using assms
proof (induction arbitrary: evs rule: oper_ok_induct)
  case (leaf_match a)
  then show ?case
    by (cases "o_event a") (auto simp: event_operator_destroy_def split: Option.bind_splits)
next
  case (inner l a r)
  then show ?case
    by (simp add: event_operator_destroy_def foldM_append cong: Option.bind_cong)
qed

section \<open>What the value of a condition means\<close>

text \<open>The condition as a formula over its match nodes.\<close>

fun cond_holds :: "(oper \<Rightarrow> bool) \<Rightarrow> EventOperator \<Rightarrow> bool" where
  "cond_holds q Leaf \<longleftrightarrow> False"
| "cond_holds q (Node l a r) \<longleftrightarrow>
     (if o_type a = EVENT_MATCH then q a
      else combine (o_type a) (cond_holds q l) (cond_holds q r))"

lemma oper_value_cond: "oper_ok t \<Longrightarrow> oper_consistent t \<Longrightarrow> oper_value t = cond_holds (\<lambda>a. o_event a \<noteq> None) t"
  by (induction rule: oper_ok_induct) auto

lemma cond_holds_feed:
  assumes "oper_ok t"
    and "\<And>a v x. q (a\<lparr>o_value := v, o_event := x\<rparr>) = q a"
  shows "cond_holds (\<lambda>a. o_event a \<noteq> None \<or> q a) (oper_feed m i t) =
    cond_holds (\<lambda>a. o_event a \<noteq> None \<or> m a \<or> q a) t"
  using assms(1) by (induction rule: oper_ok_induct) (auto simp: Let_def assms(2))

definition matches_event :: "Event list \<Rightarrow> string list \<Rightarrow> nat \<Rightarrow> oper \<Rightarrow> bool" where
  "matches_event evs env i a \<longleftrightarrow>
     (case event_get i evs of
        None \<Rightarrow> False | Some e \<Rightarrow> oper_matches (e_name e) (e_env e) env a)"

definition event_valid :: "Event list \<Rightarrow> nat \<Rightarrow> bool" where
  "event_valid evs i \<longleftrightarrow>
     (case event_get i evs of None \<Rightarrow> False | Some e \<Rightarrow> (\<forall>v\<in>set (e_env e). entry_valid v))"

lemma matches_event_block_times [simp]:
  "matches_event (block_times i n evs) env j a = matches_event evs env j a"
  by (auto simp: matches_event_def event_get_block_times split: option.splits)

lemma event_valid_block_times [simp]: "event_valid (block_times i n evs) j = event_valid evs j"
  by (auto simp: event_valid_def event_get_block_times split: option.splits)

lemma event_valid_ids: "event_valid evs i \<Longrightarrow> i \<in> event_ids evs"
  by (auto simp: event_valid_def split: option.splits)

lemma matches_event_static:
  "matches_event evs env i (a\<lparr>o_value := v, o_event := x\<rparr>) = matches_event evs env i a"
  by (auto simp: matches_event_def oper_matches_def split: option.splits)

lemma event_operator_handle_valid:
  assumes "oper_ok t" and "event_valid evs i"
  shows "event_operator_handle t i env evs =
    Some (oper_feed (matches_event evs env i) i t, new_matches (matches_event evs env i) t \<noteq> 0,
      block_times i (new_matches (matches_event evs env i) t) evs)"
proof -
  obtain e where e: "event_get i evs = Some e" "\<forall>v\<in>set (e_env e). entry_valid v"
    using assms(2) by (auto simp: event_valid_def split: option.splits)
  then have "matches_event evs env i = oper_matches (e_name e) (e_env e) env"
    by (auto simp: matches_event_def fun_eq_iff)
  with event_operator_handle_eq [OF assms(1) e] show ?thesis by simp
qed

text \<open>A sequence of events handled one after the other.\<close>

fun handle_all ::
    "EventOperator \<Rightarrow> nat list \<Rightarrow> string list \<Rightarrow> Event list \<Rightarrow> (EventOperator \<times> Event list) option"
where
  "handle_all t [] env evs = Some (t, evs)"
| "handle_all t (i # is) env evs = do {
     (t, ret, evs) \<leftarrow> event_operator_handle t i env evs;
     handle_all t is env evs
   }"

lemma handle_all_value:
  assumes "oper_ok t" and "\<forall>i\<in>set is. event_valid evs i" and "is \<noteq> [] \<or> oper_consistent t"
  shows "\<exists>t' evs'. handle_all t is env evs = Some (t', evs') \<and> oper_ok t' \<and>
    oper_value t' = cond_holds (\<lambda>a. o_event a \<noteq> None \<or> (\<exists>i\<in>set is. matches_event evs env i a)) t \<and>
    (\<forall>j. blockers_of evs' j + count_list (oper_refs t) j =
       blockers_of evs j + count_list (oper_refs t') j)"
  using assms
proof (induction "is" arbitrary: t evs)
  case Nil
  then show ?case by (simp add: oper_value_cond)
next
  case (Cons i "is")
  let ?m = "matches_event evs env i"
  let ?t = "oper_feed ?m i t" and ?evs = "block_times i (new_matches ?m t) evs"
  have i: "event_valid evs i" and ids: "i \<in> event_ids evs"
    using Cons.prems event_valid_ids by auto
  obtain t' evs' where IH: "handle_all ?t is env ?evs = Some (t', evs')" "oper_ok t'"
    "oper_value t' = cond_holds (\<lambda>a. o_event a \<noteq> None \<or> (\<exists>i\<in>set is. matches_event ?evs env i a)) ?t"
    "\<And>j. blockers_of evs' j + count_list (oper_refs ?t) j =
       blockers_of ?evs j + count_list (oper_refs t') j"
    using Cons.IH [of ?t ?evs] oper_feed_ok [OF Cons.prems(1)] oper_feed_consistent [OF Cons.prems(1)]
      Cons.prems(2) by auto
  have "oper_value t' =
      cond_holds (\<lambda>a. o_event a \<noteq> None \<or> (\<exists>i\<in>set (i # is). matches_event evs env i a)) t"
    unfolding IH(3)
    by (subst cond_holds_feed [OF Cons.prems(1)]) (simp_all add: matches_event_static)
  moreover have "blockers_of evs' j + count_list (oper_refs t) j =
      blockers_of evs j + count_list (oper_refs t') j" for j
    using IH(4) [of j] by (simp add: oper_feed_refs [OF Cons.prems(1)] blockers_of_block_times [OF ids])
  ultimately show ?case
    using IH(1,2) by (auto simp: event_operator_handle_valid [OF Cons.prems(1) i])
qed

section \<open>Collecting from the true part of a tree\<close>

fun unwords :: "string list \<Rightarrow> string" where
  "unwords [] = []"
| "unwords [w] = w"
| "unwords (w # ws) = w @ '' '' @ unwords ws"

definition word_ok :: "string \<Rightarrow> bool" where
  "word_ok w \<longleftrightarrow> w \<noteq> [] \<and> last w \<noteq> CHR ''=''"

lemma foldl_append_item_more:
  assumes "\<forall>w\<in>set ws. word_ok w" and "s \<noteq> []" and "last s \<noteq> CHR ''=''" and "ws \<noteq> []"
  shows "foldl append_item s ws = s @ '' '' @ unwords ws"
  using assms
proof (induction ws arbitrary: s)
  case Nil
  then show ?case by simp
next
  case (Cons w ws)
  have step: "append_item s w = s @ '' '' @ w" using Cons.prems by (simp add: append_item_def)
  show ?case
  proof (cases ws)
    case Nil
    then show ?thesis by (simp add: step)
  next
    case (Cons v vs)
    moreover have "foldl append_item (s @ '' '' @ w) ws = (s @ '' '' @ w) @ '' '' @ unwords ws"
      using Cons.prems Cons by (intro Cons.IH) (auto simp: word_ok_def)
    ultimately show ?thesis by (simp add: step)
  qed
qed

lemma foldl_append_item:
  assumes "\<forall>w\<in>set ws. word_ok w"
  shows "foldl append_item (key @ ''='') ws = key @ ''='' @ unwords ws"
proof (cases ws)
  case (Cons w vs)
  have step: "append_item (key @ ''='') w = key @ ''='' @ w" by (simp add: append_item_def)
  show ?thesis
  proof (cases vs)
    case (Cons v us)
    have "foldl append_item (key @ ''='' @ w) vs = (key @ ''='' @ w) @ '' '' @ unwords vs"
      using assms Cons \<open>ws = w # vs\<close> by (intro foldl_append_item_more) (auto simp: word_ok_def)
    then show ?thesis using step \<open>ws = w # vs\<close> Cons by simp
  qed (use step \<open>ws = w # vs\<close> in simp)
qed simp

lemma environment_loop_eq:
  "environment_loop genv events (env, evlist) =
     (environ_append genv True (concat (map e_env events)) env,
      map_option (\<lambda>s. foldl append_item s (map e_name events)) evlist)"
proof (induction events arbitrary: env evlist)
  case Nil
  then show ?case by (cases evlist) auto
next
  case (Cons e events)
  then show ?case
    by (cases evlist) (auto simp: environ_append_fold fold_append)
qed

lemma fds_loop_eq:
  "fds_loop events (fds, evlist) =
     (let new = filter (\<lambda>fd. fd \<ge> 0) (map e_fd events)
      in (fds @ new, foldl append_item evlist (map show_int new)))"
  by (induction events arbitrary: fds evlist) (auto simp: Let_def)

lemma events_loop_eq:
  "events_loop events (list, evs) =
     map_option (\<lambda>evs. (list @ map (\<lambda>e. blocked_new BLOCKED_EVENT (e_id e)) events, evs))
       (foldM event_block (map e_id events) evs)"
  by (induction events arbitrary: list evs)
    (auto simp: map_option_case split: Option.bind_splits option.splits)

text \<open>The references of the nodes that are visited.\<close>

fun true_refs :: "EventOperator \<Rightarrow> nat list" where
  "true_refs Leaf = []"
| "true_refs (Node l a r) =
     (if \<not> o_value a then []
      else true_refs l @ (case o_event a of None \<Rightarrow> [] | Some i \<Rightarrow> [i]) @ true_refs r)"

lemma matched_events_append:
  "matched_events (xs @ ys) evs = do {
     es \<leftarrow> matched_events xs evs; fs \<leftarrow> matched_events ys evs; Some (es @ fs) }"
  by (induction xs) (auto simp: comp_def cong: Option.bind_cong)

lemma true_refs_subset: "set (true_refs t) \<subseteq> set (oper_refs t)"
  by (induction t) (auto split: option.splits)

lemma matched_events_filtered:
  assumes "oper_ok t" and "set (oper_refs t) \<subseteq> event_ids evs"
  shows "matched_events (filtered_nodes t) evs = Some (map (\<lambda>i. the (event_get i evs)) (true_refs t))"
  using assms
proof (induction rule: oper_ok_induct)
  case (leaf_match a)
  then show ?case
    by (cases "o_event a") (auto simp: event_operator_filter_def event_ids_iff)
next
  case (inner l a r)
  then show ?case by (simp add: event_operator_filter_def matched_events_append)
qed

lemma map_id_get: "set is \<subseteq> event_ids evs \<Longrightarrow> map (\<lambda>i. e_id (the (event_get i evs))) is = is"
proof (induction "is")
  case (Cons i "is")
  then obtain e where "event_get i evs = Some e" by (auto simp only: event_ids_iff list.set insert_subset)
  then show ?case using Cons event_get_id by auto
qed simp

section \<open>Printing\<close>

fun print_oper :: "EventOperator \<Rightarrow> string option" where
  "print_oper Leaf = None"
| "print_oper (Node l a r) =
     (if o_type a = EVENT_MATCH then collapse_match a
      else do {
        s \<leftarrow> print_oper l;
        t \<leftarrow> print_oper r;
        Some (''('' @ s @ (if o_type a = EVENT_OR then '' or '' else '' and '') @ t @ '')'')
      })"

lemma collapse_child_eq:
  "t \<noteq> Leaf \<Longrightarrow> collapse_child t stack =
     (if o_type (value t) = EVENT_MATCH then map_option (\<lambda>s. (s, stack)) (print_oper t)
      else (case stack of [] \<Rightarrow> None | latest # rest \<Rightarrow> Some (latest, rest)))"
  by (cases t) (auto simp: collapse_child_def map_option_case split: Option.bind_splits option.splits)

lemma collapse_post_eq:
  assumes "oper_ok t"
  shows "collapse_post t stack =
    (if o_type (value t) = EVENT_MATCH then Some stack
     else map_option (\<lambda>s. s # stack) (print_oper t))"
  using assms
proof (induction arbitrary: stack rule: oper_ok_induct)
  case (leaf_match a)
  then show ?case by simp
next
  case (inner l a r)
  note ne = oper_ok_not_Leaf [OF inner.hyps(5)] oper_ok_not_Leaf [OF inner.hyps(6)]
  show ?case
    using inner.hyps(1) ne
    by (cases "print_oper l"; cases "print_oper r")
      (auto simp: inner.IH collapse_visit_def collapse_child_eq)
qed

lemma event_operator_collapse_eq: "oper_ok t \<Longrightarrow> event_operator_collapse t = print_oper t"
proof (cases rule: oper_ok.cases [of t])
  case (2 l a r)
  assume ok: "oper_ok t"
  show ?thesis
  proof (cases "o_type a = EVENT_MATCH")
    case True
    with ok 2 show ?thesis by (auto simp: event_operator_collapse_def)
  next
    case False
    have run: "event_operator_collapse t = do {
        stack \<leftarrow> collapse_post t []; nih_assert (stack \<noteq> []); nih_assert (tl stack = []); Some (hd stack) }"
      using False 2 by (simp add: event_operator_collapse_def)
    have "o_type (value t) \<noteq> EVENT_MATCH" using False 2 by simp
    then show ?thesis
      unfolding run collapse_post_eq [OF ok] by (cases "print_oper t") simp_all
  qed
qed simp

section \<open>Matching by name and by position\<close>

text \<open>The argument \<open>v\<close> of an operator against the value \<open>val\<close> of a variable.\<close>

definition arg_matches :: "string list \<Rightarrow> bool \<Rightarrow> string \<Rightarrow> string \<Rightarrow> bool" where
  "arg_matches env negate v val \<longleftrightarrow>
     (case environ_expand env v of Inl _ \<Rightarrow> False | Inr ex \<Rightarrow> fnmatch ex val \<noteq> negate)"

definition named_arg :: "string \<times> bool \<times> string \<Rightarrow> string" where
  "named_arg = (\<lambda>(k, negate, v). k @ (if negate then ''!='' else ''='') @ v)"

text \<open>The name has no \<open>=\<close>, and an argument that is not negated contains no \<^verbatim>\<open>!=\<close>, which the code
  would take for the operator.\<close>

definition named_arg_ok :: "string \<times> bool \<times> string \<Rightarrow> bool" where
  "named_arg_ok = (\<lambda>(k, negate, v). key_valid k \<and>
     (\<not> negate \<longrightarrow> strstr (k @ ''='' @ v) ''!='' = None))"

lemma strstr_named: "key_valid k \<Longrightarrow> strstr (k @ ''!='' @ v) ''!='' = Some (length k)"
proof (induction k)
  case Nil
  show ?case by simp
next
  case (Cons c k)
  have "CHR ''='' \<notin> set k" using Cons.prems by (simp add: key_valid_def)
  then have "take 2 (c # k @ ''!='' @ v) \<noteq> ''!=''" by (cases k) auto
  then show ?case using Cons by (simp add: key_valid_def numeral_2_eq_2)
qed

lemma strchr_named: "key_valid k \<Longrightarrow> strchr (k @ ''='' @ v) CHR ''='' = Some (length k)"
  by (induction k) (auto simp: strchr_Some_iff key_valid_def)

lemma match_slot_named:
  assumes "named_arg_ok (k, negate, v)"
  shows "match_slot event_env (named_arg (k, negate, v)) eenv =
    ((case environ_lookup event_env k (length k) of None \<Rightarrow> [] | Some i \<Rightarrow> drop i event_env), negate, v)"
proof -
  have pre: "environ_lookup event_env (k @ r) (length k) = environ_lookup event_env k (length k)" for r
    by (induction event_env) (auto simp: strncmp_eq_def)
  show ?thesis
  proof (cases negate)
    case True
    then show ?thesis
      using assms strstr_named [of k v] pre [of "''!='' @ v"]
      by (simp add: match_slot_def named_arg_def named_arg_ok_def)
  next
    case False
    then show ?thesis
      using assms strchr_named [of k v] pre [of "''='' @ v"]
      by (simp add: match_slot_def named_arg_def named_arg_ok_def)
  qed
qed

lemma match_env_named:
  assumes "\<forall>e\<in>set event_env. entry_valid e" and "\<forall>arg\<in>set args. named_arg_ok arg"
  shows "match_env env event_env (map named_arg args) eenv =
    Some (\<forall>(k, negate, v)\<in>set args.
      \<exists>val. environ_get event_env k = Some val \<and> arg_matches env negate v val)"
  using assms(2)
proof (induction args arbitrary: eenv)
  case Nil
  then show ?case by simp
next
  case (Cons arg args)
  obtain k negate v where arg: "arg = (k, negate, v)" by (metis prod_cases3)
  have slot: "match_slot event_env (named_arg arg) eenv =
    ((case environ_lookup event_env k (length k) of None \<Rightarrow> [] | Some i \<Rightarrow> drop i event_env), negate, v)"
    using Cons.prems match_slot_named arg by simp
  show ?case
  proof (cases "environ_lookup event_env k (length k)")
    case None
    then show ?thesis using slot by (simp add: arg environ_get_def environ_getn_eq)
  next
    case (Some i)
    then have i: "i < length event_env" and p: "strchr (event_env ! i) CHR ''='' \<noteq> None"
      using environ_getn_assert by blast+
    have get: "environ_get event_env k = Some (entry_val (event_env ! i))"
      using Some by (simp add: environ_get_def environ_getn_eq)
    obtain p where p: "strchr (event_env ! i) CHR ''='' = Some p" using p by blast
    then have val: "drop (p + 1) (event_env ! i) = entry_val (event_env ! i)"
      by (simp add: strchr_Some_iff drop_after_eq)
    have "drop i event_env = event_env ! i # drop (Suc i) event_env"
      using i by (simp add: Cons_nth_drop_Suc)
    then show ?thesis
      using slot Some p val get Cons.IH Cons.prems
      by (auto simp: arg arg_matches_def split: sum.splits)
  qed
qed

lemma match_slot_positional:
  assumes "CHR ''='' \<notin> set str"
  shows "match_slot event_env str eenv = (eenv, False, str)"
proof -
  have "strstr str ''!='' = None" using assms
  proof (induction str)
    case (Cons c str)
    then have "take 2 (c # str) \<noteq> ''!=''" by (cases str) auto
    with Cons show ?case by (simp add: numeral_2_eq_2)
  qed simp
  then show ?thesis using assms
    by (auto simp: match_slot_def strchr_Some_iff split: option.splits)
qed

lemma match_env_positional:
  assumes "\<forall>e\<in>set event_env. entry_valid e" and "\<forall>str\<in>set args. CHR ''='' \<notin> set str"
    and "set eenv \<subseteq> set event_env"
  shows "match_env env event_env args eenv =
    Some (length args \<le> length eenv \<and>
      (\<forall>i<length args. arg_matches env False (args ! i) (entry_val (eenv ! i))))"
  using assms(2,3)
proof (induction args arbitrary: eenv)
  case Nil
  then show ?case by simp
next
  case (Cons str args)
  show ?case
  proof (cases eenv)
    case Nil
    then show ?thesis using Cons.prems by (simp add: match_slot_positional)
  next
    case (Cons entry rest)
    then have "entry_valid entry" using Cons.prems assms(1) by auto
    then obtain p where p: "strchr entry CHR ''='' = Some p"
      by (auto simp: entry_valid_def strchr_Some_iff)
    then have "drop (p + 1) entry = entry_val entry" by (simp add: strchr_Some_iff drop_after_eq)
    then show ?thesis
      using p Cons Cons.prems Cons.IH [of rest]
      by (auto simp: match_slot_positional arg_matches_def nth_Cons less_Suc_eq_0_disj
        split: sum.splits nat.splits)
  qed
qed

section \<open>Properties\<close>

text \<open>C20: the meaning of a condition. Handling any non-empty sequence of events with a tree that holds no
  event never aborts and keeps the invariant, and the tree's value is then the condition's
  formula, a match node being true if one of the events matched it. Every reference the tree
  gained is one more blocker of that event, and no other count changed.\<close>

theorem event_operator_handle_meaning:
  assumes "oper_ok t" and "oper_refs t = []" and "\<forall>i\<in>set is. event_valid evs i" and "is \<noteq> []"
  shows "\<exists>t' evs'. handle_all t is env evs = Some (t', evs') \<and> oper_ok t' \<and>
    oper_value t' = cond_holds (\<lambda>a. \<exists>i\<in>set is. matches_event evs env i a) t \<and>
    (\<forall>j. blockers_of evs' j = blockers_of evs j + count_list (oper_refs t') j)"
proof -
  have "cond_holds (\<lambda>a. o_event a \<noteq> None \<or> q a) u = cond_holds q u" if "oper_ok u" "oper_refs u = []" for q u
    using that by (induction rule: oper_ok_induct) (auto split: option.splits)
  with handle_all_value [OF assms(1,3), of env] assms(1,2,4) show ?thesis by auto
qed

definition sample_match :: "string \<Rightarrow> EventOperator" where
  "sample_match name = Node Leaf \<lparr>o_type = EVENT_MATCH, o_value = False, o_name = Some name,
     o_env = None, o_event = None\<rparr> Leaf"

definition sample_and :: EventOperator where
  "sample_and = Node (sample_match ''a'') \<lparr>o_type = EVENT_AND, o_value = False, o_name = None,
     o_env = None, o_event = None\<rparr> (sample_match ''b'')"

definition sample_events :: "Event list" where
  "sample_events = map (\<lambda>(i, name, n). \<lparr>e_id = i, e_name = name, e_env = [''K=v''], e_fd = -1,
     e_progress = EVENT_HANDLING, e_failed = False, e_blockers = n, e_blocking = []\<rparr>)
     [(7, ''a'', 0), (8, ''b'', 0), (9, ''c'', 0)]"

theorem event_operator_handle_meaning_witness:
  "\<exists>t' evs'. handle_all sample_and [7, 9, 8] [] sample_events = Some (t', evs') \<and> oper_value t'"
  using event_operator_handle_meaning [of sample_and "[7, 9, 8]" sample_events "[]"]
  by (auto simp: sample_and_def sample_match_def sample_events_def event_valid_def event_get_def
    entry_valid_def matches_event_def oper_matches_def)

text \<open>C21: \<^verbatim>\<open>event_operator_reset\<close> on a tree whose references are all counted does not abort; it
  gives up each reference once, leaves every node false and without an event, and keeps the
  invariant.\<close>

theorem event_operator_reset_releases:
  assumes "oper_ok t" and "set (oper_refs t) \<subseteq> event_ids evs"
    and "\<forall>j. count_list (oper_refs t) j \<le> blockers_of evs j"
  shows "\<exists>evs'. event_operator_reset t evs = Some (oper_clear t, evs') \<and>
    oper_ok (oper_clear t) \<and> oper_consistent (oper_clear t) \<and> oper_refs (oper_clear t) = [] \<and>
    \<not> oper_value (oper_clear t) \<and>
    (\<forall>j. blockers_of evs' j = blockers_of evs j - count_list (oper_refs t) j)"
proof -
  obtain evs' where evs': "foldM event_unblock (oper_refs t) evs = Some evs'"
    "\<And>j. blockers_of evs' j = blockers_of evs j - count_list (oper_refs t) j"
    using ev.release_all [OF assms(2)] assms(3) by metis
  have "oper_consistent (oper_clear u)" for u
    by (induction u) auto
  then show ?thesis
    using evs' by (simp add: event_operator_reset_eq [OF assms(1)] oper_clear_ok [OF assms(1)]
      oper_clear_refs [OF assms(1)])
qed

definition sample_held :: EventOperator where
  "sample_held = Node Leaf \<lparr>o_type = EVENT_MATCH, o_value = True, o_name = Some ''a'',
     o_env = None, o_event = Some 7\<rparr> Leaf"

lemma sample_held_ok: "oper_ok sample_held" "set (oper_refs sample_held) \<subseteq> event_ids sample_events"
  by (simp_all add: sample_held_def sample_events_def event_ids_def)

lemma sample_held_counted:
  "count_list (oper_refs sample_held) j \<le> blockers_of (block_times 7 1 sample_events) j"
  by (auto simp: sample_held_def blockers_of_block_times sample_events_def event_ids_def)

theorem event_operator_reset_releases_witness:
  "event_operator_reset sample_held (block_times 7 1 sample_events) =
     Some (sample_match ''a'', sample_events)"
proof -
  have "\<exists>evs'. event_operator_reset sample_held (block_times 7 1 sample_events) =
      Some (oper_clear sample_held, evs')"
    using event_operator_reset_releases [of sample_held "block_times 7 1 sample_events"]
      sample_held_ok sample_held_counted by auto
  then show ?thesis
    by (auto simp: sample_held_def sample_match_def sample_events_def block_times_def event_upd_def
      event_unblock_def event_get_def)
qed

text \<open>C22: \<^verbatim>\<open>event_operator_copy\<close> returns an equal tree and takes a reference of its own for each
  that the original holds; destroying the copy gives exactly these back.\<close>

theorem event_operator_copy_destroy:
  assumes "oper_ok t" and "set (oper_refs t) \<subseteq> event_ids evs"
  shows "\<exists>evs1 evs2. event_operator_copy t evs = Some (t, evs1) \<and>
    (\<forall>j. blockers_of evs1 j = blockers_of evs j + count_list (oper_refs t) j) \<and>
    free_operators t evs1 = Some evs2 \<and> blockers_of evs2 = blockers_of evs"
proof -
  obtain evs1 where evs1: "foldM event_block (oper_refs t) evs = Some evs1"
    "\<And>j. blockers_of evs1 j = blockers_of evs j + count_list (oper_refs t) j"
    using ev.acquire_all [OF assms(2)] by blast
  obtain evs2 where "foldM event_unblock (oper_refs t) evs1 = Some evs2"
    "blockers_of evs2 = blockers_of evs"
    using ev.release_acquired [OF evs1(1) assms(2)] by blast
  with evs1 show ?thesis
    by (simp add: event_operator_copy_eq [OF assms(1)] free_operators_eq [OF assms(1)])
qed

theorem event_operator_copy_destroy_witness:
  "\<exists>evs1 evs2. event_operator_copy sample_held sample_events = Some (sample_held, evs1) \<and>
     blockers_of evs1 7 = 1 \<and>
     free_operators sample_held evs1 = Some evs2 \<and> blockers_of evs2 = blockers_of sample_events"
  using event_operator_copy_destroy [OF sample_held_ok]
  by (auto simp: sample_held_def sample_events_def blockers_of_def event_get_def)

text \<open>C23: \<^verbatim>\<open>event_operator_environment\<close>: a variable of the result is the last one that the events of
  the true part of the tree set, and otherwise keeps its value; the variable \<open>key\<close> is the list of
  the names of these events.\<close>

theorem event_operator_environment_contents:
  assumes "oper_ok t" and "set (oper_refs t) \<subseteq> event_ids evs" and "env_ok env"
    and "\<forall>e\<in>set evs. (\<forall>v\<in>set (e_env e). entry_valid v) \<and> word_ok (e_name e)"
    and "key_valid key" and "key_valid k"
  shows "\<exists>env'. event_operator_environment genv t evs (Some env) (Some key) = Some env' \<and> env_ok env' \<and>
    environ_get env' k =
      (let events = map (\<lambda>i. the (event_get i evs)) (true_refs t)
       in if k = key then Some (unwords (map e_name events))
          else case map_of (rev (map (\<lambda>e. (entry_key e, entry_val e)) (concat (map e_env events)))) k of
                 Some v \<Rightarrow> Some v | None \<Rightarrow> environ_get env k)"
proof -
  let ?events = "map (\<lambda>i. the (event_get i evs)) (true_refs t)"
  let ?new = "concat (map e_env ?events)"
  let ?env = "environ_append genv True ?new env"
  let ?list = "key @ ''='' @ unwords (map e_name ?events)"
  have ev: "the (event_get i evs) \<in> set evs" if "i \<in> set (true_refs t)" for i
  proof -
    have "i \<in> event_ids evs" using that true_refs_subset assms(2) by blast
    then obtain e where "event_get i evs = Some e" by (auto simp only: event_ids_iff)
    then show ?thesis by (simp add: event_get_set)
  qed
  have words: "\<forall>w\<in>set (map e_name ?events). word_ok w" and valid: "\<forall>v\<in>set ?new. entry_valid v"
    using assms(4) ev by auto
  have ok: "env_ok ?env" using assms(3) by (rule env_ok_append)
  have get: "environ_get ?env k = (case map_of (rev (map (\<lambda>e. (entry_key e, entry_val e)) ?new)) k of
      Some v \<Rightarrow> Some v | None \<Rightarrow> environ_get env k)"
    unfolding environ_append_fold using env.get_fold_put [OF assms(3) valid assms(6)] .
  have list: "entry_valid ?list" "entry_key ?list = key" "entry_val ?list = unwords (map e_name ?events)"
    using assms(5) by simp_all
  have "event_operator_environment genv t evs (Some env) (Some key) =
      Some (environ_add genv True ?list ?env)"
    using oper_ok_not_Leaf [OF assms(1)] foldl_append_item [OF words]
    by (simp add: event_operator_environment_def matched_events_filtered [OF assms(1,2)]
      environment_loop_eq)
  moreover have "env_ok (environ_add genv True ?list ?env)" using env.inv_put [OF ok list(1)] .
  moreover have "environ_get (environ_add genv True ?list ?env) k =
      (if k = key then Some (unwords (map e_name ?events)) else environ_get ?env k)"
    using env.get_put [OF ok list(1) assms(6)] list by simp
  ultimately show ?thesis using get by (simp add: Let_def)
qed

theorem event_operator_environment_contents_witness:
  "\<exists>env'. event_operator_environment (\<lambda>_. None) sample_held sample_events (Some [''K=old'']) (Some ''EVENTS'')
     = Some env' \<and> environ_get env' ''K'' = Some ''v''"
  using event_operator_environment_contents [OF sample_held_ok, of "[''K=old'']" "''EVENTS''" "''K''" "\<lambda>_. None"]
  by (auto simp: sample_held_def sample_events_def env_ok_def entry_valid_def word_ok_def
    key_valid_def event_get_def entry_key_def entry_val_def)

text \<open>C24: \<^verbatim>\<open>event_operator_events\<close> adds one entry per event of the true part of the tree to the list
  of what the job blocks, in the order of the tree, and blocks the event once for each.\<close>

theorem event_operator_events_blocks:
  assumes "oper_ok t" and "set (oper_refs t) \<subseteq> event_ids evs"
  shows "\<exists>evs'. event_operator_events t list evs =
      Some (list @ map (blocked_new BLOCKED_EVENT) (true_refs t), evs') \<and>
    (\<forall>j. blockers_of evs' j = blockers_of evs j + count_list (true_refs t) j)"
proof -
  have sub: "set (true_refs t) \<subseteq> event_ids evs" using true_refs_subset assms(2) by blast
  then obtain evs' where "foldM event_block (true_refs t) evs = Some evs'"
    "\<And>j. blockers_of evs' j = blockers_of evs j + count_list (true_refs t) j"
    using ev.acquire_all by blast
  then show ?thesis
    using oper_ok_not_Leaf [OF assms(1)] map_id_get [OF sub]
    by (auto simp: event_operator_events_def matched_events_filtered [OF assms] events_loop_eq
      comp_def intro!: map_eq_conv [THEN iffD2] dest: arg_cong [of _ _ "map (blocked_new BLOCKED_EVENT)"])
qed

theorem event_operator_events_blocks_witness:
  "\<exists>evs'. event_operator_events sample_held [] sample_events =
     Some ([blocked_new BLOCKED_EVENT 7], evs')"
  using event_operator_events_blocks [OF sample_held_ok, of "[]"] by (auto simp: sample_held_def)

text \<open>C25: \<^verbatim>\<open>event_operator_collapse\<close>, an iteration with an explicit stack, prints the condition
  fully bracketed and with its operands in order; it returns whenever no match node has an empty
  (but present) list of arguments.\<close>

theorem event_operator_collapse_prints:
  assumes "oper_ok t"
  shows "event_operator_collapse t = print_oper t \<and>
    ((\<forall>a\<in>set_tree t. o_env a \<noteq> Some []) \<longrightarrow> event_operator_collapse t \<noteq> None)"
proof -
  have loop: "collapse_loop f es fl \<noteq> None" if "es \<noteq> [] \<or> fl \<noteq> None" for f es fl
    using that by (induction es arbitrary: f fl) auto
  have "print_oper u \<noteq> None" if "oper_ok u" "\<forall>a\<in>set_tree u. o_env a \<noteq> Some []" for u
    using that
  proof (induction rule: oper_ok_induct)
    case (leaf_match a)
    then show ?case
      using loop [of "the (o_env a)" None True]
      by (cases "o_env a") (auto simp: collapse_match_def state_collapse_env_def)
  qed auto
  with event_operator_collapse_eq [OF assms] assms show ?thesis by auto
qed

theorem event_operator_collapse_prints_witness:
  "event_operator_collapse sample_and = Some ''(a and b)''"
  using event_operator_collapse_prints [of sample_and]
  by (simp add: sample_and_def sample_match_def collapse_match_def)

text \<open>C26: arguments with names: an event matches if it has the operator's name and each named
  argument finds the variable of that name with a value that the argument's expansion matches as
  a pattern (with \<^verbatim>\<open>!=\<close>: does not match).\<close>

theorem event_operator_match_named:
  assumes "\<forall>e\<in>set (e_env event). entry_valid e" and "\<forall>arg\<in>set args. named_arg_ok arg"
    and "o_type a = EVENT_MATCH" and "o_env a = Some (map named_arg args)"
  shows "event_operator_match (Node Leaf a Leaf) event env =
    Some (o_name a = Some (e_name event) \<and>
      (\<forall>(k, negate, v)\<in>set args.
        \<exists>val. environ_get (e_env event) k = Some val \<and> arg_matches env negate v val))"
  using match_env_named [OF assms(1,2)] assms(3,4) by (auto simp: event_operator_match_def)

lemma sample_arg_matches:
  "environ_get [''K=v''] ''K'' = Some ''v''" "arg_matches [] True ''w'' ''v''" "arg_matches [] False ''v'' ''v''"
  by code_simp+

theorem event_operator_match_named_witness:
  "event_operator_match (Node Leaf \<lparr>o_type = EVENT_MATCH, o_value = False, o_name = Some ''a'',
      o_env = Some [''K!=w'', ''K=v''], o_event = None\<rparr> Leaf) (hd sample_events) [] = Some True"
  using event_operator_match_named [of "hd sample_events" "[(''K'', True, ''w''), (''K'', False, ''v'')]"
    "\<lparr>o_type = EVENT_MATCH, o_value = False, o_name = Some ''a'',
      o_env = Some [''K!=w'', ''K=v''], o_event = None\<rparr>" "[]"]
    sample_arg_matches
  by (simp add: sample_events_def named_arg_def named_arg_ok_def entry_valid_def key_valid_def)

text \<open>Arguments without names are matched by position against the values of the event's
  variables, whatever these are called, and too many of them do not match.\<close>

theorem event_operator_match_positional:
  assumes "\<forall>e\<in>set (e_env event). entry_valid e" and "\<forall>str\<in>set args. CHR ''='' \<notin> set str"
    and "o_type a = EVENT_MATCH" and "o_env a = Some args"
  shows "event_operator_match (Node Leaf a Leaf) event env =
    Some (o_name a = Some (e_name event) \<and> length args \<le> length (e_env event) \<and>
      (\<forall>i<length args. arg_matches env False (args ! i) (entry_val (e_env event ! i))))"
  using match_env_positional [OF assms(1,2) order_refl] assms(3,4)
  by (auto simp: event_operator_match_def)

theorem event_operator_match_positional_witness:
  "event_operator_match (Node Leaf \<lparr>o_type = EVENT_MATCH, o_value = False, o_name = Some ''a'',
      o_env = Some [''v'', ''w''], o_event = None\<rparr> Leaf) (hd sample_events) [] = Some False"
  using event_operator_match_positional [of "hd sample_events" "[''v'', ''w'']"
    "\<lparr>o_type = EVENT_MATCH, o_value = False, o_name = Some ''a'',
      o_env = Some [''v'', ''w''], o_event = None\<rparr>" "[]"]
  by (simp add: sample_events_def entry_valid_def)

end
