(* ===== verification/ParseOn.thy ===== *)
theory ParseOn
  imports EventOperator
begin

text \<open>
  \<^verbatim>\<open>src/init/parse_job.c\<close>, the parser of the conditions of \<^verbatim>\<open>start on\<close> and \<^verbatim>\<open>stop on\<close>: a stack of
  operators, on which NULL (\<^term>\<open>Leaf\<close>) marks an open parenthesis, and a tree collected so far.

  The tokeniser is \<^verbatim>\<open>nih_config_\<close> of libnih, which is not part of the repository: its functions
  are the fields of the parameter \<open>nih\<close>. A position is an offset with a line number. Every function
  that may fail gives an error or a result, with the position after it; \<open>None\<close> is a failed
  assertion, or that the fuel of the loops did not suffice. The pointer to the line number is taken
  to be there, as it is in all calls.

  The grammar \<open>operand\<close> and \<open>condition\<close> says which sequences of tokens are conditions; the parser
  accepts exactly these.
\<close>

section \<open>Errors and the tokeniser\<close>

text \<open>The errors of \<^verbatim>\<open>errors.h\<close> that parsing raises, and those of libnih.\<close>

datatype parse_error =
    NIH_CONFIG_EXPECTED_TOKEN
  | NIH_CONFIG_UNEXPECTED_TOKEN
  | NIH_CONFIG_TRAILING_SLASH
  | NIH_CONFIG_UNTERMINATED_QUOTE
  | NIH_CONFIG_UNTERMINATED_BLOCK
  | NIH_CONFIG_UNKNOWN_STANZA
  | PARSE_ILLEGAL_INTERVAL
  | PARSE_ILLEGAL_EXIT
  | PARSE_ILLEGAL_SIGNAL
  | PARSE_ILLEGAL_UMASK
  | PARSE_ILLEGAL_NICE
  | PARSE_ILLEGAL_OOM
  | PARSE_ILLEGAL_LIMIT
  | PARSE_EXPECTED_EVENT
  | PARSE_EXPECTED_OPERATOR
  | PARSE_EXPECTED_VARIABLE
  | PARSE_MISMATCHED_PARENS

type_synonym cur = "nat \<times> nat"

text \<open>\<open>cnlws\<close> is \<^verbatim>\<open>NIH_CONFIG_CNLWS\<close>; the second argument of \<open>next_token\<close> lists the delimiters and
  the third is \<^verbatim>\<open>dequote\<close>.\<close>

record nih_config =
  cnlws :: string
  has_token :: "string \<Rightarrow> cur \<Rightarrow> bool"
  next_token :: "string \<Rightarrow> string \<Rightarrow> bool \<Rightarrow> cur \<Rightarrow> (parse_error + string) \<times> cur"
  next_arg :: "string \<Rightarrow> cur \<Rightarrow> (parse_error + string) \<times> cur"
  skip_whitespace :: "string \<Rightarrow> cur \<Rightarrow> cur"
  skip_comment :: "string \<Rightarrow> cur \<Rightarrow> parse_error option \<times> cur"
  parse_command :: "string \<Rightarrow> cur \<Rightarrow> (parse_error + string) \<times> cur"
  parse_block :: "string \<Rightarrow> string \<Rightarrow> cur \<Rightarrow> (parse_error + string) \<times> cur"
  parse_args :: "string \<Rightarrow> cur \<Rightarrow> (parse_error + string list) \<times> cur"
  signal_from_name :: "string \<Rightarrow> int"

section \<open>The stack\<close>

type_synonym on_state = "EventOperator list \<times> EventOperator"

fun parse_on_collect :: "EventOperator list \<Rightarrow> EventOperator \<Rightarrow> parse_error + on_state" where
  "parse_on_collect (Node l a r # stack) root =
     (if o_type a \<noteq> EVENT_MATCH \<and> root \<noteq> Leaf then parse_on_collect stack (Node l a root)
      else if o_type a \<noteq> EVENT_MATCH then Inl PARSE_EXPECTED_EVENT
      else if root \<noteq> Leaf then Inl PARSE_EXPECTED_OPERATOR
      else parse_on_collect stack (Node l a r))"
| "parse_on_collect stack root = (if root = Leaf then Inl PARSE_EXPECTED_EVENT else Inr (stack, root))"

fun top_is_match :: "EventOperator list \<Rightarrow> bool" where
  "top_is_match (Node l a r # stack) \<longleftrightarrow> o_type a = EVENT_MATCH"
| "top_is_match stack \<longleftrightarrow> False"

definition open_paren :: "on_state \<Rightarrow> parse_error + on_state" where
  "open_paren = (\<lambda>(stack, root).
     if root \<noteq> Leaf \<or> top_is_match stack then Inl PARSE_EXPECTED_OPERATOR
     else Inr (Leaf # stack, root))"

definition close_paren :: "on_state \<Rightarrow> parse_error + on_state" where
  "close_paren = (\<lambda>(stack, root).
     case parse_on_collect stack root of
       Inl e \<Rightarrow> Inl e
     | Inr ([], root) \<Rightarrow> Inl PARSE_MISMATCHED_PARENS
     | Inr (_ # stack, root) \<Rightarrow> Inr (stack, root))"

definition operator_type :: "string \<Rightarrow> EventOperatorType option" where
  "operator_type arg =
     (if arg = ''and'' then Some EVENT_AND else if arg = ''or'' then Some EVENT_OR else None)"

text \<open>The node of \<^verbatim>\<open>event_operator_new\<close>, whose assertions hold for these arguments (lemma
  \<open>event_operator_new_node\<close>).\<close>

definition new_oper :: "EventOperatorType \<Rightarrow> string option \<Rightarrow> oper" where
  "new_oper ty name = \<lparr>o_type = ty, o_value = False, o_name = name, o_env = None, o_event = None\<rparr>"

lemma event_operator_new_node:
  "(ty = EVENT_MATCH) = (name \<noteq> None) \<Longrightarrow> event_operator_new ty name None = Some (Node Leaf (new_oper ty name) Leaf)"
  by (auto simp: event_operator_new_def new_oper_def)

definition push_operator :: "EventOperatorType \<Rightarrow> on_state \<Rightarrow> parse_error + on_state" where
  "push_operator ty = (\<lambda>(stack, root).
     case parse_on_collect stack root of
       Inl e \<Rightarrow> Inl e
     | Inr (stack, root) \<Rightarrow> Inr (Node root (new_oper ty None) Leaf # stack, Leaf))"

text \<open>The check that no positional argument follows a named one, which starts with \<open>pos\<close> true.\<close>

fun variables_ok :: "bool \<Rightarrow> string list \<Rightarrow> bool" where
  "variables_ok pos [] \<longleftrightarrow> True"
| "variables_ok pos (e # es) \<longleftrightarrow>
     (if strchr e CHR ''='' \<noteq> None then variables_ok False es else pos \<and> variables_ok pos es)"

definition push_operand :: "string \<Rightarrow> on_state \<Rightarrow> parse_error + on_state" where
  "push_operand arg = (\<lambda>(stack, root).
     if top_is_match stack then
       (case stack of
          Node l a r # stack \<Rightarrow>
            (let env = (case o_env a of None \<Rightarrow> [] | Some env \<Rightarrow> env) @ [arg]
             in if variables_ok True env then Inr (Node l (a\<lparr>o_env := Some env\<rparr>) r # stack, root)
                else Inl PARSE_EXPECTED_VARIABLE))
     else Inr (Node Leaf (new_oper EVENT_MATCH (Some arg)) Leaf # stack, root))"

section \<open>The parser\<close>

type_synonym on_result = "(parse_error + on_state \<times> nat) \<times> cur"

definition at_char :: "string \<Rightarrow> cur \<Rightarrow> char" where
  "at_char file c = char_at file (fst c)"

text \<open>\<open>paren\<close> counts the open parentheses; when a closing one is accepted there is one on the stack,
  so that the subtraction does not go below zero.\<close>

definition parse_on_paren ::
    "nih_config \<Rightarrow> string \<Rightarrow> cur \<Rightarrow> on_state \<Rightarrow> nat \<Rightarrow> on_result option" where
  "parse_on_paren nih file pos st paren =
     (let next = skip_whitespace nih file (Suc (fst pos), snd pos)
      in if at_char file pos = CHR ''('' then
           Some (case open_paren st of
             Inl e \<Rightarrow> (Inl e, pos) | Inr st \<Rightarrow> (Inr (st, Suc paren), next))
         else if at_char file pos = CHR '')'' then
           Some (case close_paren st of
             Inl e \<Rightarrow> (Inl e, pos) | Inr st \<Rightarrow> (Inr (st, paren - 1), next))
         else None)"

definition parse_on_operand ::
    "nih_config \<Rightarrow> string \<Rightarrow> cur \<Rightarrow> on_state \<Rightarrow> nat \<Rightarrow> on_result" where
  "parse_on_operand nih file pos st paren =
     (case next_token nih file (''()'' @ cnlws nih) True pos of
        (Inl e, pos) \<Rightarrow> (Inl e, pos)
      | (Inr arg, pos) \<Rightarrow>
          (case push_operand arg st of Inl e \<Rightarrow> (Inl e, pos) | Inr st \<Rightarrow> (Inr (st, paren), pos)))"

definition parse_on_operator ::
    "nih_config \<Rightarrow> string \<Rightarrow> cur \<Rightarrow> on_state \<Rightarrow> nat \<Rightarrow> on_result" where
  "parse_on_operator nih file pos st paren =
     (case next_token nih file (''()'' @ cnlws nih) False pos of
        (Inl e, a_pos) \<Rightarrow> (Inl e, a_pos)
      | (Inr arg, a_pos) \<Rightarrow>
          (case operator_type arg of
             None \<Rightarrow> parse_on_operand nih file pos st paren
           | Some ty \<Rightarrow>
               (case push_operator ty st of
                  Inl e \<Rightarrow> (Inl e, pos) | Inr st \<Rightarrow> (Inr (st, paren), a_pos))))"

text \<open>The inner loop of \<^verbatim>\<open>parse_on\<close>: all tokens of a line. The first position of the result is the
  one before the last token, where errors are reported. \<^verbatim>\<open>strchr\<close> also finds the terminating NUL.\<close>

fun parse_on_tokens ::
    "nat \<Rightarrow> nih_config \<Rightarrow> string \<Rightarrow> cur \<Rightarrow> on_state \<Rightarrow> nat \<Rightarrow>
      ((parse_error + on_state \<times> nat) \<times> cur \<times> cur) option" where
  "parse_on_tokens 0 nih file on_pos st paren = None"
| "parse_on_tokens (Suc fuel) nih file on_pos st paren = do {
     let pos = on_pos;
     (r, on_pos) \<leftarrow>
       (if fst pos < length file \<and> at_char file pos \<in> {CHR ''('', CHR '')'', NUL}
        then parse_on_paren nih file on_pos st paren
        else Some (parse_on_operator nih file on_pos st paren));
     (case r of
        Inl e \<Rightarrow> Some (Inl e, pos, on_pos)
      | Inr (st, paren) \<Rightarrow>
          if has_token nih file on_pos then parse_on_tokens fuel nih file on_pos st paren
          else Some (Inr (st, paren), pos, on_pos))
   }"

text \<open>The outer loop: the lines of a condition that is in parentheses.\<close>

fun parse_on_lines ::
    "nat \<Rightarrow> nih_config \<Rightarrow> string \<Rightarrow> cur \<Rightarrow> on_state \<Rightarrow> nat \<Rightarrow>
      ((parse_error + on_state) \<times> cur \<times> cur) option" where
  "parse_on_lines 0 nih file on_pos st paren = None"
| "parse_on_lines (Suc fuel) nih file on_pos st paren = do {
     (r, pos, on_pos) \<leftarrow> parse_on_tokens fuel nih file (skip_whitespace nih file on_pos) st paren;
     (case r of
        Inl e \<Rightarrow> Some (Inl e, pos, on_pos)
      | Inr (st, paren) \<Rightarrow>
          (case skip_comment nih file on_pos of
             (Some e, _) \<Rightarrow> None
           | (None, on_pos) \<Rightarrow>
               if fst on_pos < length file \<and> paren \<noteq> 0
               then parse_on_lines fuel nih file on_pos st paren
               else Some (Inr st, pos, on_pos)))
   }"

definition parse_on ::
    "nat \<Rightarrow> nih_config \<Rightarrow> string \<Rightarrow> cur \<Rightarrow> ((parse_error + EventOperator) \<times> cur) option" where
  "parse_on fuel nih file c = do {
     (r, pos, on_pos) \<leftarrow> parse_on_lines fuel nih file c ([], Leaf) 0;
     Some (case r of
        Inl e \<Rightarrow> (Inl e, on_pos)
      | Inr (stack, root) \<Rightarrow>
          (case parse_on_collect stack root of
             Inl e \<Rightarrow> (Inl e, pos)
           | Inr (stack, root) \<Rightarrow>
               if stack \<noteq> [] then (Inl PARSE_MISMATCHED_PARENS, on_pos) else (Inr root, on_pos)))
   }"

text \<open>The loops are done after as many steps as the file has characters left (lemma
  \<open>parse_on_returns\<close>).\<close>

definition parse_on_fuel :: "string \<Rightarrow> nat" where
  "parse_on_fuel file = length file + 3"

text \<open>\<^verbatim>\<open>parse_on_simple\<close> looks the stanza up by its name, which must be known.\<close>

definition stanza_names :: "string list" where
  "stanza_names = [''instance'', ''description'', ''author'', ''version'', ''env'', ''export'', ''start'',
     ''stop'', ''emits'', ''exec'', ''script'', ''pre-start'', ''post-start'', ''pre-stop'', ''post-stop'',
     ''expect'', ''task'', ''kill'', ''reload'', ''respawn'', ''normal'', ''console'', ''umask'', ''nice'',
     ''oom'', ''limit'', ''chroot'', ''chdir'', ''setuid'', ''setgid'', ''debug'', ''manual'', ''usage'',
     ''apparmor'', ''cgroup'']"

definition parse_on_simple :: "nih_config \<Rightarrow> string \<Rightarrow> string \<Rightarrow> (parse_error + EventOperator) option" where
  "parse_on_simple nih stanza_name str = do {
     nih_assert (stanza_name \<in> set stanza_names);
     (r, pos) \<leftarrow> parse_on (parse_on_fuel str) nih str (0, 0);
     Some r
   }"

section \<open>Tokens and the grammar\<close>

text \<open>A word has the text of the file and, when it is not an operator, the text without quotes.\<close>

datatype on_token = Open | Close | Word string string

text \<open>The tokens that the tokeniser finds, with the number of parentheses open after them.\<close>

definition read_token :: "nih_config \<Rightarrow> string \<Rightarrow> cur \<Rightarrow> (on_token \<times> cur) option" where
  "read_token nih file pos =
     (let next = skip_whitespace nih file (Suc (fst pos), snd pos)
      in if fst pos < length file \<and> at_char file pos \<in> {CHR ''('', CHR '')'', NUL} then
           (if at_char file pos = CHR ''('' then Some (Open, next)
            else if at_char file pos = CHR '')'' then Some (Close, next) else None)
         else
           (case next_token nih file (''()'' @ cnlws nih) False pos of
              (Inr raw, a_pos) \<Rightarrow>
                if operator_type raw \<noteq> None then Some (Word raw raw, a_pos)
                else (case next_token nih file (''()'' @ cnlws nih) True pos of
                        (Inr arg, a_pos) \<Rightarrow> Some (Word raw arg, a_pos)
                      | _ \<Rightarrow> None)
            | _ \<Rightarrow> None))"

fun open_after :: "on_token \<Rightarrow> nat \<Rightarrow> nat" where
  "open_after Open n = Suc n"
| "open_after Close n = n - 1"
| "open_after (Word _ _) n = n"

fun read_line :: "nat \<Rightarrow> nih_config \<Rightarrow> string \<Rightarrow> cur \<Rightarrow> nat \<Rightarrow> (on_token list \<times> nat \<times> cur) option" where
  "read_line 0 nih file pos n = None"
| "read_line (Suc fuel) nih file pos n = do {
     (tok, pos) \<leftarrow> read_token nih file pos;
     if has_token nih file pos then do {
       (toks, n, pos) \<leftarrow> read_line fuel nih file pos (open_after tok n);
       Some (tok # toks, n, pos)
     } else Some ([tok], open_after tok n, pos)
   }"

fun read_tokens :: "nat \<Rightarrow> nih_config \<Rightarrow> string \<Rightarrow> cur \<Rightarrow> nat \<Rightarrow> (on_token list \<times> cur) option" where
  "read_tokens 0 nih file pos n = None"
| "read_tokens (Suc fuel) nih file pos n = do {
     (toks, n, pos) \<leftarrow> read_line fuel nih file (skip_whitespace nih file pos) n;
     (case skip_comment nih file pos of
        (Some e, _) \<Rightarrow> None
      | (None, pos) \<Rightarrow>
          if fst pos < length file \<and> n \<noteq> 0 then do {
            (toks', pos) \<leftarrow> read_tokens fuel nih file pos n;
            Some (toks @ toks', pos)
          } else Some (toks, pos))
   }"

text \<open>A condition is a sequence of operands with operators between them, which associate to the left
  and bind alike; an operand is an event with its arguments or a condition in parentheses.\<close>

definition plain_word :: "on_token \<Rightarrow> string \<Rightarrow> bool" where
  "plain_word tok arg \<longleftrightarrow> (\<exists>raw. tok = Word raw arg \<and> operator_type raw = None)"

definition match_node :: "string \<Rightarrow> string list \<Rightarrow> EventOperator" where
  "match_node name args = Node Leaf ((new_oper EVENT_MATCH (Some name))
     \<lparr>o_env := (if args = [] then None else Some args)\<rparr>) Leaf"

definition oper_node :: "EventOperatorType \<Rightarrow> EventOperator \<Rightarrow> EventOperator \<Rightarrow> EventOperator" where
  "oper_node ty t u = Node t (new_oper ty None) u"

inductive operand :: "on_token list \<Rightarrow> EventOperator \<Rightarrow> bool"
  and condition :: "on_token list \<Rightarrow> EventOperator \<Rightarrow> bool" where
  event: "plain_word tok name \<Longrightarrow> list_all2 plain_word toks args \<Longrightarrow> variables_ok True args \<Longrightarrow>
    operand (tok # toks) (match_node name args)"
| group: "condition ts t \<Longrightarrow> operand (Open # ts @ [Close]) t"
| single: "operand ts t \<Longrightarrow> condition ts t"
| binary: "condition ts t \<Longrightarrow> operator_type raw = Some ty \<Longrightarrow> operand us u \<Longrightarrow>
    condition (ts @ Word raw d # us) (oper_node ty t u)"

section \<open>The stack machine\<close>

fun on_step :: "on_token \<Rightarrow> on_state \<Rightarrow> parse_error + on_state" where
  "on_step Open st = open_paren st"
| "on_step Close st = close_paren st"
| "on_step (Word raw arg) st =
     (case operator_type raw of None \<Rightarrow> push_operand arg st | Some ty \<Rightarrow> push_operator ty st)"

fun on_run :: "on_token list \<Rightarrow> on_state \<Rightarrow> on_state option" where
  "on_run [] st = Some st"
| "on_run (tok # toks) st = (case on_step tok st of Inl e \<Rightarrow> None | Inr st \<Rightarrow> on_run toks st)"

lemma on_run_append: "on_run (ts @ us) st = Option.bind (on_run ts st) (on_run us)"
  by (induction ts arbitrary: st) (auto split: sum.splits)

lemma operator_type_cases: "operator_type raw = Some ty \<Longrightarrow> ty \<noteq> EVENT_MATCH"
  by (auto simp: operator_type_def split: if_splits)

lemma new_oper_type [simp]: "o_type (new_oper ty name) = ty"
  by (simp add: new_oper_def)

lemma match_node_simps [simp]: "match_node name args \<noteq> Leaf" "top_is_match (match_node name args # stack)"
  "parse_on_collect (match_node name args # stack) root =
     (if root \<noteq> Leaf then Inl PARSE_EXPECTED_OPERATOR else parse_on_collect stack (match_node name args))"
  by (simp_all add: match_node_def)

lemma oper_node_simps [simp]:
  "oper_node ty t u \<noteq> Leaf"
  "ty \<noteq> EVENT_MATCH \<Longrightarrow> \<not> top_is_match (oper_node ty t u # stack)"
  "ty \<noteq> EVENT_MATCH \<Longrightarrow> parse_on_collect (oper_node ty t u # stack) root =
     (if root \<noteq> Leaf then parse_on_collect stack (oper_node ty t root) else Inl PARSE_EXPECTED_EVENT)"
  by (simp_all add: oper_node_def)

lemma push_operand_match:
  "push_operand arg (match_node name args # stack, root) =
     (if variables_ok True (args @ [arg]) then Inr (match_node name (args @ [arg]) # stack, root)
      else Inl PARSE_EXPECTED_VARIABLE)"
  by (simp add: push_operand_def match_node_def new_oper_def)

lemma push_operand_new:
  "\<not> top_is_match stack \<Longrightarrow> push_operand arg (stack, root) = Inr (match_node arg [] # stack, root)"
  by (simp add: push_operand_def match_node_def new_oper_def)

lemma push_operator_eq:
  "push_operator ty (stack, root) =
     (case parse_on_collect stack root of Inl e \<Rightarrow> Inl e | Inr (stack, root) \<Rightarrow> Inr (oper_node ty root Leaf # stack, Leaf))"
  by (simp add: push_operator_def oper_node_def split: sum.splits)

text \<open>A stack on which nothing can be collected, and one on which an operand can follow.\<close>

fun bottom :: "EventOperator list \<Rightarrow> bool" where
  "bottom [] \<longleftrightarrow> True"
| "bottom (t # stack) \<longleftrightarrow> t = Leaf"

lemma bottom_simps [simp]:
  "bottom stack \<Longrightarrow> \<not> top_is_match stack"
  "bottom stack \<Longrightarrow> parse_on_collect stack root = (if root = Leaf then Inl PARSE_EXPECTED_EVENT else Inr (stack, root))"
  by (cases stack; simp)+

subsection \<open>Conditions are accepted\<close>

text \<open>After an operand the stack has the match on top, or the operand was collected.\<close>

definition holds_operand :: "EventOperator \<Rightarrow> EventOperator list \<Rightarrow> on_state \<Rightarrow> bool" where
  "holds_operand t stack st \<longleftrightarrow> t \<noteq> Leaf \<and>
     (st = (stack, t) \<or> (\<exists>name args. t = match_node name args \<and> st = (t # stack, Leaf)))"

lemma variables_ok_take: "variables_ok pos (xs @ ys) \<Longrightarrow> variables_ok pos xs"
  by (induction xs arbitrary: pos) (auto split: if_splits)

lemma on_run_args:
  "list_all2 plain_word toks args \<Longrightarrow> variables_ok True (env @ args) \<Longrightarrow>
     on_run toks (match_node name env # stack, root) = Some (match_node name (env @ args) # stack, root)"
proof (induction toks args arbitrary: env rule: list_all2_induct)
  case (Cons tok toks arg args)
  then have "variables_ok True ((env @ [arg]) @ args)" by simp
  moreover from this have "variables_ok True (env @ [arg])" by (rule variables_ok_take)
  ultimately show ?case using Cons by (auto simp: plain_word_def push_operand_match)
qed simp

lemma operand_accepted_event:
  assumes "plain_word tok name" and "list_all2 plain_word toks args" and "variables_ok True args"
    and "\<not> top_is_match stack"
  shows "on_run (tok # toks) (stack, root) = Some (match_node name args # stack, root)"
  using assms on_run_args [OF assms(2), of "[]" name stack root]
  by (auto simp: plain_word_def push_operand_new)

lemma holds_operand_collect:
  "holds_operand t stack (stack', root) \<Longrightarrow> parse_on_collect stack' root = parse_on_collect stack t"
  by (auto simp: holds_operand_def)

lemma conditions_accepted:
  "operand ts t \<Longrightarrow> \<not> top_is_match stack \<Longrightarrow> \<exists>st. on_run ts (stack, Leaf) = Some st \<and> holds_operand t stack st"
  "condition ts t \<Longrightarrow> bottom stack \<Longrightarrow> \<exists>stack' root. on_run ts (stack, Leaf) = Some (stack', root) \<and>
     parse_on_collect stack' root = Inr (stack, t) \<and> t \<noteq> Leaf"
proof (induction arbitrary: stack and stack rule: operand_condition.inducts)
  case (event tok name toks args)
  then show ?case by (auto simp: operand_accepted_event holds_operand_def simp del: on_run.simps)
next
  case (group ts t)
  obtain stack' root where "on_run ts (Leaf # stack, Leaf) = Some (stack', root)"
    "parse_on_collect stack' root = Inr (Leaf # stack, t)" "t \<noteq> Leaf"
    using group.IH [of "Leaf # stack"] by auto
  then show ?case
    using group.prems by (auto simp: on_run_append open_paren_def close_paren_def holds_operand_def)
next
  case (single ts t)
  obtain st where "on_run ts (stack, Leaf) = Some st" "holds_operand t stack st"
    using single.IH [of stack] single.prems by auto
  then show ?case
    using single.prems by (cases st) (auto simp: holds_operand_collect, auto simp: holds_operand_def)
next
  case (binary ts t raw ty us u d)
  obtain stack' root where l: "on_run ts (stack, Leaf) = Some (stack', root)"
    "parse_on_collect stack' root = Inr (stack, t)"
    using binary.IH(1) [OF binary.prems] by blast
  have ty: "ty \<noteq> EVENT_MATCH" using binary.hyps operator_type_cases by simp
  obtain st where r: "on_run us (oper_node ty t Leaf # stack, Leaf) = Some st"
    "holds_operand u (oper_node ty t Leaf # stack) st"
    using binary.IH(2) [of "oper_node ty t Leaf # stack"] ty by auto
  have "u \<noteq> Leaf" using r(2) by (auto simp: holds_operand_def)
  then show ?case
    using l r binary.hyps binary.prems ty
    by (cases st) (auto simp: on_run_append push_operator_eq holds_operand_collect)
qed

text \<open>In particular a whole condition.\<close>

lemma condition_accepted:
  "condition ts t \<Longrightarrow> \<exists>stack root. on_run ts ([], Leaf) = Some (stack, root) \<and> parse_on_collect stack root = Inr ([], t)"
  using conditions_accepted(2) [of ts t "[]"] by auto

subsection \<open>What is accepted is a condition\<close>

text \<open>The tokens read since the last open parenthesis, the part of the stack above its mark and the
  tree collected.\<close>

definition event_words :: "on_token list \<Rightarrow> string \<Rightarrow> string list \<Rightarrow> bool" where
  "event_words ts name args \<longleftrightarrow> (\<exists>tok toks. ts = tok # toks \<and> plain_word tok name \<and>
     list_all2 plain_word toks args \<and> variables_ok True args)"

lemma event_words_operand: "event_words ts name args \<Longrightarrow> operand ts (match_node name args)"
  by (auto simp: event_words_def intro: event)

lemma event_words_first: "plain_word tok name \<Longrightarrow> event_words [tok] name []"
  by (simp add: event_words_def)

lemma event_words_more:
  "event_words ts name args \<Longrightarrow> plain_word tok arg \<Longrightarrow> variables_ok True (args @ [arg]) \<Longrightarrow>
     event_words (ts @ [tok]) name (args @ [arg])"
  by (auto simp: event_words_def list_all2_appendI)

inductive level :: "on_token list \<Rightarrow> EventOperator list \<Rightarrow> EventOperator \<Rightarrow> bool" where
  start: "level [] [] Leaf"
| first: "event_words ts name args \<Longrightarrow> level ts [match_node name args] Leaf"
| grouped: "condition ts t \<Longrightarrow> t \<noteq> Leaf \<Longrightarrow> level ts [] t"
| infix_op: "condition ts t \<Longrightarrow> operator_type raw = Some ty \<Longrightarrow> level (ts @ [Word raw d]) [oper_node ty t Leaf] Leaf"
| second: "condition ts t \<Longrightarrow> operator_type raw = Some ty \<Longrightarrow> event_words us name args \<Longrightarrow>
    level (ts @ Word raw d # us) [match_node name args, oper_node ty t Leaf] Leaf"
| second_grouped: "condition ts t \<Longrightarrow> operator_type raw = Some ty \<Longrightarrow> operand us u \<Longrightarrow> u \<noteq> Leaf \<Longrightarrow>
    level (ts @ Word raw d # us) [oper_node ty t Leaf] u"

inductive layout :: "on_token list \<Rightarrow> EventOperator list \<Rightarrow> EventOperator \<Rightarrow> bool" where
  outer: "level ts items root \<Longrightarrow> layout ts items root"
| inner: "layout ts stack Leaf \<Longrightarrow> \<not> top_is_match stack \<Longrightarrow> level us items root \<Longrightarrow>
    layout (ts @ Open # us) (items @ Leaf # stack) root"

text \<open>An operand right after a closing parenthesis: it will not be accepted.\<close>

definition doomed :: "on_state \<Rightarrow> bool" where
  "doomed = (\<lambda>(stack, root). root \<noteq> Leaf \<and> top_is_match stack)"

lemma doomed_collect: "doomed (stack, root) \<Longrightarrow> \<exists>e. parse_on_collect stack root = Inl e"
  by (cases "(stack, root)" rule: parse_on_collect.cases) (auto simp: doomed_def)

lemma doomed_step:
  assumes "doomed st" and "on_step tok st = Inr st'"
  shows "doomed st'"
proof -
  obtain l a r stack root where st: "st = (Node l a r # stack, root)" "o_type a = EVENT_MATCH" "root \<noteq> Leaf"
    using assms(1) by (cases st; cases "fst st" rule: top_is_match.cases) (auto simp: doomed_def)
  show ?thesis
    using assms(2) st
    by (cases tok) (auto simp: open_paren_def close_paren_def push_operator_def push_operand_def doomed_def Let_def
      split: option.splits if_splits)
qed

lemma doomed_run: "doomed st \<Longrightarrow> on_run toks st = Some (stack, root) \<Longrightarrow> \<exists>e. parse_on_collect stack root = Inl e"
proof (induction toks arbitrary: st)
  case Nil
  then show ?case using doomed_collect by simp
next
  case (Cons tok toks)
  then obtain st1 where "on_step tok st = Inr st1" "on_run toks st1 = Some (stack, root)"
    by (auto split: sum.splits)
  then show ?case using doomed_step [OF Cons.prems(1)] Cons.IH by blast
qed

lemma level_collect:
  assumes "level us items root" and "bottom stack" and "parse_on_collect (items @ stack) root = Inr (stack', t)"
  shows "stack' = stack \<and> condition us t \<and> t \<noteq> Leaf"
  using assms(1)
proof (cases rule: level.cases)
  case (first name args)
  then show ?thesis using assms(2,3) event_words_operand single by auto
next
  case (infix_op ts t raw ty d)
  then show ?thesis using assms(2,3) operator_type_cases by auto
next
  case (second ts t raw ty vs name args d)
  then show ?thesis
    using assms(2,3) operator_type_cases binary [OF second(4,5) event_words_operand [OF second(6)]] by auto
next
  case (second_grouped ts t raw ty vs d)
  then show ?thesis
    using assms(2,3) operator_type_cases binary [OF second_grouped(3-5)] by (auto split: if_splits)
qed (use assms(2,3) in \<open>auto split: if_splits\<close>)

lemma level_operand:
  assumes "level us items Leaf" and "\<not> top_is_match (items @ stack)" and "operand vs u" and "u \<noteq> Leaf"
  shows "level (us @ vs) items u"
  using assms(1)
proof (cases rule: level.cases)
  case start
  then show ?thesis using grouped [OF single] assms(3,4) by simp
next
  case (infix_op ts t raw ty d)
  then show ?thesis using second_grouped [OF infix_op(3,4) assms(3,4)] by simp
qed (use assms(2) in simp_all)

lemma level_operator:
  assumes "level us items root" and "bottom stack" and "operator_type raw = Some ty"
    and "push_operator ty (items @ stack, root) = Inr (stack', root')"
  shows "\<exists>items'. stack' = items' @ stack \<and> level (us @ [Word raw d]) items' root'"
proof -
  obtain stack1 t where c: "parse_on_collect (items @ stack) root = Inr (stack1, t)"
    "stack' = oper_node ty t Leaf # stack1" "root' = Leaf"
    using assms(4) by (auto simp: push_operator_eq split: sum.splits)
  then have "stack1 = stack" "condition us t" using level_collect [OF assms(1,2)] by simp_all
  moreover from this have "level (us @ [Word raw d]) [oper_node ty t Leaf] Leaf" using assms(3) infix_op by simp
  ultimately show ?thesis using c by (intro exI [of _ "[oper_node ty t Leaf]"]) simp
qed

lemma level_word:
  assumes "level us items root" and "bottom stack" and "plain_word tok arg"
    and "push_operand arg (items @ stack, root) = Inr (stack', root')"
  shows "(\<exists>items'. stack' = items' @ stack \<and> level (us @ [tok]) items' root') \<or> doomed (stack', root')"
proof -
  note push = push_operand_match push_operand_new
  note words = event_words_first [OF assms(3)] event_words_more [OF _ assms(3)]
  show ?thesis
  using assms(1)
  proof (cases rule: level.cases)
    case start
    then have "stack' = [match_node arg []] @ stack" "root' = Leaf" using assms(2,4) by (auto simp: push)
    then show ?thesis using start words(1) level.first by fastforce
  next
    case (first name args)
    then have "stack' = [match_node name (args @ [arg])] @ stack" "root' = Leaf" "variables_ok True (args @ [arg])"
      using assms(4) by (auto simp: push split: if_splits)
    then show ?thesis using first words(2) level.first by fastforce
  next
    case (infix_op ts t raw ty d)
    then have "stack' = [match_node arg [], oper_node ty t Leaf] @ stack" "root' = Leaf"
      using assms(4) operator_type_cases by (auto simp: push)
    then show ?thesis using infix_op words(1) level.second [of ts t raw ty "[tok]" arg "[]" d] by fastforce
  next
    case (second ts t raw ty vs name args d)
    then have s: "stack' = [match_node name (args @ [arg]), oper_node ty t Leaf] @ stack" "root' = Leaf"
      "variables_ok True (args @ [arg])"
      using assms(4) by (auto simp: push split: if_splits)
    have "level (ts @ Word raw d # vs @ [tok]) [match_node name (args @ [arg]), oper_node ty t Leaf] Leaf"
      using second s(3) words(2) by (intro level.second) auto
    then show ?thesis using second s by fastforce
  next
    case grouped
    then show ?thesis using assms(2,4) by (auto simp: push doomed_def)
  next
    case (second_grouped ts t raw ty vs d)
    then show ?thesis using assms(4) operator_type_cases by (auto simp: push doomed_def)
  qed
qed

text \<open>The innermost level of the stack, which can be exchanged.\<close>

lemma layout_level:
  assumes "layout ts stack root"
  obtains pre us items rest where "ts = pre @ us" and "stack = items @ rest" and "level us items root" and "bottom rest"
    and "\<And>us items root. level us items root \<Longrightarrow> layout (pre @ us) (items @ rest) root"
    and "rest \<noteq> [] \<Longrightarrow> \<exists>pre'. pre = pre' @ [Open] \<and> layout pre' (tl rest) Leaf \<and> \<not> top_is_match (tl rest)"
    and "rest = [] \<Longrightarrow> pre = []"
  using assms
proof (cases rule: layout.cases)
  case outer
  then show ?thesis using that [of "[]" ts stack "[]"] layout.outer by auto
next
  case (inner ts' stack' us items)
  have "layout ((ts' @ [Open]) @ us) (items @ Leaf # stack') root" if "level us items root" for us items root
    using layout.inner [OF inner(3,4) that] by simp
  then show ?thesis using that [of "ts' @ [Open]" us items "Leaf # stack'"] inner by auto
qed

lemma layout_step:
  assumes "layout ts stack root" and "on_step tok (stack, root) = Inr (stack', root')"
  shows "layout (ts @ [tok]) stack' root' \<or> doomed (stack', root')"
proof -
  obtain pre us items rest where l: "ts = pre @ us" "stack = items @ rest" "level us items root" "bottom rest"
    and ex: "\<And>us items root. level us items root \<Longrightarrow> layout (pre @ us) (items @ rest) root"
    and out: "rest \<noteq> [] \<Longrightarrow> \<exists>pre'. pre = pre' @ [Open] \<and> layout pre' (tl rest) Leaf \<and> \<not> top_is_match (tl rest)"
    using layout_level [OF assms(1)] by metis
  show ?thesis
  proof (cases tok)
    case Open
    then have "root = Leaf" "root' = Leaf" "\<not> top_is_match stack" "stack' = Leaf # stack"
      using assms(2) by (auto simp: open_paren_def split: if_splits)
    then show ?thesis using layout.inner [of ts stack "[]" "[]" Leaf] assms(1) level.start Open by auto
  next
    case Close
    then obtain m where c: "parse_on_collect (items @ rest) root = Inr (m # stack', root')"
      using assms(2) l(2) by (auto simp: close_paren_def split: sum.splits list.splits)
    with level_collect [OF l(3,4)] have r: "rest = m # stack'" "condition us root'" "root' \<noteq> Leaf" by auto
    obtain pre' where p: "pre = pre' @ [Open]" "layout pre' stack' Leaf" "\<not> top_is_match stack'"
      using out r(1) by auto
    obtain pre2 us2 items2 rest2 where
      "pre' = pre2 @ us2" "stack' = items2 @ rest2" "level us2 items2 Leaf"
      "\<And>us items root. level us items root \<Longrightarrow> layout (pre2 @ us) (items @ rest2) root"
      using layout_level [OF p(2)] by metis
    moreover from this have "level (us2 @ Open # us @ [Close]) items2 root'"
      using p(3) r level_operand group by simp
    ultimately show ?thesis using p(1) l(1) Close by (metis append.assoc append_Cons append_Nil)
  next
    case (Word raw arg)
    show ?thesis
    proof (cases "operator_type raw")
      case None
      then have "plain_word tok arg" "push_operand arg (items @ rest, root) = Inr (stack', root')"
        using Word assms(2) l(2) by (auto simp: plain_word_def)
      from level_word [OF l(3,4) this] show ?thesis using ex l(1) by force
    next
      case (Some ty)
      then have "push_operator ty (items @ rest, root) = Inr (stack', root')" using Word assms(2) l(2) by simp
      from level_operator [OF l(3,4) Some this, of arg] show ?thesis using ex l(1) Word by force
    qed
  qed
qed

lemma layout_run:
  "layout ts stack root \<Longrightarrow> on_run us (stack, root) = Some (stack', root') \<Longrightarrow>
     layout (ts @ us) stack' root' \<or> (\<exists>e. parse_on_collect stack' root' = Inl e)"
proof (induction us arbitrary: ts stack root)
  case (Cons tok us)
  obtain stack1 root1 where step: "on_step tok (stack, root) = Inr (stack1, root1)"
    and rest: "on_run us (stack1, root1) = Some (stack', root')"
    using Cons.prems(2) by (auto split: sum.splits)
  show ?case
    using layout_step [OF Cons.prems(1) step]
  proof
    assume "layout (ts @ [tok]) stack1 root1"
    from Cons.IH [OF this rest] show ?thesis by simp
  qed (use doomed_run rest in blast)
qed simp

text \<open>The machine accepts exactly the conditions.\<close>

lemma condition_iff:
  "condition ts t \<longleftrightarrow> (\<exists>stack root. on_run ts ([], Leaf) = Some (stack, root) \<and> parse_on_collect stack root = Inr ([], t))"
proof
  assume "\<exists>stack root. on_run ts ([], Leaf) = Some (stack, root) \<and> parse_on_collect stack root = Inr ([], t)"
  then obtain stack root where run: "on_run ts ([], Leaf) = Some (stack, root)"
    and fin: "parse_on_collect stack root = Inr ([], t)" by blast
  have "layout [] [] Leaf" by (simp add: outer start)
  from layout_run [OF this run] have "layout ts stack root" using fin by simp
  then obtain pre us items rest where l: "ts = pre @ us" "stack = items @ rest" "level us items root" "bottom rest"
    and pre: "rest = [] \<Longrightarrow> pre = []"
    by (rule layout_level) blast
  have "rest = []" "condition us t" using level_collect [OF l(3,4)] fin l(2) by auto
  then show "condition ts t" using l(1) pre by simp
qed (rule condition_accepted)


lemma condition_unique: "condition ts t \<Longrightarrow> condition ts u \<Longrightarrow> t = u"
  unfolding condition_iff by auto

section \<open>From the file to the tokens\<close>

text \<open>The result without the errors and where they are reported.\<close>

definition accepted :: "((parse_error + 'a) \<times> 'b) option \<Rightarrow> ('a \<times> 'b) option" where
  "accepted r = (case r of Some (Inr x, y) \<Rightarrow> Some (x, y) | _ \<Rightarrow> None)"

definition accepted_at :: "((parse_error + 'a) \<times> 'c \<times> 'b) option \<Rightarrow> ('a \<times> 'b) option" where
  "accepted_at r = map_option (apsnd snd) (accepted r)"

lemma accepted_simps [simp]:
  "accepted None = None" "accepted (Some (Inl e, y)) = None" "accepted (Some (Inr x, y)) = Some (x, y)"
  "accepted_at None = None" "accepted_at (Some (Inl e, p, y)) = None" "accepted_at (Some (Inr x, p, y)) = Some (x, y)"
  by (simp_all add: accepted_def accepted_at_def)

lemma acceptedE:
  obtains "accepted r = None" | x y where "r = Some (Inr x, y)"
proof (cases r)
  case (Some z)
  then show ?thesis using that by (cases z; cases "fst z") auto
qed (use that in simp)

definition run_on :: "on_state \<Rightarrow> (on_token list \<times> 'b) option \<Rightarrow> (on_state \<times> 'b) option" where
  "run_on st r = Option.bind r (\<lambda>(toks, y). map_option (\<lambda>st. (st, y)) (on_run toks st))"

definition parse_on_one :: "nih_config \<Rightarrow> string \<Rightarrow> cur \<Rightarrow> on_state \<Rightarrow> nat \<Rightarrow> on_result option" where
  "parse_on_one nih file pos st n =
     (if fst pos < length file \<and> at_char file pos \<in> {CHR ''('', CHR '')'', NUL}
      then parse_on_paren nih file pos st n else Some (parse_on_operator nih file pos st n))"

lemma parse_on_one_accepted:
  "accepted (parse_on_one nih file pos st n) =
     Option.bind (read_token nih file pos) (\<lambda>(tok, pos').
       case on_step tok st of Inl e \<Rightarrow> None | Inr st' \<Rightarrow> Some ((st', open_after tok n), pos'))"
proof (cases "fst pos < length file \<and> at_char file pos \<in> {CHR ''('', CHR '')'', NUL}")
  case True
  then show ?thesis
    by (cases "open_paren st"; cases "close_paren st")
      (simp_all add: parse_on_one_def parse_on_paren_def read_token_def Let_def)
next
  case False
  let ?next = "next_token nih file (''()'' @ cnlws nih)"
  have one: "parse_on_one nih file pos st n = Some (parse_on_operator nih file pos st n)"
    unfolding parse_on_one_def if_not_P [OF False] ..
  have rd: "read_token nih file pos =
      (case ?next False pos of
         (Inr raw, a_pos) \<Rightarrow> if operator_type raw \<noteq> None then Some (Word raw raw, a_pos)
           else (case ?next True pos of (Inr arg, a_pos) \<Rightarrow> Some (Word raw arg, a_pos) | _ \<Rightarrow> None)
       | _ \<Rightarrow> None)"
    unfolding read_token_def Let_def if_not_P [OF False] ..
  show ?thesis
    unfolding one rd parse_on_operator_def parse_on_operand_def
    by (auto split: sum.split prod.split option.split)
qed

lemma parse_on_tokens_accepted:
  "accepted_at (parse_on_tokens fuel nih file pos st n) =
     map_option (\<lambda>(st, n, pos). ((st, n), pos)) (run_on st (read_line fuel nih file pos n))"
proof (induction fuel arbitrary: pos st n)
  case (Suc fuel)
  have step: "parse_on_tokens (Suc fuel) nih file pos st n =
      Option.bind (parse_on_one nih file pos st n) (\<lambda>(r, on_pos). case r of Inl e \<Rightarrow> Some (Inl e, pos, on_pos)
        | Inr (st, n) \<Rightarrow> if has_token nih file on_pos then parse_on_tokens fuel nih file on_pos st n
            else Some (Inr (st, n), pos, on_pos))"
    by (simp add: parse_on_one_def)
  consider "accepted (parse_on_one nih file pos st n) = None"
    | st1 n1 pos1 where "parse_on_one nih file pos st n = Some (Inr (st1, n1), pos1)"
    using acceptedE [of "parse_on_one nih file pos st n"] by (metis surj_pair)
  then show ?case
  proof cases
    case 1
    then have "accepted_at (parse_on_tokens (Suc fuel) nih file pos st n) = None"
      unfolding step by (auto simp: accepted_def split: option.splits sum.splits prod.splits)
    moreover have "run_on st (read_line (Suc fuel) nih file pos n) = None"
      using 1 by (auto simp: parse_on_one_accepted run_on_def split: Option.bind_splits sum.splits if_splits)
    ultimately show ?thesis by simp
  next
    case 2
    then have "accepted (parse_on_one nih file pos st n) = Some ((st1, n1), pos1)" by simp
    then obtain tok where tok: "read_token nih file pos = Some (tok, pos1)" "on_step tok st = Inr st1" "n1 = open_after tok n"
      by (auto simp: parse_on_one_accepted split: Option.bind_splits sum.splits)
    then have "run_on st (read_line (Suc fuel) nih file pos n) =
        (if has_token nih file pos1 then run_on st1 (read_line fuel nih file pos1 n1) else Some (st1, n1, pos1))"
      by (auto simp: run_on_def split: Option.bind_splits)
    then show ?thesis unfolding step 2 using Suc.IH [of pos1 st1 n1] by simp
  qed
qed (simp add: run_on_def)

lemma parse_on_lines_accepted:
  "accepted_at (parse_on_lines fuel nih file pos st n) = run_on st (read_tokens fuel nih file pos n)"
proof (induction fuel arbitrary: pos st n)
  case (Suc fuel)
  let ?pos = "skip_whitespace nih file pos"
  let ?line = "parse_on_tokens fuel nih file ?pos st n"
  note line = parse_on_tokens_accepted [of fuel nih "file" ?pos st n]
  consider "accepted ?line = None" | st1 n1 p pos1 where "?line = Some (Inr (st1, n1), p, pos1)"
    using acceptedE [of ?line] by (metis surj_pair)
  then show ?case
  proof cases
    case 1
    then have none: "run_on st (read_line fuel nih file ?pos n) = None" using line by (simp add: accepted_at_def)
    have "accepted_at (parse_on_lines (Suc fuel) nih file pos st n) = None"
      using 1 by (auto simp: accepted_def split: option.splits sum.splits Option.bind_splits)
    moreover have "run_on st (read_tokens (Suc fuel) nih file pos n) = None"
      using none by (auto simp: run_on_def on_run_append split: Option.bind_splits option.splits if_splits prod.splits)
    ultimately show ?thesis by simp
  next
    case 2
    then have "run_on st (read_line fuel nih file ?pos n) = Some (st1, n1, pos1)"
      using line by (cases "run_on st (read_line fuel nih file ?pos n)") auto
    then obtain toks where toks: "read_line fuel nih file ?pos n = Some (toks, n1, pos1)" "on_run toks st = Some st1"
      by (auto simp: run_on_def split: Option.bind_splits)
    obtain e pos2 where skip: "skip_comment nih file pos1 = (e, pos2)" by (meson surj_pair)
    show ?thesis
      using 2 toks skip Suc.IH [of pos2 st1 n1]
      by (cases e) (auto simp: run_on_def on_run_append split: Option.bind_splits)
  qed
qed (simp add: run_on_def)

section \<open>Termination\<close>

text \<open>What the parser relies on of the tokeniser: positions do not go back and stay within the file, a
  token has at least one character, there is one only before the end, and what is left of a line
  without a token can be skipped.\<close>

definition tokeniser_ok :: "nih_config \<Rightarrow> string \<Rightarrow> bool" where
  "tokeniser_ok nih file \<longleftrightarrow> NUL \<notin> set file \<and>
     (\<forall>c. fst c \<le> length file \<longrightarrow>
        (has_token nih file c \<longrightarrow> fst c < length file) \<and>
        fst c \<le> fst (skip_whitespace nih file c) \<and> fst (skip_whitespace nih file c) \<le> length file \<and>
        (\<forall>delim dequote arg c'. next_token nih file delim dequote c = (Inr arg, c') \<longrightarrow>
           fst c < fst c' \<and> fst c' \<le> length file) \<and>
        (\<not> has_token nih file c \<longrightarrow> (\<exists>c'. skip_comment nih file c = (None, c') \<and> fst c \<le> fst c' \<and> fst c' \<le> length file)))"

lemma tokeniser_okD:
  assumes "tokeniser_ok nih file" and "fst c \<le> length file"
  shows "has_token nih file c \<Longrightarrow> fst c < length file"
    and "fst c \<le> fst (skip_whitespace nih file c)" "fst (skip_whitespace nih file c) \<le> length file"
    and "next_token nih file delim dequote c = (Inr arg, c') \<Longrightarrow> fst c < fst c' \<and> fst c' \<le> length file"
    and "\<not> has_token nih file c \<Longrightarrow> \<exists>c'. skip_comment nih file c = (None, c') \<and> fst c \<le> fst c' \<and> fst c' \<le> length file"
  using assms unfolding tokeniser_ok_def by blast+

lemma parse_on_operator_moves:
  assumes ok: "tokeniser_ok nih file" and c: "fst pos \<le> length file"
    and run: "parse_on_operator nih file pos st n = (Inr x, pos')"
  shows "fst pos < fst pos' \<and> fst pos' \<le> length file"
  using run
  by (auto simp: parse_on_operator_def parse_on_operand_def split: sum.splits option.splits prod.splits
    dest: tokeniser_okD(4) [OF ok c])

lemma parse_on_one_moves:
  assumes ok: "tokeniser_ok nih file" and c: "fst pos \<le> length file"
  shows "\<exists>r pos'. parse_on_one nih file pos st n = Some (r, pos') \<and>
    (\<forall>x. r = Inr x \<longrightarrow> fst pos < fst pos' \<and> fst pos' \<le> length file)"
proof (cases "fst pos < length file \<and> at_char file pos \<in> {CHR ''('', CHR '')'', NUL}")
  case True
  have "NUL \<notin> set file" using ok by (simp add: tokeniser_ok_def)
  then have "at_char file pos \<noteq> NUL" using True by (metis at_char_def char_at_def nth_mem)
  then have paren: "at_char file pos = CHR ''('' \<or> at_char file pos = CHR '')''" using True by blast
  let ?next = "skip_whitespace nih file (Suc (fst pos), snd pos)"
  have "fst pos < fst ?next" "fst ?next \<le> length file"
    using tokeniser_okD(2,3) [OF ok, of "(Suc (fst pos), snd pos)"] True by auto
  moreover have "parse_on_one nih file pos st n = parse_on_paren nih file pos st n"
    using True by (simp add: parse_on_one_def)
  moreover have "\<exists>r pos'. parse_on_paren nih file pos st n = Some (r, pos') \<and> (\<forall>x. r = Inr x \<longrightarrow> pos' = ?next)"
    using paren by (cases "open_paren st"; cases "close_paren st") (auto simp: parse_on_paren_def Let_def simp del: split_paired_Ex)
  ultimately show ?thesis by metis
next
  case False
  obtain r pos' where run: "parse_on_operator nih file pos st n = (r, pos')" by (meson surj_pair)
  then have "parse_on_one nih file pos st n = Some (r, pos')" unfolding parse_on_one_def if_not_P [OF False] by simp
  then show ?thesis using run parse_on_operator_moves [OF ok c] by blast
qed

lemma parse_on_tokens_total:
  assumes ok: "tokeniser_ok nih file"
  shows "fst pos \<le> length file \<Longrightarrow> length file - fst pos < fuel \<Longrightarrow>
    \<exists>r p pos'. parse_on_tokens fuel nih file pos st n = Some (r, p, pos') \<and>
      (\<forall>x. r = Inr x \<longrightarrow> fst pos < fst pos' \<and> fst pos' \<le> length file \<and> \<not> has_token nih file pos')"
proof (induction fuel arbitrary: pos st n)
  case (Suc fuel)
  obtain r pos1 where one: "parse_on_one nih file pos st n = Some (r, pos1)"
    and mv: "\<And>x. r = Inr x \<Longrightarrow> fst pos < fst pos1 \<and> fst pos1 \<le> length file"
    using parse_on_one_moves [OF ok Suc.prems(1)] by blast
  have step: "parse_on_tokens (Suc fuel) nih file pos st n =
      (case r of Inl e \<Rightarrow> Some (Inl e, pos, pos1)
        | Inr (st, n) \<Rightarrow> if has_token nih file pos1 then parse_on_tokens fuel nih file pos1 st n
            else Some (Inr (st, n), pos, pos1))"
    using one unfolding parse_on_one_def by simp
  show ?case
  proof (cases r)
    case (Inr x)
    obtain st1 n1 where x: "x = (st1, n1)" by fastforce
    have "fst pos1 \<le> length file" "fst pos < fst pos1" using mv Inr by auto
    moreover from this have "\<exists>r p pos'. parse_on_tokens fuel nih file pos1 st1 n1 = Some (r, p, pos') \<and>
        (\<forall>x. r = Inr x \<longrightarrow> fst pos1 < fst pos' \<and> fst pos' \<le> length file \<and> \<not> has_token nih file pos')"
      using Suc.prems by (intro Suc.IH) auto
    ultimately show ?thesis unfolding step using Inr x by (cases "has_token nih file pos1") auto
  qed (simp add: step del: parse_on_tokens.simps)
qed simp

lemma parse_on_lines_total:
  assumes ok: "tokeniser_ok nih file"
  shows "fst pos \<le> length file \<Longrightarrow> Suc (length file - fst pos) < fuel \<Longrightarrow>
    \<exists>r. parse_on_lines fuel nih file pos st n = Some r"
proof (induction fuel arbitrary: pos st n)
  case (Suc fuel)
  let ?pos = "skip_whitespace nih file pos"
  have w: "fst pos \<le> fst ?pos" "fst ?pos \<le> length file" using tokeniser_okD(2,3) [OF ok Suc.prems(1)] by auto
  obtain r p pos1 where line: "parse_on_tokens fuel nih file ?pos st n = Some (r, p, pos1)"
    and mv: "\<And>x. r = Inr x \<Longrightarrow> fst ?pos < fst pos1 \<and> fst pos1 \<le> length file \<and> \<not> has_token nih file pos1"
    using parse_on_tokens_total [OF ok w(2), of fuel st n] w Suc.prems by fastforce
  show ?case
  proof (cases r)
    case (Inr x)
    obtain st1 n1 where x: "x = (st1, n1)" by fastforce
    have m: "fst ?pos < fst pos1" "fst pos1 \<le> length file" "\<not> has_token nih file pos1" using mv Inr by auto
    obtain pos2 where "skip_comment nih file pos1 = (None, pos2)" "fst pos1 \<le> fst pos2" "fst pos2 \<le> length file"
      using tokeniser_okD(5) [OF ok m(2,3)] by blast
    then show ?thesis using line Inr x Suc.IH [of pos2 st1 n1] Suc.prems w(1) m(1) by auto
  qed (simp add: line)
qed simp

lemma parse_on_returns:
  assumes "tokeniser_ok nih file" and "fst c \<le> length file"
  shows "\<exists>r c'. parse_on (parse_on_fuel file) nih file c = Some (r, c')"
proof -
  have "\<exists>r. parse_on_lines (parse_on_fuel file) nih file c ([], Leaf) 0 = Some r"
    using assms by (intro parse_on_lines_total) (auto simp: parse_on_fuel_def)
  then obtain r pos on_pos where "parse_on_lines (parse_on_fuel file) nih file c ([], Leaf) 0 = Some (r, pos, on_pos)"
    by auto
  then have "parse_on (parse_on_fuel file) nih file c \<noteq> None" by (simp add: parse_on_def)
  then show ?thesis by auto
qed

lemma parse_on_accepts:
  "parse_on fuel nih file c = Some (Inr t, c') \<longleftrightarrow>
     (\<exists>toks. read_tokens fuel nih file c 0 = Some (toks, c') \<and> condition toks t)"
proof -
  have "parse_on fuel nih file c = Some (Inr t, c') \<longleftrightarrow>
      (\<exists>stack root. accepted_at (parse_on_lines fuel nih file c ([], Leaf) 0) = Some ((stack, root), c') \<and>
         parse_on_collect stack root = Inr ([], t))"
    by (auto simp: parse_on_def accepted_at_def accepted_def split: sum.splits if_splits option.splits Option.bind_splits)
  then show ?thesis unfolding parse_on_lines_accepted condition_iff
    by (auto simp: run_on_def split: Option.bind_splits)
qed

text \<open>C27: the parser of conditions accepts exactly the sequences of tokens of the grammar (operands with
  operators between them, parentheses balanced, arguments by name after those by position), and the
  tree it builds is the one of the grammar, which is unambiguous: \<^verbatim>\<open>and\<close> and \<^verbatim>\<open>or\<close> bind alike and
  to the left.\<close>

theorem parse_on_conditions:
  "(parse_on fuel nih file c = Some (Inr t, c') \<longleftrightarrow>
     (\<exists>toks. read_tokens fuel nih file c 0 = Some (toks, c') \<and> condition toks t)) \<and>
   (condition toks t \<and> condition toks u \<longrightarrow> t = u)"
  using parse_on_accepts condition_unique by blast

section \<open>A tokeniser\<close>

text \<open>A tokeniser for texts without quotes and escapes, on which the contracts are shown to be
  satisfiable.\<close>

definition run_length :: "(char \<Rightarrow> bool) \<Rightarrow> string \<Rightarrow> nat \<Rightarrow> nat" where
  "run_length P file p = p + length (takeWhile P (drop p file))"

definition skip_blanks :: "string \<Rightarrow> cur \<Rightarrow> cur" where
  "skip_blanks file = (\<lambda>(p, l). (run_length (\<lambda>c. c \<in> set [CHR '' '', CHR 0x09, CHR 0x0D]) file p, l))"

definition take_word :: "string \<Rightarrow> string \<Rightarrow> bool \<Rightarrow> cur \<Rightarrow> (parse_error + string) \<times> cur" where
  "take_word file delim dequote = (\<lambda>(p, l).
     let w = takeWhile (\<lambda>c. c \<notin> set delim) (drop p file)
     in if w = [] then (Inl NIH_CONFIG_EXPECTED_TOKEN, (p, l)) else (Inr w, skip_blanks file (p + length w, l)))"

definition blank_chars :: string where
  "blank_chars = [CHR '' '', CHR 0x09, CHR 0x0D, CHR ''#'', CHR 0x0A]"

definition skip_line :: "string \<Rightarrow> cur \<Rightarrow> cur" where
  "skip_line file = (\<lambda>(p, l). (min (length file) (Suc (run_length (\<lambda>c. c \<noteq> CHR 0x0A) file p)), Suc l))"

definition sample_nih :: nih_config where
  "sample_nih = \<lparr>cnlws = blank_chars,
     has_token = (\<lambda>file c. fst c < length file \<and> file ! fst c \<notin> {CHR ''#'', CHR 0x0A}),
     next_token = take_word,
     next_arg = (\<lambda>file c. take_word file blank_chars True c),
     skip_whitespace = skip_blanks,
     skip_comment = (\<lambda>file c. (None, skip_line file c)),
     parse_command = (\<lambda>file c. take_word file [CHR ''#'', CHR 0x0A] False c),
     parse_block = (\<lambda>file name c. (Inr (takeWhile (\<lambda>ch. ch \<noteq> CHR 0x0A) (drop (fst c) file)), skip_line file c)),
     parse_args = (\<lambda>file c. (Inr [takeWhile (\<lambda>ch. ch \<noteq> CHR 0x0A) (drop (fst c) file)], skip_line file c)),
     signal_from_name = (\<lambda>_. -1)\<rparr>"

lemma run_length_bounds: "p \<le> run_length P file p" "p \<le> length file \<Longrightarrow> run_length P file p \<le> length file"
  using length_takeWhile_le [of P "drop p file"] by (auto simp: run_length_def)

lemma skip_blanks_bounds:
  "fst c \<le> fst (skip_blanks file c)" "fst c \<le> length file \<Longrightarrow> fst (skip_blanks file c) \<le> length file"
  using run_length_bounds by (auto simp: skip_blanks_def split: prod.split)

lemma take_word_bounds:
  assumes "take_word file delim dequote c = (Inr arg, c')" and "fst c \<le> length file"
  shows "fst c < fst c' \<and> fst c' \<le> length file"
proof -
  obtain p l where c: "c = (p, l)" by (cases c)
  let ?w = "takeWhile (\<lambda>c. c \<notin> set delim) (drop p file)"
  have "?w \<noteq> []" "c' = skip_blanks file (p + length ?w, l)"
    using assms(1) c by (auto simp: take_word_def Let_def split: if_splits)
  moreover from this have "0 < length ?w" by blast
  ultimately show ?thesis
    using skip_blanks_bounds [of "(p + length ?w, l)" "file"] length_takeWhile_le [of "\<lambda>c. c \<notin> set delim" "drop p file"]
      assms(2) c by (auto simp del: length_greater_0_conv)
qed

lemma sample_tokeniser_ok: "NUL \<notin> set file \<Longrightarrow> tokeniser_ok sample_nih file"
  using skip_blanks_bounds take_word_bounds run_length_bounds
  by (fastforce simp: tokeniser_ok_def sample_nih_def skip_line_def le_SucI)

theorem parse_on_conditions_witness:
  "parse_on 9 sample_nih ''a or b'' (0, 0) = Some (Inr (oper_node EVENT_OR (match_node ''a'' []) (match_node ''b'' [])), (6, 1)) \<and>
   condition [Word ''a'' ''a'', Word ''or'' ''or'', Word ''b'' ''b'']
     (oper_node EVENT_OR (match_node ''a'' []) (match_node ''b'' []))"
proof -
  let ?toks = "[Word ''a'' ''a'', Word ''or'' ''or'', Word ''b'' ''b'']"
    and ?t = "oper_node EVENT_OR (match_node ''a'' []) (match_node ''b'' [])"
  have "read_tokens 9 sample_nih ''a or b'' (0, 0) 0 = Some (?toks, (6, 1))"
    by code_simp
  moreover have "condition ?toks ?t"
    using binary [OF single [OF event] _ event, of "Word ''a'' ''a''" "''a''" "[]" "[]" "''or''" EVENT_OR
        "Word ''b'' ''b''" "''b''" "[]" "[]" "''or''"]
    by (simp add: plain_word_def operator_type_def)
  ultimately show ?thesis
    using parse_on_conditions [of 9 sample_nih "''a or b''" "(0, 0)" ?t "(6, 1)" ?toks ?t] by blast
qed

end
