(* ===== verification/Cgroup.thy ===== *)
theory Cgroup
  imports Expand
begin

text \<open>
  \<^verbatim>\<open>src/init/cgroup.c\<close>: the control groups of a job class, given by its \<^verbatim>\<open>cgroup\<close> stanzas, and what is
  asked of the cgroup manager for them. The manager is another program: the requests sent to it are
  listed, and whether it fulfils the last request of such a list is a parameter.

  A function that calls the manager returns whether it succeeded; \<open>None\<close> is a failed assertion. The
  global variables are arguments: \<open>disabled\<close> is \<^verbatim>\<open>disable_cgroups\<close> and \<open>manager\<close> is the proxy
  \<^verbatim>\<open>cgroup_manager\<close>.
\<close>

section \<open>Data\<close>

record CGroupSetting =
  cs_key :: string
  cs_value :: "string option"

record CGroupName =
  cn_name :: string
  cn_expanded :: "string option"
  cn_settings :: "CGroupSetting list"

record CGroup =
  cg_controller :: string
  cg_names :: "CGroupName list"

definition UPSTART_CGROUP_ENVVAR :: string where
  "UPSTART_CGROUP_ENVVAR = ''UPSTART_CGROUP''"

definition UPSTART_CGROUP_SHELL_ENVVAR :: string where
  "UPSTART_CGROUP_SHELL_ENVVAR = ''$'' @ UPSTART_CGROUP_ENVVAR"

definition UPSTART_CGROUP_ROOT :: string where
  "UPSTART_CGROUP_ROOT = ''/''"

definition cgroup_new :: "string \<Rightarrow> CGroup" where
  "cgroup_new controller = \<lparr>cg_controller = controller, cg_names = []\<rparr>"

definition cgroup_name_new :: "string \<Rightarrow> CGroupName" where
  "cgroup_name_new name = \<lparr>cn_name = name, cn_expanded = None, cn_settings = []\<rparr>"

definition cgroup_setting_new :: "string \<Rightarrow> string option \<Rightarrow> CGroupSetting" where
  "cgroup_setting_new key value = \<lparr>cs_key = key, cs_value = value\<rparr>"

section \<open>Adding a group\<close>

text \<open>The loop over the settings: the first with the key gets the new value and the function
  returns.\<close>

fun replace_setting :: "string \<Rightarrow> string option \<Rightarrow> CGroupSetting list \<Rightarrow> CGroupSetting list option" where
  "replace_setting key value [] = None"
| "replace_setting key value (setting # settings) =
     (if cs_key setting = key then Some (setting\<lparr>cs_value := value\<rparr> # settings)
      else map_option ((#) setting) (replace_setting key value settings))"

text \<open>The loop over the names of a group: whether the function has returned, whether the name was
  found, and the names.\<close>

fun add_to_names ::
    "string \<Rightarrow> string option \<Rightarrow> string option \<Rightarrow> CGroupName list \<Rightarrow> bool \<times> bool \<times> CGroupName list" where
  "add_to_names name key value [] = (False, False, [])"
| "add_to_names name key value (cgname # names) =
     (let (ret, found, names') = add_to_names name key value names
      in if cn_name cgname \<noteq> name then (ret, found, cgname # names')
         else (case key of
             None \<Rightarrow> (ret, True, cgname # names')
           | Some k \<Rightarrow>
               (case replace_setting k value (cn_settings cgname) of
                  Some settings \<Rightarrow> (True, True, cgname\<lparr>cn_settings := settings\<rparr> # names)
                | None \<Rightarrow>
                    (ret, True, cgname\<lparr>cn_settings := cn_settings cgname @ [cgroup_setting_new k value]\<rparr> # names'))))"

definition new_name :: "string \<Rightarrow> string option \<Rightarrow> string option \<Rightarrow> CGroupName" where
  "new_name name key value = (cgroup_name_new name)
     \<lparr>cn_settings := (case key of None \<Rightarrow> [] | Some k \<Rightarrow> [cgroup_setting_new k value])\<rparr>"

text \<open>The loop over the groups: whether the function has returned, whether the controller was found,
  and the groups. \<^verbatim>\<open>found_cgroup_name\<close> is kept from one group to the next.\<close>

fun add_to_groups ::
    "string \<Rightarrow> string \<Rightarrow> string option \<Rightarrow> string option \<Rightarrow> bool \<Rightarrow> CGroup list \<Rightarrow> bool \<times> bool \<times> CGroup list" where
  "add_to_groups controller name key value found_name [] = (False, False, [])"
| "add_to_groups controller name key value found_name (cgroup # cgroups) =
     (if cg_controller cgroup \<noteq> controller then
        (let (ret, found, cgroups) = add_to_groups controller name key value found_name cgroups
         in (ret, found, cgroup # cgroups))
      else
        (let (ret, found, names) = add_to_names name key value (cg_names cgroup)
         in if ret then (True, True, cgroup\<lparr>cg_names := names\<rparr> # cgroups)
            else if \<not> (found_name \<or> found) then
              (True, True, cgroup\<lparr>cg_names := names @ [new_name name key value]\<rparr> # cgroups)
            else
              (let (ret, _, cgroups) = add_to_groups controller name key value True cgroups
               in (ret, True, cgroup\<lparr>cg_names := names\<rparr> # cgroups))))"

definition cgroup_add ::
    "string \<Rightarrow> string option \<Rightarrow> string option \<Rightarrow> string option \<Rightarrow> CGroup list \<Rightarrow> CGroup list option" where
  "cgroup_add controller name key value cgroups = do {
     let name = (case name of None \<Rightarrow> UPSTART_CGROUP_SHELL_ENVVAR | Some name \<Rightarrow> name);
     nih_assert (value \<noteq> None \<longrightarrow> key \<noteq> None);
     let (ret, found, cgroups) = add_to_groups controller name key value False cgroups;
     Some (if ret \<or> found then cgroups
           else cgroups @ [(cgroup_new controller)\<lparr>cg_names := [new_name name key value]\<rparr>])
   }"

section \<open>The cgroup manager\<close>

datatype cgm_request =
    MovePidAbs string string
  | Create string string
  | SetValue string string string string
  | Chown string string int int
  | MovePid string string int
  | RemoveOnEmpty string string

text \<open>The proxy \<^verbatim>\<open>cgroup_manager\<close>, \<open>None\<close> for NULL: the answers to lists of requests. A request is
  answered after the requests so far.\<close>

type_synonym cgroup_manager = "(cgm_request list \<Rightarrow> bool) option"

definition ask :: "(cgm_request list \<Rightarrow> bool) \<Rightarrow> cgm_request \<Rightarrow> cgm_request list \<Rightarrow> bool \<times> cgm_request list" where
  "ask answer req reqs = (answer (reqs @ [req]), reqs @ [req])"

definition cgroup_support_enabled :: "bool \<Rightarrow> bool" where
  "cgroup_support_enabled disabled \<longleftrightarrow> \<not> disabled"

text \<open>The requests. The result is \<open>None\<close> where an assertion fails, as it does without the proxy.\<close>

definition cgroup_create ::
    "cgroup_manager \<Rightarrow> bool \<Rightarrow> string \<Rightarrow> string \<Rightarrow> cgm_request list \<Rightarrow> (bool \<times> cgm_request list) option" where
  "cgroup_create manager user_mode controller path reqs = do {
     answer \<leftarrow> manager;
     let (ok, reqs) = (if user_mode then (True, reqs) else ask answer (MovePidAbs controller UPSTART_CGROUP_ROOT) reqs);
     Some (if ok then ask answer (Create controller path) reqs else (False, reqs))
   }"

fun apply_settings ::
    "(cgm_request list \<Rightarrow> bool) \<Rightarrow> string \<Rightarrow> string \<Rightarrow> CGroupSetting list \<Rightarrow> cgm_request list \<Rightarrow> bool \<times> cgm_request list" where
  "apply_settings answer controller path [] reqs = (True, reqs)"
| "apply_settings answer controller path (setting # settings) reqs =
     (let (ok, reqs) = ask answer (SetValue controller path (controller @ ''.'' @ cs_key setting)
            (case cs_value setting of None \<Rightarrow> [] | Some v \<Rightarrow> v)) reqs
      in if ok then apply_settings answer controller path settings reqs else (False, reqs))"

definition cgroup_settings_apply ::
    "cgroup_manager \<Rightarrow> string \<Rightarrow> string \<Rightarrow> CGroupSetting list \<Rightarrow> cgm_request list \<Rightarrow> (bool \<times> cgm_request list) option" where
  "cgroup_settings_apply manager controller path settings reqs = do {
     answer \<leftarrow> manager;
     Some (apply_settings answer controller path settings reqs)
   }"

definition cgroup_chown ::
    "cgroup_manager \<Rightarrow> string \<Rightarrow> string \<Rightarrow> int \<Rightarrow> int \<Rightarrow> cgm_request list \<Rightarrow> (bool \<times> cgm_request list) option" where
  "cgroup_chown manager controller path uid gid reqs = do {
     answer \<leftarrow> manager;
     Some (ask answer (Chown controller path uid gid) reqs)
   }"

definition cgroup_enter ::
    "cgroup_manager \<Rightarrow> string \<Rightarrow> string \<Rightarrow> int \<Rightarrow> cgm_request list \<Rightarrow> (bool \<times> cgm_request list) option" where
  "cgroup_enter manager controller path pid reqs = do {
     nih_assert (pid > 0);
     answer \<leftarrow> manager;
     Some (ask answer (MovePid controller path pid) reqs)
   }"

definition cgroup_name_remap :: "string \<Rightarrow> string" where
  "cgroup_name_remap str = map (\<lambda>c. if c = CHR ''/'' then CHR ''_'' else c) str"

text \<open>The path of a group: the expanded name if there is one.\<close>

definition cgroup_path :: "CGroupName \<Rightarrow> string" where
  "cgroup_path cgname = (case cn_expanded cgname of None \<Rightarrow> cn_name cgname | Some p \<Rightarrow> p)"

text \<open>\<^verbatim>\<open>cgroup_setup\<close> first makes the environment in which the names are expanded. The result is \<open>None\<close>
  where an assertion fails.\<close>

definition upstart_cgroup :: "string \<Rightarrow> string \<Rightarrow> string" where
  "upstart_cgroup job instance =
     ''upstart/'' @ cgroup_name_remap (job @ (if instance \<noteq> [] then ''-'' @ instance else []))"

definition cgroup_env :: "(string \<Rightarrow> string option) \<Rightarrow> string list \<Rightarrow> string list option" where
  "cgroup_env genv env = do {
     let cgroup_env = environ_append genv True env [];
     upstart_job \<leftarrow> environ_get cgroup_env ''UPSTART_JOB'';
     upstart_instance \<leftarrow> environ_get cgroup_env ''UPSTART_INSTANCE'';
     Some (environ_add genv True
       (UPSTART_CGROUP_ENVVAR @ ''='' @ upstart_cgroup upstart_job upstart_instance) cgroup_env)
   }"

text \<open>The expanded name, in which slashes become underscores: from the position after as many
  characters as the variable's name has when the name starts with the variable and the expanded
  name is longer than that, and otherwise from the start.\<close>

definition expand_name :: "string list \<Rightarrow> CGroupName \<Rightarrow> CGroupName option" where
  "expand_name env cgname =
     (let n = length UPSTART_CGROUP_SHELL_ENVVAR;
          has_var = (strstr (cn_name cgname) UPSTART_CGROUP_SHELL_ENVVAR = Some 0)
      in case environ_expand env (cn_name cgname) of
           Inl e \<Rightarrow> None
         | Inr expanded \<Rightarrow>
             (let expanded = (if has_var \<and> length expanded > n
                              then take n expanded @ cgroup_name_remap (drop n expanded)
                              else cgroup_name_remap expanded)
              in Some (cgname\<lparr>cn_expanded := (if expanded = cn_name cgname then None else Some expanded)\<rparr>)))"

text \<open>The body of the inner loop of \<^verbatim>\<open>cgroup_setup\<close>, and the loops. The names are changed up to the
  point where a step fails.\<close>

definition setup_name ::
    "cgroup_manager \<Rightarrow> bool \<Rightarrow> bool \<Rightarrow> int \<Rightarrow> int \<Rightarrow> string list \<Rightarrow> string \<Rightarrow> CGroupName \<Rightarrow>
      cgm_request list \<Rightarrow> (bool \<times> CGroupName \<times> cgm_request list) option" where
  "setup_name manager user_mode own uid gid env controller cgname reqs =
     (case expand_name env cgname of
        None \<Rightarrow> Some (False, cgname\<lparr>cn_expanded := None\<rparr>, reqs)
      | Some cgname \<Rightarrow> do {
          let cgpath = cgroup_path cgname;
          (ok, reqs) \<leftarrow> cgroup_create manager user_mode controller cgpath reqs;
          if \<not> ok then Some (False, cgname, reqs)
          else do {
            (ok, reqs) \<leftarrow> cgroup_settings_apply manager controller cgpath (cn_settings cgname) reqs;
            if \<not> ok then Some (False, cgname, reqs)
            else if own then Some (True, cgname, reqs)
            else do {
              (ok, reqs) \<leftarrow> cgroup_chown manager controller cgpath uid gid reqs;
              Some (ok, cgname, reqs)
            }
          }
        })"

fun setup_names ::
    "(CGroupName \<Rightarrow> cgm_request list \<Rightarrow> (bool \<times> CGroupName \<times> cgm_request list) option) \<Rightarrow> CGroupName list \<Rightarrow>
      cgm_request list \<Rightarrow> (bool \<times> CGroupName list \<times> cgm_request list) option" where
  "setup_names f [] reqs = Some (True, [], reqs)"
| "setup_names f (cgname # names) reqs = do {
     (ok, cgname, reqs) \<leftarrow> f cgname reqs;
     if ok then do {
       (ok, names, reqs) \<leftarrow> setup_names f names reqs;
       Some (ok, cgname # names, reqs)
     } else Some (False, cgname # names, reqs)
   }"

fun setup_groups ::
    "(string \<Rightarrow> CGroupName \<Rightarrow> cgm_request list \<Rightarrow> (bool \<times> CGroupName \<times> cgm_request list) option) \<Rightarrow> CGroup list \<Rightarrow>
      cgm_request list \<Rightarrow> (bool \<times> CGroup list \<times> cgm_request list) option" where
  "setup_groups f [] reqs = Some (True, [], reqs)"
| "setup_groups f (cgroup # cgroups) reqs = do {
     (ok, names, reqs) \<leftarrow> setup_names (f (cg_controller cgroup)) (cg_names cgroup) reqs;
     let cgroup = cgroup\<lparr>cg_names := names\<rparr>;
     if ok then do {
       (ok, cgroups, reqs) \<leftarrow> setup_groups f cgroups reqs;
       Some (ok, cgroup # cgroups, reqs)
     } else Some (False, cgroup # cgroups, reqs)
   }"

text \<open>\<open>ids\<close> are the ids of the caller, \<open>available\<close> is \<^verbatim>\<open>cgroup_manager_available\<close>.\<close>

definition cgroup_setup ::
    "cgroup_manager \<Rightarrow> (string \<Rightarrow> string option) \<Rightarrow> bool \<Rightarrow> bool \<Rightarrow> bool \<Rightarrow> int \<times> int \<Rightarrow> string list \<Rightarrow>
      int \<Rightarrow> int \<Rightarrow> CGroup list \<Rightarrow> cgm_request list \<Rightarrow> (bool \<times> CGroup list \<times> cgm_request list) option" where
  "cgroup_setup manager genv disabled available user_mode ids env uid gid cgroups reqs =
     (if \<not> cgroup_support_enabled disabled then Some (True, cgroups, reqs)
      else do {
        nih_assert available;
        if cgroups = [] then Some (True, cgroups, reqs)
        else do {
          cgroup_env \<leftarrow> cgroup_env genv env;
          setup_groups (setup_name manager user_mode (ids = (uid, gid)) uid gid cgroup_env) cgroups reqs
        }
      })"

text \<open>All groups are entered, or removed when they are empty, until the manager refuses.\<close>

fun ask_all :: "(cgm_request list \<Rightarrow> bool) \<Rightarrow> cgm_request list \<Rightarrow> cgm_request list \<Rightarrow> bool \<times> cgm_request list" where
  "ask_all answer [] reqs = (True, reqs)"
| "ask_all answer (r # rs) reqs =
     (let (ok, reqs) = ask answer r reqs in if ok then ask_all answer rs reqs else (False, reqs))"

definition group_paths :: "CGroup list \<Rightarrow> (string \<times> string) list" where
  "group_paths cgroups = concat (map (\<lambda>g. map (\<lambda>n. (cg_controller g, cgroup_path n)) (cg_names g)) cgroups)"

fun enter_all ::
    "cgroup_manager \<Rightarrow> int \<Rightarrow> (string \<times> string) list \<Rightarrow> cgm_request list \<Rightarrow> (bool \<times> cgm_request list) option" where
  "enter_all manager pid [] reqs = Some (True, reqs)"
| "enter_all manager pid ((controller, path) # paths) reqs = do {
     (ok, reqs) \<leftarrow> cgroup_enter manager controller path pid reqs;
     if ok then enter_all manager pid paths reqs else Some (False, reqs)
   }"

definition cgroup_enter_groups ::
    "cgroup_manager \<Rightarrow> bool \<Rightarrow> bool \<Rightarrow> int \<Rightarrow> CGroup list \<Rightarrow> cgm_request list \<Rightarrow>
      (bool \<times> cgm_request list) option" where
  "cgroup_enter_groups manager disabled available pid cgroups reqs = do {
     nih_assert available;
     if \<not> cgroup_support_enabled disabled \<or> cgroups = [] then Some (True, reqs)
     else enter_all manager pid (group_paths cgroups) reqs
   }"

definition cgroup_clear ::
    "cgroup_manager \<Rightarrow> bool \<Rightarrow> CGroup list \<Rightarrow> cgm_request list \<Rightarrow> (bool \<times> cgm_request list) option" where
  "cgroup_clear manager disabled cgroups reqs = do {
     answer \<leftarrow> manager;
     if \<not> cgroup_support_enabled disabled \<or> cgroups = [] then Some (True, reqs)
     else Some (ask_all answer (map (\<lambda>(c, p). RemoveOnEmpty c p) (group_paths cgroups)) reqs)
   }"

section \<open>The groups as a table\<close>

text \<open>The value of a setting of a group.\<close>

definition name_get :: "CGroupName list \<Rightarrow> string \<Rightarrow> string \<Rightarrow> string option option" where
  "name_get names name key = do {
     cgname \<leftarrow> find (\<lambda>n. cn_name n = name) names;
     setting \<leftarrow> find (\<lambda>s. cs_key s = key) (cn_settings cgname);
     Some (cs_value setting)
   }"

definition group_get :: "CGroup list \<Rightarrow> string \<times> string \<times> string \<Rightarrow> string option option" where
  "group_get cgroups = (\<lambda>(controller, name, key). do {
     cgroup \<leftarrow> find (\<lambda>g. cg_controller g = controller) cgroups;
     name_get (cg_names cgroup) name key
   })"

text \<open>No two groups have the same controller, no two names in a group and no two settings of a name
  are the same.\<close>

definition names_ok :: "CGroupName list \<Rightarrow> bool" where
  "names_ok names \<longleftrightarrow> distinct (map cn_name names) \<and> (\<forall>n\<in>set names. distinct (map cs_key (cn_settings n)))"

definition groups_ok :: "CGroup list \<Rightarrow> bool" where
  "groups_ok cgroups \<longleftrightarrow> distinct (map cg_controller cgroups) \<and> (\<forall>g\<in>set cgroups. names_ok (cg_names g))"

lemma replace_setting_Some:
  "replace_setting key value settings = Some settings' \<Longrightarrow> map cs_key settings' = map cs_key settings \<and>
     find (\<lambda>s. cs_key s = k) settings' =
       (if k = key then map_option (\<lambda>s. s\<lparr>cs_value := value\<rparr>) (find (\<lambda>s. cs_key s = k) settings)
        else find (\<lambda>s. cs_key s = k) settings) \<and>
     key \<in> cs_key ` set settings"
  by (induction settings arbitrary: settings') (auto split: if_splits)

lemma replace_setting_None: "replace_setting key value settings = None \<longleftrightarrow> key \<notin> cs_key ` set settings"
  by (induction settings) auto

lemma find_Some_in: "key \<in> f ` set xs \<Longrightarrow> \<exists>x. find (\<lambda>x. f x = key) xs = Some x"
  by (induction xs) auto

lemma find_None_in: "key \<notin> f ` set xs \<Longrightarrow> find (\<lambda>x. f x = key) xs = None"
  by (auto simp: find_None_iff)

lemma add_to_names_absent:
  "name \<notin> cn_name ` set names \<Longrightarrow> add_to_names name key value names = (False, False, names)"
  by (induction names) auto

text \<open>Adding to the names of a group when the name is there.\<close>

lemma add_to_names_present:
  assumes "names_ok names" and "name \<in> cn_name ` set names"
  shows "\<exists>ret names'. add_to_names name (Some key) value names = (ret, True, names') \<and> names_ok names' \<and>
    map cn_name names' = map cn_name names \<and>
    (\<forall>n k. name_get names' n k = (if (n, k) = (name, key) then Some value else name_get names n k))"
  using assms
proof (induction names)
  case (Cons cgname names)
  show ?case
  proof (cases "cn_name cgname = name")
    case True
    then have rest: "add_to_names name (Some key) value names = (False, False, names)"
      using Cons.prems(1) by (intro add_to_names_absent) (auto simp: names_ok_def)
    show ?thesis
    proof (cases "replace_setting key value (cn_settings cgname)")
      case None
      moreover from this have "key \<notin> cs_key ` set (cn_settings cgname)" by (simp add: replace_setting_None)
      ultimately show ?thesis
        using True rest Cons.prems(1) find_None_in [of key cs_key "cn_settings cgname"]
        by (auto simp: names_ok_def name_get_def find_append cgroup_setting_new_def split: option.splits)
    next
      case (Some settings)
      note r = replace_setting_Some [OF Some]
      have "\<exists>s. find (\<lambda>s. cs_key s = key) (cn_settings cgname) = Some s"
        using r by (intro find_Some_in) blast
      then show ?thesis using True rest Cons.prems(1) Some r by (auto simp: names_ok_def name_get_def)
    qed
  next
    case False
    then obtain ret names' where "add_to_names name (Some key) value names = (ret, True, names')" "names_ok names'"
      "map cn_name names' = map cn_name names"
      "\<forall>n k. name_get names' n k = (if (n, k) = (name, key) then Some value else name_get names n k)"
      using Cons by (auto simp: names_ok_def)
    moreover from this have "cn_name ` set names' = cn_name ` set names" by (metis list.set_map)
    ultimately show ?thesis using False Cons.prems(1) by (auto simp: names_ok_def name_get_def)
  qed
qed simp

text \<open>One stanza changes one setting.\<close>

lemma new_name_get:
  "name_get [new_name name (Some key) value] n k = (if (n, k) = (name, key) then Some value else None)"
  by (simp add: name_get_def new_name_def cgroup_name_new_def cgroup_setting_new_def)

lemma add_to_names_new:
  assumes "names_ok names" and "name \<notin> cn_name ` set names"
  shows "names_ok (names @ [new_name name (Some key) value])"
    and "name_get (names @ [new_name name (Some key) value]) n k =
      (if (n, k) = (name, key) then Some value else name_get names n k)"
proof -
  show "names_ok (names @ [new_name name (Some key) value])"
    using assms by (auto simp: names_ok_def new_name_def cgroup_name_new_def)
  show "name_get (names @ [new_name name (Some key) value]) n k =
      (if (n, k) = (name, key) then Some value else name_get names n k)"
    using assms(2) find_None_in [of name cn_name names]
    by (auto simp: name_get_def find_append new_name_def cgroup_name_new_def cgroup_setting_new_def split: option.splits)
qed

lemma add_to_groups_absent:
  "controller \<notin> cg_controller ` set cgroups \<Longrightarrow>
     add_to_groups controller name key value found cgroups = (False, False, cgroups)"
  by (induction cgroups) auto

lemma add_to_groups_present:
  assumes "groups_ok cgroups" and "controller \<in> cg_controller ` set cgroups"
  shows "\<exists>ret cgroups'. add_to_groups controller name (Some key) value False cgroups = (ret, True, cgroups') \<and>
    groups_ok cgroups' \<and> map cg_controller cgroups' = map cg_controller cgroups \<and>
    (\<forall>c n k. group_get cgroups' (c, n, k) =
       (if (c, n, k) = (controller, name, key) then Some value else group_get cgroups (c, n, k)))"
  using assms
proof (induction cgroups)
  case (Cons g cgroups)
  show ?case
  proof (cases "cg_controller g = controller")
    case True
    then have rest: "add_to_groups controller name (Some key) value found cgroups = (False, False, cgroups)" for found
      using Cons.prems(1) by (intro add_to_groups_absent) (auto simp: groups_ok_def)
    have ok: "names_ok (cg_names g)" using Cons.prems(1) by (simp add: groups_ok_def)
    have "\<exists>ret names. add_to_groups controller name (Some key) value False (g # cgroups) = (ret, True, g\<lparr>cg_names := names\<rparr> # cgroups) \<and>
        names_ok names \<and>
        (\<forall>n k. name_get names n k = (if (n, k) = (name, key) then Some value else name_get (cg_names g) n k))"
    proof (cases "name \<in> cn_name ` set (cg_names g)")
      case in_names: True
      obtain ret names where "add_to_names name (Some key) value (cg_names g) = (ret, True, names)" "names_ok names"
        "\<forall>n k. name_get names n k = (if (n, k) = (name, key) then Some value else name_get (cg_names g) n k)"
        using add_to_names_present [OF ok in_names] by blast
      then show ?thesis using True rest by (intro exI [of _ ret] exI [of _ names]) auto
    next
      case False
      then show ?thesis
        using add_to_names_absent [OF False] add_to_names_new [OF ok False] True
        by (intro exI [of _ True] exI [of _ "cg_names g @ [new_name name (Some key) value]"]) simp
    qed
    then show ?thesis using True Cons.prems(1) by (auto simp: groups_ok_def group_get_def)
  next
    case False
    then obtain ret cgroups' where r: "add_to_groups controller name (Some key) value False cgroups = (ret, True, cgroups')"
      "groups_ok cgroups'" "map cg_controller cgroups' = map cg_controller cgroups"
      "\<forall>c n k. group_get cgroups' (c, n, k) =
         (if (c, n, k) = (controller, name, key) then Some value else group_get cgroups (c, n, k))"
      using Cons by (auto simp: groups_ok_def)
    moreover from this have "cg_controller ` set cgroups' = cg_controller ` set cgroups" by (metis list.set_map)
    ultimately show ?thesis using False Cons.prems(1) by (auto simp: groups_ok_def group_get_def)
  qed
qed simp

lemma cgroup_add_value:
  assumes "groups_ok cgroups"
  shows "\<exists>cgroups'. cgroup_add controller (Some name) (Some key) value cgroups = Some cgroups' \<and> groups_ok cgroups' \<and>
    (\<forall>c n k. group_get cgroups' (c, n, k) =
       (if (c, n, k) = (controller, name, key) then Some value else group_get cgroups (c, n, k)))"
proof (cases "controller \<in> cg_controller ` set cgroups")
  case True
  then show ?thesis using add_to_groups_present [OF assms True, of name key "value"] by (auto simp: cgroup_add_def)
next
  case False
  let ?new = "(cgroup_new controller)\<lparr>cg_names := [new_name name (Some key) value]\<rparr>"
  have "cgroup_add controller (Some name) (Some key) value cgroups = Some (cgroups @ [?new])"
    using add_to_groups_absent [OF False] by (simp add: cgroup_add_def)
  moreover have "groups_ok (cgroups @ [?new])"
    using assms False by (auto simp: groups_ok_def cgroup_new_def names_ok_def new_name_def cgroup_name_new_def)
  moreover have "group_get (cgroups @ [?new]) (c, n, k) =
      (if (c, n, k) = (controller, name, key) then Some value else group_get cgroups (c, n, k))" for c n k
    using False find_None_in [of controller cg_controller cgroups] new_name_get [of name key "value"]
    by (auto simp: group_get_def find_append cgroup_new_def split: option.splits)
  ultimately show ?thesis by blast
qed

text \<open>A stanza without a setting.\<close>

lemma add_to_names_no_key:
  "add_to_names name None value names = (False, name \<in> cn_name ` set names, names)"
  by (induction names) auto

lemma add_to_groups_no_key:
  assumes "groups_ok cgroups"
  shows "\<exists>ret cgroups'. add_to_groups controller name None value found cgroups =
      (ret, controller \<in> cg_controller ` set cgroups, cgroups') \<and> groups_ok cgroups' \<and>
    map cg_controller cgroups' = map cg_controller cgroups"
  using assms
proof (induction cgroups)
  case (Cons g cgroups)
  then obtain ret cgroups' where IH: "add_to_groups controller name None value found cgroups =
      (ret, controller \<in> cg_controller ` set cgroups, cgroups')" "groups_ok cgroups'"
    "map cg_controller cgroups' = map cg_controller cgroups" by (auto simp: groups_ok_def)
  then have controllers: "cg_controller ` set cgroups' = cg_controller ` set cgroups" by (metis list.set_map)
  show ?case
  proof (cases "cg_controller g = controller")
    case True
    then have "add_to_groups controller name None value True cgroups = (False, False, cgroups)"
      using Cons.prems by (intro add_to_groups_absent) (auto simp: groups_ok_def)
    moreover have "names_ok (cg_names g)" "groups_ok cgroups" using Cons.prems by (auto simp: groups_ok_def)
    moreover have "names_ok (cg_names g @ [new_name name None value])" if "name \<notin> cn_name ` set (cg_names g)"
      using that \<open>names_ok (cg_names g)\<close> by (auto simp: names_ok_def new_name_def cgroup_name_new_def)
    ultimately show ?thesis
      using True Cons.prems by (auto simp: add_to_names_no_key groups_ok_def)
  qed (use IH controllers Cons.prems in \<open>auto simp: groups_ok_def\<close>)
qed (auto simp: groups_ok_def intro: exI [of _ False])

lemma cgroup_add_ok:
  assumes ok: "groups_ok cgroups" and run: "cgroup_add controller name key value cgroups = Some cgroups'"
  shows "groups_ok cgroups'"
proof (cases key)
  case (Some k)
  let ?name = "case name of None \<Rightarrow> UPSTART_CGROUP_SHELL_ENVVAR | Some name \<Rightarrow> name"
  have "cgroup_add controller (Some ?name) (Some k) value cgroups = Some cgroups'"
    using run Some by (simp add: cgroup_add_def)
  then show ?thesis using cgroup_add_value [OF ok, of controller ?name k "value"] by auto
next
  case None
  let ?name = "case name of None \<Rightarrow> UPSTART_CGROUP_SHELL_ENVVAR | Some name \<Rightarrow> name"
  obtain ret cgroups1 where r: "add_to_groups controller ?name None value False cgroups =
      (ret, controller \<in> cg_controller ` set cgroups, cgroups1)" "groups_ok cgroups1"
      "map cg_controller cgroups1 = map cg_controller cgroups"
    using add_to_groups_no_key [OF ok] by blast
  then have "cg_controller ` set cgroups1 = cg_controller ` set cgroups" by (metis list.set_map)
  then show ?thesis
    using run None r
    by (auto simp: cgroup_add_def groups_ok_def cgroup_new_def names_ok_def new_name_def cgroup_name_new_def split: if_splits)
qed

text \<open>The settings of the groups are a table.\<close>

record setting_stanza =
  st_controller :: string
  st_name :: string
  st_key :: string
  st_value :: "string option"

definition add_stanza :: "setting_stanza \<Rightarrow> CGroup list \<Rightarrow> CGroup list" where
  "add_stanza st cgroups =
     (case cgroup_add (st_controller st) (Some (st_name st)) (Some (st_key st)) (st_value st) cgroups of
        None \<Rightarrow> cgroups | Some cgroups \<Rightarrow> cgroups)"

interpretation cg: kv_table group_get add_stanza "\<lambda>st. (st_controller st, st_name st, st_key st)" st_value
  "\<lambda>_. True" "\<lambda>_. True" groups_ok
proof
  fix t :: "CGroup list" and x :: setting_stanza and k
  assume ok: "groups_ok t"
  note v = cgroup_add_value [OF ok, of "st_controller x" "st_name x" "st_key x" "st_value x"]
  show "group_get (add_stanza x t) k = (if k = (st_controller x, st_name x, st_key x) then Some (st_value x) else group_get t k)"
    using v by (cases k) (auto simp: add_stanza_def)
  show "groups_ok (add_stanza x t)" using v by (auto simp: add_stanza_def)
qed

section \<open>Properties\<close>

text \<open>C32: the groups of a class hold for every controller, name and key the value of the last \<^verbatim>\<open>cgroup\<close>
  stanza for them, whatever the order of the stanzas: each adds its setting where its group and name
  are, making them if needed, replaces the value of a setting that is there already, and leaves
  everything else as it was; no group, name or setting is doubled.\<close>

theorem cgroup_add_last_wins:
  assumes "groups_ok cgroups"
  shows "groups_ok (fold add_stanza stanzas cgroups) \<and>
    group_get (fold add_stanza stanzas cgroups) (controller, name, key) =
      (case map_of (rev (map (\<lambda>st. ((st_controller st, st_name st, st_key st), st_value st)) stanzas)) (controller, name, key) of
         Some v \<Rightarrow> Some v | None \<Rightarrow> group_get cgroups (controller, name, key))"
  using cg.inv_fold_put [OF assms] cg.get_fold_put [OF assms] by simp


lemma expand_shell_envvar:
  assumes "environ_get env UPSTART_CGROUP_ENVVAR = Some v"
  shows "environ_expand env UPSTART_CGROUP_SHELL_ENVVAR = Inr v"
proof -
  have name: "UPSTART_CGROUP_SHELL_ENVVAR = CHR ''$'' # CHR ''U'' # ''PSTART_CGROUP''"
    by (simp add: UPSTART_CGROUP_SHELL_ENVVAR_def UPSTART_CGROUP_ENVVAR_def)
  have chars: "takeWhile is_name_char ''PSTART_CGROUP'' = ''PSTART_CGROUP''" "dropWhile is_name_char ''PSTART_CGROUP'' = []"
    by (simp_all add: is_name_char_def is_name_start_def)
  have "expand_value env OP_VALUE False (CHR ''U'' # ''PSTART_CGROUP'') [] = Inr v"
    using assms by (simp add: expand_value_def environ_get_def UPSTART_CGROUP_ENVVAR_def)
  then have "expands env [] (CHR ''$'' # CHR ''U'' # ''PSTART_CGROUP'') (emit v (Inr ([], [])))"
    using simple [of "CHR ''U''" env "''PSTART_CGROUP''" v "[]" "Inr ([], [])", unfolded chars] at_end
    by (simp add: is_name_start_def)
  then show ?thesis unfolding name by (intro environ_expandI) simp
qed

lemma cgroup_env_lookup:
  assumes "cgroup_env genv env = Some e" and "\<forall>x\<in>set env. entry_valid x"
    and "environ_get (environ_append genv True env []) ''UPSTART_JOB'' = Some job"
    and "environ_get (environ_append genv True env []) ''UPSTART_INSTANCE'' = Some inst"
  shows "environ_get e UPSTART_CGROUP_ENVVAR = Some (upstart_cgroup job inst)"
proof -
  let ?entry = "UPSTART_CGROUP_ENVVAR @ ''='' @ upstart_cgroup job inst"
  have "env_ok (environ_append genv True env [])"
    using env.inv_fold_put [of "[]" env genv] assms(2) by (simp add: environ_append_fold env_ok_def)
  moreover have "entry_valid ?entry" "entry_key ?entry = UPSTART_CGROUP_ENVVAR" "entry_val ?entry = upstart_cgroup job inst"
    "key_valid UPSTART_CGROUP_ENVVAR"
    by (simp_all add: entry_valid_def entry_key_def entry_val_def key_valid_def UPSTART_CGROUP_ENVVAR_def)
  moreover have "e = environ_add genv True ?entry (environ_append genv True env [])"
    using assms(1,3,4) by (simp add: cgroup_env_def)
  ultimately show ?thesis using env.get_put by simp
qed

lemma cgroup_name_remap_Cons [simp]: "cgroup_name_remap [] = []"
  "cgroup_name_remap (c # s) = (if c = CHR ''/'' then CHR ''_'' else c) # cgroup_name_remap s"
  by (simp_all add: cgroup_name_remap_def)

lemma cgroup_name_remap_simps [simp]:
  "cgroup_name_remap (xs @ ys) = cgroup_name_remap xs @ cgroup_name_remap ys"
  "cgroup_name_remap (cgroup_name_remap xs) = cgroup_name_remap xs"
  "length (cgroup_name_remap xs) = length xs"
  "drop n (cgroup_name_remap xs) = cgroup_name_remap (drop n xs)"
  "take n (cgroup_name_remap xs) = cgroup_name_remap (take n xs)"
  by (simp_all add: cgroup_name_remap_def drop_map take_map)

text \<open>C33: the path of the group of a job that names none, which should be \<^verbatim>\<open>upstart/\<close> with the job and
  its instance. Slashes are replaced from the position after the length of the variable's name, in a
  text where the variable's value stands: the slash after \<^verbatim>\<open>upstart\<close> is kept only when the name of the
  job has more than seven characters.\<close>

theorem default_cgroup_path:
  assumes "cgroup_env genv env = Some e" and "\<forall>x\<in>set env. entry_valid x"
    and "environ_get (environ_append genv True env []) ''UPSTART_JOB'' = Some job"
    and "environ_get (environ_append genv True env []) ''UPSTART_INSTANCE'' = Some inst"
    and "suffix = cgroup_name_remap (job @ (if inst \<noteq> [] then ''-'' @ inst else []))"
  shows "map_option cgroup_path (expand_name e (cgroup_name_new UPSTART_CGROUP_SHELL_ENVVAR)) =
    Some (if length suffix > 7 then ''upstart/'' @ suffix else ''upstart_'' @ suffix)"
proof -
  have "environ_expand e UPSTART_CGROUP_SHELL_ENVVAR = Inr (''upstart/'' @ suffix)"
    using expand_shell_envvar [OF cgroup_env_lookup [OF assms(1-4)]] assms(5) by (simp add: upstart_cgroup_def)
  moreover have n: "length UPSTART_CGROUP_SHELL_ENVVAR = 15" and "strstr UPSTART_CGROUP_SHELL_ENVVAR UPSTART_CGROUP_SHELL_ENVVAR = Some 0"
    by (simp_all add: UPSTART_CGROUP_SHELL_ENVVAR_def UPSTART_CGROUP_ENVVAR_def)
  moreover have "cgroup_name_remap suffix = suffix" using assms(5) by simp
  moreover have "take 15 (''upstart/'' @ suffix) @ cgroup_name_remap (drop 15 (''upstart/'' @ suffix)) = ''upstart/'' @ suffix"
  proof -
    have "cgroup_name_remap (drop 7 suffix) = drop 7 suffix" using assms(5) by (metis cgroup_name_remap_simps(2,4))
    then show ?thesis by simp
  qed
  ultimately show ?thesis
    by (auto simp: expand_name_def cgroup_name_new_def cgroup_path_def Let_def)
qed


definition sample_cgroup_env :: "string \<Rightarrow> string list" where
  "sample_cgroup_env job = [''UPSTART_JOB='' @ job, ''UPSTART_INSTANCE='']"

lemma sample_cgroup_env_get:
  assumes "job \<in> {''cron'', ''network-manager''}"
  shows "\<forall>x\<in>set (sample_cgroup_env job). entry_valid x"
    and "environ_get (environ_append (\<lambda>_. None) True (sample_cgroup_env job) []) ''UPSTART_JOB'' = Some job"
    and "environ_get (environ_append (\<lambda>_. None) True (sample_cgroup_env job) []) ''UPSTART_INSTANCE'' = Some []"
  using assms by (elim insertE emptyE; simp add: sample_cgroup_env_def entry_valid_def; code_simp)+

theorem default_cgroup_path_witness:
  "\<exists>e f. map_option cgroup_path (expand_name e (cgroup_name_new UPSTART_CGROUP_SHELL_ENVVAR)) = Some ''upstart_cron'' \<and>
     map_option cgroup_path (expand_name f (cgroup_name_new UPSTART_CGROUP_SHELL_ENVVAR)) = Some ''upstart/network-manager''"
proof -
  have e: "\<exists>e. cgroup_env (\<lambda>_. None) (sample_cgroup_env job) = Some e" if "job \<in> {''cron'', ''network-manager''}" for job
    using sample_cgroup_env_get(2,3) [OF that] by (simp add: cgroup_env_def)
  show ?thesis
    using e [of "''cron''"] e [of "''network-manager''"]
      default_cgroup_path [OF _ sample_cgroup_env_get [of "''cron''"] refl]
      default_cgroup_path [OF _ sample_cgroup_env_get [of "''network-manager''"] refl]
    by (fastforce simp: cgroup_name_remap_def)
qed

definition sample_stanzas :: "setting_stanza list" where
  "sample_stanzas =
     [\<lparr>st_controller = ''cpu'', st_name = ''a'', st_key = ''shares'', st_value = Some ''10''\<rparr>,
      \<lparr>st_controller = ''cpu'', st_name = ''b'', st_key = ''shares'', st_value = Some ''20''\<rparr>,
      \<lparr>st_controller = ''cpu'', st_name = ''a'', st_key = ''shares'', st_value = Some ''30''\<rparr>]"

theorem cgroup_add_last_wins_witness:
  "group_get (fold add_stanza sample_stanzas []) (''cpu'', ''a'', ''shares'') = Some (Some ''30'')"
proof -
  have "groups_ok []" by (simp add: groups_ok_def)
  moreover have "map_of (rev (map (\<lambda>st. ((st_controller st, st_name st, st_key st), st_value st)) sample_stanzas))
      (''cpu'', ''a'', ''shares'') = Some (Some ''30'')"
    by (simp add: sample_stanzas_def)
  ultimately show ?thesis
    using cgroup_add_last_wins [of "[]" sample_stanzas "''cpu''" "''a''" "''shares''"] by simp
qed

end
