(* ===== verification/Objects.thy ===== *)
theory Objects
  imports EventOperator Cgroup
begin

text \<open>
  The objects of the daemon and the state it keeps: \<^verbatim>\<open>Process\<close>, \<^verbatim>\<open>JobClass\<close>, \<^verbatim>\<open>Job\<close> and
  \<^verbatim>\<open>JobProcessData\<close> (\<^verbatim>\<open>src/init/process.h\<close>, \<^verbatim>\<open>job_class.h\<close>, \<^verbatim>\<open>job.h\<close>), and the global variables.

  Objects are numbered; a pointer is a number. The state \<open>sys\<close> holds the list of events, a store
  of classes and a store of jobs, the order in which the hash tables \<^verbatim>\<open>job_classes\<close> and
  \<^verbatim>\<open>class->instances\<close> are iterated, the configuration sources,
  the control connections, and the list of what was sent outside (signals and replies on D-Bus,
  signals to processes, spawned processes).

  \<open>os\<close> stands for the world: what is not part of the repository (the kernel, libnih). Answers that
  may change with time are functions of the number of calls made so far.

  An operation on a job takes the state and the job and returns both; the job is \<open>None\<close> once it has
  been freed. The whole result is \<open>None\<close> where the code aborts or touches a freed object. Memory
  allocation does not fail, and log messages and the logging of the output of jobs are left out.
\<close>

section \<open>Data\<close>

record Process =
  p_script :: bool
  p_command :: "string option"

text \<open>The arrays indexed by process type are functions. \<open>c_limits\<close> lists the resource limits that are
  set. The name pattern is NULL and the console (ConsoleType)-1, here \<open>None\<close>, after a stanza that could not be parsed.\<close>

record JobClass =
  c_name :: string
  c_path :: string
  c_instance :: "string option"
  c_description :: "string option"
  c_author :: "string option"
  c_version :: "string option"
  c_env :: "string list"
  c_export :: "string list"
  c_start_on :: "EventOperator option"
  c_stop_on :: "EventOperator option"
  c_emits :: "string list"
  c_process :: "ProcessType \<Rightarrow> Process option"
  c_expect :: ExpectType
  c_task :: bool
  c_kill_timeout :: int
  c_kill_signal :: int
  c_reload_signal :: int
  c_respawn :: bool
  c_respawn_limit :: int
  c_respawn_interval :: int
  c_normalexit :: "int list"
  c_console :: "ConsoleType option"
  c_umask :: int
  c_nice :: int
  c_oom_score_adj :: int
  c_limits :: "(nat \<times> int \<times> int) list"
  c_chroot :: "string option"
  c_chdir :: "string option"
  c_setuid :: "string option"
  c_setgid :: "string option"
  c_deleted :: bool
  c_debug :: bool
  c_usage :: "string option"
  c_apparmor_switch :: "string option"
  c_cgroups :: "CGroup list"
  c_cgmanager_wait :: bool

text \<open>\<open>pd_shell\<close> is true while the pipe to the shell is open.\<close>

record JobProcessData =
  pd_script :: "string option"
  pd_shell :: bool
  pd_fd_open :: bool
  pd_status :: int
  pd_valid :: bool

text \<open>\<open>j_kill_timer\<close> is the time after which the timer fires.\<close>

record Job =
  j_id :: nat
  j_name :: string
  j_class :: nat
  j_path :: string
  j_goal :: JobGoal
  j_state :: JobState
  j_env :: "string list"
  j_start_env :: "string list option"
  j_stop_env :: "string list option"
  j_stop_on :: "EventOperator option"
  j_fds :: "int list"
  j_pid :: "ProcessType \<Rightarrow> int"
  j_blocker :: "nat option"
  j_blocking :: "Blocked list"
  j_kill_timer :: "int option"
  j_kill_process :: ProcessType
  j_failed :: bool
  j_failed_process :: ProcessType
  j_exit_status :: int
  j_respawn_time :: int
  j_respawn_count :: int
  j_trace_forks :: int
  j_trace_state :: TraceState
  j_process_data :: "ProcessType \<Rightarrow> JobProcessData option"

text \<open>What is sent outside. The first argument of a signal is the connection, that of a reply the
  message that is answered.\<close>

datatype reply =
    StartReply string
  | StopReply
  | RestartReply string
  | InstanceStartReply
  | InstanceStopReply
  | InstanceRestartReply
  | ReloadReply
  | EmitReply
  | ErrorReply string

datatype msg_out =
    ObjectNew nat string
  | ObjectUnregistered nat string
  | JobAdded nat string
  | JobRemoved nat string
  | InstanceAdded nat string string
  | InstanceRemoved nat string string
  | GoalChanged nat string "string option"
  | StateChanged nat string "string option"
  | JobFailedSignal nat string int
  | EventEmitted nat string "string list"
  | Restarted nat
  | ActivationEnvironment string string
  | Reply nat reply
  | Spawned int ProcessType "string list" "string list" bool
  | ReadyFdWatched nat
  | ScriptSent int string
  | Killed int int
  | Ptraced int string
  | MainLoopInterrupt
  | MainLoopExit int
  | ClosedFd int

text \<open>The static variables of \<^verbatim>\<open>src/init/quiesce.c\<close>, and whether the timer of its callback is
  registered.\<close>

datatype QuiesceRequester =
    QUIESCE_REQUESTER_INVALID
  | QUIESCE_REQUESTER_SYSTEM
  | QUIESCE_REQUESTER_SESSION

datatype QuiescePhase =
    QUIESCE_PHASE_NOT_QUIESCED
  | QUIESCE_PHASE_WAIT
  | QUIESCE_PHASE_KILL
  | QUIESCE_PHASE_CLEANUP

record quiesce_vars =
  q_requester :: QuiesceRequester
  q_phase :: QuiescePhase
  q_max_kill_timeout :: int
  q_phase_time :: int
  q_start_time :: int
  q_session_end_jobs :: bool
  q_finalising :: bool
  q_timer :: bool

text \<open>Sources of configuration (\<^verbatim>\<open>src/init/conf.h\<close>). \<open>f_job\<close> is the class that was parsed from the file,
  \<open>cs_watch\<close> the path that the watch is on. The hash table of the files is a list.\<close>

datatype ConfSourceType = CONF_FILE | CONF_DIR | CONF_JOB_DIR

record ConfFile =
  f_path :: string
  f_flag :: bool
  f_job :: "nat option"

record ConfSource =
  cs_path :: string
  cs_type :: ConfSourceType
  cs_watch :: "string option"
  cs_flag :: bool
  cs_files :: "ConfFile list"

record sys =
  s_events :: "Event list"
  s_classes :: "nat \<Rightarrow> JobClass option"
  s_registered :: "nat list"
  s_conf :: "ConfSource list"
  s_jobs :: "nat \<Rightarrow> Job option"
  s_instances :: "nat list"
  s_conns :: "nat list"
  s_next :: nat
  s_calls :: nat
  s_out :: "msg_out list"
  s_job_environ :: "string list option"
  s_user_mode :: bool
  s_no_inherit_env :: bool
  s_disable_respawn :: bool
  s_default_console :: "ConsoleType option"
  s_initial_umask :: int
  s_server_address :: string
  s_cgroup_manager :: "string option"
  s_quiesce :: quiesce_vars

text \<open>The state before anything has happened.\<close>

definition sys_init :: sys where
  "sys_init = \<lparr>s_events = [], s_classes = (\<lambda>_. None), s_registered = [], s_conf = [],
     s_jobs = (\<lambda>_. None), s_instances = [], s_conns = [], s_next = 0, s_calls = 0, s_out = [],
     s_job_environ = None, s_user_mode = False, s_no_inherit_env = False, s_disable_respawn = False,
     s_default_console = None, s_initial_umask = 18, s_server_address = [], s_cgroup_manager = None,
     s_quiesce = \<lparr>q_requester = QUIESCE_REQUESTER_INVALID, q_phase = QUIESCE_PHASE_NOT_QUIESCED,
       q_max_kill_timeout = 0, q_phase_time = 0, q_start_time = 0, q_session_end_jobs = False,
       q_finalising = False, q_timer = False\<rparr>\<rparr>"

text \<open>The world: \<^verbatim>\<open>getenv\<close>; init's own environment; whether AppArmor is available; the process id of the next successful \<^verbatim>\<open>fork\<close>; the process
  group of a process; whether \<^verbatim>\<open>kill\<close> and \<^verbatim>\<open>ptrace\<close> succeed and
  what \<^verbatim>\<open>PTRACE_GETEVENTMSG\<close> reads; the monotonic clock and the time of day; and \<^verbatim>\<open>nih_signal_to_name\<close>, \<^verbatim>\<open>nih_dbus_path\<close>
  and \<^verbatim>\<open>nih_str_split\<close> of libnih.\<close>

record os =
  os_getenv :: "string \<Rightarrow> string option"
  os_environ :: "string list"
  os_apparmor :: "nat \<Rightarrow> bool"
  os_fork :: "nat \<Rightarrow> int"
  os_getpgid :: "nat \<Rightarrow> int"
  os_kill :: "nat \<Rightarrow> bool"
  os_ptrace :: "nat \<Rightarrow> bool"
  os_ptrace_msg :: "nat \<Rightarrow> int"
  os_now :: "nat \<Rightarrow> int"
  os_time :: "nat \<Rightarrow> int"
  os_signal_name :: "int \<Rightarrow> string option"
  os_dbus_path :: "string list \<Rightarrow> string"
  os_str_split :: "string \<Rightarrow> string list"

type_synonym job_result = "(sys \<times> Job option) option"

section \<open>Helpers\<close>

definition call :: "(nat \<Rightarrow> 'a) \<Rightarrow> sys \<Rightarrow> 'a \<times> sys" where
  "call f s = (f (s_calls s), s\<lparr>s_calls := s_calls s + 1\<rparr>)"

definition send :: "msg_out list \<Rightarrow> sys \<Rightarrow> sys" where
  "send outs s = s\<lparr>s_out := s_out s @ outs\<rparr>"

text \<open>A signal to every control connection.\<close>

definition send_conns :: "(nat \<Rightarrow> msg_out) \<Rightarrow> sys \<Rightarrow> sys" where
  "send_conns f s = send (map f (s_conns s)) s"

text \<open>\<open>s_cgroup_manager\<close> is the address of the cgroup manager.\<close>

definition cgroup_manager_available :: "sys \<Rightarrow> bool" where
  "cgroup_manager_available s \<longleftrightarrow> s_cgroup_manager s \<noteq> None"

definition cgroup_manager_set_address :: "string \<Rightarrow> sys \<Rightarrow> sys" where
  "cgroup_manager_set_address address s = s\<lparr>s_cgroup_manager := Some address\<rparr>"

text \<open>The class of a job and the state of the rest of the operation, as long as the job is there.\<close>

definition class_of :: "sys \<Rightarrow> Job \<Rightarrow> JobClass option" where
  "class_of s job = s_classes s (j_class job)"

definition on_job :: "(sys \<Rightarrow> Job \<Rightarrow> job_result) \<Rightarrow> job_result \<Rightarrow> job_result" where
  "on_job f r = do {
     (s, job) \<leftarrow> r;
     job \<leftarrow> job;
     f s job
   }"

text \<open>The instances of a class, in the order of its hash table.\<close>

definition class_instances :: "sys \<Rightarrow> nat \<Rightarrow> nat list" where
  "class_instances s cid =
     filter (\<lambda>jid. case s_jobs s jid of None \<Rightarrow> False | Some job \<Rightarrow> j_class job = cid) (s_instances s)"

definition set_events :: "Event list \<Rightarrow> sys \<Rightarrow> sys" where
  "set_events evs s = s\<lparr>s_events := evs\<rparr>"

definition set_job :: "Job \<Rightarrow> sys \<Rightarrow> sys" where
  "set_job job s = s\<lparr>s_jobs := (s_jobs s)(j_id job \<mapsto> job)\<rparr>"

definition set_class :: "nat \<Rightarrow> JobClass \<Rightarrow> sys \<Rightarrow> sys" where
  "set_class cid cls s = s\<lparr>s_classes := (s_classes s)(cid \<mapsto> cls)\<rparr>"

text \<open>The classes of the files of job directories, in order of priority: the order in which
  \<^verbatim>\<open>conf_select_job\<close> looks at them.\<close>

definition source_jobs :: "ConfSource \<Rightarrow> nat list" where
  "source_jobs source = (if cs_type source = CONF_JOB_DIR then List.map_filter f_job (cs_files source) else [])"

definition conf_jobs :: "ConfSource list \<Rightarrow> nat list" where
  "conf_jobs srcs = concat (map source_jobs srcs)"

definition s_sources :: "sys \<Rightarrow> nat list" where
  "s_sources s = conf_jobs (s_conf s)"

lemma conf_jobs_simps [simp]: "conf_jobs [] = []" "conf_jobs (source # srcs) = source_jobs source @ conf_jobs srcs"
  by (simp_all add: conf_jobs_def)

lemma s_sources_conf [simp]: "s_sources (s\<lparr>s_conf := srcs\<rparr>) = conf_jobs srcs"
  by (simp add: s_sources_def)

lemma s_sources_state [simp]:
  "s_sources \<lparr>s_events = x0, s_classes = x1, s_registered = x2, s_conf = x3, s_jobs = x4, s_instances = x5,
     s_conns = x6, s_next = x7, s_calls = x8, s_out = x9, s_job_environ = x10, s_user_mode = x11,
     s_no_inherit_env = x12, s_disable_respawn = x13, s_default_console = x14, s_initial_umask = x15,
     s_server_address = x16, s_cgroup_manager = x17, s_quiesce = x18\<rparr> =
     conf_jobs x3"
  by (simp add: s_sources_def)

lemma s_sources_upd [simp]:
  "s_sources (s\<lparr>s_events := events\<rparr>) = s_sources s" "s_sources (s\<lparr>s_classes := classes\<rparr>) = s_sources s"
  "s_sources (s\<lparr>s_registered := reg\<rparr>) = s_sources s" "s_sources (s\<lparr>s_jobs := jobs\<rparr>) = s_sources s"
  "s_sources (s\<lparr>s_instances := insts\<rparr>) = s_sources s" "s_sources (s\<lparr>s_conns := conns\<rparr>) = s_sources s"
  "s_sources (s\<lparr>s_next := n\<rparr>) = s_sources s" "s_sources (s\<lparr>s_calls := n\<rparr>) = s_sources s"
  "s_sources (s\<lparr>s_out := out\<rparr>) = s_sources s" "s_sources (s\<lparr>s_job_environ := env\<rparr>) = s_sources s"
  "s_sources (s\<lparr>s_user_mode := b\<rparr>) = s_sources s" "s_sources (s\<lparr>s_no_inherit_env := b\<rparr>) = s_sources s"
  "s_sources (s\<lparr>s_disable_respawn := b\<rparr>) = s_sources s" "s_sources (s\<lparr>s_default_console := c\<rparr>) = s_sources s"
  "s_sources (s\<lparr>s_initial_umask := m\<rparr>) = s_sources s" "s_sources (s\<lparr>s_server_address := a\<rparr>) = s_sources s"
  "s_sources (s\<lparr>s_cgroup_manager := g\<rparr>) = s_sources s" "s_sources (s\<lparr>s_quiesce := q\<rparr>) = s_sources s"
  by (simp_all add: s_sources_def)

lemma s_sources_cong: "s_conf s' = s_conf s \<Longrightarrow> s_sources s' = s_sources s"
  by (simp add: s_sources_def)

text \<open>A new event, with the number of the next new object.\<close>

definition event_create :: "string \<Rightarrow> string list \<Rightarrow> sys \<Rightarrow> (nat \<times> sys) option" where
  "event_create name env s = do {
     evs \<leftarrow> event_new (s_next s) name env (s_events s);
     Some (s_next s, send [MainLoopInterrupt] (s\<lparr>s_events := evs, s_next := s_next s + 1\<rparr>))
   }"

end
