(* ===== verification/ClassTable.thy ===== *)
theory ClassTable
  imports Objects
begin

text \<open>
  The table of job classes (\<^verbatim>\<open>job_classes\<close>): which of the classes that the configuration sources
  define under a name is the registered one. Functions of \<^verbatim>\<open>src/init/job_class.c\<close>, \<^verbatim>\<open>job_register\<close> of
  \<^verbatim>\<open>src/init/job.c\<close> and \<^verbatim>\<open>conf_select_job\<close> of \<^verbatim>\<open>src/init/conf.c\<close>.

  \<open>table_ok\<close>: the registered classes exist and no name is registered twice. Every operation keeps
  it; \<^verbatim>\<open>job_class_consider\<close> and \<^verbatim>\<open>job_class_reconsider\<close> make the best class of a name the
  registered one unless the class it replaces still has instances.
\<close>

section \<open>Operations\<close>

text \<open>\<^verbatim>\<open>job_class_new\<close>: a class with the default settings.\<close>

definition JOB_DEFAULT_KILL_TIMEOUT :: int where "JOB_DEFAULT_KILL_TIMEOUT = 5"
definition JOB_DEFAULT_RESPAWN_LIMIT :: int where "JOB_DEFAULT_RESPAWN_LIMIT = 10"
definition JOB_DEFAULT_RESPAWN_INTERVAL :: int where "JOB_DEFAULT_RESPAWN_INTERVAL = 5"
definition JOB_DEFAULT_UMASK :: int where "JOB_DEFAULT_UMASK = 18"
definition JOB_NICE_INVALID :: int where "JOB_NICE_INVALID = -21"
definition JOB_DEFAULT_OOM_SCORE_ADJ :: int where "JOB_DEFAULT_OOM_SCORE_ADJ = 0"

definition SIGTERM :: int where "SIGTERM = 15"
definition SIGHUP :: int where "SIGHUP = 1"
definition DBUS_PATH_UPSTART :: string where "DBUS_PATH_UPSTART = ''/com/ubuntu/Upstart''"

definition job_class_new :: "os \<Rightarrow> sys \<Rightarrow> string \<Rightarrow> JobClass option" where
  "job_class_new w s name = do {
     nih_assert (length name > 0);
     Some \<lparr>c_name = name,
       c_path = os_dbus_path w [DBUS_PATH_UPSTART, ''jobs'', name],
       c_instance = Some [], c_description = None, c_author = None, c_version = None,
       c_env = [], c_export = [], c_start_on = None, c_stop_on = None, c_emits = [],
       c_process = (\<lambda>_. None), c_expect = EXPECT_NONE, c_task = False,
       c_kill_timeout = JOB_DEFAULT_KILL_TIMEOUT, c_kill_signal = SIGTERM,
       c_reload_signal = SIGHUP, c_respawn = False,
       c_respawn_limit = JOB_DEFAULT_RESPAWN_LIMIT,
       c_respawn_interval = JOB_DEFAULT_RESPAWN_INTERVAL,
       c_normalexit = [],
       c_console = Some (case s_default_console s of None \<Rightarrow> CONSOLE_LOG | Some c \<Rightarrow> c),
       c_umask = (if s_user_mode s \<and> \<not> s_no_inherit_env s then s_initial_umask s else JOB_DEFAULT_UMASK),
       c_nice = JOB_NICE_INVALID, c_oom_score_adj = JOB_DEFAULT_OOM_SCORE_ADJ,
       c_limits = [], c_chroot = None, c_chdir = None, c_setuid = None, c_setgid = None,
       c_deleted = False, c_debug = False, c_usage = None, c_apparmor_switch = None,
       c_cgroups = [], c_cgmanager_wait = False\<rparr>
   }"

definition class_name :: "sys \<Rightarrow> nat \<Rightarrow> string option" where
  "class_name s cid = map_option c_name (s_classes s cid)"

definition conf_select_job :: "string \<Rightarrow> sys \<Rightarrow> nat option" where
  "conf_select_job name s = find (\<lambda>cid. class_name s cid = Some name) (s_sources s)"

definition job_class_get_registered :: "string \<Rightarrow> sys \<Rightarrow> nat option" where
  "job_class_get_registered name s = find (\<lambda>cid. class_name s cid = Some name) (s_registered s)"

definition job_register :: "Job \<Rightarrow> nat \<Rightarrow> bool \<Rightarrow> sys \<Rightarrow> sys option" where
  "job_register job conn signal s = do {
     cls \<leftarrow> class_of s job;
     let s = send [ObjectNew conn (j_path job)] s;
     Some (if signal then send [InstanceAdded conn (c_path cls) (j_path job)] s else s)
   }"

definition job_class_register :: "nat \<Rightarrow> nat \<Rightarrow> bool \<Rightarrow> sys \<Rightarrow> sys option" where
  "job_class_register cid conn signal s = do {
     cls \<leftarrow> s_classes s cid;
     let s = send [ObjectNew conn (c_path cls)] s;
     let s = (if signal then send [JobAdded conn (c_path cls)] s else s);
     foldM (\<lambda>jid s. do { job \<leftarrow> s_jobs s jid; job_register job conn signal s })
       (class_instances s cid) s
   }"

definition job_class_unregister :: "nat \<Rightarrow> nat \<Rightarrow> sys \<Rightarrow> sys option" where
  "job_class_unregister cid conn s = do {
     cls \<leftarrow> s_classes s cid;
     nih_assert (class_instances s cid = []);
     let s = send [ObjectUnregistered conn (c_path cls)] s;
     Some (send [JobRemoved conn (c_path cls)] s)
   }"

definition job_class_add :: "nat option \<Rightarrow> sys \<Rightarrow> sys option" where
  "job_class_add class s =
     (case class of
        None \<Rightarrow> Some s
      | Some cid \<Rightarrow>
          foldM (\<lambda>conn. job_class_register cid conn True) (s_conns s)
            (s\<lparr>s_registered := s_registered s @ [cid]\<rparr>))"

definition job_class_add_safe :: "nat \<Rightarrow> sys \<Rightarrow> sys option" where
  "job_class_add_safe cid s = do {
     cls \<leftarrow> s_classes s cid;
     nih_assert (job_class_get_registered (c_name cls) s = None);
     job_class_add (Some cid) s
   }"

definition job_class_remove :: "nat \<Rightarrow> sys \<Rightarrow> (bool \<times> sys) option" where
  "job_class_remove cid s = do {
     nih_assert (s_classes s cid \<noteq> None);
     if class_instances s cid \<noteq> [] then Some (False, s)
     else do {
       s \<leftarrow> foldM (job_class_unregister cid) (s_conns s)
             (s\<lparr>s_registered := removeAll cid (s_registered s)\<rparr>);
       Some (True, s)
     }
   }"

text \<open>\<^verbatim>\<open>job_class_event_block\<close>: each event that a match node of the old class holds is handled by the
  match nodes of the new one, which leaves the values of its other nodes as they are.\<close>

fun handle_leaves ::
    "nat \<Rightarrow> EventOperator \<Rightarrow> Event list \<Rightarrow> (EventOperator \<times> Event list) option" where
  "handle_leaves i Leaf evs = Some (Leaf, evs)"
| "handle_leaves i (Node l a r) evs = do {
     (l, evs) \<leftarrow> handle_leaves i l evs;
     (r, evs) \<leftarrow> handle_leaves i r evs;
     if o_type a \<noteq> EVENT_MATCH then Some (Node l a r, evs)
     else do {
       (oper, ret, evs) \<leftarrow> event_operator_handle (Node l a r) i [] evs;
       Some (oper, evs)
     }
   }"

fun held_events :: "EventOperator \<Rightarrow> nat list" where
  "held_events Leaf = []"
| "held_events (Node l a r) =
     held_events l @ held_events r @
     (if o_type a \<noteq> EVENT_MATCH then [] else case o_event a of None \<Rightarrow> [] | Some i \<Rightarrow> [i])"

definition job_class_event_block :: "nat \<Rightarrow> nat \<Rightarrow> sys \<Rightarrow> sys option" where
  "job_class_event_block old new s = do {
     old_class \<leftarrow> s_classes s old;
     new_class \<leftarrow> s_classes s new;
     (case (c_start_on old_class, c_start_on new_class) of
        (Some old_root, Some new_root) \<Rightarrow>
          if class_instances s old \<noteq> [] then Some s
          else do {
            (root, evs) \<leftarrow> foldM (\<lambda>i (root, evs). handle_leaves i root evs)
                            (held_events old_root) (new_root, s_events s);
            Some (set_class new (new_class\<lparr>c_start_on := Some root\<rparr>) (set_events evs s))
          }
      | _ \<Rightarrow> Some s)
   }"

definition reset_start_on :: "nat \<Rightarrow> sys \<Rightarrow> sys option" where
  "reset_start_on cid s = do {
     cls \<leftarrow> s_classes s cid;
     (case c_start_on cls of
        None \<Rightarrow> Some s
      | Some root \<Rightarrow> do {
          (root, evs) \<leftarrow> event_operator_reset root (s_events s);
          Some (set_class cid (cls\<lparr>c_start_on := Some root\<rparr>) (set_events evs s))
        })
   }"

definition job_class_consider :: "nat \<Rightarrow> sys \<Rightarrow> (bool \<times> sys) option" where
  "job_class_consider cid s = do {
     cls \<leftarrow> s_classes s cid;
     best \<leftarrow> conf_select_job (c_name cls) s;
     let registered = job_class_get_registered (c_name cls) s;
     if registered \<noteq> Some best then
       (case registered of
          Some reg \<Rightarrow> do {
            s \<leftarrow> job_class_event_block reg best s;
            (removed, s) \<leftarrow> job_class_remove reg s;
            if \<not> removed then do {
              s \<leftarrow> reset_start_on best s;
              Some (False, s)
            } else do {
              s \<leftarrow> job_class_add (Some best) s;
              Some (cid = best, s)
            }
          }
        | None \<Rightarrow> do {
            s \<leftarrow> job_class_add (Some best) s;
            Some (cid = best, s)
          })
     else Some (cid = best, s)
   }"

definition job_class_reconsider :: "nat \<Rightarrow> sys \<Rightarrow> (bool \<times> sys) option" where
  "job_class_reconsider cid s = do {
     cls \<leftarrow> s_classes s cid;
     let best = conf_select_job (c_name cls) s;
     let registered = job_class_get_registered (c_name cls) s;
     if registered = Some cid then
       if Some cid \<noteq> best then do {
         (removed, s) \<leftarrow> job_class_remove cid s;
         if \<not> removed then Some (False, s)
         else do {
           s \<leftarrow> job_class_add best s;
           Some (True, s)
         }
       } else Some (False, s)
     else Some (True, s)
   }"

section \<open>What the operations leave alone\<close>

lemma send_sel [simp]:
  "s_events (send out s) = s_events s" "s_classes (send out s) = s_classes s"
  "s_registered (send out s) = s_registered s" "s_conf (send out s) = s_conf s" "s_sources (send out s) = s_sources s"
  "s_jobs (send out s) = s_jobs s" "s_instances (send out s) = s_instances s"
  "s_conns (send out s) = s_conns s" "s_next (send out s) = s_next s"
  "s_calls (send out s) = s_calls s" "s_out (send out s) = s_out s @ out"
  by (simp_all add: send_def)

lemma send_send: "send p (send out s) = send (out @ p) s"
  by (simp add: send_def)

lemma class_of_send [simp]: "class_of (send out s) = class_of s"
  by (simp add: class_of_def fun_eq_iff)

lemma class_instances_send [simp]: "class_instances (send out s) = class_instances s"
  by (simp add: class_instances_def fun_eq_iff)

lemma class_name_send [simp]: "class_name (send out s) = class_name s"
  by (simp add: class_name_def fun_eq_iff)

text \<open>Registering and unregistering only send signals.\<close>

lemma send_Nil: "send [] s = s"
  by (simp add: send_def)

lemma job_register_sends:
  "class_of s job \<noteq> None \<Longrightarrow> \<exists>p. job_register job conn signal s = Some (send p s)"
  by (cases signal) (auto simp: job_register_def send_send Let_def)

lemma foldM_sends:
  assumes "\<And>x t. x \<in> set xs \<Longrightarrow> (\<exists>p. t = send p s) \<Longrightarrow> \<exists>p. f x t = Some (send p t)"
  shows "\<exists>p. foldM f xs s = Some (send p s)"
proof -
  have "\<exists>p. foldM f ys t = Some (send p s)" if "set ys \<subseteq> set xs" "\<exists>p. t = send p s" for ys t
    using that
  proof (induction ys arbitrary: t)
    case Nil
    then show ?case by auto
  next
    case (Cons y ys)
    then obtain p where p: "f y t = Some (send p t)" using assms [of y t] by auto
    have "\<exists>q. send p t = send q s" using Cons.prems(2) by (auto simp: send_send)
    with Cons p show ?case by simp
  qed
  from this [of xs s] show ?thesis using send_Nil [of s, symmetric] by blast
qed

lemma job_class_register_sends:
  assumes "s_classes s cid = Some cls"
  shows "\<exists>p. job_class_register cid conn signal s = Some (send p s)"
proof -
  let ?s = "if signal then send [JobAdded conn (c_path cls)] (send [ObjectNew conn (c_path cls)] s)
    else send [ObjectNew conn (c_path cls)] s"
  let ?f = "\<lambda>jid s. do { job \<leftarrow> s_jobs s jid; job_register job conn signal s }"
  have inst: "\<exists>job. s_jobs s jid = Some job \<and> j_class job = cid"
    if "jid \<in> set (class_instances s cid)" for jid
    using that by (auto simp: class_instances_def split: option.splits)
  have "\<exists>p. foldM ?f (class_instances s cid) ?s = Some (send p ?s)"
  proof (rule foldM_sends)
    fix jid t
    assume jid: "jid \<in> set (class_instances s cid)" and "\<exists>p. t = send p ?s"
    then obtain p where t: "t = send p ?s" by blast
    obtain job where "s_jobs s jid = Some job" "j_class job = cid" using inst [OF jid] by blast
    then have "s_jobs t jid = Some job" "class_of t job \<noteq> None"
      using assms t by (simp_all add: class_of_def)
    then show "\<exists>p. ?f jid t = Some (send p t)" using job_register_sends by simp
  qed
  then show ?thesis
    using assms by (cases signal) (auto simp: job_class_register_def send_send Let_def)
qed

lemma job_class_unregister_sends:
  "s_classes s cid = Some cls \<Longrightarrow> class_instances s cid = [] \<Longrightarrow>
     \<exists>p. job_class_unregister cid conn s = Some (send p s)"
  by (auto simp: job_class_unregister_def send_send Let_def)

lemma job_class_add_eq:
  assumes "s_classes s cid = Some cls"
  shows "\<exists>p. job_class_add (Some cid) s = Some (send p (s\<lparr>s_registered := s_registered s @ [cid]\<rparr>))"
  unfolding job_class_add_def option.case
proof (rule foldM_sends)
  fix conn t
  assume "\<exists>p. t = send p (s\<lparr>s_registered := s_registered s @ [cid]\<rparr>)"
  then have "s_classes t cid = Some cls" using assms by auto
  then show "\<exists>p. job_class_register cid conn True t = Some (send p t)"
    by (rule job_class_register_sends)
qed

lemma job_class_remove_eq:
  assumes "s_classes s cid = Some cls"
  shows "if class_instances s cid \<noteq> [] then job_class_remove cid s = Some (False, s)
    else \<exists>p. job_class_remove cid s =
      Some (True, send p (s\<lparr>s_registered := removeAll cid (s_registered s)\<rparr>))"
proof (cases "class_instances s cid = []")
  case True
  let ?s = "s\<lparr>s_registered := removeAll cid (s_registered s)\<rparr>"
  have inst: "class_instances ?s cid = []" using True by (simp add: class_instances_def)
  have "\<exists>p. foldM (job_class_unregister cid) (s_conns s) ?s = Some (send p ?s)"
  proof (rule foldM_sends)
    fix conn t
    assume "\<exists>p. t = send p ?s"
    then have "s_classes t cid = Some cls" "class_instances t cid = []" using assms inst by auto
    then show "\<exists>p. job_class_unregister cid conn t = Some (send p t)"
      by (rule job_class_unregister_sends)
  qed
  then show ?thesis using True assms by (auto simp: job_class_remove_def)
qed (use assms in \<open>simp add: job_class_remove_def\<close>)

section \<open>The invariant of the table\<close>

definition table_ok :: "sys \<Rightarrow> bool" where
  "table_ok s \<longleftrightarrow>
     (\<forall>cid\<in>set (s_registered s). s_classes s cid \<noteq> None) \<and>
     (\<forall>cid\<in>set (s_sources s). s_classes s cid \<noteq> None) \<and>
     distinct (map (class_name s) (s_registered s))"

lemma find_eq_Some_distinct:
  assumes "distinct (map f xs)" and "x \<in> set xs"
  shows "find (\<lambda>y. f y = f x) xs = Some x"
  using assms by (induction xs) auto

lemma find_removeAll:
  "(\<And>y. y = x \<Longrightarrow> \<not> P y) \<Longrightarrow> find P (removeAll x xs) = find P xs"
  by (induction xs) auto

lemma registered_Some:
  assumes "table_ok s"
  shows "job_class_get_registered name s = Some cid \<longleftrightarrow>
    cid \<in> set (s_registered s) \<and> class_name s cid = Some name"
proof
  assume "job_class_get_registered name s = Some cid"
  then show "cid \<in> set (s_registered s) \<and> class_name s cid = Some name"
    by (auto simp: job_class_get_registered_def find_Some_iff)
next
  assume "cid \<in> set (s_registered s) \<and> class_name s cid = Some name"
  then show "job_class_get_registered name s = Some cid"
    using assms find_eq_Some_distinct [of "class_name s" "s_registered s" cid]
    by (auto simp: job_class_get_registered_def table_ok_def)
qed

lemma registered_None:
  "job_class_get_registered name s = None \<longleftrightarrow>
     (\<forall>cid\<in>set (s_registered s). class_name s cid \<noteq> Some name)"
  by (auto simp: job_class_get_registered_def find_None_iff)

lemma distinct_map_removeAll: "distinct (map f xs) \<Longrightarrow> distinct (map f (removeAll x xs))"
  by (induction xs) auto

text \<open>Replacing the registered class of a name.\<close>

definition table_replace :: "nat option \<Rightarrow> nat \<Rightarrow> sys \<Rightarrow> sys" where
  "table_replace old new s =
     s\<lparr>s_registered := (case old of None \<Rightarrow> s_registered s | Some c \<Rightarrow> removeAll c (s_registered s)) @ [new]\<rparr>"

lemma class_name_registered [simp]: "class_name (s\<lparr>s_registered := r\<rparr>) = class_name s"
  by (simp add: class_name_def fun_eq_iff)

lemma table_replace_ok:
  assumes ok: "table_ok s" and old: "old = job_class_get_registered name s"
    and new: "class_name s new = Some name" and mem: "new \<in> set (s_sources s)"
  shows "table_ok (table_replace old new s)"
    and "job_class_get_registered n (table_replace old new s) =
      (if n = name then Some new else job_class_get_registered n s)"
proof -
  let ?r = "case old of None \<Rightarrow> s_registered s | Some c \<Rightarrow> removeAll c (s_registered s)"
  have sub: "set ?r \<subseteq> set (s_registered s)" by (auto split: option.splits)
  have dist: "distinct (map (class_name s) ?r)"
    using ok distinct_map_removeAll by (auto simp: table_ok_def split: option.splits)
  have fresh: "class_name s c \<noteq> Some name" if "c \<in> set ?r" for c
  proof (cases old)
    case None
    with old that show ?thesis using registered_None [of name s] by auto
  next
    case (Some d)
    then have "d \<in> set (s_registered s)" "class_name s d = Some name"
      using old ok by (auto simp: registered_Some)
    then show ?thesis
      using that Some ok find_eq_Some_distinct [of "class_name s" "s_registered s" c]
        find_eq_Some_distinct [of "class_name s" "s_registered s" d]
      by (auto simp: table_ok_def)
  qed
  have "Some name \<notin> class_name s ` set ?r" using fresh by (metis imageE)
  then show "table_ok (table_replace old new s)"
    using ok sub dist new mem unfolding table_ok_def table_replace_def by auto
  have other: "find (\<lambda>c. class_name s c = Some n) ?r = find (\<lambda>c. class_name s c = Some n) (s_registered s)"
    if "n \<noteq> name"
  proof (cases old)
    case (Some d)
    then have "class_name s d = Some name" using old ok by (auto simp: registered_Some)
    then show ?thesis using Some that by (auto intro: find_removeAll)
  qed simp
  have self: "find (\<lambda>c. class_name s c = Some name) ?r = None"
    using fresh by (auto simp: find_None_iff)
  show "job_class_get_registered n (table_replace old new s) =
      (if n = name then Some new else job_class_get_registered n s)"
  proof (cases "n = name")
    case True
    then show ?thesis using self new
      by (simp add: job_class_get_registered_def table_replace_def find_append)
  next
    case False
    then show ?thesis using other [OF False] new
      by (simp add: job_class_get_registered_def table_replace_def find_append split: option.splits)
  qed
qed

section \<open>Handing events over to a new class\<close>

text \<open>What \<open>handle_leaves\<close> makes of a tree.\<close>

fun feed_leaves :: "(oper \<Rightarrow> bool) \<Rightarrow> nat \<Rightarrow> EventOperator \<Rightarrow> EventOperator" where
  "feed_leaves m i Leaf = Leaf"
| "feed_leaves m i (Node l a r) =
     Node (feed_leaves m i l)
       (if o_type a = EVENT_MATCH \<and> \<not> o_value a \<and> m a
        then a\<lparr>o_value := True, o_event := Some i\<rparr> else a)
       (feed_leaves m i r)"

lemma feed_leaves_ok: "oper_ok t \<Longrightarrow> oper_ok (feed_leaves m i t)"
  by (induction rule: oper_ok_induct) auto

lemma feed_leaves_refs:
  "oper_ok t \<Longrightarrow> count_list (oper_refs (feed_leaves m i t)) j =
     count_list (oper_refs t) j + (if j = i then new_matches m t else 0)"
  by (induction rule: oper_ok_induct) auto

lemma set_feed_leaves_refs:
  "oper_ok t \<Longrightarrow> set (oper_refs (feed_leaves m i t)) =
     set (oper_refs t) \<union> (if new_matches m t = 0 then {} else {i})"
  by (induction rule: oper_ok_induct) auto

lemma handle_leaves_eq:
  assumes "oper_ok t" and "event_valid evs i"
  shows "handle_leaves i t evs =
    Some (feed_leaves (matches_event evs [] i) i t,
      block_times i (new_matches (matches_event evs [] i) t) evs)"
  using assms
proof (induction arbitrary: evs rule: oper_ok_induct)
  case (leaf_match a)
  then have "oper_ok (Node Leaf a Leaf)" by simp
  from event_operator_handle_valid [OF this leaf_match.prems, of "[]"] leaf_match.hyps
  show ?case by (simp del: event_operator_handle.simps)
next
  case (inner l a r)
  have same: "matches_event (block_times i n evs) [] i = matches_event evs [] i" for n evs
    by (simp add: fun_eq_iff)
  show ?case
    using inner.hyps(1) inner.prems by (simp add: inner.IH same block_times_add)
qed

lemma handle_leaves_all:
  assumes "oper_ok t" and "\<forall>i\<in>set is. event_valid evs i"
  shows "\<exists>t' evs'. foldM (\<lambda>i (root, evs). handle_leaves i root evs) is (t, evs) = Some (t', evs') \<and>
    oper_ok t' \<and> (\<forall>j. event_valid evs' j = event_valid evs j) \<and>
    set (oper_refs t') \<subseteq> set (oper_refs t) \<union> set is \<and>
    (\<forall>j. blockers_of evs' j + count_list (oper_refs t) j =
       blockers_of evs j + count_list (oper_refs t') j)"
  using assms
proof (induction "is" arbitrary: t evs)
  case Nil
  then show ?case by simp
next
  case (Cons i "is")
  let ?m = "matches_event evs [] i"
  let ?t = "feed_leaves ?m i t" and ?evs = "block_times i (new_matches ?m t) evs"
  have i: "event_valid evs i" "i \<in> event_ids evs" using Cons.prems event_valid_ids by auto
  have "oper_ok ?t" using Cons.prems(1) by (rule feed_leaves_ok)
  then obtain t' evs' where IH:
    "foldM (\<lambda>i (root, evs). handle_leaves i root evs) is (?t, ?evs) = Some (t', evs')" "oper_ok t'"
    "\<forall>j. event_valid evs' j = event_valid ?evs j" "set (oper_refs t') \<subseteq> set (oper_refs ?t) \<union> set is"
    "\<And>j. blockers_of evs' j + count_list (oper_refs ?t) j =
       blockers_of ?evs j + count_list (oper_refs t') j"
    using Cons.IH [of ?t ?evs] Cons.prems(2) by auto
  have "blockers_of evs' j + count_list (oper_refs t) j =
      blockers_of evs j + count_list (oper_refs t') j" for j
    using IH(5) [of j]
    by (simp add: feed_leaves_refs [OF Cons.prems(1)] blockers_of_block_times [OF i(2)] split: if_splits)
  moreover have "set (oper_refs t') \<subseteq> set (oper_refs t) \<union> set (i # is)"
    using IH(4) by (auto simp: set_feed_leaves_refs [OF Cons.prems(1)] split: if_splits)
  ultimately show ?case
    using IH(1,2,3) by (simp add: handle_leaves_eq [OF Cons.prems(1) i(1)])
qed

lemma held_events_refs: "oper_ok t \<Longrightarrow> held_events t = oper_refs t"
  by (induction rule: oper_ok_induct) auto

text \<open>The conditions of all classes are well-formed and hold events that are there, and no event has
  fewer blockers than one condition has references to it.\<close>

definition roots_ok :: "sys \<Rightarrow> bool" where
  "roots_ok s \<longleftrightarrow>
     (\<forall>cid cls root. s_classes s cid = Some cls \<longrightarrow> c_start_on cls = Some root \<longrightarrow>
        oper_ok root \<and> (\<forall>i\<in>set (oper_refs root). event_valid (s_events s) i) \<and>
        (\<forall>j. count_list (oper_refs root) j \<le> blockers_of (s_events s) j))"

lemma job_class_event_block_eq:
  assumes "roots_ok s" and "s_classes s old = Some old_class" and "s_classes s new = Some new_class"
  shows "\<exists>start_on evs. job_class_event_block old new s =
      Some (set_class new (new_class\<lparr>c_start_on := start_on\<rparr>) (set_events evs s)) \<and>
    (start_on = None \<longleftrightarrow> c_start_on new_class = None) \<and>
    (class_instances s old \<noteq> [] \<longrightarrow> start_on = c_start_on new_class \<and> evs = s_events s)"
proof -
  have id: "set_class new (new_class\<lparr>c_start_on := c_start_on new_class\<rparr>) (set_events (s_events s) s) = s"
    using assms(3) by (simp add: set_class_def set_events_def fun_upd_idem)
  show ?thesis
  proof (cases "c_start_on old_class")
    case None
    with assms id show ?thesis
      by (intro exI [of _ "c_start_on new_class"] exI [of _ "s_events s"])
        (simp add: job_class_event_block_def)
  next
    case (Some old_root)
    show ?thesis
    proof (cases "c_start_on new_class = None \<or> class_instances s old \<noteq> []")
      case True
      with assms id Some show ?thesis
        by (intro exI [of _ "c_start_on new_class"] exI [of _ "s_events s"])
          (auto simp: job_class_event_block_def split: option.splits)
    next
      case False
      then obtain new_root where new: "c_start_on new_class = Some new_root" by auto
      have ok: "oper_ok new_root" and old: "oper_ok old_root" "\<forall>i\<in>set (oper_refs old_root). event_valid (s_events s) i"
        using assms Some new by (auto simp: roots_ok_def)
      obtain t' evs' where "foldM (\<lambda>i (root, evs). handle_leaves i root evs) (held_events old_root)
          (new_root, s_events s) = Some (t', evs')"
        using handle_leaves_all [OF ok old(2)] held_events_refs [OF old(1)] by auto
      then show ?thesis
        using False Some new assms
        by (intro exI [of _ "Some t'"] exI [of _ evs']) (simp add: job_class_event_block_def)
    qed
  qed
qed

section \<open>Properties\<close>

lemma class_name_set [simp]:
  "s_classes s cid = Some cls \<Longrightarrow> class_name (set_class cid (cls\<lparr>c_start_on := r\<rparr>) (set_events evs s)) = class_name s"
  by (auto simp: class_name_def set_class_def set_events_def fun_eq_iff)

lemma table_ok_set_class:
  "s_classes s cid = Some cls \<Longrightarrow>
     table_ok (set_class cid (cls\<lparr>c_start_on := r\<rparr>) (set_events evs s)) = table_ok s"
proof -
  assume cls: "s_classes s cid = Some cls"
  let ?s = "set_class cid (cls\<lparr>c_start_on := r\<rparr>) (set_events evs s)"
  have "s_classes ?s c = None \<longleftrightarrow> s_classes s c = None" for c
    using cls by (simp add: set_class_def set_events_def)
  moreover have "s_registered ?s = s_registered s" "s_sources ?s = s_sources s"
    by (simp_all add: set_class_def set_events_def)
  ultimately show ?thesis using cls by (simp add: table_ok_def)
qed

lemma registered_set_class [simp]:
  "s_classes s cid = Some cls \<Longrightarrow>
     job_class_get_registered n (set_class cid (cls\<lparr>c_start_on := r\<rparr>) (set_events evs s)) =
     job_class_get_registered n s"
  by (simp add: job_class_get_registered_def) (simp add: set_class_def set_events_def)

lemma class_instances_set_class [simp]:
  "class_instances (set_class cid cls (set_events evs s)) = class_instances s"
  by (simp add: class_instances_def set_class_def set_events_def fun_eq_iff)

lemma table_ok_send [simp]: "table_ok (send p s) = table_ok s"
  by (simp add: table_ok_def)

lemma registered_send [simp]: "job_class_get_registered n (send p s) = job_class_get_registered n s"
  by (simp add: job_class_get_registered_def)

text \<open>Removing the registered class and adding the best one is \<open>table_replace\<close>.\<close>

lemma job_class_swap:
  assumes "s_classes s reg = Some reg_class" and "s_classes s best = Some best_class"
    and "class_instances s reg = []"
  shows "\<exists>p. (do { (removed, s) \<leftarrow> job_class_remove reg s; job_class_add (Some best) s }) =
    Some (send p (table_replace (Some reg) best s))"
proof -
  obtain p where p: "job_class_remove reg s =
      Some (True, send p (s\<lparr>s_registered := removeAll reg (s_registered s)\<rparr>))"
    using job_class_remove_eq [OF assms(1)] assms(3) by auto
  let ?t = "send p (s\<lparr>s_registered := removeAll reg (s_registered s)\<rparr>)"
  obtain q where "job_class_add (Some best) ?t = Some (send q (?t\<lparr>s_registered := s_registered ?t @ [best]\<rparr>))"
    using job_class_add_eq [of ?t best best_class] assms(2) by auto
  moreover have "send q (?t\<lparr>s_registered := s_registered ?t @ [best]\<rparr>) =
      send (p @ q) (table_replace (Some reg) best s)"
    by (simp add: send_def table_replace_def)
  ultimately show ?thesis using p by auto
qed

lemma conf_select_job_Some:
  "conf_select_job name s = Some best \<Longrightarrow> best \<in> set (s_sources s) \<and> class_name s best = Some name"
  by (auto simp: conf_select_job_def find_Some_iff)

text \<open>A world and states for the examples.\<close>

definition sample_os :: os where
  "sample_os = \<lparr>os_getenv = (\<lambda>_. None), os_environ = [], os_apparmor = (\<lambda>_. False),
     os_fork = (\<lambda>n. int n + 100), os_getpgid = (\<lambda>_. 0), os_kill = (\<lambda>_. True),
     os_ptrace = (\<lambda>_. True), os_ptrace_msg = (\<lambda>n. int n + 500), os_now = (\<lambda>n. int n), os_time = (\<lambda>n. int n + 1),
     os_signal_name = (\<lambda>_. None), os_dbus_path = concat, os_str_split = (\<lambda>s. [s])\<rparr>"

definition sample_class :: "string \<Rightarrow> JobClass" where
  "sample_class name = the (job_class_new sample_os sys_init name)"

definition sample_source :: "nat list \<Rightarrow> ConfSource" where
  "sample_source cids = \<lparr>cs_path = ''/etc/init'', cs_type = CONF_JOB_DIR, cs_watch = None, cs_flag = False,
     cs_files = map (\<lambda>c. \<lparr>f_path = ''/etc/init/'' @ replicate c CHR ''a'' @ ''.conf'', f_flag = False, f_job = Some c\<rparr>) cids\<rparr>"

lemma sample_source_jobs [simp]: "source_jobs (sample_source cids) = cids"
  by (induction cids) (simp_all add: source_jobs_def sample_source_def List.map_filter_def)

definition sample_two :: sys where
  "sample_two = sys_init\<lparr>s_classes := [1 \<mapsto> sample_class ''a'', 2 \<mapsto> sample_class ''a''],
     s_registered := [2], s_conf := [sample_source [1, 2]], s_conns := [0]\<rparr>"

lemma sample_two_ok: "table_ok sample_two" "roots_ok sample_two"
  by (auto simp: sample_two_def sample_class_def job_class_new_def table_ok_def roots_ok_def
    class_name_def split: if_splits)

lemma sample_two_simps:
  "s_classes sample_two 1 = Some (sample_class ''a'')" "c_name (sample_class ''a'') = ''a''"
  "s_classes sample_two 2 = Some (sample_class ''a'')"
  "conf_select_job ''a'' sample_two = Some 1" "job_class_get_registered ''a'' sample_two = Some 2"
  "class_instances sample_two 2 = []"
  by (simp_all add: sample_two_def sample_class_def job_class_new_def conf_select_job_def
    job_class_get_registered_def class_name_def class_instances_def sys_init_def s_sources_def)

lemma reset_start_on_eq:
  assumes "roots_ok s" and "s_classes s cid = Some cls"
  shows "\<exists>so evs. reset_start_on cid s = Some (set_class cid (cls\<lparr>c_start_on := so\<rparr>) (set_events evs s))"
proof (cases "c_start_on cls")
  case None
  then have "reset_start_on cid s = Some (set_class cid (cls\<lparr>c_start_on := None\<rparr>) (set_events (s_events s) s))"
    using assms by (simp add: reset_start_on_def set_class_def set_events_def fun_upd_idem)
  then show ?thesis by blast
next
  case (Some root)
  then have root: "oper_ok root" "set (oper_refs root) \<subseteq> event_ids (s_events s)"
    "\<And>j. count_list (oper_refs root) j \<le> blockers_of (s_events s) j"
    using assms event_valid_ids by (auto simp: roots_ok_def)
  obtain evs where "foldM event_unblock (oper_refs root) (s_events s) = Some evs"
    using ev.release_all [OF root(2,3)] by blast
  then show ?thesis using Some assms by (auto simp: reset_start_on_def event_operator_reset_eq [OF root(1)])
qed

text \<open>Another class is registered: without instances it is replaced, otherwise it stays.\<close>

lemma job_class_consider_swap:
  assumes "table_ok s" and "roots_ok s" and "s_classes s cid = Some cls"
    and "conf_select_job (c_name cls) s = Some best" and "job_class_get_registered (c_name cls) s = Some reg"
    and "reg \<noteq> best" and "class_instances s reg = []"
  shows "\<exists>s'. job_class_consider cid s = Some (cid = best, s') \<and> table_ok s' \<and>
    (\<forall>n. job_class_get_registered n s' = (if n = c_name cls then Some best else job_class_get_registered n s))"
proof -
  have best: "best \<in> set (s_sources s)" "class_name s best = Some (c_name cls)"
    using conf_select_job_Some [OF assms(4)] by auto
  then obtain bc rc where bc: "s_classes s best = Some bc" and rc: "s_classes s reg = Some rc"
    using registered_Some [OF assms(1)] assms(5) by (auto simp: class_name_def)
  obtain so evs where blk: "job_class_event_block reg best s =
      Some (set_class best (bc\<lparr>c_start_on := so\<rparr>) (set_events evs s))"
    using job_class_event_block_eq [OF assms(2) rc bc] by auto
  let ?s1 = "set_class best (bc\<lparr>c_start_on := so\<rparr>) (set_events evs s)"
  have cls1: "s_classes ?s1 reg = Some rc" "s_classes ?s1 best = Some (bc\<lparr>c_start_on := so\<rparr>)"
    using rc assms(6) by (simp_all add: set_class_def set_events_def)
  have ok1: "table_ok ?s1" using assms(1) table_ok_set_class [OF bc] by simp
  obtain p where swap: "(do { (removed, s) \<leftarrow> job_class_remove reg ?s1; job_class_add (Some best) s }) =
      Some (send p (table_replace (Some reg) best ?s1))"
    using job_class_swap [OF cls1] assms(7) by auto
  obtain q where rem: "job_class_remove reg ?s1 = Some (True, q)"
    using job_class_remove_eq [OF cls1(1)] assms(7) by auto
  have "job_class_consider cid s = Some (cid = best, send p (table_replace (Some reg) best ?s1))"
    using assms blk swap rem by (simp add: job_class_consider_def)
  moreover have "best \<in> set (s_sources ?s1)" using best by (simp add: set_class_def set_events_def)
  ultimately show ?thesis
    using assms bc table_replace_ok [OF ok1, of "Some reg" "c_name cls" best] best by simp
qed

lemma job_class_consider_busy:
  assumes "table_ok s" and "roots_ok s" and "s_classes s cid = Some cls"
    and "conf_select_job (c_name cls) s = Some best" and "job_class_get_registered (c_name cls) s = Some reg"
    and "reg \<noteq> best" and "class_instances s reg \<noteq> []"
  shows "\<exists>s'. job_class_consider cid s = Some (False, s') \<and> table_ok s' \<and>
    (\<forall>n. job_class_get_registered n s' = job_class_get_registered n s)"
proof -
  obtain bc rc where bc: "s_classes s best = Some bc" and rc: "s_classes s reg = Some rc"
    using conf_select_job_Some [OF assms(4)] registered_Some [OF assms(1)] assms(5) by (auto simp: class_name_def)
  have "job_class_event_block reg best s = Some s"
    using job_class_event_block_eq [OF assms(2) rc bc] assms(7) bc
    by (auto simp: set_class_def set_events_def fun_upd_idem)
  moreover have "job_class_remove reg s = Some (False, s)" using job_class_remove_eq [OF rc] assms(7) by simp
  moreover obtain so evs where "reset_start_on best s =
      Some (set_class best (bc\<lparr>c_start_on := so\<rparr>) (set_events evs s))"
    using reset_start_on_eq [OF assms(2) bc] by blast
  ultimately show ?thesis
    using assms bc table_ok_set_class [OF bc] by (auto simp: job_class_consider_def)
qed

lemma job_class_consider_run:
  assumes "table_ok s" and "roots_ok s" and "s_classes s cid = Some cls"
    and "conf_select_job (c_name cls) s = Some best"
  shows "\<exists>r s'. job_class_consider cid s = Some (r, s') \<and> table_ok s' \<and>
    (\<forall>n. n \<noteq> c_name cls \<longrightarrow> job_class_get_registered n s' = job_class_get_registered n s) \<and>
    (case job_class_get_registered (c_name cls) s of
       None \<Rightarrow> job_class_get_registered (c_name cls) s' = Some best \<and> r = (cid = best)
     | Some reg \<Rightarrow>
         if reg \<noteq> best \<and> class_instances s reg \<noteq> []
         then job_class_get_registered (c_name cls) s' = Some reg \<and> \<not> r
         else job_class_get_registered (c_name cls) s' = Some best \<and> r = (cid = best))"
proof (cases "job_class_get_registered (c_name cls) s")
  case None
  have best: "best \<in> set (s_sources s)" "class_name s best = Some (c_name cls)"
    using conf_select_job_Some [OF assms(4)] by auto
  then obtain bc where bc: "s_classes s best = Some bc" by (auto simp: class_name_def)
  obtain p where "job_class_add (Some best) s = Some (send p (table_replace None best s))"
    using job_class_add_eq [OF bc] by (auto simp: table_replace_def)
  then show ?thesis
    using assms None table_replace_ok [OF assms(1) None [symmetric] best(2,1)]
    by (simp add: job_class_consider_def)
next
  case (Some reg)
  consider "reg = best" | "reg \<noteq> best" "class_instances s reg = []" | "reg \<noteq> best" "class_instances s reg \<noteq> []" by blast
  then show ?thesis
  proof cases
    case 1
    with assms Some show ?thesis by (auto simp: job_class_consider_def)
  next
    case 2
    with job_class_consider_swap [OF assms Some] Some show ?thesis by auto
  next
    case 3
    with job_class_consider_busy [OF assms Some] Some show ?thesis by auto
  qed
qed

text \<open>C18: \<^verbatim>\<open>job_class_consider\<close> keeps the table well-formed and makes the class that the
  configuration sources prefer the registered one of its name, returning whether that is the
  class considered; only when the class registered before still has instances does that class
  stay and the result is false. No other name is affected, and nothing aborts.\<close>

theorem job_class_consider_selects:
  assumes "table_ok s" and "roots_ok s" and "s_classes s cid = Some cls"
    and "conf_select_job (c_name cls) s = Some best"
  shows "\<exists>r s'. job_class_consider cid s = Some (r, s') \<and> table_ok s' \<and>
    (\<forall>n. n \<noteq> c_name cls \<longrightarrow> job_class_get_registered n s' = job_class_get_registered n s) \<and>
    (case job_class_get_registered (c_name cls) s of
       None \<Rightarrow> job_class_get_registered (c_name cls) s' = Some best \<and> r = (cid = best)
     | Some reg \<Rightarrow>
         if reg \<noteq> best \<and> class_instances s reg \<noteq> []
         then job_class_get_registered (c_name cls) s' = Some reg \<and> \<not> r
         else job_class_get_registered (c_name cls) s' = Some best \<and> r = (cid = best))"
  using job_class_consider_run [OF assms] .

theorem job_class_consider_selects_witness:
  "\<exists>s'. job_class_consider 1 sample_two = Some (True, s') \<and> job_class_get_registered ''a'' s' = Some 1"
  using job_class_consider_selects [OF sample_two_ok sample_two_simps(1)]
  by (auto simp: sample_two_simps)

lemma table_remove:
  assumes "table_ok s" and "job_class_get_registered name s = Some cid"
  shows "table_ok (s\<lparr>s_registered := removeAll cid (s_registered s)\<rparr>)"
    and "job_class_get_registered name (s\<lparr>s_registered := removeAll cid (s_registered s)\<rparr>) = None"
    and "n \<noteq> name \<Longrightarrow> job_class_get_registered n (s\<lparr>s_registered := removeAll cid (s_registered s)\<rparr>) =
      job_class_get_registered n s"
proof -
  show "table_ok (s\<lparr>s_registered := removeAll cid (s_registered s)\<rparr>)"
    using assms(1) by (auto simp: table_ok_def intro: distinct_map_removeAll)
  have "c = cid" if "c \<in> set (s_registered s)" "class_name s c = Some name" for c
    using that assms(2) registered_Some [OF assms(1), of name c] by auto
  then show "job_class_get_registered name (s\<lparr>s_registered := removeAll cid (s_registered s)\<rparr>) = None"
    by (simp add: registered_None) blast
  have "class_name s cid = Some name" using assms registered_Some by blast
  then show "n \<noteq> name \<Longrightarrow> job_class_get_registered n (s\<lparr>s_registered := removeAll cid (s_registered s)\<rparr>) =
      job_class_get_registered n s"
    by (simp add: job_class_get_registered_def find_removeAll)
qed

text \<open>What \<^verbatim>\<open>job_class_reconsider\<close> does: it changes the table and sends signals.\<close>

lemma job_class_reconsider_run:
  assumes "table_ok s" and "s_classes s cid = Some cls"
  shows "\<exists>r p reg. job_class_reconsider cid s = Some (r, send p (s\<lparr>s_registered := reg\<rparr>)) \<and>
    table_ok (s\<lparr>s_registered := reg\<rparr>) \<and>
    (\<forall>c\<in>set (s_registered s). c \<noteq> cid \<longrightarrow> c \<in> set reg) \<and>
    (r \<longleftrightarrow> job_class_get_registered (c_name cls) (s\<lparr>s_registered := reg\<rparr>) \<noteq> Some cid) \<and>
    job_class_get_registered (c_name cls) (s\<lparr>s_registered := reg\<rparr>) =
      (if job_class_get_registered (c_name cls) s = Some cid \<and> class_instances s cid = []
       then conf_select_job (c_name cls) s else job_class_get_registered (c_name cls) s) \<and>
    (\<forall>n. n \<noteq> c_name cls \<longrightarrow> job_class_get_registered n (s\<lparr>s_registered := reg\<rparr>) = job_class_get_registered n s)"
proof (cases "job_class_get_registered (c_name cls) s = Some cid \<and> conf_select_job (c_name cls) s \<noteq> Some cid \<and>
    class_instances s cid = []")
  case True
  then have reg: "job_class_get_registered (c_name cls) s = Some cid" by simp
  let ?t = "s\<lparr>s_registered := removeAll cid (s_registered s)\<rparr>"
  obtain p where rem: "job_class_remove cid s = Some (True, send p ?t)"
    using job_class_remove_eq [OF assms(2)] True by auto
  show ?thesis
  proof (cases "conf_select_job (c_name cls) s")
    case None
    have "job_class_reconsider cid s = Some (True, send p ?t)"
      using True None assms rem by (simp add: job_class_reconsider_def job_class_add_def)
    then show ?thesis
      using True None table_remove [OF assms(1) reg]
      by (intro exI [of _ True] exI [of _ p] exI [of _ "removeAll cid (s_registered s)"]) simp
  next
    case (Some best)
    then have best: "best \<in> set (s_sources s)" "class_name s best = Some (c_name cls)"
      using conf_select_job_Some by auto
    then obtain bc where bc: "s_classes s best = Some bc" by (auto simp: class_name_def)
    obtain q where "(do { (removed, s) \<leftarrow> job_class_remove cid s; job_class_add (Some best) s }) =
        Some (send q (table_replace (Some cid) best s))"
      using job_class_swap [OF assms(2) bc] True by auto
    then have "job_class_reconsider cid s = Some (True, send q (table_replace (Some cid) best s))"
      using True Some assms rem by (simp add: job_class_reconsider_def)
    then show ?thesis
      using True Some table_replace_ok [OF assms(1) reg [symmetric] best(2,1)]
      by (intro exI [of _ True] exI [of _ q] exI [of _ "removeAll cid (s_registered s) @ [best]"])
        (simp add: table_replace_def)
  qed
next
  case False
  have id: "send [] (s\<lparr>s_registered := s_registered s\<rparr>) = s" by (simp add: send_def)
  have "job_class_reconsider cid s =
      Some (job_class_get_registered (c_name cls) s \<noteq> Some cid, send [] (s\<lparr>s_registered := s_registered s\<rparr>))"
    unfolding id using False assms job_class_remove_eq [OF assms(2)]
    by (auto simp: job_class_reconsider_def Let_def)
  then show ?thesis
    using False assms(1)
    by (intro exI [of _ "job_class_get_registered (c_name cls) s \<noteq> Some cid"] exI [of _ "[]"]
      exI [of _ "s_registered s"]) auto
qed

text \<open>C19: \<^verbatim>\<open>job_class_reconsider\<close>, called when an instance has gone, keeps the table well-formed. It
  returns true exactly if the class is not (or no longer) the registered one, and a registered
  class that is not the preferred one is replaced unless it still has instances.\<close>

theorem job_class_reconsider_selects:
  assumes "table_ok s" and "s_classes s cid = Some cls"
  shows "\<exists>r s'. job_class_reconsider cid s = Some (r, s') \<and> table_ok s' \<and>
    (r \<longleftrightarrow> job_class_get_registered (c_name cls) s' \<noteq> Some cid) \<and>
    (let best = conf_select_job (c_name cls) s; registered = job_class_get_registered (c_name cls) s
     in job_class_get_registered (c_name cls) s' =
       (if registered = Some cid \<and> class_instances s cid = [] then best else registered))"
  using job_class_reconsider_run [OF assms] by (auto simp: Let_def)

theorem job_class_reconsider_selects_witness:
  "\<exists>s'. job_class_reconsider 2 sample_two = Some (True, s') \<and> job_class_get_registered ''a'' s' = Some 1"
  using job_class_reconsider_selects [OF sample_two_ok(1) sample_two_simps(3)]
  by (auto simp: sample_two_simps Let_def)

end
