(* ===== verification/JobSpawn.thy ===== *)
theory JobSpawn
  imports ClassTable
begin

text \<open>
  Starting and killing the processes of a job: \<^verbatim>\<open>job_process_start\<close>, \<^verbatim>\<open>job_process_data_new\<close>,
  \<^verbatim>\<open>job_process_kill\<close> and its timer of \<^verbatim>\<open>src/init/job_process.c\<close>, and \<^verbatim>\<open>system_kill\<close> of
  \<^verbatim>\<open>src/init/system.c\<close>. What the forked child does before it executes the command
  (\<^verbatim>\<open>job_process_spawn_with_fd\<close>) is outside the model: the spawn is an entry of the list of outputs
  with the process id that \<^verbatim>\<open>fork\<close> returned; the code repeats a fork that fails.
\<close>

section \<open>Definitions\<close>

definition SHELL :: string where "SHELL = ''/bin/sh''"

definition SHELL_CHARS :: string where
  "SHELL_CHARS = ''~`!$^&*()=|'' @ [CHR 0x5C] @ ''{}[];'' @ [CHR 0x22, CHR 0x27] @ ''<>?''"

definition NL :: char where "NL = CHR 0x0A"

text \<open>The arguments the process is executed with, and the script to be piped into the shell, if
  any.\<close>

definition process_argv :: "os \<Rightarrow> bool \<Rightarrow> string \<Rightarrow> string list \<times> string option" where
  "process_argv w is_script command =
     (if is_script \<or> (\<exists>c\<in>set command. c \<in> set SHELL_CHARS) then
        (let script = (if is_script then command else ''exec '' @ command);
             nl = strchr script NL
         in if nl = None \<or> dropWhile (\<lambda>c. c = NL) (drop (the nl) script) = [] then
              (let script = (case nl of None \<Rightarrow> script | Some p \<Rightarrow> take p script)
               in ([SHELL, ''-e'', ''-c'', script, SHELL], None))
            else ([SHELL, ''-e'', ''/proc/self/fd/9''], Some script))
      else (os_str_split w command, None))"

text \<open>The environment of the process.\<close>

definition process_environ :: "os \<Rightarrow> sys \<Rightarrow> JobClass \<Rightarrow> Job \<Rightarrow> ProcessType \<Rightarrow> string list" where
  "process_environ w s cls job process =
     (let genv = os_getenv w;
          env = environ_append genv True (j_env job) [];
          env = (case j_stop_env job of
                   Some stop_env \<Rightarrow>
                     if process = PROCESS_PRE_STOP \<or> process = PROCESS_POST_STOP
                     then fold (environ_set genv True) stop_env env else env
                 | None \<Rightarrow> env);
          env = environ_set genv True (''UPSTART_JOB='' @ c_name cls) env;
          env = environ_set genv True (''UPSTART_INSTANCE='' @ j_name job) env
      in if s_user_mode s
         then environ_set genv True (''UPSTART_SESSION='' @ s_server_address s) env else env)"

definition job_process_data_new :: JobProcessData where
  "job_process_data_new =
     \<lparr>pd_script = None, pd_shell = False, pd_fd_open = True, pd_status = 0, pd_valid = True\<rparr>"

text \<open>\<^verbatim>\<open>job_process_readyfd_new\<close>: the read end of a new pipe is watched for the job (\<open>ReadyFdWatched\<close>); the
  write end goes to the child.\<close>

definition job_process_readyfd_new :: "Job \<Rightarrow> sys \<Rightarrow> sys" where
  "job_process_readyfd_new job s = send [ReadyFdWatched (j_id job)] s"

text \<open>What is set up before the fork: the pipe of a main process that announces that it is ready.\<close>

definition readyfd_setup :: "ProcessType \<Rightarrow> JobClass \<Rightarrow> Job \<Rightarrow> sys \<Rightarrow> sys" where
  "readyfd_setup process cls job s =
     (if process = PROCESS_MAIN \<and> c_expect cls = EXPECT_READYFD then job_process_readyfd_new job s else s)"

lemma readyfd_setup_send: "\<exists>out. readyfd_setup process cls job s = send out s"
  by (auto simp: readyfd_setup_def job_process_readyfd_new_def send_def intro: exI [of _ "[]"])

definition job_process_start :: "os \<Rightarrow> ProcessType \<Rightarrow> sys \<Rightarrow> Job \<Rightarrow> (sys \<times> Job) option" where
  "job_process_start w process s job = do {
     nih_assert (process \<noteq> PROCESS_INVALID);
     nih_assert (process \<noteq> PROCESS_LAST);
     cls \<leftarrow> class_of s job;
     proc \<leftarrow> c_process cls process;
     command \<leftarrow> p_command proc;
     let (argv, script) = process_argv w (p_script proc) command;
     let env = process_environ w s cls job process;
     let trace = (process = PROCESS_MAIN \<and>
                    (c_expect cls = EXPECT_DAEMON \<or> c_expect cls = EXPECT_FORK));
     let (pid, s) = call (os_fork w) (readyfd_setup process cls job s);
     let data = (case script of
                   None \<Rightarrow> job_process_data_new
                 | Some text \<Rightarrow> job_process_data_new\<lparr>pd_shell := True, pd_script := Some text\<rparr>);
     Some (send [Spawned pid process argv env trace] s,
           job\<lparr>j_pid := (j_pid job)(process := pid),
               j_trace_forks := 0,
               j_trace_state := (if trace then TRACE_NEW else TRACE_NONE),
               j_process_data := (j_process_data job)(process \<mapsto> data)\<rparr>)
   }"

definition system_kill :: "os \<Rightarrow> int \<Rightarrow> int \<Rightarrow> sys \<Rightarrow> (bool \<times> sys) option" where
  "system_kill w pid signal s = do {
     nih_assert (pid > 0);
     let (pgid, s) = call (os_getpgid w) s;
     let (ok, s) = call (os_kill w) s;
     Some (ok, send [Killed (if pgid > 0 then - pgid else pid) signal] s)
   }"

definition job_process_set_kill_timer :: "ProcessType \<Rightarrow> int \<Rightarrow> Job \<Rightarrow> Job option" where
  "job_process_set_kill_timer process timeout job = do {
     nih_assert (timeout \<noteq> 0);
     nih_assert (j_kill_timer job = None);
     Some (job\<lparr>j_kill_process := process, j_kill_timer := Some timeout\<rparr>)
   }"

definition job_process_kill :: "os \<Rightarrow> ProcessType \<Rightarrow> sys \<Rightarrow> Job \<Rightarrow> (sys \<times> Job) option" where
  "job_process_kill w process s job = do {
     cls \<leftarrow> class_of s job;
     nih_assert (j_pid job process > 0);
     nih_assert (j_kill_timer job = None);
     nih_assert (j_kill_process job = PROCESS_INVALID);
     (ok, s) \<leftarrow> system_kill w (j_pid job process) (c_kill_signal cls) s;
     if \<not> ok then Some (s, job)
     else do {
       job \<leftarrow> job_process_set_kill_timer process (c_kill_timeout cls) job;
       Some (s, job)
     }
   }"

text \<open>\<^verbatim>\<open>job_process_adj_kill_timer\<close> changes when the timer is due.\<close>

definition job_process_adj_kill_timer :: "int \<Rightarrow> Job \<Rightarrow> Job option" where
  "job_process_adj_kill_timer due job = do {
     nih_assert (j_kill_timer job \<noteq> None);
     nih_assert (due \<noteq> 0);
     Some (job\<lparr>j_kill_timer := Some due\<rparr>)
   }"

definition SIGKILL :: int where "SIGKILL = 9"

text \<open>The timer fires.\<close>

definition job_process_kill_timer :: "os \<Rightarrow> sys \<Rightarrow> Job \<Rightarrow> (sys \<times> Job) option" where
  "job_process_kill_timer w s job = do {
     nih_assert (j_kill_timer job \<noteq> None);
     nih_assert (j_kill_process job \<noteq> PROCESS_INVALID);
     let process = j_kill_process job;
     nih_assert (j_pid job process > 0);
     let job = job\<lparr>j_kill_timer := None, j_kill_process := PROCESS_INVALID\<rparr>;
     (ok, s) \<leftarrow> system_kill w (j_pid job process) SIGKILL s;
     Some (s, job)
   }"

end
