(* ===== verification/Job.thy ===== *)
theory Job
  imports JobSpawn
begin

text \<open>
  \<^verbatim>\<open>src/init/job.c\<close>: the state machine of a job instance.

  \<^verbatim>\<open>job_change_state\<close> is a loop: it enters the state asked for, and the action of entering a state may
  ask for the next one. \<open>enter_state\<close> is its body. \<^verbatim>\<open>job_next_state\<close> calls \<^verbatim>\<open>job_change_goal\<close> in two
  states in which that only sets the goal (\<open>set_goal\<close>); lemma \<open>job_change_goal_set\<close> shows that it is
  the same there.
\<close>

section \<open>Goals and the next state\<close>

text \<open>The first half of \<^verbatim>\<open>job_change_goal\<close>.\<close>

definition set_goal :: "JobGoal \<Rightarrow> sys \<Rightarrow> Job \<Rightarrow> sys \<times> Job" where
  "set_goal goal s job =
     (if j_goal job = goal then (s, job)
      else (send_conns (\<lambda>conn. GoalChanged conn (j_path job) (job_goal_name goal)) s,
            job\<lparr>j_goal := goal\<rparr>))"

definition main_running :: "JobClass \<Rightarrow> Job \<Rightarrow> bool" where
  "main_running cls job \<longleftrightarrow> c_process cls PROCESS_MAIN \<noteq> None \<and> j_pid job PROCESS_MAIN > 0"

definition job_next_state :: "sys \<Rightarrow> Job \<Rightarrow> (JobState \<times> sys \<times> Job) option" where
  "job_next_state s job =
     (case j_state job of
        JOB_WAITING \<Rightarrow>
          (case j_goal job of
             JOB_STOP \<Rightarrow> None
           | JOB_START \<Rightarrow> Some (JOB_STARTING, s, job)
           | JOB_RESPAWN \<Rightarrow> None)
      | JOB_STARTING \<Rightarrow>
          (case j_goal job of
             JOB_STOP \<Rightarrow> Some (JOB_STOPPING, s, job)
           | JOB_START \<Rightarrow> Some (JOB_SECURITY_SPAWNING, s, job)
           | JOB_RESPAWN \<Rightarrow> None)
      | JOB_SECURITY_SPAWNING \<Rightarrow>
          (case j_goal job of
             JOB_STOP \<Rightarrow> Some (JOB_STOPPING, s, job)
           | JOB_START \<Rightarrow> Some (JOB_SECURITY, s, job)
           | JOB_RESPAWN \<Rightarrow> None)
      | JOB_SECURITY \<Rightarrow>
          (case j_goal job of
             JOB_STOP \<Rightarrow> Some (JOB_STOPPING, s, job)
           | JOB_START \<Rightarrow> Some (JOB_PRE_STARTING, s, job)
           | JOB_RESPAWN \<Rightarrow> None)
      | JOB_PRE_STARTING \<Rightarrow>
          (case j_goal job of
             JOB_STOP \<Rightarrow> Some (JOB_STOPPING, s, job)
           | JOB_START \<Rightarrow> Some (JOB_PRE_START, s, job)
           | JOB_RESPAWN \<Rightarrow> None)
      | JOB_PRE_START \<Rightarrow>
          (case j_goal job of
             JOB_STOP \<Rightarrow> Some (JOB_STOPPING, s, job)
           | JOB_START \<Rightarrow> Some (JOB_SPAWNING, s, job)
           | JOB_RESPAWN \<Rightarrow> None)
      | JOB_SPAWNING \<Rightarrow>
          (case j_goal job of
             JOB_STOP \<Rightarrow> Some (JOB_STOPPING, s, job)
           | JOB_START \<Rightarrow> Some (JOB_SPAWNED, s, job)
           | JOB_RESPAWN \<Rightarrow> None)
      | JOB_SPAWNED \<Rightarrow>
          (case j_goal job of
             JOB_STOP \<Rightarrow> Some (JOB_STOPPING, s, job)
           | JOB_START \<Rightarrow> Some (JOB_POST_STARTING, s, job)
           | JOB_RESPAWN \<Rightarrow> None)
      | JOB_POST_STARTING \<Rightarrow>
          (case j_goal job of
             JOB_STOP \<Rightarrow> Some (JOB_STOPPING, s, job)
           | JOB_START \<Rightarrow> Some (JOB_POST_START, s, job)
           | JOB_RESPAWN \<Rightarrow> None)
      | JOB_POST_START \<Rightarrow>
          (case j_goal job of
             JOB_STOP \<Rightarrow> Some (JOB_STOPPING, s, job)
           | JOB_START \<Rightarrow> Some (JOB_RUNNING, s, job)
           | JOB_RESPAWN \<Rightarrow> Some (JOB_STOPPING, set_goal JOB_START s job))
      | JOB_RUNNING \<Rightarrow>
          (case j_goal job of
             JOB_STOP \<Rightarrow> do {
               cls \<leftarrow> class_of s job;
               Some (if main_running cls job then JOB_PRE_STOPPING else JOB_STOPPING, s, job)
             }
           | JOB_START \<Rightarrow> Some (JOB_STOPPING, s, job)
           | JOB_RESPAWN \<Rightarrow> None)
      | JOB_PRE_STOPPING \<Rightarrow>
          (case j_goal job of
             JOB_STOP \<Rightarrow> Some (JOB_PRE_STOP, s, job)
           | JOB_START \<Rightarrow> Some (JOB_PRE_STOP, s, job)
           | JOB_RESPAWN \<Rightarrow> None)
      | JOB_PRE_STOP \<Rightarrow>
          (case j_goal job of
             JOB_STOP \<Rightarrow> Some (JOB_STOPPING, s, job)
           | JOB_START \<Rightarrow> Some (JOB_RUNNING, s, job)
           | JOB_RESPAWN \<Rightarrow> Some (JOB_STOPPING, set_goal JOB_START s job))
      | JOB_STOPPING \<Rightarrow>
          (case j_goal job of
             JOB_STOP \<Rightarrow> Some (JOB_KILLED, s, job)
           | JOB_START \<Rightarrow> Some (JOB_KILLED, s, job)
           | JOB_RESPAWN \<Rightarrow> None)
      | JOB_KILLED \<Rightarrow>
          (case j_goal job of
             JOB_STOP \<Rightarrow> Some (JOB_POST_STOPPING, s, job)
           | JOB_START \<Rightarrow> Some (JOB_POST_STOPPING, s, job)
           | JOB_RESPAWN \<Rightarrow> None)
      | JOB_POST_STOPPING \<Rightarrow>
          (case j_goal job of
             JOB_STOP \<Rightarrow> Some (JOB_POST_STOP, s, job)
           | JOB_START \<Rightarrow> Some (JOB_POST_STOP, s, job)
           | JOB_RESPAWN \<Rightarrow> None)
      | JOB_POST_STOP \<Rightarrow>
          (case j_goal job of
             JOB_STOP \<Rightarrow> Some (JOB_WAITING, s, job)
           | JOB_START \<Rightarrow> Some (JOB_STARTING, s, job)
           | JOB_RESPAWN \<Rightarrow> None))"

section \<open>Finishing and failing\<close>

text \<open>\<^verbatim>\<open>job_finished\<close>: what was blocked by the job is released or answered.\<close>

definition reply_failed :: "Blocked \<Rightarrow> sys \<Rightarrow> sys" where
  "reply_failed blocked s = send [Reply (b_data blocked) (ErrorReply ''JobFailed'')] s"

definition finish_blocked :: "bool \<Rightarrow> Job \<Rightarrow> Blocked \<Rightarrow> sys \<Rightarrow> sys option" where
  "finish_blocked failed job blocked s =
     (case b_type blocked of
        BLOCKED_EVENT \<Rightarrow> do {
          let evs = (if failed then event_upd (b_data blocked) (\<lambda>e. e\<lparr>e_failed := True\<rparr>) (s_events s)
                     else s_events s);
          evs \<leftarrow> event_unblock (b_data blocked) evs;
          Some (set_events evs s)
        }
      | BLOCKED_JOB_START_METHOD \<Rightarrow>
          Some (if failed then reply_failed blocked s
                else send [Reply (b_data blocked) (StartReply (j_path job))] s)
      | BLOCKED_JOB_STOP_METHOD \<Rightarrow>
          Some (if failed then reply_failed blocked s
                else send [Reply (b_data blocked) StopReply] s)
      | BLOCKED_JOB_RESTART_METHOD \<Rightarrow>
          Some (if failed then reply_failed blocked s
                else send [Reply (b_data blocked) (RestartReply (j_path job))] s)
      | BLOCKED_INSTANCE_START_METHOD \<Rightarrow>
          Some (if failed then reply_failed blocked s
                else send [Reply (b_data blocked) InstanceStartReply] s)
      | BLOCKED_INSTANCE_STOP_METHOD \<Rightarrow>
          Some (if failed then reply_failed blocked s
                else send [Reply (b_data blocked) InstanceStopReply] s)
      | BLOCKED_INSTANCE_RESTART_METHOD \<Rightarrow>
          Some (if failed then reply_failed blocked s
                else send [Reply (b_data blocked) InstanceRestartReply] s)
      | _ \<Rightarrow> None)"

definition job_finished :: "bool \<Rightarrow> sys \<Rightarrow> Job \<Rightarrow> (sys \<times> Job) option" where
  "job_finished failed s job = do {
     s \<leftarrow> foldM (finish_blocked failed job) (j_blocking job) s;
     Some (s, job\<lparr>j_blocking := []\<rparr>)
   }"

definition job_failed :: "ProcessType \<Rightarrow> int \<Rightarrow> sys \<Rightarrow> Job \<Rightarrow> (sys \<times> Job) option" where
  "job_failed process status s job =
     (if j_failed job then Some (s, job)
      else do {
        let job = job\<lparr>j_failed := True, j_failed_process := process, j_exit_status := status\<rparr>;
        let s = send_conns (\<lambda>conn. JobFailedSignal conn (j_path job) status) s;
        job_finished True s job
      })"

section \<open>Events of a job\<close>

unbundle bit_operations_syntax

text \<open>The variables of the job's environment that the class exports.\<close>

fun export_loop :: "(string \<Rightarrow> string option) \<Rightarrow> string list \<Rightarrow> string list \<Rightarrow> string list \<Rightarrow> string list" where
  "export_loop genv job_env [] env = env"
| "export_loop genv job_env (e # es) env =
     export_loop genv job_env es
       (case environ_lookup job_env e (length e) of
          None \<Rightarrow> env
        | Some i \<Rightarrow> environ_add genv False (job_env ! i) env)"

definition job_emit_event_env :: "os \<Rightarrow> JobClass \<Rightarrow> Job \<Rightarrow> bool \<Rightarrow> string list" where
  "job_emit_event_env w cls job stop =
     (let genv = os_getenv w;
          env = environ_set genv True (''JOB='' @ c_name cls) [];
          env = environ_set genv True (''INSTANCE='' @ j_name job) env;
          env = export_loop genv (j_env job) (c_export cls) env
      in if \<not> stop then env
         else if \<not> j_failed job then environ_add genv True ''RESULT=ok'' env
         else
           (let env = environ_add genv True ''RESULT=failed'' env
            in if j_failed_process job = PROCESS_INVALID
               then environ_add genv True ''PROCESS=respawn'' env
               else
                 (let env = environ_set genv True
                              (''PROCESS='' @ (case process_name (j_failed_process job) of
                                 None \<Rightarrow> ''(null)'' | Some name \<Rightarrow> name)) env
                  in if j_exit_status job = -1 then env
                     else if (j_exit_status job AND NOT 0xff) \<noteq> 0 then
                       (case os_signal_name w (drop_bit 8 (j_exit_status job)) of
                          Some sig \<Rightarrow> environ_set genv True (''EXIT_SIGNAL='' @ sig) env
                        | None \<Rightarrow>
                            environ_set genv True
                              (''EXIT_SIGNAL='' @ show_int (drop_bit 8 (j_exit_status job))) env)
                     else environ_set genv True
                       (''EXIT_STATUS='' @ show_int (j_exit_status job)) env)))"

text \<open>\<^verbatim>\<open>job_emit_event\<close> gives the number of the new event. The starting and stopping events block the
  job until they are finished.\<close>

definition job_emit_event :: "os \<Rightarrow> sys \<Rightarrow> Job \<Rightarrow> (nat \<times> sys) option" where
  "job_emit_event w s job = do {
     (name, block, stop) \<leftarrow>
       (case j_state job of
          JOB_STARTING \<Rightarrow> Some (''starting'', True, False)
        | JOB_RUNNING \<Rightarrow> Some (''started'', False, False)
        | JOB_STOPPING \<Rightarrow> Some (''stopping'', True, True)
        | JOB_WAITING \<Rightarrow> Some (''stopped'', False, True)
        | _ \<Rightarrow> None);
     cls \<leftarrow> class_of s job;
     let env = job_emit_event_env w cls job stop;
     (event, s) \<leftarrow> event_create name env s;
     let s = (if block
              then set_events (event_upd event
                     (\<lambda>e. e\<lparr>e_blocking := e_blocking e @ [blocked_new BLOCKED_JOB (j_id job)]\<rparr>)
                     (s_events s)) s
              else s);
     Some (event, s)
   }"

section \<open>Freeing\<close>

text \<open>\<^verbatim>\<open>nih_free\<close> on a job also frees its stop condition, whose destructor unblocks the events.\<close>

definition free_condition :: "EventOperator option \<Rightarrow> sys \<Rightarrow> sys option" where
  "free_condition oper s =
     (case oper of
        None \<Rightarrow> Some s
      | Some t \<Rightarrow> do {
          evs \<leftarrow> free_operators t (s_events s);
          Some (set_events evs s)
        })"

definition job_free :: "Job \<Rightarrow> sys \<Rightarrow> sys option" where
  "job_free job s = do {
     s \<leftarrow> free_condition (j_stop_on job) s;
     Some (s\<lparr>s_jobs := (s_jobs s)(j_id job := None),
             s_instances := removeAll (j_id job) (s_instances s)\<rparr>)
   }"

text \<open>A class is the parent of its jobs and of its conditions, and its destructor takes it out of
  the table.\<close>

definition class_free :: "nat \<Rightarrow> sys \<Rightarrow> sys option" where
  "class_free cid s = do {
     cls \<leftarrow> s_classes s cid;
     s \<leftarrow> foldM (\<lambda>jid s. do { job \<leftarrow> s_jobs s jid; job_free job s }) (class_instances s cid) s;
     s \<leftarrow> free_condition (c_start_on cls) s;
     s \<leftarrow> free_condition (c_stop_on cls) s;
     Some (s\<lparr>s_classes := (s_classes s)(cid := None),
             s_registered := removeAll cid (s_registered s)\<rparr>)
   }"

section \<open>Changing state\<close>

text \<open>What entering the waiting state does last: the job, and maybe its class, are freed.\<close>

definition leave_waiting :: "sys \<Rightarrow> Job \<Rightarrow> sys option" where
  "leave_waiting s job = do {
     let s = s\<lparr>s_instances := removeAll (j_id job) (s_instances s)\<rparr>;
     (unused, s) \<leftarrow> job_class_reconsider (j_class job) s;
     cls \<leftarrow> class_of s job;
     if c_deleted cls \<and> unused then do {
       s \<leftarrow> job_free job s;
       class_free (j_class job) s
     } else do {
       let s = send_conns (\<lambda>conn. InstanceRemoved conn (c_path cls) (j_path job)) s;
       job_free job s
     }
   }"

text \<open>Start the process if the class has it; in any case the next state is entered at once.\<close>

definition spawn_and_next ::
    "os \<Rightarrow> bool \<Rightarrow> ProcessType \<Rightarrow> sys \<Rightarrow> Job \<Rightarrow> (JobState \<times> sys \<times> Job) option" where
  "spawn_and_next w start process s job = do {
     (s, job) \<leftarrow> (if start then job_process_start w process s job else Some (s, job));
     job_next_state s job
   }"

text \<open>Stay until the process has done its work, or go on when there is none.\<close>

definition wait_or_next ::
    "bool \<Rightarrow> sys \<Rightarrow> Job \<Rightarrow> (JobState \<times> sys \<times> Job) option" where
  "wait_or_next wait s job = (if wait then Some (j_state job, s, job) else job_next_state s job)"

definition has_process :: "JobClass \<Rightarrow> ProcessType \<Rightarrow> bool" where
  "has_process cls process \<longleftrightarrow> c_process cls process \<noteq> None"

definition security_wanted :: "os \<Rightarrow> JobClass \<Rightarrow> sys \<Rightarrow> bool \<times> sys" where
  "security_wanted w cls s =
     (if has_process cls PROCESS_SECURITY then call (os_apparmor w) s else (False, s))"

text \<open>The actions of \<^verbatim>\<open>job_change_state\<close>, for a job whose state is set to the new one already. The
  first component of the result is the state to go to next.\<close>

definition enter_starting :: "os \<Rightarrow> JobState \<Rightarrow> sys \<Rightarrow> Job \<Rightarrow> (JobState \<times> sys \<times> Job) option" where
  "enter_starting w old_state s job = do {
     nih_assert (j_goal job = JOB_START);
     nih_assert (old_state = JOB_WAITING \<or> old_state = JOB_POST_STOP);
     let job = (case j_start_env job of
                  None \<Rightarrow> job | Some env \<Rightarrow> job\<lparr>j_env := env, j_start_env := None\<rparr>);
     let job = job\<lparr>j_stop_env := None, j_failed := False, j_failed_process := PROCESS_INVALID,
                  j_exit_status := 0\<rparr>;
     (event, s) \<leftarrow> job_emit_event w s job;
     Some (JOB_STARTING, s, job\<lparr>j_blocker := Some event\<rparr>)
   }"

definition enter_running :: "os \<Rightarrow> JobState \<Rightarrow> sys \<Rightarrow> Job \<Rightarrow> (JobState \<times> sys \<times> Job) option" where
  "enter_running w old_state s job = do {
     cls \<leftarrow> class_of s job;
     nih_assert (j_goal job = JOB_START);
     nih_assert (old_state = JOB_POST_START \<or> old_state = JOB_PRE_STOP);
     (s, job) \<leftarrow>
       (if old_state = JOB_PRE_STOP then job_finished False s (job\<lparr>j_stop_env := None\<rparr>)
        else do {
          (event, s) \<leftarrow> job_emit_event w s job;
          if \<not> c_task cls then job_finished False s job else Some (s, job)
        });
     Some (JOB_RUNNING, s, job)
   }"

definition enter_stopping :: "os \<Rightarrow> JobState \<Rightarrow> sys \<Rightarrow> Job \<Rightarrow> (JobState \<times> sys \<times> Job) option" where
  "enter_stopping w old_state s job = do {
     nih_assert (old_state \<in> {JOB_STARTING, JOB_PRE_STARTING, JOB_PRE_START, JOB_SECURITY, JOB_SPAWNED,
       JOB_POST_START, JOB_RUNNING, JOB_PRE_STOP});
     (event, s) \<leftarrow> job_emit_event w s job;
     Some (JOB_STOPPING, s, job\<lparr>j_blocker := Some event\<rparr>)
   }"

definition enter_killed :: "os \<Rightarrow> JobState \<Rightarrow> sys \<Rightarrow> Job \<Rightarrow> (JobState \<times> sys \<times> Job) option" where
  "enter_killed w old_state s job = do {
     cls \<leftarrow> class_of s job;
     nih_assert (old_state = JOB_STOPPING);
     if main_running cls job then do {
       (s, job) \<leftarrow> job_process_kill w PROCESS_MAIN s job;
       Some (JOB_KILLED, s, job)
     } else job_next_state s job
   }"

definition enter_waiting :: "os \<Rightarrow> JobState \<Rightarrow> sys \<Rightarrow> Job \<Rightarrow> sys option" where
  "enter_waiting w old_state s job = do {
     nih_assert (j_goal job = JOB_STOP);
     nih_assert (old_state = JOB_POST_STOP \<or> old_state = JOB_STARTING);
     (event, s) \<leftarrow> job_emit_event w s job;
     (s, job) \<leftarrow> job_finished False s job;
     leave_waiting s job
   }"

definition enter_action ::
    "os \<Rightarrow> JobState \<Rightarrow> sys \<Rightarrow> Job \<Rightarrow> (JobState \<times> sys \<times> Job option) option" where
  "enter_action w old_state s job = do {
     cls \<leftarrow> class_of s job;
     let start = nih_assert (j_goal job = JOB_START);
     let alive = map_option (\<lambda>(state, s, job). (state, s, Some job));
     (case j_state job of
        JOB_STARTING \<Rightarrow> alive (enter_starting w old_state s job)
      | JOB_SECURITY_SPAWNING \<Rightarrow> do {
          start;
          nih_assert (old_state = JOB_STARTING);
          let (wanted, s) = security_wanted w cls s;
          alive (spawn_and_next w wanted PROCESS_SECURITY s job)
        }
      | JOB_SECURITY \<Rightarrow> do {
          start;
          nih_assert (old_state = JOB_SECURITY_SPAWNING);
          let (wanted, s) = security_wanted w cls s;
          alive (wait_or_next wanted s job)
        }
      | JOB_PRE_STARTING \<Rightarrow> do {
          start;
          nih_assert (old_state = JOB_SECURITY);
          alive (spawn_and_next w (has_process cls PROCESS_PRE_START) PROCESS_PRE_START s job)
        }
      | JOB_PRE_START \<Rightarrow> do {
          start;
          nih_assert (old_state = JOB_PRE_STARTING);
          alive (wait_or_next (has_process cls PROCESS_PRE_START) s job)
        }
      | JOB_SPAWNING \<Rightarrow> do {
          start;
          nih_assert (old_state = JOB_PRE_START);
          alive (spawn_and_next w (has_process cls PROCESS_MAIN) PROCESS_MAIN s job)
        }
      | JOB_SPAWNED \<Rightarrow> do {
          start;
          nih_assert (old_state = JOB_SPAWNING);
          alive (wait_or_next (has_process cls PROCESS_MAIN) s job)
        }
      | JOB_POST_STARTING \<Rightarrow> do {
          start;
          nih_assert (old_state = JOB_SPAWNED);
          alive (spawn_and_next w (has_process cls PROCESS_POST_START) PROCESS_POST_START s job)
        }
      | JOB_POST_START \<Rightarrow> do {
          start;
          nih_assert (old_state = JOB_POST_STARTING);
          alive (wait_or_next (has_process cls PROCESS_POST_START) s job)
        }
      | JOB_RUNNING \<Rightarrow> alive (enter_running w old_state s job)
      | JOB_PRE_STOPPING \<Rightarrow> do {
          nih_assert (j_goal job = JOB_STOP);
          nih_assert (old_state = JOB_RUNNING);
          alive (spawn_and_next w (has_process cls PROCESS_PRE_STOP) PROCESS_PRE_STOP s job)
        }
      | JOB_PRE_STOP \<Rightarrow> do {
          nih_assert (j_goal job = JOB_STOP);
          nih_assert (old_state = JOB_PRE_STOPPING);
          alive (wait_or_next (has_process cls PROCESS_PRE_STOP) s job)
        }
      | JOB_STOPPING \<Rightarrow> alive (enter_stopping w old_state s job)
      | JOB_KILLED \<Rightarrow> alive (enter_killed w old_state s job)
      | JOB_POST_STOPPING \<Rightarrow> do {
          nih_assert (old_state = JOB_KILLED);
          alive (spawn_and_next w (has_process cls PROCESS_POST_STOP) PROCESS_POST_STOP s job)
        }
      | JOB_POST_STOP \<Rightarrow> do {
          nih_assert (old_state = JOB_POST_STOPPING);
          alive (wait_or_next (has_process cls PROCESS_POST_STOP) s job)
        }
      | JOB_WAITING \<Rightarrow> do {
          s \<leftarrow> enter_waiting w old_state s job;
          Some (JOB_WAITING, s, None)
        })
   }"

text \<open>The body of the loop of \<^verbatim>\<open>job_change_state\<close>.\<close>

definition enter_state ::
    "os \<Rightarrow> JobState \<Rightarrow> sys \<Rightarrow> Job \<Rightarrow> (JobState \<times> sys \<times> Job option) option" where
  "enter_state w state s job =
     (let old_state = j_state job;
          job = job\<lparr>j_state := state\<rparr>;
          s = send_conns (\<lambda>conn. StateChanged conn (j_path job) (job_state_name state)) s
      in enter_action w old_state s job)"

text \<open>The loop ends: entering a state either stays there or asks for a state of smaller rank.\<close>

fun state_rank :: "JobState \<Rightarrow> nat" where
  "state_rank JOB_SECURITY_SPAWNING = 9"
| "state_rank JOB_SECURITY = 8"
| "state_rank JOB_PRE_STARTING = 7"
| "state_rank JOB_PRE_START = 6"
| "state_rank JOB_SPAWNING = 5"
| "state_rank JOB_SPAWNED = 4"
| "state_rank JOB_POST_STARTING = 3"
| "state_rank JOB_POST_START = 2"
| "state_rank JOB_PRE_STOPPING = 3"
| "state_rank JOB_PRE_STOP = 2"
| "state_rank JOB_KILLED = 4"
| "state_rank JOB_POST_STOPPING = 3"
| "state_rank JOB_POST_STOP = 2"
| "state_rank _ = 1"

lemma state_rank_pos [simp]: "0 < state_rank st"
  by (cases st) auto

lemma set_goal_state [simp]:
  "j_state (snd (set_goal goal s job)) = j_state job"
  by (simp add: set_goal_def)

lemma job_next_state_keeps: "job_next_state s job = Some (st, s', job') \<Longrightarrow> j_state job' = j_state job"
  by (auto simp: job_next_state_def set_goal_def split: JobState.splits JobGoal.splits
    elim!: bind_eq_Some_E)

lemma job_next_state_rank:
  assumes "job_next_state s job = Some (st, s', job')"
    and "j_state job \<notin> {JOB_WAITING, JOB_STARTING, JOB_RUNNING, JOB_STOPPING}"
  shows "state_rank st < state_rank (j_state job)"
  using assms by (auto simp: job_next_state_def split: JobState.splits JobGoal.splits)

lemma job_process_start_state:
  "job_process_start w process s job = Some (s', job') \<Longrightarrow> j_state job' = j_state job"
  by (auto simp: job_process_start_def Let_def split: prod.splits elim!: bind_eq_Some_E)

lemma job_process_kill_state:
  "job_process_kill w process s job = Some (s', job') \<Longrightarrow> j_state job' = j_state job"
  by (auto simp: job_process_kill_def job_process_set_kill_timer_def Let_def
    split: prod.splits if_splits elim!: bind_eq_Some_E)

lemma job_finished_state: "job_finished failed s job = Some (s', job') \<Longrightarrow> j_state job' = j_state job"
  by (auto simp: job_finished_def elim!: bind_eq_Some_E)

lemma spawn_and_next_rank:
  assumes "spawn_and_next w start process s job = Some (st, s', job')"
    and "j_state job \<notin> {JOB_WAITING, JOB_STARTING, JOB_RUNNING, JOB_STOPPING}"
  shows "j_state job' = j_state job \<and> state_rank st < state_rank (j_state job)"
proof -
  obtain s1 job1 where "j_state job1 = j_state job" and "job_next_state s1 job1 = Some (st, s', job')"
    using assms(1) by (auto simp: spawn_and_next_def dest: job_process_start_state
      split: if_splits elim!: bind_eq_Some_E)
  then show ?thesis using assms(2) job_next_state_keeps job_next_state_rank by metis
qed

lemma wait_or_next_rank:
  assumes "wait_or_next wait s job = Some (st, s', job')"
    and "j_state job \<notin> {JOB_WAITING, JOB_STARTING, JOB_RUNNING, JOB_STOPPING}"
  shows "j_state job' = j_state job \<and> (st = j_state job \<or> state_rank st < state_rank (j_state job))"
  using assms job_next_state_keeps job_next_state_rank
  by (auto simp: wait_or_next_def split: if_splits)

lemma enter_killed_rank:
  assumes "enter_killed w old s job = Some (st, s', job')" and "j_state job = JOB_KILLED"
  shows "j_state job' = j_state job \<and> (st = j_state job \<or> state_rank st < state_rank (j_state job))"
  using assms job_next_state_keeps job_next_state_rank job_process_kill_state
  by (fastforce simp: enter_killed_def split: if_splits elim!: bind_eq_Some_E)

lemma enter_fixed_state:
  "enter_starting w old s job = Some (st, s', job') \<Longrightarrow> j_state job' = j_state job \<and> st = JOB_STARTING"
  "enter_running w old s job = Some (st, s', job') \<Longrightarrow> j_state job' = j_state job \<and> st = JOB_RUNNING"
  "enter_stopping w old s job = Some (st, s', job') \<Longrightarrow> j_state job' = j_state job \<and> st = JOB_STOPPING"
  by (auto simp: enter_starting_def enter_running_def enter_stopping_def job_finished_def Let_def
    split: option.splits if_splits elim!: bind_eq_Some_E)

lemma enter_action_rank:
  assumes "enter_action w old s job = Some (st, s', Some job')"
  shows "j_state job' = j_state job \<and> (st = j_state job \<or> state_rank st < state_rank (j_state job))"
  using assms
  by (cases "j_state job")
    (auto simp: enter_action_def dest!: enter_fixed_state spawn_and_next_rank wait_or_next_rank
      enter_killed_rank split: prod.splits elim!: bind_eq_Some_E)

lemma enter_state_rank:
  assumes "enter_state w state s job = Some (st, s', Some job')"
  shows "j_state job' = state \<and> (st = state \<or> state_rank st < state_rank state)"
  using enter_action_rank assms by (fastforce simp: enter_state_def Let_def)

function job_change_state :: "os \<Rightarrow> JobState \<Rightarrow> sys \<Rightarrow> Job \<Rightarrow> job_result" where
  "job_change_state w state s job =
     (if j_state job = state then Some (s, Some job)
      else if j_blocker job \<noteq> None then Some (s, Some job)
      else do {
        (state, s, job) \<leftarrow> enter_state w state s job;
        (case job of
           None \<Rightarrow> Some (s, None)
         | Some job \<Rightarrow> job_change_state w state s job)
      })"
  by pat_completeness auto
termination
  by (relation "measure (\<lambda>(w, state, s, job). if j_state job = state then 0 else state_rank state)")
    (auto dest!: enter_state_rank)

declare job_change_state.simps [simp del]

definition job_change_goal :: "os \<Rightarrow> JobGoal \<Rightarrow> sys \<Rightarrow> Job \<Rightarrow> job_result" where
  "job_change_goal w goal s job =
     (if j_goal job = goal then Some (s, Some job)
      else
        (let (s, job) = set_goal goal s job
         in case goal of
              JOB_START \<Rightarrow>
                if j_state job = JOB_WAITING then do {
                  (state, s, job) \<leftarrow> job_next_state s job;
                  job_change_state w state s job
                } else Some (s, Some job)
            | JOB_STOP \<Rightarrow>
                if j_state job = JOB_RUNNING then do {
                  (state, s, job) \<leftarrow> job_next_state s job;
                  job_change_state w state s job
                } else Some (s, Some job)
            | JOB_RESPAWN \<Rightarrow> Some (s, Some job)))"

lemma job_change_goal_set:
  assumes "j_state job \<in> {JOB_POST_START, JOB_PRE_STOP}"
  shows "job_change_goal w JOB_START s job = Some (apsnd Some (set_goal JOB_START s job))"
  using assms by (auto simp: job_change_goal_def set_goal_def split: prod.splits)

text \<open>Going on to the next state, as the callers of \<^verbatim>\<open>job_change_state\<close> do.\<close>

definition change_to_next :: "os \<Rightarrow> sys \<Rightarrow> Job \<Rightarrow> job_result" where
  "change_to_next w s job = do {
     (state, s, job) \<leftarrow> job_next_state s job;
     job_change_state w state s job
   }"

section \<open>New jobs\<close>

definition job_new :: "os \<Rightarrow> nat \<Rightarrow> string \<Rightarrow> sys \<Rightarrow> (Job \<times> sys) option" where
  "job_new w cid name s = do {
     cls \<leftarrow> s_classes s cid;
     (stop_on, evs) \<leftarrow>
       (case c_stop_on cls of
          None \<Rightarrow> Some (None, s_events s)
        | Some t \<Rightarrow> do { (t, evs) \<leftarrow> event_operator_copy t (s_events s); Some (Some t, evs) });
     let job = \<lparr>j_id = s_next s, j_name = name, j_class = cid,
       j_path = os_dbus_path w [DBUS_PATH_UPSTART, ''jobs'', c_name cls, name],
       j_goal = JOB_STOP, j_state = JOB_WAITING, j_env = [], j_start_env = None, j_stop_env = None,
       j_stop_on = stop_on, j_fds = [], j_pid = (\<lambda>_. 0), j_blocker = None, j_blocking = [],
       j_kill_timer = None, j_kill_process = PROCESS_INVALID, j_failed = False,
       j_failed_process = PROCESS_INVALID, j_exit_status = 0, j_respawn_time = 0,
       j_respawn_count = 0, j_trace_forks = 0, j_trace_state = TRACE_NONE,
       j_process_data = (\<lambda>_. None)\<rparr>;
     let s = set_job job (s\<lparr>s_events := evs, s_next := s_next s + 1,
                             s_instances := s_instances s @ [s_next s]\<rparr>);
     s \<leftarrow> foldM (\<lambda>conn. job_register job conn True) (s_conns s) s;
     Some (job, s)
   }"

definition job_name :: "sys \<Rightarrow> Job \<Rightarrow> string option" where
  "job_name s job = do {
     cls \<leftarrow> class_of s job;
     Some (if j_name job \<noteq> [] then c_name cls @ '' ('' @ j_name job @ '')'' else c_name cls)
   }"

text \<open>\<^verbatim>\<open>job_find\<close>: by class, or by the name of a registered class.\<close>

definition instance_lookup :: "nat \<Rightarrow> string \<Rightarrow> sys \<Rightarrow> nat option" where
  "instance_lookup cid name s =
     find (\<lambda>jid. case s_jobs s jid of None \<Rightarrow> False | Some job \<Rightarrow> j_name job = name)
       (class_instances s cid)"

definition job_find :: "nat option \<Rightarrow> string option \<Rightarrow> string option \<Rightarrow> sys \<Rightarrow> nat option option" where
  "job_find class job_class name s = do {
     nih_assert (class \<noteq> None \<or> job_class \<noteq> None);
     Some (case name of
         None \<Rightarrow> None
       | Some name \<Rightarrow>
           (case (case class of
                    Some cid \<Rightarrow> Some cid
                  | None \<Rightarrow> Option.bind job_class (\<lambda>n. job_class_get_registered n s)) of
              None \<Rightarrow> None
            | Some cid \<Rightarrow> instance_lookup cid name s))
   }"

definition job_class_cgroups :: "JobClass \<Rightarrow> bool" where
  "job_class_cgroups cls \<longleftrightarrow> c_cgroups cls \<noteq> []"

definition job_needs_cgroups :: "sys \<Rightarrow> Job \<Rightarrow> bool option" where
  "job_needs_cgroups s job = map_option job_class_cgroups (class_of s job)"

text \<open>The last process that the class defines.\<close>

definition process_order :: "ProcessType list" where
  "process_order = [PROCESS_MAIN, PROCESS_PRE_START, PROCESS_POST_START, PROCESS_PRE_STOP,
     PROCESS_POST_STOP, PROCESS_SECURITY]"

definition job_last_process :: "sys \<Rightarrow> Job \<Rightarrow> ProcessType \<Rightarrow> bool option" where
  "job_last_process s job process = do {
     cls \<leftarrow> class_of s job;
     nih_assert (process \<in> set process_order);
     Some (fold (\<lambda>p last. if c_process cls p \<noteq> None then p else last) process_order PROCESS_INVALID
       = process)
   }"

section \<open>The D-Bus methods of an instance\<close>

text \<open>The result of a method: the name of the error raised, or success.\<close>

type_synonym method_result = "((string + unit) \<times> sys \<times> Job option) option"

definition raise_error :: "string \<Rightarrow> sys \<Rightarrow> Job \<Rightarrow> method_result" where
  "raise_error name s job = Some (Inl name, s, Some job)"

text \<open>The caller waits (a blocked message is added to the job) or is answered at once.\<close>

definition finish_and_wait ::
    "BlockedType \<Rightarrow> nat \<Rightarrow> bool \<Rightarrow> sys \<Rightarrow> Job \<Rightarrow> (sys \<times> Job) option" where
  "finish_and_wait ty message wait s job = do {
     (s, job) \<leftarrow> job_finished False s job;
     Some (s, if wait then job\<lparr>j_blocking := j_blocking job @ [blocked_new ty message]\<rparr> else job)
   }"

definition answer :: "nat \<Rightarrow> bool \<Rightarrow> reply \<Rightarrow> sys \<times> Job option \<Rightarrow> method_result" where
  "answer message wait r = (\<lambda>(s, job).
     Some (Inr (), if wait then s else send [Reply message r] s, job))"

definition job_start :: "os \<Rightarrow> nat \<Rightarrow> bool \<Rightarrow> sys \<Rightarrow> Job \<Rightarrow> method_result" where
  "job_start w message wait s job = do {
     cls \<leftarrow> class_of s job;
     if j_goal job = JOB_START then raise_error ''AlreadyStarted'' s job
     else do {
       if job_class_cgroups cls \<and> \<not> cgroup_manager_available s then raise_error ''CGroupManagerNotAvailable'' s job
       else do {
         let job = job\<lparr>j_start_env := None\<rparr>;
         (s, job) \<leftarrow> finish_and_wait BLOCKED_INSTANCE_START_METHOD message wait s job;
         r \<leftarrow> job_change_goal w JOB_START s job;
         answer message wait InstanceStartReply r
       }
     }
   }"

definition job_stop :: "os \<Rightarrow> nat \<Rightarrow> bool \<Rightarrow> sys \<Rightarrow> Job \<Rightarrow> method_result" where
  "job_stop w message wait s job =
     (if j_goal job = JOB_STOP then raise_error ''AlreadyStopped'' s job
      else do {
        let job = job\<lparr>j_stop_env := None\<rparr>;
        (s, job) \<leftarrow> finish_and_wait BLOCKED_INSTANCE_STOP_METHOD message wait s job;
        r \<leftarrow> job_change_goal w JOB_STOP s job;
        answer message wait InstanceStopReply r
      })"

definition job_restart :: "os \<Rightarrow> nat \<Rightarrow> bool \<Rightarrow> sys \<Rightarrow> Job \<Rightarrow> method_result" where
  "job_restart w message wait s job =
     (if j_goal job = JOB_STOP then raise_error ''AlreadyStopped'' s job
      else do {
        let job = job\<lparr>j_start_env := None, j_stop_env := None\<rparr>;
        (s, job) \<leftarrow> finish_and_wait BLOCKED_INSTANCE_RESTART_METHOD message wait s job;
        (s, job) \<leftarrow> job_change_goal w JOB_STOP s job;
        job \<leftarrow> job;
        r \<leftarrow> job_change_goal w JOB_START s job;
        answer message wait InstanceRestartReply r
      })"

definition job_reload :: "os \<Rightarrow> nat \<Rightarrow> sys \<Rightarrow> Job \<Rightarrow> method_result" where
  "job_reload w message s job = do {
     cls \<leftarrow> class_of s job;
     if j_pid job PROCESS_MAIN \<le> 0 then raise_error ''NotRunning'' s job
     else do {
       let (ok, s) = call (os_kill w) s;
       let s = send [Killed (j_pid job PROCESS_MAIN) (c_reload_signal cls)] s;
       if \<not> ok then raise_error ''SystemError'' s job
       else Some (Inr (), send [Reply message ReloadReply] s, Some job)
     }
   }"

definition job_get_name :: "Job \<Rightarrow> string" where
  "job_get_name job = j_name job"

definition job_get_goal :: "Job \<Rightarrow> string option" where
  "job_get_goal job = job_goal_name (j_goal job)"

definition job_get_state :: "Job \<Rightarrow> string option" where
  "job_get_state job = job_state_name (j_state job)"

definition job_get_processes :: "Job \<Rightarrow> (string \<times> int) list" where
  "job_get_processes job =
     map (\<lambda>p. (the (process_name p), j_pid job p)) (filter (\<lambda>p. j_pid job p > 0) process_order)"

section \<open>Errors of the child set-up\<close>

definition job_child_error_handler :: "os \<Rightarrow> ProcessType \<Rightarrow> sys \<Rightarrow> Job \<Rightarrow> job_result" where
  "job_child_error_handler w process s job = do {
     nih_assert (process \<noteq> PROCESS_INVALID);
     nih_assert (process \<noteq> PROCESS_LAST);
     let job = job\<lparr>j_pid := (j_pid job)(process := 0)\<rparr>;
     let fail_and_stop = (\<lambda>u :: unit. do {
           (s, job) \<leftarrow> job_failed process (-1) s job;
           job_change_goal w JOB_STOP s job
         });
     (case process of
        PROCESS_SECURITY \<Rightarrow> fail_and_stop ()
      | PROCESS_PRE_START \<Rightarrow> on_job (change_to_next w) (fail_and_stop ())
      | PROCESS_MAIN \<Rightarrow> on_job (change_to_next w) (fail_and_stop ())
      | PROCESS_POST_START \<Rightarrow> change_to_next w s job
      | PROCESS_PRE_STOP \<Rightarrow> change_to_next w s job
      | PROCESS_POST_STOP \<Rightarrow> on_job (change_to_next w) (fail_and_stop ())
      | _ \<Rightarrow> None)
   }"

end
