(* ===== verification/JobInv.thy ===== *)
theory JobInv
  imports Job
begin

text \<open>
  The invariant of a job and the correctness of \<^verbatim>\<open>job_change_state\<close>.

  References to events are counted with a frame: \<open>counted R s refs\<close> says that every event has as many
  blockers as \<open>refs\<close> has references to it and \<open>R\<close> says others hold. The operations on a job are shown
  to keep this for every \<open>R\<close>, so that they never unblock an event on behalf of somebody else.

  The main result is that \<^verbatim>\<open>job_change_state\<close>, asked to enter the next state of a job, always returns
  without an abort, keeps the invariant, and leaves the job either freed or at rest: in a state with
  something pending (an event that blocks the job, a process that runs) or running.
\<close>

section \<open>References\<close>

definition cond_refs :: "EventOperator option \<Rightarrow> nat list" where
  "cond_refs c = (case c of None \<Rightarrow> [] | Some t \<Rightarrow> oper_refs t)"

definition cond_ok :: "EventOperator option \<Rightarrow> bool" where
  "cond_ok c \<longleftrightarrow> (case c of None \<Rightarrow> True | Some t \<Rightarrow> oper_ok t)"

definition blocked_refs :: "Blocked list \<Rightarrow> nat list" where
  "blocked_refs bs = map b_data (filter (\<lambda>b. b_type b = BLOCKED_EVENT) bs)"

definition job_refs :: "Job \<Rightarrow> nat list" where
  "job_refs job = cond_refs (j_stop_on job) @ blocked_refs (j_blocking job)"

definition class_refs :: "JobClass \<Rightarrow> nat list" where
  "class_refs cls = cond_refs (c_start_on cls) @ cond_refs (c_stop_on cls)"

definition counted :: "(nat \<Rightarrow> nat) \<Rightarrow> Event list \<Rightarrow> nat list \<Rightarrow> bool" where
  "counted R evs refs \<longleftrightarrow> (\<forall>i. blockers_of evs i = R i + count_list refs i)"

definition fresh_ok :: "sys \<Rightarrow> bool" where
  "fresh_ok s \<longleftrightarrow> (\<forall>i\<in>event_ids (s_events s). i < s_next s)"

text \<open>Only the events, the counters and the list of outputs differ.\<close>

definition calm :: "sys \<Rightarrow> sys \<Rightarrow> bool" where
  "calm s s' \<longleftrightarrow> (\<exists>evs n c out. s' = s\<lparr>s_events := evs, s_next := n, s_calls := c, s_out := out\<rparr>)"

section \<open>Invariants\<close>

definition class_ok :: "JobClass \<Rightarrow> bool" where
  "class_ok cls \<longleftrightarrow>
     (\<forall>p proc. c_process cls p = Some proc \<longrightarrow> p_command proc \<noteq> None) \<and>
     c_kill_timeout cls \<noteq> 0 \<and> cond_ok (c_start_on cls) \<and> cond_ok (c_stop_on cls)"

definition blocking_ok :: "Blocked list \<Rightarrow> bool" where
  "blocking_ok bs \<longleftrightarrow> (\<forall>b\<in>set bs. b_type b \<noteq> BLOCKED_JOB \<and> b_type b \<noteq> BLOCKED_EMIT_METHOD)"

text \<open>The job with its class, and its references counted.\<close>

definition job_ok :: "(nat \<Rightarrow> nat) \<Rightarrow> sys \<Rightarrow> JobClass \<Rightarrow> Job \<Rightarrow> bool" where
  "job_ok R s cls job \<longleftrightarrow>
     class_of s job = Some cls \<and> class_ok cls \<and> cond_ok (j_stop_on job) \<and>
     blocking_ok (j_blocking job) \<and> fresh_ok s \<and> counted R (s_events s) (job_refs job)"

definition quiet :: "Job \<Rightarrow> bool" where
  "quiet job \<longleftrightarrow> j_kill_timer job = None \<and> j_kill_process job = PROCESS_INVALID"

text \<open>What the code relies on of the kernel: a process that was forked has a positive id, and
  AppArmor does not come and go.\<close>

definition os_ok :: "os \<Rightarrow> bool" where
  "os_ok w \<longleftrightarrow> (\<forall>n. os_fork w n > 0) \<and> (\<forall>m n. os_apparmor w m = os_apparmor w n)"

text \<open>Something will happen to the job by itself, or it is running.\<close>

fun at_rest_in :: "Job \<Rightarrow> JobState \<Rightarrow> bool" where
  "at_rest_in job JOB_STARTING \<longleftrightarrow> j_blocker job \<noteq> None"
| "at_rest_in job JOB_SECURITY \<longleftrightarrow> j_pid job PROCESS_SECURITY > 0"
| "at_rest_in job JOB_PRE_START \<longleftrightarrow> j_pid job PROCESS_PRE_START > 0"
| "at_rest_in job JOB_SPAWNED \<longleftrightarrow> j_pid job PROCESS_MAIN > 0"
| "at_rest_in job JOB_POST_START \<longleftrightarrow> j_pid job PROCESS_POST_START > 0"
| "at_rest_in job JOB_RUNNING \<longleftrightarrow> True"
| "at_rest_in job JOB_PRE_STOP \<longleftrightarrow> j_pid job PROCESS_PRE_STOP > 0"
| "at_rest_in job JOB_STOPPING \<longleftrightarrow> j_blocker job \<noteq> None"
| "at_rest_in job JOB_KILLED \<longleftrightarrow> j_pid job PROCESS_MAIN > 0"
| "at_rest_in job JOB_POST_STOP \<longleftrightarrow> j_pid job PROCESS_POST_STOP > 0"
| "at_rest_in job _ \<longleftrightarrow> False"

definition at_rest :: "Job \<Rightarrow> bool" where
  "at_rest job \<longleftrightarrow> at_rest_in job (j_state job) \<and>
     (j_blocker job \<noteq> None \<longleftrightarrow> j_state job \<in> {JOB_STARTING, JOB_STOPPING}) \<and>
     (j_state job \<noteq> JOB_KILLED \<longrightarrow> quiet job) \<and>
     j_kill_process job = (if j_kill_timer job = None then PROCESS_INVALID else PROCESS_MAIN)"

text \<open>The assertions on entering a state.\<close>

fun may_enter :: "JobState \<Rightarrow> JobGoal \<Rightarrow> JobState \<Rightarrow> bool" where
  "may_enter old goal JOB_WAITING \<longleftrightarrow> goal = JOB_STOP \<and> old \<in> {JOB_POST_STOP, JOB_STARTING}"
| "may_enter old goal JOB_STARTING \<longleftrightarrow> goal = JOB_START \<and> old \<in> {JOB_WAITING, JOB_POST_STOP}"
| "may_enter old goal JOB_SECURITY_SPAWNING \<longleftrightarrow> goal = JOB_START \<and> old = JOB_STARTING"
| "may_enter old goal JOB_SECURITY \<longleftrightarrow> goal = JOB_START \<and> old = JOB_SECURITY_SPAWNING"
| "may_enter old goal JOB_PRE_STARTING \<longleftrightarrow> goal = JOB_START \<and> old = JOB_SECURITY"
| "may_enter old goal JOB_PRE_START \<longleftrightarrow> goal = JOB_START \<and> old = JOB_PRE_STARTING"
| "may_enter old goal JOB_SPAWNING \<longleftrightarrow> goal = JOB_START \<and> old = JOB_PRE_START"
| "may_enter old goal JOB_SPAWNED \<longleftrightarrow> goal = JOB_START \<and> old = JOB_SPAWNING"
| "may_enter old goal JOB_POST_STARTING \<longleftrightarrow> goal = JOB_START \<and> old = JOB_SPAWNED"
| "may_enter old goal JOB_POST_START \<longleftrightarrow> goal = JOB_START \<and> old = JOB_POST_STARTING"
| "may_enter old goal JOB_RUNNING \<longleftrightarrow> goal = JOB_START \<and> old \<in> {JOB_POST_START, JOB_PRE_STOP}"
| "may_enter old goal JOB_PRE_STOPPING \<longleftrightarrow> goal = JOB_STOP \<and> old = JOB_RUNNING"
| "may_enter old goal JOB_PRE_STOP \<longleftrightarrow> goal = JOB_STOP \<and> old = JOB_PRE_STOPPING"
| "may_enter old goal JOB_STOPPING \<longleftrightarrow> goal \<noteq> JOB_RESPAWN \<and>
     old \<in> {JOB_STARTING, JOB_PRE_STARTING, JOB_PRE_START, JOB_SECURITY, JOB_SPAWNED, JOB_POST_START,
       JOB_RUNNING, JOB_PRE_STOP}"
| "may_enter old goal JOB_KILLED \<longleftrightarrow> goal \<noteq> JOB_RESPAWN \<and> old = JOB_STOPPING"
| "may_enter old goal JOB_POST_STOPPING \<longleftrightarrow> goal \<noteq> JOB_RESPAWN \<and> old = JOB_KILLED"
| "may_enter old goal JOB_POST_STOP \<longleftrightarrow> goal \<noteq> JOB_RESPAWN \<and> old = JOB_POST_STOPPING"

text \<open>A process that is about to be waited for has been started.\<close>

fun primed_for :: "os \<Rightarrow> JobClass \<Rightarrow> Job \<Rightarrow> JobState \<Rightarrow> bool" where
  "primed_for w cls job JOB_SECURITY_SPAWNING \<longleftrightarrow>
     (has_process cls PROCESS_SECURITY \<and> os_apparmor w 0 \<longrightarrow> j_pid job PROCESS_SECURITY > 0)"
| "primed_for w cls job JOB_PRE_STARTING \<longleftrightarrow>
     (has_process cls PROCESS_PRE_START \<longrightarrow> j_pid job PROCESS_PRE_START > 0)"
| "primed_for w cls job JOB_SPAWNING \<longleftrightarrow>
     (has_process cls PROCESS_MAIN \<longrightarrow> j_pid job PROCESS_MAIN > 0)"
| "primed_for w cls job JOB_POST_STARTING \<longleftrightarrow>
     (has_process cls PROCESS_POST_START \<longrightarrow> j_pid job PROCESS_POST_START > 0)"
| "primed_for w cls job JOB_PRE_STOPPING \<longleftrightarrow>
     (has_process cls PROCESS_PRE_STOP \<longrightarrow> j_pid job PROCESS_PRE_STOP > 0)"
| "primed_for w cls job JOB_POST_STOPPING \<longleftrightarrow>
     (has_process cls PROCESS_POST_STOP \<longrightarrow> j_pid job PROCESS_POST_STOP > 0)"
| "primed_for w cls job _ \<longleftrightarrow> True"

lemma primed_for_state [simp]: "primed_for w cls (job\<lparr>j_state := x\<rparr>) st = primed_for w cls job st"
  by (cases st) auto

section \<open>Frames\<close>

lemma calmI: "s' = s\<lparr>s_events := evs, s_next := n, s_calls := c, s_out := out\<rparr> \<Longrightarrow> calm s s'"
  by (auto simp: calm_def)

lemma calm_refl [simp]: "calm s s"
  by (rule calmI [where evs = "s_events s" and n = "s_next s" and c = "s_calls s" and out = "s_out s"]) simp

lemma calm_trans: "calm a b \<Longrightarrow> calm b c \<Longrightarrow> calm a c"
proof -
  assume "calm a b" and "calm b c"
  then obtain evs n k out evs' n' k' out' where
    "b = a\<lparr>s_events := evs, s_next := n, s_calls := k, s_out := out\<rparr>"
    "c = b\<lparr>s_events := evs', s_next := n', s_calls := k', s_out := out'\<rparr>"
    unfolding calm_def by blast
  then have "c = a\<lparr>s_events := evs', s_next := n', s_calls := k', s_out := out'\<rparr>" by simp
  then show "calm a c" by (rule calmI)
qed

lemma calm_sel:
  assumes "calm s s'"
  shows "s_classes s' = s_classes s" and "s_registered s' = s_registered s"
    and "s_sources s' = s_sources s" and "s_jobs s' = s_jobs s" and "s_instances s' = s_instances s"
    and "s_conns s' = s_conns s" and "s_conf s' = s_conf s"
  using assms by (auto simp: calm_def)

lemma calm_send [simp]: "calm s (send out s)"
  by (rule calmI [where evs = "s_events s" and n = "s_next s" and c = "s_calls s" and out = "s_out s @ out"]) (simp add: send_def)

lemma calm_call: "call f s = (x, s') \<Longrightarrow> calm s s' \<and> s_events s' = s_events s \<and> s_next s' = s_next s"
  by (auto simp: call_def intro: calmI [where evs = "s_events s" and n = "s_next s" and c = "s_calls s + 1" and out = "s_out s"])

lemma calm_set_events [simp]: "calm s (set_events evs s)"
  by (rule calmI [where evs = evs and n = "s_next s" and c = "s_calls s" and out = "s_out s"]) (simp add: set_events_def)

lemma send_conns_send: "send_conns f s = send (map f (s_conns s)) s"
  by (simp add: send_conns_def)

lemma counted_present: "counted R evs refs \<Longrightarrow> i \<in> set refs \<Longrightarrow> i \<in> event_ids evs"
proof -
  assume "counted R evs refs" and "i \<in> set refs"
  then have "blockers_of evs i > 0"
    by (auto simp: counted_def count_list_0_iff intro!: Nat.gr0I)
  then show ?thesis by (auto simp: blockers_of_def split: option.splits)
qed

text \<open>References that are counted can be released.\<close>

lemma counted_release:
  assumes "counted R evs (xs @ ys @ zs)"
  shows "\<exists>evs'. foldM event_unblock ys evs = Some evs' \<and> counted R evs' (xs @ zs) \<and>
    event_ids evs' = event_ids evs"
proof -
  have sub: "set ys \<subseteq> event_ids evs" using counted_present [OF assms] by auto
  have cnt: "count_list ys i \<le> blockers_of evs i" for i
    using assms by (simp add: counted_def)
  obtain evs' where "foldM event_unblock ys evs = Some evs'" "event_ids evs' = event_ids evs"
    "\<And>i. blockers_of evs' i = blockers_of evs i - count_list ys i"
    using ev.release_all [OF sub cnt] by blast
  then show ?thesis using assms by (auto simp: counted_def)
qed

lemma counted_append_swap: "counted R evs (xs @ ys) = counted R evs (ys @ xs)"
  by (auto simp: counted_def add.commute)

text \<open>Nor do the counts of references differ.\<close>

definition tame :: "sys \<Rightarrow> sys \<Rightarrow> bool" where
  "tame s s' \<longleftrightarrow> calm s s' \<and> blockers_of (s_events s') = blockers_of (s_events s) \<and>
     (fresh_ok s \<longrightarrow> fresh_ok s')"

lemma tame_refl [simp]: "tame s s"
  by (simp add: tame_def)

lemma tame_trans: "tame a b \<Longrightarrow> tame b c \<Longrightarrow> tame a c"
  by (auto simp: tame_def intro: calm_trans)

lemma tame_send [simp]: "tame s (send out s)"
  by (simp add: tame_def fresh_ok_def)

lemma tame_send_conns [simp]: "tame s (send_conns f s)"
  by (simp add: send_conns_def)

lemma tame_call: "call f s = (x, s') \<Longrightarrow> tame s s'"
  by (auto simp: tame_def fresh_ok_def dest: calm_call)

lemma tame_event_create:
  assumes "event_create name env s = Some (i, s')" and "fresh_ok s"
  shows "tame s s' \<and> i = s_next s"
proof -
  have new: "s_next s \<notin> event_ids (s_events s)" using assms(2) by (auto simp: fresh_ok_def)
  obtain evs where evs: "event_new (s_next s) name env (s_events s) = Some evs" "i = s_next s"
    and s': "s' = send [MainLoopInterrupt] (s\<lparr>s_events := evs, s_next := s_next s + 1\<rparr>)"
    using assms(1) by (auto simp: event_create_def elim!: bind_eq_Some_E)
  have "blockers_of evs j = blockers_of (s_events s) j" for j
    using evs(1) new by (auto simp: event_new_def blockers_of_def event_get_append event_get_Cons
      split: option.splits if_splits)
  moreover have "event_ids evs = insert (s_next s) (event_ids (s_events s))"
    using evs(1) by (auto simp: event_new_def event_ids_def)
  moreover have "calm s s'"
    unfolding s' by (rule calmI [where evs = evs and n = "s_next s + 1" and c = "s_calls s" and
      out = "s_out s @ [MainLoopInterrupt]"]) (simp add: send_def)
  ultimately show ?thesis using evs(2) assms(2) by (auto simp: tame_def s' fresh_ok_def)
qed

lemma event_create_Some: "name \<noteq> [] \<Longrightarrow> \<exists>i s'. event_create name env s = Some (i, s')"
  by (simp add: event_create_def event_new_def)

lemma job_emit_event_ok:
  assumes "class_of s job = Some cls" and "fresh_ok s"
    and "j_state job \<in> {JOB_STARTING, JOB_RUNNING, JOB_STOPPING, JOB_WAITING}"
  shows "\<exists>i s'. job_emit_event w s job = Some (i, s') \<and> tame s s'"
proof -
  have "\<exists>name block stop. (case j_state job of
        JOB_STARTING \<Rightarrow> Some (''starting'', True, False)
      | JOB_RUNNING \<Rightarrow> Some (''started'', False, False)
      | JOB_STOPPING \<Rightarrow> Some (''stopping'', True, True)
      | JOB_WAITING \<Rightarrow> Some (''stopped'', False, True)
      | _ \<Rightarrow> None) = Some (name, block, stop) \<and> name \<noteq> []"
    using assms(3) by (cases "j_state job") auto
  then obtain name block stop where ev:
    "(case j_state job of
        JOB_STARTING \<Rightarrow> Some (''starting'', True, False)
      | JOB_RUNNING \<Rightarrow> Some (''started'', False, False)
      | JOB_STOPPING \<Rightarrow> Some (''stopping'', True, True)
      | JOB_WAITING \<Rightarrow> Some (''stopped'', False, True)
      | _ \<Rightarrow> None) = Some (name, block, stop)" and "name \<noteq> []"
    by blast
  obtain i s1 where s1: "event_create name (job_emit_event_env w cls job stop) s = Some (i, s1)"
    using event_create_Some [OF \<open>name \<noteq> []\<close>] by blast
  have tame1: "tame s s1" using tame_event_create [OF s1 assms(2)] by simp
  let ?evs = "event_upd i (\<lambda>e. e\<lparr>e_blocking := e_blocking e @ [blocked_new BLOCKED_JOB (j_id job)]\<rparr>) (s_events s1)"
  have "blockers_of ?evs = blockers_of (s_events s1)" and "event_ids ?evs = event_ids (s_events s1)"
    by (auto simp: fun_eq_iff blockers_of_def event_get_upd split: option.splits)
  then have "tame s1 (set_events ?evs s1)"
    by (simp add: tame_def) (simp add: set_events_def fresh_ok_def)
  then have "tame s (if block then set_events ?evs s1 else s1)"
    using tame1 tame_trans by auto
  then show ?thesis using ev assms(1) s1 by (auto simp: job_emit_event_def Let_def)
qed

lemma job_ok_tame:
  assumes "job_ok R s cls job" and "tame s s'"
    and "j_class job' = j_class job" and "j_stop_on job' = j_stop_on job" and "j_blocking job' = j_blocking job"
  shows "job_ok R s' cls job'"
  using assms calm_sel(1) [of s s']
  by (auto simp: job_ok_def tame_def class_of_def counted_def job_refs_def)

section \<open>The operations\<close>

lemma finish_blocked_ok:
  assumes "b_type b \<noteq> BLOCKED_JOB" and "b_type b \<noteq> BLOCKED_EMIT_METHOD" and "fresh_ok s"
    and "counted R (s_events s) (xs @ blocked_refs (b # bs))"
  shows "\<exists>s'. finish_blocked failed job b s = Some s' \<and> calm s s' \<and> fresh_ok s' \<and>
    counted R (s_events s') (xs @ blocked_refs bs)"
proof (cases "b_type b = BLOCKED_EVENT")
  case True
  let ?i = "b_data b"
  let ?evs = "if failed then event_upd ?i (\<lambda>e. e\<lparr>e_failed := True\<rparr>) (s_events s) else s_events s"
  have same: "blockers_of ?evs = blockers_of (s_events s)" "event_ids ?evs = event_ids (s_events s)"
    by (auto simp: fun_eq_iff blockers_of_def event_get_upd split: option.splits)
  have "counted R ?evs (xs @ [?i] @ blocked_refs bs)"
    using assms(4) True same by (simp add: counted_def blocked_refs_def)
  then obtain evs' where "foldM event_unblock [?i] ?evs = Some evs'"
    "counted R evs' (xs @ blocked_refs bs)" "event_ids evs' = event_ids ?evs"
    using counted_release by blast
  then show ?thesis
    using True assms(3) same
    by (auto simp: finish_blocked_def Let_def fresh_ok_def set_events_def calm_set_events [unfolded set_events_def]
      elim!: bind_eq_Some_E)
next
  case False
  then have "counted R (s_events s) (xs @ blocked_refs bs)"
    using assms(4) by (simp add: blocked_refs_def)
  moreover have "fresh_ok (send p s)" for p using assms(3) by (simp add: fresh_ok_def)
  ultimately show ?thesis
    using False assms(1,2)
    by (cases "b_type b") (auto simp: finish_blocked_def reply_failed_def)
qed

lemma foldM_finish_ok:
  assumes "blocking_ok bs" and "fresh_ok s" and "counted R (s_events s) (xs @ blocked_refs bs)"
  shows "\<exists>s'. foldM (finish_blocked failed job) bs s = Some s' \<and> calm s s' \<and> fresh_ok s' \<and>
    counted R (s_events s') xs"
  using assms
proof (induction bs arbitrary: s)
  case Nil
  then show ?case by (simp add: blocked_refs_def)
next
  case (Cons b bs)
  then obtain s1 where s1: "finish_blocked failed job b s = Some s1" "calm s s1" "fresh_ok s1"
    "counted R (s_events s1) (xs @ blocked_refs bs)"
    using finish_blocked_ok [of b s R xs bs failed job] by (auto simp: blocking_ok_def)
  moreover have "blocking_ok bs" using Cons.prems by (simp add: blocking_ok_def)
  ultimately show ?case using Cons.IH [of s1] by (auto intro: calm_trans)
qed

lemma job_finished_ok:
  assumes "job_ok R s cls job"
  shows "\<exists>s'. job_finished failed s job = Some (s', job\<lparr>j_blocking := []\<rparr>) \<and> calm s s' \<and>
    job_ok R s' cls (job\<lparr>j_blocking := []\<rparr>)"
proof -
  obtain s' where "foldM (finish_blocked failed job) (j_blocking job) s = Some s'" "calm s s'"
    "fresh_ok s'" "counted R (s_events s') (cond_refs (j_stop_on job))"
    using foldM_finish_ok [of "j_blocking job" s R "cond_refs (j_stop_on job)" failed job] assms
    by (auto simp: job_ok_def job_refs_def)
  then show ?thesis
    using assms calm_sel(1) [of s s']
    by (auto simp: job_finished_def job_ok_def job_refs_def class_of_def blocking_ok_def blocked_refs_def)
qed

lemma job_failed_ok:
  assumes "job_ok R s cls job"
  shows "\<exists>s' job'. job_failed process status s job = Some (s', job') \<and> calm s s' \<and> job_ok R s' cls job' \<and>
    (\<exists>f p x b. job' = job\<lparr>j_failed := f, j_failed_process := p, j_exit_status := x, j_blocking := b\<rparr>)"
proof (cases "j_failed job")
  case True
  then have "job_failed process status s job =
      Some (s, job\<lparr>j_failed := j_failed job, j_failed_process := j_failed_process job,
        j_exit_status := j_exit_status job, j_blocking := j_blocking job\<rparr>)"
    by (simp add: job_failed_def)
  then show ?thesis using assms by fastforce
next
  case False
  let ?job = "job\<lparr>j_failed := True, j_failed_process := process, j_exit_status := status\<rparr>"
  let ?s = "send_conns (\<lambda>conn. JobFailedSignal conn (j_path ?job) status) s"
  have "job_ok R ?s cls ?job" by (rule job_ok_tame [OF assms]) simp_all
  then obtain s' where "job_finished True ?s ?job = Some (s', ?job\<lparr>j_blocking := []\<rparr>)" "calm ?s s'"
    "job_ok R s' cls (?job\<lparr>j_blocking := []\<rparr>)"
    using job_finished_ok by blast
  moreover have "calm s ?s" using tame_send_conns tame_def by blast
  ultimately show ?thesis using False by (auto simp: job_failed_def Let_def intro: calm_trans)
qed

lemma job_process_start_ok:
  assumes "job_ok R s cls job" and "has_process cls process" and "os_ok w"
    and "process \<noteq> PROCESS_INVALID" and "process \<noteq> PROCESS_LAST"
  shows "\<exists>s' pid tr data. job_process_start w process s job =
      Some (s', job\<lparr>j_pid := (j_pid job)(process := pid), j_trace_forks := 0, j_trace_state := tr,
        j_process_data := data\<rparr>) \<and> tame s s' \<and> pid > 0"
proof -
  obtain proc where proc1: "c_process cls process = Some proc"
    using assms(2) by (auto simp: has_process_def)
  then have "p_command proc \<noteq> None" using assms(1) by (simp add: job_ok_def class_ok_def)
  then obtain command where proc: "c_process cls process = Some proc" "p_command proc = Some command"
    using proc1 by blast
  let ?s = "readyfd_setup process cls job s"
  obtain s1 where s1: "call (os_fork w) ?s = (os_fork w (s_calls s), s1)"
    by (simp add: call_def readyfd_setup_def job_process_readyfd_new_def send_def)
  have "tame s ?s" using readyfd_setup_send [of process cls job s] tame_send by metis
  then have "tame s (send out s1)" for out using tame_call [OF s1] tame_send tame_trans by blast
  moreover have "os_fork w (s_calls s) > 0" using assms(3) by (simp add: os_ok_def)
  ultimately show ?thesis
    using assms proc s1
    by (auto simp: job_process_start_def job_ok_def Let_def split: prod.splits)
qed

lemma job_process_kill_ok:
  assumes "job_ok R s cls job" and "j_pid job process > 0" and "quiet job"
  shows "\<exists>s' t p. job_process_kill w process s job =
      Some (s', job\<lparr>j_kill_timer := t, j_kill_process := p\<rparr>) \<and> tame s s' \<and>
      p = (if t = None then PROCESS_INVALID else process)"
proof -
  let ?pid = "j_pid job process" and ?sig = "c_kill_signal cls"
  obtain s1 where s1: "call (os_getpgid w) s = (os_getpgid w (s_calls s), s1)" by (simp add: call_def)
  obtain s2 where s2: "call (os_kill w) s1 = (os_kill w (s_calls s1), s2)" by (simp add: call_def)
  let ?s' = "send [Killed (if os_getpgid w (s_calls s) > 0 then - os_getpgid w (s_calls s) else ?pid) ?sig] s2"
  have tame: "tame s ?s'" using tame_call [OF s1] tame_call [OF s2] tame_send tame_trans by blast
  have kill: "system_kill w ?pid ?sig s = Some (os_kill w (s_calls s1), ?s')"
    using assms(2) s1 s2 by (simp add: system_kill_def)
  have id: "job = job\<lparr>j_kill_timer := None, j_kill_process := PROCESS_INVALID\<rparr>"
    using assms(3) by (simp add: quiet_def)
  have t: "c_kill_timeout cls \<noteq> 0" and c: "class_of s job = Some cls"
    using assms(1) by (auto simp: job_ok_def class_ok_def)
  show ?thesis
  proof (cases "os_kill w (s_calls s1)")
    case True
    then have "job_process_kill w process s job =
        Some (?s', job\<lparr>j_kill_timer := Some (c_kill_timeout cls), j_kill_process := process\<rparr>)"
      using assms(2,3) kill t c by (simp add: job_process_kill_def job_process_set_kill_timer_def quiet_def)
    then show ?thesis using tame by fastforce
  next
    case False
    then have "job_process_kill w process s job =
        Some (?s', job\<lparr>j_kill_timer := None, j_kill_process := PROCESS_INVALID\<rparr>)"
      using assms(2,3) kill c id by (simp add: job_process_kill_def quiet_def)
    then show ?thesis using tame by fastforce
  qed
qed

section \<open>The next state\<close>

text \<open>The goals with which a job is found in its states.\<close>

definition goal_fits :: "JobState \<Rightarrow> JobGoal \<Rightarrow> bool" where
  "goal_fits state goal \<longleftrightarrow> goal \<noteq> JOB_RESPAWN \<and>
     (state \<in> {JOB_WAITING, JOB_SECURITY_SPAWNING, JOB_SPAWNING, JOB_POST_STARTING} \<longrightarrow> goal = JOB_START) \<and>
     (state = JOB_PRE_STOPPING \<longrightarrow> goal = JOB_STOP)"

lemma job_next_state_edge:
  assumes "class_of s job = Some cls" and "goal_fits (j_state job) (j_goal job)"
  shows "\<exists>st. job_next_state s job = Some (st, s, job) \<and> may_enter (j_state job) (j_goal job) st \<and>
    st \<noteq> j_state job"
  using assms by (cases "j_state job"; cases "j_goal job") (simp_all add: job_next_state_def goal_fits_def)

lemma may_enter_fits: "may_enter old goal st \<Longrightarrow> st \<noteq> JOB_WAITING \<Longrightarrow> goal_fits st goal"
  by (cases st) (auto simp: goal_fits_def)

text \<open>What the actions leave as it is.\<close>

definition keeps :: "Job \<Rightarrow> Job \<Rightarrow> bool" where
  "keeps job job' \<longleftrightarrow> j_id job' = j_id job \<and> j_class job' = j_class job \<and> j_path job' = j_path job \<and>
     j_name job' = j_name job \<and> j_goal job' = j_goal job \<and> j_state job' = j_state job \<and>
     j_stop_on job' = j_stop_on job"

lemma keeps_refl [simp]: "keeps job job"
  by (simp add: keeps_def)

lemma keeps_trans: "keeps a b \<Longrightarrow> keeps b c \<Longrightarrow> keeps a c"
  by (auto simp: keeps_def)

text \<open>The result of entering a state: the loop ends with the job at rest, or goes on.\<close>

definition entered ::
    "os \<Rightarrow> (nat \<Rightarrow> nat) \<Rightarrow> JobClass \<Rightarrow> sys \<Rightarrow> Job \<Rightarrow> JobState \<Rightarrow> sys \<Rightarrow> Job \<Rightarrow> bool" where
  "entered w R cls s job st s' job' \<longleftrightarrow>
     calm s s' \<and> job_ok R s' cls job' \<and> keeps job job' \<and>
     (if st = j_state job then at_rest job'
      else may_enter (j_state job) (j_goal job) st \<and> j_blocker job' = None \<and> quiet job' \<and>
        primed_for w cls job' (j_state job))"

lemma spawn_and_next_ok:
  assumes ok: "job_ok R s cls job" and w: "os_ok w" and fits: "goal_fits (j_state job) (j_goal job)"
    and start: "start \<longrightarrow> has_process cls process" "process \<noteq> PROCESS_INVALID" "process \<noteq> PROCESS_LAST"
    and blk: "j_blocker job = None" "quiet job"
    and primed: "\<And>job'. (start \<longrightarrow> j_pid job' process > 0) \<Longrightarrow> primed_for w cls job' (j_state job)"
  shows "\<exists>st s' job'. spawn_and_next w start process s job = Some (st, s', job') \<and>
    entered w R cls s job st s' job'"
proof -
  obtain s1 job1 where run: "(if start then job_process_start w process s job else Some (s, job)) = Some (s1, job1)"
    and tame: "tame s s1" and keeps: "keeps job job1" and pid: "start \<longrightarrow> j_pid job1 process > 0"
    and blk1: "j_blocker job1 = None" "quiet job1" "j_blocking job1 = j_blocking job"
  proof (cases start)
    case True
    with start have "has_process cls process" by simp
    from job_process_start_ok [OF ok this w start(2,3)] True blk show ?thesis
      by (auto simp: keeps_def quiet_def intro!: that)
  next
    case False
    with blk show ?thesis by (intro that [of s job]) simp_all
  qed
  have ok1: "job_ok R s1 cls job1"
    using keeps blk1 by (intro job_ok_tame [OF ok tame]) (simp_all add: keeps_def)
  have same: "j_state job1 = j_state job" "j_goal job1 = j_goal job" using keeps by (auto simp: keeps_def)
  obtain st where st: "job_next_state s1 job1 = Some (st, s1, job1)"
    "may_enter (j_state job) (j_goal job) st" "st \<noteq> j_state job"
    using job_next_state_edge [of s1 job1 cls] ok1 fits same by (auto simp: job_ok_def)
  have "entered w R cls s job st s1 job1"
    using tame ok1 keeps st blk1 primed [OF pid] by (simp add: entered_def tame_def)
  then show ?thesis using run st(1) by (auto simp: spawn_and_next_def)
qed

lemma wait_or_next_ok:
  assumes ok: "job_ok R s cls job" and fits: "goal_fits (j_state job) (j_goal job)"
    and blk: "j_blocker job = None" "quiet job"
    and rest: "wait \<Longrightarrow> at_rest_in job (j_state job)"
    and state: "j_state job \<notin> {JOB_STARTING, JOB_STOPPING}" and primed: "primed_for w cls job (j_state job)"
  shows "\<exists>st s' job'. wait_or_next wait s job = Some (st, s', job') \<and> entered w R cls s job st s' job'"
proof (cases wait)
  case True
  then show ?thesis
    using ok blk rest state by (auto simp: wait_or_next_def entered_def at_rest_def quiet_def)
next
  case False
  then show ?thesis
    using job_next_state_edge [OF _ fits, of s cls] ok blk primed
    by (auto simp: wait_or_next_def entered_def job_ok_def)
qed

lemma enter_killed_ok:
  assumes ok: "job_ok R s cls job" and "j_state job = JOB_KILLED" and "j_goal job \<noteq> JOB_RESPAWN"
    and "old = JOB_STOPPING" and blk: "j_blocker job = None" "quiet job"
  shows "\<exists>st s' job'. enter_killed w old s job = Some (st, s', job') \<and> entered w R cls s job st s' job'"
proof (cases "main_running cls job")
  case True
  then have pid: "j_pid job PROCESS_MAIN > 0" by (simp add: main_running_def)
  obtain s' t p where run: "job_process_kill w PROCESS_MAIN s job =
      Some (s', job\<lparr>j_kill_timer := t, j_kill_process := p\<rparr>)" and tame: "tame s s'"
    and timer: "p = (if t = None then PROCESS_INVALID else PROCESS_MAIN)"
    using job_process_kill_ok [OF ok pid blk(2)] by blast
  let ?job = "job\<lparr>j_kill_timer := t, j_kill_process := p\<rparr>"
  have "job_ok R s' cls ?job" by (rule job_ok_tame [OF ok tame]) simp_all
  then have "entered w R cls s job JOB_KILLED s' ?job"
    using tame assms pid timer by (auto simp: entered_def tame_def keeps_def at_rest_def)
  then show ?thesis using run True assms by (auto simp: enter_killed_def job_ok_def)
next
  case False
  have "goal_fits (j_state job) (j_goal job)" using assms by (simp add: goal_fits_def)
  with job_next_state_edge [of s job cls] ok False assms show ?thesis
    by (auto simp: enter_killed_def entered_def job_ok_def)
qed

lemma enter_starting_ok:
  assumes ok: "job_ok R s cls job" and "j_state job = JOB_STARTING" and "j_goal job = JOB_START"
    and "old \<in> {JOB_WAITING, JOB_POST_STOP}" and "quiet job"
  shows "\<exists>st s' job'. enter_starting w old s job = Some (st, s', job') \<and> entered w R cls s job st s' job'"
proof -
  let ?j0 = "case j_start_env job of None \<Rightarrow> job | Some env \<Rightarrow> job\<lparr>j_env := env, j_start_env := None\<rparr>"
  let ?job = "?j0\<lparr>j_stop_env := None, j_failed := False, j_failed_process := PROCESS_INVALID, j_exit_status := 0\<rparr>"
  have k: "keeps job ?job" "j_blocking ?job = j_blocking job" "quiet ?job"
    using assms(5) by (auto simp: keeps_def quiet_def split: option.splits)
  have cls: "class_of s ?job = Some cls"
    using ok k(1) by (simp add: job_ok_def class_of_def keeps_def)
  obtain i s' where ev: "job_emit_event w s ?job = Some (i, s')" and tame: "tame s s'"
    using job_emit_event_ok [OF cls, of w] ok k(1) assms(2) by (auto simp: job_ok_def keeps_def)
  have "job_ok R s' cls (?job\<lparr>j_blocker := Some i\<rparr>)"
    using k by (intro job_ok_tame [OF ok tame]) (simp_all add: keeps_def)
  then have "entered w R cls s job JOB_STARTING s' (?job\<lparr>j_blocker := Some i\<rparr>)"
    using tame k assms(2) by (auto simp: entered_def tame_def keeps_def at_rest_def quiet_def)
  then show ?thesis using ev assms(3,4) by (auto simp: enter_starting_def Let_def)
qed

lemma enter_stopping_ok:
  assumes ok: "job_ok R s cls job" and "j_state job = JOB_STOPPING"
    and "may_enter old (j_goal job) JOB_STOPPING" and "quiet job"
  shows "\<exists>st s' job'. enter_stopping w old s job = Some (st, s', job') \<and> entered w R cls s job st s' job'"
proof -
  obtain i s' where ev: "job_emit_event w s job = Some (i, s')" and tame: "tame s s'"
    using job_emit_event_ok [of s job cls w] ok assms(2) by (auto simp: job_ok_def)
  have "job_ok R s' cls (job\<lparr>j_blocker := Some i\<rparr>)" by (rule job_ok_tame [OF ok tame]) simp_all
  then have "entered w R cls s job JOB_STOPPING s' (job\<lparr>j_blocker := Some i\<rparr>)"
    using tame assms by (auto simp: entered_def tame_def keeps_def at_rest_def quiet_def)
  then show ?thesis using ev assms(3) by (auto simp: enter_stopping_def)
qed

lemma enter_running_ok:
  assumes ok: "job_ok R s cls job" and st: "j_state job = JOB_RUNNING"
    and "j_goal job = JOB_START" and "old \<in> {JOB_POST_START, JOB_PRE_STOP}"
    and blk: "j_blocker job = None" "quiet job"
  shows "\<exists>st s' job'. enter_running w old s job = Some (st, s', job') \<and> entered w R cls s job st s' job'"
proof -
  have cls: "class_of s job = Some cls" and fresh: "fresh_ok s" using ok by (auto simp: job_ok_def)
  have ended: "entered w R cls s job JOB_RUNNING s' job'"
    if "calm s s'" "job_ok R s' cls job'" "keeps job job'" "j_blocker job' = None" "quiet job'" for s' job'
    using that st by (auto simp: entered_def at_rest_def keeps_def quiet_def)
  show ?thesis
  proof (cases "old = JOB_PRE_STOP")
    case True
    let ?job = "job\<lparr>j_stop_env := None\<rparr>"
    have "job_ok R s cls ?job" by (rule job_ok_tame [OF ok tame_refl]) simp_all
    then obtain s' where "job_finished False s ?job = Some (s', ?job\<lparr>j_blocking := []\<rparr>)" "calm s s'"
      "job_ok R s' cls (?job\<lparr>j_blocking := []\<rparr>)"
      using job_finished_ok by blast
    then show ?thesis
      using True cls assms ended [of s' "?job\<lparr>j_blocking := []\<rparr>"]
      by (auto simp: enter_running_def keeps_def quiet_def)
  next
    case False
    obtain i s1 where ev: "job_emit_event w s job = Some (i, s1)" and tame: "tame s s1"
      using job_emit_event_ok [OF cls fresh, of w] st by auto
    have ok1: "job_ok R s1 cls job" by (rule job_ok_tame [OF ok tame]) simp_all
    obtain s2 where "job_finished False s1 job = Some (s2, job\<lparr>j_blocking := []\<rparr>)" "calm s1 s2"
      "job_ok R s2 cls (job\<lparr>j_blocking := []\<rparr>)"
      using job_finished_ok [OF ok1] by blast
    moreover have "calm s s1" using tame by (simp add: tame_def)
    ultimately show ?thesis
      using False cls assms ev ok1 ended [of s1 job] ended [of s2 "job\<lparr>j_blocking := []\<rparr>"] calm_trans [of s s1 s2]
      by (auto simp: enter_running_def keeps_def quiet_def)
  qed
qed

lemma entered_calm: "calm s s1 \<Longrightarrow> entered w R cls s1 job st s' job' \<Longrightarrow> entered w R cls s job st s' job'"
  by (auto simp: entered_def intro: calm_trans)

lemma security_wanted_ok:
  assumes "os_ok w"
  shows "\<exists>s'. security_wanted w cls s = (has_process cls PROCESS_SECURITY \<and> os_apparmor w 0, s') \<and> tame s s'"
proof (cases "has_process cls PROCESS_SECURITY")
  case True
  obtain s' where s': "call (os_apparmor w) s = (os_apparmor w (s_calls s), s')" by (simp add: call_def)
  moreover have "os_apparmor w (s_calls s) = os_apparmor w 0" using assms unfolding os_ok_def by blast
  ultimately show ?thesis using True tame_call [OF s'] by (simp add: security_wanted_def)
qed (simp add: security_wanted_def)

text \<open>Entering a state in which a process is started.\<close>

fun process_of :: "JobState \<Rightarrow> ProcessType option" where
  "process_of JOB_PRE_STARTING = Some PROCESS_PRE_START"
| "process_of JOB_SPAWNING = Some PROCESS_MAIN"
| "process_of JOB_POST_STARTING = Some PROCESS_POST_START"
| "process_of JOB_PRE_STOPPING = Some PROCESS_PRE_STOP"
| "process_of JOB_POST_STOPPING = Some PROCESS_POST_STOP"
| "process_of _ = None"

lemma enter_spawning_ok:
  assumes ok: "job_ok R s cls job" and w: "os_ok w" and enter: "may_enter old (j_goal job) (j_state job)"
    and p: "process_of (j_state job) = Some p" and blk: "j_blocker job = None" "quiet job"
  shows "\<exists>st s' job'. enter_action w old s job = Some (st, s', Some job') \<and> entered w R cls s job st s' job'"
proof -
  have "j_state job \<noteq> JOB_WAITING" using p by auto
  then have fits: "goal_fits (j_state job) (j_goal job)" by (rule may_enter_fits [OF enter])
  have valid: "p \<noteq> PROCESS_INVALID" "p \<noteq> PROCESS_LAST" using p by (cases "j_state job"; simp)+
  have primed: "primed_for w cls job' (j_state job)" if "has_process cls p \<longrightarrow> j_pid job' p > 0" for job'
    using that p by (cases "j_state job") auto
  have "\<exists>st s' job'. spawn_and_next w (has_process cls p) p s job = Some (st, s', job') \<and>
      entered w R cls s job st s' job'"
    using primed valid by (intro spawn_and_next_ok [OF ok w fits _ _ _ blk]) auto
  moreover have "enter_action w old s job =
      map_option (\<lambda>(st, s, job). (st, s, Some job)) (spawn_and_next w (has_process cls p) p s job)"
    using ok enter p by (cases "j_state job") (auto simp: enter_action_def job_ok_def)
  ultimately show ?thesis by auto
qed

text \<open>Entering a state in which a process is waited for.\<close>

fun awaited_in :: "JobState \<Rightarrow> ProcessType option" where
  "awaited_in JOB_PRE_START = Some PROCESS_PRE_START"
| "awaited_in JOB_SPAWNED = Some PROCESS_MAIN"
| "awaited_in JOB_POST_START = Some PROCESS_POST_START"
| "awaited_in JOB_PRE_STOP = Some PROCESS_PRE_STOP"
| "awaited_in JOB_POST_STOP = Some PROCESS_POST_STOP"
| "awaited_in _ = None"

lemma enter_waiting_for_ok:
  assumes ok: "job_ok R s cls job" and enter: "may_enter old (j_goal job) (j_state job)"
    and p: "awaited_in (j_state job) = Some p" and blk: "j_blocker job = None" "quiet job"
    and primed: "primed_for w cls job old"
  shows "\<exists>st s' job'. enter_action w old s job = Some (st, s', Some job') \<and> entered w R cls s job st s' job'"
proof -
  have "j_state job \<noteq> JOB_WAITING" using p by auto
  then have fits: "goal_fits (j_state job) (j_goal job)" by (rule may_enter_fits [OF enter])
  have rest: "at_rest_in job (j_state job)" if "has_process cls p"
    using that p enter primed by (cases "j_state job") auto
  have trivial: "j_state job \<notin> {JOB_STARTING, JOB_STOPPING}" "primed_for w cls job (j_state job)"
    using p by (cases "j_state job"; simp)+
  have "\<exists>st s' job'. wait_or_next (has_process cls p) s job = Some (st, s', job') \<and>
      entered w R cls s job st s' job'"
    using rest trivial by (intro wait_or_next_ok [OF ok fits blk]) auto
  moreover have "enter_action w old s job =
      map_option (\<lambda>(st, s, job). (st, s, Some job)) (wait_or_next (has_process cls p) s job)"
    using ok enter p by (cases "j_state job") (auto simp: enter_action_def job_ok_def)
  ultimately show ?thesis by auto
qed

lemma enter_security_spawning_ok:
  assumes ok: "job_ok R s cls job" and w: "os_ok w" and enter: "may_enter old (j_goal job) (j_state job)"
    and st: "j_state job = JOB_SECURITY_SPAWNING" and blk: "j_blocker job = None" "quiet job"
  shows "\<exists>st s' job'. enter_action w old s job = Some (st, s', Some job') \<and> entered w R cls s job st s' job'"
proof -
  let ?wanted = "has_process cls PROCESS_SECURITY \<and> os_apparmor w 0"
  obtain s1 where s1: "security_wanted w cls s = (?wanted, s1)" "tame s s1"
    using security_wanted_ok [OF w] by blast
  have ok1: "job_ok R s1 cls job" by (rule job_ok_tame [OF ok s1(2)]) simp_all
  have fits: "goal_fits (j_state job) (j_goal job)" using enter st by (simp add: goal_fits_def)
  have "\<exists>st s' job'. spawn_and_next w ?wanted PROCESS_SECURITY s1 job = Some (st, s', job') \<and>
      entered w R cls s1 job st s' job'"
    by (rule spawn_and_next_ok [OF ok1 w fits _ _ _ blk]) (use st in auto)
  then obtain st' s' job' where run: "spawn_and_next w ?wanted PROCESS_SECURITY s1 job = Some (st', s', job')"
    and ent: "entered w R cls s1 job st' s' job'" by blast
  have "entered w R cls s job st' s' job'" using entered_calm ent s1(2) tame_def by blast
  then show ?thesis using ok enter st s1(1) run by (auto simp: enter_action_def job_ok_def)
qed

lemma enter_security_ok:
  assumes ok: "job_ok R s cls job" and w: "os_ok w" and enter: "may_enter old (j_goal job) (j_state job)"
    and st: "j_state job = JOB_SECURITY" and blk: "j_blocker job = None" "quiet job"
    and primed: "primed_for w cls job old"
  shows "\<exists>st s' job'. enter_action w old s job = Some (st, s', Some job') \<and> entered w R cls s job st s' job'"
proof -
  let ?wanted = "has_process cls PROCESS_SECURITY \<and> os_apparmor w 0"
  obtain s1 where s1: "security_wanted w cls s = (?wanted, s1)" "tame s s1"
    using security_wanted_ok [OF w] by blast
  have ok1: "job_ok R s1 cls job" by (rule job_ok_tame [OF ok s1(2)]) simp_all
  have fits: "goal_fits (j_state job) (j_goal job)" using enter st by (simp add: goal_fits_def)
  have "\<exists>st s' job'. wait_or_next ?wanted s1 job = Some (st, s', job') \<and>
      entered w R cls s1 job st s' job'"
    by (rule wait_or_next_ok [OF ok1 fits blk]) (use st enter primed in auto)
  then obtain st' s' job' where run: "wait_or_next ?wanted s1 job = Some (st', s', job')"
    and ent: "entered w R cls s1 job st' s' job'" by blast
  have "entered w R cls s job st' s' job'" using entered_calm ent s1(2) tame_def by blast
  then show ?thesis using ok enter st s1(1) run by (auto simp: enter_action_def job_ok_def)
qed

lemma enter_action_ok:
  assumes ok: "job_ok R s cls job" and w: "os_ok w" and enter: "may_enter old (j_goal job) (j_state job)"
    and blk: "j_blocker job = None" "quiet job" and primed: "primed_for w cls job old"
    and st: "j_state job \<noteq> JOB_WAITING"
  shows "\<exists>st s' job'. enter_action w old s job = Some (st, s', Some job') \<and> entered w R cls s job st s' job'"
proof -
  have cls: "class_of s job = Some cls" using ok by (simp add: job_ok_def)
  consider "j_state job = JOB_STARTING" | "j_state job = JOB_SECURITY_SPAWNING" | "j_state job = JOB_SECURITY"
    | p where "process_of (j_state job) = Some p" | p where "awaited_in (j_state job) = Some p"
    | "j_state job = JOB_RUNNING" | "j_state job = JOB_STOPPING" | "j_state job = JOB_KILLED"
    using st by (cases "j_state job") auto
  then show ?thesis
  proof cases
    case 1
    with enter_starting_ok [OF ok 1, of old w] enter blk cls show ?thesis by (auto simp: enter_action_def)
  next
    case 2
    with enter_security_spawning_ok [OF ok w enter] blk show ?thesis by simp
  next
    case 3
    with enter_security_ok [OF ok w enter] blk primed show ?thesis by simp
  next
    case 4
    with enter_spawning_ok [OF ok w enter] blk show ?thesis by simp
  next
    case 5
    with enter_waiting_for_ok [OF ok enter] blk primed show ?thesis by simp
  next
    case 6
    with enter_running_ok [OF ok 6, of old w] enter blk cls show ?thesis by (auto simp: enter_action_def)
  next
    case 7
    with enter_stopping_ok [OF ok 7, of old w] enter blk cls show ?thesis by (auto simp: enter_action_def)
  next
    case 8
    with enter_killed_ok [OF ok 8, of old w] enter blk cls show ?thesis by (auto simp: enter_action_def)
  qed
qed

section \<open>The end of a job\<close>

text \<open>The job's class is registered, its references are among those of the others, and a deleted
  class is no longer in the configuration.\<close>

definition placed :: "(nat \<Rightarrow> nat) \<Rightarrow> sys \<Rightarrow> JobClass \<Rightarrow> Job \<Rightarrow> bool" where
  "placed R s cls job \<longleftrightarrow> table_ok s \<and> j_class job \<in> set (s_registered s) \<and>
     (\<forall>i. count_list (class_refs cls) i \<le> R i) \<and>
     (c_deleted cls \<longrightarrow> j_class job \<notin> set (s_sources s))"

lemma table_ok_calm: "calm s s' \<Longrightarrow> table_ok s' = table_ok s"
  by (auto simp: calm_def table_ok_def class_name_def [abs_def])

lemma placed_calm: "calm s s' \<Longrightarrow> j_class job' = j_class job \<Longrightarrow> placed R s' cls job' = placed R s cls job"
  using table_ok_calm [of s s'] calm_sel [of s s'] by (simp add: placed_def)

lemma table_ok_drop:
  assumes "table_ok s" and "s_registered s' = removeAll c (s_registered s)" and "s_sources s' = s_sources s"
    and "s_classes s' = (s_classes s)(c := None)" and "c \<notin> set (s_sources s)"
  shows "table_ok s'"
proof -
  have "map (class_name s') (removeAll c (s_registered s)) = map (class_name s) (removeAll c (s_registered s))"
    using assms(4) by (auto simp: class_name_def)
  moreover have "distinct (map (class_name s) (removeAll c (s_registered s)))"
    using assms(1) by (auto simp: table_ok_def intro: distinct_map_removeAll)
  ultimately have "distinct (map (class_name s') (removeAll c (s_registered s)))" by (simp only:)
  then show ?thesis using assms by (auto simp: table_ok_def)
qed

lemma free_condition_ok:
  assumes "cond_ok c" and "counted R (s_events s) (xs @ cond_refs c @ ys)"
  shows "\<exists>evs. free_condition c s = Some (set_events evs s) \<and> counted R evs (xs @ ys) \<and>
    event_ids evs = event_ids (s_events s)"
proof (cases c)
  case None
  then have "free_condition c s = Some (set_events (s_events s) s)"
    by (simp add: free_condition_def set_events_def)
  then show ?thesis using assms(2) None by (auto simp: cond_refs_def)
next
  case (Some t)
  then show ?thesis
    using assms counted_release [of R "s_events s" xs "oper_refs t" ys]
    by (auto simp: free_condition_def cond_ok_def cond_refs_def free_operators_eq)
qed

lemma job_free_ok:
  assumes "job_ok R s cls job" and "j_blocking job = []"
  shows "\<exists>evs. job_free job s = Some (s\<lparr>s_events := evs, s_jobs := (s_jobs s)(j_id job := None),
      s_instances := removeAll (j_id job) (s_instances s)\<rparr>) \<and> counted R evs [] \<and>
    event_ids evs = event_ids (s_events s)"
proof -
  have "cond_ok (j_stop_on job)" "counted R (s_events s) ([] @ cond_refs (j_stop_on job) @ [])"
    using assms by (auto simp: job_ok_def job_refs_def blocked_refs_def)
  from free_condition_ok [OF this] show ?thesis by (auto simp: job_free_def set_events_def)
qed

lemma class_free_ok:
  assumes "s_classes s cid = Some cls" and "class_ok cls" and "class_instances s cid = []"
    and "counted R (s_events s) (class_refs cls)"
  shows "\<exists>evs. class_free cid s = Some (s\<lparr>s_events := evs, s_classes := (s_classes s)(cid := None),
      s_registered := removeAll cid (s_registered s)\<rparr>) \<and> counted R evs [] \<and>
    event_ids evs = event_ids (s_events s)"
proof -
  obtain evs1 where 1: "free_condition (c_start_on cls) s = Some (set_events evs1 s)"
    "counted R evs1 (cond_refs (c_stop_on cls))" "event_ids evs1 = event_ids (s_events s)"
    using free_condition_ok [of "c_start_on cls" R s "[]" "cond_refs (c_stop_on cls)"] assms
    by (auto simp: class_ok_def class_refs_def)
  obtain evs2 where "free_condition (c_stop_on cls) (set_events evs1 s) = Some (set_events evs2 (set_events evs1 s))"
    "counted R evs2 []" "event_ids evs2 = event_ids evs1"
    using free_condition_ok [of "c_stop_on cls" R "set_events evs1 s" "[]" "[]"] assms(2) 1
    by (auto simp: class_ok_def set_events_def)
  then show ?thesis using 1 assms(1,3) by (auto simp: class_free_def set_events_def)
qed

text \<open>A freed job is gone, and only its own references went with it, and those of its class if that
  went too.\<close>

definition freed :: "(nat \<Rightarrow> nat) \<Rightarrow> JobClass \<Rightarrow> Job \<Rightarrow> sys \<Rightarrow> sys \<Rightarrow> bool" where
  "freed R cls job s s' \<longleftrightarrow>
     fresh_ok s' \<and> table_ok s' \<and> s_jobs s' = (s_jobs s)(j_id job := None) \<and>
     s_instances s' = removeAll (j_id job) (s_instances s) \<and> s_conf s' = s_conf s \<and>
     (\<forall>c\<in>set (s_registered s). c \<noteq> j_class job \<longrightarrow> c \<in> set (s_registered s')) \<and>
     (s_classes s' = s_classes s \<and> counted R (s_events s') [] \<and>
        (class_instances s' (j_class job) \<noteq> [] \<longrightarrow> j_class job \<in> set (s_registered s'))
      \<or> c_deleted cls \<and> s_classes s' = (s_classes s)(j_class job := None) \<and>
        class_instances s' (j_class job) = [] \<and>
        (\<forall>i. blockers_of (s_events s') i + count_list (class_refs cls) i = R i))"

lemma leave_waiting_ok:
  assumes ok: "job_ok R s cls job" and placed: "placed R s cls job" and blk: "j_blocking job = []"
  shows "\<exists>s'. leave_waiting s job = Some s' \<and> freed R cls job s s'"
proof -
  let ?cid = "j_class job"
  let ?inst = "removeAll (j_id job) (s_instances s)"
  let ?s0 = "s\<lparr>s_instances := ?inst\<rparr>"
  have cls: "s_classes s ?cid = Some cls" "class_ok cls" and fresh: "fresh_ok s"
    using ok by (auto simp: job_ok_def class_of_def)
  have t0: "table_ok ?s0" using placed by (simp add: placed_def table_ok_def class_name_def [abs_def])
  have reg0: "job_class_get_registered (c_name cls) ?s0 = Some ?cid"
    using registered_Some [OF t0] placed cls by (simp add: placed_def class_name_def)
  obtain r p reg where rec: "job_class_reconsider ?cid ?s0 = Some (r, send p (?s0\<lparr>s_registered := reg\<rparr>))"
    and t1: "table_ok (?s0\<lparr>s_registered := reg\<rparr>)"
    and keep: "\<forall>c\<in>set (s_registered s). c \<noteq> ?cid \<longrightarrow> c \<in> set reg"
    and r: "r \<longleftrightarrow> job_class_get_registered (c_name cls) (?s0\<lparr>s_registered := reg\<rparr>) \<noteq> Some ?cid"
    and reg: "job_class_get_registered (c_name cls) (?s0\<lparr>s_registered := reg\<rparr>) =
      (if class_instances ?s0 ?cid = [] then conf_select_job (c_name cls) ?s0 else Some ?cid)"
    using job_class_reconsider_run [OF t0, of ?cid cls] cls(1) reg0 by auto
  let ?s1 = "send p (?s0\<lparr>s_registered := reg\<rparr>)"
  have ok1: "job_ok R (send q ?s1) cls job" for q
    using ok by (simp add: job_ok_def class_of_def fresh_ok_def)
  show ?thesis
  proof (cases "c_deleted cls \<and> r")
    case True
    then have none: "class_instances ?s0 ?cid = []" using r reg by (auto split: if_splits)
    have nosrc: "?cid \<notin> set (s_sources s)" using placed True by (simp add: placed_def)
    obtain evs where free: "job_free job ?s1 = Some (?s1\<lparr>s_events := evs, s_jobs := (s_jobs s)(j_id job := None),
        s_instances := removeAll (j_id job) ?inst\<rparr>)" and cnt: "counted R evs []"
      and ids: "event_ids evs = event_ids (s_events s)"
      using job_free_ok [OF ok1 [of "[]"] blk] by (auto simp: send_Nil)
    let ?s2 = "?s1\<lparr>s_events := evs, s_jobs := (s_jobs s)(j_id job := None), s_instances := removeAll (j_id job) ?inst\<rparr>"
    have inst2: "class_instances ?s2 ?cid = []"
      using none by (auto simp: class_instances_def filter_empty_conv split: option.splits)
    have cnt2: "counted (\<lambda>i. R i - count_list (class_refs cls) i) (s_events ?s2) (class_refs cls)"
      using cnt placed by (simp add: counted_def placed_def)
    obtain evs' where cf: "class_free ?cid ?s2 = Some (?s2\<lparr>s_events := evs', s_classes := (s_classes s)(?cid := None),
        s_registered := removeAll ?cid reg\<rparr>)"
      and cnt': "counted (\<lambda>i. R i - count_list (class_refs cls) i) evs' []" and ids': "event_ids evs' = event_ids evs"
      using class_free_ok [of ?s2 ?cid cls, OF _ cls(2) inst2 cnt2] cls(1) by auto
    let ?s3 = "?s2\<lparr>s_events := evs', s_classes := (s_classes s)(?cid := None), s_registered := removeAll ?cid reg\<rparr>"
    have "table_ok ?s3"
      by (rule table_ok_drop [OF t1, of _ ?cid]) (use nosrc in simp_all)
    moreover have "blockers_of evs' i + count_list (class_refs cls) i = R i" for i
      using cnt' placed by (simp add: counted_def placed_def)
    moreover have "class_instances ?s3 ?cid = []" using inst2 by (simp add: class_instances_def)
    moreover have "fresh_ok ?s3" using fresh ids ids' by (simp add: fresh_ok_def)
    ultimately have "freed R cls job s ?s3" using keep True by (auto simp: freed_def)
    moreover have "leave_waiting s job = Some ?s3"
      using rec True cls free cf by (simp add: leave_waiting_def class_of_def)
    ultimately show ?thesis by blast
  next
    case False
    let ?q = "map (\<lambda>conn. InstanceRemoved conn (c_path cls) (j_path job)) (s_conns s)"
    obtain evs where free: "job_free job (send ?q ?s1) = Some ((send ?q ?s1)\<lparr>s_events := evs,
        s_jobs := (s_jobs s)(j_id job := None), s_instances := removeAll (j_id job) ?inst\<rparr>)"
      and cnt: "counted R evs []" and ids: "event_ids evs = event_ids (s_events s)"
      using job_free_ok [OF ok1 blk] by auto
    let ?s3 = "(send ?q ?s1)\<lparr>s_events := evs, s_jobs := (s_jobs s)(j_id job := None),
      s_instances := removeAll (j_id job) ?inst\<rparr>"
    have "table_ok ?s3" using t1 by (simp add: table_ok_def class_name_def [abs_def])
    moreover have "fresh_ok ?s3" using fresh ids by (simp add: fresh_ok_def)
    moreover have "?cid \<in> set reg" if "class_instances ?s3 ?cid \<noteq> []"
    proof -
      have "class_instances ?s0 ?cid \<noteq> []"
        using that by (auto simp: class_instances_def filter_empty_conv split: option.splits if_splits)
      then have "job_class_get_registered (c_name cls) (?s0\<lparr>s_registered := reg\<rparr>) = Some ?cid" using reg by simp
      then show ?thesis using registered_Some [OF t1] by simp
    qed
    ultimately have "freed R cls job s ?s3" using keep cnt by (auto simp: freed_def)
    moreover have "leave_waiting s job = Some ?s3"
      using rec False cls free by (auto simp: leave_waiting_def class_of_def send_conns_def)
    ultimately show ?thesis by blast
  qed
qed

lemma freed_calm:
  assumes "calm s s1" and "freed R cls job s1 s'"
  shows "freed R cls job s s'"
  using assms(2) calm_sel [OF assms(1)] by (simp add: freed_def)

lemma freed_job: "freed R cls job' s s' \<Longrightarrow> j_id job' = j_id job \<Longrightarrow> j_class job' = j_class job \<Longrightarrow>
    freed R cls job s s'"
  by (simp add: freed_def)

lemma enter_waiting_ok:
  assumes ok: "job_ok R s cls job" and placed: "placed R s cls job" and "j_state job = JOB_WAITING"
    and "may_enter old (j_goal job) JOB_WAITING"
  shows "\<exists>s'. enter_waiting w old s job = Some s' \<and> freed R cls job s s'"
proof -
  obtain i s1 where ev: "job_emit_event w s job = Some (i, s1)" and tame: "tame s s1"
    using job_emit_event_ok [of s job cls w] ok assms(3) by (auto simp: job_ok_def)
  have ok1: "job_ok R s1 cls job" by (rule job_ok_tame [OF ok tame]) simp_all
  let ?job = "job\<lparr>j_blocking := []\<rparr>"
  obtain s2 where fin: "job_finished False s1 job = Some (s2, ?job)" "calm s1 s2" "job_ok R s2 cls ?job"
    using job_finished_ok [OF ok1] by blast
  have calm: "calm s s2" using tame fin(2) calm_trans by (auto simp: tame_def)
  have "placed R s2 cls ?job" using placed placed_calm [OF calm] by simp
  then obtain s' where lv: "leave_waiting s2 ?job = Some s'" and "freed R cls ?job s2 s'"
    using leave_waiting_ok [OF fin(3)] by auto
  then have "freed R cls job s s'" using freed_calm [OF calm] freed_job by simp
  then show ?thesis using ev fin(1) lv assms(4) by (auto simp: enter_waiting_def)
qed

section \<open>The loop\<close>

text \<open>A job between two calls: at rest, or new.\<close>

definition between_calls :: "Job \<Rightarrow> bool" where
  "between_calls job \<longleftrightarrow>
     (at_rest job \<or> j_state job = JOB_WAITING \<and> j_blocker job = None \<and> quiet job) \<and>
     (j_goal job = JOB_RESPAWN \<longrightarrow> j_state job \<in> {JOB_POST_START, JOB_PRE_STOP}) \<and>
     (j_state job \<in> {JOB_WAITING} \<longrightarrow> j_goal job = JOB_STOP) \<and>
     (j_state job = JOB_RUNNING \<longrightarrow> j_goal job = JOB_START)"

lemma may_enter_goal: "may_enter old goal st \<Longrightarrow> goal \<noteq> JOB_RESPAWN \<and> (st = JOB_RUNNING \<longrightarrow> goal = JOB_START)"
  by (cases st) auto

lemma at_rest_not_waiting: "at_rest job \<Longrightarrow> j_state job \<noteq> JOB_WAITING"
  by (auto simp: at_rest_def)

lemma between_callsI:
  assumes "at_rest job" and "may_enter old (j_goal job) (j_state job)"
  shows "between_calls job"
  using assms(1) may_enter_goal [OF assms(2)] at_rest_not_waiting [OF assms(1)]
  by (simp add: between_calls_def)

definition settled :: "(nat \<Rightarrow> nat) \<Rightarrow> JobClass \<Rightarrow> sys \<Rightarrow> Job \<Rightarrow> sys \<Rightarrow> Job option \<Rightarrow> bool" where
  "settled R cls s job s' r \<longleftrightarrow>
     (case r of
        None \<Rightarrow> freed R cls job s s'
      | Some job' \<Rightarrow> calm s s' \<and> job_ok R s' cls job' \<and> at_rest job' \<and> between_calls job' \<and>
          j_id job' = j_id job \<and> j_class job' = j_class job \<and> j_goal job' = j_goal job)"

lemma settled_calm:
  assumes "calm s s1" and "settled R cls s1 job1 s' r"
    and "j_id job1 = j_id job" and "j_class job1 = j_class job" and "j_goal job1 = j_goal job"
  shows "settled R cls s job s' r"
  using assms freed_calm [OF assms(1)] freed_job
  by (auto simp: settled_def intro: calm_trans split: option.splits)

lemma job_change_state_ok:
  assumes "job_ok R s cls job" and "placed R s cls job" and "os_ok w"
    and "may_enter (j_state job) (j_goal job) st" and "j_state job \<noteq> st"
    and "j_blocker job = None" and "quiet job" and "primed_for w cls job (j_state job)"
  shows "\<exists>s' r. job_change_state w st s job = Some (s', r) \<and> settled R cls s job s' r"
  using assms
proof (induction w st s job rule: job_change_state.induct)
  case (1 w st s job)
  let ?job = "job\<lparr>j_state := st\<rparr>"
  let ?s = "send_conns (\<lambda>conn. StateChanged conn (j_path ?job) (job_state_name st)) s"
  have calm0: "calm s ?s" using tame_send_conns tame_def by blast
  have ok0: "job_ok R ?s cls ?job" by (rule job_ok_tame [OF 1(2)]) simp_all
  have placed0: "placed R ?s cls ?job" using 1(3) placed_calm [OF calm0] by simp
  have enter: "enter_state w st s job = enter_action w (j_state job) ?s ?job"
    by (simp add: enter_state_def Let_def)
  have run: "job_change_state w st s job = do {
      (state, s, job) \<leftarrow> enter_state w st s job;
      (case job of None \<Rightarrow> Some (s, None) | Some job \<Rightarrow> job_change_state w state s job) }"
    using 1(6,7) by (subst job_change_state.simps) simp
  show ?case
  proof (cases "st = JOB_WAITING")
    case True
    obtain s' where "enter_waiting w (j_state job) ?s ?job = Some s'" and f: "freed R cls ?job ?s s'"
      using enter_waiting_ok [OF ok0 placed0, of "j_state job" w] 1(5) True by auto
    then have "job_change_state w st s job = Some (s', None)"
      using run enter ok0 True by (auto simp: enter_action_def job_ok_def)
    moreover have "freed R cls job s s'" using freed_calm [OF calm0] freed_job [OF f] by simp
    ultimately show ?thesis by (simp add: settled_def)
  next
    case False
    obtain st' s' job' where act: "enter_action w (j_state job) ?s ?job = Some (st', s', Some job')"
      and ent: "entered w R cls ?s ?job st' s' job'"
      using enter_action_ok [OF ok0 1(4), of "j_state job"] 1(5,7,8,9) False by (auto simp: quiet_def)
    have k: "calm s s'" "job_ok R s' cls job'" "j_id job' = j_id job" "j_class job' = j_class job"
      "j_goal job' = j_goal job" "j_state job' = st"
      using ent calm0 calm_trans [of s ?s s'] by (auto simp: entered_def keeps_def)
    have run': "job_change_state w st s job = job_change_state w st' s' job'"
      using run enter act by simp
    show ?thesis
    proof (cases "st' = st")
      case True
      then have "at_rest job'" using ent by (simp add: entered_def)
      moreover from this have "between_calls job'"
        by (rule between_callsI [of _ "j_state job"]) (use 1(5) k in simp)
      moreover have "job_change_state w st' s' job' = Some (s', Some job')"
        using k True by (subst job_change_state.simps) simp
      ultimately show ?thesis using run' k by (simp add: settled_def)
    next
      case False
      then have go: "may_enter st (j_goal job) st'" "j_blocker job' = None" "quiet job'"
        "primed_for w cls job' st"
        using ent by (auto simp: entered_def)
      have "placed R s' cls job'" using placed_calm [OF k(1,4)] 1(3) by simp
      then have "\<exists>s'' r. job_change_state w st' s' job' = Some (s'', r) \<and> settled R cls s' job' s'' r"
        using 1(1) [of "(st', s', Some job')" st' "(s', Some job')" s' "Some job'" job'] enter act 1(4,6,7) go k False
        by (auto simp: entered_def)
      then show ?thesis using run' settled_calm [OF k(1)] k by auto
    qed
  qed
qed

section \<open>Going on, and changing the goal\<close>

text \<open>The job can leave its state: nothing blocks it, no timer runs, and its state and goal are of those
  in which jobs are found between two calls.\<close>

definition movable :: "Job \<Rightarrow> bool" where
  "movable job \<longleftrightarrow> j_blocker job = None \<and> quiet job \<and>
     (j_goal job = JOB_RESPAWN \<longrightarrow> j_state job \<in> {JOB_POST_START, JOB_PRE_STOP}) \<and>
     (j_state job = JOB_WAITING \<longrightarrow> j_goal job = JOB_START) \<and>
     j_state job \<notin> {JOB_SECURITY_SPAWNING, JOB_PRE_STARTING, JOB_SPAWNING, JOB_POST_STARTING,
       JOB_PRE_STOPPING, JOB_POST_STOPPING}"

lemma primed_for_resting:
  "st \<notin> {JOB_SECURITY_SPAWNING, JOB_PRE_STARTING, JOB_SPAWNING, JOB_POST_STARTING,
     JOB_PRE_STOPPING, JOB_POST_STOPPING} \<Longrightarrow> primed_for w cls job st"
  by (cases st) auto

definition effective_goal :: "JobGoal \<Rightarrow> JobGoal" where
  "effective_goal goal = (if goal = JOB_RESPAWN then JOB_START else goal)"

lemma change_to_next_ok:
  assumes ok: "job_ok R s cls job" and placed: "placed R s cls job" and w: "os_ok w" and "movable job"
  shows "\<exists>s' r. change_to_next w s job = Some (s', r) \<and>
    settled R cls s (job\<lparr>j_goal := effective_goal (j_goal job)\<rparr>) s' r"
proof -
  have mv: "j_blocker job = None" "quiet job" using assms(4) by (auto simp: movable_def)
  have pr: "primed_for w cls job' (j_state job)" for job'
    using assms(4) by (intro primed_for_resting) (auto simp: movable_def)
  show ?thesis
  proof (cases "j_goal job = JOB_RESPAWN")
    case False
    then have fits: "goal_fits (j_state job) (j_goal job)" using assms(4) by (auto simp: movable_def goal_fits_def)
    obtain st where st: "job_next_state s job = Some (st, s, job)" "may_enter (j_state job) (j_goal job) st"
      "st \<noteq> j_state job"
      using job_next_state_edge [OF _ fits, of s cls] ok by (auto simp: job_ok_def)
    then obtain s' r where "job_change_state w st s job = Some (s', r)" "settled R cls s job s' r"
      using job_change_state_ok [OF ok placed w] mv pr by metis
    moreover have "job\<lparr>j_goal := effective_goal (j_goal job)\<rparr> = job"
      using False by (simp add: effective_goal_def)
    ultimately show ?thesis using st(1) by (auto simp: change_to_next_def)
  next
    case True
    let ?job = "job\<lparr>j_goal := JOB_START\<rparr>"
    obtain s1 where s1: "set_goal JOB_START s job = (s1, ?job)" "tame s s1"
      using True by (simp add: set_goal_def)
    have "j_state job = JOB_POST_START \<or> j_state job = JOB_PRE_STOP"
      using assms(4) True by (simp add: movable_def)
    then have next1: "job_next_state s job = Some (JOB_STOPPING, s1, ?job)"
      and enter: "may_enter (j_state ?job) (j_goal ?job) JOB_STOPPING" "j_state ?job \<noteq> JOB_STOPPING"
      using True s1(1) by (elim disjE; simp add: job_next_state_def)+
    have ok1: "job_ok R s1 cls ?job" by (rule job_ok_tame [OF ok s1(2)]) simp_all
    have calm: "calm s s1" using s1(2) by (simp add: tame_def)
    have "placed R s1 cls ?job" using placed placed_calm [OF calm] by simp
    then obtain s' r where "job_change_state w JOB_STOPPING s1 ?job = Some (s', r)" "settled R cls s1 ?job s' r"
      using job_change_state_ok [OF ok1 _ w enter] mv pr by (auto simp: quiet_def)
    moreover have "settled R cls s ?job s' r" using settled_calm [OF calm] calculation(2) by simp
    ultimately show ?thesis using next1 True by (auto simp: change_to_next_def effective_goal_def)
  qed
qed

lemma job_change_goal_ok:
  assumes ok: "job_ok R s cls job" and placed: "placed R s cls job" and w: "os_ok w"
    and between: "between_calls job" and goal: "goal \<noteq> JOB_RESPAWN"
    and new: "j_state job = JOB_WAITING \<longrightarrow> goal = JOB_START"
  shows "\<exists>s' r. job_change_goal w goal s job = Some (s', r) \<and> settled R cls s (job\<lparr>j_goal := goal\<rparr>) s' r"
proof (cases "j_goal job = goal")
  case True
  then have "job_change_goal w goal s job = Some (s, Some job)" by (simp add: job_change_goal_def)
  moreover have "at_rest job" using between new True goal by (auto simp: between_calls_def)
  ultimately show ?thesis using ok True between by (auto simp: settled_def)
next
  case False
  let ?job = "job\<lparr>j_goal := goal\<rparr>"
  obtain s1 where s1: "set_goal goal s job = (s1, ?job)" "tame s s1"
    using False by (simp add: set_goal_def)
  have ok1: "job_ok R s1 cls ?job" by (rule job_ok_tame [OF ok s1(2)]) simp_all
  have calm: "calm s s1" using s1(2) by (simp add: tame_def)
  have placed1: "placed R s1 cls ?job" using placed placed_calm [OF calm] by simp
  show ?thesis
  proof (cases "goal = JOB_START \<and> j_state job = JOB_WAITING \<or> goal = JOB_STOP \<and> j_state job = JOB_RUNNING")
    case True
    then have "movable ?job"
      using between by (elim disjE conjE) (simp_all add: movable_def between_calls_def at_rest_def quiet_def)
    then obtain s' r where "change_to_next w s1 ?job = Some (s', r)"
      "settled R cls s1 (?job\<lparr>j_goal := effective_goal (j_goal ?job)\<rparr>) s' r"
      using change_to_next_ok [OF ok1 placed1 w] by blast
    moreover have "?job\<lparr>j_goal := effective_goal (j_goal ?job)\<rparr> = ?job"
      using goal by (simp add: effective_goal_def)
    moreover have "job_change_goal w goal s job = change_to_next w s1 ?job"
      using True False s1(1) by (auto simp: job_change_goal_def change_to_next_def)
    ultimately show ?thesis using settled_calm [OF calm] by auto
  next
    case go: False
    have "job_change_goal w goal s job = Some (s1, Some ?job)"
      using go False s1(1) goal by (cases goal) (simp_all add: job_change_goal_def)
    moreover have "at_rest job"
      using between new go by (auto simp: between_calls_def)
    moreover have "at_rest_in ?job (j_state job) = at_rest_in job (j_state job)"
      by (cases "j_state job") auto
    ultimately have rest: "at_rest ?job" and run: "job_change_goal w goal s job = Some (s1, Some ?job)"
      by (auto simp: at_rest_def quiet_def)
    have "j_state job = JOB_RUNNING \<Longrightarrow> goal = JOB_START" using go goal by (cases goal) auto
    then have "between_calls ?job"
      using rest goal at_rest_not_waiting [OF rest] by (simp add: between_calls_def)
    then show ?thesis using calm ok1 rest run by (auto simp: settled_def)
  qed
qed

section \<open>Jobs that are not freed\<close>

text \<open>A job is freed by \<^verbatim>\<open>job_change_state\<close> only on its way from being killed.\<close>

definition final_states :: "JobState set" where
  "final_states = {JOB_KILLED, JOB_POST_STOPPING, JOB_POST_STOP, JOB_WAITING}"

lemma final_states_iff [simp]:
  "JOB_KILLED \<in> final_states" "JOB_POST_STOPPING \<in> final_states" "JOB_POST_STOP \<in> final_states"
  "JOB_WAITING \<in> final_states" "JOB_STARTING \<notin> final_states" "JOB_SECURITY_SPAWNING \<notin> final_states"
  "JOB_SECURITY \<notin> final_states" "JOB_PRE_STARTING \<notin> final_states" "JOB_PRE_START \<notin> final_states"
  "JOB_SPAWNING \<notin> final_states" "JOB_SPAWNED \<notin> final_states" "JOB_POST_STARTING \<notin> final_states"
  "JOB_POST_START \<notin> final_states" "JOB_RUNNING \<notin> final_states" "JOB_PRE_STOPPING \<notin> final_states"
  "JOB_PRE_STOP \<notin> final_states" "JOB_STOPPING \<notin> final_states"
  by (simp_all add: final_states_def)

lemma job_next_state_final:
  "job_next_state s job = Some (st, s', job') \<Longrightarrow> j_state job \<notin> final_states \<Longrightarrow>
     j_state job \<noteq> JOB_STOPPING \<Longrightarrow> st \<notin> final_states"
  by (auto simp: job_next_state_def split: JobState.splits JobGoal.splits if_splits
    elim!: bind_eq_Some_E)

lemma spawn_and_next_final:
  assumes "spawn_and_next w start process s job = Some (st, s', job')"
    and "j_state job \<notin> final_states" and "j_state job \<noteq> JOB_STOPPING"
  shows "st \<notin> final_states"
proof -
  obtain s1 job1 where "j_state job1 = j_state job" and "job_next_state s1 job1 = Some (st, s', job')"
    using assms(1) by (auto simp: spawn_and_next_def dest: job_process_start_state
      split: if_splits elim!: bind_eq_Some_E)
  then show ?thesis using assms(2,3) job_next_state_final by simp
qed

lemma wait_or_next_final:
  "wait_or_next wait s job = Some (st, s', job') \<Longrightarrow> j_state job \<notin> final_states \<Longrightarrow>
     j_state job \<noteq> JOB_STOPPING \<Longrightarrow> st \<notin> final_states"
  by (auto simp: wait_or_next_def job_next_state_final split: if_splits)

lemma enter_action_final:
  assumes "enter_action w old s job = Some (st, s', r)" and "j_state job \<notin> final_states"
  shows "r \<noteq> None \<and> st \<notin> final_states"
  using assms
  by (cases "j_state job")
    (auto simp: enter_action_def dest!: enter_fixed_state split: prod.splits elim!: bind_eq_Some_E,
      (drule spawn_and_next_final wait_or_next_final; simp)+)

lemma job_change_state_not_freed:
  "job_change_state w st s job = Some (s', r) \<Longrightarrow> st \<notin> final_states \<Longrightarrow> r \<noteq> None"
proof (induction w st s job rule: job_change_state.induct)
  case (1 w st s job)
  show ?case
  proof (cases "j_state job = st \<or> j_blocker job \<noteq> None")
    case True
    then show ?thesis using 1(2) by (subst (asm) job_change_state.simps) (auto split: if_splits)
  next
    case False
    then obtain st' s1 r1 where ent: "enter_state w st s job = Some (st', s1, r1)"
      and run: "(case r1 of None \<Rightarrow> Some (s1, None) | Some job \<Rightarrow> job_change_state w st' s1 job) = Some (s', r)"
      using 1(2) by (subst (asm) job_change_state.simps) (auto elim!: bind_eq_Some_E)
    have "r1 \<noteq> None \<and> st' \<notin> final_states"
      using ent 1(3) by (intro enter_action_final) (auto simp: enter_state_def Let_def)
    then show ?thesis using 1(1) [of "(st', s1, r1)" st' "(s1, r1)" s1 r1] False ent run by auto
  qed
qed

lemma job_change_goal_not_freed:
  assumes "job_change_goal w JOB_STOP s job = Some (s', r)"
  shows "r \<noteq> None"
proof (cases "j_goal job = JOB_STOP \<or> j_state job \<noteq> JOB_RUNNING")
  case True
  then show ?thesis
    using assms by (auto simp: job_change_goal_def set_goal_def split: if_splits)
next
  case False
  obtain s1 job1 where sg: "set_goal JOB_STOP s job = (s1, job1)" by (cases "set_goal JOB_STOP s job")
  then have "j_state job1 = JOB_RUNNING" using False by (auto simp: set_goal_def)
  moreover obtain st s2 job2 where "job_next_state s1 job1 = Some (st, s2, job2)"
    and "job_change_state w st s2 job2 = Some (s', r)"
    using assms False sg \<open>j_state job1 = JOB_RUNNING\<close> by (auto simp: job_change_goal_def elim!: bind_eq_Some_E)
  ultimately show ?thesis
    using job_next_state_final job_change_state_not_freed by (fastforce simp: final_states_def)
qed

end
