(* ===== verification/ParseJob.thy ===== *)
theory ParseJob
  imports ParseOn JobInv
begin

text \<open>
  \<^verbatim>\<open>src/init/parse_job.c\<close>: the stanzas of a job definition. A stanza handler changes the class and moves
  the position, also when it fails: \<^verbatim>\<open>conf.c\<close> parses an override file into the class that is in use.

  \<open>strtol\<close> and \<open>strtoul\<close> are those of the C library with 64-bit \<^verbatim>\<open>long\<close>; what is stored in an \<^verbatim>\<open>int\<close> or
  a \<^verbatim>\<open>mode_t\<close> is cut to 32 bits.
\<close>

section \<open>Numbers\<close>

definition LONG_MAX :: int where "LONG_MAX = 2 ^ 63 - 1"
definition LONG_MIN :: int where "LONG_MIN = - (2 ^ 63)"
definition ULONG_MAX :: int where "ULONG_MAX = 2 ^ 64 - 1"
definition INT_MAX :: int where "INT_MAX = 2 ^ 31 - 1"

definition to_int :: "int \<Rightarrow> int" where
  "to_int n = signed_take_bit 31 n"

definition to_mode :: "int \<Rightarrow> int" where
  "to_mode n = take_bit 32 n"

definition isspace :: "char \<Rightarrow> bool" where
  "isspace c \<longleftrightarrow> c \<in> set [CHR '' '', CHR 0x09, CHR 0x0A, CHR 0x0B, CHR 0x0C, CHR 0x0D]"

definition digit_val :: "char \<Rightarrow> int" where
  "digit_val c =
     (let n = of_char c
      in if 48 \<le> n \<and> n \<le> 57 then n - 48
         else if 97 \<le> n \<and> n \<le> 122 then n - 87
         else if 65 \<le> n \<and> n \<le> 90 then n - 55
         else -1)"

definition is_digit :: "int \<Rightarrow> char \<Rightarrow> bool" where
  "is_digit base c \<longleftrightarrow> 0 \<le> digit_val c \<and> digit_val c < base"

fun digits_val :: "int \<Rightarrow> int \<Rightarrow> string \<Rightarrow> int" where
  "digits_val base acc [] = acc"
| "digits_val base acc (c # cs) = digits_val base (acc * base + digit_val c) cs"

text \<open>The sign, the digits and what follows them; the whole string follows when there is no digit.\<close>

definition scan_number :: "int \<Rightarrow> string \<Rightarrow> bool \<times> int \<times> string" where
  "scan_number base s =
     (let body = dropWhile isspace s;
          neg = (body \<noteq> [] \<and> hd body = CHR ''-'');
          body = (if body \<noteq> [] \<and> hd body \<in> {CHR ''-'', CHR ''+''} then tl body else body);
          ds = takeWhile (is_digit base) body
      in if ds = [] then (False, 0, s) else (neg, digits_val base 0 ds, dropWhile (is_digit base) body))"

text \<open>The number, what is left, and whether \<^verbatim>\<open>errno\<close> is set because it is out of range.\<close>

definition strtol :: "int \<Rightarrow> string \<Rightarrow> int \<times> string \<times> bool" where
  "strtol base s =
     (let (neg, n, rest) = scan_number base s; v = (if neg then - n else n)
      in if v > LONG_MAX then (LONG_MAX, rest, True)
         else if v < LONG_MIN then (LONG_MIN, rest, True) else (v, rest, False))"

definition strtoul :: "int \<Rightarrow> string \<Rightarrow> int \<times> string \<times> bool" where
  "strtoul base s =
     (let (neg, n, rest) = scan_number base s
      in if n > ULONG_MAX then (ULONG_MAX, rest, True)
         else (take_bit 64 (if neg then - n else n), rest, False))"

section \<open>Processes\<close>

type_synonym parsed = "parse_error option \<times> cur \<times> JobClass"

text \<open>What ends most handlers: the rest of the line may be a comment.\<close>

definition finish :: "nih_config \<Rightarrow> string \<Rightarrow> cur \<Rightarrow> JobClass \<Rightarrow> parsed" where
  "finish nih file pos cls = (let (e, pos) = skip_comment nih file pos in (e, pos, cls))"

definition set_process :: "ProcessType \<Rightarrow> Process \<Rightarrow> JobClass \<Rightarrow> JobClass" where
  "set_process p proc cls = cls\<lparr>c_process := (c_process cls)(p \<mapsto> proc)\<rparr>"

text \<open>\<^verbatim>\<open>process_new\<close> unless the process is there.\<close>

definition the_process :: "ProcessType \<Rightarrow> JobClass \<Rightarrow> Process" where
  "the_process p cls = (case c_process cls p of None \<Rightarrow> \<lparr>p_script = False, p_command = None\<rparr> | Some proc \<Rightarrow> proc)"

definition parse_exec :: "nih_config \<Rightarrow> ProcessType \<Rightarrow> string \<Rightarrow> cur \<Rightarrow> JobClass \<Rightarrow> parsed" where
  "parse_exec nih p file pos cls =
     (if \<not> has_token nih file pos then (Some NIH_CONFIG_EXPECTED_TOKEN, pos, cls)
      else
        (let (r, pos) = parse_command nih file pos
         in case r of
              Inl e \<Rightarrow> (Some e, pos, set_process p \<lparr>p_script = False, p_command = None\<rparr> cls)
            | Inr command \<Rightarrow> (None, pos, set_process p \<lparr>p_script = False, p_command = Some command\<rparr> cls)))"

definition parse_script :: "nih_config \<Rightarrow> ProcessType \<Rightarrow> string \<Rightarrow> cur \<Rightarrow> JobClass \<Rightarrow> parsed" where
  "parse_script nih p file pos cls =
     (let (e, pos) = skip_comment nih file pos
      in case e of
           Some e \<Rightarrow> (Some e, pos, cls)
         | None \<Rightarrow>
             (let (r, pos) = parse_block nih file ''script'' pos
              in case r of
                   Inl e \<Rightarrow> (Some e, pos, set_process p \<lparr>p_script = True, p_command = None\<rparr> cls)
                 | Inr command \<Rightarrow> (None, pos, set_process p \<lparr>p_script = True, p_command = Some command\<rparr> cls)))"

definition parse_process :: "nih_config \<Rightarrow> ProcessType \<Rightarrow> string \<Rightarrow> cur \<Rightarrow> JobClass \<Rightarrow> parsed" where
  "parse_process nih p file pos cls =
     (let cls = set_process p (the_process p cls) cls;
          (r, a_pos) = next_token nih file (cnlws nih) False pos
      in case r of
           Inl e \<Rightarrow> (Some e, a_pos, cls)
         | Inr arg \<Rightarrow>
             if arg = ''exec'' then parse_exec nih p file a_pos cls
             else if arg = ''script'' then parse_script nih p file a_pos cls
             else (Some NIH_CONFIG_UNKNOWN_STANZA, pos, cls))"

definition stanza_exec :: "nih_config \<Rightarrow> string \<Rightarrow> cur \<Rightarrow> JobClass \<Rightarrow> parsed" where
  "stanza_exec nih file pos cls =
     parse_exec nih PROCESS_MAIN file pos (set_process PROCESS_MAIN (the_process PROCESS_MAIN cls) cls)"

definition stanza_script :: "nih_config \<Rightarrow> string \<Rightarrow> cur \<Rightarrow> JobClass \<Rightarrow> parsed" where
  "stanza_script nih file pos cls =
     parse_script nih PROCESS_MAIN file pos (set_process PROCESS_MAIN (the_process PROCESS_MAIN cls) cls)"

definition stanza_pre_start :: "nih_config \<Rightarrow> string \<Rightarrow> cur \<Rightarrow> JobClass \<Rightarrow> parsed" where
  "stanza_pre_start nih = parse_process nih PROCESS_PRE_START"

definition stanza_post_start :: "nih_config \<Rightarrow> string \<Rightarrow> cur \<Rightarrow> JobClass \<Rightarrow> parsed" where
  "stanza_post_start nih = parse_process nih PROCESS_POST_START"

definition stanza_pre_stop :: "nih_config \<Rightarrow> string \<Rightarrow> cur \<Rightarrow> JobClass \<Rightarrow> parsed" where
  "stanza_pre_stop nih = parse_process nih PROCESS_PRE_STOP"

definition stanza_post_stop :: "nih_config \<Rightarrow> string \<Rightarrow> cur \<Rightarrow> JobClass \<Rightarrow> parsed" where
  "stanza_post_stop nih = parse_process nih PROCESS_POST_STOP"

section \<open>Stanzas with one argument\<close>

text \<open>A handler that stores an argument, NULL when there is none.\<close>

definition store_arg ::
    "nih_config \<Rightarrow> (string option \<Rightarrow> JobClass \<Rightarrow> JobClass) \<Rightarrow> string \<Rightarrow> cur \<Rightarrow> JobClass \<Rightarrow> parsed" where
  "store_arg nih f file pos cls =
     (let (r, pos) = next_arg nih file pos
      in case r of
           Inl e \<Rightarrow> (Some e, pos, f None cls)
         | Inr arg \<Rightarrow> finish nih file pos (f (Some arg) cls))"

definition stanza_instance :: "nih_config \<Rightarrow> string \<Rightarrow> cur \<Rightarrow> JobClass \<Rightarrow> parsed" where
  "stanza_instance nih = store_arg nih (\<lambda>v cls. cls\<lparr>c_instance := v\<rparr>)"

definition stanza_description :: "nih_config \<Rightarrow> string \<Rightarrow> cur \<Rightarrow> JobClass \<Rightarrow> parsed" where
  "stanza_description nih = store_arg nih (\<lambda>v cls. cls\<lparr>c_description := v\<rparr>)"

definition stanza_author :: "nih_config \<Rightarrow> string \<Rightarrow> cur \<Rightarrow> JobClass \<Rightarrow> parsed" where
  "stanza_author nih = store_arg nih (\<lambda>v cls. cls\<lparr>c_author := v\<rparr>)"

definition stanza_version :: "nih_config \<Rightarrow> string \<Rightarrow> cur \<Rightarrow> JobClass \<Rightarrow> parsed" where
  "stanza_version nih = store_arg nih (\<lambda>v cls. cls\<lparr>c_version := v\<rparr>)"

definition stanza_chroot :: "nih_config \<Rightarrow> string \<Rightarrow> cur \<Rightarrow> JobClass \<Rightarrow> parsed" where
  "stanza_chroot nih = store_arg nih (\<lambda>v cls. cls\<lparr>c_chroot := v\<rparr>)"

definition stanza_chdir :: "nih_config \<Rightarrow> string \<Rightarrow> cur \<Rightarrow> JobClass \<Rightarrow> parsed" where
  "stanza_chdir nih = store_arg nih (\<lambda>v cls. cls\<lparr>c_chdir := v\<rparr>)"

definition stanza_setuid :: "nih_config \<Rightarrow> string \<Rightarrow> cur \<Rightarrow> JobClass \<Rightarrow> parsed" where
  "stanza_setuid nih = store_arg nih (\<lambda>v cls. cls\<lparr>c_setuid := v\<rparr>)"

definition stanza_setgid :: "nih_config \<Rightarrow> string \<Rightarrow> cur \<Rightarrow> JobClass \<Rightarrow> parsed" where
  "stanza_setgid nih = store_arg nih (\<lambda>v cls. cls\<lparr>c_setgid := v\<rparr>)"

definition stanza_usage :: "nih_config \<Rightarrow> string \<Rightarrow> cur \<Rightarrow> JobClass \<Rightarrow> parsed" where
  "stanza_usage nih = store_arg nih (\<lambda>v cls. cls\<lparr>c_usage := v\<rparr>)"

definition stanza_env :: "nih_config \<Rightarrow> string \<Rightarrow> cur \<Rightarrow> JobClass \<Rightarrow> parsed" where
  "stanza_env nih file pos cls =
     (let (r, pos) = next_arg nih file pos
      in case r of
           Inl e \<Rightarrow> (Some e, pos, cls)
         | Inr env \<Rightarrow> finish nih file pos (cls\<lparr>c_env := c_env cls @ [env]\<rparr>))"

text \<open>A handler that adds all arguments to a list.\<close>

definition store_args ::
    "nih_config \<Rightarrow> (string list \<Rightarrow> JobClass \<Rightarrow> JobClass) \<Rightarrow> string \<Rightarrow> cur \<Rightarrow> JobClass \<Rightarrow> parsed" where
  "store_args nih f file pos cls =
     (if \<not> has_token nih file pos then (Some NIH_CONFIG_EXPECTED_TOKEN, pos, cls)
      else
        (let (r, pos) = parse_args nih file pos
         in case r of Inl e \<Rightarrow> (Some e, pos, cls) | Inr args \<Rightarrow> (None, pos, f args cls)))"

definition stanza_export :: "nih_config \<Rightarrow> string \<Rightarrow> cur \<Rightarrow> JobClass \<Rightarrow> parsed" where
  "stanza_export nih = store_args nih (\<lambda>args cls. cls\<lparr>c_export := c_export cls @ args\<rparr>)"

definition stanza_emits :: "nih_config \<Rightarrow> string \<Rightarrow> cur \<Rightarrow> JobClass \<Rightarrow> parsed" where
  "stanza_emits nih = store_args nih (\<lambda>args cls. cls\<lparr>c_emits := c_emits cls @ args\<rparr>)"

section \<open>Conditions and flags\<close>

text \<open>\<open>None\<close> where \<^verbatim>\<open>parse_on\<close> aborts.\<close>

definition stanza_on ::
    "nih_config \<Rightarrow> (EventOperator option \<Rightarrow> JobClass \<Rightarrow> JobClass) \<Rightarrow> string \<Rightarrow> cur \<Rightarrow> JobClass \<Rightarrow> parsed option" where
  "stanza_on nih f file pos cls =
     (let (r, a_pos) = next_token nih file (cnlws nih) False pos
      in case r of
           Inl e \<Rightarrow> Some (Some e, a_pos, cls)
         | Inr arg \<Rightarrow>
             if arg = ''on'' then do {
               (r, a_pos) \<leftarrow> parse_on (parse_on_fuel file) nih file a_pos;
               Some (case r of
                   Inl e \<Rightarrow> (Some e, a_pos, f None cls)
                 | Inr root \<Rightarrow> (None, a_pos, f (Some root) cls))
             } else Some (Some NIH_CONFIG_UNKNOWN_STANZA, pos, cls))"

definition stanza_start :: "nih_config \<Rightarrow> string \<Rightarrow> cur \<Rightarrow> JobClass \<Rightarrow> parsed option" where
  "stanza_start nih = stanza_on nih (\<lambda>c cls. cls\<lparr>c_start_on := c\<rparr>)"

definition stanza_stop :: "nih_config \<Rightarrow> string \<Rightarrow> cur \<Rightarrow> JobClass \<Rightarrow> parsed option" where
  "stanza_stop nih = stanza_on nih (\<lambda>c cls. cls\<lparr>c_stop_on := c\<rparr>)"

text \<open>\<open>enabled\<close> is \<^verbatim>\<open>debug_stanza_enabled\<close>.\<close>

definition stanza_debug :: "bool \<Rightarrow> string \<Rightarrow> cur \<Rightarrow> JobClass \<Rightarrow> parsed" where
  "stanza_debug enabled file pos cls = (None, pos, if enabled then cls\<lparr>c_debug := True\<rparr> else cls)"

definition stanza_manual :: "string \<Rightarrow> cur \<Rightarrow> JobClass \<Rightarrow> parsed" where
  "stanza_manual file pos cls = (None, pos, cls\<lparr>c_start_on := None\<rparr>)"

definition stanza_task :: "nih_config \<Rightarrow> string \<Rightarrow> cur \<Rightarrow> JobClass \<Rightarrow> parsed" where
  "stanza_task nih file pos cls = finish nih file pos (cls\<lparr>c_task := True\<rparr>)"

definition expect_of :: "string \<Rightarrow> ExpectType option" where
  "expect_of arg =
     (if arg = ''readyfd'' then Some EXPECT_READYFD
      else if arg = ''stop'' then Some EXPECT_STOP
      else if arg = ''daemon'' then Some EXPECT_DAEMON
      else if arg = ''fork'' then Some EXPECT_FORK
      else if arg = ''none'' then Some EXPECT_NONE
      else None)"

definition stanza_expect :: "nih_config \<Rightarrow> string \<Rightarrow> cur \<Rightarrow> JobClass \<Rightarrow> parsed" where
  "stanza_expect nih file pos cls =
     (let (r, a_pos) = next_arg nih file pos
      in case r of
           Inl e \<Rightarrow> (Some e, a_pos, cls)
         | Inr arg \<Rightarrow>
             (case expect_of arg of
                None \<Rightarrow> (Some NIH_CONFIG_UNKNOWN_STANZA, pos, cls)
              | Some expect \<Rightarrow> finish nih file a_pos (cls\<lparr>c_expect := expect\<rparr>)))"

text \<open>When the name is unknown the invalid value stays in the class.\<close>

definition stanza_console :: "nih_config \<Rightarrow> string \<Rightarrow> cur \<Rightarrow> JobClass \<Rightarrow> parsed" where
  "stanza_console nih file pos cls =
     (let (r, a_pos) = next_arg nih file pos
      in case r of
           Inl e \<Rightarrow> (Some e, a_pos, cls)
         | Inr arg \<Rightarrow>
             (let cls = cls\<lparr>c_console := job_class_console_type arg\<rparr>
              in if c_console cls = None then (Some NIH_CONFIG_UNKNOWN_STANZA, pos, cls)
                 else finish nih file a_pos cls))"

section \<open>Numbers and signals\<close>

text \<open>The signal that an argument names or gives as a number.\<close>

definition signal_arg :: "nih_config \<Rightarrow> string \<Rightarrow> int option" where
  "signal_arg nih arg =
     (let signal = signal_from_name nih arg
      in if signal < 0 then
           (let (status, rest, range) = strtoul 10 arg
            in if range \<or> rest \<noteq> [] \<or> status > INT_MAX then None else Some status)
         else Some signal)"

text \<open>A sub-stanza \<^verbatim>\<open>signal\<close>; \<open>a_pos\<close> is after the keyword, which is where errors are reported.\<close>

definition parse_signal ::
    "nih_config \<Rightarrow> (int \<Rightarrow> JobClass \<Rightarrow> JobClass) \<Rightarrow> string \<Rightarrow> cur \<Rightarrow> JobClass \<Rightarrow> parsed" where
  "parse_signal nih f file a_pos cls =
     (let (r, b_pos) = next_arg nih file a_pos
      in case r of
           Inl e \<Rightarrow> (Some e, b_pos, cls)
         | Inr arg \<Rightarrow>
             (case signal_arg nih arg of
                None \<Rightarrow> (Some PARSE_ILLEGAL_SIGNAL, a_pos, cls)
              | Some signal \<Rightarrow> finish nih file b_pos (f signal cls)))"

definition stanza_kill :: "nih_config \<Rightarrow> string \<Rightarrow> cur \<Rightarrow> JobClass \<Rightarrow> parsed" where
  "stanza_kill nih file pos cls =
     (let (r, a_pos) = next_token nih file (cnlws nih) False pos
      in case r of
           Inl e \<Rightarrow> (Some e, a_pos, cls)
         | Inr arg \<Rightarrow>
             if arg = ''timeout'' then
               (let (r, b_pos) = next_arg nih file a_pos
                in case r of
                     Inl e \<Rightarrow> (Some e, b_pos, cls)
                   | Inr timearg \<Rightarrow>
                       (let (n, rest, range) = strtol 10 timearg;
                            cls = cls\<lparr>c_kill_timeout := n\<rparr>
                        in if range \<or> rest \<noteq> [] \<or> n < 0 then (Some PARSE_ILLEGAL_INTERVAL, a_pos, cls)
                           else finish nih file b_pos cls))
             else if arg = ''signal'' then parse_signal nih (\<lambda>n cls. cls\<lparr>c_kill_signal := n\<rparr>) file a_pos cls
             else (Some NIH_CONFIG_UNKNOWN_STANZA, pos, cls))"

definition stanza_reload :: "nih_config \<Rightarrow> string \<Rightarrow> cur \<Rightarrow> JobClass \<Rightarrow> parsed" where
  "stanza_reload nih file pos cls =
     (let (r, a_pos) = next_token nih file (cnlws nih) False pos
      in case r of
           Inl e \<Rightarrow> (Some e, a_pos, cls)
         | Inr arg \<Rightarrow>
             if arg = ''signal'' then parse_signal nih (\<lambda>n cls. cls\<lparr>c_reload_signal := n\<rparr>) file a_pos cls
             else (Some NIH_CONFIG_UNKNOWN_STANZA, pos, cls))"

definition APPARMOR_PARSER :: string where "APPARMOR_PARSER = ''/sbin/apparmor_parser''"
definition APPARMOR_PARSER_OPTS :: string where "APPARMOR_PARSER_OPTS = ''-r -W''"

definition stanza_apparmor :: "nih_config \<Rightarrow> string \<Rightarrow> cur \<Rightarrow> JobClass \<Rightarrow> parsed" where
  "stanza_apparmor nih file pos cls =
     (let (r, a_pos) = next_token nih file (cnlws nih) False pos
      in case r of
           Inl e \<Rightarrow> (Some e, a_pos, cls)
         | Inr arg \<Rightarrow>
             if arg = ''load'' then
               (let (r, b_pos) = next_arg nih file a_pos
                in case r of
                     Inl e \<Rightarrow> (Some e, b_pos, cls)
                   | Inr aaarg \<Rightarrow>
                       finish nih file b_pos (set_process PROCESS_SECURITY
                         \<lparr>p_script = False,
                          p_command = Some (APPARMOR_PARSER @ '' '' @ APPARMOR_PARSER_OPTS @ '' '' @ aaarg)\<rparr> cls))
             else if arg = ''switch'' then
               (let (r, b_pos) = next_arg nih file a_pos
                in case r of
                     Inl e \<Rightarrow> (Some e, b_pos, cls\<lparr>c_apparmor_switch := None\<rparr>)
                   | Inr profile \<Rightarrow> finish nih file b_pos (cls\<lparr>c_apparmor_switch := Some profile\<rparr>))
             else (Some NIH_CONFIG_UNKNOWN_STANZA, pos, cls))"

text \<open>The arguments of \<^verbatim>\<open>respawn limit\<close>.\<close>

definition respawn_limit_args :: "nih_config \<Rightarrow> string \<Rightarrow> cur \<Rightarrow> JobClass \<Rightarrow> parsed" where
  "respawn_limit_args nih file a_pos cls =
     (let (r, b_pos) = next_arg nih file a_pos
      in case r of
           Inl e \<Rightarrow> (Some e, b_pos, cls)
         | Inr limitarg \<Rightarrow>
             if limitarg \<noteq> ''unlimited'' then
               (let (n, rest, range) = strtol 10 limitarg;
                    cls = cls\<lparr>c_respawn_limit := to_int n\<rparr>
                in if range \<or> rest \<noteq> [] \<or> c_respawn_limit cls < 0 then (Some PARSE_ILLEGAL_LIMIT, a_pos, cls)
                   else
                     (let (r, d_pos) = next_arg nih file b_pos
                      in case r of
                           Inl e \<Rightarrow> (Some e, d_pos, cls)
                         | Inr timearg \<Rightarrow>
                             (let (n, rest, range) = strtol 10 timearg;
                                  cls = cls\<lparr>c_respawn_interval := n\<rparr>
                              in if range \<or> rest \<noteq> [] \<or> n < 0 then (Some PARSE_ILLEGAL_INTERVAL, b_pos, cls)
                                 else finish nih file d_pos cls)))
             else finish nih file b_pos (cls\<lparr>c_respawn_limit := 0, c_respawn_interval := 0\<rparr>))"

definition stanza_respawn :: "nih_config \<Rightarrow> string \<Rightarrow> cur \<Rightarrow> JobClass \<Rightarrow> parsed" where
  "stanza_respawn nih file pos cls =
     (if \<not> has_token nih file pos then finish nih file pos (cls\<lparr>c_respawn := True\<rparr>)
      else
        (let (r, a_pos) = next_token nih file (cnlws nih) False pos
         in case r of
              Inl e \<Rightarrow> (Some e, a_pos, cls)
            | Inr arg \<Rightarrow>
                if arg = ''limit'' then respawn_limit_args nih file a_pos cls
                else (Some NIH_CONFIG_UNKNOWN_STANZA, pos, cls)))"

text \<open>An exit status or signal of \<^verbatim>\<open>normal exit\<close>; a signal is shifted, as in a wait status.\<close>

definition exit_arg :: "nih_config \<Rightarrow> string \<Rightarrow> int option" where
  "exit_arg nih arg =
     (let signum = signal_from_name nih arg
      in if signum < 0 then
           (let (status, rest, range) = strtoul 10 arg
            in if range \<or> rest \<noteq> [] \<or> status > INT_MAX then None else Some (to_int status))
         else Some (to_int (push_bit 8 signum)))"

text \<open>The loop over the arguments, which is done after as many as the file has characters.\<close>

fun normal_exits :: "nat \<Rightarrow> nih_config \<Rightarrow> string \<Rightarrow> cur \<Rightarrow> JobClass \<Rightarrow> parsed option" where
  "normal_exits 0 nih file pos cls = None"
| "normal_exits (Suc fuel) nih file pos cls =
     (let (r, a_pos) = next_arg nih file pos
      in case r of
           Inl e \<Rightarrow> Some (Some e, a_pos, cls)
         | Inr arg \<Rightarrow>
             (case exit_arg nih arg of
                None \<Rightarrow> Some (Some PARSE_ILLEGAL_EXIT, pos, cls)
              | Some status \<Rightarrow>
                  (let cls = cls\<lparr>c_normalexit := c_normalexit cls @ [status]\<rparr>
                   in if has_token nih file a_pos then normal_exits fuel nih file a_pos cls
                      else Some (finish nih file a_pos cls))))"

definition stanza_normal :: "nih_config \<Rightarrow> string \<Rightarrow> cur \<Rightarrow> JobClass \<Rightarrow> parsed option" where
  "stanza_normal nih file pos cls =
     (let (r, a_pos) = next_token nih file (cnlws nih) False pos
      in case r of
           Inl e \<Rightarrow> Some (Some e, a_pos, cls)
         | Inr arg \<Rightarrow>
             if arg = ''exit'' then normal_exits (Suc (length file)) nih file a_pos cls
             else Some (Some NIH_CONFIG_UNKNOWN_STANZA, pos, cls))"

text \<open>A handler that stores one number and then checks it.\<close>

definition store_number ::
    "nih_config \<Rightarrow> (string \<Rightarrow> int \<times> string \<times> bool) \<Rightarrow> (int \<Rightarrow> JobClass \<Rightarrow> JobClass) \<Rightarrow> (JobClass \<Rightarrow> bool) \<Rightarrow>
      parse_error \<Rightarrow> string \<Rightarrow> cur \<Rightarrow> JobClass \<Rightarrow> parsed" where
  "store_number nih convert f legal e file pos cls =
     (let (r, a_pos) = next_arg nih file pos
      in case r of
           Inl e \<Rightarrow> (Some e, a_pos, cls)
         | Inr arg \<Rightarrow>
             (let (n, rest, range) = convert arg; cls = f n cls
              in if range \<or> rest \<noteq> [] \<or> \<not> legal cls then (Some e, pos, cls) else finish nih file a_pos cls))"

definition stanza_umask :: "nih_config \<Rightarrow> string \<Rightarrow> cur \<Rightarrow> JobClass \<Rightarrow> parsed" where
  "stanza_umask nih = store_number nih (strtoul 8) (\<lambda>n cls. cls\<lparr>c_umask := to_mode n\<rparr>)
     (\<lambda>cls. and (c_umask cls) (not 0x1FF) = 0) PARSE_ILLEGAL_UMASK"

definition stanza_nice :: "nih_config \<Rightarrow> string \<Rightarrow> cur \<Rightarrow> JobClass \<Rightarrow> parsed" where
  "stanza_nice nih = store_number nih (strtol 10) (\<lambda>n cls. cls\<lparr>c_nice := to_int n\<rparr>)
     (\<lambda>cls. -20 \<le> c_nice cls \<and> c_nice cls \<le> 19) PARSE_ILLEGAL_NICE"

text \<open>The old adjustment as a score. The product may overflow for values that are refused next.\<close>

definition oom_score :: "int \<Rightarrow> int" where
  "oom_score oom_adj =
     (let n = to_int (oom_adj * 1000) in if oom_adj < 0 then - ((- n) div 17) else n div 15)"

definition stanza_oom :: "nih_config \<Rightarrow> string \<Rightarrow> cur \<Rightarrow> JobClass \<Rightarrow> parsed" where
  "stanza_oom nih file pos cls =
     (let (r, a_pos) = next_arg nih file pos
      in case r of
           Inl e \<Rightarrow> (Some e, a_pos, cls)
         | Inr arg \<Rightarrow>
             if arg = ''score'' then
               (let (r, b_pos) = next_arg nih file a_pos
                in case r of
                     Inl e \<Rightarrow> (Some e, b_pos, cls)
                   | Inr scorearg \<Rightarrow>
                       if scorearg = ''never'' then finish nih file b_pos (cls\<lparr>c_oom_score_adj := -1000\<rparr>)
                       else
                         (let (n, rest, range) = strtol 10 scorearg;
                              cls = cls\<lparr>c_oom_score_adj := to_int n\<rparr>
                          in if range \<or> rest \<noteq> [] \<or> c_oom_score_adj cls < -1000 \<or> c_oom_score_adj cls > 1000
                             then (Some PARSE_ILLEGAL_OOM, a_pos, cls)
                             else finish nih file b_pos cls))
             else if arg = ''never'' then finish nih file a_pos (cls\<lparr>c_oom_score_adj := -1000\<rparr>)
             else
               (let (n, rest, range) = strtol 10 arg;
                    oom_adj = to_int n;
                    cls = cls\<lparr>c_oom_score_adj := oom_score oom_adj\<rparr>
                in if range \<or> rest \<noteq> [] \<or> oom_adj < -17 \<or> oom_adj > 15 then (Some PARSE_ILLEGAL_OOM, pos, cls)
                   else finish nih file a_pos cls))"

section \<open>Limits and groups\<close>

text \<open>The resources, with the numbers they have on Linux.\<close>

definition resource_of :: "string \<Rightarrow> nat option" where
  "resource_of = map_of [(''as'', 9), (''core'', 4), (''cpu'', 0), (''data'', 2), (''fsize'', 1), (''memlock'', 8),
     (''msgqueue'', 12), (''nice'', 13), (''nofile'', 7), (''nproc'', 6), (''rss'', 5), (''rtprio'', 14),
     (''sigpending'', 11), (''stack'', 3)]"

definition RLIM_INFINITY :: int where "RLIM_INFINITY = 2 ^ 64 - 1"

definition limit_arg :: "string \<Rightarrow> int option" where
  "limit_arg arg =
     (if arg \<noteq> ''unlimited'' then
        (let (n, rest, range) = strtoul 10 arg in if range \<or> rest \<noteq> [] then None else Some n)
      else Some RLIM_INFINITY)"

text \<open>The entry of a resource. A new entry is not initialised by the code; it is 0 here, which shows
  only when an argument is refused.\<close>

definition get_limit :: "nat \<Rightarrow> JobClass \<Rightarrow> int \<times> int" where
  "get_limit resource cls =
     (case map_of (map (\<lambda>(r, l). (r, l)) (c_limits cls)) resource of None \<Rightarrow> (0, 0) | Some l \<Rightarrow> l)"

definition set_limit :: "nat \<Rightarrow> int \<times> int \<Rightarrow> JobClass \<Rightarrow> JobClass" where
  "set_limit resource l cls =
     cls\<lparr>c_limits := filter (\<lambda>(r, _). r \<noteq> resource) (c_limits cls) @ [(resource, l)]\<rparr>"

definition stanza_limit :: "nih_config \<Rightarrow> string \<Rightarrow> cur \<Rightarrow> JobClass \<Rightarrow> parsed" where
  "stanza_limit nih file pos cls =
     (let (r, a_pos) = next_arg nih file pos
      in case r of
           Inl e \<Rightarrow> (Some e, a_pos, cls)
         | Inr arg \<Rightarrow>
             (case resource_of arg of
                None \<Rightarrow> (Some NIH_CONFIG_UNKNOWN_STANZA, pos, cls)
              | Some resource \<Rightarrow>
                  (let (soft, hard) = get_limit resource cls;
                       cls = set_limit resource (soft, hard) cls;
                       (r, b_pos) = next_arg nih file a_pos
                   in case r of
                        Inl e \<Rightarrow> (Some e, b_pos, cls)
                      | Inr softarg \<Rightarrow>
                          (case limit_arg softarg of
                             None \<Rightarrow> (Some PARSE_ILLEGAL_LIMIT, a_pos, cls)
                           | Some soft \<Rightarrow>
                               (let cls = set_limit resource (soft, hard) cls;
                                    (r, d_pos) = next_arg nih file b_pos
                                in case r of
                                     Inl e \<Rightarrow> (Some e, d_pos, cls)
                                   | Inr hardarg \<Rightarrow>
                                       (case limit_arg hardarg of
                                          None \<Rightarrow> (Some PARSE_ILLEGAL_LIMIT, b_pos, cls)
                                        | Some hard \<Rightarrow> finish nih file d_pos (set_limit resource (soft, hard) cls)))))))"

text \<open>The arguments of a \<^verbatim>\<open>cgroup\<close> stanza: at least one and up to four.\<close>

fun cgroup_args ::
    "nat \<Rightarrow> nih_config \<Rightarrow> string \<Rightarrow> cur \<Rightarrow> (parse_error + string list) \<times> cur" where
  "cgroup_args 0 nih file pos = (Inr [], pos)"
| "cgroup_args (Suc n) nih file pos =
     (if \<not> has_token nih file pos then (Inr [], pos)
      else
        (let (r, pos) = next_arg nih file pos
         in case r of
              Inl e \<Rightarrow> (Inl e, pos)
            | Inr arg \<Rightarrow>
                (let (r, pos) = cgroup_args n nih file pos
                 in (case r of Inl e \<Rightarrow> Inl e | Inr args \<Rightarrow> Inr (arg # args), pos))))"

definition parse_cgroup :: "nih_config \<Rightarrow> string \<Rightarrow> cur \<Rightarrow> JobClass \<Rightarrow> parsed option" where
  "parse_cgroup nih file pos cls =
     (let (r, a_pos) = cgroup_args 4 nih file pos
      in case r of
           Inl e \<Rightarrow> Some (Some e, a_pos, cls)
         | Inr args \<Rightarrow>
             (case args of
                [] \<Rightarrow> Some (Some NIH_CONFIG_EXPECTED_TOKEN, a_pos, cls)
              | controller # rest \<Rightarrow> do {
                  let (name, key, val) =
                    (case rest of
                       [] \<Rightarrow> (None, None, None)
                     | [name] \<Rightarrow> (Some name, None, None)
                     | [key, val] \<Rightarrow> (None, Some key, Some val)
                     | name # key # val # _ \<Rightarrow> (Some name, Some key, Some val));
                  cgroups \<leftarrow> cgroup_add controller name key val (c_cgroups cls);
                  Some (finish nih file a_pos (cls\<lparr>c_cgroups := cgroups\<rparr>))
                }))"

definition stanza_cgroup :: "nih_config \<Rightarrow> string \<Rightarrow> cur \<Rightarrow> JobClass \<Rightarrow> parsed option" where
  "stanza_cgroup = parse_cgroup"

section \<open>Job definitions\<close>

type_synonym handler = "string \<Rightarrow> cur \<Rightarrow> JobClass \<Rightarrow> parsed option"

definition always :: "(string \<Rightarrow> cur \<Rightarrow> JobClass \<Rightarrow> parsed) \<Rightarrow> handler" where
  "always f = (\<lambda>file pos cls. Some (f file pos cls))"

definition stanzas :: "bool \<Rightarrow> nih_config \<Rightarrow> (string \<times> handler) list" where
  "stanzas debug_enabled nih = [
     (''instance'', always (stanza_instance nih)),
     (''description'', always (stanza_description nih)),
     (''author'', always (stanza_author nih)),
     (''version'', always (stanza_version nih)),
     (''env'', always (stanza_env nih)),
     (''export'', always (stanza_export nih)),
     (''start'', stanza_start nih),
     (''stop'', stanza_stop nih),
     (''emits'', always (stanza_emits nih)),
     (''exec'', always (stanza_exec nih)),
     (''script'', always (stanza_script nih)),
     (''pre-start'', always (stanza_pre_start nih)),
     (''post-start'', always (stanza_post_start nih)),
     (''pre-stop'', always (stanza_pre_stop nih)),
     (''post-stop'', always (stanza_post_stop nih)),
     (''expect'', always (stanza_expect nih)),
     (''task'', always (stanza_task nih)),
     (''kill'', always (stanza_kill nih)),
     (''reload'', always (stanza_reload nih)),
     (''respawn'', always (stanza_respawn nih)),
     (''normal'', stanza_normal nih),
     (''console'', always (stanza_console nih)),
     (''umask'', always (stanza_umask nih)),
     (''nice'', always (stanza_nice nih)),
     (''oom'', always (stanza_oom nih)),
     (''limit'', always (stanza_limit nih)),
     (''chroot'', always (stanza_chroot nih)),
     (''chdir'', always (stanza_chdir nih)),
     (''setuid'', always (stanza_setuid nih)),
     (''setgid'', always (stanza_setgid nih)),
     (''debug'', always (stanza_debug debug_enabled)),
     (''manual'', always stanza_manual),
     (''usage'', always (stanza_usage nih)),
     (''apparmor'', always (stanza_apparmor nih)),
     (''cgroup'', stanza_cgroup nih)]"

text \<open>\<^verbatim>\<open>nih_config_parse_file\<close>, of libnih, is the parameter \<open>parse_file\<close>: it gets the table of handlers
  and the class. The class of the result is freed by the caller of \<^verbatim>\<open>parse_job\<close> when it was new and
  there was an error; \<open>None\<close> in the second component is the NULL that is returned.\<close>

type_synonym file_parser =
  "(string \<times> handler) list \<Rightarrow> string \<Rightarrow> cur \<Rightarrow> JobClass \<Rightarrow> parsed option"

definition parse_job ::
    "file_parser \<Rightarrow> bool \<Rightarrow> nih_config \<Rightarrow> JobClass \<Rightarrow> string \<Rightarrow> cur \<Rightarrow> parsed option" where
  "parse_job parse_file debug_enabled nih cls file pos = parse_file (stanzas debug_enabled nih) file pos cls"

lemma stanzas_names: "map fst (stanzas debug_enabled nih) = stanza_names"
  by (simp add: stanzas_def stanza_names_def)

end
