(* ===== verification/Conf.thy ===== *)
theory Conf
  imports ParseJob
begin

text \<open>
  \<^verbatim>\<open>src/init/conf.c\<close>: the sources of configuration, the files found in them and the job classes that are
  parsed from those, with \<^verbatim>\<open>parse_conf.c\<close>.

  A source is given by its place in the list \<^verbatim>\<open>conf_sources\<close>, from which nothing is ever removed.

  \<open>conf_lib\<close> stands for the kernel and libnih. Answers that may change with time are functions of the
  number of calls made so far. \<open>cl_lstat\<close> is whether a path names a regular file, \<open>None\<close> where there is
  nothing. \<open>cl_watch_dir\<close> and \<open>cl_walk\<close> get the filter of files and return, or fail with \<open>None\<close>, the
  paths that are visited, with whether they are regular files: \<^verbatim>\<open>nih_watch_new\<close> with \<^verbatim>\<open>create\<close> set calls
  the create handler and \<^verbatim>\<open>nih_dir_walk\<close> the visitor for them. Without \<^verbatim>\<open>create\<close>, for the directory of a
  single file, nothing is visited (\<open>cl_watch_file\<close>). \<open>cl_options\<close> is \<^verbatim>\<open>nih_config_parse_file\<close> with the
  empty table of stanzas of \<^verbatim>\<open>parse_conf.c\<close>. Log messages are left out, and with them the errors
  that are only reported.
\<close>

section \<open>The outside\<close>

record conf_lib =
  cl_read :: "nat \<Rightarrow> string \<Rightarrow> string option"
  cl_lstat :: "nat \<Rightarrow> string \<Rightarrow> bool option"
  cl_watch_file :: "nat \<Rightarrow> string \<Rightarrow> bool"
  cl_watch_dir :: "nat \<Rightarrow> string \<Rightarrow> (string \<Rightarrow> bool \<Rightarrow> bool) \<Rightarrow> (string \<times> bool) list option"
  cl_walk :: "nat \<Rightarrow> string \<Rightarrow> (string \<Rightarrow> bool \<Rightarrow> bool) \<Rightarrow> (string \<times> bool) list option"
  cl_ignore :: "string \<Rightarrow> bool"
  cl_parse_file :: file_parser
  cl_options :: "string \<Rightarrow> parse_error option"
  cl_debug :: bool
  cl_config :: nih_config

section \<open>Names of files\<close>

definition CONF_EXT_STD :: string where "CONF_EXT_STD = ''.conf''"
definition CONF_EXT_OVERRIDE :: string where "CONF_EXT_OVERRIDE = ''.override''"

text \<open>\<^verbatim>\<open>strrchr\<close>: what follows the last occurrence of a character, with it.\<close>

fun strrchr :: "char \<Rightarrow> string \<Rightarrow> string option" where
  "strrchr c [] = None"
| "strrchr c (x # xs) =
     (case strrchr c xs of Some r \<Rightarrow> Some r | None \<Rightarrow> if x = c then Some (x # xs) else None)"

definition IS_CONF_EXT_STD :: "string \<Rightarrow> bool" where
  "IS_CONF_EXT_STD period \<longleftrightarrow> period = CONF_EXT_STD"

definition IS_CONF_EXT_OVERRIDE :: "string \<Rightarrow> bool" where
  "IS_CONF_EXT_OVERRIDE period \<longleftrightarrow> period = CONF_EXT_OVERRIDE"

definition IS_CONF_EXT :: "string \<Rightarrow> bool" where
  "IS_CONF_EXT period \<longleftrightarrow> IS_CONF_EXT_STD period \<or> IS_CONF_EXT_OVERRIDE period"

definition is_conf_file_std :: "string \<Rightarrow> bool" where
  "is_conf_file_std path \<longleftrightarrow> (case strrchr CHR ''.'' path of None \<Rightarrow> False | Some ptr \<Rightarrow> IS_CONF_EXT_STD ptr)"

definition is_conf_file_override :: "string \<Rightarrow> bool" where
  "is_conf_file_override path \<longleftrightarrow>
     (case strrchr CHR ''.'' path of None \<Rightarrow> False | Some ptr \<Rightarrow> IS_CONF_EXT_OVERRIDE ptr)"

text \<open>What stands before the pointer into the path.\<close>

definition before :: "string \<Rightarrow> string \<Rightarrow> string" where
  "before path ptr = take (length path - length ptr) path"

definition is_conf_file :: "string \<Rightarrow> bool" where
  "is_conf_file path \<longleftrightarrow>
     (case strrchr CHR ''.'' path of
        None \<Rightarrow> False
      | Some ptr \<Rightarrow> length ptr < length path \<and> last (before path ptr) \<noteq> CHR ''/'' \<and> IS_CONF_EXT ptr)"

definition strncmp_prefix :: "string \<Rightarrow> string \<Rightarrow> bool" where
  "strncmp_prefix pre s \<longleftrightarrow> take (length pre) s = pre"

definition conf_to_job_name :: "string \<Rightarrow> string \<Rightarrow> string" where
  "conf_to_job_name source_path conf_path =
     (let start = (if strncmp_prefix source_path conf_path then drop (length source_path) conf_path else conf_path);
          start = dropWhile (\<lambda>c. c = CHR ''/'') start
      in case strrchr CHR ''.'' start of
           None \<Rightarrow> start
         | Some ext \<Rightarrow> if IS_CONF_EXT ext then before start ext else start)"

definition toggle_conf_name :: "string \<Rightarrow> string option" where
  "toggle_conf_name path =
     (case strrchr CHR ''.'' path of
        None \<Rightarrow> None
      | Some ext \<Rightarrow>
          let new_ext = (if IS_CONF_EXT_STD ext then CONF_EXT_OVERRIDE else CONF_EXT_STD)
          in Some (before path ext @ new_ext))"

text \<open>\<^verbatim>\<open>dirname\<close> of the C library.\<close>

definition strip_slashes :: "string \<Rightarrow> string" where
  "strip_slashes p = rev (dropWhile (\<lambda>c. c = CHR ''/'') (rev p))"

definition dirname :: "string \<Rightarrow> string" where
  "dirname p =
     (let q = strip_slashes p
      in if p \<noteq> [] \<and> q = [] then ''/''
         else if CHR ''/'' \<notin> set q then ''.''
         else let d = strip_slashes (rev (dropWhile (\<lambda>c. c \<noteq> CHR ''/'') (rev q)))
              in if d = [] then ''/'' else d)"

section \<open>Sources and files\<close>

definition conf_source_new :: "string \<Rightarrow> ConfSourceType \<Rightarrow> sys \<Rightarrow> sys" where
  "conf_source_new path type s =
     s\<lparr>s_conf := s_conf s @ [\<lparr>cs_path = path, cs_type = type, cs_watch = None, cs_flag = False, cs_files = []\<rparr>]\<rparr>"

text \<open>The source at a place of the list, and changing it.\<close>

definition get_source :: "nat \<Rightarrow> sys \<Rightarrow> ConfSource option" where
  "get_source i s = (if i < length (s_conf s) then Some (s_conf s ! i) else None)"

definition put_source :: "nat \<Rightarrow> ConfSource \<Rightarrow> sys \<Rightarrow> sys" where
  "put_source i source s = s\<lparr>s_conf := (s_conf s)[i := source]\<rparr>"

definition lookup_file :: "string \<Rightarrow> ConfSource \<Rightarrow> ConfFile option" where
  "lookup_file path source = find (\<lambda>f. f_path f = path) (cs_files source)"

definition conf_file_new :: "ConfSource \<Rightarrow> string \<Rightarrow> ConfSource" where
  "conf_file_new source path =
     source\<lparr>cs_files := cs_files source @ [\<lparr>f_path = path, f_flag = cs_flag source, f_job = None\<rparr>]\<rparr>"

text \<open>A file is taken out of the table; its class is set.\<close>

definition remove_file :: "string \<Rightarrow> ConfSource \<Rightarrow> ConfSource" where
  "remove_file path source =
     (case lookup_file path source of
        None \<Rightarrow> source
      | Some f \<Rightarrow> source\<lparr>cs_files := remove1 f (cs_files source)\<rparr>)"

fun set_job_of :: "string \<Rightarrow> nat option \<Rightarrow> ConfFile list \<Rightarrow> ConfFile list" where
  "set_job_of path job [] = []"
| "set_job_of path job (f # fs) = (if f_path f = path then f\<lparr>f_job := job\<rparr> # fs else f # set_job_of path job fs)"

definition set_file_job :: "string \<Rightarrow> nat option \<Rightarrow> ConfSource \<Rightarrow> ConfSource" where
  "set_file_job path job source = source\<lparr>cs_files := set_job_of path job (cs_files source)\<rparr>"

text \<open>\<^verbatim>\<open>conf_file_destroy\<close>, of a file that is no longer in the table of its source.\<close>

definition conf_file_destroy :: "ConfSourceType \<Rightarrow> ConfFile \<Rightarrow> sys \<Rightarrow> sys option" where
  "conf_file_destroy type fl s =
     (if type \<noteq> CONF_JOB_DIR then Some s
      else (case f_job fl of
          None \<Rightarrow> Some s
        | Some cid \<Rightarrow> do {
            cls \<leftarrow> s_classes s cid;
            let s = set_class cid (cls\<lparr>c_deleted := True\<rparr>) s;
            (unused, s) \<leftarrow> job_class_reconsider cid s;
            if unused then class_free cid s else Some s
          }))"

section \<open>Loading a file\<close>

definition parse_conf :: "conf_lib \<Rightarrow> string \<Rightarrow> parse_error option" where
  "parse_conf lib buf = cl_options lib buf"

text \<open>The parse errors that are reported and not returned.\<close>

definition soft_error :: "parse_error \<Rightarrow> bool" where
  "soft_error e \<longleftrightarrow> e \<in> {NIH_CONFIG_EXPECTED_TOKEN, NIH_CONFIG_UNEXPECTED_TOKEN, NIH_CONFIG_TRAILING_SLASH,
     NIH_CONFIG_UNTERMINATED_QUOTE, NIH_CONFIG_UNTERMINATED_BLOCK, NIH_CONFIG_UNKNOWN_STANZA,
     PARSE_ILLEGAL_INTERVAL, PARSE_ILLEGAL_EXIT, PARSE_ILLEGAL_UMASK, PARSE_ILLEGAL_NICE, PARSE_ILLEGAL_OOM,
     PARSE_ILLEGAL_LIMIT, PARSE_EXPECTED_EVENT, PARSE_EXPECTED_OPERATOR, PARSE_EXPECTED_VARIABLE,
     PARSE_MISMATCHED_PARENS}"

text \<open>A handler that replaces a condition frees the old one, which unblocks its events. A new condition
  refers to no events, so that one that is equal to the old one had nothing to free.\<close>

definition free_replaced :: "EventOperator option \<Rightarrow> EventOperator option \<Rightarrow> sys \<Rightarrow> sys option" where
  "free_replaced old new s = (if new = old then Some s else free_condition old s)"

text \<open>\<^verbatim>\<open>parse_job\<close> into the class of the file, or into a new one, which is freed if there is an error.\<close>

definition parse_into ::
    "conf_lib \<Rightarrow> os \<Rightarrow> nat option \<Rightarrow> string \<Rightarrow> string \<Rightarrow> sys \<Rightarrow> (parse_error option \<times> nat \<times> sys) option" where
  "parse_into lib w update name buf s =
     (case update of
        Some cid \<Rightarrow> do {
          cls \<leftarrow> s_classes s cid;
          (err, _, cls') \<leftarrow> parse_job (cl_parse_file lib) (cl_debug lib) (cl_config lib) cls buf (0, 1);
          s \<leftarrow> free_replaced (c_start_on cls) (c_start_on cls') s;
          s \<leftarrow> free_replaced (c_stop_on cls) (c_stop_on cls') s;
          Some (err, cid, set_class cid cls' s)
        }
      | None \<Rightarrow> do {
          cls \<leftarrow> job_class_new w s name;
          let cid = s_next s;
          (err, _, cls') \<leftarrow> parse_job (cl_parse_file lib) (cl_debug lib) (cl_config lib) cls buf (0, 1);
          Some (err, cid, if err = None then set_class cid cls' (s\<lparr>s_next := s_next s + 1\<rparr>) else s)
        })"

text \<open>The case \<^verbatim>\<open>CONF_JOB_DIR\<close> of \<^verbatim>\<open>conf_reload_path\<close>.\<close>

definition load_job ::
    "conf_lib \<Rightarrow> os \<Rightarrow> nat \<Rightarrow> string \<Rightarrow> string \<Rightarrow> sys \<Rightarrow> (parse_error option \<times> sys) option" where
  "load_job lib w i path buf s = do {
     source \<leftarrow> get_source i s;
     fl \<leftarrow> lookup_file path source;
     let name = conf_to_job_name (cs_path source) path;
     (err, cid, s) \<leftarrow> parse_into lib w (f_job fl) name buf s;
     if err = None then do {
       (_, s) \<leftarrow> job_class_consider cid (put_source i (set_file_job path (Some cid) source) s);
       Some (err, s)
     } else Some (err, put_source i (set_file_job path None source) s)
   }"

text \<open>\<open>orig\<close> is the file that is replaced.\<close>

definition destroy_replaced :: "ConfSourceType \<Rightarrow> ConfFile option \<Rightarrow> sys \<Rightarrow> sys option" where
  "destroy_replaced type orig s = (case orig of None \<Rightarrow> Some s | Some f \<Rightarrow> conf_file_destroy type f s)"

definition conf_reload_path ::
    "conf_lib \<Rightarrow> os \<Rightarrow> nat \<Rightarrow> string \<Rightarrow> string option \<Rightarrow> sys \<Rightarrow> (bool \<times> sys) option" where
  "conf_reload_path lib w i path override_path s = do {
     source \<leftarrow> get_source i s;
     let path_to_load = (case override_path of None \<Rightarrow> path | Some p \<Rightarrow> p);
     let orig = (if override_path = None then lookup_file path source else None);
     let source = (if orig = None then source else remove_file path source);
     let (buf, s) = call (\<lambda>n. cl_read lib n path_to_load) (put_source i source s);
     (case buf of
        None \<Rightarrow> do {
          s \<leftarrow> destroy_replaced (cs_type source) orig s;
          Some (False, s)
        }
      | Some buf \<Rightarrow> do {
          let s = (if lookup_file path source = None then put_source i (conf_file_new source path) s else s);
          (err, s) \<leftarrow>
            (if cs_type source = CONF_JOB_DIR then load_job lib w i path buf s
             else Some (parse_conf lib buf, s));
          s \<leftarrow> destroy_replaced (cs_type source) orig s;
          Some (case err of None \<Rightarrow> True | Some e \<Rightarrow> soft_error e, s)
        })
   }"

fun best_override_loop ::
    "conf_lib \<Rightarrow> string \<Rightarrow> nat \<Rightarrow> (nat \<times> ConfSource) list \<Rightarrow> sys \<Rightarrow> string option \<times> sys" where
  "best_override_loop lib name last_source [] s = (None, s)"
| "best_override_loop lib name last_source ((i, source) # rest) s =
     (if cs_type source = CONF_FILE then best_override_loop lib name last_source rest s
      else
        (let try_path = cs_path source @ ''/'' @ name @ CONF_EXT_OVERRIDE;
             (st, s) = call (\<lambda>n. cl_lstat lib n try_path) s
         in if st = Some True then (Some try_path, s)
            else if i = last_source then (None, s)
            else best_override_loop lib name last_source rest s))"

definition conf_get_best_override :: "conf_lib \<Rightarrow> string \<Rightarrow> nat \<Rightarrow> sys \<Rightarrow> string option \<times> sys" where
  "conf_get_best_override lib name last_source s =
     best_override_loop lib name last_source (List.enumerate 0 (s_conf s)) s"

definition conf_load_path_with_override :: "conf_lib \<Rightarrow> os \<Rightarrow> nat \<Rightarrow> string \<Rightarrow> sys \<Rightarrow> sys option" where
  "conf_load_path_with_override lib w i conf_path s = do {
     source \<leftarrow> get_source i s;
     (ok, s) \<leftarrow> conf_reload_path lib w i conf_path None s;
     if \<not> ok then Some s
     else do {
       let jname = conf_to_job_name (cs_path source) conf_path;
       let (override_path, s) = conf_get_best_override lib jname i s;
       (case override_path of
          None \<Rightarrow> Some s
        | Some p \<Rightarrow> do {
            (_, s) \<leftarrow> conf_reload_path lib w i conf_path (Some p) s;
            Some s
          })
     }
   }"

section \<open>Changes of files\<close>

text \<open>For an override file: every configuration file of the same name, in all directories.\<close>

definition reload_matching :: "conf_lib \<Rightarrow> os \<Rightarrow> string \<Rightarrow> nat \<Rightarrow> sys \<Rightarrow> sys option" where
  "reload_matching lib w jname i s = do {
     source \<leftarrow> get_source i s;
     if cs_type source = CONF_FILE then Some s
     else do {
       let config_path = cs_path source @ ''/'' @ jname @ CONF_EXT_STD;
       if lookup_file config_path source \<noteq> None then conf_load_path_with_override lib w i config_path s
       else Some s
     }
   }"

text \<open>\<open>statbuf\<close> is whether the file is a regular one, \<open>None\<close> for NULL.\<close>

definition conf_create_modify_handler ::
    "conf_lib \<Rightarrow> os \<Rightarrow> nat \<Rightarrow> string \<Rightarrow> bool option \<Rightarrow> sys \<Rightarrow> sys option" where
  "conf_create_modify_handler lib w i path statbuf s = do {
     source \<leftarrow> get_source i s;
     if statbuf = Some False then Some s
     else if \<not> is_conf_file path then Some s
     else if is_conf_file_std path then conf_load_path_with_override lib w i path s
     else foldM (reload_matching lib w (conf_to_job_name (cs_path source) path)) [0..<length (s_conf s)] s
   }"

text \<open>\<open>watch_path\<close> is the path of the watch that reports the deletion.\<close>

definition conf_delete_handler :: "conf_lib \<Rightarrow> os \<Rightarrow> nat \<Rightarrow> string \<Rightarrow> string \<Rightarrow> sys \<Rightarrow> sys option" where
  "conf_delete_handler lib w i watch_path path s = do {
     source \<leftarrow> get_source i s;
     let fl = lookup_file path source;
     if is_conf_file_override path then conf_create_modify_handler lib w i path None s
     else (case fl of
         None \<Rightarrow> Some (if watch_path = path then put_source i (source\<lparr>cs_watch := None\<rparr>) s else s)
       | Some fl \<Rightarrow> conf_file_destroy (cs_type source) fl (put_source i (remove_file path source) s))
   }"

definition conf_file_visitor :: "conf_lib \<Rightarrow> os \<Rightarrow> nat \<Rightarrow> string \<times> bool \<Rightarrow> sys \<Rightarrow> sys option" where
  "conf_file_visitor lib w i = (\<lambda>(path, regular) s.
     if \<not> regular then Some s
     else if is_conf_file_std path then conf_load_path_with_override lib w i path s
     else Some s)"

text \<open>The filters return true for what is to be left out. The watch of \<open>conf_file_filter\<close> may be NULL.\<close>

definition conf_file_filter :: "ConfSource \<Rightarrow> string \<Rightarrow> bool option" where
  "conf_file_filter source path =
     (if cs_path source = path then Some False
      else do { watch \<leftarrow> cs_watch source; Some (watch \<noteq> path) })"

definition conf_dir_filter :: "conf_lib \<Rightarrow> ConfSource \<Rightarrow> string \<Rightarrow> bool \<Rightarrow> bool" where
  "conf_dir_filter lib source path is_dir \<longleftrightarrow>
     (if cs_path source = path then False
      else if is_dir then cl_ignore lib path
      else \<not> is_conf_file path)"

section \<open>Reloading\<close>

text \<open>The results: whether there was no error.\<close>

definition conf_source_reload_file :: "conf_lib \<Rightarrow> os \<Rightarrow> nat \<Rightarrow> sys \<Rightarrow> (bool \<times> sys) option" where
  "conf_source_reload_file lib w i s = do {
     source \<leftarrow> get_source i s;
     nih_assert (cs_type source = CONF_FILE);
     let s = (if cs_watch source = None then
         (let dname = dirname (cs_path source);
              (watched, s) = call (\<lambda>n. cl_watch_file lib n dname) s
          in if watched then put_source i (source\<lparr>cs_watch := Some dname\<rparr>) s else s)
       else s);
     (ok, s) \<leftarrow> conf_reload_path lib w i (cs_path source) None s;
     if \<not> ok then Some (False, s)
     else if \<not> is_conf_file_std (cs_path source) then Some (True, s)
     else do {
       override_path \<leftarrow> toggle_conf_name (cs_path source);
       let (st, s) = call (\<lambda>n. cl_lstat lib n override_path) s;
       if st = None then Some (True, s)
       else conf_reload_path lib w i (cs_path source) (Some override_path) s
     }
   }"

definition conf_source_reload_dir :: "conf_lib \<Rightarrow> os \<Rightarrow> nat \<Rightarrow> sys \<Rightarrow> (bool \<times> sys) option" where
  "conf_source_reload_dir lib w i s = do {
     source \<leftarrow> get_source i s;
     nih_assert (cs_type source \<noteq> CONF_FILE);
     let (watched, s) =
       (if cs_watch source = None then call (\<lambda>n. cl_watch_dir lib n (cs_path source) (conf_dir_filter lib source)) s
        else (None, s));
     (case watched of
        Some entries \<Rightarrow> do {
          s \<leftarrow> foldM (\<lambda>(path, regular). conf_create_modify_handler lib w i path (Some regular)) entries s;
          source \<leftarrow> get_source i s;
          Some (True, put_source i (source\<lparr>cs_watch := Some (cs_path source)\<rparr>) s)
        }
      | None \<Rightarrow> do {
          let (walked, s) = call (\<lambda>n. cl_walk lib n (cs_path source) (conf_dir_filter lib source)) s;
          (case walked of
             None \<Rightarrow> Some (False, s)
           | Some entries \<Rightarrow> do {
               s \<leftarrow> foldM (conf_file_visitor lib w i) entries s;
               Some (True, s)
             })
        })
   }"

text \<open>The end of \<^verbatim>\<open>conf_source_reload\<close>: the files that were not found again are deleted.\<close>

definition delete_stale :: "nat \<Rightarrow> sys \<Rightarrow> sys option" where
  "delete_stale i s = do {
     source \<leftarrow> get_source i s;
     let (keep, deleted) = partition (\<lambda>f. f_flag f = cs_flag source) (cs_files source);
     foldM (conf_file_destroy (cs_type source)) deleted (put_source i (source\<lparr>cs_files := keep\<rparr>) s)
   }"

definition conf_source_reload :: "conf_lib \<Rightarrow> os \<Rightarrow> nat \<Rightarrow> sys \<Rightarrow> (bool \<times> sys) option" where
  "conf_source_reload lib w i s = do {
     source \<leftarrow> get_source i s;
     let s = put_source i (source\<lparr>cs_flag := \<not> cs_flag source\<rparr>) s;
     (ret, s) \<leftarrow>
       (if cs_type source = CONF_FILE then conf_source_reload_file lib w i s
        else conf_source_reload_dir lib w i s);
     s \<leftarrow> delete_stale i s;
     Some (ret, s)
   }"

definition conf_reload :: "conf_lib \<Rightarrow> os \<Rightarrow> sys \<Rightarrow> sys option" where
  "conf_reload lib w s =
     foldM (\<lambda>i s. do { (_, s) \<leftarrow> conf_source_reload lib w i s; Some s }) [0..<length (s_conf s)] s"

section \<open>Looking up\<close>

definition conf_source_get_index :: "ConfSource \<Rightarrow> sys \<Rightarrow> nat option" where
  "conf_source_get_index source s = find (\<lambda>i. cs_path (s_conf s ! i) = cs_path source) [0..<length (s_conf s)]"

text \<open>\<^verbatim>\<open>strstr\<close>: what follows the first occurrence of a string, with it.\<close>

fun strstr :: "string \<Rightarrow> string \<Rightarrow> string option" where
  "strstr [] pat = (if pat = [] then Some [] else None)"
| "strstr (c # cs) pat = (if strncmp_prefix pat (c # cs) then Some (c # cs) else strstr cs pat)"

definition conf_file_find :: "string \<Rightarrow> sys \<Rightarrow> ConfFile option" where
  "conf_file_find name s =
     (let basename = ''/'' @ name @ CONF_EXT_STD
      in find (\<lambda>f. let match = strstr (f_path f) basename in match \<noteq> None \<and> match = strrchr CHR ''/'' (f_path f))
           (concat (map cs_files (s_conf s))))"

section \<open>Types of sources\<close>

fun conf_source_type_enum_to_str :: "ConfSourceType \<Rightarrow> string option" where
  "conf_source_type_enum_to_str CONF_FILE = Some ''CONF_FILE''"
| "conf_source_type_enum_to_str CONF_DIR = Some ''CONF_DIR''"
| "conf_source_type_enum_to_str CONF_JOB_DIR = Some ''CONF_JOB_DIR''"

definition conf_source_type_str_to_enum :: "string \<Rightarrow> ConfSourceType option" where
  "conf_source_type_str_to_enum s =
    (if s = ''CONF_FILE'' then Some CONF_FILE
     else if s = ''CONF_DIR'' then Some CONF_DIR
     else if s = ''CONF_JOB_DIR'' then Some CONF_JOB_DIR
     else None)"

interpretation source_type_enum: enum_codec conf_source_type_enum_to_str conf_source_type_str_to_enum "\<lambda>x. True"
proof (rule enum_codecI)
  show "conf_source_type_enum_to_str x = None \<or>
      Option.bind (conf_source_type_enum_to_str x) conf_source_type_str_to_enum = Some x" for x by (induct x; code_simp)
  show "conf_source_type_enum_to_str x = None \<longleftrightarrow> \<not> (\<lambda>x. True) x" for x by (cases x) simp_all
qed (unfold conf_source_type_str_to_enum_def, elim if_Some_E, simp_all)

end
