(* ===== verification/ParseJobProps.thy ===== *)
theory ParseJobProps
  imports ParseJob
begin

text \<open>
  What holds of a class whose definition was parsed without an error (\<open>class_legal\<close>): every process has
  a command, the conditions are well-formed, the numbers are within their bounds. Up to the kill
  timeout of zero, which the parser lets through, this is what the state machine of jobs relies on.
\<close>

section \<open>Numbers\<close>

lemma to_int_bounds: "- (2 ^ 31) \<le> to_int n" "to_int n < 2 ^ 31"
  unfolding to_int_def by (rule signed_take_bit_int_greater_eq_minus_exp, rule signed_take_bit_int_less_exp)

lemma to_int_id: "- (2 ^ 31) \<le> n \<Longrightarrow> n < 2 ^ 31 \<Longrightarrow> to_int n = n"
  by (simp add: to_int_def signed_take_bit_int_eq_self)

lemma to_int_wraps: "to_int (n + k * 2 ^ 32) = to_int n"
proof -
  have "take_bit 32 (n + k * 2 ^ 32) = take_bit 32 n" by (simp add: take_bit_eq_mod)
  then show ?thesis
    unfolding to_int_def by (simp add: signed_take_bit_eq_iff_take_bit_eq)
qed

lemma digits_val_snoc: "digits_val base acc (ds @ [c]) = digits_val base acc ds * base + digit_val c"
  by (induction ds arbitrary: acc) simp_all

lemma digit_val_char: "d < 10 \<Longrightarrow> digit_val (char_of (48 + d :: nat)) = int d"
proof -
  assume "d < 10"
  moreover have "(of_char (char_of (48 + d)) :: int) = int (of_char (char_of (48 + d)) :: nat)"
    by (rule of_nat_of_char [symmetric])
  ultimately show ?thesis by (simp add: digit_val_def del: of_nat_of_char)
qed

lemma show_nat_digits: "show_nat n \<noteq> [] \<and> list_all (is_digit 10) (show_nat n) \<and> digits_val 10 0 (show_nat n) = int n"
proof (induction n rule: show_nat.induct)
  case (1 n)
  show ?case
  proof (cases "n < 10")
    case True
    then show ?thesis by (simp add: show_nat.simps [of n] is_digit_def digit_val_char)
  next
    case False
    moreover have "digit_val (char_of (48 + n mod 10)) = int (n mod 10)" by (rule digit_val_char) simp
    moreover have "int (n div 10) * 10 + int (n mod 10) = int n" by (metis div_mult_mod_eq of_nat_add of_nat_mult of_nat_numeral)
    ultimately show ?thesis
      using 1 by (simp add: show_nat.simps [of n] is_digit_def digits_val_snoc)
  qed
qed

lemma digit_not_special: "is_digit 10 c \<Longrightarrow> \<not> isspace c \<and> c \<noteq> CHR ''-'' \<and> c \<noteq> CHR ''+''"
  by (auto simp: is_digit_def digit_val_def isspace_def)

lemma scan_number_show:
  "scan_number 10 (show_nat n) = (False, int n, [])" "scan_number 10 (CHR ''-'' # show_nat n) = (True, int n, [])"
proof -
  note d = show_nat_digits [of n]
  obtain c cs where cs: "show_nat n = c # cs" using d by (cases "show_nat n") auto
  have c: "\<not> isspace c" "c \<noteq> CHR ''-''" "c \<noteq> CHR ''+''" using d cs digit_not_special by auto
  have all: "takeWhile (is_digit 10) cs = cs" "dropWhile (is_digit 10) cs = []" "is_digit 10 c"
    using d cs by (simp_all add: list_all_iff takeWhile_eq_all_conv)
  have "\<not> isspace CHR ''-''" by (simp add: isspace_def)
  then show "scan_number 10 (show_nat n) = (False, int n, [])" "scan_number 10 (CHR ''-'' # show_nat n) = (True, int n, [])"
    using d all(3) c cs by (simp_all add: scan_number_def Let_def all(1,2))
qed

lemma strtol_show_int: "LONG_MIN \<le> n \<Longrightarrow> n \<le> LONG_MAX \<Longrightarrow> strtol 10 (show_int n) = (n, [], False)"
  using scan_number_show by (auto simp: strtol_def show_int_def LONG_MIN_def LONG_MAX_def)

lemma strtoul_bounds: "strtoul base s = (n, rest, erange) \<Longrightarrow> 0 \<le> n \<and> n \<le> ULONG_MAX"
proof -
  have "take_bit 64 k \<le> 2 ^ 64 - 1" for k :: int using take_bit_int_less_exp [of 64 k] by simp
  then show "strtoul base s = (n, rest, erange) \<Longrightarrow> 0 \<le> n \<and> n \<le> ULONG_MAX"
    by (auto simp: strtoul_def Let_def ULONG_MAX_def split: prod.splits if_splits)
qed

section \<open>Legal classes\<close>

definition class_legal :: "JobClass \<Rightarrow> bool" where
  "class_legal cls \<longleftrightarrow>
     (\<forall>p proc. c_process cls p = Some proc \<longrightarrow> p_command proc \<noteq> None) \<and>
     cond_ok (c_start_on cls) \<and> cond_ok (c_stop_on cls) \<and> c_instance cls \<noteq> None \<and>
     0 \<le> c_kill_timeout cls \<and> 0 \<le> c_kill_signal cls \<and> 0 \<le> c_reload_signal cls \<and>
     0 \<le> c_respawn_limit cls \<and> 0 \<le> c_respawn_interval cls \<and>
     (c_nice cls = JOB_NICE_INVALID \<or> -20 \<le> c_nice cls \<and> c_nice cls \<le> 19) \<and>
     -1000 \<le> c_oom_score_adj cls \<and> c_oom_score_adj cls \<le> 1000 \<and>
     and (c_umask cls) (not 0x1FF) = 0 \<and>
     distinct (map fst (c_limits cls)) \<and> groups_ok (c_cgroups cls)"

section \<open>Properties of classes that handlers keep\<close>

text \<open>A successful call of the handler keeps the property.\<close>

definition handler_keeps :: "(JobClass \<Rightarrow> bool) \<Rightarrow> handler \<Rightarrow> bool" where
  "handler_keeps P h \<longleftrightarrow> (\<forall>file pos cls pos' cls'. P cls \<longrightarrow> h file pos cls = Some (None, pos', cls') \<longrightarrow> P cls')"

lemma handler_keepsI:
  "(\<And>file pos cls pos' cls'. P cls \<Longrightarrow> h file pos cls = Some (None, pos', cls') \<Longrightarrow> P cls') \<Longrightarrow> handler_keeps P h"
  by (auto simp: handler_keeps_def)

lemma handler_keeps_always:
  "(\<And>file pos cls pos' cls'. P cls \<Longrightarrow> h file pos cls = (None, pos', cls') \<Longrightarrow> P cls') \<Longrightarrow> handler_keeps P (always h)"
  by (auto simp: handler_keeps_def always_def)

lemma finish_class [simp]: "finish nih file pos cls = (e, pos', cls') \<longleftrightarrow> skip_comment nih file pos = (e, pos') \<and> cls' = cls"
  by (auto simp: finish_def Let_def split: prod.splits)

lemma handler_keeps_store_arg:
  "(\<And>cls arg. P cls \<Longrightarrow> P (f (Some arg) cls)) \<Longrightarrow> handler_keeps P (always (store_arg nih f))"
  by (auto intro!: handler_keeps_always simp: store_arg_def Let_def split: prod.splits sum.splits)

lemma handler_keeps_store_args:
  "(\<And>cls args. P cls \<Longrightarrow> P (f args cls)) \<Longrightarrow> handler_keeps P (always (store_args nih f))"
  by (auto intro!: handler_keeps_always simp: store_args_def Let_def split: prod.splits sum.splits if_splits)

lemma handler_keeps_store_number:
  assumes "\<And>cls n. P cls \<Longrightarrow> legal (f n cls) \<Longrightarrow> P (f n cls)"
  shows "handler_keeps P (always (store_number nih convert f legal e))"
  using assms by (intro handler_keeps_always) (auto simp: store_number_def Let_def split: prod.splits sum.splits if_splits)

lemma parse_exec_run:
  "parse_exec nih p file pos cls = (None, pos', cls') \<Longrightarrow>
     \<exists>command. cls' = set_process p \<lparr>p_script = False, p_command = Some command\<rparr> cls"
  by (auto simp: parse_exec_def Let_def split: prod.splits sum.splits if_splits)

lemma parse_script_run:
  "parse_script nih p file pos cls = (None, pos', cls') \<Longrightarrow>
     \<exists>command. cls' = set_process p \<lparr>p_script = True, p_command = Some command\<rparr> cls"
  by (auto simp: parse_script_def Let_def split: prod.splits sum.splits option.splits)

lemma set_process_twice [simp]: "set_process p x (set_process p y cls) = set_process p x cls"
  by (simp add: set_process_def)

text \<open>A parsed condition is a tree of the grammar that refers to no events.\<close>

lemma condition_tree:
  "operand ts t \<Longrightarrow> oper_ok t \<and> oper_refs t = []" "condition ts t \<Longrightarrow> oper_ok t \<and> oper_refs t = []"
proof (induction rule: operand_condition.inducts)
  case (binary ts t raw ty us u d)
  then show ?case using operator_type_cases by (auto simp: oper_node_def new_oper_def)
qed (auto simp: match_node_def new_oper_def)

lemma stanza_on_run:
  assumes "stanza_on nih f file pos cls = Some (None, pos', cls')"
  shows "\<exists>t. oper_ok t \<and> oper_refs t = [] \<and> cls' = f (Some t) cls"
proof -
  have "\<exists>t toks. condition toks t \<and> cls' = f (Some t) cls"
    using assms parse_on_accepts [of "parse_on_fuel file" nih "file"]
    by (fastforce simp: stanza_on_def Let_def split: prod.splits sum.splits if_splits Option.bind_splits)
  then show ?thesis using condition_tree by blast
qed

lemma parse_signal_run:
  assumes "parse_signal nih f file pos cls = (None, pos', cls')"
  shows "\<exists>n\<ge>0. cls' = f n cls"
proof -
  obtain arg n where "signal_arg nih arg = Some n" "cls' = f n cls"
    using assms by (auto simp: parse_signal_def Let_def split: prod.splits sum.splits option.splits)
  moreover from this have "n \<ge> 0"
    by (auto simp: signal_arg_def Let_def dest: strtoul_bounds split: prod.splits if_splits)
  ultimately show ?thesis by blast
qed

lemma oom_score_bounds: "-17 \<le> n \<Longrightarrow> n \<le> 15 \<Longrightarrow> -1000 \<le> oom_score n \<and> oom_score n \<le> 1000"
  by (auto simp: oom_score_def Let_def to_int_id)

lemma normal_exits_class:
  "normal_exits fuel nih file pos cls = Some (e, pos', cls') \<Longrightarrow> \<exists>ns. cls' = cls\<lparr>c_normalexit := ns\<rparr>"
proof (induction fuel arbitrary: pos cls)
  case (Suc fuel)
  then show ?case
    by (fastforce simp: Let_def intro: exI [of _ "c_normalexit cls"] split: prod.splits sum.splits option.splits if_splits)
qed simp

text \<open>What a property has to allow for every handler to keep it: the fields may be set to what the
  handlers let through.\<close>

locale stanza_invariant =
  fixes P :: "JobClass \<Rightarrow> bool"
  assumes strings: "P cls \<Longrightarrow> P (cls\<lparr>c_description := d\<rparr>)" "P cls \<Longrightarrow> P (cls\<lparr>c_author := d\<rparr>)"
      "P cls \<Longrightarrow> P (cls\<lparr>c_version := d\<rparr>)" "P cls \<Longrightarrow> P (cls\<lparr>c_chroot := d\<rparr>)" "P cls \<Longrightarrow> P (cls\<lparr>c_chdir := d\<rparr>)"
      "P cls \<Longrightarrow> P (cls\<lparr>c_setuid := d\<rparr>)" "P cls \<Longrightarrow> P (cls\<lparr>c_setgid := d\<rparr>)" "P cls \<Longrightarrow> P (cls\<lparr>c_usage := d\<rparr>)"
      "P cls \<Longrightarrow> P (cls\<lparr>c_apparmor_switch := d\<rparr>)" "P cls \<Longrightarrow> P (cls\<lparr>c_instance := Some i\<rparr>)"
    and lists: "P cls \<Longrightarrow> P (cls\<lparr>c_env := l\<rparr>)" "P cls \<Longrightarrow> P (cls\<lparr>c_export := l\<rparr>)" "P cls \<Longrightarrow> P (cls\<lparr>c_emits := l\<rparr>)"
      "P cls \<Longrightarrow> P (cls\<lparr>c_normalexit := ns\<rparr>)"
    and flags: "P cls \<Longrightarrow> P (cls\<lparr>c_debug := b\<rparr>)" "P cls \<Longrightarrow> P (cls\<lparr>c_task := b\<rparr>)" "P cls \<Longrightarrow> P (cls\<lparr>c_respawn := b\<rparr>)"
      "P cls \<Longrightarrow> P (cls\<lparr>c_expect := x\<rparr>)" "P cls \<Longrightarrow> P (cls\<lparr>c_console := c\<rparr>)"
    and conditions: "P cls \<Longrightarrow> oper_ok t \<Longrightarrow> oper_refs t = [] \<Longrightarrow> P (cls\<lparr>c_start_on := Some t\<rparr>)"
      "P cls \<Longrightarrow> oper_ok t \<Longrightarrow> oper_refs t = [] \<Longrightarrow> P (cls\<lparr>c_stop_on := Some t\<rparr>)" "P cls \<Longrightarrow> P (cls\<lparr>c_start_on := None\<rparr>)"
    and processes: "P cls \<Longrightarrow> p_command proc \<noteq> None \<Longrightarrow> P (set_process p proc cls)"
    and kill: "P cls \<Longrightarrow> n \<ge> 0 \<Longrightarrow> P (cls\<lparr>c_kill_timeout := n\<rparr>)" "P cls \<Longrightarrow> n \<ge> 0 \<Longrightarrow> P (cls\<lparr>c_kill_signal := n\<rparr>)"
      "P cls \<Longrightarrow> n \<ge> 0 \<Longrightarrow> P (cls\<lparr>c_reload_signal := n\<rparr>)"
    and respawn: "P cls \<Longrightarrow> n \<ge> 0 \<Longrightarrow> m \<ge> 0 \<Longrightarrow> P (cls\<lparr>c_respawn_limit := n, c_respawn_interval := m\<rparr>)"
    and numbers: "P cls \<Longrightarrow> and m (not 0x1FF) = 0 \<Longrightarrow> P (cls\<lparr>c_umask := m\<rparr>)"
      "P cls \<Longrightarrow> -20 \<le> n \<Longrightarrow> n \<le> 19 \<Longrightarrow> P (cls\<lparr>c_nice := n\<rparr>)"
      "P cls \<Longrightarrow> -1000 \<le> n \<Longrightarrow> n \<le> 1000 \<Longrightarrow> P (cls\<lparr>c_oom_score_adj := n\<rparr>)"
    and limits: "P cls \<Longrightarrow> P (set_limit r lim cls)"
    and groups: "P cls \<Longrightarrow> cgroup_add controller name key val (c_cgroups cls) = Some g \<Longrightarrow> P (cls\<lparr>c_cgroups := g\<rparr>)"
begin

lemma keeps_arguments:
  "handler_keeps P (always (stanza_instance nih))" "handler_keeps P (always (stanza_description nih))"
  "handler_keeps P (always (stanza_author nih))" "handler_keeps P (always (stanza_version nih))"
  "handler_keeps P (always (stanza_chroot nih))" "handler_keeps P (always (stanza_chdir nih))"
  "handler_keeps P (always (stanza_setuid nih))" "handler_keeps P (always (stanza_setgid nih))"
  "handler_keeps P (always (stanza_usage nih))" "handler_keeps P (always (stanza_export nih))"
  "handler_keeps P (always (stanza_emits nih))"
  unfolding stanza_instance_def stanza_description_def stanza_author_def stanza_version_def stanza_chroot_def
    stanza_chdir_def stanza_setuid_def stanza_setgid_def stanza_usage_def stanza_export_def stanza_emits_def
  by (rule handler_keeps_store_arg handler_keeps_store_args; simp add: strings lists)+

lemma keeps_flags:
  "handler_keeps P (always (stanza_env nih))" "handler_keeps P (always (stanza_debug enabled))"
  "handler_keeps P (always stanza_manual)" "handler_keeps P (always (stanza_task nih))"
  "handler_keeps P (always (stanza_expect nih))" "handler_keeps P (always (stanza_console nih))"
  by (rule handler_keeps_always; auto simp: stanza_env_def stanza_debug_def stanza_manual_def stanza_task_def
    stanza_expect_def stanza_console_def lists flags conditions Let_def split: prod.splits sum.splits option.splits if_splits)+

lemma keeps_processes:
  "handler_keeps P (always (stanza_exec nih))" "handler_keeps P (always (stanza_script nih))"
  "handler_keeps P (always (parse_process nih p))"
  by (rule handler_keeps_always; auto simp: stanza_exec_def stanza_script_def parse_process_def Let_def
    processes dest!: parse_exec_run parse_script_run split: prod.splits sum.splits if_splits)+

lemma keeps_apparmor: "handler_keeps P (always (stanza_apparmor nih))"
  by (rule handler_keeps_always) (auto simp: stanza_apparmor_def Let_def strings processes
    split: prod.splits sum.splits if_splits)

lemma keeps_on: "handler_keeps P (stanza_start nih)" "handler_keeps P (stanza_stop nih)"
  by (rule handler_keepsI; unfold stanza_start_def stanza_stop_def; drule stanza_on_run; auto simp: conditions)+

lemma keeps_signals: "handler_keeps P (always (stanza_kill nih))" "handler_keeps P (always (stanza_reload nih))"
  by (rule handler_keeps_always; auto simp: stanza_kill_def stanza_reload_def kill Let_def
    dest!: parse_signal_run split: prod.splits sum.splits if_splits)+

lemma keeps_respawn: "handler_keeps P (always (stanza_respawn nih))"
  by (rule handler_keeps_always) (auto simp: stanza_respawn_def respawn_limit_args_def flags respawn Let_def
    split: prod.splits sum.splits if_splits)

lemma keeps_numbers: "handler_keeps P (always (stanza_umask nih))" "handler_keeps P (always (stanza_nice nih))"
  unfolding stanza_umask_def stanza_nice_def by (rule handler_keeps_store_number; simp add: numbers)+

lemma keeps_oom: "handler_keeps P (always (stanza_oom nih))"
  using oom_score_bounds
  by (intro handler_keeps_always) (auto simp: stanza_oom_def numbers Let_def split: prod.splits sum.splits if_splits)

lemma keeps_normal: "handler_keeps P (stanza_normal nih)"
  by (rule handler_keepsI) (auto simp: stanza_normal_def Let_def lists simp del: normal_exits.simps
    dest!: normal_exits_class split: prod.splits sum.splits if_splits)

lemma keeps_limit: "handler_keeps P (always (stanza_limit nih))"
  by (rule handler_keeps_always) (auto simp: stanza_limit_def Let_def limits split: prod.splits sum.splits option.splits)

lemma keeps_cgroup: "handler_keeps P (stanza_cgroup nih)"
  by (rule handler_keepsI) (auto simp: stanza_cgroup_def parse_cgroup_def Let_def
    intro: groups split: prod.splits sum.splits list.splits Option.bind_splits)

text \<open>All handlers together.\<close>

lemma keeps_stanzas: "\<forall>(name, h)\<in>set (stanzas debug nih). handler_keeps P h"
  unfolding stanzas_def stanza_pre_start_def stanza_post_start_def stanza_pre_stop_def stanza_post_stop_def
  by (simp add: keeps_arguments keeps_flags keeps_processes keeps_apparmor keeps_on keeps_signals keeps_respawn
    keeps_numbers keeps_oom keeps_normal keeps_limit keeps_cgroup)

end

interpretation legal: stanza_invariant class_legal
proof unfold_locales
  show "class_legal cls \<Longrightarrow> class_legal (set_limit r lim cls)" for cls r lim
    by (auto simp: class_legal_def set_limit_def distinct_map_filter)
  show "class_legal cls \<Longrightarrow> p_command proc \<noteq> None \<Longrightarrow> class_legal (set_process p proc cls)" for cls proc p
    by (auto simp: class_legal_def set_process_def split: if_splits)
  show "class_legal cls \<Longrightarrow> cgroup_add controller name key val (c_cgroups cls) = Some g \<Longrightarrow>
      class_legal (cls\<lparr>c_cgroups := g\<rparr>)" for cls controller name key val g
    by (auto simp: class_legal_def dest: cgroup_add_ok)
qed (simp_all add: class_legal_def cond_ok_def)

section \<open>Properties\<close>

text \<open>Classes that can be reached by successful calls of handlers.\<close>

inductive handled :: "(string \<times> handler) list \<Rightarrow> string \<Rightarrow> JobClass \<Rightarrow> JobClass \<Rightarrow> bool" for table "file" where
  nothing: "handled table file cls cls"
| stanza: "handled table file cls cls1 \<Longrightarrow> (name, h) \<in> set table \<Longrightarrow> h file pos cls1 = Some (None, pos', cls2) \<Longrightarrow>
    handled table file cls cls2"

lemma handled_keeps:
  "handled table file cls cls' \<Longrightarrow> \<forall>(name, h)\<in>set table. handler_keeps P h \<Longrightarrow> P cls \<Longrightarrow> P cls'"
  by (induction rule: handled.induct) (auto simp: handler_keeps_def)

text \<open>C29: a class whose definition was parsed without an error is legal: every process has a command,
  the conditions are trees of the grammar, and timeouts, signals, limits, priorities, the umask and
  the groups are within their bounds. It is a class with which the state machine of jobs never
  aborts, unless its kill timeout is 0. Of libnih it is used that a parse without an error is a
  sequence of calls of handlers without an error.\<close>

theorem parse_job_legal:
  assumes "\<And>table file pos cls pos' cls'. parse_file table file pos cls = Some (None, pos', cls') \<Longrightarrow> handled table file cls cls'"
    and "parse_job parse_file debug nih cls file pos = Some (None, pos', cls')" and "class_legal cls"
  shows "class_legal cls' \<and> (class_ok cls' \<longleftrightarrow> c_kill_timeout cls' \<noteq> 0)"
proof -
  have "class_legal cls'"
    using assms handled_keeps [of _ _ _ _ class_legal] legal.keeps_stanzas unfolding parse_job_def by blast
  then show ?thesis by (auto simp: class_legal_def class_ok_def)
qed


text \<open>A parser of one stanza.\<close>

definition sample_parse_file :: file_parser where
  "sample_parse_file table file pos cls =
     (case take_word file blank_chars False pos of
        (Inl e, pos) \<Rightarrow> Some (Some e, pos, cls)
      | (Inr name, pos) \<Rightarrow>
          (case map_of table name of
             None \<Rightarrow> Some (Some NIH_CONFIG_UNKNOWN_STANZA, pos, cls)
           | Some h \<Rightarrow> h file pos cls))"

lemma sample_parse_file_handled:
  "sample_parse_file table file pos cls = Some (None, pos', cls') \<Longrightarrow> handled table file cls cls'"
proof -
  assume "sample_parse_file table file pos cls = Some (None, pos', cls')"
  then obtain name h pos1 where "map_of table name = Some h" "h file pos1 cls = Some (None, pos', cls')"
    by (auto simp: sample_parse_file_def split: sum.splits prod.splits option.splits)
  then show ?thesis using handled.stanza [OF handled.nothing map_of_SomeD] by blast
qed

lemma sample_class_legal: "class_legal (sample_class ''a'')"
  by (simp add: class_legal_def sample_class_def job_class_new_def cond_ok_def groups_ok_def sys_init_def
    JOB_DEFAULT_KILL_TIMEOUT_def SIGTERM_def SIGHUP_def JOB_DEFAULT_RESPAWN_LIMIT_def JOB_DEFAULT_RESPAWN_INTERVAL_def
    JOB_DEFAULT_OOM_SCORE_ADJ_def JOB_DEFAULT_UMASK_def)

lemma sample_kill_timeout:
  "parse_job sample_parse_file False sample_nih (sample_class ''a'') ''kill timeout 7'' (0, 1) =
     Some (None, (14, 2), (sample_class ''a'')\<lparr>c_kill_timeout := 7\<rparr>)"
  by code_simp

theorem parse_job_legal_witness:
  "class_legal ((sample_class ''a'')\<lparr>c_kill_timeout := 7\<rparr>) \<and> class_ok ((sample_class ''a'')\<lparr>c_kill_timeout := 7\<rparr>)"
  using parse_job_legal [OF sample_parse_file_handled sample_kill_timeout sample_class_legal] by simp


text \<open>Of the arguments it is used that they are read forward.\<close>

definition args_ok :: "nih_config \<Rightarrow> string \<Rightarrow> bool" where
  "args_ok nih file \<longleftrightarrow> (\<forall>c arg c'. fst c \<le> length file \<longrightarrow> next_arg nih file c = (Inr arg, c') \<longrightarrow>
     fst c < fst c' \<and> fst c' \<le> length file)"

lemma normal_exits_total:
  assumes "args_ok nih file"
  shows "fst pos \<le> length file \<Longrightarrow> length file - fst pos < fuel \<Longrightarrow> \<exists>r. normal_exits fuel nih file pos cls = Some r"
proof (induction fuel arbitrary: pos cls)
  case (Suc fuel)
  obtain r pos1 where r: "next_arg nih file pos = (r, pos1)" by (meson surj_pair)
  show ?case
  proof (cases r)
    case (Inr arg)
    then have mv: "fst pos < fst pos1" "fst pos1 \<le> length file" using assms Suc.prems(1) r unfolding args_ok_def by blast+
    then have "\<exists>r. normal_exits fuel nih file pos1 cls = Some r" for cls using Suc.prems by (intro Suc.IH) auto
    then show ?thesis using r Inr by (auto simp: Let_def simp del: split_paired_Ex split: option.split)
  qed (use r in simp)
qed simp

text \<open>C30: no stanza of a job definition can abort init or keep it in a loop: every handler returns on every
  input, with a tokeniser that moves forward in a file without NUL.\<close>

theorem stanzas_return:
  assumes "tokeniser_ok nih file" and "args_ok nih file" and "(name, h) \<in> set (stanzas debug nih)" and "fst pos \<le> length file"
  shows "\<exists>e pos' cls'. h file pos cls = Some (e, pos', cls')"
proof -
  have tok: "fst pos' \<le> length file" if "next_token nih file delim dequote pos = (Inr arg, pos')" for delim dequote arg pos'
    using tokeniser_okD(4) [OF assms(1,4) that] by simp
  have on: "\<exists>r. stanza_on nih f file pos cls = Some r" for f
  proof -
    obtain r a_pos where Pair: "next_token nih file (cnlws nih) False pos = (r, a_pos)" by (meson surj_pair)
    show ?thesis
    proof (cases r)
      case (Inr arg)
      then have "fst a_pos \<le> length file" using tok Pair by blast
      from parse_on_returns [OF assms(1) this] show ?thesis
        using Pair Inr by (auto simp: stanza_on_def split: sum.split)
    qed (use Pair in \<open>simp add: stanza_on_def\<close>)
  qed
  have normal: "\<exists>r. stanza_normal nih file pos cls = Some r"
    using normal_exits_total [OF assms(2)] tok
    by (auto simp: stanza_normal_def Let_def simp del: normal_exits.simps split: prod.split sum.split)
  have cgroup: "\<exists>r. stanza_cgroup nih file pos cls = Some r"
    by (auto simp: stanza_cgroup_def parse_cgroup_def cgroup_add_def Let_def simp del: split_paired_Ex
      split: prod.split sum.split list.split)
  have "h = stanza_start nih \<or> h = stanza_stop nih \<or> h = stanza_normal nih \<or> h = stanza_cgroup nih \<or> (\<exists>f. h = always f)"
    using assms(3) unfolding stanzas_def by auto
  then have "\<exists>r. h file pos cls = Some r"
    using on normal cgroup by (auto simp: stanza_start_def stanza_stop_def always_def simp del: split_paired_Ex)
  then show ?thesis by auto
qed

text \<open>C31: a number is stored in an \<^verbatim>\<open>int\<close> before it is checked, so that the check sees only its low 32
  bits: \<^verbatim>\<open>nice\<close> accepts every number that differs by a multiple of 4294967296 from one in its range.\<close>

theorem stanza_nice_truncates:
  assumes "next_arg nih file pos = (Inr (show_int (n + k * 2 ^ 32)), pos1)" and "skip_comment nih file pos1 = (None, pos2)"
    and "-20 \<le> n" and "n \<le> 19" and "LONG_MIN \<le> n + k * 2 ^ 32" and "n + k * 2 ^ 32 \<le> LONG_MAX"
  shows "stanza_nice nih file pos cls = (None, pos2, cls\<lparr>c_nice := n\<rparr>)"
proof -
  have "to_int (n + k * 2 ^ 32) = n" using to_int_wraps to_int_id assms(3,4) by simp
  then show ?thesis
    using assms strtol_show_int [OF assms(5,6)] by (simp add: stanza_nice_def store_number_def finish_def)
qed


lemma sample_args_ok: "args_ok sample_nih file"
  using take_word_bounds by (fastforce simp: args_ok_def sample_nih_def)

theorem stanzas_return_witness:
  "\<exists>e pos' cls'. stanza_start sample_nih ''on a and'' (0, 1) (sample_class ''a'') = Some (e, pos', cls')"
proof (rule stanzas_return)
  show "tokeniser_ok sample_nih ''on a and''" by (rule sample_tokeniser_ok) (simp add: NUL_def)
  show "(''start'', stanza_start sample_nih) \<in> set (stanzas False sample_nih)" by (simp add: stanzas_def)
qed (simp_all add: sample_args_ok)

theorem stanza_nice_truncates_witness:
  "stanza_nice sample_nih ''4294967296'' (0, 1) (sample_class ''a'') = (None, (10, 2), (sample_class ''a'')\<lparr>c_nice := 0\<rparr>)"
proof (rule stanza_nice_truncates)
  have "show_nat 4294967296 = map (\<lambda>d. char_of (48 + d)) [4, 2, 9, 4, 9, 6, 7, 2, 9, 6 :: nat]" by (simp add: show_nat.simps)
  also have "\<dots> = ''4294967296''" by code_simp
  finally have "show_int (0 + 1 * 2 ^ 32) = ''4294967296''" by (simp add: show_int_def)
  moreover have "next_arg sample_nih ''4294967296'' (0, 1) = (Inr ''4294967296'', (10, 1))" by code_simp
  ultimately show "next_arg sample_nih ''4294967296'' (0, 1) = (Inr (show_int (0 + 1 * 2 ^ 32)), (10, 1))" by simp
  show "skip_comment sample_nih ''4294967296'' (10, 1) = (None, (10, 2))" by code_simp
qed (simp_all add: LONG_MIN_def LONG_MAX_def)

end
