(* ===== verification/JobProps.thy ===== *)
theory JobProps
  imports JobInv
begin

text \<open>
  The properties of \<^verbatim>\<open>src/init/job.c\<close>: the state machine, the methods of an instance, the events of a
  job and what it releases when it finishes.
\<close>

section \<open>Lemmas\<close>

lemma settled_send: "settled R cls s job s' r \<Longrightarrow> settled R cls s job (send out s') r"
  using calm_trans [OF _ calm_send] by (cases r)
    (auto simp: settled_def freed_def fresh_ok_def job_ok_def)

text \<open>What \<open>finish_and_wait\<close> makes of the job.\<close>

definition waiting_job :: "BlockedType \<Rightarrow> nat \<Rightarrow> bool \<Rightarrow> Job \<Rightarrow> Job" where
  "waiting_job ty message wait job =
     job\<lparr>j_blocking := (if wait then [blocked_new ty message] else [])\<rparr>"

lemma finish_and_wait_ok:
  assumes "job_ok R s cls job" and "ty \<notin> {BLOCKED_JOB, BLOCKED_EMIT_METHOD, BLOCKED_EVENT}"
  shows "\<exists>s'. finish_and_wait ty message wait s job = Some (s', waiting_job ty message wait job) \<and>
    calm s s' \<and> job_ok R s' cls (waiting_job ty message wait job)"
proof -
  obtain s' where s': "job_finished False s job = Some (s', job\<lparr>j_blocking := []\<rparr>)" "calm s s'"
    "job_ok R s' cls (job\<lparr>j_blocking := []\<rparr>)"
    using job_finished_ok [OF assms(1)] by blast
  then have "job_ok R s' cls (waiting_job ty message wait job)"
    using assms(2)
    by (auto simp: job_ok_def waiting_job_def class_of_def blocking_ok_def blocked_new_def job_refs_def
      blocked_refs_def)
  moreover have "finish_and_wait ty message wait s job = Some (s', waiting_job ty message wait job)"
    using s'(1) by (simp add: finish_and_wait_def waiting_job_def)
  ultimately show ?thesis using s'(2) by blast
qed

lemma between_calls_cong:
  assumes "between_calls job" and "j_state job' = j_state job" and "j_goal job' = j_goal job"
    and "j_blocker job' = j_blocker job" and "j_pid job' = j_pid job"
    and "j_kill_timer job' = j_kill_timer job" and "j_kill_process job' = j_kill_process job"
  shows "between_calls job'"
proof -
  have "at_rest_in job' st = at_rest_in job st" for st using assms by (cases st) auto
  then show ?thesis using assms by (simp add: between_calls_def at_rest_def quiet_def)
qed

lemma between_calls_waiting [simp]:
  "between_calls job \<Longrightarrow> between_calls (waiting_job ty message wait job)"
  by (erule between_calls_cong) (simp_all add: waiting_job_def)

lemma job_ok_env [simp]:
  "job_ok R s cls (job\<lparr>j_start_env := e\<rparr>) = job_ok R s cls job"
  "job_ok R s cls (job\<lparr>j_stop_env := e\<rparr>) = job_ok R s cls job"
  by (simp_all add: job_ok_def class_of_def job_refs_def)

lemma between_calls_env [simp]:
  "between_calls (job\<lparr>j_start_env := e\<rparr>) = between_calls job"
  "between_calls (job\<lparr>j_stop_env := e\<rparr>) = between_calls job"
  by (auto elim!: between_calls_cong)

lemma placed_env [simp]:
  "placed R s cls (job\<lparr>j_start_env := e\<rparr>) = placed R s cls job"
  "placed R s cls (job\<lparr>j_stop_env := e\<rparr>) = placed R s cls job"
  by (simp_all add: placed_def)

text \<open>Changing the goal after finishing what was blocked before.\<close>

lemma finish_and_change_goal:
  assumes ok: "job_ok R s cls job" and placed: "placed R s cls job" and w: "os_ok w"
    and between: "between_calls job" and goal: "goal \<noteq> JOB_RESPAWN"
    and new: "j_state job = JOB_WAITING \<longrightarrow> goal = JOB_START"
    and ty: "ty \<notin> {BLOCKED_JOB, BLOCKED_EMIT_METHOD, BLOCKED_EVENT}"
  shows "\<exists>s1 s' r. finish_and_wait ty message wait s job = Some (s1, waiting_job ty message wait job) \<and>
    job_change_goal w goal s1 (waiting_job ty message wait job) = Some (s', r) \<and>
    settled R cls s (job\<lparr>j_goal := goal\<rparr>) s' r"
proof -
  let ?job = "waiting_job ty message wait job"
  obtain s1 where s1: "finish_and_wait ty message wait s job = Some (s1, ?job)" "calm s s1"
    "job_ok R s1 cls ?job"
    using finish_and_wait_ok [OF ok ty] by blast
  have "placed R s1 cls ?job" using placed placed_calm [OF s1(2)] by (simp add: waiting_job_def)
  moreover have "j_state ?job = JOB_WAITING \<longrightarrow> goal = JOB_START" using new by (simp add: waiting_job_def)
  ultimately obtain s' r where "job_change_goal w goal s1 ?job = Some (s', r)"
    "settled R cls s1 (?job\<lparr>j_goal := goal\<rparr>) s' r"
    using job_change_goal_ok [OF s1(3) _ w between_calls_waiting [OF between] goal] by blast
  moreover have "settled R cls s (job\<lparr>j_goal := goal\<rparr>) s' r"
    using settled_calm [OF s1(2) calculation(2)] by (simp add: waiting_job_def)
  ultimately show ?thesis using s1(1) by blast
qed

section \<open>A sample\<close>

definition sample_main :: JobClass where
  "sample_main = (sample_class ''a'')\<lparr>c_process := [PROCESS_MAIN \<mapsto> \<lparr>p_script = False, p_command = Some ''run''\<rparr>]\<rparr>"

definition sample_job :: "JobGoal \<Rightarrow> JobState \<Rightarrow> Job" where
  "sample_job goal state = \<lparr>j_id = 5, j_name = [], j_class = 1, j_path = ''/jobs/a'', j_goal = goal,
     j_state = state, j_env = [], j_start_env = None, j_stop_env = None, j_stop_on = None, j_fds = [],
     j_pid = (\<lambda>_. 0)(PROCESS_MAIN := 42), j_blocker = None, j_blocking = [], j_kill_timer = None,
     j_kill_process = PROCESS_INVALID, j_failed = False, j_failed_process = PROCESS_INVALID,
     j_exit_status = 0, j_respawn_time = 0, j_respawn_count = 0, j_trace_forks = 0,
     j_trace_state = TRACE_NONE, j_process_data = (\<lambda>_. None)\<rparr>"

definition sample_sys :: "Job \<Rightarrow> sys" where
  "sample_sys job = sys_init\<lparr>s_classes := [1 \<mapsto> sample_main], s_registered := [1], s_conf := [sample_source [1]],
     s_jobs := [5 \<mapsto> job], s_instances := [5], s_next := 6\<rparr>"

lemma sample_os_ok: "os_ok sample_os"
  by (simp add: os_ok_def sample_os_def)

lemma sample_job_ok: "job_ok (\<lambda>_. 0) (sample_sys j) sample_main (sample_job goal state)"
  by (auto simp: job_ok_def sample_sys_def sample_job_def sample_main_def sample_class_def
    job_class_new_def class_of_def class_ok_def cond_ok_def blocking_ok_def fresh_ok_def sys_init_def
    event_ids_def counted_def blockers_of_def job_refs_def cond_refs_def blocked_refs_def
    JOB_DEFAULT_KILL_TIMEOUT_def split: if_splits)

lemma sample_placed: "placed (\<lambda>_. 0) (sample_sys j) sample_main (sample_job goal state)"
  by (auto simp: placed_def sample_sys_def sample_job_def sample_main_def sample_class_def
    job_class_new_def table_ok_def class_name_def sys_init_def class_refs_def cond_refs_def s_sources_def)

lemma sample_job_sel [simp]: "j_goal (sample_job goal state) = goal" "j_state (sample_job goal state) = state"
  by (simp_all add: sample_job_def)

text \<open>A running job.\<close>

definition sample_run :: Job where
  "sample_run = sample_job JOB_START JOB_RUNNING"

definition sample_state :: sys where
  "sample_state = sample_sys sample_run"

lemma sample_run_ok: "job_ok (\<lambda>_. 0) sample_state sample_main sample_run"
  "placed (\<lambda>_. 0) sample_state sample_main sample_run"
  by (simp_all add: sample_state_def sample_run_def sample_job_ok sample_placed)

lemma sample_run_sel [simp]: "j_goal sample_run = JOB_START" "j_state sample_run = JOB_RUNNING"
  by (simp_all add: sample_run_def)

lemma sample_running: "between_calls sample_run" "movable sample_run"
  by (simp_all add: between_calls_def at_rest_def sample_run_def sample_job_def quiet_def movable_def)

section \<open>Properties\<close>

text \<open>C16: a job moves on to a state in which it has something to wait for. When its blocker or process
  is gone and \<^verbatim>\<open>job_change_state\<close> is called with the next state, no assertion fails and no freed
  object is touched, on every path through the state machine; the job ends at rest (blocked by
  an event that exists, with the awaited process running, or running), or freed after its stop;
  all its references to events stay counted, and those of others are not touched.\<close>

theorem job_change_state_settles:
  assumes "job_ok R s cls job" and "placed R s cls job" and "os_ok w" and "movable job"
  shows "\<exists>state s1 job1 s' r. job_next_state s job = Some (state, s1, job1) \<and>
    job_change_state w state s1 job1 = Some (s', r) \<and>
    settled R cls s (job\<lparr>j_goal := effective_goal (j_goal job)\<rparr>) s' r"
  using change_to_next_ok [OF assms] by (auto simp: change_to_next_def elim!: bind_eq_Some_E)

theorem job_change_state_settles_witness:
  "\<exists>state s1 job1 s' r. job_next_state sample_state
       sample_run = Some (state, s1, job1) \<and>
     job_change_state sample_os state s1 job1 = Some (s', r)"
  using job_change_state_settles [OF sample_run_ok sample_os_ok sample_running(2)] by blast

text \<open>changing the goal of a job between two calls never aborts, and leaves the job at rest or freed
  with its references counted. Only a new job that is to start and a running one that is to stop
  are set in motion.\<close>

theorem job_change_goal_settles:
  assumes "job_ok R s cls job" and "placed R s cls job" and "os_ok w" and "between_calls job"
    and "goal = JOB_START \<or> goal = JOB_STOP \<and> j_state job \<noteq> JOB_WAITING"
  shows "\<exists>s' r. job_change_goal w goal s job = Some (s', r) \<and>
    settled R cls s (job\<lparr>j_goal := goal\<rparr>) s' r \<and>
    (j_state job \<notin> {JOB_WAITING, JOB_RUNNING} \<longrightarrow> r = Some (job\<lparr>j_goal := goal\<rparr>))"
proof -
  have g: "goal \<noteq> JOB_RESPAWN" "j_state job = JOB_WAITING \<longrightarrow> goal = JOB_START" using assms(5) by auto
  obtain s' r where run: "job_change_goal w goal s job = Some (s', r)"
    "settled R cls s (job\<lparr>j_goal := goal\<rparr>) s' r"
    using job_change_goal_ok [OF assms(1-4) g] by blast
  moreover have "r = Some (job\<lparr>j_goal := goal\<rparr>)" if "j_state job \<notin> {JOB_WAITING, JOB_RUNNING}"
    using run(1) that g(1) by (cases goal) (auto simp: job_change_goal_def set_goal_def split: if_splits)
  ultimately show ?thesis by blast
qed

theorem job_change_goal_settles_witness:
  "\<exists>s' r. job_change_goal sample_os JOB_STOP sample_state
     sample_run = Some (s', r)"
  using job_change_goal_settles [OF sample_run_ok sample_os_ok sample_running(1), of JOB_STOP]
  by auto

text \<open>\<^verbatim>\<open>job_stop\<close>: stopping a job whose goal is to stop already is refused and changes nothing; in
  every other case the goal is changed and the caller is answered, at once or when the job has
  stopped.\<close>

theorem job_stop_method:
  assumes "job_ok R s cls job" and "placed R s cls job" and "os_ok w" and "between_calls job"
  shows "if j_goal job = JOB_STOP
    then job_stop w message wait s job = Some (Inl ''AlreadyStopped'', s, Some job)
    else \<exists>s' r. job_stop w message wait s job =
        Some (Inr (), if wait then s' else send [Reply message InstanceStopReply] s', r) \<and>
      settled R cls s (job\<lparr>j_stop_env := None, j_goal := JOB_STOP\<rparr>) s' r \<and> r \<noteq> None"
proof (cases "j_goal job = JOB_STOP")
  case True
  then show ?thesis by (simp add: job_stop_def raise_error_def)
next
  case False
  let ?job = "job\<lparr>j_stop_env := None\<rparr>" and ?ty = BLOCKED_INSTANCE_STOP_METHOD
  have "j_state ?job \<noteq> JOB_WAITING" using assms(4) False by (auto simp: between_calls_def)
  then obtain s1 s' r where run:
    "finish_and_wait ?ty message wait s ?job = Some (s1, waiting_job ?ty message wait ?job)"
    "job_change_goal w JOB_STOP s1 (waiting_job ?ty message wait ?job) = Some (s', r)"
    "settled R cls s (?job\<lparr>j_goal := JOB_STOP\<rparr>) s' r"
    using finish_and_change_goal [of R s cls ?job w JOB_STOP ?ty message wait] assms by auto
  then show ?thesis
    using False job_change_goal_not_freed [OF run(2)] by (auto simp: job_stop_def answer_def)
qed

theorem job_stop_method_witness:
  "\<exists>s' r. job_stop sample_os 9 False sample_state
     sample_run = Some (Inr (), send [Reply 9 InstanceStopReply] s', r)"
  using job_stop_method [OF sample_run_ok sample_os_ok sample_running(1), of 9 False]
  by auto

text \<open>\<^verbatim>\<open>job_start\<close>: starting a job whose goal is to start already is refused and changes nothing; a
  job without a cgroup stanza is otherwise set to start and the caller is answered, at once or when
  the job has started.\<close>

theorem job_start_method:
  assumes "job_ok R s cls job" and "placed R s cls job" and "os_ok w" and "between_calls job"
    and "\<not> job_class_cgroups cls"
  shows "if j_goal job = JOB_START
    then job_start w message wait s job = Some (Inl ''AlreadyStarted'', s, Some job)
    else \<exists>s' r. job_start w message wait s job =
        Some (Inr (), if wait then s' else send [Reply message InstanceStartReply] s', r) \<and>
      settled R cls s (job\<lparr>j_start_env := None, j_goal := JOB_START\<rparr>) s' r"
proof -
  let ?job = "job\<lparr>j_start_env := None\<rparr>" and ?ty = BLOCKED_INSTANCE_START_METHOD
  have cls: "class_of s job = Some cls" using assms(1) by (simp add: job_ok_def)
  obtain s1 s' r where
    "finish_and_wait ?ty message wait s ?job = Some (s1, waiting_job ?ty message wait ?job)"
    "job_change_goal w JOB_START s1 (waiting_job ?ty message wait ?job) = Some (s', r)"
    "settled R cls s (?job\<lparr>j_goal := JOB_START\<rparr>) s' r"
    using finish_and_change_goal [of R s cls ?job w JOB_START ?ty message wait] assms by auto
  then show ?thesis
    using assms(5) cls by (auto simp: job_start_def answer_def raise_error_def)
qed

theorem job_start_method_witness:
  "job_start sample_os 9 False sample_state
     sample_run =
   Some (Inl ''AlreadyStarted'', sample_state, Some sample_run)"
  using job_start_method [OF sample_run_ok sample_os_ok sample_running(1), of 9 False]
  by (auto simp: sample_main_def sample_class_def job_class_new_def job_class_cgroups_def)

text \<open>C17: \<^verbatim>\<open>job_restart\<close>: a job that is to stop is not restarted. Any other has its goal set to stop and
  then to start; it is not freed in between and ends at rest with the goal to start, having left
  the running state if it was there.\<close>

theorem job_restart_method:
  assumes "job_ok R s cls job" and "placed R s cls job" and "os_ok w" and "between_calls job"
  shows "if j_goal job = JOB_STOP
    then job_restart w message wait s job = Some (Inl ''AlreadyStopped'', s, Some job)
    else \<exists>s' job'. job_restart w message wait s job =
        Some (Inr (), if wait then s' else send [Reply message InstanceRestartReply] s', Some job') \<and>
      settled R cls s (job\<lparr>j_goal := JOB_START\<rparr>) s' (Some job') \<and> j_state job' \<noteq> JOB_RUNNING"
proof (cases "j_goal job = JOB_STOP")
  case True
  then show ?thesis by (simp add: job_restart_def raise_error_def)
next
  case False
  let ?job = "job\<lparr>j_start_env := None, j_stop_env := None\<rparr>" and ?ty = BLOCKED_INSTANCE_RESTART_METHOD
  have nw: "j_state ?job \<noteq> JOB_WAITING" using assms(4) False by (auto simp: between_calls_def)
  then obtain s1 s2 r where run:
    "finish_and_wait ?ty message wait s ?job = Some (s1, waiting_job ?ty message wait ?job)"
    "job_change_goal w JOB_STOP s1 (waiting_job ?ty message wait ?job) = Some (s2, r)"
    "settled R cls s (?job\<lparr>j_goal := JOB_STOP\<rparr>) s2 r"
    using finish_and_change_goal [of R s cls ?job w JOB_STOP ?ty message wait] assms by auto
  obtain job2 where r: "r = Some job2" using job_change_goal_not_freed [OF run(2)] by blast
  then have job2: "calm s s2" "job_ok R s2 cls job2" "at_rest job2" "between_calls job2"
    "j_goal job2 = JOB_STOP" "j_id job2 = j_id job" "j_class job2 = j_class job"
    using run(3) by (auto simp: settled_def)
  have nr: "j_state job2 \<notin> {JOB_WAITING, JOB_RUNNING}"
    using job2(3,4,5) at_rest_not_waiting by (auto simp: between_calls_def)
  have "placed R s2 cls job2" using placed_calm [OF job2(1,7)] assms(2) by simp
  then obtain s' r' where run2: "job_change_goal w JOB_START s2 job2 = Some (s', r')"
    "settled R cls s2 (job2\<lparr>j_goal := JOB_START\<rparr>) s' r'"
    using job_change_goal_ok [OF job2(2) _ assms(3) job2(4), of JOB_START] by auto
  have r': "r' = Some (job2\<lparr>j_goal := JOB_START\<rparr>)"
    using run2(1) nr job2(5) by (auto simp: job_change_goal_def set_goal_def)
  have "settled R cls s (job\<lparr>j_goal := JOB_START\<rparr>) s' r'"
    using settled_calm [OF job2(1) run2(2)] job2 by simp
  then show ?thesis
    using False run r run2(1) r' nr by (auto simp: job_restart_def answer_def)
qed

theorem job_restart_method_witness:
  "\<exists>s' job'. job_restart sample_os 9 True sample_state
     sample_run = Some (Inr (), s', Some job') \<and> j_state job' \<noteq> JOB_RUNNING"
  using job_restart_method [OF sample_run_ok sample_os_ok sample_running(1), of 9 True]
  by auto

end
