(* ===== verification/JobPids.thy ===== *)
theory JobPids
  imports JobInv
begin

text \<open>
  Which processes of a job may be alive in which state. The assertions of
  \<^verbatim>\<open>job_process_terminated\<close> rely on it: a process that ends is one that its state expects. The
  predicate \<open>tracked\<close> is shown to be kept by \<^verbatim>\<open>job_change_state\<close> and \<^verbatim>\<open>job_change_goal\<close>.
\<close>

section \<open>Processes and states\<close>

fun allowed :: "JobState \<Rightarrow> ProcessType set" where
  "allowed JOB_SECURITY_SPAWNING = {PROCESS_SECURITY}"
| "allowed JOB_SECURITY = {PROCESS_SECURITY}"
| "allowed JOB_PRE_STARTING = {PROCESS_PRE_START}"
| "allowed JOB_PRE_START = {PROCESS_PRE_START}"
| "allowed JOB_SPAWNING = {PROCESS_MAIN}"
| "allowed JOB_SPAWNED = {PROCESS_MAIN}"
| "allowed JOB_POST_STARTING = {PROCESS_MAIN, PROCESS_POST_START}"
| "allowed JOB_POST_START = {PROCESS_MAIN, PROCESS_POST_START}"
| "allowed JOB_RUNNING = {PROCESS_MAIN}"
| "allowed JOB_PRE_STOPPING = {PROCESS_MAIN, PROCESS_PRE_STOP}"
| "allowed JOB_PRE_STOP = {PROCESS_MAIN, PROCESS_PRE_STOP}"
| "allowed JOB_STOPPING = {PROCESS_MAIN}"
| "allowed JOB_KILLED = {PROCESS_MAIN}"
| "allowed JOB_POST_STOPPING = {PROCESS_POST_STOP}"
| "allowed JOB_POST_STOP = {PROCESS_POST_STOP}"
| "allowed _ = {}"

text \<open>The process that has to be gone for the job to leave the state.\<close>

fun holds_up :: "JobState \<Rightarrow> ProcessType option" where
  "holds_up JOB_SECURITY = Some PROCESS_SECURITY"
| "holds_up JOB_PRE_START = Some PROCESS_PRE_START"
| "holds_up JOB_POST_START = Some PROCESS_POST_START"
| "holds_up JOB_PRE_STOP = Some PROCESS_PRE_STOP"
| "holds_up JOB_KILLED = Some PROCESS_MAIN"
| "holds_up JOB_POST_STOP = Some PROCESS_POST_STOP"
| "holds_up _ = None"

definition wanted :: "os \<Rightarrow> JobClass \<Rightarrow> ProcessType \<Rightarrow> bool" where
  "wanted w cls p \<longleftrightarrow> has_process cls p \<and> (p = PROCESS_SECURITY \<longrightarrow> os_apparmor w 0)"

definition tracked :: "os \<Rightarrow> JobClass \<Rightarrow> JobState \<Rightarrow> Job \<Rightarrow> bool" where
  "tracked w cls state job \<longleftrightarrow> (\<forall>p. j_pid job p > 0 \<longrightarrow> p \<in> allowed state \<and> wanted w cls p)"

lemma trackedI: "(\<And>p. j_pid job p > 0 \<Longrightarrow> p \<in> allowed state \<and> wanted w cls p) \<Longrightarrow> tracked w cls state job"
  by (simp add: tracked_def)

lemma tracked_cong: "tracked w cls state job \<Longrightarrow> j_pid job' = j_pid job \<Longrightarrow> tracked w cls state job'"
  by (simp add: tracked_def)

text \<open>Leaving a state whose process is gone.\<close>

lemma tracked_leave:
  assumes "tracked w cls old job" and "may_enter old goal state"
    and "\<And>p. holds_up old = Some p \<Longrightarrow> j_pid job p \<le> 0"
    and "old \<notin> {JOB_SECURITY_SPAWNING, JOB_PRE_STARTING, JOB_POST_STARTING, JOB_PRE_STOPPING,
      JOB_POST_STOPPING}"
  shows "tracked w cls state job"
proof (rule trackedI)
  fix p
  assume p: "j_pid job p > 0"
  then have "p \<in> allowed old" and "wanted w cls p" using assms(1) by (auto simp: tracked_def)
  moreover have "holds_up old \<noteq> Some p" using p assms(3) by fastforce
  ultimately show "p \<in> allowed state \<and> wanted w cls p"
    using assms(2,4) by (cases state; cases old) auto
qed

text \<open>From a state that only starts a process.\<close>

lemma tracked_pass:
  assumes "tracked w cls state job" and "job_next_state s job = Some (st, s', job')"
    and "j_state job = state" and "j_goal job = JOB_START \<or> state \<in> {JOB_PRE_STOPPING, JOB_POST_STOPPING}"
    and "state \<in> {JOB_SECURITY_SPAWNING, JOB_PRE_STARTING, JOB_SPAWNING, JOB_POST_STARTING,
      JOB_PRE_STOPPING, JOB_POST_STOPPING}"
  shows "tracked w cls st job'"
proof -
  have "allowed st = allowed state \<and> job' = job"
    using assms(2-5) by (cases "j_goal job") (auto simp: job_next_state_def)
  then show ?thesis using assms(1) by (simp add: tracked_def)
qed

section \<open>The actions\<close>

lemma job_next_state_pid: "job_next_state s job = Some (st, s', job') \<Longrightarrow> j_pid job' = j_pid job"
  by (auto simp: job_next_state_def set_goal_def split: JobState.splits JobGoal.splits
    elim!: bind_eq_Some_E)

lemma job_process_start_pid:
  "job_process_start w process s job = Some (s', job') \<Longrightarrow>
     (\<forall>p. p \<noteq> process \<longrightarrow> j_pid job' p = j_pid job p) \<and> j_goal job' = j_goal job \<and> j_state job' = j_state job"
  by (auto simp: job_process_start_def Let_def split: prod.splits elim!: bind_eq_Some_E)

lemma job_process_kill_pid: "job_process_kill w process s job = Some (s', job') \<Longrightarrow> j_pid job' = j_pid job"
  by (auto simp: job_process_kill_def job_process_set_kill_timer_def Let_def
    split: prod.splits if_splits elim!: bind_eq_Some_E)

lemma job_finished_pid: "job_finished failed s job = Some (s', job') \<Longrightarrow> j_pid job' = j_pid job"
  by (auto simp: job_finished_def elim!: bind_eq_Some_E)

lemma spawn_and_next_tracked:
  assumes run: "spawn_and_next w start process s job = Some (st, s', job')"
    and "tracked w cls (j_state job) job" and "start \<longrightarrow> process \<in> allowed (j_state job) \<and> wanted w cls process"
    and "j_goal job = JOB_START \<or> j_state job \<in> {JOB_PRE_STOPPING, JOB_POST_STOPPING}"
    and "j_state job \<in> {JOB_SECURITY_SPAWNING, JOB_PRE_STARTING, JOB_SPAWNING, JOB_POST_STARTING,
      JOB_PRE_STOPPING, JOB_POST_STOPPING}"
  shows "tracked w cls st job'"
proof -
  obtain s1 job1 where job1: "(if start then job_process_start w process s job else Some (s, job)) = Some (s1, job1)"
    and st: "job_next_state s1 job1 = Some (st, s', job')"
    using run by (auto simp: spawn_and_next_def elim!: bind_eq_Some_E)
  have same: "j_goal job1 = j_goal job" "j_state job1 = j_state job"
    and "tracked w cls (j_state job) job1"
    using job1 assms(2,3) by (force simp: tracked_def split: if_splits dest!: job_process_start_pid)+
  then show ?thesis using tracked_pass [OF _ st] assms(4,5) by simp
qed

lemma wait_or_next_tracked:
  assumes run: "wait_or_next wait s job = Some (st, s', job')" and "class_of s job = Some cls"
    and "tracked w cls (j_state job) job" and "goal_fits (j_state job) (j_goal job)"
    and "\<not> wait \<Longrightarrow> \<forall>p. holds_up (j_state job) = Some p \<longrightarrow> \<not> wanted w cls p"
    and "j_state job \<in> {JOB_SECURITY, JOB_PRE_START, JOB_SPAWNED, JOB_POST_START, JOB_PRE_STOP, JOB_POST_STOP}"
  shows "tracked w cls st job'"
proof (cases wait)
  case True
  then show ?thesis using run assms(3) by (auto simp: wait_or_next_def)
next
  case False
  obtain st1 where st: "job_next_state s job = Some (st1, s, job)" "may_enter (j_state job) (j_goal job) st1"
    using job_next_state_edge [OF assms(2,4)] by blast
  have "tracked w cls st1 job"
    using assms(3,5,6) False by (intro tracked_leave [OF assms(3) st(2)]) (auto simp: tracked_def not_less [symmetric])
  then show ?thesis using run False st(1) by (simp add: wait_or_next_def)
qed

lemma enter_killed_tracked:
  assumes run: "enter_killed w old s job = Some (st, s', job')" and "class_of s job = Some cls"
    and "tracked w cls JOB_KILLED job" and "j_state job = JOB_KILLED"
  shows "tracked w cls st job'"
proof (cases "main_running cls job")
  case True
  then show ?thesis
    using run assms(2,3) by (auto simp: enter_killed_def tracked_def dest!: job_process_kill_pid elim!: bind_eq_Some_E)
next
  case False
  then have "\<not> j_pid job p > 0" for p
    using assms(3) by (cases "p = PROCESS_MAIN") (auto simp: tracked_def main_running_def wanted_def has_process_def)
  moreover have "j_pid job' = j_pid job"
    using run False assms(2) by (auto simp: enter_killed_def dest!: job_next_state_pid elim!: bind_eq_Some_E)
  ultimately show ?thesis by (simp add: tracked_def)
qed

lemma enter_fixed_pid:
  "enter_starting w old s job = Some (st, s', job') \<Longrightarrow> j_pid job' = j_pid job \<and> st = JOB_STARTING"
  "enter_running w old s job = Some (st, s', job') \<Longrightarrow> j_pid job' = j_pid job \<and> st = JOB_RUNNING"
  "enter_stopping w old s job = Some (st, s', job') \<Longrightarrow> j_pid job' = j_pid job \<and> st = JOB_STOPPING"
  by (auto simp: enter_starting_def enter_running_def enter_stopping_def Let_def
    split: option.splits if_splits dest!: job_finished_pid elim!: bind_eq_Some_E)


lemma enter_action_tracked:
  assumes run: "enter_action w old s job = Some (st, s', Some job')" and cls: "class_of s job = Some cls"
    and w: "os_ok w" and tr: "tracked w cls (j_state job) job"
    and enter: "may_enter old (j_goal job) (j_state job)" and st: "j_state job \<noteq> JOB_WAITING"
  shows "tracked w cls st job'"
proof -
  have fits: "goal_fits (j_state job) (j_goal job)" by (rule may_enter_fits [OF enter st])
  obtain s1 where s1: "security_wanted w cls s = (wanted w cls PROCESS_SECURITY, s1)" "tame s s1"
    using security_wanted_ok [OF w] by (auto simp: wanted_def)
  have cls1: "class_of s1 job = Some cls"
    using cls calm_sel(1) [of s s1] s1(2) by (simp add: class_of_def tame_def)
  consider "j_state job \<in> {JOB_STARTING, JOB_RUNNING, JOB_STOPPING}" | "j_state job = JOB_KILLED"
    | "j_state job = JOB_SECURITY_SPAWNING" | "j_state job = JOB_SECURITY"
    | p where "process_of (j_state job) = Some p" | p where "awaited_in (j_state job) = Some p"
    using st by (cases "j_state job") auto
  then show ?thesis
  proof cases
    case 1
    then show ?thesis using run cls tr by (auto simp: enter_action_def tracked_def dest!: enter_fixed_pid)
  next
    case 2
    then have "enter_killed w old s job = Some (st, s', job')" using run cls by (auto simp: enter_action_def)
    then show ?thesis using enter_killed_tracked cls tr 2 by metis
  next
    case 3
    then have "spawn_and_next w (wanted w cls PROCESS_SECURITY) PROCESS_SECURITY s1 job = Some (st, s', job')"
      using run cls s1(1) enter by (auto simp: enter_action_def)
    then show ?thesis by (rule spawn_and_next_tracked) (use tr enter 3 in auto)
  next
    case 4
    then have "wait_or_next (wanted w cls PROCESS_SECURITY) s1 job = Some (st, s', job')"
      using run cls s1(1) enter by (auto simp: enter_action_def)
    then show ?thesis by (rule wait_or_next_tracked [OF _ cls1 tr fits]) (use 4 in auto)
  next
    case 5
    then have p: "has_process cls p \<longrightarrow> p \<in> allowed (j_state job) \<and> wanted w cls p"
      "j_goal job = JOB_START \<or> j_state job \<in> {JOB_PRE_STOPPING, JOB_POST_STOPPING}"
      "j_state job \<in> {JOB_SECURITY_SPAWNING, JOB_PRE_STARTING, JOB_SPAWNING, JOB_POST_STARTING,
         JOB_PRE_STOPPING, JOB_POST_STOPPING}"
      using enter by (cases "j_state job"; auto simp: wanted_def)+
    have "spawn_and_next w (has_process cls p) p s job = Some (st, s', job')"
      using 5 run cls enter by (cases "j_state job") (auto simp: enter_action_def)
    then show ?thesis by (rule spawn_and_next_tracked [OF _ tr p])
  next
    case 6
    then have p: "\<not> has_process cls p \<Longrightarrow> \<forall>q. holds_up (j_state job) = Some q \<longrightarrow> \<not> wanted w cls q"
      "j_state job \<in> {JOB_SECURITY, JOB_PRE_START, JOB_SPAWNED, JOB_POST_START, JOB_PRE_STOP, JOB_POST_STOP}"
      by (cases "j_state job"; auto simp: wanted_def)+
    have "wait_or_next (has_process cls p) s job = Some (st, s', job')"
      using 6 run cls enter by (cases "j_state job") (auto simp: enter_action_def)
    then show ?thesis by (rule wait_or_next_tracked [OF _ cls tr fits p])
  qed
qed

section \<open>The loop\<close>

lemma job_change_state_tracked:
  assumes "job_ok R s cls job" and "placed R s cls job" and "os_ok w"
    and "may_enter (j_state job) (j_goal job) st" and "j_state job \<noteq> st"
    and "j_blocker job = None" and "quiet job" and "primed_for w cls job (j_state job)"
    and "tracked w cls st job" and "job_change_state w st s job = Some (s', Some job')"
  shows "tracked w cls (j_state job') job'"
  using assms
proof (induction w st s job rule: job_change_state.induct)
  case (1 w st s job)
  let ?job = "job\<lparr>j_state := st\<rparr>"
  let ?s = "send_conns (\<lambda>conn. StateChanged conn (j_path ?job) (job_state_name st)) s"
  have ok0: "job_ok R ?s cls ?job" by (rule job_ok_tame [OF 1(2)]) simp_all
  have enter: "enter_state w st s job = enter_action w (j_state job) ?s ?job"
    by (simp add: enter_state_def Let_def)
  have run: "job_change_state w st s job = do {
      (state, s, job) \<leftarrow> enter_state w st s job;
      (case job of None \<Rightarrow> Some (s, None) | Some job \<Rightarrow> job_change_state w state s job) }"
    using 1(6,7) by (subst job_change_state.simps) simp
  have st: "st \<noteq> JOB_WAITING"
    using run enter 1(11) ok0
    by (cases "enter_waiting w (j_state job) ?s ?job") (auto simp: enter_action_def job_ok_def)
  obtain st' s1 job1 where act: "enter_action w (j_state job) ?s ?job = Some (st', s1, Some job1)"
    and ent: "entered w R cls ?s ?job st' s1 job1"
    using enter_action_ok [OF ok0 1(4), of "j_state job"] 1(5,7,8,9) st by (auto simp: quiet_def)
  have tr: "tracked w cls st' job1"
    using enter_action_tracked [OF act _ 1(4)] ok0 1(5,10) st by (auto simp: job_ok_def tracked_def)
  have calm: "calm s s1"
    using ent calm_trans [of s ?s s1] tame_send_conns tame_def by (auto simp: entered_def)
  have run': "job_change_state w st' s1 job1 = Some (s', Some job')"
    using run enter act 1(11) by simp
  show ?case
  proof (cases "st' = st")
    case True
    then have "j_state job1 = st'" using ent by (simp add: entered_def keeps_def)
    then have "job' = job1" using run' by (subst (asm) job_change_state.simps) simp
    then show ?thesis using tr \<open>j_state job1 = st'\<close> by simp
  next
    case False
    have "placed R s1 cls job1"
      using placed_calm [OF calm, of job1 job] ent 1(3) by (simp add: entered_def keeps_def)
    then show ?thesis
      using 1(1) [of "(st', s1, Some job1)" st' "(s1, Some job1)" s1 "Some job1" job1]
        enter act 1(4,6,7) run' tr ent False
      by (auto simp: entered_def keeps_def)
  qed
qed

section \<open>Going on, and changing the goal\<close>

definition unheld :: "Job \<Rightarrow> bool" where
  "unheld job \<longleftrightarrow> (case holds_up (j_state job) of None \<Rightarrow> True | Some p \<Rightarrow> j_pid job p \<le> 0)"

lemma change_to_next_tracked:
  assumes ok: "job_ok R s cls job" and placed: "placed R s cls job" and w: "os_ok w" and mv: "movable job"
    and tr: "tracked w cls (j_state job) job" and gone: "unheld job"
    and run: "change_to_next w s job = Some (s', Some job')"
  shows "tracked w cls (j_state job') job'"
proof -
  obtain st s1 job1 where st: "job_next_state s job = Some (st, s1, job1)"
    and ch: "job_change_state w st s1 job1 = Some (s', Some job')"
    using run by (auto simp: change_to_next_def elim!: bind_eq_Some_E)
  have cls: "class_of s job = Some cls" using ok by (simp add: job_ok_def)
  have next1: "job1 = job\<lparr>j_goal := effective_goal (j_goal job)\<rparr> \<and> tame s s1 \<and>
      may_enter (j_state job) (effective_goal (j_goal job)) st \<and> st \<noteq> j_state job"
  proof (cases "j_goal job = JOB_RESPAWN")
    case True
    then have "j_state job = JOB_POST_START \<or> j_state job = JOB_PRE_STOP" using mv by (simp add: movable_def)
    then show ?thesis using st True by (auto simp: job_next_state_def effective_goal_def set_goal_def)
  next
    case False
    then have "goal_fits (j_state job) (j_goal job)" using mv by (auto simp: movable_def goal_fits_def)
    from job_next_state_edge [OF cls this] st False show ?thesis
      by (auto simp: effective_goal_def)
  qed
  have ok1: "job_ok R s1 cls job1" using next1 by (intro job_ok_tame [OF ok]) auto
  have calm: "calm s s1" using next1 by (simp add: tame_def)
  have placed1: "placed R s1 cls job1" using placed placed_calm [OF calm] next1 by simp
  have "j_blocker job1 = None" "quiet job1" "primed_for w cls job1 (j_state job1)"
    using mv next1 primed_for_resting by (auto simp: movable_def quiet_def)
  moreover have "tracked w cls st job1"
  proof (rule tracked_leave)
    show "tracked w cls (j_state job) job1" using tr next1 by (simp add: tracked_def)
    show "may_enter (j_state job) (effective_goal (j_goal job)) st" using next1 by simp
    show "j_pid job1 p \<le> 0" if "holds_up (j_state job) = Some p" for p
      using gone that next1 by (simp add: unheld_def)
    show "j_state job \<notin> {JOB_SECURITY_SPAWNING, JOB_PRE_STARTING, JOB_POST_STARTING, JOB_PRE_STOPPING,
        JOB_POST_STOPPING}" using mv by (simp add: movable_def)
  qed
  ultimately show ?thesis
    using job_change_state_tracked [OF ok1 placed1 w _ _ _ _ _ _ ch] next1 by auto
qed

text \<open>The job is settled and its processes are those its state allows.\<close>

definition steady ::
    "os \<Rightarrow> (nat \<Rightarrow> nat) \<Rightarrow> JobClass \<Rightarrow> sys \<Rightarrow> Job \<Rightarrow> sys \<Rightarrow> Job option \<Rightarrow> bool" where
  "steady w R cls s job s' r \<longleftrightarrow> settled R cls s job s' r \<and>
     (case r of None \<Rightarrow> True | Some job' \<Rightarrow> tracked w cls (j_state job') job')"

lemma steady_calm:
  assumes "calm s s1" and "steady w R cls s1 job1 s' r"
    and "j_id job1 = j_id job" and "j_class job1 = j_class job" and "j_goal job1 = j_goal job"
  shows "steady w R cls s job s' r"
  using assms(2-) settled_calm [OF assms(1), of R cls job1 s' r job] by (simp add: steady_def)

lemma change_to_next_steady:
  assumes "job_ok R s cls job" and "placed R s cls job" and "os_ok w" and "movable job"
    and "tracked w cls (j_state job) job" and "unheld job"
  shows "\<exists>s' r. change_to_next w s job = Some (s', r) \<and>
    steady w R cls s (job\<lparr>j_goal := effective_goal (j_goal job)\<rparr>) s' r"
proof -
  obtain s' r where run: "change_to_next w s job = Some (s', r)"
    "settled R cls s (job\<lparr>j_goal := effective_goal (j_goal job)\<rparr>) s' r"
    using change_to_next_ok [OF assms(1-4)] by blast
  then show ?thesis
    using change_to_next_tracked [OF assms] by (auto simp: steady_def split: option.splits)
qed

lemma job_change_goal_steady:
  assumes ok: "job_ok R s cls job" and placed: "placed R s cls job" and w: "os_ok w"
    and between: "between_calls job" and goal: "goal \<noteq> JOB_RESPAWN"
    and new: "j_state job = JOB_WAITING \<longrightarrow> goal = JOB_START"
    and tr: "tracked w cls (j_state job) job"
  shows "\<exists>s' r. job_change_goal w goal s job = Some (s', r) \<and> steady w R cls s (job\<lparr>j_goal := goal\<rparr>) s' r"
proof -
  obtain s' r where run: "job_change_goal w goal s job = Some (s', r)"
    and set: "settled R cls s (job\<lparr>j_goal := goal\<rparr>) s' r"
    using job_change_goal_ok [OF assms(1-6)] by blast
  have "tracked w cls (j_state job') job'" if r: "r = Some job'" for job'
  proof (cases "j_goal job \<noteq> goal \<and> (goal = JOB_START \<and> j_state job = JOB_WAITING \<or> goal = JOB_STOP \<and> j_state job = JOB_RUNNING)")
    case True
    let ?job = "job\<lparr>j_goal := goal\<rparr>"
    obtain s1 where s1: "set_goal goal s job = (s1, ?job)" "tame s s1"
      using True by (simp add: set_goal_def)
    have ok1: "job_ok R s1 cls ?job" by (rule job_ok_tame [OF ok s1(2)]) simp_all
    have "placed R s1 cls ?job" using placed placed_calm [of s s1] s1(2) by (simp add: tame_def)
    moreover have "movable ?job"
      using between True by (elim disjE conjE) (simp_all add: movable_def between_calls_def at_rest_def quiet_def)
    moreover have "change_to_next w s1 ?job = Some (s', Some job')"
      using True s1(1) run r by (auto simp: job_change_goal_def change_to_next_def)
    moreover have "unheld ?job" using True by (auto simp: unheld_def)
    moreover have "tracked w cls (j_state ?job) ?job" using tr by (simp add: tracked_def)
    ultimately show ?thesis using change_to_next_tracked [OF ok1 _ w] by blast
  next
    case False
    then have "job' = job \<or> job' = job\<lparr>j_goal := goal\<rparr>"
      using run r goal by (cases goal) (auto simp: job_change_goal_def set_goal_def split: if_splits)
    then show ?thesis using tr by (auto simp: tracked_def)
  qed
  then show ?thesis using run set by (auto simp: steady_def split: option.splits)
qed

end
