(* ===== verification/JobProcess.thy ===== *)
theory JobProcess
  imports JobProps JobPids
begin

text \<open>
  \<^verbatim>\<open>src/init/job_process.c\<close>: what happens to the processes of jobs: they terminate, are stopped or
  traced, report that they are ready, or fail to be set up. Log files and the utmp record of a
  terminated process are left out.
\<close>

section \<open>Termination\<close>

text \<open>\<^verbatim>\<open>job_process_catch_runaway\<close>: more than \<^verbatim>\<open>respawn_limit\<close> respawns within
  \<^verbatim>\<open>respawn_interval\<close> seconds of the first of them.\<close>

definition job_process_catch_runaway :: "os \<Rightarrow> sys \<Rightarrow> Job \<Rightarrow> (bool \<times> sys \<times> Job) option" where
  "job_process_catch_runaway w s job = do {
     cls \<leftarrow> class_of s job;
     if c_respawn_limit cls \<noteq> 0 \<and> c_respawn_interval cls \<noteq> 0 then
       (let (now, s) = call (os_now w) s;
            interval = now - j_respawn_time job
        in if interval < c_respawn_interval cls then
             (let job = job\<lparr>j_respawn_count := j_respawn_count job + 1\<rparr>
              in Some (j_respawn_count job > c_respawn_limit cls, s, job))
           else Some (False, s, job\<lparr>j_respawn_time := now, j_respawn_count := 1\<rparr>))
     else Some (False, s, job)
   }"

text \<open>The outcome of the switch of \<^verbatim>\<open>job_process_terminated\<close>: its variables \<open>failed\<close>, \<open>stop\<close> and
  \<open>state\<close>.\<close>

record outcome =
  o_failed :: bool
  o_stop :: bool
  o_state :: bool

definition outcome :: "bool \<Rightarrow> bool \<Rightarrow> bool \<Rightarrow> outcome" where
  "outcome f p t = \<lparr>o_failed = f, o_stop = p, o_state = t\<rparr>"

text \<open>Whether the end of the main process changes the state: not while a post-start or pre-stop
  process runs.\<close>

definition main_moves :: "JobClass \<Rightarrow> Job \<Rightarrow> bool" where
  "main_moves cls job \<longleftrightarrow>
     \<not> (j_state job = JOB_POST_START \<and> has_process cls PROCESS_POST_START \<and>
        j_pid job PROCESS_POST_START > 0) \<and>
     \<not> (j_state job = JOB_PRE_STOP \<and> has_process cls PROCESS_PRE_STOP \<and>
        j_pid job PROCESS_PRE_STOP > 0)"

text \<open>Whether an exit status of the main process is a failure.\<close>

definition main_failed :: "JobClass \<Rightarrow> int \<Rightarrow> bool" where
  "main_failed cls status \<longleftrightarrow>
     (\<not> (c_normalexit cls = [] \<and> status = 0) \<or> (c_respawn cls \<and> \<not> c_task cls)) \<and>
     status \<notin> set (c_normalexit cls)"

text \<open>The main process failed and is to be respawned.\<close>

definition respawn_main :: "os \<Rightarrow> bool \<Rightarrow> sys \<Rightarrow> Job \<Rightarrow> (outcome \<times> sys \<times> Job) option" where
  "respawn_main w state s job = do {
     (s, job) \<leftarrow> (if \<not> state then job_change_goal w JOB_RESPAWN s job else Some (s, Some job));
     job \<leftarrow> job;
     if j_state job = JOB_SPAWNED then do {
       (s, job) \<leftarrow> job_change_state w JOB_STOPPING s job;
       job \<leftarrow> job;
       Some (outcome False False False, s, job)
     } else Some (outcome False False state, s, job)
   }"

definition terminated_main ::
    "os \<Rightarrow> int \<Rightarrow> sys \<Rightarrow> Job \<Rightarrow> (outcome \<times> sys \<times> Job) option" where
  "terminated_main w status s job = do {
     cls \<leftarrow> class_of s job;
     nih_assert (j_state job \<in> {JOB_RUNNING, JOB_SPAWNED, JOB_KILLED, JOB_STOPPING, JOB_POST_START,
       JOB_PRE_STOP});
     let state = main_moves cls job;
     if j_state job = JOB_KILLED then Some (outcome False False state, s, job)
     else if j_state job = JOB_STOPPING then Some (outcome False False False, s, job)
     else if j_goal job \<noteq> JOB_START then Some (outcome False False state, s, job)
     else if \<not> main_failed cls status \<or> \<not> c_respawn cls \<or> s_disable_respawn s
       then Some (outcome (main_failed cls status) True state, s, job)
     else do {
       (runaway, s, job) \<leftarrow> job_process_catch_runaway w s job;
       if runaway then do {
         (s, job) \<leftarrow> job_failed PROCESS_INVALID 0 s job;
         Some (outcome False True state, s, job)
       } else respawn_main w state s job
     }
   }"

definition terminated_switch ::
    "os \<Rightarrow> ProcessType \<Rightarrow> int \<Rightarrow> sys \<Rightarrow> Job \<Rightarrow> (outcome \<times> sys \<times> Job) option" where
  "terminated_switch w process status s job =
     (case process of
        PROCESS_MAIN \<Rightarrow> terminated_main w status s job
      | PROCESS_SECURITY \<Rightarrow> do {
          nih_assert (j_state job = JOB_SECURITY);
          Some (outcome (status \<noteq> 0) (status \<noteq> 0) True, s, job)
        }
      | PROCESS_PRE_START \<Rightarrow> do {
          nih_assert (j_state job = JOB_PRE_START);
          Some (outcome (status \<noteq> 0) (status \<noteq> 0) True, s, job)
        }
      | PROCESS_POST_START \<Rightarrow> do {
          nih_assert (j_state job = JOB_POST_START \<or> j_state job = JOB_RUNNING);
          Some (outcome False False True, s, job)
        }
      | PROCESS_PRE_STOP \<Rightarrow> do {
          nih_assert (j_state job = JOB_PRE_STOP);
          Some (outcome False False True, s, job)
        }
      | PROCESS_POST_STOP \<Rightarrow> do {
          nih_assert (j_state job = JOB_POST_STOP);
          Some (outcome (status \<noteq> 0) (status \<noteq> 0) True, s, job)
        }
      | _ \<Rightarrow> None)"

text \<open>The part after the switch.\<close>

definition go_on :: "os \<Rightarrow> bool \<Rightarrow> sys \<Rightarrow> Job \<Rightarrow> job_result" where
  "go_on w state s job = (if state then change_to_next w s job else Some (s, Some job))"

definition terminated_finish ::
    "os \<Rightarrow> ProcessType \<Rightarrow> int \<Rightarrow> bool \<Rightarrow> outcome \<Rightarrow> sys \<Rightarrow> Job \<Rightarrow> job_result" where
  "terminated_finish w process status state_only out s job = do {
     let job = (if j_kill_timer job \<noteq> None
                then job\<lparr>j_kill_timer := None, j_kill_process := PROCESS_INVALID\<rparr> else job);
     let job = (if \<not> state_only then job\<lparr>j_pid := (j_pid job)(process := 0)\<rparr> else job);
     (s, job) \<leftarrow> (if o_failed out then job_failed process status s job else Some (s, job));
     nih_assert (\<not> (state_only \<and> o_stop out \<and> o_failed out));
     if o_stop out \<and> \<not> state_only then do {
       (s, job) \<leftarrow> job_change_goal w JOB_STOP s job;
       job \<leftarrow> job;
       if j_state job = JOB_RUNNING then Some (s, Some job) else go_on w (o_state out) s job
     } else go_on w (o_state out) s job
   }"

definition job_process_terminated ::
    "os \<Rightarrow> ProcessType \<Rightarrow> int \<Rightarrow> bool \<Rightarrow> sys \<Rightarrow> Job \<Rightarrow> job_result" where
  "job_process_terminated w process status state_only s job =
     (if j_state job \<in> {JOB_SECURITY_SPAWNING, JOB_PRE_STARTING, JOB_SPAWNING, JOB_POST_STARTING,
          JOB_PRE_STOPPING, JOB_POST_STOPPING}
      then do {
        data \<leftarrow> j_process_data job process;
        let job = job\<lparr>j_process_data := (j_process_data job)(process \<mapsto> data\<lparr>pd_status := status\<rparr>)\<rparr>;
        (st, s, job) \<leftarrow> job_next_state s job;
        Some (s, Some (job\<lparr>j_state := st\<rparr>))
      }
      else do {
        (out, s, job) \<leftarrow> terminated_switch w process status s job;
        terminated_finish w process status state_only out s job
      })"

section \<open>Stopping and tracing\<close>

definition spawn_state :: "ProcessType \<Rightarrow> Job \<Rightarrow> bool" where
  "spawn_state process job \<longleftrightarrow>
     process = PROCESS_MAIN \<and> (j_state job = JOB_SPAWNING \<or> j_state job = JOB_SPAWNED)"

definition SIGCONT :: int where "SIGCONT = 18"
definition SIGSTOP :: int where "SIGSTOP = 19"
definition SIGTRAP :: int where "SIGTRAP = 5"

definition job_process_stopped :: "os \<Rightarrow> ProcessType \<Rightarrow> sys \<Rightarrow> Job \<Rightarrow> job_result" where
  "job_process_stopped w process s job =
     (if \<not> spawn_state process job then Some (s, Some job)
      else do {
        cls \<leftarrow> class_of s job;
        if c_expect cls = EXPECT_STOP then do {
          let (ok, s) = call (os_kill w) s;
          change_to_next w (send [Killed (j_pid job process) SIGCONT] s) job
        } else Some (s, Some job)
      })"

text \<open>A \<^verbatim>\<open>ptrace\<close> request and whether it succeeded.\<close>

definition ptrace :: "os \<Rightarrow> string \<Rightarrow> int \<Rightarrow> sys \<Rightarrow> bool \<times> sys" where
  "ptrace w request pid s = (let (ok, s) = call (os_ptrace w) s in (ok, send [Ptraced pid request] s))"

definition job_process_trace_new :: "os \<Rightarrow> ProcessType \<Rightarrow> sys \<Rightarrow> Job \<Rightarrow> (sys \<times> Job) option" where
  "job_process_trace_new w process s job = do {
     nih_assert (j_trace_state job = TRACE_NEW \<or> j_trace_state job = TRACE_NEW_CHILD);
     if \<not> spawn_state process job then Some (s, job)
     else
       (let (ok, s) = ptrace w ''SETOPTIONS'' (j_pid job process) s
        in if \<not> ok then Some (s, job)
           else
             (let job = job\<lparr>j_trace_state := TRACE_NORMAL\<rparr>;
                  (ok, s) = ptrace w ''CONT'' (j_pid job process) s
              in Some (s, job)))
   }"

definition job_process_trace_new_child :: "os \<Rightarrow> ProcessType \<Rightarrow> sys \<Rightarrow> Job \<Rightarrow> job_result" where
  "job_process_trace_new_child w process s job = do {
     nih_assert (j_trace_state job = TRACE_NEW_CHILD);
     if \<not> spawn_state process job then Some (s, Some job)
     else do {
       cls \<leftarrow> class_of s job;
       let job = job\<lparr>j_trace_forks := j_trace_forks job + 1\<rparr>;
       if j_trace_forks job > 1 \<or> c_expect cls = EXPECT_FORK then do {
         let (ok, s) = ptrace w ''DETACH'' (j_pid job process) s;
         change_to_next w s (job\<lparr>j_trace_state := TRACE_NONE\<rparr>)
       } else do {
         (s, job) \<leftarrow> job_process_trace_new w process s job;
         Some (s, Some job)
       }
     }
   }"

definition job_process_trace_signal :: "os \<Rightarrow> ProcessType \<Rightarrow> int \<Rightarrow> sys \<Rightarrow> Job \<Rightarrow> sys \<times> Job" where
  "job_process_trace_signal w process signum s job =
     (if \<not> spawn_state process job \<or> j_trace_state job \<noteq> TRACE_NORMAL then (s, job)
      else (let (ok, s) = ptrace w (''CONT '' @ show_int signum) (j_pid job process) s in (s, job)))"

definition job_process_trace_fork :: "os \<Rightarrow> ProcessType \<Rightarrow> sys \<Rightarrow> Job \<Rightarrow> job_result" where
  "job_process_trace_fork w process s job =
     (if \<not> spawn_state process job \<or> j_trace_state job \<noteq> TRACE_NORMAL then Some (s, Some job)
      else
        (let data = os_ptrace_msg w (s_calls s);
             (ok, s) = ptrace w ''GETEVENTMSG'' (j_pid job process) s
         in if \<not> ok then Some (s, Some job)
            else
              (let (ok, s) = ptrace w ''DETACH'' (j_pid job process) s;
                   job = job\<lparr>j_pid := (j_pid job)(process := data), j_trace_state := TRACE_NEW_CHILD\<rparr>;
                   (ok, s) = ptrace w ''SETOPTIONS'' (j_pid job process) s
               in if \<not> ok then Some (s, Some job)
                  else job_process_trace_new_child w process s job)))"

definition job_process_trace_exec :: "os \<Rightarrow> ProcessType \<Rightarrow> sys \<Rightarrow> Job \<Rightarrow> job_result" where
  "job_process_trace_exec w process s job =
     (if \<not> spawn_state process job \<or> j_trace_state job \<noteq> TRACE_NORMAL then Some (s, Some job)
      else if j_trace_forks job \<noteq> 0 then
        (let (ok, s) = ptrace w ''DETACH'' (j_pid job process) s
         in change_to_next w s (job\<lparr>j_trace_state := TRACE_NONE\<rparr>))
      else (let (ok, s) = ptrace w ''CONT'' (j_pid job process) s in Some (s, Some job)))"

section \<open>The handler of child events\<close>

datatype NihChildEvents =
    NIH_CHILD_EXITED
  | NIH_CHILD_KILLED
  | NIH_CHILD_DUMPED
  | NIH_CHILD_TRAPPED
  | NIH_CHILD_PTRACE
  | NIH_CHILD_STOPPED
  | NIH_CHILD_CONTINUED

definition PTRACE_EVENT_FORK :: int where "PTRACE_EVENT_FORK = 1"
definition PTRACE_EVENT_EXEC :: int where "PTRACE_EVENT_EXEC = 4"

text \<open>The events of a process that is known to be one of a job's.\<close>

definition handle_child ::
    "os \<Rightarrow> ProcessType \<Rightarrow> NihChildEvents \<Rightarrow> int \<Rightarrow> sys \<Rightarrow> Job \<Rightarrow> job_result" where
  "handle_child w process event status s job =
     (case event of
        NIH_CHILD_EXITED \<Rightarrow> job_process_terminated w process status False s job
      | NIH_CHILD_KILLED \<Rightarrow> job_process_terminated w process (push_bit 8 status) False s job
      | NIH_CHILD_DUMPED \<Rightarrow> job_process_terminated w process (push_bit 8 status) False s job
      | NIH_CHILD_STOPPED \<Rightarrow>
          if status = SIGSTOP then job_process_stopped w process s job else Some (s, Some job)
      | NIH_CHILD_CONTINUED \<Rightarrow> Some (s, Some job)
      | NIH_CHILD_TRAPPED \<Rightarrow>
          if j_trace_state job = TRACE_NEW \<and> status = SIGTRAP then
            map_option (apsnd Some) (job_process_trace_new w process s job)
          else if j_trace_state job = TRACE_NEW_CHILD \<and> status = SIGSTOP then
            job_process_trace_new_child w process s job
          else Some (apsnd Some (job_process_trace_signal w process status s job))
      | NIH_CHILD_PTRACE \<Rightarrow>
          if status = PTRACE_EVENT_FORK then job_process_trace_fork w process s job
          else if status = PTRACE_EVENT_EXEC then job_process_trace_exec w process s job
          else None)"

text \<open>\<^verbatim>\<open>job_process_find\<close>: the first job of a registered class that has the process.\<close>

definition job_process_find :: "int \<Rightarrow> sys \<Rightarrow> (nat \<times> ProcessType) option option" where
  "job_process_find pid s = do {
     nih_assert (pid > 0);
     let candidates = concat (map (\<lambda>cid. concat (map (\<lambda>jid.
           (case s_jobs s jid of
              None \<Rightarrow> []
            | Some job \<Rightarrow> map (Pair jid) (filter (\<lambda>p. j_pid job p = pid) process_order)))
           (class_instances s cid))) (s_registered s));
     Some (case candidates of [] \<Rightarrow> None | c # _ \<Rightarrow> Some c)
   }"

text \<open>Running an operation on the job with a number, in place.\<close>

definition with_job :: "nat \<Rightarrow> (sys \<Rightarrow> Job \<Rightarrow> job_result) \<Rightarrow> sys \<Rightarrow> sys option" where
  "with_job jid f s = do {
     job \<leftarrow> s_jobs s jid;
     (s, job) \<leftarrow> f s job;
     Some (case job of None \<Rightarrow> s | Some job \<Rightarrow> set_job job s)
   }"

definition job_process_handler :: "os \<Rightarrow> int \<Rightarrow> NihChildEvents \<Rightarrow> int \<Rightarrow> sys \<Rightarrow> sys option" where
  "job_process_handler w pid event status s = do {
     nih_assert (pid > 0);
     found \<leftarrow> job_process_find pid s;
     (case found of
        None \<Rightarrow> Some s
      | Some (jid, process) \<Rightarrow> with_job jid (handle_child w process event status) s)
   }"

section \<open>Set-up of the child\<close>

text \<open>\<^verbatim>\<open>job_process_readyfd_reader\<close>: the process announces that it is ready by a newline.\<close>

definition job_process_readyfd_reader :: "os \<Rightarrow> string \<Rightarrow> sys \<Rightarrow> Job \<Rightarrow> job_result" where
  "job_process_readyfd_reader w buf s job =
     (if j_state job = JOB_SPAWNED \<and> NL \<in> set buf then change_to_next w s job else Some (s, Some job))"

text \<open>\<^verbatim>\<open>job_process_run_bottom\<close>: the script is sent to the shell.\<close>

definition job_process_run_bottom :: "ProcessType \<Rightarrow> JobProcessData \<Rightarrow> sys \<Rightarrow> Job \<Rightarrow> sys \<times> Job" where
  "job_process_run_bottom process data s job =
     (case pd_script data of
        Some script \<Rightarrow>
          if pd_shell data then
            (send [ScriptSent (j_pid job process) (''exec 9<&-'' @ [NL] @ script)] s,
             job\<lparr>j_process_data := (j_process_data job)(process \<mapsto> data\<lparr>pd_shell := False, pd_valid := False\<rparr>)\<rparr>)
          else (s, job)
      | None \<Rightarrow> (s, job))"

text \<open>\<^verbatim>\<open>job_process_child_reader\<close>: the child wrote to the pipe because its set-up failed. A temporary
  error is ignored. After the handler has run, the code goes on to write to the process data,
  which is freed together with the job.\<close>

definition job_process_child_reader :: "os \<Rightarrow> ProcessType \<Rightarrow> bool \<Rightarrow> sys \<Rightarrow> Job \<Rightarrow> job_result" where
  "job_process_child_reader w process temporary s job =
     (case j_process_data job process of
        None \<Rightarrow> Some (s, Some job)
      | Some data \<Rightarrow>
          if \<not> pd_valid data \<or> temporary then Some (s, Some job)
          else do {
            let job = job\<lparr>j_process_data := (j_process_data job)(process \<mapsto> data\<lparr>pd_shell := False\<rparr>)\<rparr>;
            (s, job) \<leftarrow> job_child_error_handler w process s job;
            job \<leftarrow> job;
            data \<leftarrow> j_process_data job process;
            Some (s, Some (job\<lparr>j_process_data :=
              (j_process_data job)(process \<mapsto> data\<lparr>pd_valid := False, pd_fd_open := False\<rparr>)\<rparr>))
          })"

text \<open>\<^verbatim>\<open>job_process_close_handler\<close>: the child closed the pipe, having been set up.\<close>

definition job_process_close_handler :: "os \<Rightarrow> ProcessType \<Rightarrow> sys \<Rightarrow> Job \<Rightarrow> job_result" where
  "job_process_close_handler w process s job =
     (case j_process_data job process of
        None \<Rightarrow> Some (s, Some job)
      | Some data \<Rightarrow>
          if \<not> pd_valid data then Some (s, Some job)
          else do {
            cls \<leftarrow> class_of s job;
            let status = pd_status data;
            let data = data\<lparr>pd_fd_open := False, pd_valid := False\<rparr>;
            let job = job\<lparr>j_process_data := (j_process_data job)(process \<mapsto> data)\<rparr>;
            let (s, job) = job_process_run_bottom process data s job;
            (s, job) \<leftarrow>
              (if j_state job = JOB_SPAWNED \<and> c_expect cls = EXPECT_NONE \<and> process = PROCESS_MAIN
               then change_to_next w s job else Some (s, Some job));
            job \<leftarrow> job;
            if j_state job \<in> {JOB_SECURITY_SPAWNING, JOB_PRE_STARTING, JOB_SPAWNING,
                JOB_POST_STARTING, JOB_PRE_STOPPING, JOB_POST_STOPPING}
            then job_process_terminated w process status True s job
            else Some (s, Some job)
          })"

section \<open>All jobs\<close>

definition all_instances :: "sys \<Rightarrow> nat list" where
  "all_instances s = concat (map (class_instances s) (s_registered s))"

definition job_process_jobs_running :: "sys \<Rightarrow> bool" where
  "job_process_jobs_running s \<longleftrightarrow>
     (\<exists>jid\<in>set (all_instances s).
        case s_jobs s jid of None \<Rightarrow> False | Some job \<Rightarrow> (\<exists>p\<in>set process_order. j_pid job p \<noteq> 0))"

definition job_process_stop_all :: "os \<Rightarrow> sys \<Rightarrow> sys option" where
  "job_process_stop_all w s =
     foldM (\<lambda>jid. with_job jid (job_change_goal w JOB_STOP)) (all_instances s) s"

end
