(* ===== verification/JobProcessProps.thy ===== *)
theory JobProcessProps
  imports JobProcess
begin

text \<open>
  The properties of \<^verbatim>\<open>src/init/job_process.c\<close>: whatever the kernel reports of a process of a job, the
  handler runs to its end without an abort and leaves the job at rest, with only those processes
  alive that its state expects; which goal the job has then; and the limit on respawning.
\<close>

section \<open>Frames\<close>

text \<open>A job with only its counters of respawns and forks, its trace state and its failure changed.\<close>

definition same_run :: "Job \<Rightarrow> Job \<Rightarrow> bool" where
  "same_run job job' \<longleftrightarrow> j_id job' = j_id job \<and> j_class job' = j_class job \<and> j_goal job' = j_goal job \<and>
     j_state job' = j_state job \<and> j_blocker job' = j_blocker job \<and> j_pid job' = j_pid job \<and>
     j_kill_timer job' = j_kill_timer job \<and> j_kill_process job' = j_kill_process job \<and>
     j_stop_on job' = j_stop_on job"

lemma same_run_refl [simp]: "same_run job job"
  by (simp add: same_run_def)

lemma same_run_trans: "same_run a b \<Longrightarrow> same_run b c \<Longrightarrow> same_run a c"
  by (auto simp: same_run_def)

lemma same_run_between: "same_run job job' \<Longrightarrow> between_calls job \<Longrightarrow> between_calls job'"
  unfolding same_run_def using between_calls_cong [of job job'] by simp

lemma same_run_tracked: "same_run job job' \<Longrightarrow> tracked w cls st job \<Longrightarrow> tracked w cls st job'"
  by (simp add: same_run_def tracked_def)

lemma job_process_catch_runaway_ok:
  assumes "class_of s job = Some cls"
  shows "\<exists>b s' job'. job_process_catch_runaway w s job = Some (b, s', job') \<and> tame s s' \<and>
    same_run job job' \<and> j_blocking job' = j_blocking job"
proof -
  obtain s1 where s1: "call (os_now w) s = (os_now w (s_calls s), s1)" by (simp add: call_def)
  show ?thesis
    using assms s1 tame_call [OF s1]
    by (auto simp: job_process_catch_runaway_def Let_def same_run_def)
qed

lemma job_failed_run:
  assumes "job_ok R s cls job"
  shows "\<exists>s' job'. job_failed process status s job = Some (s', job') \<and> calm s s' \<and> job_ok R s' cls job' \<and>
    same_run job job'"
  using job_failed_ok [OF assms, of process status] by (fastforce simp: same_run_def)

section \<open>The main process\<close>

text \<open>What the handler does with every process that is gone.\<close>

definition clear :: "ProcessType \<Rightarrow> Job \<Rightarrow> Job" where
  "clear process job = job\<lparr>j_kill_timer := None, j_kill_process := PROCESS_INVALID,
     j_pid := (j_pid job)(process := 0)\<rparr>"

definition outcome_fits :: "ProcessType \<Rightarrow> outcome \<Rightarrow> Job \<Rightarrow> bool" where
  "outcome_fits process out job \<longleftrightarrow>
     (o_state out \<longrightarrow> j_state job \<notin> {JOB_WAITING, JOB_STARTING, JOB_STOPPING} \<and> unheld (clear process job)) \<and>
     (\<not> o_state out \<longrightarrow> process = PROCESS_MAIN \<and> j_state job \<in> {JOB_STOPPING, JOB_POST_START, JOB_PRE_STOP}) \<and>
     (o_stop out \<and> j_state job = JOB_RUNNING \<longrightarrow> process = PROCESS_MAIN)"

text \<open>The state of the job after the switch.\<close>

definition switched ::
    "os \<Rightarrow> (nat \<Rightarrow> nat) \<Rightarrow> JobClass \<Rightarrow> sys \<Rightarrow> Job \<Rightarrow> sys \<Rightarrow> Job \<Rightarrow> bool" where
  "switched w R cls s job s' job' \<longleftrightarrow> calm s s' \<and> job_ok R s' cls job' \<and> between_calls job' \<and>
     tracked w cls (j_state job') job' \<and> j_id job' = j_id job \<and> j_class job' = j_class job"

lemma switched_same_run:
  assumes "calm s s'" and "job_ok R s' cls job'" and "same_run job job'" and "between_calls job"
    and "tracked w cls (j_state job) job"
  shows "switched w R cls s job s' job'"
  using assms same_run_between same_run_tracked by (simp add: switched_def same_run_def)

lemma unheld_clear_run:
  "same_run job job' \<Longrightarrow> unheld (clear p job') = unheld (clear p job)"
  by (cases "holds_up (j_state job)") (simp_all add: same_run_def unheld_def clear_def)

lemma unheld_clear_main:
  assumes "tracked w cls (j_state job) job" and "main_moves cls job"
    and "j_state job \<in> {JOB_RUNNING, JOB_SPAWNED, JOB_KILLED, JOB_STOPPING, JOB_POST_START, JOB_PRE_STOP}"
  shows "unheld (clear PROCESS_MAIN job)"
  using assms by (auto simp: unheld_def clear_def tracked_def wanted_def main_moves_def not_less [symmetric])

lemma job_change_state_stopping:
  assumes "job_change_state w JOB_STOPPING s job = Some (s', Some job')" and "j_blocker job = None"
  shows "j_state job' = JOB_STOPPING"
proof (cases "j_state job = JOB_STOPPING")
  case True
  then show ?thesis using assms(1) by (subst (asm) job_change_state.simps) auto
next
  case False
  then obtain st' s1 job1 where ent: "enter_state w JOB_STOPPING s job = Some (st', s1, Some job1)"
    and run: "job_change_state w st' s1 job1 = Some (s', Some job')"
    using assms by (subst (asm) job_change_state.simps) (auto split: option.splits elim!: bind_eq_Some_E)
  have "j_state job1 = JOB_STOPPING \<and> st' = JOB_STOPPING"
    using ent by (auto simp: enter_state_def enter_action_def Let_def dest!: enter_fixed_state
      elim!: bind_eq_Some_E)
  then show ?thesis using run by (subst (asm) job_change_state.simps) auto
qed

text \<open>Respawning: the goal is noted for later, or the job goes to the stopping state at once.\<close>

lemma respawn_main_ok:
  assumes ok: "job_ok R s cls job" and placed: "placed R s cls job" and w: "os_ok w"
    and between: "between_calls job" and tr: "tracked w cls (j_state job) job" and "j_goal job = JOB_START"
    and st: "state \<Longrightarrow> unheld (clear PROCESS_MAIN job)"
      "j_state job \<in> {JOB_RUNNING, JOB_SPAWNED, JOB_POST_START, JOB_PRE_STOP}"
      "\<not> state \<Longrightarrow> j_state job \<in> {JOB_POST_START, JOB_PRE_STOP}"
  shows "\<exists>out s' job'. respawn_main w state s job = Some (out, s', job') \<and>
    switched w R cls s job s' job' \<and> outcome_fits PROCESS_MAIN out job'"
proof (cases "state \<and> j_state job = JOB_SPAWNED")
  case True
  have blk: "j_blocker job = None" "quiet job"
    using between True by (auto simp: between_calls_def at_rest_def)
  have pre: "may_enter (j_state job) (j_goal job) JOB_STOPPING" "j_state job \<noteq> JOB_STOPPING"
    "primed_for w cls job (j_state job)" "tracked w cls JOB_STOPPING job"
    using True assms(6) tr by (auto simp: tracked_def)
  obtain s' r where run: "job_change_state w JOB_STOPPING s job = Some (s', r)" "settled R cls s job s' r"
    using job_change_state_ok [OF ok placed w pre(1,2) blk pre(3)] by blast
  then obtain job' where r: "r = Some job'" using job_change_state_not_freed by fastforce
  have "j_state job' = JOB_STOPPING" using job_change_state_stopping run(1) r blk by blast
  moreover have "tracked w cls (j_state job') job'"
    using job_change_state_tracked [OF ok placed w pre(1,2) blk pre(3,4)] run(1) r by simp
  ultimately have "switched w R cls s job s' job'" "outcome_fits PROCESS_MAIN (outcome False False False) job'"
    using run(2) r by (auto simp: switched_def settled_def outcome_fits_def outcome_def)
  then show ?thesis using True run(1) r by (auto simp: respawn_main_def)
next
  case no_spawn: False
  show ?thesis
  proof (cases state)
    case True
    then have "outcome_fits PROCESS_MAIN (outcome False False True) job" "switched w R cls s job s job"
      using st no_spawn ok between tr by (auto simp: outcome_fits_def outcome_def switched_def)
    then show ?thesis using True no_spawn by (auto simp: respawn_main_def)
  next
    case False
    let ?job = "job\<lparr>j_goal := JOB_RESPAWN\<rparr>"
    obtain s1 where s1: "job_change_goal w JOB_RESPAWN s job = Some (s1, Some ?job)" "tame s s1"
      using assms(6) by (simp add: job_change_goal_def set_goal_def)
    have "job_ok R s1 cls ?job" by (rule job_ok_tame [OF ok s1(2)]) simp_all
    moreover have "between_calls ?job"
      using between st(3) [OF False] by (elim insertE) (simp_all add: between_calls_def at_rest_def quiet_def)
    ultimately have "switched w R cls s job s1 ?job" "outcome_fits PROCESS_MAIN (outcome False False False) ?job"
      using st(3) [OF False] s1(2) tr by (auto simp: switched_def tame_def tracked_def outcome_fits_def outcome_def)
    then show ?thesis using False s1(1) st(3) by (auto simp: respawn_main_def)
  qed
qed

text \<open>The states in which the main process is found.\<close>

lemma main_states:
  assumes "between_calls job" and "tracked w cls (j_state job) job" and "j_pid job PROCESS_MAIN > 0"
  shows "j_state job \<in> {JOB_RUNNING, JOB_SPAWNED, JOB_KILLED, JOB_STOPPING, JOB_POST_START, JOB_PRE_STOP}"
proof -
  have "PROCESS_MAIN \<in> allowed (j_state job)" using assms(2,3) by (simp add: tracked_def)
  moreover have "j_state job \<noteq> JOB_WAITING \<Longrightarrow> at_rest job" using assms(1) by (auto simp: between_calls_def)
  ultimately show ?thesis by (cases "j_state job") (auto simp: at_rest_def)
qed

text \<open>The end of the main process while it is to run.\<close>

lemma terminated_main_started:
  assumes ok: "job_ok R s cls job" and placed: "placed R s cls job" and w: "os_ok w"
    and between: "between_calls job" and tr: "tracked w cls (j_state job) job" and goal: "j_goal job = JOB_START"
    and st: "j_state job \<in> {JOB_RUNNING, JOB_SPAWNED, JOB_POST_START, JOB_PRE_STOP}"
    and again: "main_failed cls status" "c_respawn cls" "\<not> s_disable_respawn s"
  shows "\<exists>out s' job'. terminated_main w status s job = Some (out, s', job') \<and>
    switched w R cls s job s' job' \<and> outcome_fits PROCESS_MAIN out job'"
proof -
  have cls: "class_of s job = Some cls" using ok by (simp add: job_ok_def)
  obtain run s1 job1 where c: "job_process_catch_runaway w s job = Some (run, s1, job1)" "tame s s1"
    "same_run job job1" "j_blocking job1 = j_blocking job"
    using job_process_catch_runaway_ok [OF cls] by blast
  have ok1: "job_ok R s1 cls job1"
    using c(3,4) by (intro job_ok_tame [OF ok c(2)]) (simp_all add: same_run_def)
  have calm1: "calm s s1" using c(2) by (simp add: tame_def)
  have un: "main_moves cls job \<Longrightarrow> unheld (clear PROCESS_MAIN job)"
    using unheld_clear_main [OF tr] st by blast
  have stay: "\<not> main_moves cls job \<Longrightarrow> j_state job \<in> {JOB_POST_START, JOB_PRE_STOP}"
    by (auto simp: main_moves_def)
  show ?thesis
  proof (cases run)
    case True
    obtain s2 job2 where f: "job_failed PROCESS_INVALID 0 s1 job1 = Some (s2, job2)" "calm s1 s2"
      "job_ok R s2 cls job2" "same_run job1 job2"
      using job_failed_run [OF ok1] by blast
    have run2: "same_run job job2" using same_run_trans c(3) f(4) by blast
    have "outcome_fits PROCESS_MAIN (outcome False True (main_moves cls job)) job2"
      using unheld_clear_run [OF run2] run2 un stay st by (auto simp: outcome_fits_def outcome_def same_run_def)
    then show ?thesis
      using switched_same_run [OF calm_trans [OF calm1 f(2)] f(3) run2 between tr] True goal again st cls c(1) f(1)
      by (auto simp: terminated_main_def)
  next
    case False
    have same: "j_state job1 = j_state job" "j_goal job1 = JOB_START" using c(3) goal by (simp_all add: same_run_def)
    have placed1: "placed R s1 cls job1"
      using placed placed_calm [OF calm1] c(3) by (simp add: same_run_def)
    obtain out s2 job2 where run2: "respawn_main w (main_moves cls job) s1 job1 = Some (out, s2, job2)"
      "switched w R cls s1 job1 s2 job2" "outcome_fits PROCESS_MAIN out job2"
      using respawn_main_ok [OF ok1 placed1 w same_run_between [OF c(3) between], of "main_moves cls job"]
        same st un stay same_run_tracked [OF c(3) tr] unheld_clear_run [OF c(3)] by auto
    moreover have "switched w R cls s job s2 job2"
      using run2(2) calm_trans [OF calm1] c(3) by (simp add: switched_def same_run_def)
    ultimately show ?thesis
      using False goal again st cls c(1) by (auto simp: terminated_main_def)
  qed
qed

lemma terminated_main_ok:
  assumes ok: "job_ok R s cls job" and placed: "placed R s cls job" and w: "os_ok w"
    and between: "between_calls job" and tr: "tracked w cls (j_state job) job"
    and alive: "j_pid job PROCESS_MAIN > 0"
  shows "\<exists>out s' job'. terminated_main w status s job = Some (out, s', job') \<and>
    switched w R cls s job s' job' \<and> outcome_fits PROCESS_MAIN out job'"
proof -
  have cls: "class_of s job = Some cls" using ok by (simp add: job_ok_def)
  note st = main_states [OF between tr alive]
  have same: "switched w R cls s job s job" using ok between tr by (simp add: switched_def)
  have fits: "outcome_fits PROCESS_MAIN (outcome f p (main_moves cls job)) job" if "j_state job \<noteq> JOB_STOPPING" for f p
    using that unheld_clear_main [OF tr _ st] st by (auto simp: outcome_fits_def outcome_def main_moves_def)
  have stop: "outcome_fits PROCESS_MAIN (outcome False False False) job" if "j_state job = JOB_STOPPING"
    using that by (simp add: outcome_fits_def outcome_def)
  consider "j_state job = JOB_KILLED \<or> j_state job = JOB_STOPPING \<or> j_goal job \<noteq> JOB_START"
    | "j_state job \<notin> {JOB_KILLED, JOB_STOPPING}" "j_goal job = JOB_START"
        "\<not> main_failed cls status \<or> \<not> c_respawn cls \<or> s_disable_respawn s"
    | "j_state job \<notin> {JOB_KILLED, JOB_STOPPING}" "j_goal job = JOB_START"
        "main_failed cls status" "c_respawn cls" "\<not> s_disable_respawn s" by blast
  then show ?thesis
  proof cases
    case 1
    then show ?thesis using st cls same fits stop by (auto simp: terminated_main_def)
  next
    case 2
    then show ?thesis using st cls same fits by (auto simp: terminated_main_def)
  next
    case 3
    then show ?thesis using terminated_main_started [OF ok placed w between tr] st by blast
  qed
qed

section \<open>After the switch\<close>

lemma clear_simps [simp]:
  "j_id (clear p job) = j_id job" "j_class (clear p job) = j_class job" "j_goal (clear p job) = j_goal job"
  "j_state (clear p job) = j_state job" "j_blocker (clear p job) = j_blocker job"
  "j_stop_on (clear p job) = j_stop_on job" "j_blocking (clear p job) = j_blocking job"
  "j_pid (clear p job) p = 0" "q \<noteq> p \<Longrightarrow> j_pid (clear p job) q = j_pid job q" "quiet (clear p job)"
  by (simp_all add: clear_def quiet_def)

lemma clear_movable:
  assumes "between_calls job" and "j_state job \<notin> {JOB_WAITING, JOB_STARTING, JOB_STOPPING}"
  shows "movable (clear p job)"
  using assms by (cases "j_state job") (auto simp: movable_def between_calls_def at_rest_def)

lemma clear_between:
  assumes "between_calls job" and "j_state job \<in> {JOB_STOPPING, JOB_POST_START, JOB_PRE_STOP, JOB_RUNNING}"
  shows "between_calls (clear PROCESS_MAIN job)"
  using assms by (elim insertE) (auto simp: between_calls_def at_rest_def clear_def quiet_def)

lemma clear_tracked: "tracked w cls st job \<Longrightarrow> tracked w cls st (clear p job)"
  by (simp add: tracked_def clear_def)

lemma job_ok_clear: "job_ok R s cls job \<Longrightarrow> job_ok R s cls (clear p job)"
  by (erule job_ok_tame [OF _ tame_refl]) simp_all

lemma clear_eq:
  assumes "between_calls job"
  shows "(let job = (if j_kill_timer job \<noteq> None then job\<lparr>j_kill_timer := None, j_kill_process := PROCESS_INVALID\<rparr> else job)
    in job\<lparr>j_pid := (j_pid job)(process := 0)\<rparr>) = clear process job"
proof -
  have "j_kill_timer job = None \<Longrightarrow> j_kill_process job = PROCESS_INVALID"
    using assms by (auto simp: between_calls_def at_rest_def quiet_def)
  then show ?thesis by (auto simp: clear_def)
qed

lemma same_run_movable: "same_run job job' \<Longrightarrow> movable job' = movable job"
  by (simp add: same_run_def movable_def quiet_def)

lemma same_run_unheld: "same_run job job' \<Longrightarrow> unheld job' = unheld job"
  by (cases "holds_up (j_state job)") (simp_all add: same_run_def unheld_def)

text \<open>A job that is blocked by its stopping event stays as it is.\<close>

lemma change_to_next_blocked:
  assumes "j_state job = JOB_STOPPING" and "j_blocker job \<noteq> None" and "j_goal job \<noteq> JOB_RESPAWN"
  shows "change_to_next w s job = Some (s, Some job)"
  using assms by (cases "j_goal job") (auto simp: change_to_next_def job_next_state_def job_change_state.simps)

text \<open>Going on, after an outcome that does not change the goal.\<close>

lemma go_on_steady:
  assumes ok: "job_ok R s cls job" and placed: "placed R s cls job" and w: "os_ok w"
    and tr: "tracked w cls (j_state job) job"
    and mv: "state \<Longrightarrow> movable job \<and> unheld job" "\<not> state \<Longrightarrow> between_calls job \<and> at_rest job"
  shows "\<exists>goal s' r. go_on w state s job = Some (s', r) \<and> steady w R cls s (job\<lparr>j_goal := goal\<rparr>) s' r"
proof (cases state)
  case True
  then have "movable job" "unheld job" using mv(1) by auto
  from change_to_next_steady [OF ok placed w this(1) tr this(2)] True show ?thesis
    by (auto simp: go_on_def)
next
  case False
  then have "steady w R cls s (job\<lparr>j_goal := j_goal job\<rparr>) s (Some job)"
    using mv(2) ok tr by (auto simp: steady_def settled_def)
  then show ?thesis
    using False by (intro exI [of _ "j_goal job"] exI [of _ s] exI [of _ "Some job"]) (simp add: go_on_def)
qed

text \<open>A running job whose main process is gone stops.\<close>

lemma stop_running:
  assumes ok: "job_ok R s cls job" and placed: "placed R s cls job" and w: "os_ok w"
    and between: "between_calls job" and tr: "tracked w cls (j_state job) job"
    and st: "j_state job = JOB_RUNNING" and gone: "j_pid job PROCESS_MAIN \<le> 0"
  shows "\<exists>s' job'. job_change_goal w JOB_STOP s job = Some (s', Some job') \<and>
    steady w R cls s (job\<lparr>j_goal := JOB_STOP\<rparr>) s' (Some job') \<and> j_state job' = JOB_STOPPING"
proof -
  obtain s' r where run: "job_change_goal w JOB_STOP s job = Some (s', r)"
    and steady: "steady w R cls s (job\<lparr>j_goal := JOB_STOP\<rparr>) s' r"
    using job_change_goal_steady [OF ok placed w between _ _ tr, of JOB_STOP] st by auto
  then obtain job' where r: "r = Some job'" using job_change_goal_not_freed by blast
  have goal: "j_goal job = JOB_START" and blk: "j_blocker job = None"
    using between st by (auto simp: between_calls_def at_rest_def)
  obtain s1 where s1: "set_goal JOB_STOP s job = (s1, job\<lparr>j_goal := JOB_STOP\<rparr>)" "tame s s1"
    using goal by (simp add: set_goal_def)
  have "class_of s1 (job\<lparr>j_goal := JOB_STOP\<rparr>) = Some cls"
    using ok calm_sel(1) [of s s1] s1(2) by (simp add: job_ok_def class_of_def tame_def)
  then have "job_next_state s1 (job\<lparr>j_goal := JOB_STOP\<rparr>) = Some (JOB_STOPPING, s1, job\<lparr>j_goal := JOB_STOP\<rparr>)"
    using st gone by (simp add: job_next_state_def main_running_def)
  then have "job_change_state w JOB_STOPPING s1 (job\<lparr>j_goal := JOB_STOP\<rparr>) = Some (s', Some job')"
    using run r st goal s1(1) by (simp add: job_change_goal_def)
  then have "j_state job' = JOB_STOPPING" using job_change_state_stopping blk by fastforce
  then show ?thesis using run r steady by blast
qed

lemma steady_goal: "steady w R cls s (job\<lparr>j_goal := g\<rparr>) s' r \<Longrightarrow> j_id job = j_id job0 \<Longrightarrow>
    j_class job = j_class job0 \<Longrightarrow> steady w R cls s (job0\<lparr>j_goal := g\<rparr>) s' r"
  by (erule steady_calm [OF calm_refl]) simp_all

text \<open>Changing the goal to stop and going on.\<close>

lemma stop_and_go_on_steady:
  assumes ok: "job_ok R s cls job" and placed: "placed R s cls job" and w: "os_ok w"
    and tr: "tracked w cls (j_state job) job"
    and mv: "state \<Longrightarrow> movable job \<and> unheld job" "\<not> state \<Longrightarrow> between_calls job \<and> at_rest job"
    and run: "j_state job = JOB_RUNNING \<Longrightarrow> between_calls job \<and> j_pid job PROCESS_MAIN \<le> 0"
    and new: "j_state job \<noteq> JOB_WAITING"
  shows "\<exists>s1 job1 s' r goal. job_change_goal w JOB_STOP s job = Some (s1, Some job1) \<and>
    (if j_state job1 = JOB_RUNNING then Some (s1, Some job1) else go_on w state s1 job1) = Some (s', r) \<and>
    steady w R cls s (job\<lparr>j_goal := goal\<rparr>) s' r"
proof (cases "j_state job = JOB_RUNNING")
  case True
  obtain s1 job1 where j: "job_change_goal w JOB_STOP s job = Some (s1, Some job1)"
    "steady w R cls s (job\<lparr>j_goal := JOB_STOP\<rparr>) s1 (Some job1)" "j_state job1 = JOB_STOPPING"
    using stop_running [OF ok placed w _ tr True] run [OF True] by blast
  have "j_blocker job1 \<noteq> None" "j_goal job1 \<noteq> JOB_RESPAWN"
    using j(2,3) by (auto simp: steady_def settled_def at_rest_def)
  then have "go_on w state s1 job1 = Some (s1, Some job1)"
    using change_to_next_blocked j(3) by (simp add: go_on_def)
  then show ?thesis using j by auto
next
  case False
  let ?job = "job\<lparr>j_goal := JOB_STOP\<rparr>"
  obtain s1 where s1: "job_change_goal w JOB_STOP s job = Some (s1, Some ?job)" "tame s s1"
    using False by (cases "j_goal job = JOB_STOP") (auto simp: job_change_goal_def set_goal_def)
  have calm: "calm s s1" using s1(2) by (simp add: tame_def)
  have ok1: "job_ok R s1 cls ?job" by (rule job_ok_tame [OF ok s1(2)]) simp_all
  have placed1: "placed R s1 cls ?job" using placed placed_calm [OF calm] by simp
  have "at_rest_in ?job st = at_rest_in job st" for st by (cases st) auto
  then have mv1: "state \<Longrightarrow> movable ?job \<and> unheld ?job" "\<not> state \<Longrightarrow> between_calls ?job \<and> at_rest ?job"
    using mv False new by (auto simp: movable_def unheld_def between_calls_def at_rest_def quiet_def split: option.splits)
  have "tracked w cls (j_state ?job) ?job" using tr by (simp add: tracked_def)
  then obtain goal s' r where "go_on w state s1 ?job = Some (s', r)" "steady w R cls s1 (?job\<lparr>j_goal := goal\<rparr>) s' r"
    using go_on_steady [OF ok1 placed1 w _ mv1] by blast
  moreover have "steady w R cls s (job\<lparr>j_goal := goal\<rparr>) s' r"
    using steady_calm [OF calm calculation(2)] by simp
  ultimately show ?thesis using s1(1) False by auto
qed

lemma terminated_finish_run:
  assumes "between_calls job"
    and "(if o_failed out then job_failed process status s (clear process job) else Some (s, clear process job)) =
      Some (s1, job1)"
  shows "terminated_finish w process status False out s job =
      (if o_stop out then do {
         (s, job) \<leftarrow> job_change_goal w JOB_STOP s1 job1;
         job \<leftarrow> job;
         if j_state job = JOB_RUNNING then Some (s, Some job) else go_on w (o_state out) s job
       } else go_on w (o_state out) s1 job1)"
proof -
  have "terminated_finish w process status False out s job = do {
      (s, job) \<leftarrow> (if o_failed out then job_failed process status s (clear process job) else Some (s, clear process job));
      if o_stop out then do {
        (s, job) \<leftarrow> job_change_goal w JOB_STOP s job;
        job \<leftarrow> job;
        if j_state job = JOB_RUNNING then Some (s, Some job) else go_on w (o_state out) s job
      } else go_on w (o_state out) s job }"
    using clear_eq [OF assms(1), of process] by (simp add: terminated_finish_def Let_def)
  then show ?thesis unfolding assms(2) by simp
qed

lemma terminated_finish_steady:
  assumes ok: "job_ok R s cls job" and placed: "placed R s cls job" and w: "os_ok w"
    and between: "between_calls job" and tr: "tracked w cls (j_state job) job"
    and fits: "outcome_fits process out job" and new: "j_state job \<noteq> JOB_WAITING"
  shows "\<exists>s' r goal. terminated_finish w process status False out s job = Some (s', r) \<and>
    steady w R cls s (job\<lparr>j_goal := goal\<rparr>) s' r"
proof -
  let ?job = "clear process job"
  obtain s1 job1 where f: "(if o_failed out then job_failed process status s ?job else Some (s, ?job)) = Some (s1, job1)"
    "calm s s1" "job_ok R s1 cls job1" "same_run ?job job1"
    using job_failed_run [OF job_ok_clear [OF ok], of process status process] job_ok_clear [OF ok, of process]
    by (cases "o_failed out") auto
  note run = terminated_finish_run [OF between f(1)]
  have same: "j_state job1 = j_state job" "j_id job1 = j_id job" "j_class job1 = j_class job" "j_pid job1 = j_pid ?job"
    using f(4) by (simp_all add: same_run_def)
  have placed1: "placed R s1 cls job1" using placed placed_calm [OF f(2)] same by simp
  have tr1: "tracked w cls (j_state job1) job1" using same_run_tracked [OF f(4) clear_tracked [OF tr]] same by simp
  have mv: "movable job1 \<and> unheld job1" if "o_state out"
    using that fits clear_movable [OF between] same_run_movable [OF f(4)] same_run_unheld [OF f(4)]
    by (simp add: outcome_fits_def)
  have rest: "between_calls job1 \<and> at_rest job1" if "\<not> o_state out"
  proof -
    have "process = PROCESS_MAIN" "j_state job \<in> {JOB_STOPPING, JOB_POST_START, JOB_PRE_STOP}"
      using that fits by (auto simp: outcome_fits_def)
    then have "between_calls job1" using same_run_between [OF f(4)] clear_between [OF between] by auto
    then show ?thesis using new same by (auto simp: between_calls_def)
  qed
  have running: "between_calls job1 \<and> j_pid job1 PROCESS_MAIN \<le> 0" if "o_stop out" "j_state job1 = JOB_RUNNING"
  proof -
    have "process = PROCESS_MAIN" using that same fits by (auto simp: outcome_fits_def)
    then show ?thesis using that same same_run_between [OF f(4)] clear_between [OF between] by simp
  qed
  have "\<exists>s' r goal. terminated_finish w process status False out s job = Some (s', r) \<and>
      steady w R cls s1 (job1\<lparr>j_goal := goal\<rparr>) s' r"
  proof (cases "o_stop out")
    case True
    then show ?thesis
      using stop_and_go_on_steady [OF f(3) placed1 w tr1 mv rest running] new same run by fastforce
  next
    case False
    then show ?thesis using go_on_steady [OF f(3) placed1 w tr1 mv rest, of "o_state out"] run by auto
  qed
  then obtain s' r goal where fin: "terminated_finish w process status False out s job = Some (s', r)"
    "steady w R cls s1 (job1\<lparr>j_goal := goal\<rparr>) s' r" by blast
  have "steady w R cls s (job\<lparr>j_goal := goal\<rparr>) s' r"
    by (rule steady_calm [OF f(2) fin(2)]) (use same in simp_all)
  then show ?thesis using fin(1) by blast
qed

section \<open>Events of processes\<close>

lemma terminated_switch_ok:
  assumes ok: "job_ok R s cls job" and placed: "placed R s cls job" and w: "os_ok w"
    and between: "between_calls job" and tr: "tracked w cls (j_state job) job"
    and alive: "j_pid job process > 0"
  shows "\<exists>out s' job'. terminated_switch w process status s job = Some (out, s', job') \<and>
    switched w R cls s job s' job' \<and> outcome_fits process out job'"
proof (cases "process = PROCESS_MAIN")
  case True
  then show ?thesis
    using terminated_main_ok [OF ok placed w between tr] alive by (simp add: terminated_switch_def)
next
  case False
  have "process \<in> allowed (j_state job)" using tr alive by (simp add: tracked_def)
  moreover have "j_state job \<noteq> JOB_WAITING \<Longrightarrow> at_rest job" using between by (auto simp: between_calls_def)
  moreover have "switched w R cls s job s job" using ok between tr by (simp add: switched_def)
  ultimately show ?thesis
    using False
    by (cases process; cases "j_state job")
      (auto simp: terminated_switch_def outcome_fits_def outcome_def unheld_def at_rest_def)
qed

lemma job_process_terminated_steady:
  assumes ok: "job_ok R s cls job" and placed: "placed R s cls job" and w: "os_ok w"
    and between: "between_calls job" and tr: "tracked w cls (j_state job) job"
    and alive: "j_pid job process > 0"
  shows "\<exists>s' r goal. job_process_terminated w process status False s job = Some (s', r) \<and>
    steady w R cls s (job\<lparr>j_goal := goal\<rparr>) s' r"
proof -
  obtain out s1 job1 where sw: "terminated_switch w process status s job = Some (out, s1, job1)"
    "switched w R cls s job s1 job1" "outcome_fits process out job1"
    using terminated_switch_ok [OF assms] by blast
  have "process \<in> allowed (j_state job)" using tr alive by (simp add: tracked_def)
  then have "j_state job \<noteq> JOB_WAITING" by auto
  then have "at_rest job" using between by (auto simp: between_calls_def)
  then have run: "job_process_terminated w process status False s job =
      terminated_finish w process status False out s1 job1"
    using sw(1) by (cases "j_state job") (auto simp: job_process_terminated_def at_rest_def)
  have sw': "calm s s1" "job_ok R s1 cls job1" "between_calls job1" "tracked w cls (j_state job1) job1"
    "j_id job1 = j_id job" "j_class job1 = j_class job"
    using sw(2) by (auto simp: switched_def)
  have placed1: "placed R s1 cls job1" using placed placed_calm [OF sw'(1)] sw'(6) by simp
  have "j_state job1 \<noteq> JOB_WAITING" using sw(3) by (auto simp: outcome_fits_def)
  then obtain s' r goal where fin: "terminated_finish w process status False out s1 job1 = Some (s', r)"
    "steady w R cls s1 (job1\<lparr>j_goal := goal\<rparr>) s' r"
    using terminated_finish_steady [OF sw'(2) placed1 w sw'(3,4) sw(3)] by blast
  have "steady w R cls s (job\<lparr>j_goal := goal\<rparr>) s' r"
    by (rule steady_calm [OF sw'(1) fin(2)]) (use sw'(5,6) in simp_all)
  then show ?thesis using run fin(1) by auto
qed

text \<open>A spawned job moves on; its trace may have changed.\<close>

lemma spawned_moves:
  assumes ok: "job_ok R s cls job" and placed: "placed R s cls job" and w: "os_ok w"
    and between: "between_calls job" and tr: "tracked w cls (j_state job) job"
    and st: "spawn_state PROCESS_MAIN job" and tame: "tame s s1" and same: "same_run job job1"
    and blk: "j_blocking job1 = j_blocking job"
  shows "\<exists>s' r goal. change_to_next w s1 job1 = Some (s', r) \<and> steady w R cls s (job\<lparr>j_goal := goal\<rparr>) s' r"
proof -
  have "j_state job = JOB_SPAWNED" using st between by (auto simp: spawn_state_def between_calls_def at_rest_def)
  then have st1: "j_state job1 = JOB_SPAWNED" using same by (simp add: same_run_def)
  have ok1: "job_ok R s1 cls job1"
    using same blk by (intro job_ok_tame [OF ok tame]) (simp_all add: same_run_def)
  have calm: "calm s s1" using tame by (simp add: tame_def)
  have placed1: "placed R s1 cls job1" using placed placed_calm [OF calm] same by (simp add: same_run_def)
  have "movable job1" "unheld job1"
    using same_run_between [OF same between] st1 by (auto simp: movable_def between_calls_def at_rest_def unheld_def)
  moreover have "tracked w cls (j_state job1) job1"
    using same_run_tracked [OF same tr] same by (simp add: same_run_def)
  ultimately obtain s' r where run: "change_to_next w s1 job1 = Some (s', r)"
    "steady w R cls s1 (job1\<lparr>j_goal := effective_goal (j_goal job1)\<rparr>) s' r"
    using change_to_next_steady [OF ok1 placed1 w] by blast
  have "steady w R cls s (job\<lparr>j_goal := effective_goal (j_goal job1)\<rparr>) s' r"
    by (rule steady_calm [OF calm run(2)]) (use same in \<open>simp_all add: same_run_def\<close>)
  then show ?thesis using run(1) by auto
qed

text \<open>Nothing but the trace changes.\<close>

lemma traced_steady:
  assumes ok: "job_ok R s cls job" and between: "between_calls job" and tr: "tracked w cls (j_state job) job"
    and rest: "j_state job \<noteq> JOB_WAITING" and tame: "tame s s1" and same: "same_run job job1"
    and blk: "j_blocking job1 = j_blocking job"
  shows "\<exists>goal. steady w R cls s (job\<lparr>j_goal := goal\<rparr>) s1 (Some job1)"
proof -
  have "job_ok R s1 cls job1"
    using same blk by (intro job_ok_tame [OF ok tame]) (simp_all add: same_run_def)
  moreover have "between_calls job1" by (rule same_run_between [OF same between])
  moreover have "tracked w cls (j_state job1) job1"
    using same_run_tracked [OF same tr] same by (simp add: same_run_def)
  ultimately have "steady w R cls s (job\<lparr>j_goal := j_goal job\<rparr>) s1 (Some job1)"
    using tame same rest by (auto simp: steady_def settled_def tame_def same_run_def between_calls_def)
  then show ?thesis by blast
qed

lemma ptrace_tame: "ptrace w request pid s = (ok, s') \<Longrightarrow> tame s s'"
proof -
  assume run: "ptrace w request pid s = (ok, s')"
  obtain s1 where s1: "call (os_ptrace w) s = (os_ptrace w (s_calls s), s1)" by (simp add: call_def)
  then have "s' = send [Ptraced pid request] s1" using run by (simp add: ptrace_def)
  then show ?thesis using tame_call [OF s1] tame_send tame_trans by blast
qed

lemma spawn_state_main: "spawn_state process job \<Longrightarrow> process = PROCESS_MAIN"
  by (simp add: spawn_state_def)

text \<open>The result of an event: the job is steady, with some goal.\<close>

definition event_steady ::
    "os \<Rightarrow> (nat \<Rightarrow> nat) \<Rightarrow> JobClass \<Rightarrow> sys \<Rightarrow> Job \<Rightarrow> job_result \<Rightarrow> bool" where
  "event_steady w R cls s job res \<longleftrightarrow>
     (\<exists>s' r goal. res = Some (s', r) \<and> steady w R cls s (job\<lparr>j_goal := goal\<rparr>) s' r)"

lemma event_steadyI: "res = Some (s', r) \<Longrightarrow> steady w R cls s (job\<lparr>j_goal := goal\<rparr>) s' r \<Longrightarrow>
    event_steady w R cls s job res"
  by (auto simp: event_steady_def)

text \<open>A job between two calls that has been started.\<close>

definition on_duty :: "os \<Rightarrow> (nat \<Rightarrow> nat) \<Rightarrow> sys \<Rightarrow> JobClass \<Rightarrow> Job \<Rightarrow> bool" where
  "on_duty w R s cls job \<longleftrightarrow> job_ok R s cls job \<and> placed R s cls job \<and> os_ok w \<and>
     between_calls job \<and> tracked w cls (j_state job) job \<and> j_state job \<noteq> JOB_WAITING"

lemma on_dutyD:
  assumes "on_duty w R s cls job"
  shows "job_ok R s cls job" and "placed R s cls job" and "os_ok w" and "between_calls job"
    and "tracked w cls (j_state job) job" and "j_state job \<noteq> JOB_WAITING"
  using assms by (auto simp: on_duty_def)

lemma stays:
  assumes duty: "on_duty w R s cls job" and "tame s s1" and "same_run job job1" and "j_blocking job1 = j_blocking job"
  shows "event_steady w R cls s job (Some (s1, Some job1))"
  using traced_steady [OF on_dutyD(1,4,5,6) [OF duty] assms(2-4)] by (auto intro: event_steadyI)

lemma moves:
  assumes duty: "on_duty w R s cls job" and "spawn_state process job" and "tame s s1" and "same_run job job1" and "j_blocking job1 = j_blocking job"
  shows "event_steady w R cls s job (change_to_next w s1 job1)"
  using spawned_moves [OF on_dutyD(1-5) [OF duty] _ assms(3-5)] assms(2) spawn_state_main [OF assms(2)]
  by (auto simp: event_steady_def)

lemma job_process_stopped_steady:
  assumes duty: "on_duty w R s cls job"
  shows "event_steady w R cls s job (job_process_stopped w process s job)"
proof (cases "spawn_state process job \<and> c_expect cls = EXPECT_STOP")
  case True
  obtain s1 where s1: "call (os_kill w) s = (os_kill w (s_calls s), s1)" by (simp add: call_def)
  have "tame s (send out s1)" for out using tame_call [OF s1] tame_send tame_trans by blast
  then show ?thesis
    using True on_dutyD(1) [OF duty] s1 moves [OF duty, of process "send [Killed (j_pid job process) SIGCONT] s1" job]
    by (auto simp: job_process_stopped_def job_ok_def)
next
  case False
  then show ?thesis using stays [OF duty, of s job] on_dutyD(1) [OF duty] by (auto simp: job_process_stopped_def job_ok_def)
qed

lemma job_process_trace_new_steady:
  assumes "tame s s1" and "same_run job job1" and "j_blocking job1 = j_blocking job"
    and "j_trace_state job1 \<in> {TRACE_NEW, TRACE_NEW_CHILD}"
  shows "\<exists>s2 job2. job_process_trace_new w process s1 job1 = Some (s2, job2) \<and> tame s s2 \<and> same_run job job2 \<and>
    j_blocking job2 = j_blocking job"
proof -
  obtain ok1 s2 where p1: "ptrace w ''SETOPTIONS'' (j_pid job1 process) s1 = (ok1, s2)" by (cases "ptrace w ''SETOPTIONS'' (j_pid job1 process) s1")
  obtain ok2 s3 where p2: "ptrace w ''CONT'' (j_pid job1 process) s2 = (ok2, s3)" by (cases "ptrace w ''CONT'' (j_pid job1 process) s2")
  have t: "tame s s2" "tame s s3"
    using ptrace_tame [OF p1] ptrace_tame [OF p2] assms(1) tame_trans by blast+
  have "same_run job (job1\<lparr>j_trace_state := x\<rparr>)" for x using assms(2) by (simp add: same_run_def)
  then show ?thesis
    using assms p1 p2 t by (auto simp: job_process_trace_new_def Let_def)
qed

lemma job_process_trace_new_child_steady:
  assumes duty: "on_duty w R s cls job" and "tame s s1" and "same_run job job1" and "j_blocking job1 = j_blocking job"
    and "j_trace_state job1 = TRACE_NEW_CHILD"
  shows "event_steady w R cls s job (job_process_trace_new_child w process s1 job1)"
proof (cases "spawn_state process job")
  case False
  then have "\<not> spawn_state process job1" using assms(3) by (simp add: spawn_state_def same_run_def)
  then show ?thesis using assms stays [OF duty] by (simp add: job_process_trace_new_child_def)
next
  case True
  have st1: "spawn_state process job1" using True assms(3) by (simp add: spawn_state_def same_run_def)
  have cls: "class_of s1 job1 = Some cls"
    using on_dutyD(1) [OF duty] assms(2,3) calm_sel(1) [of s s1] by (simp add: job_ok_def class_of_def tame_def same_run_def)
  let ?job = "job1\<lparr>j_trace_forks := j_trace_forks job1 + 1\<rparr>"
  have same: "same_run job ?job" "same_run job (?job\<lparr>j_trace_state := TRACE_NONE\<rparr>)"
    using assms(3) by (simp_all add: same_run_def)
  show ?thesis
  proof (cases "j_trace_forks ?job > 1 \<or> c_expect cls = EXPECT_FORK")
    case fin: True
    obtain ok1 s2 where p: "ptrace w ''DETACH'' (j_pid job1 process) s1 = (ok1, s2)"
      by (cases "ptrace w ''DETACH'' (j_pid job1 process) s1")
    then have "tame s s2" using ptrace_tame [OF p] assms(2) tame_trans by blast
    then show ?thesis
      using moves [OF duty True _ same(2)] fin assms(4,5) st1 cls p by (auto simp: job_process_trace_new_child_def)
  next
    case go: False
    obtain s2 job2 where "job_process_trace_new w process s1 ?job = Some (s2, job2)" "tame s s2"
      "same_run job job2" "j_blocking job2 = j_blocking job"
      using job_process_trace_new_steady [OF assms(2) same(1), of w process] assms(4,5) by auto
    then show ?thesis using go assms(5) st1 cls stays [OF duty] by (auto simp: job_process_trace_new_child_def)
  qed
qed

lemma job_process_trace_exec_steady:
  assumes duty: "on_duty w R s cls job"
  shows "event_steady w R cls s job (job_process_trace_exec w process s job)"
proof (cases "spawn_state process job \<and> j_trace_state job = TRACE_NORMAL")
  case True
  obtain ok1 s1 where p1: "ptrace w ''DETACH'' (j_pid job process) s = (ok1, s1)"
    by (cases "ptrace w ''DETACH'' (j_pid job process) s")
  obtain ok2 s2 where p2: "ptrace w ''CONT'' (j_pid job process) s = (ok2, s2)"
    by (cases "ptrace w ''CONT'' (j_pid job process) s")
  have "same_run job (job\<lparr>j_trace_state := TRACE_NONE\<rparr>)" by (simp add: same_run_def)
  then show ?thesis
    using True p1 p2 moves [OF duty, of process s1 "job\<lparr>j_trace_state := TRACE_NONE\<rparr>"] stays [OF duty, of s2 job]
      ptrace_tame [OF p1] ptrace_tame [OF p2]
    by (auto simp: job_process_trace_exec_def)
next
  case False
  then show ?thesis using stays [OF duty, of s job] by (auto simp: job_process_trace_exec_def)
qed

lemma job_process_trace_signal_steady:
  assumes duty: "on_duty w R s cls job"
  shows "event_steady w R cls s job (Some (apsnd Some (job_process_trace_signal w process status s job)))"
proof -
  obtain ok1 s1 where p: "ptrace w (''CONT '' @ show_int status) (j_pid job process) s = (ok1, s1)"
    by (cases "ptrace w (''CONT '' @ show_int status) (j_pid job process) s")
  then show ?thesis
    using stays [OF duty, of s job] stays [OF duty ptrace_tame [OF p], of job]
    by (auto simp: job_process_trace_signal_def)
qed

lemma event_steady_calm:
  assumes "calm s s1" and "event_steady w R cls s1 job1 res" and "j_id job1 = j_id job" and "j_class job1 = j_class job"
  shows "event_steady w R cls s job res"
proof -
  obtain s' r goal where run: "res = Some (s', r)" "steady w R cls s1 (job1\<lparr>j_goal := goal\<rparr>) s' r"
    using assms(2) by (auto simp: event_steady_def)
  have "steady w R cls s (job\<lparr>j_goal := goal\<rparr>) s' r"
    by (rule steady_calm [OF assms(1) run(2)]) (use assms(3,4) in simp_all)
  then show ?thesis using run(1) by (rule event_steadyI [rotated])
qed

text \<open>The process forked: the job follows the child.\<close>

lemma on_duty_follow:
  assumes duty: "on_duty w R s cls job" and st: "spawn_state process job" and tame: "tame s s1" and "pid > 0"
  shows "on_duty w R s1 cls (job\<lparr>j_pid := (j_pid job)(process := pid), j_trace_state := TRACE_NEW_CHILD\<rparr>)"
    (is "on_duty w R s1 cls ?job")
proof -
  note d = on_dutyD [OF duty]
  have main: "process = PROCESS_MAIN" by (rule spawn_state_main [OF st])
  have st': "j_state job = JOB_SPAWNED" using st d(4) by (auto simp: spawn_state_def between_calls_def at_rest_def)
  have "j_pid job PROCESS_MAIN > 0" using d(4) st' by (auto simp: between_calls_def at_rest_def)
  then have "wanted w cls PROCESS_MAIN" using d(5) by (simp add: tracked_def)
  then have "tracked w cls JOB_SPAWNED ?job" using d(5) st' main by (auto simp: tracked_def)
  moreover have "between_calls ?job"
    using d(4) st' main assms(4) by (auto simp: between_calls_def at_rest_def quiet_def)
  moreover have "job_ok R s1 cls ?job" by (rule job_ok_tame [OF d(1) tame]) simp_all
  moreover have "placed R s1 cls ?job" using d(2) placed_calm [of s s1] tame by (simp add: tame_def)
  ultimately show ?thesis using st' d(3) by (simp add: on_duty_def)
qed

lemma job_process_trace_fork_steady:
  assumes duty: "on_duty w R s cls job" and child: "\<forall>n. os_ptrace_msg w n > 0"
  shows "event_steady w R cls s job (job_process_trace_fork w process s job)"
proof (cases "spawn_state process job \<and> j_trace_state job = TRACE_NORMAL")
  case False
  then show ?thesis using stays [OF duty, of s job] by (auto simp: job_process_trace_fork_def)
next
  case True
  let ?pid = "os_ptrace_msg w (s_calls s)"
  let ?job = "job\<lparr>j_pid := (j_pid job)(process := ?pid), j_trace_state := TRACE_NEW_CHILD\<rparr>"
  obtain ok1 s1 where p1: "ptrace w ''GETEVENTMSG'' (j_pid job process) s = (ok1, s1)"
    by (cases "ptrace w ''GETEVENTMSG'' (j_pid job process) s")
  obtain ok2 s2 where p2: "ptrace w ''DETACH'' (j_pid job process) s1 = (ok2, s2)"
    by (cases "ptrace w ''DETACH'' (j_pid job process) s1")
  obtain ok3 s3 where p3: "ptrace w ''SETOPTIONS'' (j_pid ?job process) s2 = (ok3, s3)"
    by (cases "ptrace w ''SETOPTIONS'' (j_pid ?job process) s2")
  have t: "tame s s1" "tame s s3"
    using ptrace_tame [OF p1] ptrace_tame [OF p2] ptrace_tame [OF p3] tame_trans by blast+
  have d3: "on_duty w R s3 cls ?job" using on_duty_follow [OF duty _ t(2)] True child by blast
  have "event_steady w R cls s3 ?job (Some (s3, Some ?job))" by (rule stays [OF d3]) simp_all
  moreover have "event_steady w R cls s3 ?job (job_process_trace_new_child w process s3 ?job)"
    by (rule job_process_trace_new_child_steady [OF d3]) simp_all
  ultimately have "event_steady w R cls s job (if ok3 then job_process_trace_new_child w process s3 ?job else Some (s3, Some ?job))"
    using event_steady_calm [of s s3 w R cls ?job] t(2) by (simp add: tame_def)
  moreover have "job_process_trace_fork w process s job = (if \<not> ok1 then Some (s1, Some job)
      else if ok3 then job_process_trace_new_child w process s3 ?job else Some (s3, Some ?job))"
    using True p1 p2 p3 by (simp add: job_process_trace_fork_def)
  ultimately show ?thesis using stays [OF duty t(1), of job] by auto
qed

lemma handle_child_steady:
  assumes duty: "on_duty w R s cls job" and alive: "j_pid job process > 0"
    and child: "\<forall>n. os_ptrace_msg w n > 0"
    and event: "event = NIH_CHILD_PTRACE \<longrightarrow> status \<in> {PTRACE_EVENT_FORK, PTRACE_EVENT_EXEC}"
  shows "event_steady w R cls s job (handle_child w process event status s job)"
proof -
  note d = on_dutyD [OF duty]
  have ended: "event_steady w R cls s job (job_process_terminated w process x False s job)" for x
    using job_process_terminated_steady [OF d(1-5) alive] by (auto simp: event_steady_def)
  have none: "event_steady w R cls s job (Some (s, Some job))" by (rule stays [OF duty]) simp_all
  have new: "event_steady w R cls s job (map_option (apsnd Some) (job_process_trace_new w process s job))"
    if "j_trace_state job = TRACE_NEW"
    using job_process_trace_new_steady [of s s job job w process] that stays [OF duty] by auto
  have child: "event_steady w R cls s job (job_process_trace_new_child w process s job)"
    if "j_trace_state job = TRACE_NEW_CHILD"
    using job_process_trace_new_child_steady [OF duty, of s job] that by simp
  show ?thesis
    using ended none new child job_process_stopped_steady [OF duty] job_process_trace_signal_steady [OF duty]
      job_process_trace_fork_steady [OF duty assms(3)] job_process_trace_exec_steady [OF duty] event
    by (cases event) (auto simp: handle_child_def)
qed

section \<open>The limit on respawning\<close>

text \<open>The decision, as a function of the time.\<close>

definition runaway_step :: "JobClass \<Rightarrow> int \<Rightarrow> int \<times> int \<Rightarrow> (int \<times> int) option" where
  "runaway_step cls now = (\<lambda>(since, count).
     if now - since < c_respawn_interval cls
     then (if count + 1 > c_respawn_limit cls then None else Some (since, count + 1))
     else Some (now, 1))"

lemma job_process_catch_runaway_eq:
  assumes "class_of s job = Some cls" and "c_respawn_limit cls \<noteq> 0" and "c_respawn_interval cls \<noteq> 0"
    and "job_process_catch_runaway w s job = Some (False, s', job')"
  shows "runaway_step cls (os_now w (s_calls s)) (j_respawn_time job, j_respawn_count job) =
      Some (j_respawn_time job', j_respawn_count job')"
    and "s_calls s' = s_calls s + 1" and "class_of s' job' = Some cls"
  using assms
  by (auto simp: job_process_catch_runaway_def runaway_step_def call_def Let_def class_of_def split: if_splits)

text \<open>A number of respawns, none of which is too fast.\<close>

fun respawns :: "os \<Rightarrow> nat \<Rightarrow> sys \<Rightarrow> Job \<Rightarrow> (sys \<times> Job) option" where
  "respawns w 0 s job = Some (s, job)"
| "respawns w (Suc n) s job = do {
     (runaway, s, job) \<leftarrow> job_process_catch_runaway w s job;
     if runaway then None else respawns w n s job
   }"

text \<open>A new window is opened when the limit leaves no more respawns for the old one.\<close>

lemma respawns_first_reset:
  assumes "respawns w n s job = Some res" and "class_of s job = Some cls"
    and "c_respawn_limit cls > 0" and "c_respawn_interval cls > 0"
    and "int n > c_respawn_limit cls - j_respawn_count job" and "j_respawn_count job \<le> c_respawn_limit cls"
  shows "\<exists>k s1 job1. k < n \<and> int k \<le> c_respawn_limit cls - j_respawn_count job \<and>
    os_now w (s_calls s + k) - j_respawn_time job \<ge> c_respawn_interval cls \<and>
    respawns w (n - Suc k) s1 job1 = Some res \<and> s_calls s1 = s_calls s + Suc k \<and>
    class_of s1 job1 = Some cls \<and> j_respawn_time job1 = os_now w (s_calls s + k) \<and> j_respawn_count job1 = 1"
  using assms
proof (induction n arbitrary: s job)
  case 0
  then show ?case by simp
next
  case (Suc n)
  obtain s1 job1 where step: "job_process_catch_runaway w s job = Some (False, s1, job1)"
    and rest: "respawns w n s1 job1 = Some res"
    using Suc.prems(1) by (auto split: if_splits elim!: bind_eq_Some_E)
  note eq = job_process_catch_runaway_eq [OF Suc.prems(2) _ _ step]
  show ?case
  proof (cases "os_now w (s_calls s) - j_respawn_time job < c_respawn_interval cls")
    case True
    then have one: "j_respawn_time job1 = j_respawn_time job" "j_respawn_count job1 = j_respawn_count job + 1"
      "j_respawn_count job + 1 \<le> c_respawn_limit cls"
      using eq(1) Suc.prems(3,4) by (auto simp: runaway_step_def split: if_splits)
    obtain k s2 job2 where "k < n" "int k \<le> c_respawn_limit cls - j_respawn_count job1"
      "os_now w (s_calls s1 + k) - j_respawn_time job1 \<ge> c_respawn_interval cls"
      "respawns w (n - Suc k) s2 job2 = Some res" "s_calls s2 = s_calls s1 + Suc k" "class_of s2 job2 = Some cls"
      "j_respawn_time job2 = os_now w (s_calls s1 + k)" "j_respawn_count job2 = 1"
      using Suc.IH [OF rest] eq Suc.prems(3-) one by auto
    then show ?thesis
      using one eq(2) Suc.prems(3,4) by (intro exI [of _ "Suc k"] exI [of _ s2] exI [of _ job2]) auto
  next
    case False
    then have "j_respawn_time job1 = os_now w (s_calls s)" "j_respawn_count job1 = 1"
      using eq(1) Suc.prems(3,4) by (auto simp: runaway_step_def)
    then show ?thesis
      using False rest eq(2,3) Suc.prems(3-) by (intro exI [of _ 0] exI [of _ s1] exI [of _ job1]) auto
  qed
qed

section \<open>Stopping, exactly\<close>

lemma job_enters_stopping:
  assumes ok: "job_ok R s cls job" and blk: "j_blocker job = None"
    and enter: "may_enter (j_state job) (j_goal job) JOB_STOPPING" and "j_state job \<noteq> JOB_STOPPING"
  shows "\<exists>s' i. job_change_state w JOB_STOPPING s job =
      Some (s', Some (job\<lparr>j_state := JOB_STOPPING, j_blocker := Some i\<rparr>))"
proof -
  let ?job = "job\<lparr>j_state := JOB_STOPPING\<rparr>"
  let ?s = "send_conns (\<lambda>conn. StateChanged conn (j_path ?job) (job_state_name JOB_STOPPING)) s"
  have ok0: "job_ok R ?s cls ?job" by (rule job_ok_tame [OF ok]) simp_all
  then have cls: "class_of ?s ?job = Some cls" "fresh_ok ?s" by (auto simp: job_ok_def)
  obtain i s' where ev: "job_emit_event w ?s ?job = Some (i, s')"
    using job_emit_event_ok [OF cls, of w] by auto
  have "enter_state w JOB_STOPPING s job = Some (JOB_STOPPING, s', Some (?job\<lparr>j_blocker := Some i\<rparr>))"
    using ev enter cls by (simp add: enter_state_def enter_action_def enter_stopping_def)
  then have "job_change_state w JOB_STOPPING s job = job_change_state w JOB_STOPPING s' (?job\<lparr>j_blocker := Some i\<rparr>)"
    using assms(2,4) by (subst job_change_state.simps) simp
  also have "\<dots> = Some (s', Some (?job\<lparr>j_blocker := Some i\<rparr>))"
    by (subst job_change_state.simps) simp
  finally show ?thesis by blast
qed

lemma change_to_next_stopping:
  assumes ok: "job_ok R s cls job" and blk: "j_blocker job = None" and st: "j_state job = JOB_RUNNING"
    and "j_goal job = JOB_START \<or> j_goal job = JOB_STOP \<and> j_pid job PROCESS_MAIN \<le> 0"
  shows "\<exists>s' i. change_to_next w s job = Some (s', Some (job\<lparr>j_state := JOB_STOPPING, j_blocker := Some i\<rparr>))"
proof -
  have cls: "class_of s job = Some cls" using ok by (simp add: job_ok_def)
  have "job_next_state s job = Some (JOB_STOPPING, s, job)"
    using assms(4) st cls by (auto simp: job_next_state_def main_running_def)
  then show ?thesis
    using job_enters_stopping [OF ok blk] assms(4) st by (auto simp: change_to_next_def)
qed

lemma stop_goal_stopping:
  assumes ok: "job_ok R s cls job" and blk: "j_blocker job = None" and st: "j_state job = JOB_RUNNING"
    and "j_goal job = JOB_START" and "j_pid job PROCESS_MAIN \<le> 0"
  shows "\<exists>s' i. job_change_goal w JOB_STOP s job =
      Some (s', Some (job\<lparr>j_goal := JOB_STOP, j_state := JOB_STOPPING, j_blocker := Some i\<rparr>))"
proof -
  let ?job = "job\<lparr>j_goal := JOB_STOP\<rparr>"
  obtain s1 where s1: "set_goal JOB_STOP s job = (s1, ?job)" "tame s s1"
    using assms(4) by (simp add: set_goal_def)
  have "job_ok R s1 cls ?job" by (rule job_ok_tame [OF ok s1(2)]) simp_all
  then obtain s' i where "change_to_next w s1 ?job = Some (s', Some (?job\<lparr>j_state := JOB_STOPPING, j_blocker := Some i\<rparr>))"
    using change_to_next_stopping [of R s1 cls ?job w] blk st assms(5) by auto
  then show ?thesis using s1(1) assms(4) st by (auto simp: job_change_goal_def change_to_next_def)
qed

lemma job_failed_flag: "job_failed process status s job = Some (s', job') \<Longrightarrow> j_failed job'"
  by (auto simp: job_failed_def job_finished_def Let_def split: if_splits elim!: bind_eq_Some_E)

text \<open>A running job with a main process that is gone, as the theorem below describes it.\<close>

definition main_gone :: "JobGoal \<Rightarrow> bool \<Rightarrow> Job \<Rightarrow> bool" where
  "main_gone goal failed job \<longleftrightarrow> j_state job = JOB_STOPPING \<and> j_blocker job \<noteq> None \<and>
     j_pid job PROCESS_MAIN = 0 \<and> j_goal job = goal \<and> j_failed job = failed"

lemma finish_stop:
  assumes ok: "job_ok R s cls job" and between: "between_calls job" and st: "j_state job = JOB_RUNNING"
  shows "\<exists>s' job'. terminated_finish w PROCESS_MAIN status False (outcome f True True) s job = Some (s', Some job') \<and>
    main_gone JOB_STOP (j_failed job \<or> f) job'"
proof -
  let ?job = "clear PROCESS_MAIN job"
  obtain s1 job1 where f: "(if f then job_failed PROCESS_MAIN status s ?job else Some (s, ?job)) = Some (s1, job1)"
    "job_ok R s1 cls job1" "same_run ?job job1" "j_failed job1 = (j_failed job \<or> f)"
    using job_failed_run [OF job_ok_clear [OF ok], of PROCESS_MAIN status PROCESS_MAIN] job_ok_clear [OF ok, of PROCESS_MAIN]
      job_failed_flag [of PROCESS_MAIN status s ?job]
    by (cases f) (auto simp: clear_def)
  have "j_blocker job1 = None" "j_state job1 = JOB_RUNNING" "j_goal job1 = JOB_START" "j_pid job1 PROCESS_MAIN = 0"
    using f(3) between st by (auto simp: same_run_def between_calls_def at_rest_def)
  then obtain s2 i where stop: "job_change_goal w JOB_STOP s1 job1 =
      Some (s2, Some (job1\<lparr>j_goal := JOB_STOP, j_state := JOB_STOPPING, j_blocker := Some i\<rparr>))" (is "_ = Some (s2, Some ?job2)")
    using stop_goal_stopping [OF f(2), of w] by auto
  have "go_on w True s2 ?job2 = Some (s2, Some ?job2)"
    by (simp add: go_on_def change_to_next_blocked)
  then have "terminated_finish w PROCESS_MAIN status False (outcome f True True) s job = Some (s2, Some ?job2)"
    using terminated_finish_run [OF between, of "outcome f True True"] f(1) stop by (simp add: outcome_def)
  then show ?thesis using f(4) \<open>j_pid job1 PROCESS_MAIN = 0\<close> by (auto simp: main_gone_def)
qed

lemma finish_respawn:
  assumes ok: "job_ok R s cls job" and between: "between_calls job" and st: "j_state job = JOB_RUNNING"
  shows "\<exists>s' job'. terminated_finish w PROCESS_MAIN status False (outcome False False True) s job = Some (s', Some job') \<and>
    main_gone JOB_START (j_failed job) job'"
proof -
  let ?job = "clear PROCESS_MAIN job"
  have "j_blocker ?job = None" "j_goal ?job = JOB_START"
    using between st by (auto simp: between_calls_def at_rest_def)
  then obtain s1 i where "change_to_next w s ?job = Some (s1, Some (?job\<lparr>j_state := JOB_STOPPING, j_blocker := Some i\<rparr>))"
    using change_to_next_stopping [OF job_ok_clear [OF ok, of PROCESS_MAIN], of w] st by auto
  then have "terminated_finish w PROCESS_MAIN status False (outcome False False True) s job =
      Some (s1, Some (?job\<lparr>j_state := JOB_STOPPING, j_blocker := Some i\<rparr>))"
    using terminated_finish_run [OF between, of "outcome False False True"] by (simp add: outcome_def go_on_def)
  then show ?thesis using \<open>j_goal ?job = JOB_START\<close> by (auto simp: main_gone_def clear_def)
qed

section \<open>Properties\<close>

definition sample_respawn :: JobClass where
  "sample_respawn = sample_main\<lparr>c_respawn := True\<rparr>"

definition sample_respawn_state :: sys where
  "sample_respawn_state = sample_state\<lparr>s_classes := [1 \<mapsto> sample_respawn]\<rparr>"

lemma sample_tracked: "tracked sample_os sample_main JOB_RUNNING sample_run"
  by (auto simp: tracked_def sample_run_def sample_job_def wanted_def has_process_def sample_main_def)

lemma sample_on_duty: "on_duty sample_os (\<lambda>_. 0) sample_state sample_main sample_run"
  using sample_run_ok sample_os_ok sample_running(1) sample_tracked by (simp add: on_duty_def)

lemma sample_alive: "j_pid sample_run PROCESS_MAIN > 0"
  by (simp add: sample_run_def sample_job_def)

text \<open>the handler of the events of a process (exits, kills, stops, signals under trace, forks and
  execs) never aborts for a job that is on duty, whatever happens to which of its processes in
  which of its states: the job ends at rest or freed, its references to events are still
  counted, and only processes that its new state expects are alive. That is also what lets the
  next event be handled.\<close>

theorem handle_child_settles:
  assumes "on_duty w R s cls job" and "j_pid job process > 0" and "\<forall>n. os_ptrace_msg w n > 0"
    and "event = NIH_CHILD_PTRACE \<longrightarrow> status \<in> {PTRACE_EVENT_FORK, PTRACE_EVENT_EXEC}"
  shows "\<exists>s' r goal. handle_child w process event status s job = Some (s', r) \<and>
    settled R cls s (job\<lparr>j_goal := goal\<rparr>) s' r \<and>
    (\<forall>job'. r = Some job' \<longrightarrow> on_duty w R s' cls job')"
proof -
  obtain s' r goal where run: "handle_child w process event status s job = Some (s', r)"
    and steady: "steady w R cls s (job\<lparr>j_goal := goal\<rparr>) s' r"
    using handle_child_steady [OF assms] by (auto simp: event_steady_def)
  have "on_duty w R s' cls job'" if "r = Some job'" for job'
    using that steady on_dutyD [OF assms(1)] placed_calm [of s s' job' job R cls] at_rest_not_waiting
    by (auto simp: steady_def settled_def on_duty_def)
  then show ?thesis using run steady by (auto simp: steady_def)
qed

theorem handle_child_settles_witness:
  "\<exists>s' r. handle_child (sample_os\<lparr>os_ptrace_msg := \<lambda>_. 43\<rparr>) PROCESS_MAIN NIH_CHILD_EXITED 1 sample_state sample_run = Some (s', r)"
proof -
  have "on_duty (sample_os\<lparr>os_ptrace_msg := \<lambda>_. 43\<rparr>) (\<lambda>_. 0) sample_state sample_main sample_run"
    using sample_on_duty by (simp add: on_duty_def os_ok_def tracked_def wanted_def)
  from handle_child_settles [OF this sample_alive, of NIH_CHILD_EXITED 1] show ?thesis by auto
qed

text \<open>C12: the end of the main process of a running job. Its exit is a failure unless the status is one
  of the normal exits (by default 0, and none for a respawned service). A failure of a job that is
  respawned and not running away leaves the goal at start, so that the job starts again after it
  stopped; otherwise the goal becomes stop. In all cases the job goes to stopping, blocked by the
  event it emitted, and the process is forgotten.\<close>

theorem main_process_exit:
  assumes duty: "on_duty w R s cls job" and st: "j_state job = JOB_RUNNING"
  shows "\<exists>runaway s0 job0 s' job'. job_process_catch_runaway w s job = Some (runaway, s0, job0) \<and>
    job_process_terminated w PROCESS_MAIN status False s job = Some (s', Some job') \<and>
    (if main_failed cls status \<and> c_respawn cls \<and> \<not> s_disable_respawn s \<and> \<not> runaway
     then main_gone JOB_START (j_failed job) job'
     else main_gone JOB_STOP (j_failed job \<or> main_failed cls status) job')"
proof -
  note d = on_dutyD [OF duty]
  have cls: "class_of s job = Some cls" and goal: "j_goal job = JOB_START" and moves: "main_moves cls job"
    using d(1,4) st by (auto simp: job_ok_def between_calls_def main_moves_def)
  obtain runaway s0 job0 where c: "job_process_catch_runaway w s job = Some (runaway, s0, job0)" "tame s s0"
    "same_run job job0" "j_blocking job0 = j_blocking job"
    using job_process_catch_runaway_ok [OF cls] by blast
  have ok0: "job_ok R s0 cls job0" and between0: "between_calls job0" and st0: "j_state job0 = JOB_RUNNING"
    using c(3,4) st same_run_between [OF c(3) d(4)]
    by (auto simp: same_run_def intro: job_ok_tame [OF d(1) c(2)])
  have failed0: "j_failed job0 = j_failed job"
    using c(1) cls by (auto simp: job_process_catch_runaway_def Let_def call_def split: if_splits)
  have run: "job_process_terminated w PROCESS_MAIN status False s job =
      Option.bind (terminated_main w status s job) (\<lambda>(out, s, job). terminated_finish w PROCESS_MAIN status False out s job)"
    using st by (simp add: job_process_terminated_def terminated_switch_def)
  consider "\<not> main_failed cls status \<or> \<not> c_respawn cls \<or> s_disable_respawn s"
    | "main_failed cls status" "c_respawn cls" "\<not> s_disable_respawn s" "runaway"
    | "main_failed cls status" "c_respawn cls" "\<not> s_disable_respawn s" "\<not> runaway" by blast
  then show ?thesis
  proof cases
    case 1
    then have "terminated_main w status s job = Some (outcome (main_failed cls status) True True, s, job)"
      using cls st goal moves by (auto simp: terminated_main_def)
    then show ?thesis using finish_stop [OF d(1,4) st, of w status "main_failed cls status"] run 1 c(1) by auto
  next
    case 2
    obtain s2 job2 where f: "job_failed PROCESS_INVALID 0 s0 job0 = Some (s2, job2)" "job_ok R s2 cls job2" "same_run job0 job2"
      using job_failed_run [OF ok0] by blast
    have "terminated_main w status s job = Some (outcome False True True, s2, job2)"
      using 2 cls st goal moves c(1) f(1) by (simp add: terminated_main_def)
    moreover have "between_calls job2" "j_state job2 = JOB_RUNNING" "j_failed job2"
      using same_run_between [OF f(3) between0] f(3) st0 job_failed_flag [OF f(1)] by (auto simp: same_run_def)
    ultimately show ?thesis using finish_stop [OF f(2), of w status False] run 2 c(1) by auto
  next
    case 3
    then have "terminated_main w status s job = Some (outcome False False True, s0, job0)"
      using cls st goal moves c(1) st0 by (simp add: terminated_main_def respawn_main_def)
    then show ?thesis using finish_respawn [OF ok0 between0 st0, of w status] run 3 c(1) failed0 by auto
  qed
qed

theorem main_process_exit_witness:
  "\<exists>s' job'. job_process_terminated sample_os PROCESS_MAIN 0 False sample_state sample_run = Some (s', Some job') \<and>
     main_gone JOB_STOP False job'"
proof -
  have "\<not> main_failed sample_main 0" "\<not> j_failed sample_run"
    by (simp_all add: main_failed_def sample_main_def sample_class_def job_class_new_def sample_run_def sample_job_def)
  then show ?thesis using main_process_exit [OF sample_on_duty, of 0] by auto
qed

text \<open>C13: with a limit of \<open>n\<close> respawns in an interval, as many as \<open>2n + 1\<close> respawns in a row that
  are let through take at least the interval: the window restarts when the interval has passed,
  so that its last respawns and those of the next window can be close to each other.\<close>

theorem respawn_rate:
  assumes run: "respawns w (2 * n + 1) s job = Some res" and cls: "class_of s job = Some cls"
    and limit: "c_respawn_limit cls = int n" "n > 0" and interval: "c_respawn_interval cls > 0"
    and count: "0 \<le> j_respawn_count job" "j_respawn_count job \<le> int n"
    and clock: "mono (os_now w)"
  shows "os_now w (s_calls s + 2 * n) - os_now w (s_calls s) \<ge> c_respawn_interval cls"
proof -
  obtain k s1 job1 where one: "k < 2 * n + 1" "int k \<le> int n - j_respawn_count job"
    "respawns w (2 * n + 1 - Suc k) s1 job1 = Some res" "s_calls s1 = s_calls s + Suc k" "class_of s1 job1 = Some cls"
    "j_respawn_time job1 = os_now w (s_calls s + k)" "j_respawn_count job1 = 1"
    using respawns_first_reset [OF run cls] limit interval count by auto
  obtain k' where two: "int k' \<le> int n - 1"
    "os_now w (s_calls s1 + k') - j_respawn_time job1 \<ge> c_respawn_interval cls"
    using respawns_first_reset [OF one(3,5)] one(2,7) limit interval count by auto
  have "os_now w (s_calls s1 + k') \<le> os_now w (s_calls s + 2 * n)" "os_now w (s_calls s) \<le> os_now w (s_calls s + k)"
    using clock one(2,4) two(1) count by (auto intro!: monoD [OF clock])
  then show ?thesis using two(2) one(6) by simp
qed

theorem respawn_rate_witness:
  "os_now (sample_os\<lparr>os_now := \<lambda>n. 5 * int n\<rparr>) (s_calls sample_state + 2 * 1) -
     os_now (sample_os\<lparr>os_now := \<lambda>n. 5 * int n\<rparr>) (s_calls sample_state) \<ge> 5"
proof -
  let ?w = "sample_os\<lparr>os_now := \<lambda>n. 5 * int n\<rparr>"
  let ?s = "sample_state\<lparr>s_classes := [1 \<mapsto> sample_main\<lparr>c_respawn_limit := 1, c_respawn_interval := 5\<rparr>]\<rparr>"
  have "class_of ?s sample_run = Some (sample_main\<lparr>c_respawn_limit := 1, c_respawn_interval := 5\<rparr>)"
    by (simp add: class_of_def sample_run_def sample_job_def)
  moreover have "respawns ?w (2 * 1 + 1) ?s sample_run \<noteq> None"
    by (simp add: numeral_3_eq_3 job_process_catch_runaway_def class_of_def call_def sample_run_def sample_job_def
      sample_state_def sample_sys_def sys_init_def Let_def)
  ultimately show ?thesis
    using respawn_rate [of ?w 1 ?s sample_run]
    by (auto simp: sample_run_def sample_job_def mono_def)
qed

text \<open>C14: a job whose security process could not be set up is stuck when that is noticed before the
  process ends: its goal is changed to stop but its state stays, with no process alive and no
  event to wait for, and the job is not found by the process id any more.\<close>

theorem security_error_stuck:
  assumes duty: "on_duty w R s cls job" and st: "j_state job = JOB_SECURITY"
  shows "\<exists>s' job'. job_child_error_handler w PROCESS_SECURITY s job = Some (s', Some job') \<and>
    j_goal job' = JOB_STOP \<and> j_state job' = JOB_SECURITY \<and> j_blocker job' = None \<and>
    (\<forall>p. j_pid job' p \<le> 0) \<and> \<not> at_rest job'"
proof -
  note d = on_dutyD [OF duty]
  let ?job = "job\<lparr>j_pid := (j_pid job)(PROCESS_SECURITY := 0)\<rparr>"
  have ok: "job_ok R s cls ?job" by (rule job_ok_tame [OF d(1) tame_refl]) simp_all
  have pids: "j_pid ?job p \<le> 0" for p
    using d(5) st not_less [of 0 "j_pid job p"] by (cases "p = PROCESS_SECURITY") (auto simp: tracked_def)
  obtain s1 job1 where f: "job_failed PROCESS_SECURITY (-1) s ?job = Some (s1, job1)" "same_run ?job job1"
    using job_failed_run [OF ok] by blast
  then have job1: "j_state job1 = JOB_SECURITY" "j_blocker job1 = None" "j_pid job1 = j_pid ?job"
    using st d(4) by (auto simp: same_run_def between_calls_def at_rest_def)
  then obtain s2 where "job_change_goal w JOB_STOP s1 job1 = Some (s2, Some (job1\<lparr>j_goal := JOB_STOP\<rparr>))"
    by (cases "j_goal job1 = JOB_STOP") (auto simp: job_change_goal_def set_goal_def)
  then have "job_child_error_handler w PROCESS_SECURITY s job = Some (s2, Some (job1\<lparr>j_goal := JOB_STOP\<rparr>))"
    using f(1) by (simp add: job_child_error_handler_def)
  then show ?thesis using job1 pids by (auto simp: at_rest_def)
qed

definition sample_security :: Job where
  "sample_security = (sample_job JOB_START JOB_SECURITY)\<lparr>j_pid := (\<lambda>_. 0)(PROCESS_SECURITY := 42)\<rparr>"

definition sample_profile :: JobClass where
  "sample_profile = sample_main\<lparr>c_process := [PROCESS_SECURITY \<mapsto> \<lparr>p_script = False, p_command = Some ''load''\<rparr>]\<rparr>"

theorem security_error_stuck_witness:
  "\<exists>s' job'. job_child_error_handler (sample_os\<lparr>os_apparmor := \<lambda>_. True\<rparr>) PROCESS_SECURITY
     (sample_state\<lparr>s_classes := [1 \<mapsto> sample_profile]\<rparr>) sample_security = Some (s', Some job') \<and>
     j_goal job' = JOB_STOP \<and> \<not> at_rest job'"
proof -
  have "on_duty (sample_os\<lparr>os_apparmor := \<lambda>_. True\<rparr>) (\<lambda>_. 0) (sample_state\<lparr>s_classes := [1 \<mapsto> sample_profile]\<rparr>)
      sample_profile sample_security"
    using sample_os_ok
    by (auto simp: on_duty_def job_ok_def placed_def os_ok_def sample_state_def sample_sys_def sample_security_def sample_job_def
      sample_profile_def sample_main_def sample_class_def job_class_new_def class_of_def class_ok_def cond_ok_def
      blocking_ok_def fresh_ok_def sys_init_def event_ids_def counted_def blockers_of_def job_refs_def cond_refs_def
      blocked_refs_def JOB_DEFAULT_KILL_TIMEOUT_def table_ok_def class_name_def class_refs_def between_calls_def
      at_rest_def quiet_def tracked_def wanted_def has_process_def split: if_splits)
  moreover have "j_state sample_security = JOB_SECURITY" by (simp add: sample_security_def)
  ultimately show ?thesis using security_error_stuck by blast
qed

lemma job_process_kill_zero:
  assumes "class_of s job = Some cls" and "c_kill_timeout cls = 0" and "\<forall>n. os_kill w n"
  shows "job_process_kill w process s job = None"
  using assms by (auto simp: job_process_kill_def system_kill_def job_process_set_kill_timer_def call_def Let_def
    nih_assert_def)

text \<open>C15: the kill timeout of a class may be set to 0, but then stopping a job with a main process that
  runs, once the event that announces it is finished, runs into an assertion: the signal is sent,
  and the daemon aborts when it is to arm the timer.\<close>

theorem kill_timeout_zero_aborts:
  assumes "class_of s job = Some cls" and "c_kill_timeout cls = 0" and "\<forall>n. os_kill w n"
    and "j_state job = JOB_STOPPING" and "j_blocker job = None" and "main_running cls job"
  shows "job_change_state w JOB_KILLED s job = None"
proof -
  let ?job = "job\<lparr>j_state := JOB_KILLED\<rparr>"
  let ?s = "send_conns (\<lambda>conn. StateChanged conn (j_path ?job) (job_state_name JOB_KILLED)) s"
  have cls: "class_of ?s ?job = Some cls" using assms(1) by (simp add: class_of_def send_conns_def send_def)
  have "job_process_kill w PROCESS_MAIN ?s ?job = None" by (rule job_process_kill_zero [OF cls assms(2,3)])
  then have "enter_state w JOB_KILLED s job = None"
    using cls assms(4,6) by (simp add: enter_state_def enter_action_def enter_killed_def main_running_def)
  then show ?thesis using assms(4,5) by (subst job_change_state.simps) simp
qed

theorem kill_timeout_zero_aborts_witness:
  "job_change_state (sample_os\<lparr>os_kill := \<lambda>_. True\<rparr>) JOB_KILLED
     (sample_state\<lparr>s_classes := [1 \<mapsto> sample_main\<lparr>c_kill_timeout := 0\<rparr>]\<rparr>) (sample_job JOB_STOP JOB_STOPPING) = None"
  by (rule kill_timeout_zero_aborts [where cls = "sample_main\<lparr>c_kill_timeout := 0\<rparr>"])
    (simp_all add: class_of_def sample_job_def main_running_def sample_main_def)

end
