(* ===== verification/JobEvents.thy ===== *)
theory JobEvents
  imports JobProcess
begin

text \<open>
  What the operations on a job do to the list of events: they add pending events at its end, of which
  at most one blocks the job, and change nothing of the others but the mark of failure and the
  count of blockers, which never grows. That frame, \<open>evolves\<close>, is what the invariant of the whole
  daemon (theory \<open>SysInv\<close>) needs beside the invariant of the job.
\<close>

section \<open>The frame\<close>

text \<open>What stays of an event.\<close>

definition core :: "Event \<Rightarrow> Event" where
  "core e = e\<lparr>e_blockers := 0, e_failed := False\<rparr>"

definition born :: "nat \<Rightarrow> nat option \<Rightarrow> nat \<Rightarrow> nat \<Rightarrow> Event \<Rightarrow> bool" where
  "born jid blk lo hi e \<longleftrightarrow> lo \<le> e_id e \<and> e_id e < hi \<and> e_progress e = EVENT_PENDING \<and>
     (\<forall>v\<in>set (e_env e). entry_valid v) \<and>
     e_blocking e = (if blk = Some (e_id e) then [blocked_new BLOCKED_JOB jid] else [])"

text \<open>Variables that no operation on a job changes.\<close>

definition globals :: "sys \<Rightarrow> string list option \<times> quiesce_vars" where
  "globals s = (s_job_environ s, s_quiesce s)"

lemma globals_simps [simp]:
  "globals (send out s) = globals s" "globals (set_events evs s) = globals s"
  "globals (s\<lparr>s_events := evs\<rparr>) = globals s" "globals (s\<lparr>s_next := n\<rparr>) = globals s"
  "globals (s\<lparr>s_calls := n\<rparr>) = globals s" "globals (s\<lparr>s_registered := reg\<rparr>) = globals s"
  "globals (s\<lparr>s_instances := inst\<rparr>) = globals s" "globals (s\<lparr>s_jobs := jobs\<rparr>) = globals s"
  "globals (s\<lparr>s_classes := cs\<rparr>) = globals s"
  by (simp_all add: globals_def send_def set_events_def)

definition grows :: "nat \<Rightarrow> nat option \<Rightarrow> sys \<Rightarrow> sys \<Rightarrow> bool" where
  "grows jid blk s s' \<longleftrightarrow> s_next s \<le> s_next s' \<and> globals s' = globals s \<and>
     (\<exists>new. map core (s_events s') = map core (s_events s) @ new \<and> distinct (map e_id new) \<and>
        (\<forall>e\<in>set new. born jid blk (s_next s) (s_next s') e) \<and>
        (\<forall>i. blk = Some i \<longrightarrow> i \<in> e_id ` set new))"

definition evolves :: "nat \<Rightarrow> nat option \<Rightarrow> sys \<Rightarrow> sys \<Rightarrow> bool" where
  "evolves jid blk s s' \<longleftrightarrow> grows jid blk s s' \<and>
     (\<forall>i. blockers_of (s_events s') i \<le> blockers_of (s_events s) i)"

text \<open>No event is added.\<close>

definition still :: "sys \<Rightarrow> sys \<Rightarrow> bool" where
  "still s s' \<longleftrightarrow> s_next s' = s_next s \<and> globals s' = globals s \<and> map core (s_events s') = map core (s_events s) \<and>
     (\<forall>i. blockers_of (s_events s') i \<le> blockers_of (s_events s) i)"

lemma still_refl [simp]: "still s s"
  by (simp add: still_def)

lemma still_trans: "still a b \<Longrightarrow> still b c \<Longrightarrow> still a c"
  by (auto simp: still_def intro: order_trans)

lemma still_evolves: "still s s' \<Longrightarrow> evolves jid None s s'"
  by (auto simp: still_def evolves_def grows_def)

lemma evolves_refl [simp]: "evolves jid None s s"
  by (simp add: still_evolves)

lemma growsE:
  assumes "grows jid blk s s'"
  obtains new where "map core (s_events s') = map core (s_events s) @ new" and "distinct (map e_id new)"
    and "\<And>e. e \<in> set new \<Longrightarrow> born jid blk (s_next s) (s_next s') e"
    and "\<And>i. blk = Some i \<Longrightarrow> i \<in> e_id ` set new"
    and "s_next s \<le> s_next s'" and "globals s' = globals s"
  using assms by (auto simp: grows_def)

lemma born_distinct:
  assumes "\<And>e. e \<in> set xs \<Longrightarrow> born jid p lo mid e" and "\<And>e. e \<in> set ys \<Longrightarrow> born jid q mid hi e"
    and "distinct (map e_id xs)" and "distinct (map e_id ys)"
  shows "distinct (map e_id (xs @ ys))"
  using assms by (fastforce simp: born_def)

lemma grows_trans:
  assumes "grows jid blk1 a b" and "grows jid blk2 b c" and "blk1 = None \<or> blk2 = None"
  shows "grows jid (case blk1 of None \<Rightarrow> blk2 | Some i \<Rightarrow> Some i) a c"
proof -
  let ?blk = "case blk1 of None \<Rightarrow> blk2 | Some i \<Rightarrow> Some i"
  obtain xs where xs: "map core (s_events b) = map core (s_events a) @ xs" "distinct (map e_id xs)"
      "\<And>e. e \<in> set xs \<Longrightarrow> born jid blk1 (s_next a) (s_next b) e" "\<And>i. blk1 = Some i \<Longrightarrow> i \<in> e_id ` set xs"
      "s_next a \<le> s_next b" "globals b = globals a"
    using growsE [OF assms(1)] by blast
  obtain ys where ys: "map core (s_events c) = map core (s_events b) @ ys" "distinct (map e_id ys)"
      "\<And>e. e \<in> set ys \<Longrightarrow> born jid blk2 (s_next b) (s_next c) e" "\<And>i. blk2 = Some i \<Longrightarrow> i \<in> e_id ` set ys"
      "s_next b \<le> s_next c" "globals c = globals b"
    using growsE [OF assms(2)] by blast
  have lo: "\<And>i. blk1 = Some i \<Longrightarrow> i < s_next b" using xs(3,4) by (auto simp: born_def)
  have hi: "\<And>i. blk2 = Some i \<Longrightarrow> s_next b \<le> i" using ys(3,4) by (auto simp: born_def)
  have "born jid ?blk (s_next a) (s_next c) e" if "e \<in> set (xs @ ys)" for e
    using that xs(3) [of e] ys(3) [of e] lo hi xs(5) ys(5) assms(3)
    by (auto simp: born_def split: option.splits)
  moreover have "distinct (map e_id (xs @ ys))" using born_distinct [OF xs(3) ys(3) xs(2) ys(2)] by blast
  moreover have "i \<in> e_id ` set (xs @ ys)" if "?blk = Some i" for i
    using that xs(4) ys(4) by (auto split: option.splits)
  moreover have "map core (s_events c) = map core (s_events a) @ (xs @ ys)" using xs(1) ys(1) by simp
  ultimately show ?thesis using xs(5,6) ys(5,6) unfolding grows_def by (metis order_trans)
qed

lemma evolves_trans:
  assumes "evolves jid blk1 a b" and "evolves jid blk2 b c" and "blk1 = None \<or> blk2 = None"
  shows "evolves jid (case blk1 of None \<Rightarrow> blk2 | Some i \<Rightarrow> Some i) a c"
  using assms grows_trans order_trans unfolding evolves_def by blast

lemma still_then: "still a b \<Longrightarrow> evolves jid blk b c \<Longrightarrow> evolves jid blk a c"
  using evolves_trans [OF still_evolves, of a b jid blk c] by simp

lemma then_still: "evolves jid blk a b \<Longrightarrow> still b c \<Longrightarrow> evolves jid blk a c"
  using evolves_trans [OF _ still_evolves, of jid blk a b c] by (cases blk) auto

lemma core_id [simp]: "e_id (core e) = e_id e"
  by (simp add: core_def)

lemma map_core_ids: "map e_id evs = map e_id (map core evs)"
  by simp

lemma evolves_fresh:
  assumes "evolves jid blk s s'" and "fresh_ok s"
  shows "fresh_ok s'"
  using assms(1) [unfolded evolves_def, THEN conjunct1]
proof (rule growsE)
  fix new
  assume new: "map core (s_events s') = map core (s_events s) @ new" "s_next s \<le> s_next s'"
    "\<And>e. e \<in> set new \<Longrightarrow> born jid blk (s_next s) (s_next s') e"
  have "e_id ` set (s_events s') = e_id ` core ` set (s_events s')" by (simp add: image_comp comp_def)
  also have "\<dots> = e_id ` (core ` set (s_events s) \<union> set new)" using arg_cong [OF new(1), of set] by simp
  also have "\<dots> = e_id ` set (s_events s) \<union> e_id ` set new" by (simp add: image_Un image_comp comp_def)
  finally show ?thesis using new assms(2) by (fastforce simp: fresh_ok_def event_ids_def born_def)
qed

section \<open>Operations that add no event\<close>

lemma foldM_rel:
  assumes "foldM f xs s = Some s'" and "\<And>x t t'. f x t = Some t' \<Longrightarrow> P t t'"
    and "\<And>t. P t t" and "\<And>a b c. P a b \<Longrightarrow> P b c \<Longrightarrow> P a c"
  shows "P s s'"
  using assms(1) by (induction xs arbitrary: s) (auto elim!: bind_eq_Some_E intro: assms(2-4))

lemma still_same: "s_events s' = s_events s \<Longrightarrow> s_next s' = s_next s \<Longrightarrow> globals s' = globals s \<Longrightarrow> still s s'"
  by (simp add: still_def)

lemma still_send [simp]: "still s (send out s)" "still s (send_conns f s)"
  by (simp_all add: still_same send_conns_def)

lemma still_call: "call f s = (x, s') \<Longrightarrow> still s s'"
  by (auto simp: call_def still_same)

lemma event_upd_core: "(\<And>e. core (f e) = core e) \<Longrightarrow> map core (event_upd i f evs) = map core evs"
  by (simp add: event_upd_def)

lemma still_unblock:
  assumes "event_unblock i evs = Some evs'" and "map core evs = map core (s_events s)"
    and "blockers_of evs = blockers_of (s_events s)"
  shows "still s (set_events evs' s)"
proof -
  have evs': "evs' = event_upd i (\<lambda>e. e\<lparr>e_blockers := e_blockers e - 1\<rparr>) evs"
    using assms(1) by (simp add: event_unblock_Some_iff)
  have "map core evs' = map core (s_events s)" unfolding evs' assms(2) [symmetric]
    by (rule event_upd_core) (simp add: core_def)
  moreover have "blockers_of evs' j \<le> blockers_of (s_events s) j" for j
    unfolding assms(3) [symmetric] evs' by (auto simp: blockers_of_def event_get_upd split: option.splits)
  ultimately show ?thesis by (simp add: still_def) (simp add: set_events_def)
qed

lemma foldM_unblock_still:
  assumes "foldM event_unblock rs (s_events s) = Some evs'"
  shows "still s (set_events evs' s)"
  using assms
proof (induction rs arbitrary: s)
  case Nil
  then show ?case by (simp add: still_same set_events_def)
next
  case (Cons r rs)
  then obtain evs1 where 1: "event_unblock r (s_events s) = Some evs1" "foldM event_unblock rs evs1 = Some evs'"
    by (auto elim!: bind_eq_Some_E)
  have "still s (set_events evs1 s)" by (rule still_unblock [OF 1(1)]) simp_all
  moreover have "still (set_events evs1 s) (set_events evs' s)"
    using Cons.IH [of "set_events evs1 s"] 1(2) by (simp add: set_events_def)
  ultimately show ?case by (rule still_trans)
qed

lemma free_operators_unblock: "\<exists>rs. \<forall>evs. free_operators t evs = foldM event_unblock rs evs"
proof (induction t)
  case Leaf
  have "free_operators Leaf evs = foldM event_unblock [] evs" for evs by simp
  then show ?case by blast
next
  case (Node l a r)
  then obtain ls rs where "\<And>evs. free_operators l evs = foldM event_unblock ls evs"
    "\<And>evs. free_operators r evs = foldM event_unblock rs evs" by blast
  then have "free_operators (Node l a r) evs =
      foldM event_unblock ((case o_event a of None \<Rightarrow> [] | Some i \<Rightarrow> [i]) @ ls @ rs) evs" for evs
    by (cases "o_event a") (auto simp: event_operator_destroy_def foldM_append split: Option.bind_splits)
  then show ?case by blast
qed

lemma free_condition_still: "free_condition c s = Some s' \<Longrightarrow> still s s'"
proof (cases c)
  case (Some t)
  obtain rs where "\<And>evs. free_operators t evs = foldM event_unblock rs evs"
    using free_operators_unblock by blast
  then show "free_condition c s = Some s' \<Longrightarrow> still s s'"
    using foldM_unblock_still [of rs s] Some by (auto simp: free_condition_def elim!: bind_eq_Some_E)
qed (simp add: free_condition_def)

lemma finish_blocked_still: "finish_blocked failed job b s = Some s' \<Longrightarrow> still s s'"
proof (cases "b_type b = BLOCKED_EVENT")
  case True
  let ?f = "\<lambda>e. e\<lparr>e_failed := True\<rparr>"
  let ?evs = "if failed then event_upd (b_data b) ?f (s_events s) else s_events s"
  assume "finish_blocked failed job b s = Some s'"
  then obtain evs where "event_unblock (b_data b) ?evs = Some evs" "s' = set_events evs s"
    using True by (auto simp: finish_blocked_def elim!: bind_eq_Some_E)
  moreover have "map core ?evs = map core (s_events s)"
    by (auto intro!: event_upd_core [simplified] simp: core_def)
  moreover have "blockers_of ?evs = blockers_of (s_events s)"
    by (auto simp: fun_eq_iff blockers_of_def event_get_upd split: option.splits)
  ultimately show ?thesis using still_unblock by simp
next
  case False
  assume "finish_blocked failed job b s = Some s'"
  then show ?thesis
    using False by (cases "b_type b") (auto simp: finish_blocked_def reply_failed_def)
qed


lemma job_finished_still: "job_finished failed s job = Some (s', job') \<Longrightarrow> still s s' \<and> j_blocker job' = j_blocker job"
  by (auto simp: job_finished_def elim!: bind_eq_Some_E
    intro: foldM_rel [where P = still] finish_blocked_still still_trans)

lemma job_failed_still:
  assumes "job_failed process status s job = Some (s', job')"
  shows "still s s' \<and> j_blocker job' = j_blocker job"
proof (cases "j_failed job")
  case False
  then have "job_finished True (send_conns (\<lambda>conn. JobFailedSignal conn (j_path job) status) s)
      (job\<lparr>j_failed := True, j_failed_process := process, j_exit_status := status\<rparr>) = Some (s', job')"
    using assms by (simp add: job_failed_def Let_def)
  from job_finished_still [OF this] show ?thesis using still_trans [OF still_send(2)] by simp blast
qed (use assms in \<open>simp add: job_failed_def\<close>)

lemma job_process_start_still:
  "job_process_start w process s job = Some (s', job') \<Longrightarrow> still s s' \<and> j_blocker job' = j_blocker job"
  by (auto simp: job_process_start_def readyfd_setup_def job_process_readyfd_new_def send_def call_def still_def globals_def Let_def
    split: prod.splits if_splits elim!: bind_eq_Some_E)

lemma system_kill_still: "system_kill w pid signal s = Some (ok, s') \<Longrightarrow> still s s'"
  by (auto simp: system_kill_def call_def still_def Let_def split: prod.splits elim!: bind_eq_Some_E)

lemma job_process_kill_still:
  "job_process_kill w process s job = Some (s', job') \<Longrightarrow> still s s' \<and> j_blocker job' = j_blocker job"
  by (auto simp: job_process_kill_def job_process_set_kill_timer_def dest: system_kill_still
    split: if_splits elim!: bind_eq_Some_E)

lemma set_goal_still: "set_goal goal s job = (s', job') \<Longrightarrow> still s s' \<and> j_blocker job' = j_blocker job"
  by (auto simp: set_goal_def split: if_splits)

lemma job_next_state_still:
  "job_next_state s job = Some (st, s', job') \<Longrightarrow> still s s' \<and> j_blocker job' = j_blocker job"
  by (auto simp: job_next_state_def dest!: sym [of _ "set_goal _ _ _"] set_goal_still
    split: JobState.splits JobGoal.splits elim!: bind_eq_Some_E)

lemma job_next_state_id: "job_next_state s job = Some (st, s', job') \<Longrightarrow> j_id job' = j_id job"
  by (auto simp: job_next_state_def set_goal_def split: JobState.splits JobGoal.splits if_splits
    elim!: bind_eq_Some_E)

section \<open>The table of classes\<close>

lemma job_register_still: "job_register job conn signal s = Some s' \<Longrightarrow> still s s'"
  by (auto simp: job_register_def still_def Let_def split: if_splits elim!: bind_eq_Some_E)

lemma job_class_register_still: "job_class_register cid conn signal s = Some s' \<Longrightarrow> still s s'"
proof -
  assume "job_class_register cid conn signal s = Some s'"
  then obtain p jids where "foldM (\<lambda>jid s. do { job \<leftarrow> s_jobs s jid; job_register job conn signal s }) jids (send p s) = Some s'"
    by (cases signal) (auto simp: job_class_register_def Let_def send_send elim!: bind_eq_Some_E)
  then have "still (send p s) s'"
    by (rule foldM_rel) (auto elim!: bind_eq_Some_E dest: job_register_still intro: still_trans)
  then show ?thesis using still_trans still_send(1) by blast
qed

lemma job_class_unregister_still: "job_class_unregister cid conn s = Some s' \<Longrightarrow> still s s'"
  by (auto simp: job_class_unregister_def still_def Let_def elim!: bind_eq_Some_E)

lemma still_registered [simp]: "still s (s\<lparr>s_registered := reg\<rparr>)" "still s (s\<lparr>s_instances := inst\<rparr>)"
  by (simp_all add: still_same)

lemma job_class_add_still: "job_class_add c s = Some s' \<Longrightarrow> still s s'"
proof (cases c)
  case (Some cid)
  assume "job_class_add c s = Some s'"
  then have "foldM (\<lambda>conn. job_class_register cid conn True) (s_conns s)
      (s\<lparr>s_registered := s_registered s @ [cid]\<rparr>) = Some s'"
    using Some by (simp add: job_class_add_def)
  then have "still (s\<lparr>s_registered := s_registered s @ [cid]\<rparr>) s'"
    by (rule foldM_rel) (auto dest: job_class_register_still intro: still_trans)
  then show ?thesis using still_trans still_registered(1) by blast
qed (simp add: job_class_add_def)

lemma job_class_remove_still: "job_class_remove cid s = Some (r, s') \<Longrightarrow> still s s'"
proof (cases "class_instances s cid = []")
  case True
  assume "job_class_remove cid s = Some (r, s')"
  then have "foldM (job_class_unregister cid) (s_conns s)
      (s\<lparr>s_registered := removeAll cid (s_registered s)\<rparr>) = Some s'"
    using True by (auto simp: job_class_remove_def elim!: bind_eq_Some_E)
  then have "still (s\<lparr>s_registered := removeAll cid (s_registered s)\<rparr>) s'"
    by (rule foldM_rel) (auto dest: job_class_unregister_still intro: still_trans)
  then show ?thesis using still_trans still_registered(1) by blast
qed (auto simp: job_class_remove_def elim!: bind_eq_Some_E)

lemma job_class_reconsider_still: "job_class_reconsider cid s = Some (r, s') \<Longrightarrow> still s s'"
  by (auto simp: job_class_reconsider_def Let_def split: if_splits elim!: bind_eq_Some_E
    dest!: job_class_remove_still job_class_add_still) (blast intro: still_trans)

lemma job_free_still: "job_free job s = Some s' \<Longrightarrow> still s s'"
  by (auto simp: job_free_def elim!: bind_eq_Some_E dest!: free_condition_still) (simp add: still_def)

lemma class_free_still: "class_free cid s = Some s' \<Longrightarrow> still s s'"
proof -
  assume "class_free cid s = Some s'"
  then obtain cls :: JobClass and s1 s2 s3 where run:
    "foldM (\<lambda>jid s. do { job \<leftarrow> s_jobs s jid; job_free job s }) (class_instances s cid) s = Some s1"
    "free_condition (c_start_on cls) s1 = Some s2" "free_condition (c_stop_on cls) s2 = Some s3"
    "s' = s3\<lparr>s_classes := (s_classes s3)(cid := None), s_registered := removeAll cid (s_registered s3)\<rparr>"
    by (auto simp: class_free_def elim!: bind_eq_Some_E)
  have "still s s1" using run(1)
    by (rule foldM_rel) (auto elim!: bind_eq_Some_E dest: job_free_still intro: still_trans)
  moreover have "still s1 s3" using run(2,3) free_condition_still still_trans by blast
  moreover have "still s3 s'" using run(4) by (simp add: still_same)
  ultimately show ?thesis using still_trans by blast
qed

lemma leave_waiting_still: "leave_waiting s job = Some s' \<Longrightarrow> still s s'"
proof -
  assume "leave_waiting s job = Some s'"
  then obtain u s1 where s1: "job_class_reconsider (j_class job)
      (s\<lparr>s_instances := removeAll (j_id job) (s_instances s)\<rparr>) = Some (u, s1)"
    and rest: "(\<exists>s2. job_free job s1 = Some s2 \<and> class_free (j_class job) s2 = Some s') \<or>
      (\<exists>f. job_free job (send_conns f s1) = Some s')"
    by (fastforce simp: leave_waiting_def Let_def split: if_splits elim!: bind_eq_Some_E)
  have "still s s1" using job_class_reconsider_still [OF s1] still_registered(2) still_trans by blast
  moreover have "still s1 s'"
    using rest job_free_still class_free_still still_send(2) still_trans by blast
  ultimately show ?thesis by (rule still_trans)
qed

section \<open>Operations that emit an event\<close>

lemma job_emit_event_env_valid: "\<forall>v\<in>set (job_emit_event_env w cls job stop). entry_valid v"
proof -
  have add: "env_ok env \<Longrightarrow> env_ok (environ_add g r str env)" for g r str env
    by (rule environ_add_ok)
  have exp: "env_ok env \<Longrightarrow> env_ok (export_loop g je es env)" for g je es env
    by (induction es arbitrary: env) (auto intro: add split: option.splits)
  have "env_ok ([] :: string list)" by (simp add: env_ok_def)
  then have "env_ok (job_emit_event_env w cls job stop)"
    unfolding job_emit_event_env_def Let_def environ_set_def
    by (auto intro!: add exp split: option.splits)
  then show ?thesis by (simp add: env_ok_def)
qed


definition emitted_blocker :: "Job \<Rightarrow> nat \<Rightarrow> nat option" where
  "emitted_blocker job i = (if j_state job \<in> {JOB_STARTING, JOB_STOPPING} then Some i else None)"

lemma event_create_evolves:
  assumes "event_create name env s = Some (i, s')" and "fresh_ok s" and "\<forall>v\<in>set env. entry_valid v"
  shows "evolves jid None s s' \<and> i = s_next s \<and> s_next s' = Suc (s_next s) \<and>
    s_events s' = s_events s @ [\<lparr>e_id = i, e_name = name, e_env = env, e_fd = -1, e_progress = EVENT_PENDING,
       e_failed = False, e_blockers = 0, e_blocking = []\<rparr>]"
proof -
  have new: "s_next s \<notin> event_ids (s_events s)" using assms(2) by (auto simp: fresh_ok_def)
  let ?e = "\<lparr>e_id = i, e_name = name, e_env = env, e_fd = -1, e_progress = EVENT_PENDING,
     e_failed = False, e_blockers = 0, e_blocking = []\<rparr>"
  have s': "i = s_next s" "s' = send [MainLoopInterrupt] (s\<lparr>s_events := s_events s @ [?e], s_next := s_next s + 1\<rparr>)"
    using assms(1) by (auto simp: event_create_def event_new_def elim!: bind_eq_Some_E)
  have "blockers_of (s_events s @ [?e]) j = blockers_of (s_events s) j" for j
    using new s'(1) by (auto simp: blockers_of_def event_get_append event_get_Cons split: option.splits)
  moreover have "born jid None (s_next s) (Suc (s_next s)) (core ?e)"
    using assms(3) s'(1) by (simp add: born_def core_def)
  ultimately show ?thesis using s' by (auto simp: evolves_def grows_def)
qed

lemma job_emit_event_evolves:
  assumes "job_emit_event w s job = Some (i, s')" and "fresh_ok s"
  shows "evolves (j_id job) (emitted_blocker job i) s s'"
proof -
  let ?block = "j_state job \<in> {JOB_STARTING, JOB_STOPPING}"
  let ?f = "\<lambda>e. e\<lparr>e_blocking := e_blocking e @ [blocked_new BLOCKED_JOB (j_id job)]\<rparr>"
  obtain name stop cls s1 where run:
    "event_create name (job_emit_event_env w cls job stop) s = Some (i, s1)"
    "s' = (if ?block then set_events (event_upd i ?f (s_events s1)) s1 else s1)"
    using assms(1) by (cases "j_state job") (auto simp: job_emit_event_def Let_def elim!: bind_eq_Some_E)
  note ev = event_create_evolves [OF run(1) assms(2) job_emit_event_env_valid, of "j_id job"]
  show ?thesis
  proof (cases ?block)
    case False
    then show ?thesis using ev run(2) by (simp add: emitted_blocker_def)
  next
    case True
    obtain e where e: "s_events s1 = s_events s @ [e]" "e_id e = s_next s" "e_progress e = EVENT_PENDING"
      "e_blocking e = []" "\<forall>v\<in>set (e_env e). entry_valid v" "i = s_next s" "s_next s1 = Suc (s_next s)"
      using ev job_emit_event_env_valid by simp
    have "event_upd i ?f (s_events s) = s_events s"
      unfolding event_upd_def by (rule map_idI) (use assms(2) e(6) in \<open>auto simp: fresh_ok_def event_ids_def\<close>)
    then have evs: "s_events s' = s_events s @ [?f e]"
      using run(2) True e by (simp add: set_events_def event_upd_def)
    have "born (j_id job) (Some i) (s_next s) (Suc (s_next s)) (core (?f e))"
      using e by (simp add: born_def core_def)
    moreover have "blockers_of (s_events s') j = blockers_of (s_events s1) j" for j
      using run(2) True by (auto simp: set_events_def blockers_of_def event_get_upd split: option.splits)
    moreover have "s_next s' = Suc (s_next s)" using run(2) True e(7) by (simp add: set_events_def)
    moreover have "blockers_of (s_events s1) j \<le> blockers_of (s_events s) j" for j
      using ev by (auto simp: evolves_def)
    moreover have "globals s' = globals s" using run(2) ev by (simp add: evolves_def grows_def)
    ultimately show ?thesis using True evs e by (simp add: evolves_def grows_def emitted_blocker_def)
  qed
qed

text \<open>The operation may block the job by an event it emits, and then it ends.\<close>

definition moved :: "Job \<Rightarrow> sys \<Rightarrow> sys \<Rightarrow> Job \<Rightarrow> bool" where
  "moved job s s' job' \<longleftrightarrow> evolves (j_id job) (j_blocker job') s s' \<and> j_id job' = j_id job"

lemma movedI: "still s s' \<Longrightarrow> j_blocker job' = None \<Longrightarrow> j_id job' = j_id job \<Longrightarrow> moved job s s' job'"
  by (simp add: moved_def still_evolves)

lemma still_moved: "still s s1 \<Longrightarrow> moved job s1 s' job' \<Longrightarrow> moved job s s' job'"
  using still_then by (auto simp: moved_def)

lemma job_process_start_id: "job_process_start w process s job = Some (s', job') \<Longrightarrow> j_id job' = j_id job"
  by (auto simp: job_process_start_def Let_def split: prod.splits elim!: bind_eq_Some_E)

lemma job_process_kill_id: "job_process_kill w process s job = Some (s', job') \<Longrightarrow> j_id job' = j_id job"
  by (auto simp: job_process_kill_def job_process_set_kill_timer_def split: if_splits elim!: bind_eq_Some_E)

lemma job_finished_id: "job_finished failed s job = Some (s', job') \<Longrightarrow> j_id job' = j_id job"
  by (auto simp: job_finished_def elim!: bind_eq_Some_E)

lemma job_failed_id: "job_failed process status s job = Some (s', job') \<Longrightarrow> j_id job' = j_id job"
  by (auto simp: job_failed_def Let_def dest: job_finished_id split: if_splits)

lemma job_next_state_moved:
  "job_next_state s job = Some (st, s', job') \<Longrightarrow> j_blocker job = None \<Longrightarrow> moved job s s' job'"
  using job_next_state_still job_next_state_id by (fastforce intro: movedI)

lemma spawn_and_next_moved:
  assumes "spawn_and_next w start process s job = Some (st, s', job')" and "j_blocker job = None"
  shows "moved job s s' job'"
proof -
  obtain s1 job1 where run: "(if start then job_process_start w process s job else Some (s, job)) = Some (s1, job1)"
    and 2: "job_next_state s1 job1 = Some (st, s', job')"
    using assms(1) by (auto simp: spawn_and_next_def elim!: bind_eq_Some_E)
  have 1: "still s s1" "j_blocker job1 = None" "j_id job1 = j_id job"
    using run assms(2) job_process_start_still [of w process s job s1 job1]
      job_process_start_id [of w process s job s1 job1] by (auto split: if_splits)
  show ?thesis using job_next_state_moved [OF 2 1(2)] 1 still_then by (auto simp: moved_def)
qed

lemma wait_or_next_moved:
  "wait_or_next wait s job = Some (st, s', job') \<Longrightarrow> j_blocker job = None \<Longrightarrow> moved job s s' job'"
  using job_next_state_moved by (fastforce simp: wait_or_next_def moved_def split: if_splits)

lemma enter_starting_moved:
  assumes "enter_starting w old s job = Some (st, s', job')" and "fresh_ok s" and "j_state job = JOB_STARTING"
  shows "moved job s s' job'"
proof -
  obtain job1 i where "job_emit_event w s job1 = Some (i, s')" "job' = job1\<lparr>j_blocker := Some i\<rparr>"
    "j_id job1 = j_id job" "j_state job1 = JOB_STARTING"
    using assms(1,3) by (cases "j_start_env job") (auto simp: enter_starting_def Let_def elim!: bind_eq_Some_E)
  then show ?thesis using job_emit_event_evolves [OF _ assms(2), of w job1] by (auto simp: moved_def emitted_blocker_def)
qed

lemma enter_stopping_moved:
  assumes "enter_stopping w old s job = Some (st, s', job')" and "fresh_ok s" and "j_state job = JOB_STOPPING"
  shows "moved job s s' job'"
  using assms job_emit_event_evolves [OF _ assms(2), of w job]
  by (auto simp: enter_stopping_def moved_def emitted_blocker_def elim!: bind_eq_Some_E)

lemma enter_running_moved:
  assumes "enter_running w old s job = Some (st, s', job')" and "fresh_ok s" and "j_state job = JOB_RUNNING"
    and "j_blocker job = None"
  shows "moved job s s' job'"
proof -
  have emit: "job_emit_event w s job = Some (i, s1) \<Longrightarrow> evolves (j_id job) None s s1" for i s1
    using job_emit_event_evolves [OF _ assms(2), of w job] assms(3) by (auto simp: emitted_blocker_def)
  have fin: "job_finished False s1 job1 = Some (s', job') \<Longrightarrow> still s1 s' \<and> j_blocker job' = j_blocker job1 \<and>
      j_id job' = j_id job1" for s1 job1
    using job_finished_still job_finished_id by blast
  show ?thesis
  proof (cases "old = JOB_PRE_STOP")
    case True
    then have "job_finished False s (job\<lparr>j_stop_env := None\<rparr>) = Some (s', job')"
      using assms(1) by (auto simp: enter_running_def elim!: bind_eq_Some_E)
    from fin [OF this] show ?thesis using assms(4) by (intro movedI) auto
  next
    case False
    then obtain i s1 where ev: "evolves (j_id job) None s s1"
      and "job_finished False s1 job = Some (s', job') \<or> s' = s1 \<and> job' = job"
      using assms(1) emit by (auto simp: enter_running_def split: if_splits elim!: bind_eq_Some_E)
    then show ?thesis using fin [of s1 job] assms(4) then_still [OF ev] by (auto simp: moved_def)
  qed
qed

lemma enter_killed_moved:
  assumes "enter_killed w old s job = Some (st, s', job')" and "j_blocker job = None"
  shows "moved job s s' job'"
proof -
  have "job_next_state s job = Some (st, s', job') \<or> job_process_kill w PROCESS_MAIN s job = Some (s', job')"
    using assms(1) by (auto simp: enter_killed_def split: if_splits elim!: bind_eq_Some_E)
  then show ?thesis
  proof
    assume kill: "job_process_kill w PROCESS_MAIN s job = Some (s', job')"
    show ?thesis using job_process_kill_still [OF kill] job_process_kill_id [OF kill] assms(2) by (intro movedI) auto
  qed (rule job_next_state_moved [OF _ assms(2)])
qed

lemma enter_waiting_evolves:
  assumes "enter_waiting w old s job = Some s'" and "fresh_ok s" and "j_state job = JOB_WAITING"
  shows "evolves (j_id job) None s s'"
proof -
  obtain i s1 s2 job2 where run: "job_emit_event w s job = Some (i, s1)" "job_finished False s1 job = Some (s2, job2)"
    "leave_waiting s2 job2 = Some s'"
    using assms(1) by (auto simp: enter_waiting_def elim!: bind_eq_Some_E)
  have "evolves (j_id job) None s s1"
    using job_emit_event_evolves [OF run(1) assms(2)] assms(3) by (simp add: emitted_blocker_def)
  moreover have "still s1 s'"
    using job_finished_still [OF run(2)] leave_waiting_still [OF run(3)] still_trans by blast
  ultimately show ?thesis by (rule then_still)
qed


section \<open>The operations on a job\<close>

text \<open>The result of an operation: the job is still blocked by what blocked it, or was not blocked and may
  be now, by an event the operation emitted. Only a job that is not blocked is freed.\<close>

definition shifts :: "Job \<Rightarrow> sys \<Rightarrow> sys \<Rightarrow> Job option \<Rightarrow> bool" where
  "shifts job s s' r \<longleftrightarrow>
     (case r of
        None \<Rightarrow> evolves (j_id job) None s s' \<and> j_blocker job = None
      | Some job' \<Rightarrow> j_id job' = j_id job \<and>
          (evolves (j_id job) None s s' \<and> j_blocker job' = j_blocker job \<or>
           evolves (j_id job) (j_blocker job') s s' \<and> j_blocker job = None))"

lemma shifts_still: "still s s' \<Longrightarrow> j_blocker job' = j_blocker job \<Longrightarrow> j_id job' = j_id job \<Longrightarrow>
    shifts job s s' (Some job')"
  by (simp add: shifts_def still_evolves)

lemma shifts_refl [simp]: "shifts job s s (Some job)"
  by (simp add: shifts_still)

lemma moved_shifts: "moved job s s' job' \<Longrightarrow> j_blocker job = None \<Longrightarrow> shifts job s s' (Some job')"
  by (simp add: shifts_def moved_def)

lemma shifts_evolves: "shifts job s s' r \<Longrightarrow> \<exists>blk. evolves (j_id job) blk s s'"
  by (auto simp: shifts_def split: option.splits)

lemma shifts_fresh: "shifts job s s' r \<Longrightarrow> fresh_ok s \<Longrightarrow> fresh_ok s'"
  using shifts_evolves evolves_fresh by blast

lemma shifts_trans:
  assumes "shifts job a b (Some job1)" and "shifts job1 b c r"
  shows "shifts job a c r"
proof -
  have id: "j_id job1 = j_id job" using assms(1) by (simp add: shifts_def)
  have step: "evolves (j_id job) x a b \<Longrightarrow> evolves (j_id job) y b c \<Longrightarrow> x = None \<or> y = None \<Longrightarrow>
      evolves (j_id job) (case x of None \<Rightarrow> y | Some i \<Rightarrow> Some i) a c" for x y
    by (rule evolves_trans)
  have first: "evolves (j_id job) None a b \<and> j_blocker job1 = j_blocker job \<or>
      evolves (j_id job) (j_blocker job1) a b \<and> j_blocker job = None"
    using assms(1) by (simp add: shifts_def)
  show ?thesis
  proof (cases r)
    case None
    then have "evolves (j_id job) None b c" "j_blocker job1 = None" using assms(2) id by (auto simp: shifts_def)
    then show ?thesis using first step [of None None] None by (auto simp: shifts_def)
  next
    case (Some job')
    then have "j_id job' = j_id job" and second: "evolves (j_id job) None b c \<and> j_blocker job' = j_blocker job1 \<or>
        evolves (j_id job) (j_blocker job') b c \<and> j_blocker job1 = None"
      using assms(2) id by (auto simp: shifts_def)
    then show ?thesis
      using first step [of None None] step [of None "j_blocker job'"] step [of "j_blocker job1" None] Some
      by (auto simp: shifts_def split: option.splits)
  qed
qed

lemma still_shifts:
  assumes "still a b" and "j_id job1 = j_id job" and "j_blocker job1 = j_blocker job" and "shifts job1 b c r"
  shows "shifts job a c r"
  using shifts_trans [OF shifts_still assms(4), of a job] assms(1-3) by simp

lemma shifts_cong: "shifts job1 b c r \<Longrightarrow> j_id job1 = j_id job \<Longrightarrow> j_blocker job1 = j_blocker job \<Longrightarrow> shifts job b c r"
  by (rule still_shifts [of b b job1]) simp_all

lemma enter_action_shifts:
  assumes "enter_action w old s job = Some (st, s', r)" and "fresh_ok s" and "j_blocker job = None"
  shows "shifts job s s' r"
proof -
  note moves = enter_starting_moved enter_stopping_moved enter_running_moved enter_killed_moved
    spawn_and_next_moved wait_or_next_moved
  have sec: "security_wanted w cls s = (b, s1) \<Longrightarrow> still s s1" for cls b s1
    by (auto simp: security_wanted_def dest: still_call split: if_splits)
  have "(\<exists>job'. r = Some job' \<and> moved job s s' job') \<or> r = None \<and> evolves (j_id job) None s s'"
    using assms
    by (cases "j_state job")
      (auto simp: enter_action_def split: prod.splits elim!: bind_eq_Some_E dest: enter_waiting_evolves moves
        dest!: sec, (meson still_moved spawn_and_next_moved wait_or_next_moved)+)
  then show ?thesis using assms(3) moved_shifts by (auto simp: shifts_def)
qed

lemma job_change_state_shifts:
  "job_change_state w st s job = Some (s', r) \<Longrightarrow> fresh_ok s \<Longrightarrow> shifts job s s' r"
proof (induction w st s job rule: job_change_state.induct)
  case (1 w st s job)
  show ?case
  proof (cases "j_state job = st \<or> j_blocker job \<noteq> None")
    case True
    then show ?thesis using 1(2) by (subst (asm) job_change_state.simps) (auto split: if_splits)
  next
    case False
    let ?s = "send_conns (\<lambda>conn. StateChanged conn (j_path job) (job_state_name st)) s"
    obtain st' s1 r1 where ent: "enter_state w st s job = Some (st', s1, r1)"
      and run: "(case r1 of None \<Rightarrow> Some (s1, None) | Some job \<Rightarrow> job_change_state w st' s1 job) = Some (s', r)"
      using 1(2) False by (subst (asm) job_change_state.simps) (auto elim!: bind_eq_Some_E)
    have act: "enter_action w (j_state job) ?s (job\<lparr>j_state := st\<rparr>) = Some (st', s1, r1)"
      using ent by (simp add: enter_state_def Let_def)
    have "fresh_ok ?s" using 1(3) by (simp add: fresh_ok_def send_conns_def)
    then have "shifts (job\<lparr>j_state := st\<rparr>) ?s s1 r1" using enter_action_shifts [OF act] False by simp
    then have first: "shifts job s s1 r1" by (rule still_shifts [rotated 3]) simp_all
    show ?thesis
    proof (cases r1)
      case None
      then show ?thesis using first run by simp
    next
      case (Some job1)
      have "shifts job1 s1 s' r"
        using 1(1) [of "(st', s1, r1)" st' "(s1, r1)" s1 r1 job1] False ent run Some shifts_fresh [OF first 1(3)]
        by auto
      then show ?thesis using first Some shifts_trans by blast
    qed
  qed
qed

lemma change_to_next_shifts:
  assumes "change_to_next w s job = Some (s', r)" and "fresh_ok s"
  shows "shifts job s s' r"
proof -
  obtain st s1 job1 where 1: "job_next_state s job = Some (st, s1, job1)" "job_change_state w st s1 job1 = Some (s', r)"
    using assms(1) by (auto simp: change_to_next_def elim!: bind_eq_Some_E)
  have first: "shifts job s s1 (Some job1)"
    using job_next_state_still [OF 1(1)] job_next_state_id [OF 1(1)] by (simp add: shifts_still)
  show ?thesis
    using shifts_trans [OF first job_change_state_shifts [OF 1(2) shifts_fresh [OF first assms(2)]]] .
qed

lemma job_change_goal_shifts:
  assumes "job_change_goal w goal s job = Some (s', r)" and "fresh_ok s"
  shows "shifts job s s' r"
proof (cases "j_goal job = goal")
  case True
  then show ?thesis using assms(1) by (auto simp: job_change_goal_def)
next
  case False
  obtain s1 job1 where sg: "set_goal goal s job = (s1, job1)" by (cases "set_goal goal s job")
  then have first: "shifts job s s1 (Some job1)"
    using set_goal_still [OF sg] by (intro shifts_still) (auto simp: set_goal_def split: if_splits)
  have "change_to_next w s1 job1 = Some (s', r) \<or> s' = s1 \<and> r = Some job1"
    using assms(1) False sg by (auto simp: job_change_goal_def change_to_next_def split: JobGoal.splits if_splits)
  then show ?thesis
    using first shifts_trans [OF first change_to_next_shifts] shifts_fresh [OF first assms(2)] by auto
qed


section \<open>The stop condition\<close>

text \<open>The operations that change state or goal leave it alone.\<close>

lemma job_next_state_stop_on: "job_next_state s job = Some (st, s', job') \<Longrightarrow> j_stop_on job' = j_stop_on job"
  by (auto simp: job_next_state_def set_goal_def split: JobState.splits JobGoal.splits if_splits
    elim!: bind_eq_Some_E)

lemma job_process_start_stop_on:
  "job_process_start w process s job = Some (s', job') \<Longrightarrow> j_stop_on job' = j_stop_on job"
  by (auto simp: job_process_start_def Let_def split: prod.splits elim!: bind_eq_Some_E)

lemma job_process_kill_stop_on:
  "job_process_kill w process s job = Some (s', job') \<Longrightarrow> j_stop_on job' = j_stop_on job"
  by (auto simp: job_process_kill_def job_process_set_kill_timer_def split: if_splits elim!: bind_eq_Some_E)

lemma spawn_and_next_stop_on:
  "spawn_and_next w start process s job = Some (st, s', job') \<Longrightarrow> j_stop_on job' = j_stop_on job"
  by (auto simp: spawn_and_next_def dest!: job_process_start_stop_on job_next_state_stop_on
    split: if_splits elim!: bind_eq_Some_E)

lemma wait_or_next_stop_on: "wait_or_next wait s job = Some (st, s', job') \<Longrightarrow> j_stop_on job' = j_stop_on job"
  by (auto simp: wait_or_next_def dest!: job_next_state_stop_on split: if_splits)

lemma enter_killed_stop_on: "enter_killed w old s job = Some (st, s', job') \<Longrightarrow> j_stop_on job' = j_stop_on job"
  by (auto simp: enter_killed_def dest!: job_process_kill_stop_on job_next_state_stop_on
    split: if_splits elim!: bind_eq_Some_E)

lemma enter_fixed_stop_on:
  "enter_starting w old s job = Some (st, s', job') \<Longrightarrow> j_stop_on job' = j_stop_on job"
  "enter_running w old s job = Some (st, s', job') \<Longrightarrow> j_stop_on job' = j_stop_on job"
  "enter_stopping w old s job = Some (st, s', job') \<Longrightarrow> j_stop_on job' = j_stop_on job"
  by (auto simp: enter_starting_def enter_running_def enter_stopping_def job_finished_def Let_def
    split: option.splits if_splits elim!: bind_eq_Some_E)

lemma enter_action_stop_on:
  "enter_action w old s job = Some (st, s', Some job') \<Longrightarrow> j_stop_on job' = j_stop_on job"
  by (cases "j_state job")
    (auto simp: enter_action_def dest!: enter_fixed_stop_on spawn_and_next_stop_on wait_or_next_stop_on
      enter_killed_stop_on split: prod.splits elim!: bind_eq_Some_E)

lemma job_change_state_stop_on:
  "job_change_state w st s job = Some (s', Some job') \<Longrightarrow> j_stop_on job' = j_stop_on job"
proof (induction w st s job rule: job_change_state.induct)
  case (1 w st s job)
  show ?case
  proof (cases "j_state job = st \<or> j_blocker job \<noteq> None")
    case True
    then show ?thesis using 1(2) by (subst (asm) job_change_state.simps) (auto split: if_splits)
  next
    case False
    then obtain st' s1 r1 where ent: "enter_state w st s job = Some (st', s1, r1)"
      and run: "(case r1 of None \<Rightarrow> Some (s1, None) | Some job \<Rightarrow> job_change_state w st' s1 job) = Some (s', Some job')"
      using 1(2) by (subst (asm) job_change_state.simps) (auto elim!: bind_eq_Some_E)
    then obtain job1 where job1: "r1 = Some job1" by (cases r1) auto
    then have "j_stop_on job1 = j_stop_on job"
      using ent enter_action_stop_on by (fastforce simp: enter_state_def Let_def)
    moreover have "j_stop_on job' = j_stop_on job1"
      using 1(1) [of "(st', s1, r1)" st' "(s1, r1)" s1 r1 job1] False ent run job1 by auto
    ultimately show ?thesis by simp
  qed
qed

lemma job_change_goal_stop_on:
  assumes "job_change_goal w goal s job = Some (s', Some job')"
  shows "j_stop_on job' = j_stop_on job"
proof (cases "j_goal job = goal")
  case False
  obtain s1 job1 where sg: "set_goal goal s job = (s1, job1)" by (cases "set_goal goal s job")
  then have "j_stop_on job1 = j_stop_on job" by (auto simp: set_goal_def split: if_splits)
  then show ?thesis
    using assms False sg
    by (auto simp: job_change_goal_def split: JobGoal.splits if_splits elim!: bind_eq_Some_E
      dest!: job_next_state_stop_on job_change_state_stop_on)
qed (use assms in \<open>auto simp: job_change_goal_def\<close>)

section \<open>Events of processes\<close>

lemma job_process_catch_runaway_still:
  "job_process_catch_runaway w s job = Some (b, s', job') \<Longrightarrow> shifts job s s' (Some job')"
  by (auto simp: job_process_catch_runaway_def call_def Let_def intro!: shifts_still
    simp: still_def split: if_splits prod.splits elim!: bind_eq_Some_E)

lemma job_failed_shifts: "job_failed process status s job = Some (s', job') \<Longrightarrow> shifts job s s' (Some job')"
  using job_failed_still job_failed_id by (simp add: shifts_still)

lemma job_finished_shifts: "job_finished failed s job = Some (s', job') \<Longrightarrow> shifts job s s' (Some job')"
  using job_finished_still job_finished_id by (simp add: shifts_still)

lemma respawn_main_shifts:
  assumes "respawn_main w state s job = Some (out, s', job')" and "fresh_ok s"
  shows "shifts job s s' (Some job')"
proof -
  obtain s1 job1 where 1: "(if \<not> state then job_change_goal w JOB_RESPAWN s job else Some (s, Some job)) = Some (s1, Some job1)"
    and 2: "job_change_state w JOB_STOPPING s1 job1 = Some (s', Some job') \<or> s' = s1 \<and> job' = job1"
    using assms(1) by (auto simp: respawn_main_def split: if_splits elim!: bind_eq_Some_E)
  have first: "shifts job s s1 (Some job1)"
    using 1 job_change_goal_shifts [OF _ assms(2)] by (auto split: if_splits)
  show ?thesis
    using 2 first shifts_trans [OF first job_change_state_shifts] shifts_fresh [OF first assms(2)] by blast
qed

lemma terminated_main_shifts:
  assumes "terminated_main w status s job = Some (out, s', job')" and "fresh_ok s"
  shows "shifts job s s' (Some job')"
proof -
  consider "s' = s" "job' = job"
    | b s1 job1 where "job_process_catch_runaway w s job = Some (b, s1, job1)"
      "job_failed PROCESS_INVALID 0 s1 job1 = Some (s', job')"
    | b s1 job1 state where "job_process_catch_runaway w s job = Some (b, s1, job1)"
      "respawn_main w state s1 job1 = Some (out, s', job')"
    using assms(1) by (auto simp: terminated_main_def Let_def split: if_splits elim!: bind_eq_Some_E)
  then show ?thesis
  proof cases
    case 2
    from job_process_catch_runaway_still [OF 2(1)] job_failed_shifts [OF 2(2)] show ?thesis by (rule shifts_trans)
  next
    case 3
    note first = job_process_catch_runaway_still [OF 3(1)]
    show ?thesis using shifts_trans [OF first respawn_main_shifts [OF 3(2) shifts_fresh [OF first assms(2)]]] .
  qed simp
qed

lemma terminated_switch_shifts:
  assumes "terminated_switch w process status s job = Some (out, s', job')" and "fresh_ok s"
  shows "shifts job s s' (Some job')"
  using assms terminated_main_shifts
  by (cases process) (auto simp: terminated_switch_def elim!: bind_eq_Some_E)

lemma go_on_shifts: "go_on w state s job = Some (s', r) \<Longrightarrow> fresh_ok s \<Longrightarrow> shifts job s s' r"
  using change_to_next_shifts by (auto simp: go_on_def split: if_splits)

lemma terminated_finish_shifts:
  assumes "terminated_finish w process status state_only out s job = Some (s', r)" and "fresh_ok s"
  shows "shifts job s s' r"
proof -
  define job0 where "job0 = (if j_kill_timer job \<noteq> None
    then job\<lparr>j_kill_timer := None, j_kill_process := PROCESS_INVALID\<rparr> else job)"
  define job1 where "job1 = (if \<not> state_only then job0\<lparr>j_pid := (j_pid job0)(process := 0)\<rparr> else job0)"
  have 1: "j_id job1 = j_id job" "j_blocker job1 = j_blocker job" by (simp_all add: job1_def job0_def)
  obtain s2 job2 where 2: "(if o_failed out then job_failed process status s job1 else Some (s, job1)) = Some (s2, job2)"
    and 3: "(if o_stop out \<and> \<not> state_only then do {
        (s, job) \<leftarrow> job_change_goal w JOB_STOP s2 job2;
        job \<leftarrow> job;
        if j_state job = JOB_RUNNING then Some (s, Some job) else go_on w (o_state out) s job
      } else go_on w (o_state out) s2 job2) = Some (s', r)"
    using assms(1) unfolding terminated_finish_def Let_def job0_def [symmetric] job1_def [symmetric]
    by (auto simp: bind_eq_Some_conv)
  have 3: "(\<exists>s3 job3. job_change_goal w JOB_STOP s2 job2 = Some (s3, Some job3) \<and>
      (s' = s3 \<and> r = Some job3 \<or> go_on w (o_state out) s3 job3 = Some (s', r))) \<or>
    go_on w (o_state out) s2 job2 = Some (s', r)"
    using 3 by (auto split: if_splits elim!: bind_eq_Some_E)
  have "shifts job1 s s2 (Some job2)" using 2 job_failed_shifts by (auto split: if_splits)
  then have first: "shifts job s s2 (Some job2)" using 1 by (rule shifts_cong)
  note fr = shifts_fresh [OF first assms(2)]
  have "shifts job2 s2 s' r"
    using 3
  proof (elim disjE exE conjE)
    fix s3 job3
    assume stop: "job_change_goal w JOB_STOP s2 job2 = Some (s3, Some job3)"
    note second = job_change_goal_shifts [OF stop fr]
    show "shifts job2 s2 s' r" if "s' = s3" "r = Some job3" using second that by simp
    show "shifts job2 s2 s' r" if "go_on w (o_state out) s3 job3 = Some (s', r)"
      using shifts_trans [OF second go_on_shifts [OF that shifts_fresh [OF second fr]]] .
  qed (rule go_on_shifts [OF _ fr])
  with first show ?thesis by (rule shifts_trans)
qed

lemma job_process_terminated_shifts:
  assumes "job_process_terminated w process status state_only s job = Some (s', r)" and "fresh_ok s"
  shows "shifts job s s' r"
proof (cases "j_state job \<in> {JOB_SECURITY_SPAWNING, JOB_PRE_STARTING, JOB_SPAWNING, JOB_POST_STARTING,
    JOB_PRE_STOPPING, JOB_POST_STOPPING}")
  case True
  let ?job = "\<lambda>data. job\<lparr>j_process_data := (j_process_data job)(process \<mapsto> data\<lparr>pd_status := status\<rparr>)\<rparr>"
  obtain data st job2 where next1: "job_next_state s (?job data) = Some (st, s', job2)"
    and r: "r = Some (job2\<lparr>j_state := st\<rparr>)"
    using assms(1) True unfolding job_process_terminated_def Let_def by (simp add: bind_eq_Some_conv) blast
  then show ?thesis using job_next_state_still [OF next1] job_next_state_id [OF next1] by (auto intro!: shifts_still)
next
  case False
  then obtain out s1 job1 where 1: "terminated_switch w process status s job = Some (out, s1, job1)"
    and 2: "terminated_finish w process status state_only out s1 job1 = Some (s', r)"
    using assms(1) by (auto simp: job_process_terminated_def elim!: bind_eq_Some_E)
  note first = terminated_switch_shifts [OF 1 assms(2)]
  show ?thesis using shifts_trans [OF first terminated_finish_shifts [OF 2 shifts_fresh [OF first assms(2)]]] .
qed


lemma ptrace_still: "ptrace w request pid s = (ok, s') \<Longrightarrow> still s s'"
  by (auto simp: ptrace_def call_def still_def Let_def)

lemma job_process_stopped_shifts:
  assumes "job_process_stopped w process s job = Some (s', r)" and "fresh_ok s"
  shows "shifts job s s' r"
proof -
  obtain b s1 where kill: "call (os_kill w) s = (b, s1)" by (cases "call (os_kill w) s")
  let ?s = "send [Killed (j_pid job process) SIGCONT] s1"
  have "still s ?s" using still_call [OF kill] still_send(1) still_trans by blast
  moreover have "fresh_ok ?s" using assms(2) kill by (auto simp: call_def fresh_ok_def)
  moreover have "s' = s \<and> r = Some job \<or> change_to_next w ?s job = Some (s', r)"
    using assms(1) kill by (auto simp: job_process_stopped_def split: if_splits elim!: bind_eq_Some_E)
  ultimately show ?thesis using still_shifts [of s ?s job] change_to_next_shifts by auto
qed

lemma job_process_trace_new_shifts:
  assumes "job_process_trace_new w process s job = Some (s', job')"
  shows "shifts job s s' (Some job')"
proof -
  obtain b s1 where 1: "ptrace w ''SETOPTIONS'' (j_pid job process) s = (b, s1)" by (meson surj_pair)
  obtain c s2 where 2: "ptrace w ''CONT'' (j_pid job process) s1 = (c, s2)" by (meson surj_pair)
  have "still s s1" "still s s2" using ptrace_still [OF 1] ptrace_still [OF 2] still_trans by auto
  then show ?thesis
    using assms 1 2
    by (auto simp: job_process_trace_new_def Let_def intro!: shifts_still split: if_splits elim!: bind_eq_Some_E)
qed

lemma detached_shifts:
  assumes "ptrace w request pid s = (b, s1)" and "change_to_next w s1 job1 = Some (s', r)" and "fresh_ok s"
    and "j_id job1 = j_id job" and "j_blocker job1 = j_blocker job"
  shows "shifts job s s' r"
proof -
  have st: "still s s1" by (rule ptrace_still [OF assms(1)])
  have "fresh_ok s1" using evolves_fresh [OF still_evolves [OF st] assms(3)] .
  then show ?thesis using still_shifts [OF st assms(4,5) change_to_next_shifts [OF assms(2)]] by simp
qed

lemma job_process_trace_new_child_shifts:
  assumes "job_process_trace_new_child w process s job = Some (s', r)" and "fresh_ok s"
  shows "shifts job s s' r"
proof (cases "spawn_state process job")
  case False
  then show ?thesis using assms(1) by (auto simp: job_process_trace_new_child_def elim!: bind_eq_Some_E)
next
  case True
  let ?job = "job\<lparr>j_trace_forks := j_trace_forks job + 1\<rparr>"
  obtain b s1 where d: "ptrace w ''DETACH'' (j_pid job process) s = (b, s1)" by (meson surj_pair)
  have "change_to_next w s1 (?job\<lparr>j_trace_state := TRACE_NONE\<rparr>) = Some (s', r) \<or>
      (\<exists>job'. job_process_trace_new w process s ?job = Some (s', job') \<and> r = Some job')"
    using assms(1) True d
    by (auto simp: job_process_trace_new_child_def Let_def split: if_splits elim!: bind_eq_Some_E)
  then show ?thesis
  proof (elim disjE exE conjE)
    fix job'
    assume "job_process_trace_new w process s ?job = Some (s', job')" and r: "r = Some job'"
    from job_process_trace_new_shifts [OF this(1)] show ?thesis unfolding r by (rule shifts_cong) simp_all
  qed (erule detached_shifts [OF d _ assms(2)], simp_all)
qed

lemma job_process_trace_fork_shifts:
  assumes "job_process_trace_fork w process s job = Some (s', r)" and "fresh_ok s"
  shows "shifts job s s' r"
proof (cases "\<not> spawn_state process job \<or> j_trace_state job \<noteq> TRACE_NORMAL")
  case True
  then show ?thesis using assms(1) by (auto simp: job_process_trace_fork_def)
next
  case False
  let ?job = "job\<lparr>j_pid := (j_pid job)(process := os_ptrace_msg w (s_calls s)), j_trace_state := TRACE_NEW_CHILD\<rparr>"
  obtain a s1 where 1: "ptrace w ''GETEVENTMSG'' (j_pid job process) s = (a, s1)" by (meson surj_pair)
  obtain b s2 where 2: "ptrace w ''DETACH'' (j_pid job process) s1 = (b, s2)" by (meson surj_pair)
  obtain c s3 where 3: "ptrace w ''SETOPTIONS'' (j_pid ?job process) s2 = (c, s3)" by (meson surj_pair)
  have st1: "still s s1" by (rule ptrace_still [OF 1])
  have st3: "still s s3" using st1 ptrace_still [OF 2] ptrace_still [OF 3] still_trans by blast
  have "s' = s1 \<and> r = Some job \<or> s' = s3 \<and> r = Some ?job \<or> job_process_trace_new_child w process s3 ?job = Some (s', r)"
    using assms(1) False 1 2 3 by (auto simp: job_process_trace_fork_def Let_def split: if_splits)
  moreover have "shifts job s s' r" if "job_process_trace_new_child w process s3 ?job = Some (s', r)"
    by (rule still_shifts [OF st3 _ _ job_process_trace_new_child_shifts [OF that evolves_fresh [OF still_evolves [OF st3] assms(2)]]]) simp_all
  ultimately show ?thesis using shifts_still [OF st1, of job] shifts_still [OF st3, of ?job job] by auto
qed

lemma job_process_trace_exec_shifts:
  assumes "job_process_trace_exec w process s job = Some (s', r)" and "fresh_ok s"
  shows "shifts job s s' r"
proof -
  obtain b s1 where d: "ptrace w ''DETACH'' (j_pid job process) s = (b, s1)" by (meson surj_pair)
  obtain c s2 where 2: "ptrace w ''CONT'' (j_pid job process) s = (c, s2)" by (meson surj_pair)
  have "s' = s \<and> r = Some job \<or> s' = s2 \<and> r = Some job \<or>
      change_to_next w s1 (job\<lparr>j_trace_state := TRACE_NONE\<rparr>) = Some (s', r)"
    using assms(1) d 2 by (auto simp: job_process_trace_exec_def Let_def split: if_splits)
  then show ?thesis
    using shifts_still [OF ptrace_still [OF 2], of job] detached_shifts [OF d _ assms(2)] by auto
qed

lemma handle_child_shifts:
  assumes "handle_child w process event status s job = Some (s', r)" and "fresh_ok s"
  shows "shifts job s s' r"
proof -
  have signal: "shifts job s s1 (Some job1)" if "job_process_trace_signal w process x s job = (s1, job1)" for x s1 job1
    using that by (auto simp: job_process_trace_signal_def split: if_splits prod.splits dest!: ptrace_still
      intro: shifts_still)
  show ?thesis
    using assms job_process_terminated_shifts job_process_stopped_shifts job_process_trace_new_shifts
      job_process_trace_new_child_shifts job_process_trace_fork_shifts job_process_trace_exec_shifts signal
    by (cases event) (auto simp: handle_child_def apsnd_def map_prod_def split: if_splits prod.splits)
qed

lemma job_process_kill_timer_shifts:
  "job_process_kill_timer w s job = Some (s', job') \<Longrightarrow> shifts job s s' (Some job')"
  by (auto simp: job_process_kill_timer_def Let_def elim!: bind_eq_Some_E dest: system_kill_still intro!: shifts_still)

end
