(* ===== verification/ClassMethods.thy ===== *)
theory ClassMethods
  imports JobProcess
begin

text \<open>
  The rest of \<^verbatim>\<open>src/init/job_class.c\<close>: the environment of jobs, the D-Bus methods and properties of
  a class, and starting the job of a class whose start condition holds. Of the errors of methods the
  name is modelled, not the message.
\<close>

section \<open>The environment of jobs\<close>

definition JOB_DEFAULT_ENVIRONMENT :: "string list" where
  "JOB_DEFAULT_ENVIRONMENT = [''PATH'', ''TERM'']"

definition job_class_environment_init :: "os \<Rightarrow> sys \<Rightarrow> sys" where
  "job_class_environment_init w s =
     (case s_job_environ s of
        Some _ \<Rightarrow> s
      | None \<Rightarrow>
          (let env = environ_append (os_getenv w) True JOB_DEFAULT_ENVIRONMENT [];
               env = (if s_user_mode s \<and> \<not> s_no_inherit_env s
                      then environ_append (os_getenv w) True (os_environ w) env else env)
           in s\<lparr>s_job_environ := Some env\<rparr>))"

definition job_class_environment_clear :: "sys \<Rightarrow> sys" where
  "job_class_environment_clear s = s\<lparr>s_job_environ := None\<rparr>"

definition job_class_environment_reset :: "os \<Rightarrow> sys \<Rightarrow> sys" where
  "job_class_environment_reset w s = job_class_environment_init w (job_class_environment_clear s)"

text \<open>The environments of all instances of registered classes are changed too. An error of
  \<^verbatim>\<open>environ_remove\<close> ends the loop.\<close>

definition map_job :: "(Job \<Rightarrow> Job) \<Rightarrow> nat \<Rightarrow> sys \<Rightarrow> sys" where
  "map_job f jid s = (case s_jobs s jid of None \<Rightarrow> s | Some job \<Rightarrow> s\<lparr>s_jobs := (s_jobs s)(jid \<mapsto> f job)\<rparr>)"

definition job_class_environment_set :: "os \<Rightarrow> string \<Rightarrow> bool \<Rightarrow> sys \<Rightarrow> sys option" where
  "job_class_environment_set w var replace s = do {
     env \<leftarrow> s_job_environ s;
     let add = environ_add (os_getenv w) replace var;
     Some (fold (map_job (\<lambda>job. job\<lparr>j_env := add (j_env job)\<rparr>)) (all_instances s)
             (s\<lparr>s_job_environ := Some (add env)\<rparr>))
   }"

fun unset_instances :: "string \<Rightarrow> nat list \<Rightarrow> sys \<Rightarrow> bool \<times> sys" where
  "unset_instances name [] s = (True, s)"
| "unset_instances name (jid # jids) s =
     (case s_jobs s jid of
        None \<Rightarrow> unset_instances name jids s
      | Some job \<Rightarrow>
          (case environ_remove name (j_env job) of
             None \<Rightarrow> (False, s)
           | Some env \<Rightarrow>
               unset_instances name jids (s\<lparr>s_jobs := (s_jobs s)(jid \<mapsto> job\<lparr>j_env := env\<rparr>)\<rparr>)))"

definition job_class_environment_unset :: "string \<Rightarrow> sys \<Rightarrow> (bool \<times> sys) option" where
  "job_class_environment_unset name s = do {
     env \<leftarrow> s_job_environ s;
     Some (case environ_remove name env of
        None \<Rightarrow> (False, s)
      | Some env \<Rightarrow> unset_instances name (all_instances s) (s\<lparr>s_job_environ := Some env\<rparr>))
   }"

definition job_class_environment_get_all :: "sys \<Rightarrow> string list option" where
  "job_class_environment_get_all s = s_job_environ s"

definition job_class_environment_get :: "string \<Rightarrow> sys \<Rightarrow> string option option" where
  "job_class_environment_get name s = do {
     env \<leftarrow> s_job_environ s;
     Some (environ_get env name)
   }"

definition job_class_environment :: "os \<Rightarrow> JobClass \<Rightarrow> sys \<Rightarrow> string list option" where
  "job_class_environment w cls s = do {
     job_environ \<leftarrow> s_job_environ s;
     let env = environ_append (os_getenv w) True job_environ [];
     Some (environ_append (os_getenv w) True (c_env cls) env)
   }"

section \<open>Methods\<close>

text \<open>The environment of the instance that a caller asks for and the name it gives the instance.\<close>

definition requested_instance ::
    "os \<Rightarrow> JobClass \<Rightarrow> string list \<Rightarrow> sys \<Rightarrow> (string + string list \<times> string) option" where
  "requested_instance w cls env s =
     (if \<not> environ_all_valid env then Some (Inl ''InvalidArgs'')
      else do {
        instance_env \<leftarrow> job_class_environment w cls s;
        let instance_env = environ_append (os_getenv w) True env instance_env;
        pattern \<leftarrow> c_instance cls;
        Some (case environ_expand instance_env pattern of
            Inl _ \<Rightarrow> Inl ''InvalidArgs''
          | Inr name \<Rightarrow> Inr (instance_env, name))
      })"

definition known_instance ::
    "os \<Rightarrow> nat \<Rightarrow> string list \<Rightarrow> sys \<Rightarrow> (string + string list \<times> Job) option" where
  "known_instance w cid env s = do {
     cls \<leftarrow> s_classes s cid;
     requested \<leftarrow> requested_instance w cls env s;
     (case requested of
        Inl e \<Rightarrow> Some (Inl e)
      | Inr (instance_env, name) \<Rightarrow>
          (case instance_lookup cid name s of
             None \<Rightarrow> Some (Inl ''UnknownInstance'')
           | Some jid \<Rightarrow> do {
               job \<leftarrow> s_jobs s jid;
               Some (Inr (instance_env, job))
             }))
   }"

definition job_class_get_instance :: "os \<Rightarrow> nat \<Rightarrow> string list \<Rightarrow> sys \<Rightarrow> (string + string) option" where
  "job_class_get_instance w cid env s = do {
     known \<leftarrow> known_instance w cid env s;
     Some (case known of Inl e \<Rightarrow> Inl e | Inr (_, job) \<Rightarrow> Inr (j_path job))
   }"

definition job_class_get_instance_by_name :: "nat \<Rightarrow> string \<Rightarrow> sys \<Rightarrow> (string + string) option" where
  "job_class_get_instance_by_name cid name s =
     (case instance_lookup cid name s of
        None \<Rightarrow> Some (Inl ''UnknownInstance'')
      | Some jid \<Rightarrow> do {
          job \<leftarrow> s_jobs s jid;
          Some (Inr (j_path job))
        })"

definition job_class_get_all_instances :: "nat \<Rightarrow> sys \<Rightarrow> string list" where
  "job_class_get_all_instances cid s =
     map j_path (List.map_filter (s_jobs s) (class_instances s cid))"

text \<open>The state after an operation on a job, with the job put back if it is still there.\<close>

definition put_job :: "sys \<times> Job option \<Rightarrow> sys" where
  "put_job = (\<lambda>(s, job). case job of None \<Rightarrow> s | Some job \<Rightarrow> set_job job s)"

type_synonym class_result = "((string + unit) \<times> sys) option"

text \<open>The answer names the path of the job: it must not have been freed by then.\<close>

definition answer_path :: "nat \<Rightarrow> bool \<Rightarrow> (string \<Rightarrow> reply) \<Rightarrow> sys \<times> Job option \<Rightarrow> class_result" where
  "answer_path message wait reply = (\<lambda>(s, job).
     if wait then Some (Inr (), put_job (s, job))
     else do {
       job \<leftarrow> job;
       Some (Inr (), send [Reply message (reply (j_path job))] (put_job (s, Some job)))
     })"

definition job_class_start ::
    "os \<Rightarrow> nat \<Rightarrow> nat \<Rightarrow> string list \<Rightarrow> bool \<Rightarrow> sys \<Rightarrow> class_result" where
  "job_class_start w cid message env wait s = do {
     cls \<leftarrow> s_classes s cid;
     if job_class_cgroups cls \<and> \<not> cgroup_manager_available s then Some (Inl ''CGroupManagerNotAvailable'', s)
     else do {
       requested \<leftarrow> requested_instance w cls env s;
       (case requested of
          Inl e \<Rightarrow> Some (Inl e, s)
        | Inr (start_env, name) \<Rightarrow> do {
            (job, s) \<leftarrow> (case instance_lookup cid name s of
                Some jid \<Rightarrow> do { job \<leftarrow> s_jobs s jid; Some (job, s) }
              | None \<Rightarrow> job_new w cid name s);
            if j_goal job = JOB_START then Some (Inl ''AlreadyStarted'', s)
            else do {
              let job = job\<lparr>j_start_env := Some start_env\<rparr>;
              (s, job) \<leftarrow> finish_and_wait BLOCKED_JOB_START_METHOD message wait s job;
              r \<leftarrow> job_change_goal w JOB_START s job;
              answer_path message wait StartReply r
            }
          })
     }
   }"

definition job_class_stop ::
    "os \<Rightarrow> nat \<Rightarrow> nat \<Rightarrow> string list \<Rightarrow> bool \<Rightarrow> sys \<Rightarrow> class_result" where
  "job_class_stop w cid message env wait s = do {
     known \<leftarrow> known_instance w cid env s;
     (case known of
        Inl e \<Rightarrow> Some (Inl e, s)
      | Inr (_, job) \<Rightarrow>
          if j_goal job = JOB_STOP then Some (Inl ''AlreadyStopped'', s)
          else do {
            let job = job\<lparr>j_stop_env := Some env\<rparr>;
            (s, job) \<leftarrow> finish_and_wait BLOCKED_JOB_STOP_METHOD message wait s job;
            r \<leftarrow> job_change_goal w JOB_STOP s job;
            Some (Inr (), if wait then put_job r else send [Reply message StopReply] (put_job r))
          })
   }"

definition job_class_restart ::
    "os \<Rightarrow> nat \<Rightarrow> nat \<Rightarrow> string list \<Rightarrow> bool \<Rightarrow> sys \<Rightarrow> class_result" where
  "job_class_restart w cid message env wait s = do {
     known \<leftarrow> known_instance w cid env s;
     (case known of
        Inl e \<Rightarrow> Some (Inl e, s)
      | Inr (restart_env, job) \<Rightarrow>
          if j_goal job = JOB_STOP then Some (Inl ''AlreadyStopped'', s)
          else do {
            let job = job\<lparr>j_start_env := Some restart_env, j_stop_env := None\<rparr>;
            (s, job) \<leftarrow> finish_and_wait BLOCKED_JOB_RESTART_METHOD message wait s job;
            (s, job) \<leftarrow> job_change_goal w JOB_STOP s job;
            job \<leftarrow> job;
            r \<leftarrow> job_change_goal w JOB_START s job;
            answer_path message wait RestartReply r
          })
   }"

section \<open>Properties of a class\<close>

definition job_class_get :: "string \<Rightarrow> sys \<Rightarrow> nat option" where
  "job_class_get name s = job_class_get_registered name s"

definition job_class_get_name :: "JobClass \<Rightarrow> string" where
  "job_class_get_name cls = c_name cls"

definition or_empty :: "string option \<Rightarrow> string" where
  "or_empty x = (case x of None \<Rightarrow> [] | Some s \<Rightarrow> s)"

definition job_class_get_description :: "JobClass \<Rightarrow> string" where
  "job_class_get_description cls = or_empty (c_description cls)"

definition job_class_get_author :: "JobClass \<Rightarrow> string" where
  "job_class_get_author cls = or_empty (c_author cls)"

definition job_class_get_version :: "JobClass \<Rightarrow> string" where
  "job_class_get_version cls = or_empty (c_version cls)"

definition job_class_get_usage :: "JobClass \<Rightarrow> string" where
  "job_class_get_usage cls = or_empty (c_usage cls)"

text \<open>Conditions are sent in reverse Polish notation.\<close>

definition oper_words :: "oper \<Rightarrow> string list option" where
  "oper_words a =
     (case o_type a of
        EVENT_OR \<Rightarrow> Some [''/OR'']
      | EVENT_AND \<Rightarrow> Some [''/AND'']
      | EVENT_MATCH \<Rightarrow> do {
          name \<leftarrow> o_name a;
          Some (name # (case o_env a of None \<Rightarrow> [] | Some env \<Rightarrow> env))
        })"

fun condition_words :: "oper list \<Rightarrow> string list list option" where
  "condition_words [] = Some []"
| "condition_words (a # as) = do {
     words \<leftarrow> oper_words a;
     rest \<leftarrow> condition_words as;
     Some (words # rest)
   }"

definition job_class_get_start_on :: "JobClass \<Rightarrow> string list list option" where
  "job_class_get_start_on cls =
     (case c_start_on cls of None \<Rightarrow> Some [] | Some t \<Rightarrow> condition_words (postorder t))"

definition job_class_get_stop_on :: "JobClass \<Rightarrow> string list list option" where
  "job_class_get_stop_on cls =
     (case c_stop_on cls of None \<Rightarrow> Some [] | Some t \<Rightarrow> condition_words (postorder t))"

definition job_class_get_emits :: "JobClass \<Rightarrow> string list" where
  "job_class_get_emits cls = c_emits cls"

section \<open>Of all classes\<close>

text \<open>\<^verbatim>\<open>job_class_max_kill_timeout\<close>: the inner loop ends at the first instance that raises the maximum;
  all instances of a class have the same timeout.\<close>

definition job_class_max_kill_timeout :: "sys \<Rightarrow> int" where
  "job_class_max_kill_timeout s =
     foldl (\<lambda>m cid. case s_classes s cid of
         None \<Rightarrow> m
       | Some cls \<Rightarrow> if class_instances s cid \<noteq> [] \<and> c_kill_timeout cls > m then c_kill_timeout cls else m)
       JOB_DEFAULT_KILL_TIMEOUT (s_registered s)"

fun index_of_name :: "string \<Rightarrow> string option list \<Rightarrow> int \<Rightarrow> int" where
  "index_of_name name [] i = -1"
| "index_of_name name (n # ns) i = (if n = Some name then i else index_of_name name ns (i + 1))"

definition job_class_get_index :: "JobClass \<Rightarrow> sys \<Rightarrow> int" where
  "job_class_get_index cls s = index_of_name (c_name cls) (map (class_name s) (s_registered s)) 0"

section \<open>Starting the job of a class\<close>

text \<open>The job is given what started it: environment, file descriptors, and the events it blocks
  until it has started.\<close>

definition induct_start :: "os \<Rightarrow> EventOperator \<Rightarrow> string list \<Rightarrow> sys \<Rightarrow> Job \<Rightarrow> (sys \<times> Job) option" where
  "induct_start w start_on env s job =
     (if j_goal job = JOB_START then Some (s, job)
      else do {
        (s, job) \<leftarrow> job_finished False s (job\<lparr>j_start_env := Some env\<rparr>);
        (fds, env) \<leftarrow> event_operator_fds (os_getenv w) start_on (s_events s) env ''UPSTART_FDS'';
        Some (s, job\<lparr>j_fds := fds, j_start_env := Some env\<rparr>)
      })"

definition induct_block :: "EventOperator \<Rightarrow> sys \<Rightarrow> Job \<Rightarrow> (sys \<times> Job) option" where
  "induct_block start_on s job = do {
     cls \<leftarrow> class_of s job;
     if c_task cls \<and> j_state job = JOB_RUNNING \<or> j_state job \<noteq> JOB_RUNNING then do {
       (blocking, evs) \<leftarrow> event_operator_events start_on (j_blocking job) (s_events s);
       Some (set_events evs s, job\<lparr>j_blocking := blocking\<rparr>)
     } else Some (s, job)
   }"

definition job_class_induct_job :: "os \<Rightarrow> nat \<Rightarrow> sys \<Rightarrow> (bool \<times> sys) option" where
  "job_class_induct_job w cid s = do {
     cls \<leftarrow> s_classes s cid;
     start_on \<leftarrow> c_start_on cls;
     env \<leftarrow> job_class_environment w cls s;
     env \<leftarrow> event_operator_environment (os_getenv w) start_on (s_events s) (Some env) (Some ''UPSTART_EVENTS'');
     pattern \<leftarrow> c_instance cls;
     (case environ_expand env pattern of
        Inl _ \<Rightarrow> do {
          s \<leftarrow> reset_start_on cid s;
          Some (False, s)
        }
      | Inr name \<Rightarrow> do {
          (job, s) \<leftarrow> (case instance_lookup cid name s of
              Some jid \<Rightarrow> do { job \<leftarrow> s_jobs s jid; Some (job, s) }
            | None \<Rightarrow> job_new w cid name s);
          (s, job) \<leftarrow> induct_start w start_on env s job;
          (s, job) \<leftarrow> induct_block start_on s job;
          r \<leftarrow> job_change_goal w JOB_START s job;
          s \<leftarrow> reset_start_on cid (put_job r);
          Some (True, s)
        })
   }"

text \<open>\<^verbatim>\<open>job_class_induct_jobs\<close>: the cgroup manager is there now.\<close>

definition induct_waiting :: "os \<Rightarrow> nat \<Rightarrow> bool \<times> sys \<Rightarrow> (bool \<times> sys) option" where
  "induct_waiting w cid = (\<lambda>(success, s). do {
     cls \<leftarrow> s_classes s cid;
     (case c_start_on cls of
        None \<Rightarrow> Some (success, s)
      | Some start_on \<Rightarrow>
          if \<not> c_cgmanager_wait cls then Some (success, s)
          else do {
            nih_assert (oper_value start_on);
            (ok, s) \<leftarrow> job_class_induct_job w cid s;
            s \<leftarrow> reset_start_on cid s;
            cls \<leftarrow> s_classes s cid;
            Some (success \<and> ok, set_class cid (cls\<lparr>c_cgmanager_wait := False\<rparr>) s)
          })
   })"

definition job_class_induct_jobs :: "os \<Rightarrow> sys \<Rightarrow> (bool \<times> sys) option" where
  "job_class_induct_jobs w s = do {
     nih_assert (cgroup_manager_available s);
     foldM (induct_waiting w) (s_registered s) (True, s)
   }"

end
