(* ===== verification/Quiesce.thy ===== *)
theory Quiesce
  imports ClassMethods
begin

text \<open>
  \<^verbatim>\<open>src/init/quiesce.c\<close>: the shutdown of a session init. The phases go from waiting for the jobs
  that start at the end of the session over killing to the clean-up; a timer that calls
  \<^verbatim>\<open>quiesce_wait_callback\<close> every second drives them.
\<close>

definition SESSION_END_EVENT :: string where "SESSION_END_EVENT = ''session-end''"
definition QUIESCE_DEFAULT_JOB_RUNTIME :: int where "QUIESCE_DEFAULT_JOB_RUNTIME = 5"

definition upd_quiesce :: "(quiesce_vars \<Rightarrow> quiesce_vars) \<Rightarrow> sys \<Rightarrow> sys" where
  "upd_quiesce f s = s\<lparr>s_quiesce := f (s_quiesce s)\<rparr>"

abbreviation phase :: "sys \<Rightarrow> QuiescePhase" where
  "phase s \<equiv> q_phase (s_quiesce s)"

definition quiesce_in_progress :: "sys \<Rightarrow> bool" where
  "quiesce_in_progress s \<longleftrightarrow> phase s \<noteq> QUIESCE_PHASE_NOT_QUIESCED"

text \<open>\<^verbatim>\<open>quiesce_event_match\<close> tries the match nodes of the start conditions of all classes.\<close>

fun post_nodes :: "EventOperator \<Rightarrow> EventOperator list" where
  "post_nodes Leaf = []"
| "post_nodes (Node l a r) = post_nodes l @ post_nodes r @ [Node l a r]"

fun some_match :: "EventOperator list \<Rightarrow> Event \<Rightarrow> bool option" where
  "some_match [] event = Some False"
| "some_match (t # ts) event =
     (if o_type (value t) \<noteq> EVENT_MATCH then some_match ts event
      else do {
        matched \<leftarrow> event_operator_match t event [];
        if matched then Some True else some_match ts event
      })"

definition start_nodes :: "sys \<Rightarrow> nat \<Rightarrow> EventOperator list" where
  "start_nodes s cid =
     (case s_classes s cid of
        None \<Rightarrow> []
      | Some cls \<Rightarrow> (case c_start_on cls of None \<Rightarrow> [] | Some t \<Rightarrow> post_nodes t))"

definition quiesce_event_match :: "Event \<Rightarrow> sys \<Rightarrow> bool option" where
  "quiesce_event_match event s = some_match (concat (map (start_nodes s) (s_registered s))) event"

text \<open>Entering the kill phase.\<close>

definition quiesce_kill :: "os \<Rightarrow> sys \<Rightarrow> sys option" where
  "quiesce_kill w s = job_process_stop_all w
     (upd_quiesce (\<lambda>q. q\<lparr>q_max_kill_timeout := job_class_max_kill_timeout s\<rparr>) s)"

definition quiesce :: "os \<Rightarrow> QuiesceRequester \<Rightarrow> sys \<Rightarrow> sys option" where
  "quiesce w requester s =
     (if quiesce_in_progress s then Some s
      else do {
        let ph = (if requester = QUIESCE_REQUESTER_SYSTEM then QUIESCE_PHASE_KILL else QUIESCE_PHASE_WAIT);
        let reason = (if requester = QUIESCE_REQUESTER_SESSION then ''logout'' else ''shutdown'');
        let (now, s) = call (os_time w) s;
        let s = upd_quiesce (\<lambda>q. q\<lparr>q_requester := requester, q_phase := ph, q_start_time := now,
                  q_phase_time := now\<rparr>) s;
        let s = s\<lparr>s_disable_respawn := True\<rparr>;
        let env = environ_set (os_getenv w) True (''TYPE='' @ reason) [];
        (i, s) \<leftarrow> event_create SESSION_END_EVENT env s;
        event \<leftarrow> event_get i (s_events s);
        s \<leftarrow> (if phase s = QUIESCE_PHASE_WAIT then do {
              found \<leftarrow> quiesce_event_match event s;
              let s = upd_quiesce (\<lambda>q. q\<lparr>q_session_end_jobs := found\<rparr>) s;
              if found then job_process_stop_all w s
              else Some (upd_quiesce (\<lambda>q. q\<lparr>q_phase := QUIESCE_PHASE_KILL\<rparr>) s)
            } else Some s);
        s \<leftarrow> (if phase s = QUIESCE_PHASE_KILL then quiesce_kill w s else Some s);
        Some (upd_quiesce (\<lambda>q. q\<lparr>q_timer := True\<rparr>) s)
      })"

definition quiesce_finalise :: "os \<Rightarrow> sys \<Rightarrow> sys option" where
  "quiesce_finalise w s = do {
     nih_assert (q_start_time (s_quiesce s) \<noteq> 0);
     nih_assert (phase s = QUIESCE_PHASE_CLEANUP);
     if q_finalising (s_quiesce s) then Some s
     else do {
       let s = upd_quiesce (\<lambda>q. q\<lparr>q_finalising := True\<rparr>) s;
       let (now, s) = call (os_time w) s;
       Some (send [MainLoopExit 0] s)
     }
   }"

definition quiesce_complete :: "os \<Rightarrow> sys \<Rightarrow> sys option" where
  "quiesce_complete w s = quiesce_finalise w (upd_quiesce (\<lambda>q. q\<lparr>q_phase := QUIESCE_PHASE_CLEANUP\<rparr>) s)"

text \<open>The end of the callback: the label \<open>out\<close>.\<close>

definition quiesce_out :: "os \<Rightarrow> sys \<Rightarrow> sys option" where
  "quiesce_out w s = do {
     s \<leftarrow> quiesce_finalise w (upd_quiesce (\<lambda>q. q\<lparr>q_phase := QUIESCE_PHASE_CLEANUP\<rparr>) s);
     Some (upd_quiesce (\<lambda>q. q\<lparr>q_timer := False\<rparr>) s)
   }"

definition quiesce_wait_callback :: "os \<Rightarrow> sys \<Rightarrow> sys option" where
  "quiesce_wait_callback w s = do {
     nih_assert (q_phase_time (s_quiesce s) \<noteq> 0);
     nih_assert (q_requester (s_quiesce s) \<noteq> QUIESCE_REQUESTER_INVALID);
     let (now, s) = call (os_time w) s;
     let elapsed = now - q_phase_time (s_quiesce s);
     (timed_out, s) \<leftarrow>
       (if phase s = QUIESCE_PHASE_KILL then do {
          nih_assert (q_max_kill_timeout (s_quiesce s) \<noteq> 0);
          Some (elapsed > q_max_kill_timeout (s_quiesce s), s)
        }
        else do {
          nih_assert (phase s = QUIESCE_PHASE_WAIT);
          if elapsed \<ge> QUIESCE_DEFAULT_JOB_RUNTIME \<or> \<not> job_process_jobs_running s then do {
            let (now, s) = call (os_time w) s;
            s \<leftarrow> quiesce_kill w (upd_quiesce (\<lambda>q. q\<lparr>q_phase := QUIESCE_PHASE_KILL, q_phase_time := now\<rparr>) s);
            Some (False, s)
          } else Some (False, s)
        });
     if timed_out \<or> \<not> job_process_jobs_running s then quiesce_out w s else Some s
   }"

end
