(* ===== verification/EventLoop.thy ===== *)
theory EventLoop
  imports Quiesce
begin

text \<open>
  \<^verbatim>\<open>src/init/event.c\<close>, the handling of events: a pending event is offered to the stop conditions of
  all jobs and the start conditions of all classes; when nothing blocks it any more it is finished,
  which lets the jobs go on that it blocked. \<^verbatim>\<open>event_poll\<close> does this for all events until all of them
  are blocked, which need not happen: it is given fuel.
\<close>

section \<open>Pending events\<close>

text \<open>The body of the loop over the instances of a class.\<close>

definition stop_instance :: "os \<Rightarrow> nat \<Rightarrow> nat \<Rightarrow> sys \<Rightarrow> sys option" where
  "stop_instance w event jid s = do {
     job \<leftarrow> s_jobs s jid;
     (case j_stop_on job of
        None \<Rightarrow> Some s
      | Some stop_on \<Rightarrow> do {
          (stop_on, matched, evs) \<leftarrow> event_operator_handle stop_on event (j_env job) (s_events s);
          let s = set_events evs s;
          let job = job\<lparr>j_stop_on := Some stop_on\<rparr>;
          if \<not> (matched \<and> oper_value stop_on) then Some (set_job job s)
          else do {
            (s, job) \<leftarrow>
              (if j_goal job \<noteq> JOB_STOP then do {
                 env \<leftarrow> event_operator_environment (os_getenv w) stop_on (s_events s) None
                          (Some ''UPSTART_STOP_EVENTS'');
                 job_finished False s (job\<lparr>j_stop_env := Some env\<rparr>)
               } else Some (s, job));
            (s, job) \<leftarrow>
              (if j_state job \<noteq> JOB_WAITING then do {
                 (blocking, evs) \<leftarrow> event_operator_events stop_on (j_blocking job) (s_events s);
                 Some (set_events evs s, job\<lparr>j_blocking := blocking\<rparr>)
               } else Some (s, job));
            (s, job) \<leftarrow> (if j_goal job \<noteq> JOB_STOP then job_change_goal w JOB_STOP s job else Some (s, Some job));
            job \<leftarrow> job;
            stop_on \<leftarrow> j_stop_on job;
            (stop_on, evs) \<leftarrow> event_operator_reset stop_on (s_events s);
            Some (set_job (job\<lparr>j_stop_on := Some stop_on\<rparr>) (set_events evs s))
          }
        })
   }"

text \<open>The event is offered to the start condition of a class.\<close>

definition handle_start_on :: "nat \<Rightarrow> nat \<Rightarrow> sys \<Rightarrow> (bool \<times> bool \<times> sys) option" where
  "handle_start_on event cid s = do {
     cls \<leftarrow> s_classes s cid;
     start_on \<leftarrow> c_start_on cls;
     (start_on, matched, evs) \<leftarrow> event_operator_handle start_on event [] (s_events s);
     Some (matched, oper_value start_on, set_class cid (cls\<lparr>c_start_on := Some start_on\<rparr>) (set_events evs s))
   }"

definition set_cgmanager_wait :: "bool \<Rightarrow> nat \<Rightarrow> sys \<Rightarrow> sys option" where
  "set_cgmanager_wait b cid s = do {
     cls \<leftarrow> s_classes s cid;
     Some (set_class cid (cls\<lparr>c_cgmanager_wait := b\<rparr>) s)
   }"

text \<open>A class that needs the cgroup manager: the result says whether to go on to start it.\<close>

definition await_cgmanager :: "nat \<Rightarrow> nat \<Rightarrow> sys \<Rightarrow> (bool \<times> sys) option" where
  "await_cgmanager event cid s = do {
     cls \<leftarrow> s_classes s cid;
     if \<not> job_class_cgroups cls then Some (True, s)
     else if cgroup_manager_available s then
       (if c_cgmanager_wait cls then do {
          s \<leftarrow> reset_start_on cid s;
          s \<leftarrow> set_cgmanager_wait False cid s;
          Some (True, s)
        } else Some (True, s))
     else if c_cgmanager_wait cls then Some (False, s)
     else do {
       (matched, _, s) \<leftarrow> handle_start_on event cid s;
       s \<leftarrow> (if matched then set_cgmanager_wait True cid s else Some s);
       Some (False, s)
     }
   }"

text \<open>The rest of the loop over the classes; the result is false where the function returns.\<close>

definition start_class :: "os \<Rightarrow> nat \<Rightarrow> nat \<Rightarrow> sys \<Rightarrow> (bool \<times> sys) option" where
  "start_class w event cid s = do {
     cls \<leftarrow> s_classes s cid;
     if c_start_on cls = None then Some (True, s)
     else do {
       (go, s) \<leftarrow> await_cgmanager event cid s;
       if \<not> go then Some (True, s)
       else do {
         (matched, holds, s) \<leftarrow> handle_start_on event cid s;
         if matched \<and> holds then job_class_induct_job w cid s else Some (True, s)
       }
     }
   }"

fun handle_classes :: "os \<Rightarrow> nat \<Rightarrow> nat list \<Rightarrow> sys \<Rightarrow> (bool \<times> sys) option" where
  "handle_classes w event [] s = Some (True, s)"
| "handle_classes w event (cid # cids) s = do {
     s \<leftarrow> foldM (stop_instance w event) (class_instances s cid) s;
     (ok, s) \<leftarrow> start_class w event cid s;
     if ok then handle_classes w event cids s else Some (False, s)
   }"

definition event_pending_handle_jobs :: "os \<Rightarrow> nat \<Rightarrow> sys \<Rightarrow> sys option" where
  "event_pending_handle_jobs w event s = do {
     (ok, s) \<leftarrow> handle_classes w event (s_registered s) s;
     if \<not> ok then Some s
     else if \<not> quiesce_in_progress s then Some s
     else if all_instances s = [] then quiesce_complete w s else Some s
   }"

definition set_progress :: "EventProgress \<Rightarrow> nat \<Rightarrow> sys \<Rightarrow> sys" where
  "set_progress p i s = set_events (event_upd i (\<lambda>e. e\<lparr>e_progress := p\<rparr>) (s_events s)) s"

definition event_pending :: "os \<Rightarrow> nat \<Rightarrow> sys \<Rightarrow> sys option" where
  "event_pending w i s = do {
     event \<leftarrow> event_get i (s_events s);
     nih_assert (e_progress event = EVENT_PENDING);
     event_pending_handle_jobs w i (set_progress EVENT_HANDLING i s)
   }"

section \<open>Finished events\<close>

text \<open>What was blocked by the event goes on.\<close>

definition unblock_one :: "os \<Rightarrow> nat \<Rightarrow> Blocked \<Rightarrow> sys \<Rightarrow> sys option" where
  "unblock_one w i blocked s =
     (case b_type blocked of
        BLOCKED_JOB \<Rightarrow> do {
          job \<leftarrow> s_jobs s (b_data blocked);
          r \<leftarrow> change_to_next w s (job\<lparr>j_blocker := None\<rparr>);
          Some (put_job r)
        }
      | BLOCKED_EMIT_METHOD \<Rightarrow> do {
          event \<leftarrow> event_get i (s_events s);
          Some (send [Reply (b_data blocked)
            (if e_failed event then ErrorReply ''EventFailed'' else EmitReply)] s)
        }
      | _ \<Rightarrow> None)"

text \<open>The name of the event that tells of the failure of an event, if there is to be one.\<close>

definition failed_name :: "string \<Rightarrow> string option" where
  "failed_name name =
     (if CHR ''/'' \<in> set name \<and> rev (takeWhile (\<lambda>c. c \<noteq> CHR ''/'') (rev name)) = ''failed''
      then None else Some (name @ ''/failed''))"

definition event_finished :: "os \<Rightarrow> nat \<Rightarrow> sys \<Rightarrow> sys option" where
  "event_finished w i s = do {
     event \<leftarrow> event_get i (s_events s);
     nih_assert (e_progress event = EVENT_FINISHED);
     s \<leftarrow> foldM (unblock_one w i) (e_blocking event) s;
     event \<leftarrow> event_get i (s_events s);
     let s = send [ClosedFd (e_fd event)] s;
     s \<leftarrow> (case (if e_failed event then failed_name (e_name event) else None) of
         None \<Rightarrow> Some s
       | Some name \<Rightarrow> do {
           (_, s) \<leftarrow> event_create name (e_env event) s;
           Some s
         });
     let s = send_conns (\<lambda>conn. EventEmitted conn (e_name event) (e_env event)) s;
     Some (set_events (filter (\<lambda>e. e_id e \<noteq> i) (s_events s)) s)
   }"

section \<open>The loop\<close>

text \<open>What the loop does with one event, and whether it is to be polled again.\<close>

definition poll_event :: "os \<Rightarrow> nat \<Rightarrow> sys \<Rightarrow> (bool \<times> sys) option" where
  "poll_event w i s = do {
     event \<leftarrow> event_get i (s_events s);
     let pending = (e_progress event = EVENT_PENDING);
     s \<leftarrow> (if pending then event_pending w i s else Some s);
     event \<leftarrow> event_get i (s_events s);
     if e_progress event = EVENT_HANDLING \<and> e_blockers event \<noteq> 0 then Some (pending, s)
     else do {
       s \<leftarrow> event_finished w i (set_progress EVENT_FINISHED i s);
       Some (True, s)
     }
   }"

text \<open>The loop over the list goes to the next event after the current one; events are added at the end
  and only the current one is removed, so that this is the first that was not visited.\<close>

datatype poll_result = Polled sys | Aborted | OutOfFuel

fun poll_pass :: "nat \<Rightarrow> os \<Rightarrow> nat list \<Rightarrow> bool \<Rightarrow> sys \<Rightarrow> poll_result \<times> bool" where
  "poll_pass 0 w visited again s = (OutOfFuel, again)"
| "poll_pass (Suc fuel) w visited again s =
     (case find (\<lambda>e. e_id e \<notin> set visited) (s_events s) of
        None \<Rightarrow> (Polled s, again)
      | Some event \<Rightarrow>
          (case poll_event w (e_id event) s of
             None \<Rightarrow> (Aborted, again)
           | Some (busy, s) \<Rightarrow> poll_pass fuel w (e_id event # visited) (again \<or> busy) s))"

fun event_poll :: "nat \<Rightarrow> os \<Rightarrow> sys \<Rightarrow> poll_result" where
  "event_poll 0 w s = OutOfFuel"
| "event_poll (Suc fuel) w s =
     (case poll_pass fuel w [] False s of
        (Polled s, again) \<Rightarrow> if again then event_poll fuel w s else Polled s
      | (r, _) \<Rightarrow> r)"

end
