(* ===== verification/SysInv.thy ===== *)
theory SysInv
  imports JobProcessProps JobEvents EventLoop
begin

text \<open>
  The invariant of the whole daemon: the classes, the jobs and the events fit together. Every
  reference of a condition or a job to an event is counted by the event, the events that block jobs
  and the jobs they block know each other, and every job is between two calls with the processes
  its state allows. Each operation on a job, a class or an event is shown to keep it.

  The events of a set \<open>X\<close> are exempt from the links between events and jobs: an event that is being
  finished lets its jobs go one after the other.
\<close>

section \<open>The invariant\<close>

definition class_count :: "sys \<Rightarrow> nat \<Rightarrow> nat" where
  "class_count s i = (\<Sum>c\<in>dom (s_classes s). count_list (class_refs (the (s_classes s c))) i)"

definition job_count :: "sys \<Rightarrow> nat set \<Rightarrow> nat \<Rightarrow> nat" where
  "job_count s J i = (\<Sum>j\<in>dom (s_jobs s) - J. count_list (job_refs (the (s_jobs s j))) i)"

text \<open>The references to an event that are not those of the job.\<close>

definition others :: "sys \<Rightarrow> nat \<Rightarrow> nat \<Rightarrow> nat" where
  "others s jid i = class_count s i + job_count s {jid} i"

definition class_fit :: "sys \<Rightarrow> nat \<Rightarrow> JobClass \<Rightarrow> bool" where
  "class_fit s cid cls \<longleftrightarrow> class_ok cls \<and> c_instance cls \<noteq> None \<and>
     (c_deleted cls \<longrightarrow> cid \<notin> set (s_sources s))"

definition job_fit :: "os \<Rightarrow> sys \<Rightarrow> nat \<Rightarrow> Job \<Rightarrow> bool" where
  "job_fit w s jid job \<longleftrightarrow> j_id job = jid \<and> j_class job \<in> set (s_registered s) \<and>
     cond_ok (j_stop_on job) \<and> blocking_ok (j_blocking job) \<and> between_calls job \<and>
     (\<forall>cls. s_classes s (j_class job) = Some cls \<longrightarrow> tracked w cls (j_state job) job)"

text \<open>No class belongs to two files, and no file is twice in its source.\<close>

definition conf_fit :: "ConfSource list \<Rightarrow> bool" where
  "conf_fit srcs \<longleftrightarrow> distinct (conf_jobs srcs) \<and> (\<forall>source\<in>set srcs. distinct (map f_path (cs_files source)))"

definition store_ok :: "os \<Rightarrow> sys \<Rightarrow> bool" where
  "store_ok w s \<longleftrightarrow> conf_fit (s_conf s) \<and> (\<forall>c\<in>dom (s_classes s). c < s_next s) \<and> finite (dom (s_classes s)) \<and> finite (dom (s_jobs s)) \<and> table_ok s \<and>
     set (s_instances s) = dom (s_jobs s) \<and> (\<forall>j\<in>dom (s_jobs s). j < s_next s) \<and>
     (\<forall>c cls. s_classes s c = Some cls \<longrightarrow> class_fit s c cls) \<and>
     (\<forall>j job. s_jobs s j = Some job \<longrightarrow> job_fit w s j job) \<and> s_job_environ s \<noteq> None"

definition events_ok :: "sys \<Rightarrow> bool" where
  "events_ok s \<longleftrightarrow> distinct (map e_id (s_events s)) \<and> fresh_ok s \<and>
     (\<forall>e\<in>set (s_events s). \<forall>v\<in>set (e_env e). entry_valid v) \<and>
     (\<forall>i. blockers_of (s_events s) i = class_count s i + job_count s {} i)"

text \<open>What an event blocks, and what blocks a job.\<close>

definition blocks_ok :: "sys \<Rightarrow> Event \<Rightarrow> bool" where
  "blocks_ok s e \<longleftrightarrow>
     (\<forall>b\<in>set (e_blocking e). b_type b = BLOCKED_EMIT_METHOD \<or>
        b_type b = BLOCKED_JOB \<and> (\<exists>job. s_jobs s (b_data b) = Some job \<and> j_blocker job = Some (e_id e))) \<and>
     distinct (map b_data (filter (\<lambda>b. b_type b = BLOCKED_JOB) (e_blocking e)))"

definition blocker_ok :: "sys \<Rightarrow> nat \<Rightarrow> nat \<Rightarrow> bool" where
  "blocker_ok s jid i \<longleftrightarrow> (\<exists>e\<in>set (s_events s). e_id e = i \<and> blocked_new BLOCKED_JOB jid \<in> set (e_blocking e))"

definition links_ok :: "nat set \<Rightarrow> sys \<Rightarrow> bool" where
  "links_ok X s \<longleftrightarrow>
     (\<forall>e\<in>set (s_events s). e_id e \<notin> X \<longrightarrow> blocks_ok s e \<and> e_progress e \<noteq> EVENT_FINISHED) \<and>
     (\<forall>jid job i. s_jobs s jid = Some job \<longrightarrow> j_blocker job = Some i \<longrightarrow> i \<notin> X \<longrightarrow> blocker_ok s jid i)"

definition quiesce_ok :: "sys \<Rightarrow> bool" where
  "quiesce_ok s \<longleftrightarrow> (quiesce_in_progress s \<longrightarrow> q_start_time (s_quiesce s) \<noteq> 0) \<and>
     (q_timer (s_quiesce s) \<and> \<not> q_finalising (s_quiesce s) \<longrightarrow>
        q_phase_time (s_quiesce s) \<noteq> 0 \<and> q_requester (s_quiesce s) \<noteq> QUIESCE_REQUESTER_INVALID \<and>
        (phase s = QUIESCE_PHASE_WAIT \<or> phase s = QUIESCE_PHASE_KILL \<and> q_max_kill_timeout (s_quiesce s) \<noteq> 0))"

definition sys_inv :: "os \<Rightarrow> nat set \<Rightarrow> sys \<Rightarrow> bool" where
  "sys_inv w X s \<longleftrightarrow> store_ok w s \<and> events_ok s \<and> links_ok X s \<and> quiesce_ok s"

definition sys_ok :: "os \<Rightarrow> sys \<Rightarrow> bool" where
  "sys_ok w s \<longleftrightarrow> sys_inv w {} s"

section \<open>Counting\<close>

lemma job_count_split:
  assumes "finite (dom (s_jobs s))" and "s_jobs s jid = Some job"
  shows "job_count s {} i = count_list (job_refs job) i + job_count s {jid} i"
  unfolding job_count_def using assms by (simp add: sum.remove [of "dom (s_jobs s)" jid] domI)

lemma others_split:
  assumes "finite (dom (s_jobs s))" and "s_jobs s jid = Some job"
  shows "class_count s i + job_count s {} i = others s jid i + count_list (job_refs job) i"
  using job_count_split [OF assms] by (simp add: others_def)

lemma class_count_split:
  assumes "finite (dom (s_classes s))" and "s_classes s cid = Some cls"
  shows "class_count s i = count_list (class_refs cls) i +
    (\<Sum>c\<in>dom (s_classes s) - {cid}. count_list (class_refs (the (s_classes s c))) i)"
  unfolding class_count_def using assms by (simp add: sum.remove [of "dom (s_classes s)" cid] domI)

lemma class_count_cong: "s_classes s' = s_classes s \<Longrightarrow> class_count s' i = class_count s i"
  by (simp add: class_count_def)

lemma job_count_cong: "s_jobs s' = s_jobs s \<Longrightarrow> job_count s' J i = job_count s J i"
  by (simp add: job_count_def)

lemma job_count_upd: "job_count (s\<lparr>s_jobs := (s_jobs s)(jid := x)\<rparr>) {jid} i = job_count s {jid} i"
  unfolding job_count_def by (rule sum.cong) auto

lemma job_count_agree:
  assumes "\<And>j. j \<noteq> jid \<Longrightarrow> s_jobs s' j = s_jobs s j"
  shows "job_count s' {jid} i = job_count s {jid} i"
  unfolding job_count_def by (rule sum.cong) (use assms in \<open>auto simp: dom_def\<close>)

lemma job_count_gone:
  assumes "s_jobs s jid = None"
  shows "job_count s {} i = job_count s {jid} i"
  unfolding job_count_def by (rule sum.cong) (use assms in auto)

section \<open>A job in its place\<close>

lemma sys_inv_job:
  assumes "sys_inv w X s" and "s_jobs s jid = Some job" and "os_ok w"
  obtains cls where "s_classes s (j_class job) = Some cls" and "job_ok (others s jid) s cls job"
    and "placed (others s jid) s cls job" and "between_calls job" and "tracked w cls (j_state job) job"
    and "j_id job = jid" and "class_fit s (j_class job) cls"
proof -
  have store: "store_ok w s" and events: "events_ok s" using assms(1) by (auto simp: sys_inv_def)
  have fit: "job_fit w s jid job" using store assms(2) by (simp add: store_ok_def)
  have tab: "table_ok s" and reg: "j_class job \<in> set (s_registered s)"
    using store fit by (auto simp: store_ok_def job_fit_def)
  then have "s_classes s (j_class job) \<noteq> None" by (simp add: table_ok_def)
  then obtain cls where cls: "s_classes s (j_class job) = Some cls" by blast
  have cf: "class_fit s (j_class job) cls" using store cls by (simp add: store_ok_def)
  have fin: "finite (dom (s_jobs s))" "finite (dom (s_classes s))" using store by (auto simp: store_ok_def)
  have "counted (others s jid) (s_events s) (job_refs job)"
    using events others_split [OF fin(1) assms(2)] by (simp add: counted_def events_ok_def)
  then have "job_ok (others s jid) s cls job"
    using cls cf fit events by (simp add: job_ok_def class_of_def class_fit_def job_fit_def events_ok_def)
  moreover have "placed (others s jid) s cls job"
    using tab reg cf class_count_split [OF fin(2) cls]
    by (simp add: placed_def others_def class_fit_def)
  ultimately show ?thesis using that cls cf fit by (simp add: job_fit_def)
qed


section \<open>Links\<close>

lemma evolves_grows: "evolves jid blk s s' \<Longrightarrow> grows jid blk s s'"
  by (simp add: evolves_def)

text \<open>The events are the same but for blockers and failures.\<close>

definition level :: "sys \<Rightarrow> sys \<Rightarrow> bool" where
  "level s s' \<longleftrightarrow> s_next s' = s_next s \<and> globals s' = globals s \<and> map core (s_events s') = map core (s_events s)"

lemma level_refl [simp]: "level s s"
  by (simp add: level_def)

lemma level_trans: "level a b \<Longrightarrow> level b c \<Longrightarrow> level a c"
  by (simp add: level_def)

lemma still_level: "still s s' \<Longrightarrow> level s s'"
  by (simp add: still_def level_def)

lemma level_grows: "level s s1 \<Longrightarrow> grows jid blk s1 s' \<Longrightarrow> grows jid blk s s'"
  by (simp add: level_def grows_def)

lemma level_grows_None: "level s s' \<Longrightarrow> grows jid None s s'"
  by (simp add: level_def grows_def)

lemma core_sel [simp]:
  "e_blocking (core e) = e_blocking e" "e_env (core e) = e_env e" "e_progress (core e) = e_progress e"
  by (simp_all add: core_def)

lemma grows_events:
  assumes "grows jid blk s s'" and "e \<in> set (s_events s')"
  obtains (old) e0 where "e0 \<in> set (s_events s)" "core e0 = core e"
    | (new) "born jid blk (s_next s) (s_next s') e"
proof -
  obtain new where new: "map core (s_events s') = map core (s_events s) @ new"
    "\<forall>e\<in>set new. born jid blk (s_next s) (s_next s') e"
    using assms(1) by (auto simp: grows_def)
  have "core e \<in> core ` set (s_events s) \<union> set new"
    using arg_cong [OF new(1), of set] assms(2) by auto
  then show ?thesis using old new(2) that(2) by (auto simp: born_def)
qed

lemma grows_keeps:
  assumes "grows jid blk s s'" and "e \<in> set (s_events s)"
  obtains e' where "e' \<in> set (s_events s')" "core e' = core e"
proof -
  obtain new where "map core (s_events s') = map core (s_events s) @ new" using assms(1) by (auto simp: grows_def)
  from arg_cong [OF this, of set] have "core ` set (s_events s) \<subseteq> core ` set (s_events s')" by simp
  then show ?thesis using assms(2) that by (metis imageE image_eqI subsetD)
qed

lemma core_eq_sel: "core e = core e' \<Longrightarrow> e_id e = e_id e' \<and> e_blocking e = e_blocking e' \<and>
    e_env e = e_env e' \<and> e_progress e = e_progress e'"
  by (metis core_id core_sel)

lemma grows_blocker:
  assumes "grows jid blk s s'" and "blk = Some i"
  obtains e where "e \<in> set (s_events s')" "e_id e = i" "blocked_new BLOCKED_JOB jid \<in> set (e_blocking e)"
proof -
  obtain new where new: "map core (s_events s') = map core (s_events s) @ new"
    "\<forall>e\<in>set new. born jid blk (s_next s) (s_next s') e" "i \<in> e_id ` set new"
    using assms by (auto simp: grows_def)
  from new(3) obtain e0 where e0: "e0 \<in> set new" "e_id e0 = i" by auto
  have "e0 \<in> core ` set (s_events s')" using arg_cong [OF new(1), of set] e0(1) by auto
  then obtain e where "e \<in> set (s_events s')" "core e = e0" by auto
  moreover have "blocked_new BLOCKED_JOB jid \<in> set (e_blocking e0)"
    using new(2) e0 assms(2) by (simp add: born_def)
  ultimately show ?thesis using that e0(2) by auto
qed

lemma grows_distinct:
  assumes "grows jid blk s s'" and "distinct (map e_id (s_events s))" and "fresh_ok s"
  shows "distinct (map e_id (s_events s'))" and "fresh_ok s'"
proof -
  obtain new where new: "map core (s_events s') = map core (s_events s) @ new" "distinct (map e_id new)"
    "\<forall>e\<in>set new. born jid blk (s_next s) (s_next s') e" and le: "s_next s \<le> s_next s'"
    using assms(1) by (auto simp: grows_def)
  have ids: "map e_id (s_events s') = map e_id (s_events s) @ map e_id new"
    using arg_cong [OF new(1), of "map e_id"] by (simp add: comp_def)
  show "distinct (map e_id (s_events s'))"
    unfolding ids using assms(2,3) new(2,3) by (fastforce simp: fresh_ok_def event_ids_def born_def)
  show "fresh_ok s'"
    using arg_cong [OF ids, of set] assms(3) new(3) le by (fastforce simp: fresh_ok_def event_ids_def born_def)
qed

text \<open>The job as it was stored and what became of it: a job that changes its blocker was not blocked, or
  by an exempt event.\<close>

definition relinked :: "nat set \<Rightarrow> Job \<Rightarrow> sys \<Rightarrow> sys \<Rightarrow> Job option \<Rightarrow> bool" where
  "relinked X job s s' r \<longleftrightarrow>
     (case r of
        None \<Rightarrow> grows (j_id job) None s s' \<and> (\<forall>i. j_blocker job = Some i \<longrightarrow> i \<in> X)
      | Some job' \<Rightarrow> grows (j_id job) None s s' \<and> j_blocker job' = j_blocker job \<or>
          grows (j_id job) (j_blocker job') s s' \<and> (\<forall>i. j_blocker job = Some i \<longrightarrow> i \<in> X))"

lemma relinked_grows: "relinked X job s s' r \<Longrightarrow> \<exists>blk. grows (j_id job) blk s s' \<and>
    (\<forall>i. blk = Some i \<longrightarrow> (\<exists>job'. r = Some job' \<and> j_blocker job' = Some i))"
  by (auto simp: relinked_def split: option.splits)

lemma shifts_relinked:
  assumes "shifts job s s' r" and "j_id job = j_id job0"
    and "j_blocker job = j_blocker job0 \<or> j_blocker job = None \<and> (\<forall>i. j_blocker job0 = Some i \<longrightarrow> i \<in> X)"
  shows "relinked X job0 s s' r"
  using assms evolves_grows by (fastforce simp: shifts_def relinked_def split: option.splits)

lemma level_relinked: "level s s1 \<Longrightarrow> relinked X job s1 s' r \<Longrightarrow> relinked X job s s' r"
  using level_grows by (auto simp: relinked_def split: option.splits)

lemma links_step:
  assumes links: "links_ok X s" and job: "s_jobs s jid = Some job" and id: "j_id job = jid"
    and re: "relinked X job s s' r" and jobs: "s_jobs s2 = (s_jobs s)(jid := r)" and evs: "s_events s2 = s_events s'"
  shows "links_ok X s2"
proof -
  obtain blk where gr: "grows jid blk s s'" and blk: "\<And>i. blk = Some i \<Longrightarrow> \<exists>job'. r = Some job' \<and> j_blocker job' = Some i"
    using relinked_grows [OF re] id by blast
  have keep: "\<exists>job'. r = Some job' \<and> j_blocker job' = Some i" if "j_blocker job = Some i" "i \<notin> X" for i
    using re that by (auto simp: relinked_def split: option.splits)
  have "blocks_ok s2 e \<and> e_progress e \<noteq> EVENT_FINISHED" if e: "e \<in> set (s_events s2)" "e_id e \<notin> X" for e
    using gr e(1)[unfolded evs]
  proof (cases rule: grows_events)
    case (old e0)
    then have same: "e_id e0 = e_id e" "e_blocking e0 = e_blocking e" "e_progress e0 = e_progress e"
      using core_eq_sel by blast+
    then have "blocks_ok s e0" "e_progress e0 \<noteq> EVENT_FINISHED" using links old e(2) by (auto simp: links_ok_def)
    then show ?thesis using same keep e(2) job by (auto simp: blocks_ok_def jobs)
  next
    case new
    then show ?thesis using blk by (auto simp: born_def blocks_ok_def jobs blocked_new_def)
  qed
  moreover have "blocker_ok s2 j i" if j: "s_jobs s2 j = Some job1" "j_blocker job1 = Some i" "i \<notin> X" for j job1 i
  proof -
    have old: "blocker_ok s2 j i" if prev: "s_jobs s j = Some job2" "j_blocker job2 = Some i" for job2
    proof -
      obtain e where e: "e \<in> set (s_events s)" "e_id e = i" "blocked_new BLOCKED_JOB j \<in> set (e_blocking e)"
        using links prev j(3) by (fastforce simp: links_ok_def blocker_ok_def)
      obtain e' where "e' \<in> set (s_events s')" "core e' = core e" using grows_keeps [OF gr e(1)] .
      then show ?thesis using e core_eq_sel unfolding blocker_ok_def evs by metis
    qed
    show ?thesis
    proof (cases "j = jid")
      case True
      then have r: "r = Some job1" using j(1) jobs by simp
      show ?thesis
      proof (cases "j_blocker job1 = j_blocker job")
        case False
        then have "grows jid (j_blocker job1) s s'" using re r id by (auto simp: relinked_def)
        then show ?thesis using grows_blocker j(2) True by (metis blocker_ok_def evs)
      qed (use old job True j(2) in auto)
    qed (use old j jobs in auto)
  qed
  ultimately show ?thesis unfolding links_ok_def by blast
qed


section \<open>Operations on a job\<close>

lemma set_job_sel [simp]:
  "s_events (set_job job s) = s_events s" "s_classes (set_job job s) = s_classes s"
  "s_registered (set_job job s) = s_registered s" "s_sources (set_job job s) = s_sources s" "s_conf (set_job job s) = s_conf s"
  "s_jobs (set_job job s) = (s_jobs s)(j_id job \<mapsto> job)" "s_instances (set_job job s) = s_instances s"
  "s_conns (set_job job s) = s_conns s" "s_next (set_job job s) = s_next s" "globals (set_job job s) = globals s"
  by (simp_all add: set_job_def)

lemma quiesce_ok_globals: "globals s' = globals s \<Longrightarrow> quiesce_ok s' = quiesce_ok s"
  by (simp add: globals_def quiesce_ok_def quiesce_in_progress_def)

lemma table_ok_cong:
  "s_classes s' = s_classes s \<Longrightarrow> s_registered s' = s_registered s \<Longrightarrow> s_conf s' = s_conf s \<Longrightarrow>
     table_ok s' = table_ok s"
  by (simp add: s_sources_def table_ok_def class_name_def [abs_def])

lemma relinked_events_ok:
  assumes re: "relinked X job s s' r" and "events_ok s"
    and "s_events s2 = s_events s'" and "s_next s2 = s_next s'"
    and "\<And>i. blockers_of (s_events s2) i = class_count s2 i + job_count s2 {} i"
  shows "events_ok s2"
proof -
  obtain blk where gr: "grows (j_id job) blk s s'" using relinked_grows [OF re] by auto
  have "distinct (map e_id (s_events s'))" "fresh_ok s'"
    using grows_distinct [OF gr] assms(2) by (auto simp: events_ok_def)
  moreover have "\<forall>v\<in>set (e_env e). entry_valid v" if "e \<in> set (s_events s')" for e
    using gr that
  proof (cases rule: grows_events)
    case (old e0)
    then show ?thesis using assms(2) core_eq_sel [OF old(2)] by (auto simp: events_ok_def)
  qed (simp add: born_def)
  ultimately show ?thesis using assms(3-5) by (simp add: events_ok_def fresh_ok_def)
qed

lemma job_step_alive:
  assumes inv: "sys_inv w X s" and job0: "s_jobs s jid = Some job0" and cls: "s_classes s (j_class job0) = Some cls"
    and calm: "calm s s'" and ok: "job_ok (others s jid) s' cls job'" and between: "between_calls job'"
    and tr: "tracked w cls (j_state job') job'" and id: "j_id job' = jid" "j_class job' = j_class job0"
    and re: "relinked X job0 s s' (Some job')"
  shows "sys_inv w X (set_job job' s')"
proof -
  let ?s = "set_job job' s'"
  have store: "store_ok w s" and events: "events_ok s" and links: "links_ok X s" and q: "quiesce_ok s"
    using inv by (auto simp: sys_inv_def)
  note sel = calm_sel [OF calm]
  have fit0: "job_fit w s jid job0" using store job0 by (simp add: store_ok_def)
  obtain blk where gr: "grows (j_id job0) blk s s'" using relinked_grows [OF re] by blast
  then have gl: "globals s' = globals s" and nx: "s_next s \<le> s_next s'" by (auto simp: grows_def)
  have "job_fit w ?s jid job'"
    using fit0 ok between tr id cls sel by (simp add: job_fit_def job_ok_def)
  moreover have "job_fit w ?s j job" if "s_jobs s j = Some job" for j job
    using store that sel by (simp add: store_ok_def job_fit_def)
  ultimately have jobs: "\<forall>j job. s_jobs ?s j = Some job \<longrightarrow> job_fit w ?s j job" using sel id by simp
  have dom: "dom (s_jobs ?s) = dom (s_jobs s)" using sel id job0 by auto
  have "\<forall>c cls. s_classes ?s c = Some cls \<longrightarrow> class_fit ?s c cls"
    using store sel by (simp add: store_ok_def class_fit_def)
  moreover have "table_ok ?s = table_ok s" by (rule table_ok_cong) (simp_all add: sel)
  moreover have "s_job_environ ?s = s_job_environ s" using gl by (simp add: globals_def set_job_def)
  moreover have "\<forall>j\<in>dom (s_jobs s). j < s_next s'" "\<forall>c\<in>dom (s_classes s). c < s_next s'"
    using store nx by (auto simp: store_ok_def intro: less_le_trans)
  ultimately have "store_ok w ?s"
    using store jobs sel unfolding store_ok_def dom by simp
  moreover have "events_ok ?s"
  proof (rule relinked_events_ok [OF re events])
    fix i
    have fin: "finite (dom (s_jobs ?s))" using store sel by (simp add: store_ok_def)
    have "class_count ?s i + job_count ?s {} i = others ?s jid i + count_list (job_refs job') i"
      by (rule others_split [OF fin]) (simp add: id)
    moreover have "others ?s jid i = others s jid i"
      using job_count_agree [of jid ?s s] class_count_cong [of ?s s] sel id by (simp add: others_def)
    ultimately show "blockers_of (s_events ?s) i = class_count ?s i + job_count ?s {} i"
      using ok by (simp add: job_ok_def counted_def)
  qed simp_all
  moreover have "links_ok X ?s"
    by (rule links_step [OF links job0 _ re]) (use fit0 id sel in \<open>auto simp: job_fit_def\<close>)
  moreover have "quiesce_ok ?s" using q quiesce_ok_globals [of ?s s] gl by simp
  ultimately show ?thesis by (simp add: sys_inv_def)
qed


lemma class_count_drop:
  assumes "finite (dom (s_classes s))" and "s_classes s cid = Some cls" and "s_classes s' = (s_classes s)(cid := None)"
  shows "class_count s' i + count_list (class_refs cls) i = class_count s i"
proof -
  have "class_count s' i = (\<Sum>c\<in>dom (s_classes s) - {cid}. count_list (class_refs (the (s_classes s c))) i)"
    unfolding class_count_def by (rule sum.cong) (auto simp: assms(3))
  then show ?thesis using class_count_split [OF assms(1,2)] by simp
qed

lemma freed_jobs_fit:
  assumes store: "store_ok w s" and f: "freed R cls job s s'" and job: "j_id job = jid"
    and j: "s_jobs s' j = Some job1"
  shows "job_fit w s' j job1"
proof -
  have ne: "j \<noteq> jid" and j1: "s_jobs s j = Some job1" using f j job by (auto simp: freed_def split: if_splits)
  have fit: "job_fit w s j job1" using store j1 by (simp add: store_ok_def)
  have inst: "j \<in> set (s_instances s')"
    using store j1 ne f job by (auto simp: freed_def store_ok_def)
  have reg: "j_class job1 \<in> set (s_registered s')" "s_classes s' (j_class job1) = s_classes s (j_class job1)"
  proof -
    have "class_instances s' (j_class job) \<noteq> []" if "j_class job1 = j_class job"
      using inst j that by (auto simp: class_instances_def filter_empty_conv intro!: bexI [of _ j])
    then show "j_class job1 \<in> set (s_registered s')" "s_classes s' (j_class job1) = s_classes s (j_class job1)"
      using f fit by (auto simp: freed_def job_fit_def)
  qed
  then show ?thesis using fit by (simp add: job_fit_def)
qed

lemma job_step_freed:
  assumes inv: "sys_inv w X s" and job0: "s_jobs s jid = Some job0" and cls: "s_classes s (j_class job0) = Some cls"
    and f: "freed (others s jid) cls job s s'" and id: "j_id job = jid" "j_class job = j_class job0"
    and re: "relinked X job0 s s' None"
  shows "sys_inv w X s'"
proof -
  have store: "store_ok w s" and events: "events_ok s" and links: "links_ok X s" and q: "quiesce_ok s"
    using inv by (auto simp: sys_inv_def)
  have id0: "j_id job0 = jid" using store job0 by (simp add: store_ok_def job_fit_def)
  have gr: "grows jid None s s'" using re id0 by (simp add: relinked_def)
  then have gl: "globals s' = globals s" and nx: "s_next s \<le> s_next s'" by (auto simp: grows_def)
  have jobs: "s_jobs s' = (s_jobs s)(jid := None)" using f id by (simp add: freed_def)
  have classes: "s_classes s' = s_classes s \<or> s_classes s' = (s_classes s)(j_class job0 := None)"
    using f id by (auto simp: freed_def)
  have fin: "finite (dom (s_classes s))" "finite (dom (s_jobs s))" using store by (auto simp: store_ok_def)
  have "finite (dom (s_classes s'))" using classes fin(1) by auto
  moreover have "finite (dom (s_jobs s'))" using jobs fin(2) by simp
  moreover have "table_ok s'" using f by (simp add: freed_def)
  moreover have "set (s_instances s') = dom (s_jobs s')"
    using f store jobs id by (auto simp: freed_def store_ok_def)
  moreover have "\<forall>j\<in>dom (s_jobs s'). j < s_next s'"
    using store jobs nx by (auto simp: store_ok_def intro: less_le_trans)
  moreover have "\<forall>c\<in>dom (s_classes s'). c < s_next s'"
  proof
    fix c
    assume "c \<in> dom (s_classes s')"
    then have "c \<in> dom (s_classes s)" using classes by (auto split: if_splits)
    then show "c < s_next s'" using store nx by (auto simp: store_ok_def intro: less_le_trans)
  qed
  moreover have conf: "s_conf s' = s_conf s" using f by (simp add: freed_def)
  moreover have "class_fit s' c cls1" if "s_classes s' c = Some cls1" for c cls1
  proof -
    have "s_classes s c = Some cls1" using that classes by (auto split: if_splits)
    then show ?thesis using store conf by (simp add: store_ok_def class_fit_def s_sources_def)
  qed
  moreover have "conf_fit (s_conf s')" using store conf by (simp add: store_ok_def)
  moreover have "s_job_environ s' \<noteq> None" using store gl by (auto simp: store_ok_def globals_def)
  ultimately have "store_ok w s'" using freed_jobs_fit [OF store f id(1)] by (simp add: store_ok_def)
  moreover have "events_ok s'"
  proof (rule relinked_events_ok [OF re events])
    fix i
    have jc: "job_count s' {} i = job_count s {jid} i"
      using job_count_gone [of s' jid] job_count_agree [of jid s' s] jobs by simp
    have "class_count s' i + count_list (class_refs cls) i = class_count s i" if "s_classes s' = (s_classes s)(j_class job0 := None)"
      by (rule class_count_drop [OF fin(1) cls that])
    moreover have "class_count s' i = class_count s i" if "s_classes s' = s_classes s"
      using that by (rule class_count_cong)
    moreover have "s_classes s' = s_classes s \<and> blockers_of (s_events s') i = others s jid i \<or>
        s_classes s' = (s_classes s)(j_class job0 := None) \<and>
        blockers_of (s_events s') i + count_list (class_refs cls) i = others s jid i"
      using f id by (auto simp: freed_def counted_def)
    ultimately show "blockers_of (s_events s') i = class_count s' i + job_count s' {} i"
      using jc by (auto simp: others_def)
  qed simp_all
  moreover have "links_ok X s'"
    by (rule links_step [OF links job0 id0 re]) (simp_all add: jobs)
  moreover have "quiesce_ok s'" using q quiesce_ok_globals [OF gl] by simp
  ultimately show ?thesis by (simp add: sys_inv_def)
qed

lemma job_step:
  assumes inv: "sys_inv w X s" and job0: "s_jobs s jid = Some job0" and cls: "s_classes s (j_class job0) = Some cls"
    and steady: "steady w (others s jid) cls s job s' r" and id: "j_id job = jid" "j_class job = j_class job0"
    and re: "relinked X job0 s s' r"
  shows "sys_inv w X (put_job (s', r))"
proof (cases r)
  case None
  then show ?thesis
    using job_step_freed [OF inv job0 cls _ id] steady re by (simp add: steady_def settled_def put_job_def)
next
  case (Some job')
  then show ?thesis
    using job_step_alive [OF inv job0 cls] steady re id by (simp add: steady_def settled_def put_job_def)
qed


lemma job_step_shifts:
  assumes "sys_inv w X s" and "s_jobs s jid = Some job0" and "s_classes s (j_class job0) = Some cls"
    and "steady w (others s jid) cls s job s' r" and "shifts job s s' r"
    and "j_id job = jid" and "j_class job = j_class job0" and "j_blocker job = j_blocker job0"
  shows "sys_inv w X (put_job (s', r))"
proof -
  have "j_id job0 = jid" using assms(1,2) by (simp add: sys_inv_def store_ok_def job_fit_def)
  then have "relinked X job0 s s' r" using shifts_relinked [OF assms(5), of job0 X] assms(6,8) by simp
  then show ?thesis by (rule job_step [OF assms(1-4,6,7)])
qed

lemma sys_inv_fresh: "sys_inv w X s \<Longrightarrow> fresh_ok s"
  by (simp add: sys_inv_def events_ok_def)

text \<open>The jobs that have processes have been started.\<close>

lemma tracked_waiting: "tracked w cls JOB_WAITING job \<Longrightarrow> j_pid job p \<le> 0"
  by (auto simp: tracked_def not_less [symmetric])

lemma handle_child_inv:
  assumes inv: "sys_inv w X s" and job: "s_jobs s jid = Some job" and w: "os_ok w" and alive: "j_pid job process > 0"
    and child: "\<forall>n. os_ptrace_msg w n > 0"
    and event: "event = NIH_CHILD_PTRACE \<longrightarrow> status \<in> {PTRACE_EVENT_FORK, PTRACE_EVENT_EXEC}"
  shows "\<exists>s'. with_job jid (handle_child w process event status) s = Some s' \<and> sys_inv w X s'"
proof -
  obtain cls where cls: "s_classes s (j_class job) = Some cls" and ok: "job_ok (others s jid) s cls job"
    "placed (others s jid) s cls job" "between_calls job" "tracked w cls (j_state job) job" "j_id job = jid"
    using sys_inv_job [OF inv job w] by blast
  have "j_state job \<noteq> JOB_WAITING" using tracked_waiting [of w cls job process] ok(4) alive by auto
  then have "on_duty w (others s jid) s cls job" using ok w by (simp add: on_duty_def)
  from handle_child_steady [OF this alive child event] obtain s' r goal where
    run: "handle_child w process event status s job = Some (s', r)"
    "steady w (others s jid) cls s (job\<lparr>j_goal := goal\<rparr>) s' r"
    by (auto simp: event_steady_def)
  have "shifts (job\<lparr>j_goal := goal\<rparr>) s s' r"
    by (rule shifts_cong [OF handle_child_shifts [OF run(1) sys_inv_fresh [OF inv]]]) simp_all
  from job_step_shifts [OF inv job cls run(2) this] ok(5) have "sys_inv w X (put_job (s', r))" by simp
  then show ?thesis using run(1) job by (auto simp: with_job_def put_job_def split: option.splits)
qed

lemma job_process_find_Some:
  assumes "job_process_find pid s = Some (Some (jid, process))"
  shows "\<exists>job. s_jobs s jid = Some job \<and> j_pid job process = pid \<and> pid > 0"
proof -
  let ?l = "concat (map (\<lambda>cid. concat (map (\<lambda>jid.
           (case s_jobs s jid of
              None \<Rightarrow> []
            | Some job \<Rightarrow> map (Pair jid) (filter (\<lambda>p. j_pid job p = pid) process_order)))
           (class_instances s cid))) (s_registered s))"
  obtain rest where "?l = (jid, process) # rest" and pos: "pid > 0"
    using assms by (auto simp: job_process_find_def Let_def split: list.splits elim!: bind_eq_Some_E)
  then have "(jid, process) \<in> set ?l" by (simp only: list.set_intros)
  with pos show ?thesis by (auto split: option.splits dest!: sym [of "Some _"])
qed

text \<open>\<^verbatim>\<open>job_process_handler\<close>, for all processes.\<close>

lemma job_process_handler_inv:
  assumes inv: "sys_inv w X s" and w: "os_ok w" and "pid > 0"
    and child: "\<forall>n. os_ptrace_msg w n > 0"
    and event: "event = NIH_CHILD_PTRACE \<longrightarrow> status \<in> {PTRACE_EVENT_FORK, PTRACE_EVENT_EXEC}"
  shows "\<exists>s'. job_process_handler w pid event status s = Some s' \<and> sys_inv w X s'"
proof -
  obtain found where found: "job_process_find pid s = Some found"
    using assms(3) by (simp add: job_process_find_def)
  show ?thesis
  proof (cases found)
    case None
    then show ?thesis using found inv assms(3) by (simp add: job_process_handler_def)
  next
    case (Some c)
    obtain jid process where c: "c = (jid, process)" by (cases c)
    then obtain job where "s_jobs s jid = Some job" "j_pid job process = pid"
      using job_process_find_Some found Some by blast
    with handle_child_inv [OF inv _ w _ child event, of jid job process] assms(3) found Some c
    show ?thesis by (auto simp: job_process_handler_def)
  qed
qed

text \<open>The kill timer.\<close>

lemma job_process_kill_timer_inv:
  assumes inv: "sys_inv w X s" and job: "s_jobs s jid = Some job" and w: "os_ok w" and timer: "j_kill_timer job \<noteq> None"
  shows "\<exists>s'. with_job jid (\<lambda>s job. map_option (apsnd Some) (job_process_kill_timer w s job)) s = Some s' \<and>
    sys_inv w X s'"
proof -
  obtain cls where cls: "s_classes s (j_class job) = Some cls" and ok: "job_ok (others s jid) s cls job"
    "placed (others s jid) s cls job" "between_calls job" "tracked w cls (j_state job) job" "j_id job = jid"
    using sys_inv_job [OF inv job w] by blast
  have rest: "at_rest job" "j_state job = JOB_KILLED" "j_kill_process job = PROCESS_MAIN" "j_pid job PROCESS_MAIN > 0"
    using ok(3) timer by (auto simp: between_calls_def at_rest_def quiet_def split: if_splits)
  let ?job = "job\<lparr>j_kill_timer := None, j_kill_process := PROCESS_INVALID\<rparr>"
  obtain b s' where kill: "system_kill w (j_pid job PROCESS_MAIN) SIGKILL s = Some (b, s')"
    using rest(4) by (simp add: system_kill_def call_def Let_def)
  have run: "job_process_kill_timer w s job = Some (s', ?job)"
    using kill rest timer by (auto simp: job_process_kill_timer_def)
  have tame: "tame s s'"
    using kill by (auto simp: system_kill_def Let_def split: prod.splits
      intro!: tame_trans [OF tame_call tame_trans [OF tame_call tame_send]])
  have "job_ok (others s jid) s' cls ?job" by (rule job_ok_tame [OF ok(1) tame]) simp_all
  moreover have "at_rest ?job" using rest by (simp add: at_rest_def quiet_def)
  moreover from this have "between_calls ?job" using ok(3) rest by (simp add: between_calls_def)
  moreover have "tracked w cls (j_state job) ?job" using ok(4) by (simp add: tracked_def)
  ultimately have "steady w (others s jid) cls s job s' (Some ?job)"
    using tame by (simp add: steady_def settled_def tame_def)
  from job_step_shifts [OF inv job cls this job_process_kill_timer_shifts [OF run]] ok(5)
  show ?thesis using run job by (simp add: with_job_def put_job_def)
qed


section \<open>A job that is being worked on\<close>

text \<open>An operation takes the job out of the store, changes it and the events, and puts it back: \<open>job1\<close> is
  the job in the meantime, \<open>job0\<close> the one still in the store.\<close>

definition working :: "os \<Rightarrow> nat set \<Rightarrow> JobClass \<Rightarrow> sys \<Rightarrow> Job \<Rightarrow> sys \<Rightarrow> Job \<Rightarrow> bool" where
  "working w X cls s job0 s1 job1 \<longleftrightarrow> s_jobs s (j_id job0) = Some job0 \<and> s_classes s (j_class job0) = Some cls \<and>
     calm s s1 \<and> job_ok (others s (j_id job0)) s1 cls job1 \<and> between_calls job1 \<and>
     tracked w cls (j_state job1) job1 \<and> j_id job1 = j_id job0 \<and> j_class job1 = j_class job0 \<and>
     relinked X job0 s s1 (Some job1)"

lemma working_start:
  assumes "sys_inv w X s" and "s_jobs s jid = Some job" and "os_ok w"
  obtains cls where "working w X cls s job s job" and "j_id job = jid" and "class_fit s (j_class job) cls"
proof -
  obtain cls where cls: "s_classes s (j_class job) = Some cls" "job_ok (others s jid) s cls job"
    "between_calls job" "tracked w cls (j_state job) job" "j_id job = jid" "class_fit s (j_class job) cls"
    using sys_inv_job [OF assms] by blast
  moreover have "relinked X job s s (Some job)" by (simp add: relinked_def level_grows_None)
  ultimately show ?thesis using assms(2) that by (simp add: working_def)
qed

lemma working_done:
  assumes "sys_inv w X s" and "working w X cls s job0 s1 job1"
  shows "sys_inv w X (set_job job1 s1)"
  using assms(2) unfolding working_def by (elim conjE) (rule job_step_alive [OF assms(1)]; simp)

lemma working_fresh: "working w X cls s job0 s1 job1 \<Longrightarrow> fresh_ok s1"
  by (simp add: working_def job_ok_def)

lemma relinked_trans:
  assumes "relinked X job0 s s1 (Some job1)" and "shifts job1 s1 s' r" and "j_id job1 = j_id job0"
  shows "relinked X job0 s s' r"
proof -
  have step: "grows (j_id job0) x s s1 \<Longrightarrow> grows (j_id job0) y s1 s' \<Longrightarrow> x = None \<or> y = None \<Longrightarrow>
      grows (j_id job0) (case x of None \<Rightarrow> y | Some i \<Rightarrow> Some i) s s'" for x y
    by (rule grows_trans)
  have first: "grows (j_id job0) None s s1 \<and> j_blocker job1 = j_blocker job0 \<or>
      grows (j_id job0) (j_blocker job1) s s1 \<and> (\<forall>i. j_blocker job0 = Some i \<longrightarrow> i \<in> X)"
    using assms(1) by (simp add: relinked_def)
  show ?thesis
  proof (cases r)
    case None
    then have "grows (j_id job0) None s1 s'" "j_blocker job1 = None"
      using assms(2,3) by (auto simp: shifts_def evolves_def)
    then show ?thesis using first step [of None None] None by (auto simp: relinked_def)
  next
    case (Some job')
    then have second: "grows (j_id job0) None s1 s' \<and> j_blocker job' = j_blocker job1 \<or>
        grows (j_id job0) (j_blocker job') s1 s' \<and> j_blocker job1 = None"
      using assms(2,3) by (auto simp: shifts_def evolves_def)
    then show ?thesis
      using first step [of None None] step [of None "j_blocker job'"] step [of "j_blocker job1" None] Some
      by (auto simp: relinked_def split: option.splits)
  qed
qed

lemma grows_level: "grows jid blk s s1 \<Longrightarrow> level s1 s2 \<Longrightarrow> grows jid blk s s2"
  by (simp add: level_def grows_def)

text \<open>The job and the events are changed in a way that keeps the references counted.\<close>

definition same_phase :: "Job \<Rightarrow> Job \<Rightarrow> bool" where
  "same_phase job job' \<longleftrightarrow> j_id job' = j_id job \<and> j_class job' = j_class job \<and> j_state job' = j_state job \<and>
     j_goal job' = j_goal job \<and> j_blocker job' = j_blocker job \<and> j_pid job' = j_pid job \<and>
     j_kill_timer job' = j_kill_timer job \<and> j_kill_process job' = j_kill_process job"

lemma working_update:
  assumes wk: "working w X cls s job0 s1 job1" and "calm s1 s2" and "level s1 s2"
    and same: "same_phase job1 job2" and "cond_ok (j_stop_on job2)" and "blocking_ok (j_blocking job2)"
    and cnt: "counted (others s (j_id job0)) (s_events s2) (job_refs job2)"
  shows "working w X cls s job0 s2 job2"
proof -
  have "fresh_ok s2"
    using evolves_fresh [OF still_evolves] working_fresh [OF wk] grows_distinct assms(3)
    by (metis event_ids_def fresh_ok_def level_def map_core_ids list.set_map)
  then have "job_ok (others s (j_id job0)) s2 cls job2"
    using wk assms(5,6) same cnt calm_sel(1) [OF assms(2)]
    by (auto simp: working_def job_ok_def class_of_def same_phase_def)
  moreover have "between_calls job2"
    using wk same by (auto simp: working_def same_phase_def elim!: between_calls_cong)
  moreover have "tracked w cls (j_state job2) job2"
    using wk same by (simp add: working_def same_phase_def tracked_def)
  moreover have "relinked X job0 s s2 (Some job2)"
    using wk same grows_level [OF _ assms(3)] by (auto simp: working_def relinked_def same_phase_def)
  ultimately show ?thesis
    using wk same calm_trans [OF _ assms(2)] by (auto simp: working_def same_phase_def)
qed

lemma working_job:
  assumes "working w X cls s job0 s1 job1" and "same_phase job1 job2" and "j_stop_on job2 = j_stop_on job1"
    and "j_blocking job2 = j_blocking job1"
  shows "working w X cls s job0 s1 job2"
  by (rule working_update [OF assms(1) calm_refl level_refl assms(2)])
    (use assms in \<open>auto simp: working_def job_ok_def job_refs_def\<close>)

lemma working_goal:
  assumes inv: "sys_inv w X s" and wk: "working w X cls s job0 s1 job1" and w: "os_ok w"
    and goal: "goal \<noteq> JOB_RESPAWN" "j_state job1 = JOB_WAITING \<longrightarrow> goal = JOB_START"
  shows "\<exists>s' r. job_change_goal w goal s1 job1 = Some (s', r) \<and> sys_inv w X (put_job (s', r)) \<and>
    (\<forall>job'. r = Some job' \<longrightarrow> working w X cls s job0 s' job' \<and> j_state job' \<noteq> JOB_WAITING)"
proof -
  let ?R = "others s (j_id job0)"
  have d: "s_jobs s (j_id job0) = Some job0" "s_classes s (j_class job0) = Some cls" "calm s s1"
    "job_ok ?R s1 cls job1" "between_calls job1" "tracked w cls (j_state job1) job1"
    "j_id job1 = j_id job0" "j_class job1 = j_class job0" "relinked X job0 s s1 (Some job1)"
    using wk by (auto simp: working_def)
  have "placed ?R s cls job0" using sys_inv_job [OF inv d(1) w] d(2) by force
  then have placed: "placed ?R s1 cls job1" using placed_calm [OF d(3,8)] by simp
  obtain s' r where run: "job_change_goal w goal s1 job1 = Some (s', r)"
    "steady w ?R cls s1 (job1\<lparr>j_goal := goal\<rparr>) s' r"
    using job_change_goal_steady [OF d(4) placed w d(5) goal d(6)] by blast
  let ?job = "job0\<lparr>j_goal := goal\<rparr>"
  have st: "steady w ?R cls s ?job s' r"
    by (rule steady_calm [OF d(3) run(2)]) (use d(7,8) in simp_all)
  have re: "relinked X job0 s s' r"
    by (rule relinked_trans [OF d(9) job_change_goal_shifts [OF run(1) working_fresh [OF wk]] d(7)])
  have inv': "sys_inv w X (put_job (s', r))" by (rule job_step [OF inv d(1,2) st _ _ re]) simp_all
  moreover have "working w X cls s job0 s' job'" "j_state job' \<noteq> JOB_WAITING" if "r = Some job'" for job'
    using st re that d(1,2) at_rest_not_waiting by (auto simp: working_def steady_def settled_def)
  ultimately show ?thesis using run(1) by blast
qed

lemma working_finished:
  assumes wk: "working w X cls s job0 s1 job1"
  shows "\<exists>s2. job_finished failed s1 job1 = Some (s2, job1\<lparr>j_blocking := []\<rparr>) \<and>
    working w X cls s job0 s2 (job1\<lparr>j_blocking := []\<rparr>)"
proof -
  obtain s2 where s2: "job_finished failed s1 job1 = Some (s2, job1\<lparr>j_blocking := []\<rparr>)" "calm s1 s2"
    "job_ok (others s (j_id job0)) s2 cls (job1\<lparr>j_blocking := []\<rparr>)"
    using job_finished_ok wk by (fastforce simp: working_def)
  have "level s1 s2" using job_finished_still [OF s2(1)] still_level by blast
  then have "working w X cls s job0 s2 (job1\<lparr>j_blocking := []\<rparr>)"
    by (rule working_update [OF wk s2(2)]) (use s2(3) in \<open>auto simp: same_phase_def job_ok_def\<close>)
  then show ?thesis using s2(1) by blast
qed


section \<open>The methods of an instance\<close>

definition method_keeps :: "os \<Rightarrow> nat set \<Rightarrow> method_result \<Rightarrow> bool" where
  "method_keeps w X res \<longleftrightarrow> (\<exists>e s' r. res = Some (e, s', r) \<and> sys_inv w X (put_job (s', r)))"

lemma working_wait:
  assumes "working w X cls s job0 s1 job1" and "ty \<notin> {BLOCKED_JOB, BLOCKED_EMIT_METHOD, BLOCKED_EVENT}"
  shows "\<exists>s2 job2. finish_and_wait ty message wait s1 job1 = Some (s2, job2) \<and> working w X cls s job0 s2 job2 \<and>
    same_phase job1 job2"
proof -
  obtain s2 where s2: "job_finished False s1 job1 = Some (s2, job1\<lparr>j_blocking := []\<rparr>)"
    "working w X cls s job0 s2 (job1\<lparr>j_blocking := []\<rparr>)"
    using working_finished [OF assms(1)] by blast
  let ?job = "job1\<lparr>j_blocking := if wait then [blocked_new ty message] else []\<rparr>"
  have "working w X cls s job0 s2 ?job"
    by (rule working_update [OF s2(2) calm_refl level_refl])
      (use s2(2) assms(2) in \<open>auto simp: working_def job_ok_def same_phase_def blocking_ok_def blocked_new_def
        job_refs_def blocked_refs_def\<close>)
  moreover have "finish_and_wait ty message wait s1 job1 = Some (s2, ?job)"
    using s2(1) by (simp add: finish_and_wait_def)
  ultimately show ?thesis by (auto simp: same_phase_def)
qed

lemma sys_inv_cong:
  assumes "s_events s' = s_events s" and "s_classes s' = s_classes s" and "s_registered s' = s_registered s"
    and "s_conf s' = s_conf s" and "s_jobs s' = s_jobs s" and "s_instances s' = s_instances s"
    and "s_next s' = s_next s" and "(s_job_environ s' = None) = (s_job_environ s = None)"
    and "quiesce_ok s' = quiesce_ok s"
  shows "sys_inv w X s' = sys_inv w X s"
proof -
  have "table_ok s' = table_ok s" by (rule table_ok_cong) (simp_all add: assms)
  moreover have "class_count s' i = class_count s i" "job_count s' J i = job_count s J i" for i J
    by (simp_all add: class_count_def job_count_def assms)
  ultimately show ?thesis
    by (simp add: s_sources_def sys_inv_def store_ok_def events_ok_def links_ok_def job_fit_def class_fit_def
      fresh_ok_def blocks_ok_def blocker_ok_def assms)
qed

lemma sys_inv_send [simp]: "sys_inv w X (send out s) = sys_inv w X s"
  by (rule sys_inv_cong) (simp_all add: quiesce_ok_globals [of "send out s" s], simp add: send_def)

lemma sys_inv_call: "call f s = (x, s') \<Longrightarrow> sys_inv w X s' = sys_inv w X s"
  using quiesce_ok_globals [of s' s] by (intro sys_inv_cong) (auto simp: call_def)

lemma put_job_send: "put_job (send out s, r) = send out (put_job (s, r))"
  by (simp add: put_job_def set_job_def send_def split: option.splits)

lemma answer_keeps:
  "sys_inv w X (put_job (s', r)) \<Longrightarrow> method_keeps w X (answer message wait reply (s', r))"
  by (simp add: method_keeps_def answer_def put_job_send)

lemma working_keeps: "sys_inv w X s \<Longrightarrow> s_jobs s jid = Some job \<Longrightarrow> os_ok w \<Longrightarrow>
    method_keeps w X (Some (e, s, Some job))"
  using working_start [of w X s jid job] working_done [of w X s _ job s job]
  by (auto simp: method_keeps_def put_job_def)

lemma between_calls_waiting_goal: "between_calls job \<Longrightarrow> j_goal job \<noteq> JOB_STOP \<Longrightarrow> j_state job \<noteq> JOB_WAITING"
  by (auto simp: between_calls_def)

lemma job_stop_inv:
  assumes inv: "sys_inv w X s" and job: "s_jobs s jid = Some job" and w: "os_ok w"
  shows "method_keeps w X (job_stop w message wait s job)"
proof (cases "j_goal job = JOB_STOP")
  case True
  then show ?thesis using working_keeps [OF inv job w] by (simp add: job_stop_def raise_error_def)
next
  case False
  obtain cls where wk: "working w X cls s job s job" using working_start [OF inv job w] by blast
  let ?job = "job\<lparr>j_stop_env := None\<rparr>"
  have "working w X cls s job s ?job" by (rule working_job [OF wk]) (simp_all add: same_phase_def)
  then obtain s2 job2 where wk2: "finish_and_wait BLOCKED_INSTANCE_STOP_METHOD message wait s ?job = Some (s2, job2)"
    "working w X cls s job s2 job2" "same_phase ?job job2"
    using working_wait by blast
  have "j_state job2 \<noteq> JOB_WAITING"
    using wk wk2(3) False between_calls_waiting_goal [of job] by (simp add: working_def same_phase_def)
  then obtain s' r where "job_change_goal w JOB_STOP s2 job2 = Some (s', r)" "sys_inv w X (put_job (s', r))"
    using working_goal [OF inv wk2(2) w, of JOB_STOP] by auto
  then show ?thesis using False wk2(1) answer_keeps by (simp add: job_stop_def)
qed

lemma job_restart_inv:
  assumes inv: "sys_inv w X s" and job: "s_jobs s jid = Some job" and w: "os_ok w"
  shows "method_keeps w X (job_restart w message wait s job)"
proof (cases "j_goal job = JOB_STOP")
  case True
  then show ?thesis using working_keeps [OF inv job w] by (simp add: job_restart_def raise_error_def)
next
  case False
  obtain cls where wk: "working w X cls s job s job" using working_start [OF inv job w] by blast
  let ?job = "job\<lparr>j_start_env := None, j_stop_env := None\<rparr>"
  have "working w X cls s job s ?job" by (rule working_job [OF wk]) (simp_all add: same_phase_def)
  then obtain s2 job2 where wk2: "finish_and_wait BLOCKED_INSTANCE_RESTART_METHOD message wait s ?job = Some (s2, job2)"
    "working w X cls s job s2 job2" "same_phase ?job job2"
    using working_wait by blast
  have "j_state job2 \<noteq> JOB_WAITING"
    using wk wk2(3) False between_calls_waiting_goal [of job] by (simp add: working_def same_phase_def)
  then obtain s3 r where stop: "job_change_goal w JOB_STOP s2 job2 = Some (s3, r)"
    "\<And>job'. r = Some job' \<Longrightarrow> working w X cls s job s3 job'"
    using working_goal [OF inv wk2(2) w, of JOB_STOP] by auto
  obtain job3 where r: "r = Some job3" using job_change_goal_not_freed [OF stop(1)] by blast
  obtain s4 r4 where "job_change_goal w JOB_START s3 job3 = Some (s4, r4)" "sys_inv w X (put_job (s4, r4))"
    using working_goal [OF inv stop(2) [OF r] w, of JOB_START] by auto
  then show ?thesis using False wk2(1) stop(1) r answer_keeps by (simp add: job_restart_def)
qed

lemma job_start_inv:
  assumes inv: "sys_inv w X s" and job: "s_jobs s jid = Some job" and w: "os_ok w"
  shows "method_keeps w X (job_start w message wait s job)"
proof -
  obtain cls where wk: "working w X cls s job s job" using working_start [OF inv job w] by blast
  then have cls: "class_of s job = Some cls" by (simp add: working_def class_of_def)
  let ?job = "job\<lparr>j_start_env := None\<rparr>"
  have "working w X cls s job s ?job" by (rule working_job [OF wk]) (simp_all add: same_phase_def)
  then obtain s2 job2 where wk2: "finish_and_wait BLOCKED_INSTANCE_START_METHOD message wait s ?job = Some (s2, job2)"
    "working w X cls s job s2 job2"
    using working_wait by blast
  obtain s' r where "job_change_goal w JOB_START s2 job2 = Some (s', r)" "sys_inv w X (put_job (s', r))"
    using working_goal [OF inv wk2(2) w, of JOB_START] by auto
  then show ?thesis
    using wk2(1) cls answer_keeps working_keeps [OF inv job w]
    by (auto simp: job_start_def raise_error_def)
qed


section \<open>Stop conditions\<close>

lemma block_times_core [simp]: "map core (block_times i n evs) = map core evs"
  unfolding block_times_def by (rule event_upd_core) (simp add: core_def)

lemma level_set_events: "map core evs = map core (s_events s) \<Longrightarrow> level s (set_events evs s)"
  by (simp add: level_def) (simp add: set_events_def)

lemma same_but_blockers_core: "same_but_blockers evs evs' \<Longrightarrow> map core evs' = map core evs"
proof -
  assume "same_but_blockers evs evs'"
  then have "map (\<lambda>e. core (e\<lparr>e_blockers := 0\<rparr>)) evs' = map (\<lambda>e. core (e\<lparr>e_blockers := 0\<rparr>)) evs"
    unfolding same_but_blockers_def by (metis (no_types, lifting) list.map_comp map_eq_conv comp_def)
  then show ?thesis by (simp add: core_def [abs_def])
qed

text \<open>An event is offered to a condition.\<close>

lemma handle_counted:
  assumes "oper_ok t" and "event_valid evs i" and "counted R evs (xs @ oper_refs t @ ys)"
  shows "\<exists>t' matched evs'. event_operator_handle t i env evs = Some (t', matched, evs') \<and> oper_ok t' \<and>
    counted R evs' (xs @ oper_refs t' @ ys) \<and> map core evs' = map core evs \<and> event_ids evs' = event_ids evs"
proof -
  let ?m = "matches_event evs env i"
  let ?t = "oper_feed ?m i t" and ?evs = "block_times i (new_matches ?m t) evs"
  have "counted R ?evs (xs @ oper_refs ?t @ ys)"
    using assms(3) oper_feed_refs [OF assms(1)] blockers_of_block_times [OF event_valid_ids [OF assms(2)]]
    by (simp add: counted_def)
  then show ?thesis
    using event_operator_handle_valid [OF assms(1,2)] oper_feed_ok [OF assms(1)] by simp
qed

lemma reset_counted:
  assumes "oper_ok t" and "counted R evs (xs @ oper_refs t @ ys)"
  shows "\<exists>evs'. event_operator_reset t evs = Some (oper_clear t, evs') \<and> oper_ok (oper_clear t) \<and>
    counted R evs' (xs @ oper_refs (oper_clear t) @ ys) \<and> map core evs' = map core evs \<and> event_ids evs' = event_ids evs"
proof -
  obtain evs' where 1: "foldM event_unblock (oper_refs t) evs = Some evs'" "counted R evs' (xs @ ys)"
    "event_ids evs' = event_ids evs"
    using counted_release [OF assms(2)] by blast
  have "map core evs' = map core evs" by (rule same_but_blockers_core [OF foldM_unblock_frame [OF 1(1)]])
  then show ?thesis
    using 1 event_operator_reset_eq [OF assms(1)] oper_clear_ok [OF assms(1)] oper_clear_refs [OF assms(1)] by simp
qed

lemma foldM_block_counted:
  assumes "set rs \<subseteq> event_ids evs" and "counted R evs xs"
  shows "\<exists>evs'. foldM event_block rs evs = Some evs' \<and> counted R evs' (xs @ rs) \<and> map core evs' = map core evs \<and>
    event_ids evs' = event_ids evs"
proof -
  obtain evs' where 1: "foldM event_block rs evs = Some evs'" "event_ids evs' = event_ids evs"
    "\<And>j. blockers_of evs' j = blockers_of evs j + count_list rs j"
    using ev.acquire_all [OF assms(1)] by metis
  have "map core evs' = map core evs" by (rule same_but_blockers_core [OF foldM_block_frame [OF 1(1)]])
  then show ?thesis using 1 assms(2) by (auto simp: counted_def)
qed

lemma events_counted:
  assumes "oper_ok t" and "set (oper_refs t) \<subseteq> event_ids evs" and "counted R evs xs"
  shows "\<exists>evs'. event_operator_events t list evs =
      Some (list @ map (blocked_new BLOCKED_EVENT) (true_refs t), evs') \<and>
    counted R evs' (xs @ true_refs t) \<and> map core evs' = map core evs \<and> event_ids evs' = event_ids evs"
proof -
  have sub: "set (true_refs t) \<subseteq> event_ids evs" using assms(2) true_refs_subset by blast
  have ids: "map e_id (map (\<lambda>i. the (event_get i evs)) (true_refs t)) = true_refs t"
    using map_id_get [OF sub] by (simp add: comp_def)
  obtain evs' where "foldM event_block (true_refs t) evs = Some evs'" "counted R evs' (xs @ true_refs t)"
    "map core evs' = map core evs" "event_ids evs' = event_ids evs"
    using foldM_block_counted [OF sub assms(3)] by blast
  moreover have "map (\<lambda>e. blocked_new BLOCKED_EVENT (e_id e)) (map (\<lambda>i. the (event_get i evs)) (true_refs t)) =
      map (blocked_new BLOCKED_EVENT) (true_refs t)"
    using arg_cong [OF ids, of "map (blocked_new BLOCKED_EVENT)"] by (simp add: comp_def)
  ultimately show ?thesis
    using matched_events_filtered [OF assms(1,2)] ids oper_ok_not_Leaf [OF assms(1)]
    by (simp add: event_operator_events_def events_loop_eq)
qed

lemma environment_total:
  assumes "oper_ok t" and "set (oper_refs t) \<subseteq> event_ids evs"
  shows "\<exists>env'. event_operator_environment genv t evs env key = Some env'"
  using matched_events_filtered [OF assms] oper_ok_not_Leaf [OF assms(1)]
  by (auto simp: event_operator_environment_def environment_loop_eq Let_def split: option.splits)


lemma counted_refs_present: "counted R evs (xs @ oper_refs t @ ys) \<Longrightarrow> set (oper_refs t) \<subseteq> event_ids evs"
  using counted_present by fastforce

lemma working_counted:
  assumes "working w X cls s job0 s1 job1"
  shows "counted (others s (j_id job0)) (s_events s1) (cond_refs (j_stop_on job1) @ blocked_refs (j_blocking job1))"
    and "cond_ok (j_stop_on job1)" and "blocking_ok (j_blocking job1)"
  using assms by (auto simp: working_def job_ok_def job_refs_def)

lemma working_stop_on:
  assumes wk: "working w X cls s job0 s1 job1" and "oper_ok t"
    and "counted (others s (j_id job0)) evs ([] @ oper_refs t @ blocked_refs (j_blocking job1))"
    and "map core evs = map core (s_events s1)"
  shows "working w X cls s job0 (set_events evs s1) (job1\<lparr>j_stop_on := Some t\<rparr>)"
  by (rule working_update [OF wk calm_set_events level_set_events [OF assms(4)]])
    (use assms(2,3) working_counted(3) [OF wk] in
      \<open>simp_all add: same_phase_def cond_ok_def job_refs_def cond_refs_def set_events_def\<close>)

lemma working_handle:
  assumes wk: "working w X cls s job0 s1 job1" and "j_stop_on job1 = Some t" and "event_valid (s_events s1) i"
  shows "\<exists>t' matched evs. event_operator_handle t i (j_env job1) (s_events s1) = Some (t', matched, evs) \<and> oper_ok t' \<and>
    working w X cls s job0 (set_events evs s1) (job1\<lparr>j_stop_on := Some t'\<rparr>)"
proof -
  have "oper_ok t" "counted (others s (j_id job0)) (s_events s1) ([] @ oper_refs t @ blocked_refs (j_blocking job1))"
    using working_counted [OF wk] assms(2) by (auto simp: cond_ok_def cond_refs_def)
  from handle_counted [OF this(1) assms(3) this(2)] show ?thesis using working_stop_on [OF wk] by blast
qed

lemma working_reset:
  assumes wk: "working w X cls s job0 s1 job1" and "j_stop_on job1 = Some t"
  shows "\<exists>evs. event_operator_reset t (s_events s1) = Some (oper_clear t, evs) \<and>
    working w X cls s job0 (set_events evs s1) (job1\<lparr>j_stop_on := Some (oper_clear t)\<rparr>)"
proof -
  have "oper_ok t" "counted (others s (j_id job0)) (s_events s1) ([] @ oper_refs t @ blocked_refs (j_blocking job1))"
    using working_counted [OF wk] assms(2) by (auto simp: cond_ok_def cond_refs_def)
  from reset_counted [OF this] show ?thesis using working_stop_on [OF wk] by blast
qed

text \<open>The job blocks the events of a condition.\<close>

lemma working_block:
  assumes wk: "working w X cls s job0 s1 job1" and "oper_ok t" and "set (oper_refs t) \<subseteq> event_ids (s_events s1)"
  shows "\<exists>blocking evs. event_operator_events t (j_blocking job1) (s_events s1) = Some (blocking, evs) \<and>
    working w X cls s job0 (set_events evs s1) (job1\<lparr>j_blocking := blocking\<rparr>)"
proof -
  let ?blocking = "j_blocking job1 @ map (blocked_new BLOCKED_EVENT) (true_refs t)"
  obtain evs where evs: "event_operator_events t (j_blocking job1) (s_events s1) = Some (?blocking, evs)"
    "counted (others s (j_id job0)) evs ((cond_refs (j_stop_on job1) @ blocked_refs (j_blocking job1)) @ true_refs t)"
    "map core evs = map core (s_events s1)"
    using events_counted [OF assms(2,3) working_counted(1) [OF wk]] by blast
  have "blocked_refs ?blocking = blocked_refs (j_blocking job1) @ true_refs t"
    by (simp add: blocked_refs_def blocked_new_def comp_def)
  then have "working w X cls s job0 (set_events evs s1) (job1\<lparr>j_blocking := ?blocking\<rparr>)"
    using working_counted(2,3) [OF wk] evs(2)
    by (intro working_update [OF wk calm_set_events level_set_events [OF evs(3)]])
      (auto simp: same_phase_def job_refs_def set_events_def blocking_ok_def blocked_new_def)
  then show ?thesis using evs(1) by blast
qed

text \<open>What the handling of an event never undoes: classes and jobs stay, and events keep their place.\<close>

definition advances :: "sys \<Rightarrow> sys \<Rightarrow> bool" where
  "advances s s' \<longleftrightarrow> s_registered s' = s_registered s \<and> dom (s_jobs s) \<subseteq> dom (s_jobs s') \<and>
     dom (s_classes s') = dom (s_classes s) \<and> (\<exists>new. map core (s_events s') = map core (s_events s) @ new)"

lemma advances_refl [simp]: "advances s s"
  by (simp add: advances_def)

lemma advances_trans: "advances a b \<Longrightarrow> advances b c \<Longrightarrow> advances a c"
  unfolding advances_def by (metis append.assoc subset_trans)

lemma working_advances:
  assumes "working w X cls s job0 s1 job1"
  shows "advances s (set_job job1 s1)"
proof -
  obtain blk where "grows (j_id job0) blk s s1" using assms relinked_grows unfolding working_def by blast
  then show ?thesis using assms calm_sel [of s s1] by (auto simp: working_def advances_def grows_def)
qed

lemma advances_event:
  assumes "advances s s'" and "event_get i (s_events s) = Some e"
  shows "\<exists>e'. event_get i (s_events s') = Some e' \<and> core e' = core e"
proof -
  have get: "event_get i (map core evs) = map_option core (event_get i evs)" for evs
    by (induction evs) (auto simp: event_get_Cons)
  obtain new where "map core (s_events s') = map core (s_events s) @ new" using assms(1) by (auto simp: advances_def)
  then have "event_get i (map core (s_events s')) = Some (core e)"
    using get [of "s_events s"] assms(2) by (simp add: event_get_append)
  then show ?thesis using get by auto
qed


text \<open>The environment that stopped the job is collected, and what the job blocked is released.\<close>

lemma working_stopped:
  assumes wk: "working w X cls s job0 s1 job1" and t: "j_stop_on job1 = Some t"
  shows "\<exists>s2 job2. (if j_goal job1 \<noteq> JOB_STOP then do {
        env \<leftarrow> event_operator_environment (os_getenv w) t (s_events s1) None (Some ''UPSTART_STOP_EVENTS'');
        job_finished False s1 (job1\<lparr>j_stop_env := Some env\<rparr>)
      } else Some (s1, job1)) = Some (s2, job2) \<and> working w X cls s job0 s2 job2 \<and> same_phase job1 job2 \<and>
    j_stop_on job2 = Some t"
proof (cases "j_goal job1 = JOB_STOP")
  case True
  then show ?thesis using wk t by (simp add: same_phase_def)
next
  case False
  have "oper_ok t" "set (oper_refs t) \<subseteq> event_ids (s_events s1)"
    using working_counted [OF wk] t counted_refs_present [of _ _ "[]" t]
    by (auto simp: cond_ok_def cond_refs_def)
  then obtain env where env: "event_operator_environment (os_getenv w) t (s_events s1) None (Some ''UPSTART_STOP_EVENTS'') = Some env"
    using environment_total by blast
  have "working w X cls s job0 s1 (job1\<lparr>j_stop_env := Some env\<rparr>)"
    by (rule working_job [OF wk]) (simp_all add: same_phase_def)
  from working_finished [OF this, of False] env False t show ?thesis by (auto simp: same_phase_def)
qed

lemma working_stop_goal:
  assumes inv: "sys_inv w X s" and wk: "working w X cls s job0 s1 job1" and w: "os_ok w"
  shows "\<exists>s2 job2. (if j_goal job1 \<noteq> JOB_STOP then job_change_goal w JOB_STOP s1 job1 else Some (s1, Some job1)) =
      Some (s2, Some job2) \<and> working w X cls s job0 s2 job2 \<and> j_stop_on job2 = j_stop_on job1"
proof (cases "j_goal job1 = JOB_STOP")
  case False
  then have "j_state job1 \<noteq> JOB_WAITING"
    using wk between_calls_waiting_goal by (auto simp: working_def)
  then obtain s2 r where run: "job_change_goal w JOB_STOP s1 job1 = Some (s2, r)"
    "\<And>job'. r = Some job' \<Longrightarrow> working w X cls s job0 s2 job'"
    using working_goal [OF inv wk w, of JOB_STOP] by auto
  obtain job2 where "r = Some job2" using job_change_goal_not_freed [OF run(1)] by blast
  then show ?thesis using run False job_change_goal_stop_on by auto
qed (use wk in auto)

lemma stop_instance_inv:
  assumes inv: "sys_inv w X s" and jid: "jid \<in> dom (s_jobs s)" and w: "os_ok w"
    and ev: "event_valid (s_events s) i"
  shows "\<exists>s'. stop_instance w i jid s = Some s' \<and> sys_inv w X s' \<and> advances s s'"
proof -
  obtain job where job: "s_jobs s jid = Some job" using jid by blast
  then obtain cls where wk: "working w X cls s job s job" using working_start [OF inv job w] by blast
  have done_: "sys_inv w X (set_job job1 s1) \<and> advances s (set_job job1 s1)"
    if "working w X cls s job s1 job1" for s1 job1
    using working_done [OF inv that] working_advances [OF that] by simp
  show ?thesis
  proof (cases "j_stop_on job")
    case None
    then show ?thesis using job inv by (simp add: stop_instance_def)
  next
    case (Some t)
    obtain t' matched evs where 1: "event_operator_handle t i (j_env job) (s_events s) = Some (t', matched, evs)"
      "oper_ok t'" "working w X cls s job (set_events evs s) (job\<lparr>j_stop_on := Some t'\<rparr>)"
      using working_handle [OF wk Some ev] by blast
    let ?s1 = "set_events evs s" and ?job1 = "job\<lparr>j_stop_on := Some t'\<rparr>"
    obtain s2 job2 where 2: "(if j_goal ?job1 \<noteq> JOB_STOP then do {
          env \<leftarrow> event_operator_environment (os_getenv w) t' (s_events ?s1) None (Some ''UPSTART_STOP_EVENTS'');
          job_finished False ?s1 (?job1\<lparr>j_stop_env := Some env\<rparr>)
        } else Some (?s1, ?job1)) = Some (s2, job2)" "working w X cls s job s2 job2" "same_phase ?job1 job2"
        "j_stop_on job2 = Some t'"
      using working_stopped [OF 1(3), of t'] by auto
    have pres: "set (oper_refs t') \<subseteq> event_ids (s_events s2)"
      using working_counted(1) [OF 2(2)] 2(4) counted_refs_present [of _ _ "[]" t'] by (auto simp: cond_refs_def)
    obtain s3 job3 where 3: "(if j_state job2 \<noteq> JOB_WAITING then do {
          (blocking, evs) \<leftarrow> event_operator_events t' (j_blocking job2) (s_events s2);
          Some (set_events evs s2, job2\<lparr>j_blocking := blocking\<rparr>)
        } else Some (s2, job2)) = Some (s3, job3)" "working w X cls s job s3 job3" "j_stop_on job3 = Some t'"
      using working_block [OF 2(2) 1(2) pres] 2(2,4) by (cases "j_state job2 = JOB_WAITING") auto
    obtain s4 job4 where 4: "(if j_goal job3 \<noteq> JOB_STOP then job_change_goal w JOB_STOP s3 job3 else Some (s3, Some job3)) =
        Some (s4, Some job4)" "working w X cls s job s4 job4" "j_stop_on job4 = Some t'"
      using working_stop_goal [OF inv 3(2) w] 3(3) by auto
    obtain evs5 where 5: "event_operator_reset t' (s_events s4) = Some (oper_clear t', evs5)"
      "working w X cls s job (set_events evs5 s4) (job4\<lparr>j_stop_on := Some (oper_clear t')\<rparr>)"
      using working_reset [OF 4(2,3)] by blast
    show ?thesis
      using job Some 1(1) 2(1) 3(1) 4(1,3) 5(1) done_ [OF 1(3)] done_ [OF 5(2)]
      by (auto simp: stop_instance_def Let_def)
  qed
qed


section \<open>Start conditions\<close>

lemma set_class_sel [simp]:
  "s_events (set_class cid cls s) = s_events s" "s_registered (set_class cid cls s) = s_registered s"
  "s_sources (set_class cid cls s) = s_sources s" "s_conf (set_class cid cls s) = s_conf s" "s_jobs (set_class cid cls s) = s_jobs s"
  "s_instances (set_class cid cls s) = s_instances s" "s_next (set_class cid cls s) = s_next s"
  "s_classes (set_class cid cls s) = (s_classes s)(cid \<mapsto> cls)" "globals (set_class cid cls s) = globals s"
  by (simp_all add: set_class_def)

lemma set_events_sel [simp]:
  "s_events (set_events evs s) = evs" "s_registered (set_events evs s) = s_registered s"
  "s_sources (set_events evs s) = s_sources s" "s_conf (set_events evs s) = s_conf s" "s_jobs (set_events evs s) = s_jobs s"
  "s_instances (set_events evs s) = s_instances s" "s_next (set_events evs s) = s_next s"
  "s_classes (set_events evs s) = s_classes s"
  by (simp_all add: set_events_def)

text \<open>A class whose start condition, or a mark on it, is changed.\<close>

definition same_class :: "JobClass \<Rightarrow> JobClass \<Rightarrow> bool" where
  "same_class cls cls' \<longleftrightarrow> (\<exists>c b. cls' = cls\<lparr>c_start_on := c, c_cgmanager_wait := b\<rparr>)"

lemma core_partner:
  assumes "map core evs' = map core evs" and "e \<in> set evs'"
  obtains e0 where "e0 \<in> set evs" and "core e0 = core e"
proof -
  have "core e \<in> core ` set evs" using arg_cong [OF assms(1), of set] assms(2) by (simp add: set_eq_iff) blast
  then show ?thesis using that by auto
qed

lemma level_links:
  assumes "links_ok X s" and "map core (s_events s') = map core (s_events s)" and "s_jobs s' = s_jobs s"
  shows "links_ok X s'"
proof -
  have "blocks_ok s' e \<and> e_progress e \<noteq> EVENT_FINISHED" if e: "e \<in> set (s_events s')" "e_id e \<notin> X" for e
  proof -
    obtain e0 where e0: "e0 \<in> set (s_events s)" "core e0 = core e" using core_partner [OF assms(2) e(1)] .
    note eq = core_eq_sel [OF e0(2)]
    have "blocks_ok s e0" "e_progress e0 \<noteq> EVENT_FINISHED"
      using assms(1) e(2) e0(1) eq by (auto simp: links_ok_def)
    then show ?thesis using assms(3) eq by (simp add: blocks_ok_def)
  qed
  moreover have "blocker_ok s' jid i" if old: "blocker_ok s jid i" for jid i
  proof -
    obtain e where e: "e \<in> set (s_events s)" "e_id e = i" "blocked_new BLOCKED_JOB jid \<in> set (e_blocking e)"
      using old by (auto simp: blocker_ok_def)
    obtain e' where "e' \<in> set (s_events s')" "core e' = core e" using core_partner [OF assms(2) [symmetric] e(1)] .
    then show ?thesis using e core_eq_sel [of e' e] by (auto simp: blocker_ok_def)
  qed
  ultimately show ?thesis using assms(1,3) by (simp add: links_ok_def)
qed

lemma level_events:
  assumes "events_ok s" and "map core (s_events s') = map core (s_events s)" and "s_next s \<le> s_next s'"
    and "\<And>i. blockers_of (s_events s') i = class_count s' i + job_count s' {} i"
  shows "events_ok s'"
proof -
  have ids: "map e_id (s_events s') = map e_id (s_events s)"
    using arg_cong [OF assms(2), of "map e_id"] by (simp add: comp_def)
  have "fresh_ok s'"
    using assms(1,3) arg_cong [OF ids, of set] by (auto simp: events_ok_def fresh_ok_def event_ids_def)
  moreover have "\<forall>v\<in>set (e_env e). entry_valid v" if e: "e \<in> set (s_events s')" for e
  proof -
    obtain e0 where "e0 \<in> set (s_events s)" "core e0 = core e" using core_partner [OF assms(2) e] .
    then show ?thesis using assms(1) core_eq_sel [of e0 e] by (auto simp: events_ok_def)
  qed
  ultimately show ?thesis using assms(1,4) ids by (simp add: events_ok_def)
qed

lemma sys_inv_table: "sys_inv w X s \<Longrightarrow> table_ok s"
  by (simp add: sys_inv_def store_ok_def)

text \<open>The table of classes changes, the jobs and the events stay.\<close>

lemma sys_inv_table_step:
  assumes inv: "sys_inv w X s"
    and jobs: "s_jobs s' = s_jobs s" "s_instances s' = s_instances s" "globals s' = globals s" "s_next s \<le> s_next s'"
    and core: "map core (s_events s') = map core (s_events s)"
    and conf: "conf_fit (s_conf s')" "\<And>c. c \<in> dom (s_classes s') \<Longrightarrow> c < s_next s'"
    and tab: "finite (dom (s_classes s'))" "table_ok s'" "\<And>c cls. s_classes s' c = Some cls \<Longrightarrow> class_fit s' c cls"
    and keep: "\<And>j job cls. s_jobs s j = Some job \<Longrightarrow> s_classes s (j_class job) = Some cls \<Longrightarrow>
      j_class job \<in> set (s_registered s') \<and>
      (\<forall>cls' p. s_classes s' (j_class job) = Some cls' \<longrightarrow> has_process cls p \<longrightarrow> has_process cls' p)"
    and cnt: "\<And>i. blockers_of (s_events s') i + class_count s i = blockers_of (s_events s) i + class_count s' i"
  shows "sys_inv w X s'"
proof -
  have store: "store_ok w s" and events: "events_ok s" and links: "links_ok X s" and q: "quiesce_ok s"
    using inv by (auto simp: sys_inv_def)
  have "job_fit w s' j job" if job: "s_jobs s j = Some job" for j job
  proof -
    have fit: "job_fit w s j job" using store job by (simp add: store_ok_def)
    then have "s_classes s (j_class job) \<noteq> None" using store by (simp add: job_fit_def store_ok_def table_ok_def)
    then obtain cls where cls: "s_classes s (j_class job) = Some cls" by blast
    note k = keep [OF job cls]
    have "tracked w cls' (j_state job) job" if "s_classes s' (j_class job) = Some cls'" for cls'
      using fit cls k that unfolding job_fit_def tracked_def wanted_def by blast
    then show ?thesis using fit k by (simp add: job_fit_def)
  qed
  moreover have "s_job_environ s' = s_job_environ s" using jobs(3) by (simp add: globals_def)
  ultimately have "store_ok w s'"
    using store tab jobs conf unfolding store_ok_def by (metis (no_types, lifting) order_less_le_trans)
  moreover have "events_ok s'"
  proof (rule level_events [OF events core jobs(4)])
    show "blockers_of (s_events s') i = class_count s' i + job_count s' {} i" for i
      using cnt [of i] events job_count_cong [OF jobs(1)] by (simp add: events_ok_def)
  qed
  moreover have "links_ok X s'" by (rule level_links [OF links core jobs(1)])
  moreover have "quiesce_ok s'" using q quiesce_ok_globals [OF jobs(3)] by simp
  ultimately show ?thesis by (simp add: sys_inv_def)
qed

text \<open>No job is affected where the registered classes of jobs and their processes stay.\<close>

lemma job_class_there:
  assumes "sys_inv w X s" and "s_jobs s j = Some job"
  shows "j_class job \<in> set (s_registered s)" and "j \<in> set (s_instances s)"
  using assms by (auto simp: sys_inv_def store_ok_def job_fit_def)

lemma class_count_upd:
  assumes "finite (dom (s_classes s))" and "s_classes s cid = Some cls" and "s_classes s' = (s_classes s)(cid \<mapsto> cls')"
  shows "class_count s' i + count_list (class_refs cls) i = class_count s i + count_list (class_refs cls') i"
proof -
  have fin: "finite (dom (s_classes s'))" using assms(1,3) by simp
  have "(\<Sum>c\<in>dom (s_classes s') - {cid}. count_list (class_refs (the (s_classes s' c))) i) =
      (\<Sum>c\<in>dom (s_classes s) - {cid}. count_list (class_refs (the (s_classes s c))) i)"
    by (rule sum.cong) (auto simp: assms(3))
  then show ?thesis using class_count_split [OF assms(1,2)] class_count_split [OF fin, of cid cls'] assms(3) by simp
qed

lemma class_count_new:
  assumes "finite (dom (s_classes s))" and "s_classes s cid = None" and "s_classes s' = (s_classes s)(cid \<mapsto> cls)"
  shows "class_count s' i = class_count s i + count_list (class_refs cls) i"
proof -
  have fin: "finite (dom (s_classes s'))" using assms(1,3) by simp
  have "(\<Sum>c\<in>dom (s_classes s') - {cid}. count_list (class_refs (the (s_classes s' c))) i) = class_count s i"
    unfolding class_count_def by (rule sum.cong) (use assms(2,3) in auto)
  then show ?thesis using class_count_split [OF fin, of cid cls] assms(3) by simp
qed

lemma sys_inv_finite: "sys_inv w X s \<Longrightarrow> finite (dom (s_classes s))"
  by (simp add: sys_inv_def store_ok_def)

lemma sys_inv_conf:
  assumes "sys_inv w X s"
  shows "conf_fit (s_conf s)" and "c \<in> dom (s_classes s) \<Longrightarrow> c < s_next s"
  using assms by (simp_all add: sys_inv_def store_ok_def)

lemma sys_inv_class:
  assumes "sys_inv w X s" and "s_classes s cid = Some cls"
  shows "class_fit s cid cls" and "counted (\<lambda>i. class_count s i + job_count s {} i - count_list (class_refs cls) i)
    (s_events s) (class_refs cls)"
proof -
  have store: "store_ok w s" and events: "events_ok s" using assms(1) by (auto simp: sys_inv_def)
  then show "class_fit s cid cls" using assms(2) by (simp add: store_ok_def)
  have fin: "finite (dom (s_classes s))" using store by (simp add: store_ok_def)
  show "counted (\<lambda>i. class_count s i + job_count s {} i - count_list (class_refs cls) i) (s_events s) (class_refs cls)"
    using events class_count_split [OF fin assms(2)] by (simp add: counted_def events_ok_def)
qed

text \<open>A class is changed.\<close>

lemma class_change:
  assumes inv: "sys_inv w X s" and cls: "s_classes s cid = Some cls"
    and new: "class_fit s cid cls'" "c_name cls' = c_name cls" "\<And>p. has_process cls p \<Longrightarrow> has_process cls' p"
    and core: "map core evs = map core (s_events s)"
    and cnt: "\<And>i. blockers_of evs i + count_list (class_refs cls) i =
      blockers_of (s_events s) i + count_list (class_refs cls') i"
  shows "sys_inv w X (set_class cid cls' (set_events evs s))"
proof (rule sys_inv_table_step [OF inv])
  let ?s = "set_class cid cls' (set_events evs s)"
  have "class_name ?s = class_name s" using new(2) cls by (auto simp: class_name_def fun_eq_iff)
  then show "table_ok ?s" using sys_inv_table [OF inv] cls by (auto simp: table_ok_def)
  show "class_fit ?s c cls1" if "s_classes ?s c = Some cls1" for c cls1
    using that new(1) sys_inv_class(1) [OF inv, of c cls1] by (auto simp: class_fit_def split: if_splits)
  show "blockers_of (s_events ?s) i + class_count s i = blockers_of (s_events s) i + class_count ?s i" for i
    using class_count_upd [OF sys_inv_finite [OF inv] cls, of ?s cls' i] cnt [of i] by simp
  show "j_class job \<in> set (s_registered ?s) \<and>
      (\<forall>cls' p. s_classes ?s (j_class job) = Some cls' \<longrightarrow> has_process cls1 p \<longrightarrow> has_process cls' p)"
    if "s_jobs s j = Some job" "s_classes s (j_class job) = Some cls1" for j job cls1
    using job_class_there(1) [OF inv that(1)] that(2) new(3) cls by auto
qed (use sys_inv_finite [OF inv] sys_inv_conf [OF inv] cls core in auto)

lemma class_step:
  assumes inv: "sys_inv w X s" and cls: "s_classes s cid = Some cls" and same: "same_class cls cls'"
    and ok: "cond_ok (c_start_on cls')" and core: "map core evs = map core (s_events s)"
    and cnt: "\<And>i. blockers_of evs i + count_list (class_refs cls) i =
      blockers_of (s_events s) i + count_list (class_refs cls') i"
  shows "sys_inv w X (set_class cid cls' (set_events evs s)) \<and> advances s (set_class cid cls' (set_events evs s))"
proof
  have "class_fit s cid cls'"
    using same ok sys_inv_class(1) [OF inv cls] by (auto simp: same_class_def class_fit_def class_ok_def)
  then show "sys_inv w X (set_class cid cls' (set_events evs s))"
    by (rule class_change [OF inv cls _ _ _ core cnt]) (use same in \<open>auto simp: same_class_def has_process_def\<close>)
  show "advances s (set_class cid cls' (set_events evs s))" using core cls by (auto simp: advances_def)
qed

lemma class_condition:
  assumes inv: "sys_inv w X s" and cls: "s_classes s cid = Some cls" and t: "c_start_on cls = Some t"
  shows "oper_ok t" and "\<exists>R. counted R (s_events s) ([] @ oper_refs t @ cond_refs (c_stop_on cls))"
    and "set (oper_refs t) \<subseteq> event_ids (s_events s)"
proof -
  show "oper_ok t" using sys_inv_class(1) [OF inv cls] t by (simp add: class_fit_def class_ok_def cond_ok_def)
  show c: "\<exists>R. counted R (s_events s) ([] @ oper_refs t @ cond_refs (c_stop_on cls))"
    using sys_inv_class(2) [OF inv cls] t by (auto simp: class_refs_def cond_refs_def)
  then show "set (oper_refs t) \<subseteq> event_ids (s_events s)" using counted_refs_present by blast
qed

lemma class_start_on:
  assumes inv: "sys_inv w X s" and cls: "s_classes s cid = Some cls" and t: "c_start_on cls = Some t"
    and "oper_ok t'" and "map core evs = map core (s_events s)"
    and old: "counted R (s_events s) ([] @ oper_refs t @ cond_refs (c_stop_on cls))"
    and new: "counted R evs ([] @ oper_refs t' @ cond_refs (c_stop_on cls))"
  defines "s' \<equiv> set_class cid (cls\<lparr>c_start_on := Some t'\<rparr>) (set_events evs s)"
  shows "sys_inv w X s' \<and> advances s s'"
  unfolding s'_def
proof (rule class_step [OF inv cls])
  show "same_class cls (cls\<lparr>c_start_on := Some t'\<rparr>)"
    unfolding same_class_def by (rule exI [of _ "Some t'"], rule exI [of _ "c_cgmanager_wait cls"]) simp
  show "blockers_of evs i + count_list (class_refs cls) i =
      blockers_of (s_events s) i + count_list (class_refs (cls\<lparr>c_start_on := Some t'\<rparr>)) i" for i
    using old new t by (simp add: counted_def class_refs_def cond_refs_def)
qed (use assms in \<open>simp_all add: cond_ok_def\<close>)

lemma handle_start_on_inv:
  assumes inv: "sys_inv w X s" and cls: "s_classes s cid = Some cls" and t: "c_start_on cls = Some t"
    and ev: "event_valid (s_events s) i"
  shows "\<exists>matched holds s'. handle_start_on i cid s = Some (matched, holds, s') \<and> sys_inv w X s' \<and> advances s s' \<and>
    (\<exists>cls'. s_classes s' cid = Some cls' \<and> c_start_on cls' \<noteq> None)"
proof -
  obtain R where R: "counted R (s_events s) ([] @ oper_refs t @ cond_refs (c_stop_on cls))"
    using class_condition(2) [OF assms(1-3)] by blast
  obtain t' matched evs where h: "event_operator_handle t i [] (s_events s) = Some (t', matched, evs)" "oper_ok t'"
    "counted R evs ([] @ oper_refs t' @ cond_refs (c_stop_on cls))" "map core evs = map core (s_events s)"
    using handle_counted [OF class_condition(1) [OF assms(1-3)] ev R] by blast
  from class_start_on [OF assms(1-3) h(2,4) R h(3)] show ?thesis
    using cls t h(1) by (simp add: handle_start_on_def)
qed

lemma reset_start_on_inv:
  assumes inv: "sys_inv w X s" and cls: "s_classes s cid = Some cls"
  shows "\<exists>s'. reset_start_on cid s = Some s' \<and> sys_inv w X s' \<and> advances s s' \<and>
    (\<exists>cls'. s_classes s' cid = Some cls' \<and> (c_start_on cls \<noteq> None \<longrightarrow> c_start_on cls' \<noteq> None))"
proof (cases "c_start_on cls")
  case None
  then show ?thesis using assms by (simp add: reset_start_on_def)
next
  case (Some t)
  obtain R where R: "counted R (s_events s) ([] @ oper_refs t @ cond_refs (c_stop_on cls))"
    using class_condition(2) [OF assms Some] by blast
  obtain evs where h: "event_operator_reset t (s_events s) = Some (oper_clear t, evs)" "oper_ok (oper_clear t)"
    "counted R evs ([] @ oper_refs (oper_clear t) @ cond_refs (c_stop_on cls))" "map core evs = map core (s_events s)"
    using reset_counted [OF class_condition(1) [OF assms Some] R] by blast
  from class_start_on [OF assms Some h(2,4) R h(3)] show ?thesis
    using cls Some h(1) by (simp add: reset_start_on_def)
qed

lemma set_cgmanager_wait_inv:
  assumes inv: "sys_inv w X s" and cls: "s_classes s cid = Some cls"
  shows "\<exists>s'. set_cgmanager_wait b cid s = Some s' \<and> sys_inv w X s' \<and> advances s s' \<and>
    (\<exists>cls'. s_classes s' cid = Some cls' \<and> (c_start_on cls \<noteq> None \<longrightarrow> c_start_on cls' \<noteq> None))"
proof -
  let ?cls = "cls\<lparr>c_cgmanager_wait := b\<rparr>"
  have "set_events (s_events s) s = s" by (simp add: set_events_def)
  moreover have "same_class cls ?cls"
    unfolding same_class_def by (rule exI [of _ "c_start_on cls"], rule exI [of _ b]) simp
  moreover have "cond_ok (c_start_on cls)"
    using sys_inv_class(1) [OF assms] by (simp add: class_fit_def class_ok_def)
  ultimately have "sys_inv w X (set_class cid ?cls s) \<and> advances s (set_class cid ?cls s)"
    using class_step [OF assms, of ?cls "s_events s"] by (simp add: class_refs_def)
  then show ?thesis using cls by (simp add: set_cgmanager_wait_def)
qed

end
