(* ===== verification/SysLoop.thy ===== *)
theory SysLoop
  imports SysInv
begin

text \<open>
  Starting jobs and handling events keep the invariant of the daemon: \<^verbatim>\<open>job_new\<close>,
  \<^verbatim>\<open>job_class_induct_job\<close>, \<^verbatim>\<open>event_pending\<close>, \<^verbatim>\<open>event_finished\<close> and the loop \<^verbatim>\<open>event_poll\<close>.
\<close>

section \<open>New jobs\<close>

lemma job_registers:
  assumes "class_of s job = Some cls"
  shows "\<exists>p. foldM (\<lambda>conn. job_register job conn True) conns s = Some (send p s)"
  by (rule foldM_sends) (use assms in \<open>auto intro: job_register_sends\<close>)

lemma copy_counted:
  assumes "cond_ok c" and "set (cond_refs c) \<subseteq> event_ids evs"
  shows "\<exists>evs'. (case c of
        None \<Rightarrow> Some (None, evs)
      | Some t \<Rightarrow> do { (t, evs) \<leftarrow> event_operator_copy t evs; Some (Some t, evs) }) = Some (c, evs') \<and>
    map core evs' = map core evs \<and> (\<forall>i. blockers_of evs' i = blockers_of evs i + count_list (cond_refs c) i)"
proof (cases c)
  case None
  then show ?thesis by (simp add: cond_refs_def)
next
  case (Some t)
  have "counted (blockers_of evs) evs []" by (simp add: counted_def)
  with assms Some foldM_block_counted [of "oper_refs t" evs "blockers_of evs" "[]"]
  show ?thesis by (auto simp: cond_ok_def cond_refs_def event_operator_copy_eq counted_def)
qed

text \<open>The job that \<^verbatim>\<open>job_new\<close> makes.\<close>

definition new_job :: "os \<Rightarrow> JobClass \<Rightarrow> nat \<Rightarrow> string \<Rightarrow> sys \<Rightarrow> Job" where
  "new_job w cls cid name s = \<lparr>j_id = s_next s, j_name = name, j_class = cid,
     j_path = os_dbus_path w [DBUS_PATH_UPSTART, ''jobs'', c_name cls, name],
     j_goal = JOB_STOP, j_state = JOB_WAITING, j_env = [], j_start_env = None, j_stop_env = None,
     j_stop_on = c_stop_on cls, j_fds = [], j_pid = (\<lambda>_. 0), j_blocker = None, j_blocking = [],
     j_kill_timer = None, j_kill_process = PROCESS_INVALID, j_failed = False,
     j_failed_process = PROCESS_INVALID, j_exit_status = 0, j_respawn_time = 0,
     j_respawn_count = 0, j_trace_forks = 0, j_trace_state = TRACE_NONE,
     j_process_data = (\<lambda>_. None)\<rparr>"

definition add_job :: "Job \<Rightarrow> Event list \<Rightarrow> sys \<Rightarrow> sys" where
  "add_job job evs s = set_job job (s\<lparr>s_events := evs, s_next := s_next s + 1, s_instances := s_instances s @ [s_next s]\<rparr>)"

lemma add_job_sel [simp]:
  "s_events (add_job job evs s) = evs" "s_registered (add_job job evs s) = s_registered s"
  "s_sources (add_job job evs s) = s_sources s" "s_conf (add_job job evs s) = s_conf s" "s_jobs (add_job job evs s) = (s_jobs s)(j_id job \<mapsto> job)"
  "s_instances (add_job job evs s) = s_instances s @ [s_next s]" "s_next (add_job job evs s) = Suc (s_next s)"
  "s_classes (add_job job evs s) = s_classes s" "globals (add_job job evs s) = globals s"
  by (simp_all add: add_job_def)

lemma job_new_run:
  assumes inv: "sys_inv w X s" and cls: "s_classes s cid = Some cls"
  shows "\<exists>evs p. job_new w cid name s = Some (new_job w cls cid name s, send p (add_job (new_job w cls cid name s) evs s)) \<and>
    map core evs = map core (s_events s) \<and>
    (\<forall>i. blockers_of evs i = blockers_of (s_events s) i + count_list (cond_refs (c_stop_on cls)) i)"
proof -
  have cok: "cond_ok (c_stop_on cls)" "set (cond_refs (c_stop_on cls)) \<subseteq> event_ids (s_events s)"
    using sys_inv_class [OF inv cls] counted_present by (auto simp: class_fit_def class_ok_def class_refs_def)
  obtain evs where evs: "(case c_stop_on cls of
        None \<Rightarrow> Some (None, s_events s)
      | Some t \<Rightarrow> do { (t, evs) \<leftarrow> event_operator_copy t (s_events s); Some (Some t, evs) }) = Some (c_stop_on cls, evs)"
    "map core evs = map core (s_events s)"
    "\<forall>i. blockers_of evs i = blockers_of (s_events s) i + count_list (cond_refs (c_stop_on cls)) i"
    using copy_counted [OF cok] by blast
  let ?job = "new_job w cls cid name s"
  have "class_of (add_job ?job evs s) ?job = Some cls" using cls by (simp add: class_of_def new_job_def)
  then obtain p where "foldM (\<lambda>conn. job_register ?job conn True) (s_conns s) (add_job ?job evs s) =
      Some (send p (add_job ?job evs s))"
    using job_registers by blast
  then have "job_new w cid name s = Some (?job, send p (add_job ?job evs s))"
    using cls evs(1) by (simp add: job_new_def Let_def new_job_def add_job_def set_job_def)
  then show ?thesis using evs(2,3) by blast
qed

lemma add_job_inv:
  assumes inv: "sys_inv w X s" and job: "j_id job = s_next s" "j_blocker job = None"
    and fit: "job_fit w s (s_next s) job" and core: "map core evs = map core (s_events s)"
    and cnt: "\<And>i. blockers_of evs i = blockers_of (s_events s) i + count_list (job_refs job) i"
  shows "sys_inv w X (add_job job evs s)"
proof -
  let ?s = "add_job job evs s"
  have store: "store_ok w s" and events: "events_ok s" and links: "links_ok X s" and q: "quiesce_ok s"
    using inv by (auto simp: sys_inv_def)
  have new: "s_next s \<notin> dom (s_jobs s)" using store by (auto simp: store_ok_def)
  have "job_fit w ?s j job1" if "s_jobs ?s j = Some job1" for j job1
    using store that fit job by (auto simp: store_ok_def job_fit_def split: if_splits)
  moreover have "table_ok ?s = table_ok s" by (rule table_ok_cong) simp_all
  moreover have "\<forall>c cls. s_classes ?s c = Some cls \<longrightarrow> class_fit ?s c cls"
    using store by (simp add: store_ok_def class_fit_def)
  moreover have "s_job_environ ?s = s_job_environ s" by (simp add: add_job_def set_job_def)
  moreover have "\<forall>j\<in>dom (s_jobs ?s). j < s_next ?s"
    using store job by (simp add: store_ok_def) (meson less_SucI)
  moreover have "\<forall>c\<in>dom (s_classes ?s). c < s_next ?s" using store by (auto simp: store_ok_def intro: less_SucI)
  ultimately have "store_ok w ?s" using store job by (simp add: store_ok_def)
  moreover have "events_ok ?s"
  proof (rule level_events [OF events])
    fix i
    have "job_count ?s {} i = count_list (job_refs job) i + job_count ?s {s_next s} i"
      by (rule job_count_split) (use store job in \<open>simp_all add: store_ok_def\<close>)
    moreover have "job_count ?s {s_next s} i = job_count s {s_next s} i" by (rule job_count_agree) (simp add: job)
    moreover have "job_count s {s_next s} i = job_count s {} i" using job_count_gone [of s "s_next s"] new by (simp add: domIff)
    moreover have "class_count ?s i = class_count s i" by (rule class_count_cong) simp
    ultimately show "blockers_of (s_events ?s) i = class_count ?s i + job_count ?s {} i"
      using cnt [of i] events by (simp add: events_ok_def)
  qed (simp_all add: core)
  moreover have "links_ok X ?s"
  proof -
    have "links_ok X (s\<lparr>s_events := evs\<rparr>)" by (rule level_links [OF links]) (simp_all add: core)
    moreover have "blocks_ok (s\<lparr>s_events := evs\<rparr>) e \<Longrightarrow> blocks_ok ?s e" for e
      using new job by (auto simp: blocks_ok_def)
    ultimately show ?thesis using job by (auto simp: links_ok_def blocker_ok_def)
  qed
  moreover have "quiesce_ok ?s" using q quiesce_ok_globals [of ?s s] by simp
  ultimately show ?thesis by (simp add: sys_inv_def)
qed

lemma job_new_inv:
  assumes inv: "sys_inv w X s" and cls: "s_classes s cid = Some cls" and reg: "cid \<in> set (s_registered s)"
  shows "\<exists>job s'. job_new w cid name s = Some (job, s') \<and> sys_inv w X s' \<and> advances s s' \<and>
    s_jobs s' (j_id job) = Some job \<and> j_class job = cid \<and> s_classes s' = s_classes s"
proof -
  let ?job = "new_job w cls cid name s"
  obtain evs p where run: "job_new w cid name s = Some (?job, send p (add_job ?job evs s))"
    "map core evs = map core (s_events s)"
    "\<And>i. blockers_of evs i = blockers_of (s_events s) i + count_list (cond_refs (c_stop_on cls)) i"
    using job_new_run [OF inv cls] by blast
  have "cond_ok (c_stop_on cls)" using sys_inv_class(1) [OF inv cls] by (simp add: class_fit_def class_ok_def)
  then have "job_fit w s (s_next s) ?job"
    using reg by (simp add: new_job_def job_fit_def between_calls_def blocking_ok_def tracked_def quiet_def)
  then have "sys_inv w X (add_job ?job evs s)"
    using run(2,3) by (intro add_job_inv [OF inv]) (simp_all add: new_job_def job_refs_def blocked_refs_def)
  moreover have "advances s (send p (add_job ?job evs s))" using run(2) by (auto simp: advances_def)
  ultimately show ?thesis using run(1) by (simp add: new_job_def)
qed


section \<open>Starting the job of a class\<close>

lemma instance_lookup_Some:
  assumes "instance_lookup cid name s = Some jid"
  shows "\<exists>job. s_jobs s jid = Some job \<and> j_class job = cid"
proof -
  have "jid \<in> set (class_instances s cid)"
    using assms by (auto simp: instance_lookup_def find_Some_iff)
  then show ?thesis by (auto simp: class_instances_def split: option.splits)
qed

text \<open>The instance is found or made.\<close>

lemma induct_instance:
  assumes inv: "sys_inv w X s" and cls: "s_classes s cid = Some cls" and reg: "cid \<in> set (s_registered s)"
  shows "\<exists>job s1. (case instance_lookup cid name s of
        Some jid \<Rightarrow> do { job \<leftarrow> s_jobs s jid; Some (job, s) }
      | None \<Rightarrow> job_new w cid name s) = Some (job, s1) \<and> sys_inv w X s1 \<and> advances s s1 \<and>
    s_jobs s1 (j_id job) = Some job \<and> j_class job = cid \<and> s_classes s1 = s_classes s"
proof (cases "instance_lookup cid name s")
  case None
  then show ?thesis using job_new_inv [OF assms] by simp
next
  case (Some jid)
  then obtain job where job: "s_jobs s jid = Some job" "j_class job = cid" using instance_lookup_Some by blast
  moreover have "j_id job = jid" using inv job(1) by (simp add: sys_inv_def store_ok_def job_fit_def)
  ultimately show ?thesis using Some inv by simp
qed

lemma working_induct_start:
  assumes wk: "working w X cls s job0 s1 job1" and "oper_ok t" and "set (oper_refs t) \<subseteq> event_ids (s_events s1)"
  shows "\<exists>s2 job2. induct_start w t env s1 job1 = Some (s2, job2) \<and> working w X cls s job0 s2 job2 \<and>
    event_ids (s_events s2) = event_ids (s_events s1)"
proof (cases "j_goal job1 = JOB_START")
  case True
  then show ?thesis using wk by (simp add: induct_start_def)
next
  case False
  have "working w X cls s job0 s1 (job1\<lparr>j_start_env := Some env\<rparr>)"
    by (rule working_job [OF wk]) (simp_all add: same_phase_def)
  then obtain s2 where s2: "job_finished False s1 (job1\<lparr>j_start_env := Some env\<rparr>) =
      Some (s2, job1\<lparr>j_start_env := Some env, j_blocking := []\<rparr>)"
    "working w X cls s job0 s2 (job1\<lparr>j_start_env := Some env, j_blocking := []\<rparr>)"
    using working_finished by fastforce
  have "map core (s_events s2) = map core (s_events s1)" using job_finished_still [OF s2(1)] by (simp add: still_def)
  from arg_cong [OF this, of "map e_id"] have "map e_id (s_events s2) = map e_id (s_events s1)" by (simp add: comp_def)
  then have ids: "event_ids (s_events s2) = event_ids (s_events s1)" by (metis event_ids_def list.set_map)
  obtain fds env' where fds: "event_operator_fds (os_getenv w) t (s_events s2) env ''UPSTART_FDS'' = Some (fds, env')"
    using matched_events_filtered [of t "s_events s2"] assms(2,3) ids oper_ok_not_Leaf [OF assms(2)]
    by (auto simp: event_operator_fds_def fds_loop_eq Let_def)
  have "working w X cls s job0 s2 (job1\<lparr>j_blocking := [], j_fds := fds, j_start_env := Some env'\<rparr>)"
    by (rule working_job [OF s2(2)]) (simp_all add: same_phase_def)
  then show ?thesis using False s2(1) fds ids by (simp add: induct_start_def)
qed

lemma working_induct_block:
  assumes wk: "working w X cls s job0 s1 job1" and "oper_ok t" and "set (oper_refs t) \<subseteq> event_ids (s_events s1)"
  shows "\<exists>s2 job2. induct_block t s1 job1 = Some (s2, job2) \<and> working w X cls s job0 s2 job2"
proof -
  have "class_of s1 job1 = Some cls" using wk by (simp add: working_def job_ok_def)
  then show ?thesis using working_block [OF assms] wk by (auto simp: induct_block_def)
qed


lemma job_change_goal_start_kept:
  assumes "job_change_goal w JOB_START s job = Some (s', r)" and "between_calls job"
  shows "r \<noteq> None"
proof (cases "j_goal job \<noteq> JOB_START \<and> j_state job = JOB_WAITING")
  case False
  then show ?thesis using assms(1) by (auto simp: job_change_goal_def set_goal_def split: if_splits)
next
  case True
  obtain s1 job1 where sg: "set_goal JOB_START s job = (s1, job1)" by (cases "set_goal JOB_START s job")
  then have "j_state job1 = JOB_WAITING" "j_goal job1 = JOB_START" using True by (auto simp: set_goal_def)
  then have "job_change_state w JOB_STARTING s1 job1 = Some (s', r)"
    using assms(1) True sg by (simp add: job_change_goal_def job_next_state_def)
  then show ?thesis using job_change_state_not_freed by simp
qed

lemma advances_class: "advances s s' \<Longrightarrow> s_classes s cid = Some cls \<Longrightarrow> \<exists>cls'. s_classes s' cid = Some cls'"
  by (auto simp: advances_def)

lemma reset_start_on_frame: "reset_start_on cid s = Some s' \<Longrightarrow> c \<noteq> cid \<Longrightarrow> s_classes s' c = s_classes s c"
  by (auto simp: reset_start_on_def set_class_def set_events_def split: option.splits elim!: bind_eq_Some_E)

lemma job_class_induct_job_inv:
  assumes inv: "sys_inv w X s" and cls: "s_classes s cid = Some cls" and t: "c_start_on cls = Some t"
    and reg: "cid \<in> set (s_registered s)" and w: "os_ok w"
  shows "\<exists>ok s'. job_class_induct_job w cid s = Some (ok, s') \<and> sys_inv w X s' \<and> advances s s' \<and>
    (\<forall>c. c \<noteq> cid \<longrightarrow> s_classes s' c = s_classes s c)"
proof -
  note cond = class_condition [OF inv cls t]
  obtain env0 where env0: "job_class_environment w cls s = Some env0"
    using inv by (auto simp: sys_inv_def store_ok_def job_class_environment_def)
  obtain env where env: "event_operator_environment (os_getenv w) t (s_events s) (Some env0) (Some ''UPSTART_EVENTS'') = Some env"
    using environment_total [OF cond(1,3)] by blast
  obtain pattern where pattern: "c_instance cls = Some pattern"
    using sys_inv_class(1) [OF inv cls] by (auto simp: class_fit_def)
  show ?thesis
  proof (cases "environ_expand env pattern")
    case (Inl e)
    then show ?thesis
      using reset_start_on_inv [OF inv cls] reset_start_on_frame cls t env0 env pattern
      by (auto simp: job_class_induct_job_def)
  next
    case (Inr name)
    obtain job s1 where 1: "(case instance_lookup cid name s of
          Some jid \<Rightarrow> do { job \<leftarrow> s_jobs s jid; Some (job, s) }
        | None \<Rightarrow> job_new w cid name s) = Some (job, s1)" "sys_inv w X s1" "advances s s1"
        "s_jobs s1 (j_id job) = Some job" "j_class job = cid" "s_classes s1 = s_classes s"
      using induct_instance [OF inv cls reg] by blast
    obtain cls1 where wk: "working w X cls1 s1 job s1 job" using working_start [OF 1(2,4) w] by blast
    have pres: "set (oper_refs t) \<subseteq> event_ids (s_events s1)" using class_condition(3) [OF 1(2) _ t] cls 1(6) by simp
    obtain s2 job2 where 2: "induct_start w t env s1 job = Some (s2, job2)" "working w X cls1 s1 job s2 job2"
      "event_ids (s_events s2) = event_ids (s_events s1)"
      using working_induct_start [OF wk cond(1) pres] by blast
    obtain s3 job3 where 3: "induct_block t s2 job2 = Some (s3, job3)" "working w X cls1 s1 job s3 job3"
      using working_induct_block [OF 2(2) cond(1)] pres 2(3) by auto
    obtain s4 r where 4: "job_change_goal w JOB_START s3 job3 = Some (s4, r)" "sys_inv w X (put_job (s4, r))"
      "\<And>job'. r = Some job' \<Longrightarrow> working w X cls1 s1 job s4 job'"
      using working_goal [OF 1(2) 3(2) w, of JOB_START] by auto
    obtain job4 where r: "r = Some job4"
      using job_change_goal_start_kept [OF 4(1)] 3(2) by (auto simp: working_def)
    have adv: "advances s (put_job (s4, r))"
      using 1(3) working_advances [OF 4(3) [OF r]] advances_trans by (simp add: r put_job_def)
    obtain cls4 where cls4: "s_classes (put_job (s4, r)) cid = Some cls4" using advances_class [OF adv cls] by blast
    obtain s5 where 5: "reset_start_on cid (put_job (s4, r)) = Some s5" "sys_inv w X s5" "advances (put_job (s4, r)) s5"
      using reset_start_on_inv [OF 4(2) cls4] by blast
    have run: "job_class_induct_job w cid s = Some (True, s5)"
      using Inr cls t env0 env pattern 1(1) 2(1) 3(1) 4(1) 5(1) by (simp add: job_class_induct_job_def)
    have "calm s1 s4" using 4(3) [OF r] by (simp add: working_def)
    then have "s_classes (put_job (s4, r)) = s_classes s"
      using calm_sel(1) [of s1 s4] 1(6) by (simp add: r put_job_def set_job_def)
    then show ?thesis
      using run 5 advances_trans [OF adv] reset_start_on_frame [OF 5(1)] by (intro exI [of _ True] exI [of _ s5]) simp
  qed
qed

section \<open>Pending events\<close>

lemma event_valid_advances:
  assumes "advances s s'" and "event_valid (s_events s) i"
  shows "event_valid (s_events s') i"
proof -
  obtain e where e: "event_get i (s_events s) = Some e" "\<forall>v\<in>set (e_env e). entry_valid v"
    using assms(2) by (auto simp: event_valid_def split: option.splits)
  obtain e' where "event_get i (s_events s') = Some e'" "core e' = core e"
    using advances_event [OF assms(1) e(1)] by blast
  then show ?thesis using e(2) core_eq_sel [of e' e] by (simp add: event_valid_def)
qed

lemma stop_instances_inv:
  assumes "sys_inv w X s" and "set jids \<subseteq> dom (s_jobs s)" and "os_ok w" and "event_valid (s_events s) i"
  shows "\<exists>s'. foldM (stop_instance w i) jids s = Some s' \<and> sys_inv w X s' \<and> advances s s'"
  using assms(1,2,4)
proof (induction jids arbitrary: s)
  case Nil
  then show ?case by simp
next
  case (Cons jid jids)
  then obtain s1 where s1: "stop_instance w i jid s = Some s1" "sys_inv w X s1" "advances s s1"
    using stop_instance_inv [OF Cons.prems(1) _ assms(3) Cons.prems(3), of jid] by auto
  moreover have "set jids \<subseteq> dom (s_jobs s1)" using Cons.prems(2) s1(3) by (auto simp: advances_def)
  ultimately show ?case
    using Cons.IH [OF s1(2)] event_valid_advances [OF s1(3) Cons.prems(3)] advances_trans by fastforce
qed


lemma await_cgmanager_inv:
  assumes inv: "sys_inv w X s" and cls: "s_classes s cid = Some cls" and t: "c_start_on cls = Some t"
    and ev: "event_valid (s_events s) i"
  shows "\<exists>go s'. await_cgmanager i cid s = Some (go, s') \<and> sys_inv w X s' \<and> advances s s' \<and>
    (\<exists>cls'. s_classes s' cid = Some cls' \<and> c_start_on cls' \<noteq> None)"
proof (cases "job_class_cgroups cls")
  case False
  then show ?thesis using inv cls t by (auto simp: await_cgmanager_def)
next
  case True
  obtain s2 where 2: "reset_start_on cid s = Some s2" "sys_inv w X s2" "advances s s2"
    and cls2: "\<exists>cls2. s_classes s2 cid = Some cls2 \<and> c_start_on cls2 \<noteq> None"
    using reset_start_on_inv [OF inv cls] t by auto
  obtain s3 where 3: "set_cgmanager_wait False cid s2 = Some s3" "sys_inv w X s3" "advances s2 s3"
    "\<exists>cls3. s_classes s3 cid = Some cls3 \<and> c_start_on cls3 \<noteq> None"
    using set_cgmanager_wait_inv [OF 2(2)] cls2 by blast
  obtain m h s4 where 4: "handle_start_on i cid s = Some (m, h, s4)" "sys_inv w X s4" "advances s s4"
    and cls4: "\<exists>cls4. s_classes s4 cid = Some cls4 \<and> c_start_on cls4 \<noteq> None"
    using handle_start_on_inv [OF inv cls t ev] by blast
  obtain s5 where 5: "set_cgmanager_wait True cid s4 = Some s5" "sys_inv w X s5" "advances s4 s5"
    "\<exists>cls5. s_classes s5 cid = Some cls5 \<and> c_start_on cls5 \<noteq> None"
    using set_cgmanager_wait_inv [OF 4(2)] cls4 by blast
  have "advances s s3" "advances s s5"
    using 2(3) 3(3) 4(3) 5(3) advances_trans by blast+
  then show ?thesis
    using True inv cls t 2(1) 3 4 5 cls4
    by (cases "c_cgmanager_wait cls"; cases "cgroup_manager_available s"; cases m) (auto simp: await_cgmanager_def)
qed

lemma start_class_inv:
  assumes inv: "sys_inv w X s" and cls: "s_classes s cid = Some cls" and reg: "cid \<in> set (s_registered s)"
    and ev: "event_valid (s_events s) i" and w: "os_ok w"
  shows "\<exists>ok s'. start_class w i cid s = Some (ok, s') \<and> sys_inv w X s' \<and> advances s s'"
proof (cases "c_start_on cls")
  case None
  then show ?thesis using inv cls by (auto simp: start_class_def)
next
  case (Some t)
  obtain go s1 cls1 where 1: "await_cgmanager i cid s = Some (go, s1)" "sys_inv w X s1" "advances s s1"
    "s_classes s1 cid = Some cls1" "c_start_on cls1 \<noteq> None"
    using await_cgmanager_inv [OF inv cls Some ev] by blast
  then obtain t1 where t1: "c_start_on cls1 = Some t1" by blast
  obtain m h s2 cls2 where 2: "handle_start_on i cid s1 = Some (m, h, s2)" "sys_inv w X s2" "advances s1 s2"
    "s_classes s2 cid = Some cls2" "c_start_on cls2 \<noteq> None"
    using handle_start_on_inv [OF 1(2,4) t1 event_valid_advances [OF 1(3) ev]] by blast
  then obtain t2 where t2: "c_start_on cls2 = Some t2" by blast
  have adv: "advances s s2" using 1(3) 2(3) by (rule advances_trans)
  then have "cid \<in> set (s_registered s2)" using reg by (simp add: advances_def)
  then obtain ok s3 where "job_class_induct_job w cid s2 = Some (ok, s3)" "sys_inv w X s3" "advances s2 s3"
    using job_class_induct_job_inv [OF 2(2,4) t2 _ w] by blast
  then show ?thesis using Some cls 1 2 adv advances_trans [OF adv] by (auto simp: start_class_def)
qed

lemma class_instances_dom: "set (class_instances s cid) \<subseteq> dom (s_jobs s)"
  by (auto simp: class_instances_def split: option.splits)

lemma handle_classes_inv:
  assumes "sys_inv w X s" and "set cids \<subseteq> set (s_registered s)" and "event_valid (s_events s) i" and w: "os_ok w"
  shows "\<exists>ok s'. handle_classes w i cids s = Some (ok, s') \<and> sys_inv w X s' \<and> advances s s'"
  using assms(1-3)
proof (induction cids arbitrary: s)
  case Nil
  then show ?case by auto
next
  case (Cons cid cids)
  obtain s1 where 1: "foldM (stop_instance w i) (class_instances s cid) s = Some s1" "sys_inv w X s1" "advances s s1"
    using stop_instances_inv [OF Cons.prems(1) class_instances_dom w Cons.prems(3)] by blast
  have reg: "cid \<in> set (s_registered s1)" "set cids \<subseteq> set (s_registered s1)"
    using Cons.prems(2) 1(3) by (auto simp: advances_def)
  then obtain cls where "s_classes s1 cid = Some cls"
    using 1(2) by (auto simp: sys_inv_def store_ok_def table_ok_def)
  then obtain ok s2 where 2: "start_class w i cid s1 = Some (ok, s2)" "sys_inv w X s2" "advances s1 s2"
    using start_class_inv [OF 1(2) _ reg(1) event_valid_advances [OF 1(3) Cons.prems(3)] w] by blast
  have adv: "advances s s2" using 1(3) 2(3) by (rule advances_trans)
  have "set cids \<subseteq> set (s_registered s2)" using reg(2) 2(3) by (simp add: advances_def)
  then show ?case
    using Cons.IH [OF 2(2) _ event_valid_advances [OF adv Cons.prems(3)]] 1(1) 2 adv advances_trans [OF adv]
    by (cases ok) auto
qed

lemma upd_quiesce_inv:
  assumes "sys_inv w X s" and "quiesce_ok (upd_quiesce f s)"
  shows "sys_inv w X (upd_quiesce f s) \<and> advances s (upd_quiesce f s)"
proof -
  have "sys_inv w X (upd_quiesce f s) = sys_inv w X s"
    using assms by (intro sys_inv_cong) (simp_all add: upd_quiesce_def sys_inv_def)
  then show ?thesis using assms(1) by (simp add: advances_def upd_quiesce_def)
qed

text \<open>The end of the clean-up, with the timer as it is or cancelled.\<close>

lemma quiesce_finalise_inv:
  assumes inv: "sys_inv w X s" and start: "q_start_time (s_quiesce s) \<noteq> 0"
  shows "\<exists>s'. quiesce_finalise w (upd_quiesce (\<lambda>q. q\<lparr>q_phase := QUIESCE_PHASE_CLEANUP\<rparr>) s) = Some s' \<and>
    sys_inv w X s' \<and> advances s s' \<and> s_quiesce s' = (s_quiesce s)\<lparr>q_phase := QUIESCE_PHASE_CLEANUP, q_finalising := True\<rparr>"
proof -
  let ?f = "\<lambda>q. q\<lparr>q_phase := QUIESCE_PHASE_CLEANUP\<rparr>" and ?g = "\<lambda>q. q\<lparr>q_phase := QUIESCE_PHASE_CLEANUP, q_finalising := True\<rparr>"
  have s2: "sys_inv w X (upd_quiesce ?g s)" "advances s (upd_quiesce ?g s)"
    using upd_quiesce_inv [OF inv, of ?g] start by (simp_all add: quiesce_ok_def upd_quiesce_def)
  have twice: "upd_quiesce (\<lambda>q. q\<lparr>q_finalising := True\<rparr>) (upd_quiesce ?f s) = upd_quiesce ?g s"
    by (simp add: upd_quiesce_def)
  obtain b s3 where c: "call (os_time w) (upd_quiesce ?g s) = (b, s3)" by (meson surj_pair)
  have s3: "sys_inv w X (send [MainLoopExit 0] s3)" "advances s (send [MainLoopExit 0] s3)"
    using s2 sys_inv_call [OF c] c by (auto simp: call_def advances_def upd_quiesce_def)
  show ?thesis
  proof (cases "q_finalising (s_quiesce s)")
    case True
    then have "upd_quiesce ?f s = upd_quiesce ?g s" by (simp add: upd_quiesce_def)
    moreover have "quiesce_finalise w (upd_quiesce ?f s) = Some (upd_quiesce ?f s)"
      using start True by (simp add: quiesce_finalise_def upd_quiesce_def)
    ultimately show ?thesis using s2 by (simp add: upd_quiesce_def)
  next
    case False
    then have "quiesce_finalise w (upd_quiesce ?f s) = Some (send [MainLoopExit 0] s3)"
      using start c twice by (simp add: quiesce_finalise_def upd_quiesce_def)
    moreover have "s_quiesce (send [MainLoopExit 0] s3) = ?g (s_quiesce s)"
      using c by (auto simp: call_def upd_quiesce_def send_def)
    ultimately show ?thesis using s3 by simp
  qed
qed

lemma quiesce_complete_inv:
  assumes "sys_inv w X s" and "quiesce_in_progress s"
  shows "\<exists>s'. quiesce_complete w s = Some s' \<and> sys_inv w X s' \<and> advances s s'"
proof -
  have "q_start_time (s_quiesce s) \<noteq> 0" using assms by (simp add: sys_inv_def quiesce_ok_def)
  from quiesce_finalise_inv [OF assms(1) this] show ?thesis by (auto simp: quiesce_complete_def)
qed

section \<open>The progress of events\<close>

lemma set_progress_sel [simp]:
  "s_registered (set_progress p i s) = s_registered s" "s_sources (set_progress p i s) = s_sources s" "s_conf (set_progress p i s) = s_conf s"
  "s_jobs (set_progress p i s) = s_jobs s" "s_instances (set_progress p i s) = s_instances s"
  "s_next (set_progress p i s) = s_next s" "s_classes (set_progress p i s) = s_classes s"
  "s_events (set_progress p i s) = event_upd i (\<lambda>e. e\<lparr>e_progress := p\<rparr>) (s_events s)"
  "globals (set_progress p i s) = globals s"
  by (simp_all add: set_progress_def)

lemma set_progress_inv:
  assumes inv: "sys_inv w X s" and "p = EVENT_FINISHED \<longrightarrow> i \<in> Y" and "X \<subseteq> Y"
  shows "sys_inv w Y (set_progress p i s)"
proof -
  let ?s = "set_progress p i s" and ?f = "\<lambda>e. e\<lparr>e_progress := p\<rparr>"
  have store: "store_ok w s" and events: "events_ok s" and links: "links_ok X s" and q: "quiesce_ok s"
    using inv by (auto simp: sys_inv_def)
  have "table_ok ?s = table_ok s" by (rule table_ok_cong) simp_all
  moreover have "s_job_environ ?s = s_job_environ s" by (simp add: set_progress_def set_events_def)
  ultimately have "store_ok w ?s" using store by (simp add: store_ok_def class_fit_def job_fit_def)
  moreover have "events_ok ?s"
  proof -
    have "blockers_of (s_events ?s) = blockers_of (s_events s)"
      by (auto simp: fun_eq_iff blockers_of_def event_get_upd split: option.splits)
    moreover have "class_count ?s j = class_count s j" "job_count ?s {} j = job_count s {} j" for j
      by (simp_all add: class_count_def job_count_def)
    moreover have "\<forall>e\<in>set (s_events ?s). \<forall>v\<in>set (e_env e). entry_valid v"
      using events by (auto simp: events_ok_def event_upd_def)
    ultimately show ?thesis using events by (simp add: events_ok_def fresh_ok_def)
  qed
  moreover have "links_ok Y ?s"
  proof -
    have "blocks_ok ?s e \<and> e_progress e \<noteq> EVENT_FINISHED" if e: "e \<in> set (s_events ?s)" "e_id e \<notin> Y" for e
    proof -
      obtain e0 where e0: "e0 \<in> set (s_events s)" "e = (if e_id e0 = i then ?f e0 else e0)"
        using e(1) by (auto simp: event_upd_def)
      then have "e_id e0 \<notin> X" using e(2) assms(3) by (auto split: if_splits)
      then have "blocks_ok s e0" "e_progress e0 \<noteq> EVENT_FINISHED" using links e0(1) by (auto simp: links_ok_def)
      then show ?thesis using e0(2) e(2) assms(2) by (auto simp: blocks_ok_def)
    qed
    moreover have "blocker_ok ?s jid j" if old: "blocker_ok s jid j" for jid j
    proof -
      obtain e where e: "e \<in> set (s_events s)" "e_id e = j" "blocked_new BLOCKED_JOB jid \<in> set (e_blocking e)"
        using old by (auto simp: blocker_ok_def)
      let ?e = "if e_id e = i then ?f e else e"
      have "?e \<in> set (s_events ?s)" using e(1) by (auto simp: event_upd_def)
      moreover have "e_id ?e = j" "e_blocking ?e = e_blocking e" using e(2) by simp_all
      ultimately show ?thesis using e(3) unfolding blocker_ok_def by metis
    qed
    ultimately show ?thesis using links assms(3) by (simp add: links_ok_def) blast
  qed
  moreover have "quiesce_ok ?s" using q quiesce_ok_globals [of ?s s] by simp
  ultimately show ?thesis by (simp add: sys_inv_def)
qed

lemma event_pending_inv:
  assumes inv: "sys_inv w X s" and w: "os_ok w" and e: "event_get i (s_events s) = Some e"
    and pending: "e_progress e = EVENT_PENDING"
  shows "\<exists>s' e'. event_pending w i s = Some s' \<and> sys_inv w X s' \<and> event_get i (s_events s') = Some e' \<and>
    e_progress e' = EVENT_HANDLING \<and> advances (set_progress EVENT_HANDLING i s) s'"
proof -
  let ?s = "set_progress EVENT_HANDLING i s"
  have inv0: "sys_inv w X ?s" by (rule set_progress_inv [OF inv]) simp_all
  have get0: "event_get i (s_events ?s) = Some (e\<lparr>e_progress := EVENT_HANDLING\<rparr>)" using e by (simp add: event_get_upd)
  have "\<forall>v\<in>set (e_env e). entry_valid v" using inv event_get_set [OF e] by (auto simp: sys_inv_def events_ok_def)
  then have "event_valid (s_events ?s) i" using get0 by (simp add: event_valid_def)
  then obtain ok s1 where 1: "handle_classes w i (s_registered ?s) ?s = Some (ok, s1)" "sys_inv w X s1" "advances ?s s1"
    using handle_classes_inv [OF inv0 _ _ w] by blast
  have "\<exists>s2. event_pending_handle_jobs w i ?s = Some s2 \<and> sys_inv w X s2 \<and> advances ?s s2"
    using 1 quiesce_complete_inv [OF 1(2)] advances_trans [OF 1(3)]
    by (cases ok; cases "quiesce_in_progress s1"; cases "all_instances s1 = []")
      (auto simp: event_pending_handle_jobs_def)
  then obtain s2 where "event_pending_handle_jobs w i ?s = Some s2" "sys_inv w X s2" "advances ?s s2" by blast
  moreover obtain e' where "event_get i (s_events s2) = Some e'" "core e' = core (e\<lparr>e_progress := EVENT_HANDLING\<rparr>)"
    using advances_event [OF calculation(3) get0] by blast
  moreover have "e_progress e' = EVENT_HANDLING" using core_eq_sel [OF calculation(5)] by simp
  ultimately show ?thesis using e pending by (simp add: event_pending_def)
qed


lemma event_get_prefix:
  assumes "map core evs' = map core evs @ new" and "event_get i evs = Some e"
  shows "\<exists>e'. event_get i evs' = Some e' \<and> core e' = core e"
proof -
  have get: "event_get i (map core evs) = map_option core (event_get i evs)" for evs
    by (induction evs) (auto simp: event_get_Cons)
  have "event_get i (map core evs') = Some (core e)"
    using assms get [of evs] by (simp add: event_get_append)
  then show ?thesis using get by auto
qed

section \<open>Finished events\<close>

definition new_event :: "string \<Rightarrow> string list \<Rightarrow> int \<Rightarrow> Blocked list \<Rightarrow> nat \<Rightarrow> Event" where
  "new_event name env fd blocking i = \<lparr>e_id = i, e_name = name, e_env = env, e_fd = fd, e_progress = EVENT_PENDING,
     e_failed = False, e_blockers = 0, e_blocking = blocking\<rparr>"

definition add_event :: "Event \<Rightarrow> sys \<Rightarrow> sys" where
  "add_event e s = send [MainLoopInterrupt] (s\<lparr>s_events := s_events s @ [e], s_next := s_next s + 1\<rparr>)"

lemma event_create_run:
  "name \<noteq> [] \<Longrightarrow> event_create name env s = Some (s_next s, add_event (new_event name env (-1) [] (s_next s)) s)"
  by (simp add: event_create_def event_new_def add_event_def new_event_def)

lemma add_event_inv:
  assumes inv: "sys_inv w X s" and env: "\<forall>v\<in>set env. entry_valid v" and emit: "\<forall>b\<in>set blocking. b_type b = BLOCKED_EMIT_METHOD"
    and s'_def: "s' = add_event (new_event name env fd blocking (s_next s)) s"
  shows "sys_inv w X s' \<and> advances s s' \<and> s_jobs s' = s_jobs s \<and> blockers_of (s_events s') = blockers_of (s_events s)"
proof -
  have store: "store_ok w s" and events: "events_ok s" and links: "links_ok X s" and q: "quiesce_ok s"
    using inv by (auto simp: sys_inv_def)
  have fresh: "fresh_ok s" using events by (simp add: events_ok_def)
  let ?e = "new_event name env fd blocking (s_next s)"
  have s': "s' = send [MainLoopInterrupt] (s\<lparr>s_events := s_events s @ [?e], s_next := s_next s + 1\<rparr>)"
    by (simp add: s'_def add_event_def)
  have new: "s_next s \<notin> event_ids (s_events s)" using fresh by (auto simp: fresh_ok_def)
  have blockers: "blockers_of (s_events s @ [?e]) = blockers_of (s_events s)"
    using new by (auto simp: fun_eq_iff blockers_of_def event_get_append event_get_Cons new_event_def split: option.splits)
  have "table_ok s' = table_ok s" by (rule table_ok_cong) (simp_all add: s')
  moreover have "s_job_environ s' = s_job_environ s" by (simp add: s' send_def)
  ultimately have "store_ok w s'"
    using store by (simp add: s' store_ok_def class_fit_def job_fit_def) (meson less_SucI)
  moreover have "events_ok s'"
  proof -
    have "class_count s' i = class_count s i" "job_count s' {} i = job_count s {} i" for i
      by (simp_all add: s' class_count_def job_count_def)
    moreover have "fresh_ok s'" using fresh by (fastforce simp: s' fresh_ok_def event_ids_def new_event_def)
    moreover have "s_next s \<notin> e_id ` set (s_events s)" using new by (simp add: event_ids_def)
    ultimately show ?thesis using events env blockers by (auto simp: s' events_ok_def new_event_def)
  qed
  moreover have "links_ok X s'"
    using links emit by (auto simp: s' links_ok_def blocks_ok_def blocker_ok_def new_event_def filter_empty_conv)
  moreover have "quiesce_ok s'" using q quiesce_ok_globals [of s' s] by (simp add: s')
  moreover have "advances s s'" by (auto simp: s' advances_def)
  ultimately show ?thesis using blockers by (simp add: sys_inv_def s')
qed

lemma event_create_inv:
  assumes "sys_inv w X s" and "name \<noteq> []" and "\<forall>v\<in>set env. entry_valid v"
  shows "\<exists>s'. event_create name env s = Some (s_next s, s') \<and> sys_inv w X s' \<and> advances s s' \<and> s_jobs s' = s_jobs s \<and>
    blockers_of (s_events s') = blockers_of (s_events s)"
  using add_event_inv [OF assms(1,3) _ refl, of "[]" name "-1"] event_create_run [OF assms(2)] by simp

text \<open>Removing an event that nothing refers to.\<close>

lemma event_remove_inv:
  assumes inv: "sys_inv w {i} s" and zero: "blockers_of (s_events s) i = 0"
    and free: "\<And>jid job. s_jobs s jid = Some job \<Longrightarrow> j_blocker job \<noteq> Some i"
  shows "sys_inv w {} (set_events (filter (\<lambda>e. e_id e \<noteq> i) (s_events s)) s)"
proof -
  let ?evs = "filter (\<lambda>e. e_id e \<noteq> i) (s_events s)"
  let ?s = "set_events ?evs s"
  have store: "store_ok w s" and events: "events_ok s" and links: "links_ok {i} s" and q: "quiesce_ok s"
    using inv by (auto simp: sys_inv_def)
  have get: "event_get j ?evs = (if j = i then None else event_get j (s_events s))" for j
  proof -
    have "event_get j (filter (\<lambda>e. e_id e \<noteq> i) evs) = (if j = i then None else event_get j evs)" for evs
      by (induction evs) (auto simp: event_get_Cons event_ids_def)
    then show ?thesis .
  qed
  have "table_ok ?s = table_ok s" by (rule table_ok_cong) simp_all
  moreover have "s_job_environ ?s = s_job_environ s" by (simp add: set_events_def)
  ultimately have "store_ok w ?s" using store by (simp add: store_ok_def class_fit_def job_fit_def)
  moreover have "events_ok ?s"
  proof -
    have "blockers_of ?evs j = blockers_of (s_events s) j" for j
      unfolding blockers_of_def get using zero by (simp add: blockers_of_def)
    moreover have "class_count ?s j = class_count s j" "job_count ?s {} j = job_count s {} j" for j
      by (simp_all add: class_count_def job_count_def)
    moreover have "distinct (map e_id ?evs)" using events by (simp add: events_ok_def distinct_map_filter)
    ultimately show ?thesis using events by (auto simp: events_ok_def fresh_ok_def event_ids_def)
  qed
  moreover have "links_ok {} ?s"
  proof -
    have "blocker_ok ?s jid j" if "s_jobs s jid = Some job" "j_blocker job = Some j" for jid job j
      using links free [OF that(1)] that by (fastforce simp: links_ok_def blocker_ok_def)
    then show ?thesis using links by (auto simp: links_ok_def blocks_ok_def)
  qed
  moreover have "quiesce_ok ?s" using q quiesce_ok_globals [of ?s s] by simp
  ultimately show ?thesis by (simp add: sys_inv_def)
qed


text \<open>A job that an event blocked goes on.\<close>

lemma unblocked_job:
  assumes "between_calls job" and "j_blocker job = Some i"
  shows "movable (job\<lparr>j_blocker := None\<rparr>)" and "unheld (job\<lparr>j_blocker := None\<rparr>)"
    and "j_state job = JOB_STARTING \<or> j_state job = JOB_STOPPING"
proof -
  have st: "j_state job = JOB_STARTING \<or> j_state job = JOB_STOPPING" "quiet job"
    using assms by (auto simp: between_calls_def at_rest_def)
  then show "j_state job = JOB_STARTING \<or> j_state job = JOB_STOPPING" by simp
  show "movable (job\<lparr>j_blocker := None\<rparr>)" using st assms(1) by (auto simp: movable_def between_calls_def quiet_def)
  show "unheld (job\<lparr>j_blocker := None\<rparr>)" using st by (auto simp: unheld_def)
qed

lemma steady_jobs:
  assumes "steady w R cls s job s' r" and "j_id job = jid"
  shows "s_jobs (put_job (s', r)) = (s_jobs s)(jid := r)"
  using assms calm_sel(4) [of s s']
  by (cases r) (auto simp: steady_def settled_def freed_def put_job_def)

lemma unblock_job_inv:
  assumes inv: "sys_inv w {i} s" and w: "os_ok w" and job: "s_jobs s jid = Some job" and blk: "j_blocker job = Some i"
    and i: "i \<in> event_ids (s_events s)"
  shows "\<exists>s'. unblock_one w i (blocked_new BLOCKED_JOB jid) s = Some s' \<and> sys_inv w {i} s' \<and>
    (\<forall>j. j \<noteq> jid \<longrightarrow> s_jobs s' j = s_jobs s j) \<and>
    (\<forall>job'. s_jobs s' jid = Some job' \<longrightarrow> j_blocker job' \<noteq> Some i) \<and>
    (\<forall>j. blockers_of (s_events s') j \<le> blockers_of (s_events s) j) \<and>
    (\<exists>new. map core (s_events s') = map core (s_events s) @ new)"
proof -
  obtain cls where cls: "s_classes s (j_class job) = Some cls" and ok: "job_ok (others s jid) s cls job"
    "placed (others s jid) s cls job" "between_calls job" "tracked w cls (j_state job) job" "j_id job = jid"
    using sys_inv_job [OF inv job w] by blast
  let ?job = "job\<lparr>j_blocker := None\<rparr>"
  have "job_ok (others s jid) s cls ?job" "placed (others s jid) s cls ?job" "tracked w cls (j_state ?job) ?job"
    using ok(1,2,4) by (auto simp: job_ok_def class_of_def job_refs_def placed_def tracked_def)
  then obtain s' r where run: "change_to_next w s ?job = Some (s', r)"
    and st: "steady w (others s jid) cls s (?job\<lparr>j_goal := effective_goal (j_goal ?job)\<rparr>) s' r"
    using change_to_next_steady [OF _ _ w unblocked_job(1) [OF ok(3) blk] _ unblocked_job(2) [OF ok(3) blk]] by blast
  have sh: "shifts ?job s s' r" by (rule change_to_next_shifts [OF run sys_inv_fresh [OF inv]])
  have "relinked {i} job s s' r" by (rule shifts_relinked [OF sh]) (simp_all add: blk)
  then have inv': "sys_inv w {i} (put_job (s', r))" using job_step [OF inv job cls st] ok(5) by simp
  have jobs: "s_jobs (put_job (s', r)) = (s_jobs s)(jid := r)" using steady_jobs [OF st] ok(5) by simp
  have evs: "s_events (put_job (s', r)) = s_events s'" by (simp add: put_job_def split: option.splits)
  obtain b where gr: "evolves jid b s s'" "\<And>job'. r = Some job' \<Longrightarrow> j_blocker job' = b"
    using sh ok(5) by (cases r) (auto simp: shifts_def)
  have "b \<noteq> Some i"
  proof
    assume b: "b = Some i"
    then obtain new where "\<forall>e\<in>set new. born jid b (s_next s) (s_next s') e" "i \<in> e_id ` set new"
      using gr(1) by (auto simp: evolves_def grows_def)
    then have "s_next s \<le> i" by (auto simp: born_def)
    moreover have "i < s_next s" using i sys_inv_fresh [OF inv] by (auto simp: fresh_ok_def)
    ultimately show False by simp
  qed
  then have "\<forall>job'. r = Some job' \<longrightarrow> j_blocker job' \<noteq> Some i" using gr(2) by simp
  moreover have "unblock_one w i (blocked_new BLOCKED_JOB jid) s = Some (put_job (s', r))"
    using job run by (simp add: unblock_one_def blocked_new_def)
  moreover have "\<exists>new. map core (s_events s') = map core (s_events s) @ new" using gr(1) by (auto simp: evolves_def grows_def)
  ultimately show ?thesis using inv' jobs evs gr(1) by (simp add: evolves_def)
qed


text \<open>The entries of the list of an event that are still to be let go.\<close>

definition to_unblock :: "nat \<Rightarrow> Blocked list \<Rightarrow> sys \<Rightarrow> bool" where
  "to_unblock i bs s \<longleftrightarrow>
     (\<forall>b\<in>set bs. b_type b = BLOCKED_EMIT_METHOD \<or>
        b_type b = BLOCKED_JOB \<and> (\<exists>job. s_jobs s (b_data b) = Some job \<and> j_blocker job = Some i)) \<and>
     distinct (map b_data (filter (\<lambda>b. b_type b = BLOCKED_JOB) bs)) \<and>
     (\<forall>jid job. s_jobs s jid = Some job \<longrightarrow> j_blocker job = Some i \<longrightarrow> blocked_new BLOCKED_JOB jid \<in> set bs)"

lemma to_unblock_next:
  assumes "to_unblock i (b # bs) s" and "b = blocked_new BLOCKED_JOB jid"
    and "\<forall>j. j \<noteq> jid \<longrightarrow> s_jobs s' j = s_jobs s j" and "\<forall>job'. s_jobs s' jid = Some job' \<longrightarrow> j_blocker job' \<noteq> Some i"
  shows "to_unblock i bs s'"
proof -
  have ne: "b_data b' \<noteq> jid" if "b' \<in> set bs" "b_type b' = BLOCKED_JOB" for b'
    using assms(1,2) that by (auto simp: to_unblock_def blocked_new_def)
  have "blocked_new BLOCKED_JOB j \<in> set bs" if j: "s_jobs s' j = Some job" "j_blocker job = Some i" for j job
  proof -
    have "j \<noteq> jid" using assms(4) j by auto
    moreover from this have "blocked_new BLOCKED_JOB j \<in> set (b # bs)" using assms(1,3) j by (simp add: to_unblock_def)
    ultimately show ?thesis using assms(2) by (simp add: blocked_new_def)
  qed
  moreover have "distinct (map b_data (filter (\<lambda>b. b_type b = BLOCKED_JOB) bs))"
    using assms(1) by (auto simp: to_unblock_def split: if_splits)
  moreover have "b_type b' = BLOCKED_EMIT_METHOD \<or>
      b_type b' = BLOCKED_JOB \<and> (\<exists>job. s_jobs s' (b_data b') = Some job \<and> j_blocker job = Some i)"
    if "b' \<in> set bs" for b'
    using assms(1,3) ne [OF that] that by (auto simp: to_unblock_def)
  ultimately show ?thesis by (simp add: to_unblock_def)
qed

lemma unblock_all_inv:
  assumes "sys_inv w {i} s" and w: "os_ok w" and "event_get i (s_events s) = Some e" and "to_unblock i bs s"
  shows "\<exists>s' e'. foldM (unblock_one w i) bs s = Some s' \<and> sys_inv w {i} s' \<and> to_unblock i [] s' \<and>
    event_get i (s_events s') = Some e' \<and> core e' = core e \<and>
    (\<forall>j. blockers_of (s_events s') j \<le> blockers_of (s_events s) j)"
  using assms(1,3,4)
proof (induction bs arbitrary: s e)
  case Nil
  then show ?case by auto
next
  case (Cons b bs)
  show ?case
  proof (cases "b_type b = BLOCKED_JOB")
    case False
    then have ty: "b_type b = BLOCKED_EMIT_METHOD" using Cons.prems(3) by (auto simp: to_unblock_def)
    let ?s = "send [Reply (b_data b) (if e_failed e then ErrorReply ''EventFailed'' else EmitReply)] s"
    have "blocked_new BLOCKED_JOB jid \<noteq> b" for jid using ty by (auto simp: blocked_new_def)
    then have "to_unblock i bs ?s" using Cons.prems(3) ty by (auto simp: to_unblock_def)
    then show ?thesis
      using Cons.IH [of ?s e] Cons.prems(1,2) ty by (simp add: unblock_one_def)
  next
    case True
    then have b: "b = blocked_new BLOCKED_JOB (b_data b)" by (simp add: blocked_new_def)
    obtain job where job: "s_jobs s (b_data b) = Some job" "j_blocker job = Some i"
      using Cons.prems(3) True by (auto simp: to_unblock_def)
    have i: "i \<in> event_ids (s_events s)" using Cons.prems(2) by simp
    obtain s1 new where 1: "unblock_one w i b s = Some s1" "sys_inv w {i} s1"
      "\<forall>j. j \<noteq> b_data b \<longrightarrow> s_jobs s1 j = s_jobs s j"
      "\<forall>job'. s_jobs s1 (b_data b) = Some job' \<longrightarrow> j_blocker job' \<noteq> Some i"
      "\<forall>j. blockers_of (s_events s1) j \<le> blockers_of (s_events s) j"
      "map core (s_events s1) = map core (s_events s) @ new"
      using unblock_job_inv [OF Cons.prems(1) w job i] b by metis
    obtain e1 where e1: "event_get i (s_events s1) = Some e1" "core e1 = core e"
      using event_get_prefix [OF 1(6) Cons.prems(2)] by blast
    have "to_unblock i bs s1" by (rule to_unblock_next [OF Cons.prems(3) b 1(3,4)])
    then obtain s' e' where "foldM (unblock_one w i) bs s1 = Some s'" "sys_inv w {i} s'" "to_unblock i [] s'"
      "event_get i (s_events s') = Some e'" "core e' = core e1"
      "\<forall>j. blockers_of (s_events s') j \<le> blockers_of (s_events s1) j"
      using Cons.IH [OF 1(2) e1(1)] by blast
    then show ?thesis using 1(1,5) e1(2) by (auto intro: order_trans)
  qed
qed

lemma links_to_unblock:
  assumes inv: "sys_inv w {} s" and e: "event_get i (s_events s) = Some e"
  shows "to_unblock i (e_blocking e) s"
proof -
  have links: "links_ok {} s" and dist: "distinct (map e_id (s_events s))"
    using inv by (auto simp: sys_inv_def events_ok_def)
  have e': "e \<in> set (s_events s)" "e_id e = i" using event_get_set [OF e] event_get_id [OF e] by auto
  then have "blocks_ok s e" using links by (simp add: links_ok_def)
  moreover have "blocked_new BLOCKED_JOB jid \<in> set (e_blocking e)" if blk: "blocker_ok s jid i" for jid
  proof -
    obtain e1 where "e1 \<in> set (s_events s)" "e_id e1 = i" "blocked_new BLOCKED_JOB jid \<in> set (e_blocking e1)"
      using blk by (auto simp: blocker_ok_def)
    moreover from this have "e1 = e" using e' dist by (metis distinct_map inj_onD)
    ultimately show ?thesis by simp
  qed
  ultimately show ?thesis using links e'(2) by (auto simp: to_unblock_def blocks_ok_def links_ok_def)
qed


lemma failed_event_inv:
  assumes inv: "sys_inv w X s" and e: "event_get i (s_events s) = Some e"
  shows "\<exists>s'. (case (if e_failed e then failed_name (e_name e) else None) of
        None \<Rightarrow> Some s
      | Some name \<Rightarrow> do { (_, s) \<leftarrow> event_create name (e_env e) s; Some s }) = Some s' \<and>
    sys_inv w X s' \<and> s_jobs s' = s_jobs s \<and> blockers_of (s_events s') = blockers_of (s_events s)"
proof (cases "if e_failed e then failed_name (e_name e) else None")
  case None
  then show ?thesis using inv by simp
next
  case (Some name)
  then have "name \<noteq> []" by (auto simp: failed_name_def split: if_splits)
  moreover have "\<forall>v\<in>set (e_env e). entry_valid v"
    using inv event_get_set [OF e] by (auto simp: sys_inv_def events_ok_def)
  ultimately show ?thesis using event_create_inv [OF inv] Some by fastforce
qed

lemma event_finished_inv:
  assumes inv: "sys_inv w {} s" and w: "os_ok w" and e: "event_get i (s_events s) = Some e" and zero: "e_blockers e = 0"
  shows "\<exists>s'. event_finished w i (set_progress EVENT_FINISHED i s) = Some s' \<and> sys_inv w {} s'"
proof -
  let ?s = "set_progress EVENT_FINISHED i s" and ?e = "e\<lparr>e_progress := EVENT_FINISHED\<rparr>"
  have inv1: "sys_inv w {i} ?s" by (rule set_progress_inv [OF inv]) simp_all
  have get: "event_get i (s_events ?s) = Some ?e" using e by (simp add: event_get_upd)
  have "to_unblock i (e_blocking ?e) ?s" using links_to_unblock [OF inv e] by (simp add: to_unblock_def)
  then obtain s2 e2 where 2: "foldM (unblock_one w i) (e_blocking ?e) ?s = Some s2" "sys_inv w {i} s2"
    "to_unblock i [] s2" "event_get i (s_events s2) = Some e2"
    "\<forall>j. blockers_of (s_events s2) j \<le> blockers_of (s_events ?s) j"
    using unblock_all_inv [OF inv1 w get] by blast
  let ?s2 = "send [ClosedFd (e_fd e2)] s2"
  obtain s3 where 3: "(case (if e_failed e2 then failed_name (e_name e2) else None) of
        None \<Rightarrow> Some ?s2
      | Some name \<Rightarrow> do { (_, s) \<leftarrow> event_create name (e_env e2) ?s2; Some s }) = Some s3"
    "sys_inv w {i} s3" "s_jobs s3 = s_jobs s2" "blockers_of (s_events s3) = blockers_of (s_events s2)"
    using failed_event_inv [of w "{i}" ?s2 i e2] 2(2,4) by auto
  let ?s4 = "send_conns (\<lambda>conn. EventEmitted conn (e_name e2) (e_env e2)) s3"
  have "blockers_of (s_events ?s) i = 0" using get zero by (simp add: blockers_of_def)
  then have "blockers_of (s_events ?s4) i = 0" using 2(5) 3(4) by (metis le_zero_eq send_conns_def send_sel(1))
  moreover have "sys_inv w {i} ?s4" using 3(2) by (simp add: send_conns_def)
  moreover have "j_blocker job \<noteq> Some i" if "s_jobs ?s4 jid = Some job" for jid job
    using 2(3) 3(3) that by (auto simp: to_unblock_def send_conns_def)
  ultimately have "sys_inv w {} (set_events (filter (\<lambda>e. e_id e \<noteq> i) (s_events ?s4)) ?s4)" by (intro event_remove_inv)
  then show ?thesis using get 2(1,4) 3(1) by (simp add: event_finished_def Let_def)
qed

section \<open>The loop\<close>

lemma poll_event_inv:
  assumes inv: "sys_inv w {} s" and w: "os_ok w" and e: "event_get i (s_events s) = Some e"
  shows "\<exists>busy s'. poll_event w i s = Some (busy, s') \<and> sys_inv w {} s'"
proof -
  obtain s1 e1 where 1: "(if e_progress e = EVENT_PENDING then event_pending w i s else Some s) = Some s1"
    "sys_inv w {} s1" "event_get i (s_events s1) = Some e1"
    using event_pending_inv [OF inv w e] inv e by (cases "e_progress e = EVENT_PENDING") auto
  have "e_progress e1 = EVENT_HANDLING"
  proof (cases "e_progress e = EVENT_PENDING")
    case True
    then show ?thesis using 1(1,3) event_pending_inv [OF inv w e] by auto
  next
    case False
    then have "e1 = e" using 1 e by simp
    moreover have "e_progress e \<noteq> EVENT_FINISHED"
      using inv event_get_set [OF e] by (auto simp: sys_inv_def links_ok_def)
    ultimately show ?thesis using False by (cases "e_progress e") auto
  qed
  then show ?thesis
    using 1 e event_finished_inv [OF 1(2) w 1(3)] by (cases "e_blockers e1 = 0") (auto simp: poll_event_def)
qed

lemma poll_pass_inv:
  assumes "sys_inv w {} s" and w: "os_ok w"
  shows "case poll_pass fuel w visited again s of
      (Polled s', b) \<Rightarrow> sys_inv w {} s' | (Aborted, b) \<Rightarrow> False | (OutOfFuel, b) \<Rightarrow> True"
  using assms(1)
proof (induction fuel arbitrary: visited again s)
  case 0
  then show ?case by simp
next
  case (Suc fuel)
  show ?case
  proof (cases "find (\<lambda>e. e_id e \<notin> set visited) (s_events s)")
    case None
    then show ?thesis using Suc.prems by simp
  next
    case (Some e)
    then have "e \<in> set (s_events s)" by (auto simp: find_Some_iff)
    then obtain e' where "event_get (e_id e) (s_events s) = Some e'"
      by (metis event_ids_def event_ids_iff image_eqI)
    then obtain busy s1 where "poll_event w (e_id e) s = Some (busy, s1)" "sys_inv w {} s1"
      using poll_event_inv [OF Suc.prems w] by blast
    then show ?thesis using Some Suc.IH [of s1] by simp
  qed
qed

lemma event_poll_inv:
  assumes "sys_inv w {} s" and w: "os_ok w"
  shows "case event_poll fuel w s of Polled s' \<Rightarrow> sys_inv w {} s' | Aborted \<Rightarrow> False | OutOfFuel \<Rightarrow> True"
  using assms(1)
proof (induction fuel arbitrary: s)
  case 0
  then show ?case by simp
next
  case (Suc fuel)
  obtain r again where pass: "poll_pass fuel w [] False s = (r, again)" by (meson surj_pair)
  then show ?case
    using poll_pass_inv [OF Suc.prems w, of fuel "[]" False] Suc.IH by (cases r) auto
qed

text \<open>A pass that found nothing to do changed nothing and saw all events.\<close>

lemma poll_event_idle:
  assumes "poll_event w i s = Some (False, s')"
  shows "s' = s \<and> (\<exists>e. event_get i (s_events s) = Some e \<and> e_progress e = EVENT_HANDLING \<and> e_blockers e \<noteq> 0)"
  using assms by (auto simp: poll_event_def Let_def split: if_splits elim!: bind_eq_Some_E)

lemma poll_pass_idle:
  assumes "poll_pass fuel w visited again s = (Polled s', False)"
  shows "s' = s \<and> \<not> again \<and> (\<forall>i\<in>event_ids (s_events s). i \<notin> set visited \<longrightarrow>
    (\<exists>e. event_get i (s_events s) = Some e \<and> e_progress e = EVENT_HANDLING \<and> e_blockers e \<noteq> 0))"
  using assms
proof (induction fuel arbitrary: visited again s)
  case 0
  then show ?case by simp
next
  case (Suc fuel)
  show ?case
  proof (cases "find (\<lambda>e. e_id e \<notin> set visited) (s_events s)")
    case None
    then have "s' = s" "\<not> again" using Suc.prems by auto
    then show ?thesis using None by (auto simp: find_None_iff event_ids_def)
  next
    case (Some e)
    then obtain busy s1 where ev: "poll_event w (e_id e) s = Some (busy, s1)"
      and rest: "poll_pass fuel w (e_id e # visited) (again \<or> busy) s1 = (Polled s', False)"
      using Suc.prems by (auto split: option.splits)
    note IH = Suc.IH [OF rest]
    then have quiet: "\<not> again" "\<not> busy" "s' = s1" by auto
    then have "poll_event w (e_id e) s = Some (False, s1)" using ev by simp
    then have "s1 = s" "\<exists>e'. event_get (e_id e) (s_events s) = Some e' \<and> e_progress e' = EVENT_HANDLING \<and> e_blockers e' \<noteq> 0"
      using poll_event_idle by blast+
    then show ?thesis using IH quiet by auto
  qed
qed

lemma event_poll_idle:
  assumes "event_poll fuel w s = Polled s'"
  shows "\<forall>i\<in>event_ids (s_events s'). \<exists>e. event_get i (s_events s') = Some e \<and> e_progress e = EVENT_HANDLING \<and> e_blockers e \<noteq> 0"
  using assms
proof (induction fuel arbitrary: s)
  case 0
  then show ?case by simp
next
  case (Suc fuel)
  obtain r again where pass: "poll_pass fuel w [] False s = (r, again)" by (meson surj_pair)
  then obtain s1 where s1: "r = Polled s1" "(if again then event_poll fuel w s1 else Polled s1) = Polled s'"
    using Suc.prems by (cases r) auto
  show ?case
  proof (cases again)
    case False
    then show ?thesis using pass s1 poll_pass_idle [of fuel w "[]" False s s1] by auto
  qed (use s1 Suc.IH in auto)
qed

end
