(* ===== verification/Control.thy ===== *)
theory Control
  imports EventLoop Conf
begin

text \<open>
  \<^verbatim>\<open>src/init/control.c\<close>: the D-Bus server and its methods. Connections and messages are numbered.
  \<open>bus\<close> stands for libdbus and libnih-dbus: who sent a message, and whether connecting and
  requesting the name succeed. \<open>control\<close> holds the variables of the file; the list of
  connections is that of the state. Flushing the logs, re-executing and the JSON state belong to
  other files.
\<close>

section \<open>Data\<close>

text \<open>\<open>bus_user\<close> is \<^verbatim>\<open>dbus_bus_get_unix_user\<close> and \<open>bus_conn_user\<close> \<^verbatim>\<open>dbus_connection_get_unix_user\<close>;
  \<open>bus_connected\<close> tells whether the message has a connection; \<open>bus_str_split\<close> is \<^verbatim>\<open>nih_str_split\<close> at the
  character \<^verbatim>\<open>=\<close>.\<close>

record bus =
  bus_connected :: "nat \<Rightarrow> bool"
  bus_sender :: "nat \<Rightarrow> string option"
  bus_user :: "nat \<Rightarrow> string \<Rightarrow> int option"
  bus_conn_user :: "nat \<Rightarrow> int option"
  bus_getuid :: int
  bus_connect :: "string \<Rightarrow> nat option"
  bus_register :: "nat \<Rightarrow> bool"
  bus_open :: "bool \<Rightarrow> nat option"
  bus_request_name :: "nat \<Rightarrow> int"
  bus_str_split :: "string \<Rightarrow> string list"

datatype NihLogLevel =
    NIH_LOG_UNKNOWN
  | NIH_LOG_DEBUG
  | NIH_LOG_INFO
  | NIH_LOG_MESSAGE
  | NIH_LOG_WARN
  | NIH_LOG_ERROR
  | NIH_LOG_FATAL

record control =
  k_bus :: "nat option"
  k_bus_address :: "string option"
  k_log_priority :: NihLogLevel
  k_session_bus :: bool
  k_insecure :: bool
  k_disable_dbus :: bool
  k_disable_cgroups :: bool

definition DBUS_REQUEST_NAME_REPLY_PRIMARY_OWNER :: int where "DBUS_REQUEST_NAME_REPLY_PRIMARY_OWNER = 1"

section \<open>Permissions\<close>

text \<open>The user ids of D-Bus are unsigned and long; \<^verbatim>\<open>uid_t\<close> has 32 bits.\<close>

definition control_get_origin_uid :: "bus \<Rightarrow> nat \<Rightarrow> int option" where
  "control_get_origin_uid d message =
     (if \<not> bus_connected d message then None
      else map_option (\<lambda>u. u mod 2 ^ 32)
        (case bus_sender d message of
           Some sender \<Rightarrow> bus_user d message sender
         | None \<Rightarrow> bus_conn_user d message))"

definition control_check_permission :: "bus \<Rightarrow> control \<Rightarrow> nat \<Rightarrow> bool" where
  "control_check_permission d k message \<longleftrightarrow>
     k_insecure k \<or> control_get_origin_uid d message = Some (bus_getuid d)"

section \<open>Connections\<close>

definition control_register_all :: "nat \<Rightarrow> sys \<Rightarrow> sys option" where
  "control_register_all conn s =
     foldM (\<lambda>cid. job_class_register cid conn False) (s_registered s)
       (send [ObjectNew conn DBUS_PATH_UPSTART] s)"

definition control_server_connect :: "nat \<Rightarrow> sys \<Rightarrow> sys option" where
  "control_server_connect conn s = do {
     s \<leftarrow> control_register_all conn s;
     Some (s\<lparr>s_conns := s_conns s @ [conn]\<rparr>)
   }"

definition control_disconnected :: "nat \<Rightarrow> control \<Rightarrow> sys \<Rightarrow> control \<times> sys" where
  "control_disconnected conn k s =
     (if k_bus k = Some conn then k\<lparr>k_bus := None\<rparr> else k,
      s\<lparr>s_conns := filter (\<lambda>c. c \<noteq> conn) (s_conns s)\<rparr>)"

definition control_bus_close :: "control \<Rightarrow> sys \<Rightarrow> (control \<times> sys) option" where
  "control_bus_close k s = do {
     conn \<leftarrow> k_bus k;
     Some (control_disconnected conn k s)
   }"

type_synonym 'a control_result = "((string + 'a) \<times> control \<times> sys) option"

definition control_bus_open :: "bus \<Rightarrow> control \<Rightarrow> sys \<Rightarrow> unit control_result" where
  "control_bus_open d k s = do {
     nih_assert (k_bus k = None);
     let conn = (case (if s_user_mode s then k_bus_address k else None) of
         Some address \<Rightarrow>
           (case bus_connect d address of
              None \<Rightarrow> Inl ''ConnectFailed''
            | Some conn \<Rightarrow> if bus_register d conn then Inr conn else Inl ''RegisterFailed'')
       | None \<Rightarrow>
           (case bus_open d (k_session_bus k) of
              None \<Rightarrow> Inl ''ConnectFailed''
            | Some conn \<Rightarrow> Inr conn));
     (case conn of
        Inl e \<Rightarrow> Some (Inl e, k, s)
      | Inr conn \<Rightarrow> do {
          s \<leftarrow> control_register_all conn s;
          let ret = bus_request_name d conn;
          if ret < 0 then Some (Inl ''RequestNameFailed'', k, s)
          else if ret \<noteq> DBUS_REQUEST_NAME_REPLY_PRIMARY_OWNER then Some (Inl ''CONTROL_NAME_TAKEN'', k, s)
          else Some (Inr (), k\<lparr>k_bus := Some conn\<rparr>, s\<lparr>s_conns := s_conns s @ [conn]\<rparr>)
        })
   }"

text \<open>Connections by their place in the list.\<close>

fun conn_index :: "nat \<Rightarrow> nat list \<Rightarrow> int \<Rightarrow> int" where
  "conn_index conn [] i = -1"
| "conn_index conn (c # cs) i = (if c = conn then i else conn_index conn cs (i + 1))"

definition control_conn_to_index :: "nat \<Rightarrow> sys \<Rightarrow> int" where
  "control_conn_to_index conn s = conn_index conn (s_conns s) 0"

definition control_conn_from_index :: "int \<Rightarrow> sys \<Rightarrow> nat option option" where
  "control_conn_from_index i s = do {
     nih_assert (i \<ge> 0);
     Some (if nat i < length (s_conns s) then Some (s_conns s ! nat i) else None)
   }"

section \<open>Jobs and events\<close>

definition control_reload_configuration ::
    "conf_lib \<Rightarrow> bus \<Rightarrow> control \<Rightarrow> os \<Rightarrow> nat \<Rightarrow> sys \<Rightarrow> ((string + unit) \<times> sys) option" where
  "control_reload_configuration lib d k w message s =
     (if \<not> control_check_permission d k message then Some (Inl ''PermissionDenied'', s)
      else do {
        s \<leftarrow> conf_reload lib w s;
        Some (Inr (), s)
      })"

definition control_get_job_by_name :: "string \<Rightarrow> sys \<Rightarrow> (string + string) option" where
  "control_get_job_by_name name s =
     (if name = [] then Some (Inl ''InvalidArgs'')
      else (case job_class_get_registered name s of
          None \<Rightarrow> Some (Inl ''UnknownJob'')
        | Some cid \<Rightarrow> do {
            cls \<leftarrow> s_classes s cid;
            Some (Inr (c_path cls))
          }))"

definition control_get_all_jobs :: "sys \<Rightarrow> string list" where
  "control_get_all_jobs s = map c_path (List.map_filter (s_classes s) (s_registered s))"

text \<open>The file descriptor is closed where the arguments are refused; it is not where permission is.\<close>

definition control_emit_event_with_file ::
    "bus \<Rightarrow> control \<Rightarrow> nat \<Rightarrow> string \<Rightarrow> string list \<Rightarrow> bool \<Rightarrow> int \<Rightarrow> sys \<Rightarrow> ((string + unit) \<times> sys) option" where
  "control_emit_event_with_file d k message name env wait fd s =
     (if \<not> control_check_permission d k message then Some (Inl ''PermissionDenied'', s)
      else if name = [] \<or> \<not> environ_all_valid env then Some (Inl ''InvalidArgs'', send [ClosedFd fd] s)
      else do {
        (i, s) \<leftarrow> event_create name env s;
        let blocking = (if wait then [blocked_new BLOCKED_EMIT_METHOD message] else []);
        let s = set_events (event_upd i (\<lambda>e. e\<lparr>e_fd := fd, e_blocking := e_blocking e @ blocking\<rparr>) (s_events s)) s;
        Some (Inr (), if wait then s else send [Reply message EmitReply] s)
      })"

definition control_emit_event ::
    "bus \<Rightarrow> control \<Rightarrow> nat \<Rightarrow> string \<Rightarrow> string list \<Rightarrow> bool \<Rightarrow> sys \<Rightarrow> ((string + unit) \<times> sys) option" where
  "control_emit_event d k message name env wait s =
     control_emit_event_with_file d k message name env wait (-1) s"

definition control_notify_event_emitted :: "Event \<Rightarrow> sys \<Rightarrow> sys" where
  "control_notify_event_emitted event s =
     send_conns (\<lambda>conn. EventEmitted conn (e_name event) (e_env event)) s"

definition control_notify_restarted :: "sys \<Rightarrow> sys" where
  "control_notify_restarted s = send_conns Restarted s"

definition control_end_session :: "bus \<Rightarrow> control \<Rightarrow> os \<Rightarrow> nat \<Rightarrow> sys \<Rightarrow> ((string + unit) \<times> sys) option" where
  "control_end_session d k w message s =
     (if \<not> k_session_bus k \<and> \<not> s_user_mode s then Some (Inr (), s)
      else if \<not> control_check_permission d k message then Some (Inl ''PermissionDenied'', s)
      else do {
        s \<leftarrow> quiesce w QUIESCE_REQUESTER_SESSION s;
        Some (Inr (), s)
      })"

section \<open>Settings\<close>

definition control_get_log_priority :: "control \<Rightarrow> string option" where
  "control_get_log_priority k =
     (case k_log_priority k of
        NIH_LOG_DEBUG \<Rightarrow> Some ''debug''
      | NIH_LOG_INFO \<Rightarrow> Some ''info''
      | NIH_LOG_MESSAGE \<Rightarrow> Some ''message''
      | NIH_LOG_WARN \<Rightarrow> Some ''warn''
      | NIH_LOG_ERROR \<Rightarrow> Some ''error''
      | NIH_LOG_FATAL \<Rightarrow> Some ''fatal''
      | NIH_LOG_UNKNOWN \<Rightarrow> None)"

definition control_set_log_priority :: "bus \<Rightarrow> control \<Rightarrow> nat \<Rightarrow> string \<Rightarrow> string + control" where
  "control_set_log_priority d k message priority =
     (if \<not> control_check_permission d k message then Inl ''PermissionDenied''
      else if priority = ''debug'' then Inr (k\<lparr>k_log_priority := NIH_LOG_DEBUG\<rparr>)
      else if priority = ''info'' then Inr (k\<lparr>k_log_priority := NIH_LOG_INFO\<rparr>)
      else if priority = ''message'' then Inr (k\<lparr>k_log_priority := NIH_LOG_MESSAGE\<rparr>)
      else if priority = ''warn'' then Inr (k\<lparr>k_log_priority := NIH_LOG_WARN\<rparr>)
      else if priority = ''error'' then Inr (k\<lparr>k_log_priority := NIH_LOG_ERROR\<rparr>)
      else if priority = ''fatal'' then Inr (k\<lparr>k_log_priority := NIH_LOG_FATAL\<rparr>)
      else Inl ''InvalidArgs'')"

definition control_notify_dbus_address ::
    "bus \<Rightarrow> nat \<Rightarrow> string \<Rightarrow> control \<Rightarrow> sys \<Rightarrow> unit control_result" where
  "control_notify_dbus_address d message address k s =
     (if \<not> control_check_permission d k message then Some (Inl ''PermissionDenied'', k, s)
      else if k_disable_dbus k then Some (Inr (), k, s)
      else if k_bus k \<noteq> None then Some (Inr (), k, s)
      else if s_user_mode s then control_bus_open d (k\<lparr>k_bus_address := Some address\<rparr>) s
      else if address \<noteq> [] then Some (Inl ''InvalidArgs'', k, s)
      else control_bus_open d k s)"

definition control_notify_cgroup_manager_address ::
    "bus \<Rightarrow> control \<Rightarrow> os \<Rightarrow> nat \<Rightarrow> string \<Rightarrow> sys \<Rightarrow> ((string + unit) \<times> sys) option" where
  "control_notify_cgroup_manager_address d k w message address s =
     (if \<not> control_check_permission d k message then Some (Inl ''PermissionDenied'', s)
      else if k_disable_cgroups k then Some (Inr (), s)
      else if cgroup_manager_available s then Some (Inr (), s)
      else do {
        (ok, s) \<leftarrow> job_class_induct_jobs w (cgroup_manager_set_address address s);
        Some (if ok then Inr () else Inl ''NoMemory'', s)
      })"

section \<open>The environment of jobs\<close>

text \<open>The macro \<^verbatim>\<open>control_get_job\<close> with the checks before it: the job whose environment is meant, or \<open>None\<close>
  for the one all jobs start from. The outer option is the abort of \<^verbatim>\<open>job_find\<close>.\<close>

definition control_get_job :: "string list \<Rightarrow> sys \<Rightarrow> (string + nat option) option" where
  "control_get_job job_details s =
     (case job_details of
        [] \<Rightarrow> Some (Inr None)
      | name # rest \<Rightarrow>
          if name = [] then Some (Inl ''InvalidArgs'')
          else (case job_class_get_registered name s of
              None \<Rightarrow> Some (Inl ''UnknownJob'')
            | Some cid \<Rightarrow> do {
                job \<leftarrow> job_find (Some cid) (Some name) (case rest of [] \<Rightarrow> None | i # _ \<Rightarrow> Some i) s;
                Some (case job of None \<Rightarrow> Inl ''UnknownJobInstance'' | Some jid \<Rightarrow> Inr (Some jid))
              }))"

definition control_may_modify :: "bus \<Rightarrow> control \<Rightarrow> nat \<Rightarrow> sys \<Rightarrow> bool" where
  "control_may_modify d k message s \<longleftrightarrow>
     control_check_permission d k message \<and> (k_session_bus k \<or> s_user_mode s)"

text \<open>A change for all jobs is passed on to the session bus, where it goes to what the bus activates.\<close>

definition activation_environment :: "bus \<Rightarrow> control \<Rightarrow> string \<Rightarrow> sys \<Rightarrow> sys" where
  "activation_environment d k envvar s =
     (if s_user_mode s \<and> k_bus k \<noteq> None
      then (let parts = bus_str_split d envvar;
                item = (\<lambda>i. if i < length parts then parts ! i else [])
            in send [ActivationEnvironment (item 0) (item 1)] s)
      else s)"

definition set_env_var :: "bus \<Rightarrow> control \<Rightarrow> os \<Rightarrow> nat option \<Rightarrow> bool \<Rightarrow> string \<Rightarrow> sys \<Rightarrow> sys option" where
  "set_env_var d k w job replace var s =
     (let envvar = (if CHR ''='' \<notin> set var then var @ ''='' else var)
      in case job of
        Some jid \<Rightarrow> Some (map_job (\<lambda>job. job\<lparr>j_env := environ_add (os_getenv w) replace envvar (j_env job)\<rparr>) jid s)
      | None \<Rightarrow> do {
          s \<leftarrow> job_class_environment_set w envvar replace s;
          Some (activation_environment d k envvar s)
        })"

definition control_set_env_list ::
    "bus \<Rightarrow> control \<Rightarrow> os \<Rightarrow> nat \<Rightarrow> string list \<Rightarrow> string list \<Rightarrow> bool \<Rightarrow> sys \<Rightarrow> ((string + unit) \<times> sys) option" where
  "control_set_env_list d k w message job_details vars replace s =
     (if \<not> control_may_modify d k message s then Some (Inl ''PermissionDenied'', s)
      else do {
        job \<leftarrow> control_get_job job_details s;
        (case job of
           Inl e \<Rightarrow> Some (Inl e, s)
         | Inr job \<Rightarrow> do {
             s \<leftarrow> foldM (set_env_var d k w job replace) vars s;
             Some (Inr (), s)
           })
      })"

definition control_set_env ::
    "bus \<Rightarrow> control \<Rightarrow> os \<Rightarrow> nat \<Rightarrow> string list \<Rightarrow> string \<Rightarrow> bool \<Rightarrow> sys \<Rightarrow> ((string + unit) \<times> sys) option" where
  "control_set_env d k w message job_details var replace s =
     control_set_env_list d k w message job_details [var] replace s"

text \<open>Of a job that does not have the variable only the result of \<^verbatim>\<open>environ_remove\<close> tells; no error is
  raised.\<close>

definition unset_env_var :: "nat option \<Rightarrow> string \<Rightarrow> sys \<Rightarrow> ((string + unit) \<times> sys) option" where
  "unset_env_var job name s =
     (case job of
        Some jid \<Rightarrow> do {
          job \<leftarrow> s_jobs s jid;
          Some (case environ_remove name (j_env job) of
              None \<Rightarrow> (Inl [], s)
            | Some env \<Rightarrow> (Inr (), s\<lparr>s_jobs := (s_jobs s)(jid \<mapsto> job\<lparr>j_env := env\<rparr>)\<rparr>))
        }
      | None \<Rightarrow> do {
          (ok, s) \<leftarrow> job_class_environment_unset name s;
          Some (if ok then Inr () else Inl ''InvalidArgs'', s)
        })"

fun unset_env_vars :: "nat option \<Rightarrow> string list \<Rightarrow> sys \<Rightarrow> ((string + unit) \<times> sys) option" where
  "unset_env_vars job [] s = Some (Inr (), s)"
| "unset_env_vars job (name # names) s = do {
     (r, s) \<leftarrow> unset_env_var job name s;
     (case r of Inl e \<Rightarrow> Some (Inl e, s) | Inr _ \<Rightarrow> unset_env_vars job names s)
   }"

definition control_unset_env_list ::
    "bus \<Rightarrow> control \<Rightarrow> nat \<Rightarrow> string list \<Rightarrow> string list \<Rightarrow> sys \<Rightarrow> ((string + unit) \<times> sys) option" where
  "control_unset_env_list d k message job_details names s =
     (if \<not> control_may_modify d k message s then Some (Inl ''PermissionDenied'', s)
      else do {
        job \<leftarrow> control_get_job job_details s;
        (case job of Inl e \<Rightarrow> Some (Inl e, s) | Inr job \<Rightarrow> unset_env_vars job names s)
      })"

definition control_unset_env ::
    "bus \<Rightarrow> control \<Rightarrow> nat \<Rightarrow> string list \<Rightarrow> string \<Rightarrow> sys \<Rightarrow> ((string + unit) \<times> sys) option" where
  "control_unset_env d k message job_details name s =
     control_unset_env_list d k message job_details [name] s"

definition control_get_env ::
    "bus \<Rightarrow> control \<Rightarrow> nat \<Rightarrow> string list \<Rightarrow> string \<Rightarrow> sys \<Rightarrow> (string + string) option" where
  "control_get_env d k message job_details name s =
     (if \<not> control_check_permission d k message then Some (Inl ''PermissionDenied'')
      else if name = [] then Some (Inl ''InvalidArgs'')
      else do {
        job \<leftarrow> control_get_job job_details s;
        (case job of
           Inl e \<Rightarrow> Some (Inl e)
         | Inr job \<Rightarrow> do {
             found \<leftarrow> (case job of
                 Some jid \<Rightarrow> do { job \<leftarrow> s_jobs s jid; Some (environ_get (j_env job) name) }
               | None \<Rightarrow> job_class_environment_get name s);
             Some (case found of None \<Rightarrow> Inl ''InvalidArgs'' | Some v \<Rightarrow> Inr v)
           })
      })"

definition control_list_env ::
    "bus \<Rightarrow> control \<Rightarrow> nat \<Rightarrow> string list \<Rightarrow> sys \<Rightarrow> (string + string list) option" where
  "control_list_env d k message job_details s =
     (if \<not> control_check_permission d k message then Some (Inl ''PermissionDenied'')
      else do {
        job \<leftarrow> control_get_job job_details s;
        (case job of
           Inl e \<Rightarrow> Some (Inl e)
         | Inr (Some jid) \<Rightarrow> do { job \<leftarrow> s_jobs s jid; Some (Inr (j_env job)) }
         | Inr None \<Rightarrow> map_option Inr (job_class_environment_get_all s))
      })"

definition control_reset_env ::
    "bus \<Rightarrow> control \<Rightarrow> os \<Rightarrow> nat \<Rightarrow> string list \<Rightarrow> sys \<Rightarrow> ((string + unit) \<times> sys) option" where
  "control_reset_env d k w message job_details s =
     (if \<not> control_may_modify d k message s then Some (Inl ''PermissionDenied'', s)
      else do {
        job \<leftarrow> control_get_job job_details s;
        (case job of
           Inl e \<Rightarrow> Some (Inl e, s)
         | Inr (Some jid) \<Rightarrow> do {
             job \<leftarrow> s_jobs s jid;
             cls \<leftarrow> class_of s job;
             env \<leftarrow> job_class_environment w cls s;
             Some (Inr (), s\<lparr>s_jobs := (s_jobs s)(jid \<mapsto> job\<lparr>j_env := env\<rparr>)\<rparr>)
           }
         | Inr None \<Rightarrow> Some (Inr (), job_class_environment_reset w s))
      })"

end
