(* ===== verification/SysMethods.thy ===== *)
theory SysMethods
  imports SysLoop Control
begin

text \<open>
  The methods of classes, the shutdown of a session and the methods of the control interface keep
  the invariant of the daemon.
\<close>

section \<open>The methods of a class\<close>

definition upholds :: "os \<Rightarrow> nat set \<Rightarrow> ('e \<times> sys) option \<Rightarrow> bool" where
  "upholds w X res \<longleftrightarrow> (\<exists>e s'. res = Some (e, s') \<and> sys_inv w X s')"

lemma requested_total:
  assumes "sys_inv w X s" and "s_classes s cid = Some cls"
  shows "\<exists>r. requested_instance w' cls env s = Some r"
proof -
  have "s_job_environ s \<noteq> None" "c_instance cls \<noteq> None"
    using assms by (auto simp: sys_inv_def store_ok_def class_fit_def)
  then show ?thesis by (auto simp: requested_instance_def job_class_environment_def Let_def)
qed

lemma known_total:
  assumes inv: "sys_inv w X s" and cls: "s_classes s cid = Some cls"
  obtains (error) e where "known_instance w' cid env s = Some (Inl e)"
  | (found) e job where "known_instance w' cid env s = Some (Inr (e, job))" "s_jobs s (j_id job) = Some job"
proof -
  obtain r where r: "requested_instance w' cls env s = Some r" using requested_total [OF assms] by blast
  show ?thesis
  proof (cases r)
    case (Inl e)
    then show ?thesis using error r cls by (simp add: known_instance_def)
  next
    case (Inr q)
    obtain ienv name where q: "q = (ienv, name)" by (meson surj_pair)
    show ?thesis
    proof (cases "instance_lookup cid name s")
      case None
      then show ?thesis using error r cls Inr q by (simp add: known_instance_def)
    next
      case (Some jid)
      then obtain job where "s_jobs s jid = Some job" using instance_lookup_Some by blast
      moreover from this have "j_id job = jid" using inv by (simp add: sys_inv_def store_ok_def job_fit_def)
      ultimately show ?thesis using found r cls Inr q Some by (simp add: known_instance_def)
    qed
  qed
qed

text \<open>What all methods do with the job: remember the caller and change the goal.\<close>

lemma wait_and_goal:
  assumes inv: "sys_inv w X s" and job: "s_jobs s jid = Some job" and w: "os_ok w"
    and same: "same_phase job job1" "j_stop_on job1 = j_stop_on job" "j_blocking job1 = j_blocking job"
    and ty: "ty \<notin> {BLOCKED_JOB, BLOCKED_EMIT_METHOD, BLOCKED_EVENT}"
    and goal: "goal = JOB_START \<or> goal = JOB_STOP \<and> j_goal job \<noteq> JOB_STOP"
  shows "\<exists>cls s1 job2 s2 job3. finish_and_wait ty message wait s job1 = Some (s1, job2) \<and>
    job_change_goal w goal s1 job2 = Some (s2, Some job3) \<and> working w X cls s job s2 job3 \<and>
    j_state job3 \<noteq> JOB_WAITING"
proof -
  obtain cls where wk: "working w X cls s job s job" using working_start [OF inv job w] by blast
  have "working w X cls s job s job1" by (rule working_job [OF wk same])
  then obtain s1 job2 where 1: "finish_and_wait ty message wait s job1 = Some (s1, job2)"
    "working w X cls s job s1 job2" "same_phase job1 job2"
    using working_wait [OF _ ty] by blast
  have state: "j_state job2 = j_state job" using 1(3) same(1) by (simp add: same_phase_def)
  have "j_state job2 = JOB_WAITING \<longrightarrow> goal = JOB_START" "goal \<noteq> JOB_RESPAWN"
    using goal wk between_calls_waiting_goal [of job] state by (auto simp: working_def)
  then obtain s2 r where 2: "job_change_goal w goal s1 job2 = Some (s2, r)"
    "\<And>job'. r = Some job' \<Longrightarrow> working w X cls s job s2 job' \<and> j_state job' \<noteq> JOB_WAITING"
    using working_goal [OF inv 1(2) w] by blast
  have "r \<noteq> None"
    using goal 2(1) job_change_goal_not_freed job_change_goal_start_kept 1(2) by (auto simp: working_def)
  then show ?thesis using 1(1) 2 by blast
qed

lemma answer_path_keeps:
  "sys_inv w X s \<Longrightarrow> working w X cls s job s' job' \<Longrightarrow> upholds w X (answer_path message wait reply (s', Some job'))"
  by (simp add: upholds_def answer_path_def put_job_def working_done)

lemma job_class_start_inv:
  assumes inv: "sys_inv w X s" and cls: "s_classes s cid = Some cls" and reg: "cid \<in> set (s_registered s)"
    and w: "os_ok w"
  shows "upholds w X (job_class_start w cid message env wait s)"
proof -
  obtain r where r: "requested_instance w cls env s = Some r" using requested_total [OF inv cls] by blast
  show ?thesis
  proof (cases r)
    case (Inl e)
    then show ?thesis using cls r inv by (simp add: job_class_start_def upholds_def)
  next
    case (Inr q)
    obtain ienv name where q: "q = (ienv, name)" by (meson surj_pair)
    obtain job s1 where 1: "(case instance_lookup cid name s of
          Some jid \<Rightarrow> do { job \<leftarrow> s_jobs s jid; Some (job, s) }
        | None \<Rightarrow> job_new w cid name s) = Some (job, s1)" "sys_inv w X s1" "s_jobs s1 (j_id job) = Some job"
      using induct_instance [OF inv cls reg] by blast
    let ?job = "job\<lparr>j_start_env := Some ienv\<rparr>"
    obtain cls2 s2 job2 s3 job3 where 2: "finish_and_wait BLOCKED_JOB_START_METHOD message wait s1 ?job = Some (s2, job2)"
      "job_change_goal w JOB_START s2 job2 = Some (s3, Some job3)" "working w X cls2 s1 job s3 job3"
      using wait_and_goal [OF 1(2,3) w, of ?job BLOCKED_JOB_START_METHOD JOB_START message wait] by (auto simp: same_phase_def)
    then show ?thesis
      using cls r Inr q 1 inv answer_path_keeps [OF 1(2) 2(3)] by (simp add: job_class_start_def upholds_def)
  qed
qed

lemma job_class_stop_inv:
  assumes inv: "sys_inv w X s" and cls: "s_classes s cid = Some cls" and w: "os_ok w"
  shows "upholds w X (job_class_stop w cid message env wait s)"
proof (cases rule: known_total [OF inv cls, of w env])
  case (1 e)
  then show ?thesis using inv by (simp add: job_class_stop_def upholds_def)
next
  case (2 e job)
  show ?thesis
  proof (cases "j_goal job = JOB_STOP")
    case True
    then show ?thesis using 2 inv by (simp add: job_class_stop_def upholds_def)
  next
    case False
    let ?job = "job\<lparr>j_stop_env := Some env\<rparr>"
    obtain cls2 s2 job2 s3 job3 where "finish_and_wait BLOCKED_JOB_STOP_METHOD message wait s ?job = Some (s2, job2)"
      "job_change_goal w JOB_STOP s2 job2 = Some (s3, Some job3)" "working w X cls2 s job s3 job3"
      using wait_and_goal [OF inv 2(2) w, of ?job BLOCKED_JOB_STOP_METHOD JOB_STOP message wait] False by (auto simp: same_phase_def)
    then show ?thesis using 2(1) False working_done [OF inv] by (simp add: job_class_stop_def upholds_def put_job_def)
  qed
qed

lemma job_class_restart_inv:
  assumes inv: "sys_inv w X s" and cls: "s_classes s cid = Some cls" and w: "os_ok w"
  shows "upholds w X (job_class_restart w cid message env wait s)"
proof (cases rule: known_total [OF inv cls, of w env])
  case (1 e)
  then show ?thesis using inv by (simp add: job_class_restart_def upholds_def)
next
  case (2 e job)
  show ?thesis
  proof (cases "j_goal job = JOB_STOP")
    case True
    then show ?thesis using 2 inv by (simp add: job_class_restart_def upholds_def)
  next
    case False
    let ?job = "job\<lparr>j_start_env := Some e, j_stop_env := None\<rparr>"
    obtain cls2 s2 job2 s3 job3 where 3: "finish_and_wait BLOCKED_JOB_RESTART_METHOD message wait s ?job = Some (s2, job2)"
      "job_change_goal w JOB_STOP s2 job2 = Some (s3, Some job3)" "working w X cls2 s job s3 job3"
      "j_state job3 \<noteq> JOB_WAITING"
      using wait_and_goal [OF inv 2(2) w, of ?job BLOCKED_JOB_RESTART_METHOD JOB_STOP message wait] False by (auto simp: same_phase_def)
    obtain s4 r where 4: "job_change_goal w JOB_START s3 job3 = Some (s4, r)"
      "\<And>job'. r = Some job' \<Longrightarrow> working w X cls2 s job s4 job'"
      using working_goal [OF inv 3(3) w, of JOB_START] by auto
    obtain job4 where "r = Some job4"
      using job_change_goal_start_kept [OF 4(1)] 3(3) by (auto simp: working_def)
    then show ?thesis
      using 2(1) False 3(1,2) 4(1) answer_path_keeps [OF inv 4(2)] by (simp add: job_class_restart_def)
  qed
qed

end
