(* ===== verification/ConfInv.thy ===== *)
theory ConfInv
  imports Conf ParseJobProps SysMethods
begin

text \<open>
  Loading configuration keeps the invariant of the daemon: parsing a definition, considering the new
  class and destroying the file it replaces are shown, one after the other, to leave classes, jobs
  and events fitting together, and to leave the class that the files prefer registered under each
  name, unless the one registered before has instances.
\<close>

section \<open>Changing the table of classes\<close>

text \<open>A class is added, which no one knows yet.\<close>

lemma class_added:
  assumes inv: "sys_inv w X s" and cls: "class_fit s (s_next s) cls" "class_refs cls = []"
  shows "sys_inv w X (set_class (s_next s) cls (s\<lparr>s_next := s_next s + 1\<rparr>))"
proof (rule sys_inv_table_step [OF inv])
  let ?cid = "s_next s"
  let ?s = "set_class ?cid cls (s\<lparr>s_next := s_next s + 1\<rparr>)"
  have none: "s_classes s ?cid = None" using sys_inv_conf(2) [OF inv, of ?cid] by blast
  have tab: "table_ok s" using sys_inv_table [OF inv] .
  have reg: "?cid \<notin> set (s_registered s)" using tab none by (auto simp: table_ok_def)
  then have "map (class_name ?s) (s_registered s) = map (class_name s) (s_registered s)" by (auto simp: class_name_def)
  then show "table_ok ?s" using tab by (simp add: table_ok_def del: map_eq_conv)
  show "class_fit ?s c cls1" if "s_classes ?s c = Some cls1" for c cls1
    using that cls(1) sys_inv_class(1) [OF inv, of c cls1] by (auto simp: class_fit_def split: if_splits)
  show "blockers_of (s_events ?s) i + class_count s i = blockers_of (s_events s) i + class_count ?s i" for i
    using class_count_new [OF sys_inv_finite [OF inv] none, of ?s cls i] cls(2) by simp
  show "j_class job \<in> set (s_registered ?s) \<and>
      (\<forall>cls' p. s_classes ?s (j_class job) = Some cls' \<longrightarrow> has_process cls1 p \<longrightarrow> has_process cls' p)"
    if "s_jobs s j = Some job" "s_classes s (j_class job) = Some cls1" for j job cls1
    using job_class_there(1) [OF inv that(1)] that(2) none by auto
  show "c < s_next ?s" if "c \<in> dom (s_classes ?s)" for c
    using that sys_inv_conf(2) [OF inv, of c] by (cases "c = ?cid") auto
  show "conf_fit (s_conf ?s)" using sys_inv_conf(1) [OF inv] by simp
qed (use sys_inv_finite [OF inv] in \<open>simp_all add: globals_def set_class_def\<close>)

text \<open>Which classes are registered, and which the files define.\<close>

lemma table_changed:
  assumes inv: "sys_inv w X s" and tab: "table_ok (s\<lparr>s_registered := reg, s_conf := conf\<rparr>)" and fit: "conf_fit conf"
    and jobs: "\<And>j job. s_jobs s j = Some job \<Longrightarrow> j_class job \<in> set reg"
    and del: "\<And>c cls. s_classes s c = Some cls \<Longrightarrow> c \<in> set (conf_jobs conf) \<Longrightarrow> \<not> c_deleted cls"
  shows "sys_inv w X (s\<lparr>s_registered := reg, s_conf := conf\<rparr>)"
proof (rule sys_inv_table_step [OF inv])
  let ?s = "s\<lparr>s_registered := reg, s_conf := conf\<rparr>"
  show "class_fit ?s c cls" if "s_classes ?s c = Some cls" for c cls
    using that sys_inv_class(1) [OF inv, of c cls] del by (auto simp: class_fit_def)
  show "blockers_of (s_events ?s) i + class_count s i = blockers_of (s_events s) i + class_count ?s i" for i
    by (simp add: class_count_def)
qed (use sys_inv_finite [OF inv] sys_inv_conf [OF inv] tab fit jobs in \<open>auto simp: globals_def\<close>)

lemma conf_changed:
  assumes inv: "sys_inv w X s" and fit: "conf_fit conf"
    and ok: "\<And>c. c \<in> set (conf_jobs conf) \<Longrightarrow> \<exists>cls. s_classes s c = Some cls \<and> \<not> c_deleted cls"
  shows "sys_inv w X (s\<lparr>s_conf := conf\<rparr>)"
proof -
  have "table_ok (s\<lparr>s_registered := s_registered s, s_conf := conf\<rparr>)"
    using sys_inv_table [OF inv] ok by (fastforce simp: table_ok_def class_name_def [abs_def])
  from table_changed [OF inv this fit] show ?thesis
    using ok job_class_there(1) [OF inv] by fastforce
qed

lemma sources_there:
  assumes "sys_inv w X s" and "c \<in> set (s_sources s)"
  shows "\<exists>cls. s_classes s c = Some cls \<and> \<not> c_deleted cls"
proof -
  obtain cls where cls: "s_classes s c = Some cls" using sys_inv_table [OF assms(1)] assms(2) by (auto simp: table_ok_def)
  then show ?thesis using sys_inv_class(1) [OF assms(1) cls] assms(2) by (auto simp: class_fit_def)
qed

lemma registered_inv:
  assumes inv: "sys_inv w X s" and tab: "table_ok (s\<lparr>s_registered := reg\<rparr>)"
    and jobs: "\<And>j job. s_jobs s j = Some job \<Longrightarrow> j_class job \<in> set reg"
  shows "sys_inv w X (s\<lparr>s_registered := reg\<rparr>)"
proof -
  have eq: "s\<lparr>s_registered := reg, s_conf := s_conf s\<rparr> = s\<lparr>s_registered := reg\<rparr>" by simp
  have "\<not> c_deleted cls" if "s_classes s c = Some cls" "c \<in> set (conf_jobs (s_conf s))" for c cls
    using sources_there [OF inv, of c] that by (auto simp: s_sources_def)
  with table_changed [OF inv, where reg = reg and conf = "s_conf s"] tab jobs sys_inv_conf(1) [OF inv]
  show ?thesis unfolding eq by blast
qed

text \<open>A class that is neither registered nor defined by a file is freed.\<close>

lemma class_free_inv:
  assumes inv: "sys_inv w X s" and cls: "s_classes s cid = Some cls"
    and out: "cid \<notin> set (s_registered s)" "cid \<notin> set (s_sources s)"
  shows "\<exists>evs. class_free cid s = Some (s\<lparr>s_events := evs, s_classes := (s_classes s)(cid := None)\<rparr>) \<and>
    sys_inv w X (s\<lparr>s_events := evs, s_classes := (s_classes s)(cid := None)\<rparr>)"
proof -
  have inst: "class_instances s cid = []"
    using job_class_there(1) [OF inv] out(1) by (auto simp: class_instances_def filter_empty_conv split: option.splits)
  note fit = sys_inv_class [OF inv cls]
  let ?R = "\<lambda>i. class_count s i + job_count s {} i - count_list (class_refs cls) i"
  obtain evs where run: "class_free cid s = Some (s\<lparr>s_events := evs, s_classes := (s_classes s)(cid := None),
      s_registered := removeAll cid (s_registered s)\<rparr>)" and cnt: "counted ?R evs []"
    using class_free_ok [OF cls _ inst fit(2)] fit(1) by (auto simp: class_fit_def)
  let ?s = "s\<lparr>s_events := evs, s_classes := (s_classes s)(cid := None)\<rparr>"
  have eq: "s\<lparr>s_events := evs, s_classes := (s_classes s)(cid := None), s_registered := removeAll cid (s_registered s)\<rparr> = ?s"
    using out(1) by simp
  have "sys_inv w X ?s"
  proof (rule sys_inv_table_step [OF inv])
    show "map core (s_events ?s) = map core (s_events s)"
      using class_free_still [OF run] by (simp add: still_def)
    show "table_ok ?s" by (rule table_ok_drop [OF sys_inv_table [OF inv], of _ cid]) (use out in simp_all)
    show "class_fit ?s c cls1" if "s_classes ?s c = Some cls1" for c cls1
      using that sys_inv_class(1) [OF inv, of c cls1] by (auto simp: class_fit_def split: if_splits)
    show "blockers_of (s_events ?s) i + class_count s i = blockers_of (s_events s) i + class_count ?s i" for i
      using class_count_drop [OF sys_inv_finite [OF inv] cls, of ?s i] cnt fit(2) by (simp add: counted_def)
    show "j_class job \<in> set (s_registered ?s) \<and>
        (\<forall>cls' p. s_classes ?s (j_class job) = Some cls' \<longrightarrow> has_process cls1 p \<longrightarrow> has_process cls' p)"
      if "s_jobs s j = Some job" "s_classes s (j_class job) = Some cls1" for j job cls1
      using job_class_there(1) [OF inv that(1)] that(2) by (auto split: if_splits)
    show "c < s_next ?s" if "c \<in> dom (s_classes ?s)" for c
      using that sys_inv_conf(2) [OF inv, of c] by (auto split: if_splits)
  qed (use sys_inv_finite [OF inv] sys_inv_conf(1) [OF inv] in \<open>simp_all add: globals_def\<close>)
  then show ?thesis using run unfolding eq by blast
qed

section \<open>The registered classes\<close>

text \<open>The class registered under a name is the one the files prefer, unless it has instances. The names
  in \<open>N\<close> are exempt, and those under which a class of \<open>C\<close> is registered.\<close>

definition settled_but :: "nat set \<Rightarrow> string set \<Rightarrow> sys \<Rightarrow> bool" where
  "settled_but C N s \<longleftrightarrow> (\<forall>n. n \<notin> N \<longrightarrow>
     (case job_class_get_registered n s of
        None \<Rightarrow> conf_select_job n s = None
      | Some reg \<Rightarrow> conf_select_job n s = Some reg \<or> class_instances s reg \<noteq> [] \<or> reg \<in> C))"

text \<open>Unless all override files are without errors - then \<open>strict\<close> is set - the registered class may also be
  one that lost its file.\<close>

definition conf_settled :: "bool \<Rightarrow> sys \<Rightarrow> bool" where
  "conf_settled strict s \<longleftrightarrow> (\<forall>n.
     (case job_class_get_registered n s of
        None \<Rightarrow> conf_select_job n s = None
      | Some reg \<Rightarrow> conf_select_job n s = Some reg \<or> class_instances s reg \<noteq> [] \<or>
          \<not> strict \<and> reg \<notin> set (s_sources s)))"

lemma settled_but_cong:
  assumes "\<And>n. n \<notin> N' \<Longrightarrow> job_class_get_registered n s' = job_class_get_registered n s"
    and "\<And>n. n \<notin> N' \<Longrightarrow> conf_select_job n s' = conf_select_job n s"
    and "class_instances s' = class_instances s" and "settled_but C N s" and "N \<subseteq> N'"
  shows "settled_but C N' s'"
  unfolding settled_but_def
proof (intro allI impI)
  fix n
  assume n: "n \<notin> N'"
  then have "n \<notin> N" using assms(5) by blast
  with assms(4) show "case job_class_get_registered n s' of None \<Rightarrow> conf_select_job n s' = None
      | Some reg \<Rightarrow> conf_select_job n s' = Some reg \<or> class_instances s' reg \<noteq> [] \<or> reg \<in> C"
    unfolding settled_but_def assms(1) [OF n] assms(2) [OF n] assms(3) by blast
qed

lemma settled_registered:
  assumes "settled_but (insert cid C) N s"
    and "\<And>n. n \<noteq> m \<Longrightarrow> job_class_get_registered n s' = job_class_get_registered n s \<and> job_class_get_registered n s \<noteq> Some cid"
    and "job_class_get_registered m s' = conf_select_job m s \<or>
      (\<exists>reg. job_class_get_registered m s' = Some reg \<and> class_instances s reg \<noteq> []) \<or>
      job_class_get_registered m s' = job_class_get_registered m s \<and> job_class_get_registered m s \<noteq> Some cid"
    and "\<And>n. conf_select_job n s' = conf_select_job n s" and "class_instances s' = class_instances s"
  shows "settled_but C N s'"
  unfolding settled_but_def
proof (intro allI impI)
  fix n
  assume n: "n \<notin> N"
  then have "case job_class_get_registered n s of None \<Rightarrow> conf_select_job n s = None
      | Some reg \<Rightarrow> conf_select_job n s = Some reg \<or> class_instances s reg \<noteq> [] \<or> reg \<in> insert cid C"
    using assms(1) by (simp add: settled_but_def)
  then show "case job_class_get_registered n s' of None \<Rightarrow> conf_select_job n s' = None
      | Some reg \<Rightarrow> conf_select_job n s' = Some reg \<or> class_instances s' reg \<noteq> [] \<or> reg \<in> C"
    using assms(2) [of n] assms(3) by (cases "n = m") (auto simp: assms(4,5) split: option.splits)
qed

lemma job_class_reconsider_inv:
  assumes inv: "sys_inv w X s" and cls: "s_classes s cid = Some cls" and set: "settled_but (insert cid C) N s"
  shows "\<exists>r p reg. job_class_reconsider cid s = Some (r, send p (s\<lparr>s_registered := reg\<rparr>)) \<and>
    sys_inv w X (s\<lparr>s_registered := reg\<rparr>) \<and> settled_but C N (s\<lparr>s_registered := reg\<rparr>) \<and> (r \<longleftrightarrow> cid \<notin> set reg)"
proof -
  let ?n = "c_name cls"
  have tab: "table_ok s" using sys_inv_table [OF inv] .
  obtain r p reg where run: "job_class_reconsider cid s = Some (r, send p (s\<lparr>s_registered := reg\<rparr>))"
    and t1: "table_ok (s\<lparr>s_registered := reg\<rparr>)"
    and keep: "\<forall>c\<in>set (s_registered s). c \<noteq> cid \<longrightarrow> c \<in> set reg"
    and r: "r \<longleftrightarrow> job_class_get_registered ?n (s\<lparr>s_registered := reg\<rparr>) \<noteq> Some cid"
    and reg: "job_class_get_registered ?n (s\<lparr>s_registered := reg\<rparr>) =
      (if job_class_get_registered ?n s = Some cid \<and> class_instances s cid = []
       then conf_select_job ?n s else job_class_get_registered ?n s)"
    and others: "\<forall>n. n \<noteq> ?n \<longrightarrow> job_class_get_registered n (s\<lparr>s_registered := reg\<rparr>) = job_class_get_registered n s"
    using job_class_reconsider_run [OF tab cls] by blast
  let ?s = "s\<lparr>s_registered := reg\<rparr>"
  have name: "class_name s cid = Some ?n" using cls by (simp add: class_name_def)
  have unreg: "r \<longleftrightarrow> cid \<notin> set reg" using r registered_Some [OF t1, of ?n cid] name by simp
  have "sys_inv w X ?s"
  proof (rule registered_inv [OF inv t1])
    fix j job
    assume job: "s_jobs s j = Some job"
    note there = job_class_there [OF inv job]
    show "j_class job \<in> set reg"
    proof (cases "j_class job = cid")
      case True
      then have "class_instances s cid \<noteq> []" using there(2) job by (auto simp: class_instances_def filter_empty_conv intro!: bexI [of _ j])
      moreover have "job_class_get_registered ?n s = Some cid" using registered_Some [OF tab] there(1) True name by simp
      ultimately show ?thesis using reg r unreg True by auto
    qed (use there(1) keep in blast)
  qed
  moreover have "settled_but C N ?s"
  proof (rule settled_registered [OF set, of ?n])
    show "job_class_get_registered ?n ?s = conf_select_job ?n s \<or>
      (\<exists>reg. job_class_get_registered ?n ?s = Some reg \<and> class_instances s reg \<noteq> []) \<or>
      job_class_get_registered ?n ?s = job_class_get_registered ?n s \<and> job_class_get_registered ?n s \<noteq> Some cid"
      using reg by auto
    show "job_class_get_registered n ?s = job_class_get_registered n s \<and> job_class_get_registered n s \<noteq> Some cid" if "n \<noteq> ?n" for n
      using that others registered_Some [OF tab] name by auto
  qed (simp_all add: conf_select_job_def class_instances_def fun_eq_iff)
  ultimately show ?thesis using run unreg by blast
qed

section \<open>Considering a class\<close>

lemma sys_inv_valid:
  assumes "sys_inv w X s" and "i \<in> event_ids (s_events s)"
  shows "event_valid (s_events s) i"
proof -
  obtain e where e: "event_get i (s_events s) = Some e" using assms(2) event_get_None_iff by fastforce
  then show ?thesis using assms(1) event_get_set [OF e] by (auto simp: sys_inv_def events_ok_def event_valid_def)
qed

lemma sys_inv_roots:
  assumes "sys_inv w X s"
  shows "roots_ok s"
  unfolding roots_ok_def
proof (intro allI impI)
  fix cid cls root
  assume cls: "s_classes s cid = Some cls" "c_start_on cls = Some root"
  obtain R where R: "counted R (s_events s) ([] @ oper_refs root @ cond_refs (c_stop_on cls))"
    using class_condition(2) [OF assms cls] by blast
  have "count_list (oper_refs root) j \<le> blockers_of (s_events s) j" for j
    using R by (simp add: counted_def)
  moreover have "\<forall>i\<in>set (oper_refs root). event_valid (s_events s) i"
    using class_condition(3) [OF assms cls] sys_inv_valid [OF assms] by blast
  ultimately show "oper_ok root \<and> (\<forall>i\<in>set (oper_refs root). event_valid (s_events s) i) \<and>
      (\<forall>j. count_list (oper_refs root) j \<le> blockers_of (s_events s) j)"
    using class_condition(1) [OF assms cls] by blast
qed

lemma handle_leaves_core:
  assumes "oper_ok t" and "\<forall>i\<in>set is. event_valid evs i"
    and "foldM (\<lambda>i (root, evs). handle_leaves i root evs) is (t, evs) = Some (t', evs')"
  shows "map core evs' = map core evs"
  using assms
proof (induction "is" arbitrary: t evs)
  case (Cons i "is")
  let ?m = "matches_event evs [] i"
  have "handle_leaves i t evs = Some (feed_leaves ?m i t, block_times i (new_matches ?m t) evs)"
    using Cons.prems by (simp add: handle_leaves_eq)
  then have "foldM (\<lambda>i (root, evs). handle_leaves i root evs) is
      (feed_leaves ?m i t, block_times i (new_matches ?m t) evs) = Some (t', evs')"
    using Cons.prems(3) by simp
  from Cons.IH [OF feed_leaves_ok [OF Cons.prems(1)] _ this] show ?case using Cons.prems(2) by simp
qed simp

text \<open>The new class takes over the events of the old one.\<close>

lemma job_class_event_block_inv:
  assumes inv: "sys_inv w X s" and old: "s_classes s old = Some old_class" and new: "s_classes s new = Some new_class"
  shows "\<exists>so evs. job_class_event_block old new s = Some (set_class new (new_class\<lparr>c_start_on := so\<rparr>) (set_events evs s)) \<and>
    sys_inv w X (set_class new (new_class\<lparr>c_start_on := so\<rparr>) (set_events evs s))"
proof (cases "c_start_on old_class = None \<or> c_start_on new_class = None \<or> class_instances s old \<noteq> []")
  case True
  then have "job_class_event_block old new s = Some s"
    using old new by (auto simp: job_class_event_block_def split: option.splits)
  moreover have "s = set_class new (new_class\<lparr>c_start_on := c_start_on new_class\<rparr>) (set_events (s_events s) s)"
    using new by (simp add: set_class_def set_events_def fun_upd_idem)
  ultimately show ?thesis using inv by metis
next
  case False
  then obtain old_root root where t: "c_start_on old_class = Some old_root" "c_start_on new_class = Some root" by auto
  note ok = class_condition(1) [OF inv new t(2)]
  have held: "\<forall>i\<in>set (held_events old_root). event_valid (s_events s) i"
    using class_condition(1,3) [OF inv old t(1)] sys_inv_valid [OF inv] by (auto simp: held_events_refs)
  obtain t' evs where run: "foldM (\<lambda>i (root, evs). handle_leaves i root evs) (held_events old_root)
      (root, s_events s) = Some (t', evs)" "oper_ok t'"
    and cnt: "\<And>j. blockers_of evs j + count_list (oper_refs root) j =
       blockers_of (s_events s) j + count_list (oper_refs t') j"
    using handle_leaves_all [OF ok held] by blast
  have "sys_inv w X (set_class new (new_class\<lparr>c_start_on := Some t'\<rparr>) (set_events evs s))"
  proof (rule class_change [OF inv new])
    show "class_fit s new (new_class\<lparr>c_start_on := Some t'\<rparr>)"
      using sys_inv_class(1) [OF inv new] run(2) by (simp add: class_fit_def class_ok_def cond_ok_def)
    show "map core evs = map core (s_events s)" by (rule handle_leaves_core [OF ok held run(1)])
    show "blockers_of evs i + count_list (class_refs new_class) i =
        blockers_of (s_events s) i + count_list (class_refs (new_class\<lparr>c_start_on := Some t'\<rparr>)) i" for i
      using cnt [of i] t(2) by (simp add: class_refs_def cond_refs_def)
  qed (simp_all add: has_process_def)
  moreover have "job_class_event_block old new s =
      Some (set_class new (new_class\<lparr>c_start_on := Some t'\<rparr>) (set_events evs s))"
    using False t old new run(1) by (simp add: job_class_event_block_def)
  ultimately show ?thesis by blast
qed

text \<open>What \<^verbatim>\<open>job_class_consider\<close> leaves alone.\<close>

definition sources_kept :: "sys \<Rightarrow> sys \<Rightarrow> bool" where
  "sources_kept s s' \<longleftrightarrow> s_conf s' = s_conf s \<and> s_jobs s' = s_jobs s \<and> s_instances s' = s_instances s \<and>
     s_next s' = s_next s \<and> class_name s' = class_name s"

lemma job_class_remove_inv:
  assumes inv: "sys_inv w X s" and cls: "s_classes s cid = Some cls" and none: "class_instances s cid = []"
  shows "\<exists>p. job_class_remove cid s = Some (True, send p (s\<lparr>s_registered := removeAll cid (s_registered s)\<rparr>)) \<and>
    sys_inv w X (s\<lparr>s_registered := removeAll cid (s_registered s)\<rparr>)"
proof -
  let ?s = "s\<lparr>s_registered := removeAll cid (s_registered s)\<rparr>"
  have "table_ok ?s"
    using sys_inv_table [OF inv] distinct_map_removeAll by (auto simp: table_ok_def)
  then have "sys_inv w X ?s"
  proof (rule registered_inv [OF inv])
    fix j job
    assume job: "s_jobs s j = Some job"
    note there = job_class_there [OF inv job]
    have "j_class job \<noteq> cid" using none job there(2) by (auto simp: class_instances_def filter_empty_conv)
    then show "j_class job \<in> set (removeAll cid (s_registered s))" using there(1) by simp
  qed
  then show ?thesis using job_class_remove_eq [OF cls] none by auto
qed

lemma job_class_add_inv:
  assumes inv: "sys_inv w X s" and cls: "s_classes s cid = Some cls"
    and free: "job_class_get_registered (c_name cls) s = None"
  shows "\<exists>p. job_class_add (Some cid) s = Some (send p (s\<lparr>s_registered := s_registered s @ [cid]\<rparr>)) \<and>
    sys_inv w X (s\<lparr>s_registered := s_registered s @ [cid]\<rparr>)"
proof -
  let ?s = "s\<lparr>s_registered := s_registered s @ [cid]\<rparr>"
  have "class_name s cid \<notin> class_name s ` set (s_registered s)"
    using free cls by (auto simp: registered_None class_name_def image_iff dest: sym)
  then have "table_ok ?s" using sys_inv_table [OF inv] cls by (auto simp: table_ok_def)
  then have "sys_inv w X ?s" using job_class_there(1) [OF inv] by (intro registered_inv [OF inv]) auto
  then show ?thesis using job_class_add_eq [OF cls] by blast
qed

lemma conf_select_cong:
  "s_conf s' = s_conf s \<Longrightarrow> class_name s' = class_name s \<Longrightarrow> conf_select_job n s' = conf_select_job n s"
  by (simp add: conf_select_job_def s_sources_def)

lemma registered_cong:
  "s_registered s' = s_registered s \<Longrightarrow> class_name s' = class_name s \<Longrightarrow>
     job_class_get_registered n s' = job_class_get_registered n s"
  by (simp add: job_class_get_registered_def)

lemma class_name_start_on:
  "s_classes s cid = Some cls \<Longrightarrow> s_classes s' = (s_classes s)(cid \<mapsto> cls\<lparr>c_start_on := x\<rparr>) \<Longrightarrow> class_name s' = class_name s"
  by (auto simp: class_name_def fun_eq_iff)

text \<open>The cases of \<^verbatim>\<open>job_class_consider\<close>: nothing registered, the best class registered, or another one.\<close>

lemma job_class_consider_sys_inv:
  assumes inv: "sys_inv w X s" and cls: "s_classes s cid = Some cls"
    and best: "conf_select_job (c_name cls) s = Some best"
  shows "\<exists>r s'. job_class_consider cid s = Some (r, s') \<and> sys_inv w X s' \<and> sources_kept s s'"
proof -
  obtain bc where bc: "s_classes s best = Some bc" and name: "c_name bc = c_name cls"
    using conf_select_job_Some [OF best] by (auto simp: class_name_def)
  show ?thesis
  proof (cases "job_class_get_registered (c_name cls) s")
    case None
    obtain p where "job_class_add (Some best) s = Some (send p (s\<lparr>s_registered := s_registered s @ [best]\<rparr>))"
      "sys_inv w X (s\<lparr>s_registered := s_registered s @ [best]\<rparr>)"
      using job_class_add_inv [OF inv bc] None name by auto
    then show ?thesis using cls best None by (simp add: job_class_consider_def sources_kept_def)
  next
    case (Some reg)
    then obtain rc where rc: "s_classes s reg = Some rc" "c_name rc = c_name cls" "reg \<in> set (s_registered s)"
      using registered_Some [OF sys_inv_table [OF inv]] by (auto simp: class_name_def)
    show ?thesis
    proof (cases "reg = best")
      case True
      then show ?thesis using cls best Some inv by (simp add: job_class_consider_def sources_kept_def)
    next
      case False
      obtain so evs where blk: "job_class_event_block reg best s =
          Some (set_class best (bc\<lparr>c_start_on := so\<rparr>) (set_events evs s))"
        and inv1: "sys_inv w X (set_class best (bc\<lparr>c_start_on := so\<rparr>) (set_events evs s))"
        using job_class_event_block_inv [OF inv rc(1) bc] by blast
      let ?s1 = "set_class best (bc\<lparr>c_start_on := so\<rparr>) (set_events evs s)"
      have cn: "class_name ?s1 = class_name s" by (rule class_name_start_on [OF bc]) simp
      have rc1: "s_classes ?s1 reg = Some rc" and bc1: "s_classes ?s1 best = Some (bc\<lparr>c_start_on := so\<rparr>)"
        using rc(1) False by simp_all
      show ?thesis
      proof (cases "class_instances s reg = []")
        case True
        then have none: "class_instances ?s1 reg = []" by simp
        let ?s2 = "?s1\<lparr>s_registered := removeAll reg (s_registered ?s1)\<rparr>"
        obtain p where rem: "job_class_remove reg ?s1 = Some (True, send p ?s2)" and inv2: "sys_inv w X ?s2"
          using job_class_remove_inv [OF inv1 rc1 none] by blast
        have reg1: "job_class_get_registered (c_name cls) ?s1 = Some reg"
          using registered_cong [of ?s1 s "c_name cls"] cn Some by simp
        have free: "job_class_get_registered (c_name cls) (send p ?s2) = None"
          using table_remove(2) [OF sys_inv_table [OF inv1] reg1] by simp
        obtain q where "job_class_add (Some best) (send p ?s2) =
            Some (send q ((send p ?s2)\<lparr>s_registered := s_registered (send p ?s2) @ [best]\<rparr>))"
          "sys_inv w X ((send p ?s2)\<lparr>s_registered := s_registered (send p ?s2) @ [best]\<rparr>)"
          using job_class_add_inv [of w X "send p ?s2" best "bc\<lparr>c_start_on := so\<rparr>"] inv2 bc1 free name by auto
        then show ?thesis using cls best Some False blk rem cn by (simp add: job_class_consider_def sources_kept_def)
      next
        case busy: False
        have rem: "job_class_remove reg ?s1 = Some (False, ?s1)"
          using job_class_remove_eq [OF rc1] busy by simp
        obtain so' evs' where res: "reset_start_on best ?s1 =
            Some (set_class best (bc\<lparr>c_start_on := so'\<rparr>) (set_events evs' ?s1))"
          using reset_start_on_eq [OF sys_inv_roots [OF inv1] bc1] by auto
        then have "sys_inv w X (set_class best (bc\<lparr>c_start_on := so'\<rparr>) (set_events evs' ?s1))"
          using reset_start_on_inv [OF inv1 bc1] by auto
        moreover have "class_name (set_class best (bc\<lparr>c_start_on := so'\<rparr>) (set_events evs' ?s1)) = class_name s"
          by (rule class_name_start_on [OF bc]) simp
        ultimately show ?thesis
          using cls best Some False blk rem res by (auto simp: job_class_consider_def sources_kept_def)
      qed
    qed
  qed
qed

lemma sources_kept_instances: "sources_kept s s' \<Longrightarrow> class_instances s' = class_instances s"
  by (simp add: sources_kept_def class_instances_def fun_eq_iff)

lemma job_class_consider_inv:
  assumes inv: "sys_inv w X s" and cls: "s_classes s cid = Some cls" and src: "cid \<in> set (s_sources s)"
    and set: "settled_but C (insert (c_name cls) N) s"
  shows "\<exists>r s'. job_class_consider cid s = Some (r, s') \<and> sys_inv w X s' \<and> sources_kept s s' \<and> settled_but C N s'"
proof -
  have "conf_select_job (c_name cls) s \<noteq> None"
    using src cls by (auto simp: conf_select_job_def find_None_iff class_name_def)
  then obtain best where best: "conf_select_job (c_name cls) s = Some best" by blast
  obtain r s' where run: "job_class_consider cid s = Some (r, s')" "sys_inv w X s'" "sources_kept s s'"
    using job_class_consider_sys_inv [OF inv cls best] by blast
  have sel: "conf_select_job n s' = conf_select_job n s" for n
    by (rule conf_select_cong) (use run(3) in \<open>simp_all add: sources_kept_def\<close>)
  have run2: "(\<forall>n. n \<noteq> c_name cls \<longrightarrow> job_class_get_registered n s' = job_class_get_registered n s) \<and>
    (case job_class_get_registered (c_name cls) s of
       None \<Rightarrow> job_class_get_registered (c_name cls) s' = Some best \<and> r = (cid = best)
     | Some reg \<Rightarrow>
         if reg \<noteq> best \<and> class_instances s reg \<noteq> []
         then job_class_get_registered (c_name cls) s' = Some reg \<and> \<not> r
         else job_class_get_registered (c_name cls) s' = Some best \<and> r = (cid = best))"
    using job_class_consider_run [OF sys_inv_table [OF inv] sys_inv_roots [OF inv] cls best]
    by (elim exE conjE) (simp only: run(1) option.inject prod.inject simp_thms)
  then have others: "job_class_get_registered n s' = job_class_get_registered n s" if "n \<noteq> c_name cls" for n
    using that by blast
  have self: "job_class_get_registered (c_name cls) s' = Some best \<or>
      (\<exists>reg. job_class_get_registered (c_name cls) s' = Some reg \<and> class_instances s reg \<noteq> [])"
  proof (cases "job_class_get_registered (c_name cls) s")
    case None
    then show ?thesis using run2 by simp
  next
    case (Some reg)
    then show ?thesis using run2 by (cases "reg \<noteq> best \<and> class_instances s reg \<noteq> []") auto
  qed
  have "settled_but C N s'"
    unfolding settled_but_def
  proof (intro allI impI)
    fix n
    assume n: "n \<notin> N"
    show "case job_class_get_registered n s' of None \<Rightarrow> conf_select_job n s' = None
        | Some reg \<Rightarrow> conf_select_job n s' = Some reg \<or> class_instances s' reg \<noteq> [] \<or> reg \<in> C"
    proof (cases "n = c_name cls")
      case True
      then show ?thesis using self best by (auto simp: sel sources_kept_instances [OF run(3)])
    next
      case False
      then have "n \<notin> insert (c_name cls) N" using n by blast
      with set show ?thesis
        unfolding settled_but_def sel sources_kept_instances [OF run(3)] others [OF False] by blast
    qed
  qed
  then show ?thesis using run by blast
qed

section \<open>Parsing\<close>

text \<open>What handlers make of a class: the name and the mark for deletion stay, processes are not taken away,
  and a condition either stays or refers to no events.\<close>

definition reworked :: "JobClass \<Rightarrow> JobClass \<Rightarrow> bool" where
  "reworked cls cls' \<longleftrightarrow> c_name cls' = c_name cls \<and> c_deleted cls' = c_deleted cls \<and>
     (c_instance cls \<noteq> None \<longrightarrow> c_instance cls' \<noteq> None) \<and>
     (c_start_on cls' = c_start_on cls \<or> cond_ok (c_start_on cls') \<and> cond_refs (c_start_on cls') = []) \<and>
     (c_stop_on cls' = c_stop_on cls \<or> cond_ok (c_stop_on cls') \<and> cond_refs (c_stop_on cls') = []) \<and>
     (\<forall>p. c_process cls p \<noteq> None \<longrightarrow> c_process cls' p \<noteq> None) \<and>
     (\<forall>p proc. c_process cls' p = Some proc \<longrightarrow> c_process cls p = Some proc \<or> p_command proc \<noteq> None)"

interpretation reworked: stanza_invariant "reworked cls" for cls
proof unfold_locales
  show "reworked cls cls1 \<Longrightarrow> p_command proc \<noteq> None \<Longrightarrow> reworked cls (set_process p proc cls1)" for cls1 p proc
    by (auto simp: reworked_def set_process_def)
qed (auto simp: reworked_def cond_ok_def cond_refs_def set_limit_def)

lemma reworked_refl: "reworked cls cls"
  by (simp add: reworked_def)

text \<open>Of libnih it is used that a parse without an error is a sequence of calls of handlers without
  an error.\<close>

definition parser_ok :: "conf_lib \<Rightarrow> bool" where
  "parser_ok lib \<longleftrightarrow> (\<forall>table file pos cls pos' cls'. cl_parse_file lib table file pos cls = Some (None, pos', cls') \<longrightarrow>
     handled table file cls cls')"

text \<open>What is assumed of the files: they can be parsed in finite time, none sets the kill timeout to 0, and
  an error in an override file leaves the class with an instance name, a command for every process
  and conditions that can be matched. \<open>kill_timeout_zero_aborts\<close> and \<open>exec_error_aborts\<close> show what happens
  otherwise.\<close>

definition files_ok :: "conf_lib \<Rightarrow> bool" where
  "files_ok lib \<longleftrightarrow> (\<forall>n path buf cls. cl_read lib n path = Some buf \<longrightarrow>
     (\<exists>err pos' cls'. parse_job (cl_parse_file lib) (cl_debug lib) (cl_config lib) cls buf (0, 1) = Some (err, pos', cls') \<and>
        (err = None \<or> is_conf_file_override path \<longrightarrow> c_kill_timeout cls \<noteq> 0 \<longrightarrow> c_kill_timeout cls' \<noteq> 0) \<and>
        (err \<noteq> None \<and> is_conf_file_override path \<longrightarrow> reworked cls cls')))"

text \<open>No override file has an error.\<close>

definition overrides_ok :: "conf_lib \<Rightarrow> bool" where
  "overrides_ok lib \<longleftrightarrow> (\<forall>n path buf cls err pos' cls'. cl_read lib n path = Some buf \<longrightarrow> is_conf_file_override path \<longrightarrow>
     parse_job (cl_parse_file lib) (cl_debug lib) (cl_config lib) cls buf (0, 1) = Some (err, pos', cls') \<longrightarrow> err = None)"

definition files_fit :: "bool \<Rightarrow> conf_lib \<Rightarrow> bool" where
  "files_fit strict lib \<longleftrightarrow> files_ok lib \<and> (strict \<longrightarrow> overrides_ok lib)"

lemma parse_job_reworked:
  assumes "parser_ok lib" and "files_fit strict lib" and "cl_read lib n path = Some buf"
  shows "\<exists>err pos' cls'. parse_job (cl_parse_file lib) (cl_debug lib) (cl_config lib) cls buf (0, 1) = Some (err, pos', cls') \<and>
    (err = None \<or> is_conf_file_override path \<longrightarrow> reworked cls cls' \<and> (c_kill_timeout cls \<noteq> 0 \<longrightarrow> c_kill_timeout cls' \<noteq> 0)) \<and>
    (is_conf_file_override path \<and> err \<noteq> None \<longrightarrow> \<not> strict)"
proof -
  have files: "files_ok lib" using assms(2) by (simp add: files_fit_def)
  obtain err pos' cls' where run: "parse_job (cl_parse_file lib) (cl_debug lib) (cl_config lib) cls buf (0, 1) = Some (err, pos', cls')"
    and ok: "err = None \<or> is_conf_file_override path \<longrightarrow> c_kill_timeout cls \<noteq> 0 \<longrightarrow> c_kill_timeout cls' \<noteq> 0"
      "err \<noteq> None \<and> is_conf_file_override path \<longrightarrow> reworked cls cls'"
    using files [unfolded files_ok_def, rule_format, OF assms(3), of cls] by blast
  have "reworked cls cls'" if "err = None"
  proof -
    have "handled (stanzas (cl_debug lib) (cl_config lib)) buf cls cls'"
      using run that assms(1) unfolding parser_ok_def parse_job_def by blast
    then show ?thesis using handled_keeps reworked.keeps_stanzas reworked_refl by blast
  qed
  moreover have "\<not> strict" if "is_conf_file_override path" "err \<noteq> None"
    using assms(2,3) run that unfolding files_fit_def overrides_ok_def by blast
  ultimately show ?thesis using run ok by blast
qed

lemma reworked_ok:
  assumes "reworked cls cls'" and "class_ok cls" and "c_kill_timeout cls' \<noteq> 0"
  shows "class_ok cls'"
proof -
  have "p_command proc \<noteq> None" if "c_process cls' p = Some proc" for p proc
    using assms(1,2) that unfolding reworked_def class_ok_def by blast
  moreover have "cond_ok (c_start_on cls')" "cond_ok (c_stop_on cls')"
    using assms(1,2) by (auto simp: reworked_def class_ok_def)
  ultimately show ?thesis using assms(3) by (simp add: class_ok_def)
qed

lemma parse_into_new_inv:
  assumes inv: "sys_inv w X s" and lib: "parser_ok lib" "files_fit strict lib" "cl_read lib n path = Some buf" and name: "name \<noteq> []"
  shows "\<exists>err s'. parse_into lib w None name buf s = Some (err, s_next s, s') \<and> sys_inv w X s' \<and>
    (err \<noteq> None \<longrightarrow> s' = s) \<and>
    (err = None \<longrightarrow> (\<exists>cls. s' = set_class (s_next s) cls (s\<lparr>s_next := s_next s + 1\<rparr>) \<and> \<not> c_deleted cls))"
proof -
  obtain cls0 where cls0: "job_class_new w s name = Some cls0" "class_ok cls0" "c_instance cls0 \<noteq> None"
    "\<not> c_deleted cls0" "c_start_on cls0 = None" "c_stop_on cls0 = None" "c_kill_timeout cls0 \<noteq> 0"
    using name by (simp add: job_class_new_def class_ok_def cond_ok_def JOB_DEFAULT_KILL_TIMEOUT_def)
  obtain err pos' cls where run: "parse_job (cl_parse_file lib) (cl_debug lib) (cl_config lib) cls0 buf (0, 1) = Some (err, pos', cls)"
    and ok: "err = None \<longrightarrow> reworked cls0 cls \<and> (c_kill_timeout cls0 \<noteq> 0 \<longrightarrow> c_kill_timeout cls \<noteq> 0)"
    using parse_job_reworked [OF lib, of cls0] by blast
  show ?thesis
  proof (cases err)
    case None
    then have re: "reworked cls0 cls" "c_kill_timeout cls \<noteq> 0" using ok cls0(7) by auto
    then have "class_fit s (s_next s) cls" "class_refs cls = []" "\<not> c_deleted cls"
      using reworked_ok [OF re(1) cls0(2) re(2)] cls0 by (auto simp: class_fit_def reworked_def class_refs_def cond_refs_def)
    then show ?thesis using class_added [OF inv] None cls0(1) run by (auto simp: parse_into_def Let_def)
  next
    case (Some e)
    then show ?thesis using inv cls0(1) run by (simp add: parse_into_def)
  qed
qed

lemma free_replaced_ok:
  assumes "cond_ok old" and "counted R (s_events s) (xs @ cond_refs old @ ys)" and "new = old \<or> cond_refs new = []"
  shows "\<exists>evs. free_replaced old new s = Some (set_events evs s) \<and> counted R evs (xs @ cond_refs new @ ys) \<and>
    map core evs = map core (s_events s)"
proof (cases "new = old")
  case True
  then have "free_replaced old new s = Some (set_events (s_events s) s)" by (simp add: free_replaced_def set_events_def)
  then show ?thesis using assms(2) True by blast
next
  case False
  obtain evs where evs: "free_condition old s = Some (set_events evs s)" "counted R evs (xs @ ys)"
    using free_condition_ok [OF assms(1,2)] by blast
  have "map core evs = map core (s_events s)"
    using free_condition_still [OF evs(1)] by (simp add: still_def)
  then show ?thesis using evs False assms(3) by (auto simp: free_replaced_def)
qed

lemma parse_into_update_inv:
  assumes inv: "sys_inv w X s" and lib: "parser_ok lib" "files_fit strict lib" "cl_read lib n path = Some buf"
    and path: "is_conf_file_override path" and cls: "s_classes s cid = Some cls"
  shows "\<exists>err cls' evs. parse_into lib w (Some cid) name buf s = Some (err, cid, set_class cid cls' (set_events evs s)) \<and>
    sys_inv w X (set_class cid cls' (set_events evs s)) \<and> c_name cls' = c_name cls \<and> (err \<noteq> None \<longrightarrow> \<not> strict)"
proof -
  note fit = sys_inv_class [OF inv cls]
  have ok: "class_ok cls" "c_kill_timeout cls \<noteq> 0" "cond_ok (c_start_on cls)" "cond_ok (c_stop_on cls)"
    using fit(1) by (auto simp: class_fit_def class_ok_def)
  obtain err pos' cls' where run: "parse_job (cl_parse_file lib) (cl_debug lib) (cl_config lib) cls buf (0, 1) = Some (err, pos', cls')"
    and re: "reworked cls cls'" "c_kill_timeout cls' \<noteq> 0" and soft: "err \<noteq> None \<longrightarrow> \<not> strict"
    using parse_job_reworked [OF lib, of cls] path ok(2) by blast
  let ?R = "\<lambda>i. class_count s i + job_count s {} i - count_list (class_refs cls) i"
  obtain evs1 where e1: "free_replaced (c_start_on cls) (c_start_on cls') s = Some (set_events evs1 s)"
    "counted ?R evs1 ([] @ cond_refs (c_start_on cls') @ cond_refs (c_stop_on cls))" "map core evs1 = map core (s_events s)"
    using free_replaced_ok [OF ok(3), of ?R s "[]" "cond_refs (c_stop_on cls)" "c_start_on cls'"] fit(2) re(1)
    by (auto simp: class_refs_def reworked_def)
  obtain evs where e2: "free_replaced (c_stop_on cls) (c_stop_on cls') (set_events evs1 s) = Some (set_events evs (set_events evs1 s))"
    "counted ?R evs (cond_refs (c_start_on cls') @ cond_refs (c_stop_on cls') @ [])" "map core evs = map core evs1"
    using free_replaced_ok [OF ok(4), of ?R "set_events evs1 s" "cond_refs (c_start_on cls')" "[]" "c_stop_on cls'"] e1(2) re(1)
    by (auto simp: reworked_def)
  have "sys_inv w X (set_class cid cls' (set_events evs s))"
  proof (rule class_change [OF inv cls])
    show "class_fit s cid cls'"
      using fit(1) re(1) reworked_ok [OF re(1) ok(1) re(2)] by (auto simp: class_fit_def reworked_def)
    show "has_process cls' p" if "has_process cls p" for p using re(1) that by (simp add: reworked_def has_process_def)
    show "blockers_of evs i + count_list (class_refs cls) i = blockers_of (s_events s) i + count_list (class_refs cls') i" for i
      using e2(2) fit(2) by (simp add: counted_def class_refs_def)
  qed (use re(1) e1(3) e2(3) in \<open>simp_all add: reworked_def\<close>)
  moreover have "set_events evs (set_events evs1 s) = set_events evs s" by (simp add: set_events_def)
  ultimately show ?thesis
    using cls run e1(1) e2(1) re(1) soft by (auto simp: parse_into_def reworked_def)
qed

section \<open>The files of a source\<close>

definition jobs_of :: "ConfFile list \<Rightarrow> nat list" where
  "jobs_of fs = List.map_filter f_job fs"

lemma jobs_of_append [simp]: "jobs_of (fs @ gs) = jobs_of fs @ jobs_of gs"
  by (simp add: jobs_of_def List.map_filter_def)

lemma jobs_of_simps [simp]: "jobs_of [] = []"
  "jobs_of (f # fs) = (case f_job f of None \<Rightarrow> [] | Some c \<Rightarrow> [c]) @ jobs_of fs"
  by (simp_all add: jobs_of_def List.map_filter_simps split: option.split)

lemma source_jobs_eq: "source_jobs source = (if cs_type source = CONF_JOB_DIR then jobs_of (cs_files source) else [])"
  by (simp add: source_jobs_def jobs_of_def)

lemma lookup_file_split:
  assumes "lookup_file path source = Some f"
  obtains fs1 fs2 where "cs_files source = fs1 @ f # fs2" and "f_path f = path" and "path \<notin> f_path ` set fs1"
proof -
  obtain j where j: "j < length (cs_files source)" "f_path (cs_files source ! j) = path" "f = cs_files source ! j"
    "\<And>k. k < j \<Longrightarrow> f_path (cs_files source ! k) \<noteq> path"
    using assms by (auto simp: lookup_file_def find_Some_iff)
  have "cs_files source = take j (cs_files source) @ f # drop (Suc j) (cs_files source)"
    using j by (simp add: id_take_nth_drop)
  moreover have "path \<notin> f_path ` set (take j (cs_files source))"
  proof
    assume "path \<in> f_path ` set (take j (cs_files source))"
    then obtain k where "k < j" "f_path (cs_files source ! k) = path" using j(1) by (auto simp: in_set_conv_nth)
    then show False using j(4) by blast
  qed
  ultimately show ?thesis using that j(2,3) by blast
qed

lemma remove_file_split:
  assumes "lookup_file path source = Some f" and "cs_files source = fs1 @ f # fs2" and "path \<notin> f_path ` set fs1"
  shows "remove_file path source = source\<lparr>cs_files := fs1 @ fs2\<rparr>"
proof -
  have "f_path f = path" using assms(1) by (auto simp: lookup_file_def find_Some_iff)
  then have "f \<notin> set fs1" using assms(3) by blast
  then show ?thesis using assms(1,2) by (simp add: remove_file_def remove1_append)
qed

lemma set_job_of_split:
  "path \<notin> f_path ` set fs1 \<Longrightarrow> f_path f = path \<Longrightarrow> set_job_of path job (fs1 @ f # fs2) = fs1 @ f\<lparr>f_job := job\<rparr> # fs2"
  by (induction fs1) auto

lemma lookup_file_None: "lookup_file path source = None \<longleftrightarrow> path \<notin> f_path ` set (cs_files source)"
  by (auto simp: lookup_file_def find_None_iff)

text \<open>The state with other files in a source.\<close>

definition shape :: "sys \<Rightarrow> (string \<times> ConfSourceType) list" where
  "shape s = map (\<lambda>source. (cs_path source, cs_type source)) (s_conf s)"

lemma get_put_source: "get_source i s = Some source \<Longrightarrow> get_source i (put_source i source' s) = Some source'"
  by (simp add: get_source_def put_source_def split: if_splits)

lemma put_put_source [simp]: "put_source i a (put_source i b s) = put_source i a s"
  by (simp add: put_source_def)

lemma shape_put_source:
  assumes "get_source i s = Some source" and "cs_path source' = cs_path source" and "cs_type source' = cs_type source"
  shows "shape (put_source i source' s) = shape s"
  using assms by (auto simp: shape_def put_source_def get_source_def map_update list_update_same_conv split: if_splits)

lemma put_source_sel [simp]:
  "s_events (put_source i x s) = s_events s" "s_classes (put_source i x s) = s_classes s"
  "s_registered (put_source i x s) = s_registered s" "s_jobs (put_source i x s) = s_jobs s"
  "s_instances (put_source i x s) = s_instances s" "s_next (put_source i x s) = s_next s"
  "class_name (put_source i x s) = class_name s" "class_instances (put_source i x s) = class_instances s"
  by (simp_all add: put_source_def class_name_def class_instances_def fun_eq_iff)

lemma put_source_jobs:
  assumes "get_source i s = Some source"
  obtains A B where "s_sources s = A @ source_jobs source @ B"
    and "\<And>source'. s_sources (put_source i source' s) = A @ source_jobs source' @ B"
proof -
  have i: "i < length (s_conf s)" "s_conf s ! i = source" using assms by (simp_all add: get_source_def split: if_splits)
  have app: "conf_jobs (xs @ ys) = conf_jobs xs @ conf_jobs ys" for xs ys by (simp add: conf_jobs_def)
  have "s_conf s = take i (s_conf s) @ source # drop (Suc i) (s_conf s)" using i id_take_nth_drop by blast
  then have "s_sources s = conf_jobs (take i (s_conf s)) @ source_jobs source @ conf_jobs (drop (Suc i) (s_conf s))"
    unfolding s_sources_def by (metis app conf_jobs_simps(2))
  moreover have "s_sources (put_source i source' s) =
      conf_jobs (take i (s_conf s)) @ source_jobs source' @ conf_jobs (drop (Suc i) (s_conf s))" for source'
    using i(1) by (simp add: put_source_def upd_conv_take_nth_drop app)
  ultimately show ?thesis using that by blast
qed

lemma put_source_inv:
  assumes inv: "sys_inv w X s" and get: "get_source i s = Some source"
    and fit: "distinct (map f_path (cs_files source'))" "distinct (source_jobs source')"
    and new: "\<And>c. c \<in> set (source_jobs source') \<Longrightarrow> c \<in> set (source_jobs source) \<or>
      c \<notin> set (s_sources s) \<and> (\<exists>cls. s_classes s c = Some cls \<and> \<not> c_deleted cls)"
  shows "sys_inv w X (put_source i source' s)"
proof -
  obtain A B where jobs: "s_sources s = A @ source_jobs source @ B"
    "\<And>source'. s_sources (put_source i source' s) = A @ source_jobs source' @ B"
    using put_source_jobs [OF get] by blast
  have "distinct (A @ source_jobs source @ B)" using sys_inv_conf(1) [OF inv] jobs(1) by (simp add: conf_fit_def s_sources_def)
  then have "distinct (A @ source_jobs source' @ B)" using fit(2) new jobs(1) by auto
  then have "distinct (conf_jobs ((s_conf s)[i := source']))" using jobs(2) [of source'] by (simp add: put_source_def)
  then have "conf_fit ((s_conf s)[i := source'])"
    using sys_inv_conf(1) [OF inv] fit(1) by (auto simp: conf_fit_def dest!: set_update_subset_insert [THEN subsetD])
  moreover have "\<exists>cls. s_classes s c = Some cls \<and> \<not> c_deleted cls" if "c \<in> set (conf_jobs ((s_conf s)[i := source']))" for c
  proof -
    have "c \<in> set (A @ source_jobs source' @ B)" using that jobs(2) [of source'] by (simp add: put_source_def)
    then show ?thesis using new [of c] jobs(1) sources_there [OF inv, of c] by auto
  qed
  ultimately show ?thesis unfolding put_source_def by (rule conf_changed [OF inv])
qed

text \<open>Files with and without a class among the others: what is selected.\<close>

lemma find_without:
  assumes "\<not> P x"
  shows "find P (xs @ x # ys) = find P (xs @ ys)"
  using assms by (simp add: find_append split: option.split)

lemma find_keeps_first: "find P (xs @ x # ys) = Some z \<Longrightarrow> z \<noteq> x \<Longrightarrow> find P (xs @ ys) = Some z"
  by (auto simp: find_append split: option.splits if_splits)

lemma find_None_less: "find P (xs @ x # ys) = None \<Longrightarrow> find P (xs @ ys) = None"
  by (auto simp: find_append split: option.splits if_splits)

lemma settled_fewer:
  assumes set: "settled_but C N s"
    and found: "\<And>n c. conf_select_job n s = Some c \<Longrightarrow> c \<in> C' \<or> conf_select_job n s' = Some c"
    and none: "\<And>n. conf_select_job n s = None \<Longrightarrow> conf_select_job n s' = None"
    and same: "s_registered s' = s_registered s" "class_name s' = class_name s" "class_instances s' = class_instances s"
  shows "settled_but (C' \<union> C) N s'"
  unfolding settled_but_def
proof (intro allI impI)
  fix n
  assume n: "n \<notin> N"
  have reg: "job_class_get_registered n s' = job_class_get_registered n s" using same by (simp add: job_class_get_registered_def)
  have "case job_class_get_registered n s of None \<Rightarrow> conf_select_job n s = None
      | Some reg \<Rightarrow> conf_select_job n s = Some reg \<or> class_instances s reg \<noteq> [] \<or> reg \<in> C"
    using set n by (simp add: settled_but_def)
  then show "case job_class_get_registered n s' of None \<Rightarrow> conf_select_job n s' = None
      | Some reg \<Rightarrow> conf_select_job n s' = Some reg \<or> class_instances s' reg \<noteq> [] \<or> reg \<in> C' \<union> C"
    using found [of n] none [of n] same(3) unfolding reg by (auto split: option.splits)
qed

lemma settled_file_removed:
  assumes set: "settled_but C N s" and "s_sources s = A @ c # B" and "s_sources s' = A @ B"
    and same: "s_registered s' = s_registered s" "class_name s' = class_name s" "class_instances s' = class_instances s"
  shows "settled_but (insert c C) N s'"
proof -
  have "settled_but ({c} \<union> C) N s'"
    by (rule settled_fewer [OF set])
      (use find_keeps_first [of _ A c B] find_None_less [of _ A c B] assms in \<open>auto simp: conf_select_job_def\<close>)
  then show ?thesis by simp
qed

lemma settled_file_added:
  assumes set: "settled_but C N s" and "s_sources s = A @ B" and "s_sources s' = A @ c # B"
    and name: "class_name s c = Some m"
    and same: "s_registered s' = s_registered s" "class_name s' = class_name s" "class_instances s' = class_instances s"
  shows "settled_but C (insert m N) s'"
proof (rule settled_but_cong [OF _ _ _ set])
  fix n
  assume "n \<notin> insert m N"
  then have "class_name s c \<noteq> Some n" using name by auto
  then show "conf_select_job n s' = conf_select_job n s"
    using find_without [of "\<lambda>cid. class_name s cid = Some n" c A B] assms(2,3) same(2) by (simp add: conf_select_job_def)
qed (use same in \<open>auto simp: job_class_get_registered_def\<close>)

lemma settled_weaken: "settled_but C N s \<Longrightarrow> C \<subseteq> C' \<Longrightarrow> N \<subseteq> N' \<Longrightarrow> settled_but C' N' s"
  unfolding settled_but_def
proof (intro allI impI)
  fix n
  assume a: "\<forall>n. n \<notin> N \<longrightarrow> (case job_class_get_registered n s of None \<Rightarrow> conf_select_job n s = None
      | Some reg \<Rightarrow> conf_select_job n s = Some reg \<or> class_instances s reg \<noteq> [] \<or> reg \<in> C)"
    and "C \<subseteq> C'" "N \<subseteq> N'" "n \<notin> N'"
  then have "n \<notin> N" by blast
  then show "case job_class_get_registered n s of None \<Rightarrow> conf_select_job n s = None
      | Some reg \<Rightarrow> conf_select_job n s = Some reg \<or> class_instances s reg \<noteq> [] \<or> reg \<in> C'"
    using a [rule_format, OF \<open>n \<notin> N\<close>] \<open>C \<subseteq> C'\<close> by (cases "job_class_get_registered n s") auto
qed

lemma settled_same:
  assumes "settled_but C N s" and "s_sources s' = s_sources s" and "s_registered s' = s_registered s"
    and "class_name s' = class_name s" and "class_instances s' = class_instances s"
  shows "settled_but C N s'"
  by (rule settled_but_cong [OF _ _ _ assms(1)]) (use assms in \<open>auto simp: conf_select_job_def job_class_get_registered_def\<close>)

text \<open>Classes that have lost their file to an error in an override file are exempt, unless there is no such
  error. They are in no source, and never will be.\<close>

definition strays :: "bool \<Rightarrow> nat set \<Rightarrow> sys \<Rightarrow> bool" where
  "strays strict C s \<longleftrightarrow> (\<forall>c\<in>C. \<not> strict \<and> c \<notin> set (s_sources s) \<and> c < s_next s)"

definition settled_in :: "bool \<Rightarrow> nat set \<Rightarrow> string set \<Rightarrow> sys \<Rightarrow> bool" where
  "settled_in strict D N s \<longleftrightarrow> (\<exists>C. strays strict C s \<and> settled_but (D \<union> C) N s)"

lemma strays_mono:
  assumes "strays strict C s" and "s_next s \<le> s_next s'" and "set (s_sources s') \<subseteq> insert (s_next s) (set (s_sources s))"
  shows "strays strict C s'"
  unfolding strays_def
proof
  fix c
  assume "c \<in> C"
  then have c: "\<not> strict" "c \<notin> set (s_sources s)" "c < s_next s" using assms(1) by (auto simp: strays_def)
  then have "c \<notin> insert (s_next s) (set (s_sources s))" by simp
  then show "\<not> strict \<and> c \<notin> set (s_sources s') \<and> c < s_next s'" using assms(2,3) c(1,3) by auto
qed

lemma settled_inI: "settled_but D N s \<Longrightarrow> settled_in strict D N s"
  by (auto simp: settled_in_def strays_def intro!: exI [of _ "{}"])

lemma settled_in_same:
  assumes "settled_in strict D N s" and "s_sources s' = s_sources s" and "s_registered s' = s_registered s"
    and "class_name s' = class_name s" and "class_instances s' = class_instances s" and "s_next s' = s_next s"
  shows "settled_in strict D N s'"
proof -
  obtain C where C: "strays strict C s" "settled_but (D \<union> C) N s" using assms(1) by (auto simp: settled_in_def)
  have "strays strict C s'" by (rule strays_mono [OF C(1)]) (use assms in auto)
  moreover have "settled_but (D \<union> C) N s'" by (rule settled_same [OF C(2) assms(2-5)])
  ultimately show ?thesis by (auto simp: settled_in_def)
qed

section \<open>Destroying files\<close>

text \<open>The classes of \<open>C\<close> belong to files that have been taken out of their source.\<close>

lemma conf_file_destroy_inv:
  assumes inv: "sys_inv w X s" and set: "settled_but (set (jobs_of [f]) \<union> C) N s"
    and out: "\<And>c. f_job f = Some c \<Longrightarrow> s_classes s c \<noteq> None \<and> c \<notin> set (s_sources s)"
  shows "\<exists>s'. conf_file_destroy CONF_JOB_DIR f s = Some s' \<and> sys_inv w X s' \<and> settled_but C N s' \<and> s_conf s' = s_conf s \<and>
    s_next s' = s_next s \<and> (\<forall>c. f_job f \<noteq> Some c \<longrightarrow> s_classes s' c = s_classes s c)"
proof (cases "f_job f")
  case None
  then show ?thesis using inv set by (simp add: conf_file_destroy_def)
next
  case (Some cid)
  then obtain cls where cls: "s_classes s cid = Some cls" and src: "cid \<notin> set (s_sources s)" using out by blast
  let ?cls = "cls\<lparr>c_deleted := True\<rparr>"
  let ?s1 = "set_class cid ?cls s"
  have "sys_inv w X (set_class cid ?cls (set_events (s_events s) s))"
    by (rule class_change [OF inv cls]) (use sys_inv_class(1) [OF inv cls] src in
      \<open>simp_all add: class_fit_def class_ok_def has_process_def class_refs_def\<close>)
  then have inv1: "sys_inv w X ?s1" by (simp add: set_events_def)
  have name1: "class_name ?s1 = class_name s" using cls by (auto simp: class_name_def fun_eq_iff)
  have "settled_but (insert cid C) N ?s1"
    by (rule settled_same [of _ _ s]) (use set Some name1 in \<open>simp_all add: class_instances_def fun_eq_iff\<close>)
  from job_class_reconsider_inv [OF inv1 _ this]
  obtain r p reg where run: "job_class_reconsider cid ?s1 = Some (r, send p (?s1\<lparr>s_registered := reg\<rparr>))"
    and inv2: "sys_inv w X (?s1\<lparr>s_registered := reg\<rparr>)" and set2: "settled_but C N (?s1\<lparr>s_registered := reg\<rparr>)"
    and r: "r \<longleftrightarrow> cid \<notin> set reg" by auto
  let ?s2 = "send p (?s1\<lparr>s_registered := reg\<rparr>)"
  have set2: "settled_but C N ?s2"
    by (rule settled_same [OF set2]) simp_all
  have inv2: "sys_inv w X ?s2" using inv2 by simp
  show ?thesis
  proof (cases r)
    case False
    then show ?thesis using Some cls run inv2 set2 by (simp add: conf_file_destroy_def)
  next
    case True
    then have out2: "cid \<notin> set (s_registered ?s2)" "cid \<notin> set (s_sources ?s2)" using r src by simp_all
    obtain evs where free: "class_free cid ?s2 = Some (?s2\<lparr>s_events := evs, s_classes := (s_classes ?s2)(cid := None)\<rparr>)"
      "sys_inv w X (?s2\<lparr>s_events := evs, s_classes := (s_classes ?s2)(cid := None)\<rparr>)"
      using class_free_inv [OF inv2 _ out2] by auto
    let ?s3 = "?s2\<lparr>s_events := evs, s_classes := (s_classes ?s2)(cid := None)\<rparr>"
    have drop: "find (\<lambda>c. class_name ?s3 c = Some n) xs = find (\<lambda>c. class_name ?s2 c = Some n) xs" if "cid \<notin> set xs" for n xs
      using that by (induction xs) (auto simp: class_name_def)
    have "settled_but C N ?s3"
      by (rule settled_but_cong [OF _ _ _ set2])
        (use drop [OF out2(1)] drop [OF out2(2)] in
          \<open>simp_all add: job_class_get_registered_def conf_select_job_def class_instances_def fun_eq_iff\<close>)
    then show ?thesis using Some cls run free True by (simp add: conf_file_destroy_def)
  qed
qed

section \<open>Files come and go\<close>

lemma get_source_inv:
  assumes "sys_inv w X s" and "get_source i s = Some source"
  shows "distinct (map f_path (cs_files source))" and "distinct (source_jobs source)"
    and "set (source_jobs source) \<subseteq> set (s_sources s)"
proof -
  have "source \<in> set (s_conf s)" using assms(2) by (auto simp: get_source_def split: if_splits)
  then show "distinct (map f_path (cs_files source))" using sys_inv_conf(1) [OF assms(1)] by (simp add: conf_fit_def)
  obtain A B where "s_sources s = A @ source_jobs source @ B" using put_source_jobs [OF assms(2)] by blast
  then show "distinct (source_jobs source)" "set (source_jobs source) \<subseteq> set (s_sources s)"
    using sys_inv_conf(1) [OF assms(1)] by (auto simp: conf_fit_def s_sources_def)
qed

text \<open>A file is taken out of its source.\<close>

lemma file_removed_inv:
  assumes inv: "sys_inv w X s" and set: "settled_but C N s" and get: "get_source i s = Some source"
    and f: "lookup_file path source = Some f"
  defines "s' \<equiv> put_source i (remove_file path source) s"
  shows "sys_inv w X s'" and "path \<notin> f_path ` set (cs_files (remove_file path source))"
    and "cs_type source = CONF_JOB_DIR \<Longrightarrow> settled_but (set (jobs_of [f]) \<union> C) N s'"
    and "cs_type source \<noteq> CONF_JOB_DIR \<Longrightarrow> settled_but C N s'"
    and "cs_type source = CONF_JOB_DIR \<Longrightarrow> f_job f = Some c \<Longrightarrow> s_classes s' c \<noteq> None \<and> c \<notin> set (s_sources s')"
proof -
  obtain fs1 fs2 where split: "cs_files source = fs1 @ f # fs2" "f_path f = path" "path \<notin> f_path ` set fs1"
    using lookup_file_split [OF f] .
  note rem = remove_file_split [OF f split(1,3)]
  note src = get_source_inv [OF inv get]
  obtain A B where jobs: "s_sources s = A @ source_jobs source @ B" "s_sources s' = A @ source_jobs (remove_file path source) @ B"
    using put_source_jobs [OF get] unfolding s'_def by metis
  have dist: "distinct (s_sources s)" using sys_inv_conf(1) [OF inv] by (simp add: conf_fit_def s_sources_def)
  show "path \<notin> f_path ` set (cs_files (remove_file path source))"
    using src(1) split by (auto simp: rem)
  show "sys_inv w X s'"
    unfolding s'_def
    by (rule put_source_inv [OF inv get]) (use src(1,2) split(1) in \<open>auto simp: rem source_jobs_eq split: if_splits\<close>)
  show "settled_but C N s'" if "cs_type source \<noteq> CONF_JOB_DIR"
    by (rule settled_same [OF set])
      (use that jobs in \<open>simp_all add: s'_def rem source_jobs_eq\<close>)
  show "settled_but (set (jobs_of [f]) \<union> C) N s'" if "cs_type source = CONF_JOB_DIR"
  proof (cases "f_job f")
    case None
    then show ?thesis
      using set that jobs split(1)
      by (auto intro!: settled_same [of C N s] simp: rem source_jobs_eq) (simp_all add: s'_def)
  next
    case (Some c)
    have "settled_but (insert c C) N s'"
    proof (rule settled_file_removed [OF set])
      show "s_sources s = (A @ jobs_of fs1) @ c # (jobs_of fs2 @ B)" "s_sources s' = (A @ jobs_of fs1) @ (jobs_of fs2 @ B)"
        using jobs that split(1) Some by (simp_all add: rem source_jobs_eq)
    qed (simp_all add: s'_def)
    then show ?thesis using Some by simp
  qed
  show "s_classes s' c \<noteq> None \<and> c \<notin> set (s_sources s')" if "cs_type source = CONF_JOB_DIR" "f_job f = Some c"
  proof -
    have "c \<in> set (s_sources s)" using jobs(1) split(1) that by (simp add: source_jobs_eq)
    moreover have "c \<notin> set (s_sources s')" using dist jobs split(1) that by (auto simp: rem source_jobs_eq)
    ultimately show ?thesis using sources_there [OF inv] unfolding s'_def by auto
  qed
qed

text \<open>A file without a class is added.\<close>

lemma file_added_inv:
  assumes inv: "sys_inv w X s" and set: "settled_but C N s" and get: "get_source i s = Some source"
    and path: "path \<notin> f_path ` set (cs_files source)"
  defines "s' \<equiv> put_source i (conf_file_new source path) s"
  shows "sys_inv w X s'" and "settled_but C N s'" and "s_sources s' = s_sources s"
    and "lookup_file path (conf_file_new source path) = Some \<lparr>f_path = path, f_flag = cs_flag source, f_job = None\<rparr>"
proof -
  have same: "source_jobs (conf_file_new source path) = source_jobs source"
    by (simp add: source_jobs_eq conf_file_new_def)
  show srcs: "s_sources s' = s_sources s" using put_source_jobs [OF get] same unfolding s'_def by metis
  show "sys_inv w X s'"
    unfolding s'_def
    by (rule put_source_inv [OF inv get]) (use get_source_inv(1,2) [OF inv get] path same in \<open>simp_all add: conf_file_new_def\<close>)
  show "settled_but C N s'"
    by (rule settled_same [OF set srcs]) (simp_all add: s'_def)
  have "find (\<lambda>f. f_path f = path) (cs_files source) = None" using path by (auto simp: find_None_iff)
  then show "lookup_file path (conf_file_new source path) = Some \<lparr>f_path = path, f_flag = cs_flag source, f_job = None\<rparr>"
    by (simp add: lookup_file_def conf_file_new_def find_append)
qed

section \<open>Loading a job\<close>

lemma set_file_job_same:
  assumes "lookup_file path source = Some f"
  shows "set_file_job path (f_job f) source = source"
proof -
  obtain fs1 fs2 where "cs_files source = fs1 @ f # fs2" "f_path f = path" "path \<notin> f_path ` set fs1"
    using lookup_file_split [OF assms] .
  then show ?thesis using set_job_of_split [of path fs1 f "f_job f" fs2] by (simp add: set_file_job_def)
qed

lemma conf_same: "get_source i s = Some source \<Longrightarrow> (s_conf s)[i := source] = s_conf s"
  by (auto simp: get_source_def split: if_splits)

lemma put_source_same: "get_source i s = Some source \<Longrightarrow> put_source i source s = s"
  using conf_same by (simp add: put_source_def)

lemma get_source_cong: "s_conf s' = s_conf s \<Longrightarrow> get_source i s' = get_source i s"
  by (simp add: get_source_def)

text \<open>What loading does to the rest: classes stay, at most one is new.\<close>

definition loaded :: "nat \<Rightarrow> string \<Rightarrow> ConfSource \<Rightarrow> sys \<Rightarrow> sys \<Rightarrow> bool" where
  "loaded i path source s s' \<longleftrightarrow> (\<exists>job. s_conf s' = (s_conf s)[i := set_file_job path job source]) \<and>
     dom (s_classes s) \<subseteq> dom (s_classes s') \<and> s_next s \<le> s_next s' \<and> set (s_sources s') \<subseteq> insert (s_next s) (set (s_sources s))"

lemma class_name_dom: "class_name s' = class_name s \<Longrightarrow> dom (s_classes s') = dom (s_classes s)"
proof -
  assume eq: "class_name s' = class_name s"
  have "s_classes s' c = None \<longleftrightarrow> s_classes s c = None" for c
    using fun_cong [OF eq, of c] by (simp add: class_name_def) (metis option.map_disc_iff)
  then show ?thesis by (auto simp: dom_def)
qed

lemma load_new_job_inv:
  assumes inv: "sys_inv w X s" and set: "settled_but C N s" and get: "get_source i s = Some source"
    and dir: "cs_type source = CONF_JOB_DIR" and f: "lookup_file path source = Some f" "f_job f = None"
    and lib: "parser_ok lib" "files_fit strict lib" "cl_read lib n p = Some buf" and name: "conf_to_job_name (cs_path source) path \<noteq> []"
  shows "\<exists>err s'. load_job lib w i path buf s = Some (err, s') \<and> sys_inv w X s' \<and> settled_but C N s' \<and> loaded i path source s s'"
proof -
  obtain err s1 where parse: "parse_into lib w None (conf_to_job_name (cs_path source) path) buf s = Some (err, s_next s, s1)"
    and inv1: "sys_inv w X s1" and bad: "err \<noteq> None \<Longrightarrow> s1 = s"
    and good: "err = None \<Longrightarrow> \<exists>cls. s1 = set_class (s_next s) cls (s\<lparr>s_next := s_next s + 1\<rparr>) \<and> \<not> c_deleted cls"
    using parse_into_new_inv [OF inv lib name] by blast
  have same: "set_file_job path None source = source" using set_file_job_same [OF f(1)] f(2) by simp
  show ?thesis
  proof (cases err)
    case (Some e)
    then have "load_job lib w i path buf s = Some (err, s)"
      using get f parse bad same put_source_same [OF get] by (simp add: load_job_def)
    moreover have "loaded i path source s s"
      using same conf_same [OF get] by (auto simp: loaded_def intro!: exI [of _ None])
    ultimately show ?thesis using inv set by blast
  next
    case None
    then obtain cls where s1: "s1 = set_class (s_next s) cls (s\<lparr>s_next := s_next s + 1\<rparr>)" and del: "\<not> c_deleted cls"
      using good by blast
    let ?cid = "s_next s" and ?src = "set_file_job path (Some (s_next s)) source"
    have get1: "get_source i s1 = Some source" using get get_source_cong [of s1 s] by (simp add: s1)
    have srcs1: "s_sources s1 = s_sources s" by (simp add: s1)
    have none: "s_classes s ?cid = None" using sys_inv_conf(2) [OF inv, of ?cid] by blast
    then have fresh: "?cid \<notin> set (s_sources s)" "?cid \<notin> set (s_registered s)"
      using sys_inv_table [OF inv] by (auto simp: table_ok_def)
    have find: "find (\<lambda>c. class_name s1 c = Some n) xs = find (\<lambda>c. class_name s c = Some n) xs" if "?cid \<notin> set xs" for n xs
      using that by (induction xs) (auto simp: class_name_def s1)
    have set1: "settled_but C N s1"
      by (rule settled_but_cong [OF _ _ _ set]) (use find [OF fresh(1)] find [OF fresh(2)] srcs1 in
        \<open>simp_all add: job_class_get_registered_def conf_select_job_def class_instances_def fun_eq_iff\<close>, simp_all add: s1)
    obtain fs1 fs2 where split: "cs_files source = fs1 @ f # fs2" "f_path f = path" "path \<notin> f_path ` set fs1"
      using lookup_file_split [OF f(1)] .
    have files: "cs_files ?src = fs1 @ f\<lparr>f_job := Some ?cid\<rparr> # fs2" "cs_type ?src = CONF_JOB_DIR"
      using set_job_of_split [OF split(3,2)] split(1) dir by (simp_all add: set_file_job_def)
    obtain A B where jobs: "s_sources s1 = A @ source_jobs source @ B" "s_sources (put_source i ?src s1) = A @ source_jobs ?src @ B"
      using put_source_jobs [OF get1] by metis
    let ?s2 = "put_source i ?src s1"
    have srcs2: "s_sources s1 = (A @ jobs_of fs1) @ (jobs_of fs2 @ B)" "s_sources ?s2 = (A @ jobs_of fs1) @ ?cid # (jobs_of fs2 @ B)"
      using jobs split(1) f(2) files dir by (simp_all add: source_jobs_eq)
    have inv2: "sys_inv w X ?s2"
    proof (rule put_source_inv [OF inv1 get1])
      show "distinct (map f_path (cs_files ?src))" using get_source_inv(1) [OF inv get] files split(1) by simp
      show "distinct (source_jobs ?src)"
        using get_source_inv(2,3) [OF inv get] fresh(1) files split(1) dir f(2) by (auto simp: source_jobs_eq)
      show "c \<in> set (source_jobs source) \<or> c \<notin> set (s_sources s1) \<and> (\<exists>cls. s_classes s1 c = Some cls \<and> \<not> c_deleted cls)"
        if "c \<in> set (source_jobs ?src)" for c
        using that files split(1) dir f(2) fresh(1) del srcs1 by (auto simp: source_jobs_eq s1)
    qed
    have "class_name s1 ?cid = Some (c_name cls)" by (simp add: s1 class_name_def)
    from settled_file_added [OF set1 srcs2 this] have set2: "settled_but C (insert (c_name cls) N) ?s2" by simp
    have cls2: "s_classes ?s2 ?cid = Some cls" by (simp add: s1)
    have src2: "?cid \<in> set (s_sources ?s2)" using srcs2(2) by simp
    obtain r s3 where con: "job_class_consider ?cid ?s2 = Some (r, s3)" "sys_inv w X s3" "sources_kept ?s2 s3" "settled_but C N s3"
      using job_class_consider_inv [OF inv2 cls2 src2 set2] by blast
    have "load_job lib w i path buf s = Some (None, s3)"
      using get f parse None con(1) by (simp add: load_job_def)
    moreover have "loaded i path source s s3"
    proof -
      have conf: "s_conf s3 = (s_conf s)[i := ?src]" using con(3) by (simp add: sources_kept_def s1 put_source_def)
      moreover have "s_sources s3 = s_sources ?s2" by (rule s_sources_cong) (use con(3) in \<open>simp add: sources_kept_def\<close>)
      moreover have "dom (s_classes s3) = insert ?cid (dom (s_classes s))"
        using class_name_dom [of s3 ?s2] con(3) by (simp add: sources_kept_def s1)
      moreover have "set (s_sources ?s2) \<subseteq> insert ?cid (set (s_sources s))"
        unfolding srcs2(2) srcs1 [symmetric] srcs2(1) by auto
      moreover have "s_next s3 = s_next s + 1" using con(3) by (simp add: sources_kept_def s1)
      ultimately show ?thesis unfolding loaded_def by (intro conjI exI [of _ "Some ?cid"]) auto
    qed
    ultimately show ?thesis using con(2,4) by blast
  qed
qed

text \<open>An override changes the class of the file.\<close>

lemma load_override_inv:
  assumes inv: "sys_inv w X s" and set: "settled_but C N s" and get: "get_source i s = Some source"
    and dir: "cs_type source = CONF_JOB_DIR" and f: "lookup_file path source = Some f" "f_job f = Some cid"
    and lib: "parser_ok lib" "files_fit strict lib" "cl_read lib n p = Some buf" and over: "is_conf_file_override p"
  shows "\<exists>err s' C'. load_job lib w i path buf s = Some (err, s') \<and> sys_inv w X s' \<and> settled_but (C \<union> C') N s' \<and>
    strays strict C' s' \<and> loaded i path source s s'"
proof -
  obtain fs1 fs2 where split: "cs_files source = fs1 @ f # fs2" "f_path f = path" "path \<notin> f_path ` set fs1"
    using lookup_file_split [OF f(1)] .
  have "cid \<in> set (source_jobs source)" using split(1) f(2) dir by (simp add: source_jobs_eq)
  then have src: "cid \<in> set (s_sources s)" using get_source_inv(3) [OF inv get] by blast
  then obtain cls where cls: "s_classes s cid = Some cls" using sources_there [OF inv] by blast
  obtain err cls' evs where parse: "parse_into lib w (Some cid) (conf_to_job_name (cs_path source) path) buf s =
      Some (err, cid, set_class cid cls' (set_events evs s))"
    and inv1: "sys_inv w X (set_class cid cls' (set_events evs s))" and name: "c_name cls' = c_name cls"
    and soft: "err \<noteq> None \<longrightarrow> \<not> strict"
    using parse_into_update_inv [OF inv lib over cls] by blast
  let ?s1 = "set_class cid cls' (set_events evs s)"
  have names: "class_name ?s1 = class_name s" using name cls by (auto simp: class_name_def fun_eq_iff)
  have set0: "settled_but C N ?s1"
    by (rule settled_same [OF set _ _ names]) simp_all
  have get1: "get_source i ?s1 = Some source" using get get_source_cong [of ?s1 s] by simp
  show ?thesis
  proof (cases err)
    case None
    have same: "set_file_job path (Some cid) source = source" using set_file_job_same [OF f(1)] f(2) by simp
    have put: "put_source i source ?s1 = ?s1" by (rule put_source_same [OF get1])
    have set1: "settled_but C (insert (c_name cls') N) ?s1" by (rule settled_weaken [OF set0]) auto
    have cls1: "s_classes ?s1 cid = Some cls'" "cid \<in> set (s_sources ?s1)" using src by simp_all
    obtain r s2 where con: "job_class_consider cid ?s1 = Some (r, s2)" "sys_inv w X s2" "sources_kept ?s1 s2" "settled_but C N s2"
      using job_class_consider_inv [OF inv1 cls1 set1] by blast
    have "load_job lib w i path buf s = Some (None, s2)"
      using get f parse None con(1) same put by (simp add: load_job_def)
    moreover have "loaded i path source s s2"
    proof -
      have conf: "s_conf s2 = s_conf s" using con(3) by (simp add: sources_kept_def)
      then have "s_sources s2 = s_sources s" by (rule s_sources_cong)
      moreover have "dom (s_classes s2) = dom (s_classes s)"
        using class_name_dom [of s2 s] con(3) names by (simp add: sources_kept_def)
      moreover have "s_conf s2 = (s_conf s)[i := set_file_job path (Some cid) source]" using conf conf_same [OF get] same by simp
      moreover have "s_next s2 = s_next s" using con(3) by (simp add: sources_kept_def)
      ultimately show ?thesis unfolding loaded_def by (intro conjI exI [of _ "Some cid"]) auto
    qed
    moreover have "strays strict {} s2" "settled_but (C \<union> {}) N s2" using con(4) by (simp_all add: strays_def)
    ultimately show ?thesis using con(2) by blast
  next
    case (Some e)
    let ?src = "set_file_job path None source"
    let ?s2 = "put_source i ?src ?s1"
    have files: "cs_files ?src = fs1 @ f\<lparr>f_job := None\<rparr> # fs2" "cs_type ?src = CONF_JOB_DIR"
      using set_job_of_split [OF split(3,2)] split(1) dir by (simp_all add: set_file_job_def)
    obtain A B where jobs: "s_sources ?s1 = A @ source_jobs source @ B" "s_sources ?s2 = A @ source_jobs ?src @ B"
      using put_source_jobs [OF get1] by metis
    have srcs: "s_sources ?s1 = (A @ jobs_of fs1) @ cid # (jobs_of fs2 @ B)" "s_sources ?s2 = (A @ jobs_of fs1) @ (jobs_of fs2 @ B)"
      using jobs split(1) f(2) files dir by (simp_all add: source_jobs_eq)
    have dist: "distinct (s_sources ?s1)" using sys_inv_conf(1) [OF inv1] by (simp add: conf_fit_def s_sources_def)
    have "sys_inv w X ?s2"
      by (rule put_source_inv [OF inv1 get1])
        (use get_source_inv(1,2) [OF inv get] files split(1) dir f(2) in \<open>auto simp: source_jobs_eq\<close>)
    moreover have "settled_but (insert cid C) N ?s2"
      by (rule settled_file_removed [OF set0 srcs]) simp_all
    then have "settled_but (C \<union> {cid}) N ?s2" by simp
    moreover have "strays strict {cid} ?s2"
      using soft Some dist sys_inv_conf(2) [OF inv, of cid] cls unfolding strays_def srcs by auto
    moreover have "load_job lib w i path buf s = Some (Some e, ?s2)"
      using get f parse Some by (simp add: load_job_def)
    moreover have "loaded i path source s ?s2"
    proof -
      have "s_conf ?s2 = (s_conf s)[i := ?src]" by (simp add: put_source_def)
      moreover have "set (s_sources ?s2) \<subseteq> set (s_sources ?s1)" unfolding srcs by auto
      ultimately show ?thesis unfolding loaded_def using cls by (intro conjI exI [of _ None]) auto
    qed
    ultimately show ?thesis by blast
  qed
qed

lemma job_file_loaded:
  assumes "sys_inv w X s" and "settled_in strict D N s" and "get_source i s = Some source"
    and "cs_type source = CONF_JOB_DIR" and "lookup_file path source = Some f"
    and "parser_ok lib" and "files_fit strict lib" and "cl_read lib n p = Some buf"
    and "conf_to_job_name (cs_path source) path \<noteq> []" and "f_job f = None \<or> is_conf_file_override p"
  shows "\<exists>err s'. load_job lib w i path buf s = Some (err, s') \<and> sys_inv w X s' \<and> settled_in strict D N s' \<and> loaded i path source s s'"
proof -
  obtain C where C: "strays strict C s" "settled_but (D \<union> C) N s" using assms(2) by (auto simp: settled_in_def)
  have "\<exists>err s' C'. load_job lib w i path buf s = Some (err, s') \<and> sys_inv w X s' \<and> settled_but (D \<union> C \<union> C') N s' \<and>
    strays strict C' s' \<and> loaded i path source s s'"
  proof (cases "f_job f")
    case None
    have "strays strict {} s'" for s' by (simp add: strays_def)
    then show ?thesis using load_new_job_inv [OF assms(1) C(2) assms(3-5) None assms(6-9)] by (metis Un_empty_right)
  next
    case (Some cid)
    with assms(10) have "is_conf_file_override p" by simp
    then show ?thesis using load_override_inv [OF assms(1) C(2) assms(3-5) Some assms(6-8)] by blast
  qed
  then obtain err s' C' where run: "load_job lib w i path buf s = Some (err, s')" "sys_inv w X s'"
    and set: "settled_but (D \<union> C \<union> C') N s'" and C': "strays strict C' s'" and loaded: "loaded i path source s s'" by blast
  have "strays strict C s'" by (rule strays_mono [OF C(1)]) (use loaded in \<open>simp_all add: loaded_def\<close>)
  with C' have "strays strict (C \<union> C') s'" by (auto simp: strays_def)
  with set have "settled_in strict D N s'" unfolding settled_in_def by (metis Un_assoc)
  with run loaded show ?thesis by blast
qed

section \<open>Reloading a path\<close>

text \<open>The lemmas above, with the exempt classes.\<close>

lemma destroy_settled:
  assumes inv: "sys_inv w X s" and set: "settled_in strict (set (jobs_of [f]) \<union> D) N s"
    and out: "\<And>c. f_job f = Some c \<Longrightarrow> s_classes s c \<noteq> None \<and> c \<notin> set (s_sources s)"
  shows "\<exists>s'. conf_file_destroy CONF_JOB_DIR f s = Some s' \<and> sys_inv w X s' \<and> settled_in strict D N s' \<and> s_conf s' = s_conf s \<and>
    (\<forall>c. f_job f \<noteq> Some c \<longrightarrow> s_classes s' c = s_classes s c)"
proof -
  obtain C where C: "strays strict C s" "settled_but (set (jobs_of [f]) \<union> (D \<union> C)) N s"
    using set unfolding settled_in_def by (metis Un_assoc)
  obtain s' where s': "conf_file_destroy CONF_JOB_DIR f s = Some s'" "sys_inv w X s'" "settled_but (D \<union> C) N s'"
    "s_conf s' = s_conf s" "s_next s' = s_next s" "\<forall>c. f_job f \<noteq> Some c \<longrightarrow> s_classes s' c = s_classes s c"
    using conf_file_destroy_inv [OF inv C(2) out] by blast
  have "strays strict C s'" by (rule strays_mono [OF C(1)]) (use s'(4,5) in \<open>auto simp: s_sources_def\<close>)
  then show ?thesis using s' by (auto simp: settled_in_def)
qed

lemma file_removed_settled:
  assumes inv: "sys_inv w X s" and set: "settled_in strict {} N s" and get: "get_source i s = Some source"
    and f: "lookup_file path source = Some f"
  defines "s' \<equiv> put_source i (remove_file path source) s"
  shows "sys_inv w X s'" and "path \<notin> f_path ` set (cs_files (remove_file path source))"
    and "cs_type source = CONF_JOB_DIR \<Longrightarrow> settled_in strict (set (jobs_of [f])) N s'"
    and "cs_type source \<noteq> CONF_JOB_DIR \<Longrightarrow> settled_in strict {} N s'"
    and "cs_type source = CONF_JOB_DIR \<Longrightarrow> f_job f = Some c \<Longrightarrow> s_classes s' c \<noteq> None \<and> c \<notin> set (s_sources s')"
proof -
  obtain C where C: "strays strict C s" "settled_but C N s" using set by (auto simp: settled_in_def)
  note r = file_removed_inv [OF inv C(2) get f, folded s'_def]
  obtain fs1 fs2 where "cs_files source = fs1 @ f # fs2" "path \<notin> f_path ` set fs1" using lookup_file_split [OF f] .
  then have "set (source_jobs (remove_file path source)) \<subseteq> set (source_jobs source)"
    using remove_file_split [OF f] by (auto simp: source_jobs_eq)
  moreover obtain A B where "s_sources s = A @ source_jobs source @ B" "s_sources s' = A @ source_jobs (remove_file path source) @ B"
    using put_source_jobs [OF get] unfolding s'_def by metis
  ultimately have "set (s_sources s') \<subseteq> set (s_sources s)" by auto
  then have "strays strict C s'" by (intro strays_mono [OF C(1)]) (auto simp: s'_def)
  then show "cs_type source = CONF_JOB_DIR \<Longrightarrow> settled_in strict (set (jobs_of [f])) N s'"
    "cs_type source \<noteq> CONF_JOB_DIR \<Longrightarrow> settled_in strict {} N s'"
    using r(3,4) by (auto simp: settled_in_def)
  show "sys_inv w X s'" "path \<notin> f_path ` set (cs_files (remove_file path source))"
    "cs_type source = CONF_JOB_DIR \<Longrightarrow> f_job f = Some c \<Longrightarrow> s_classes s' c \<noteq> None \<and> c \<notin> set (s_sources s')"
    using r(1,2,5) by blast+
qed

lemma file_added_settled:
  assumes "sys_inv w X s" and "settled_in strict D N s" and "get_source i s = Some source"
    and "path \<notin> f_path ` set (cs_files source)"
  shows "settled_in strict D N (put_source i (conf_file_new source path) s)"
proof -
  obtain C where C: "strays strict C s" "settled_but (D \<union> C) N s" using assms(2) by (auto simp: settled_in_def)
  note add = file_added_inv [OF assms(1) C(2) assms(3,4)]
  have "strays strict C (put_source i (conf_file_new source path) s)"
    by (rule strays_mono [OF C(1)]) (use add(3) in auto)
  then show ?thesis using add(2) by (auto simp: settled_in_def)
qed

text \<open>The invariant of all functions of \<^verbatim>\<open>conf.c\<close>, and that a function keeps it and the sources.\<close>

definition conf_ok :: "os \<Rightarrow> bool \<Rightarrow> string set \<Rightarrow> sys \<Rightarrow> bool" where
  "conf_ok w strict N s \<longleftrightarrow> sys_inv w {} s \<and> settled_in strict {} N s"

definition keeps_conf :: "os \<Rightarrow> bool \<Rightarrow> string set \<Rightarrow> sys \<Rightarrow> sys option \<Rightarrow> bool" where
  "keeps_conf w strict N s r \<longleftrightarrow> (\<exists>s'. r = Some s' \<and> conf_ok w strict N s' \<and> shape s' = shape s)"

lemma keeps_confI: "r = Some s' \<Longrightarrow> conf_ok w strict N s' \<Longrightarrow> shape s' = shape s \<Longrightarrow> keeps_conf w strict N s r"
  by (simp add: keeps_conf_def)

lemma keeps_conf_same: "conf_ok w strict N s \<Longrightarrow> keeps_conf w strict N s (Some s)"
  by (simp add: keeps_conf_def)

lemma keeps_conf_trans:
  assumes "keeps_conf w strict N s r" and "\<And>s'. r = Some s' \<Longrightarrow> conf_ok w strict N s' \<Longrightarrow> shape s' = shape s \<Longrightarrow> keeps_conf w strict N s' (f s')"
  shows "keeps_conf w strict N s (Option.bind r f)"
  using assms unfolding keeps_conf_def by fastforce

lemma settled_in_same_iff:
  "s_sources s' = s_sources s \<Longrightarrow> s_registered s' = s_registered s \<Longrightarrow> class_name s' = class_name s \<Longrightarrow>
     class_instances s' = class_instances s \<Longrightarrow> s_next s' = s_next s \<Longrightarrow> settled_in strict C N s' = settled_in strict C N s"
  using settled_in_same [of strict C N s s'] settled_in_same [of strict C N s' s] by auto

lemma settled_call: "call f s = (x, s') \<Longrightarrow> settled_in strict C N s' = settled_in strict C N s"
  using settled_in_same_iff [of s' s] by (auto simp: call_def class_name_def class_instances_def fun_eq_iff)

lemma conf_ok_call: "call f s = (x, s') \<Longrightarrow> conf_ok w strict N s' = conf_ok w strict N s \<and> shape s' = shape s"
proof -
  assume c: "call f s = (x, s')"
  then have "shape s' = shape s" by (auto simp: call_def shape_def)
  then show ?thesis using sys_inv_call [OF c] settled_call [OF c] by (simp add: conf_ok_def)
qed

lemma shape_get:
  assumes "shape s' = shape s" and "get_source i s = Some source"
  shows "\<exists>source'. get_source i s' = Some source' \<and> cs_path source' = cs_path source \<and>
    cs_type source' = cs_type source"
proof -
  have len: "length (s_conf s') = length (s_conf s)" using arg_cong [OF assms(1), of length] by (simp add: shape_def)
  have i: "i < length (s_conf s)" "s_conf s ! i = source" using assms(2) by (simp_all add: get_source_def split: if_splits)
  have "shape s' ! i = shape s ! i" using assms(1) by simp
  then show ?thesis using i len by (simp add: shape_def get_source_def)
qed

lemma destroy_replaced_inv:
  assumes inv: "sys_inv w X s"
    and dir: "type = CONF_JOB_DIR \<Longrightarrow> settled_in strict (case orig of None \<Rightarrow> {} | Some f \<Rightarrow> set (jobs_of [f])) N s"
    and out: "\<And>f c. type = CONF_JOB_DIR \<Longrightarrow> orig = Some f \<Longrightarrow> f_job f = Some c \<Longrightarrow> s_classes s c \<noteq> None \<and> c \<notin> set (s_sources s)"
    and other: "type \<noteq> CONF_JOB_DIR \<Longrightarrow> settled_in strict {} N s"
  shows "\<exists>s'. destroy_replaced type orig s = Some s' \<and> sys_inv w X s' \<and> settled_in strict {} N s' \<and> s_conf s' = s_conf s"
proof (cases "type = CONF_JOB_DIR \<and> orig \<noteq> None")
  case True
  then obtain f where f: "type = CONF_JOB_DIR" "orig = Some f" by blast
  obtain s' where "conf_file_destroy CONF_JOB_DIR f s = Some s'" "sys_inv w X s'" "settled_in strict {} N s'" "s_conf s' = s_conf s"
    using destroy_settled [OF inv, of strict f "{}" N] dir [OF f(1)] out [OF f] f(2) by auto
  then show ?thesis using f by (simp add: destroy_replaced_def)
next
  case False
  then have "destroy_replaced type orig s = Some s" by (auto simp: destroy_replaced_def conf_file_destroy_def split: option.split)
  moreover have "settled_in strict {} N s" using False dir other by (cases "type = CONF_JOB_DIR") auto
  ultimately show ?thesis using inv by blast
qed

text \<open>The file that is replaced is taken out first.\<close>

lemma take_out_inv:
  assumes ok: "conf_ok w strict N s" and get: "get_source i s = Some source" and orig: "orig = None \<or> orig = lookup_file path source"
  defines "source1 \<equiv> if orig = None then source else remove_file path source"
  defines "C \<equiv> case orig of None \<Rightarrow> {} | Some f \<Rightarrow> set (jobs_of [f])"
  shows "sys_inv w {} (put_source i source1 s) \<and>
      (cs_type source = CONF_JOB_DIR \<longrightarrow> settled_in strict C N (put_source i source1 s)) \<and>
      (cs_type source \<noteq> CONF_JOB_DIR \<longrightarrow> settled_in strict {} N (put_source i source1 s)) \<and>
      (\<forall>f c. cs_type source = CONF_JOB_DIR \<longrightarrow> orig = Some f \<longrightarrow> f_job f = Some c \<longrightarrow>
        s_classes (put_source i source1 s) c \<noteq> None \<and> c \<notin> set (s_sources (put_source i source1 s)))"
    and "cs_path source1 = cs_path source" and "cs_type source1 = cs_type source"
proof -
  have inv: "sys_inv w {} s" and set: "settled_in strict {} N s" using ok by (simp_all add: conf_ok_def)
  show "cs_path source1 = cs_path source" "cs_type source1 = cs_type source"
    by (simp_all add: source1_def remove_file_def split: option.split)
  show "sys_inv w {} (put_source i source1 s) \<and>
      (cs_type source = CONF_JOB_DIR \<longrightarrow> settled_in strict C N (put_source i source1 s)) \<and>
      (cs_type source \<noteq> CONF_JOB_DIR \<longrightarrow> settled_in strict {} N (put_source i source1 s)) \<and>
      (\<forall>f c. cs_type source = CONF_JOB_DIR \<longrightarrow> orig = Some f \<longrightarrow> f_job f = Some c \<longrightarrow>
        s_classes (put_source i source1 s) c \<noteq> None \<and> c \<notin> set (s_sources (put_source i source1 s)))"
  proof (cases orig)
    case None
    then have "put_source i source1 s = s" using put_source_same [OF get] by (simp add: source1_def)
    then show ?thesis using inv set None by (simp add: C_def)
  next
    case (Some f')
    then have f': "lookup_file path source = Some f'" using orig by auto
    have eq: "source1 = remove_file path source" using Some by (simp add: source1_def)
    note r = file_removed_settled [OF inv set get f']
    show ?thesis using r(1,3,4,5) Some unfolding eq C_def by auto
  qed
qed

text \<open>The file to load into: the one that is there, or a new one.\<close>

lemma file_there_inv:
  fixes path :: string
  assumes inv: "sys_inv w {} s" and get: "get_source i s = Some source"
    and set: "cs_type source = CONF_JOB_DIR \<longrightarrow> settled_in strict C N s" "cs_type source \<noteq> CONF_JOB_DIR \<longrightarrow> settled_in strict {} N s"
  defines "s' \<equiv> if lookup_file path source = None then put_source i (conf_file_new source path) s else s"
  shows "sys_inv w {} s' \<and> (cs_type source = CONF_JOB_DIR \<longrightarrow> settled_in strict C N s') \<and>
    (cs_type source \<noteq> CONF_JOB_DIR \<longrightarrow> settled_in strict {} N s') \<and> s_sources s' = s_sources s \<and> s_classes s' = s_classes s \<and>
    shape s' = shape s \<and>
    (\<exists>source' f. get_source i s' = Some source' \<and> cs_path source' = cs_path source \<and> cs_type source' = cs_type source \<and>
       lookup_file path source' = Some f \<and>
       (lookup_file path source = None \<longrightarrow> f_job f = None))"
proof (cases "lookup_file path source")
  case None
  then have path: "path \<notin> f_path ` set (cs_files source)" by (simp add: lookup_file_None)
  have s': "s' = put_source i (conf_file_new source path) s" using None by (simp add: s'_def)
  note add = file_added_inv [OF inv _ get path] and added = file_added_settled [OF inv _ get path]
  have get': "get_source i s' = Some (conf_file_new source path)" unfolding s' by (rule get_put_source [OF get])
  have same: "cs_path (conf_file_new source path) = cs_path source" "cs_type (conf_file_new source path) = cs_type source"
    by (simp_all add: conf_file_new_def)
  have shape: "shape s' = shape s" unfolding s' by (rule shape_put_source [OF get same])
  have look: "lookup_file path (conf_file_new source path) = Some \<lparr>f_path = path, f_flag = cs_flag source, f_job = None\<rparr>"
    and srcs: "s_sources s' = s_sources s" and inv': "sys_inv w {} s'"
    using add(1,3,4) [where C = "{}" and N = UNIV] unfolding s' by (simp_all add: settled_but_def)
  have settled: "settled_in strict C' N s \<Longrightarrow> settled_in strict C' N s'" for C' unfolding s' by (rule added)
  have classes: "s_classes s' = s_classes s" by (simp add: s')
  have "\<exists>source' f. get_source i s' = Some source' \<and> cs_path source' = cs_path source \<and> cs_type source' = cs_type source \<and>
       lookup_file path source' = Some f \<and>
       (lookup_file path source = None \<longrightarrow> f_job f = None)"
    using get' same look by (intro exI [of _ "conf_file_new source path"]) simp
  then show ?thesis using inv' set settled srcs classes shape by blast
next
  case (Some f)
  then show ?thesis using inv set get by (auto simp: s'_def)
qed

text \<open>Loading into that file.\<close>

lemma load_there_inv:
  assumes inv: "sys_inv w {} s" and get: "get_source i s = Some source" and f: "lookup_file path source = Some f"
    and set: "cs_type source = CONF_JOB_DIR \<longrightarrow> settled_in strict C N s" "cs_type source \<noteq> CONF_JOB_DIR \<longrightarrow> settled_in strict {} N s"
    and lib: "parser_ok lib" "files_fit strict lib" "cl_read lib n p = Some buf"
    and name: "cs_type source = CONF_JOB_DIR \<longrightarrow> conf_to_job_name (cs_path source) path \<noteq> []"
    and over: "f_job f = None \<or> is_conf_file_override p"
    and out: "\<forall>c\<in>D. cs_type source = CONF_JOB_DIR \<longrightarrow> s_classes s c \<noteq> None \<and> c \<notin> set (s_sources s)"
  shows "\<exists>err s'. (if cs_type source = CONF_JOB_DIR then load_job lib w i path buf s else Some (parse_conf lib buf, s)) =
      Some (err, s') \<and> sys_inv w {} s' \<and> shape s' = shape s \<and>
      (cs_type source = CONF_JOB_DIR \<longrightarrow> settled_in strict C N s') \<and> (cs_type source \<noteq> CONF_JOB_DIR \<longrightarrow> settled_in strict {} N s') \<and>
      (\<forall>c\<in>D. cs_type source = CONF_JOB_DIR \<longrightarrow> s_classes s' c \<noteq> None \<and> c \<notin> set (s_sources s'))"
proof (cases "cs_type source = CONF_JOB_DIR")
  case True
  obtain err s' where run: "load_job lib w i path buf s = Some (err, s')" "sys_inv w {} s'" "settled_in strict C N s'"
    and loaded: "loaded i path source s s'"
    using job_file_loaded [OF inv set(1) [rule_format, OF True] get True f lib name [rule_format, OF True] over] by blast
  obtain job where conf: "s_conf s' = s_conf (put_source i (set_file_job path job source) s)"
    using loaded by (auto simp: loaded_def put_source_def)
  have "shape s' = shape (put_source i (set_file_job path job source) s)" using conf by (simp add: shape_def)
  also have "\<dots> = shape s" by (rule shape_put_source [OF get]) (simp_all add: set_file_job_def)
  finally have shape: "shape s' = shape s" .
  have "s_classes s' c \<noteq> None \<and> c \<notin> set (s_sources s')" if "c \<in> D" for c
  proof -
    have c: "c \<in> dom (s_classes s)" "c \<notin> set (s_sources s)" using out that True by auto
    then have "c < s_next s" using sys_inv_conf(2) [OF inv] by blast
    then have "c \<notin> insert (s_next s) (set (s_sources s))" "c \<in> dom (s_classes s')" using c loaded by (auto simp: loaded_def)
    then show ?thesis using loaded by (auto simp: loaded_def)
  qed
  then show ?thesis using True run shape by auto
next
  case False
  then show ?thesis using inv set by auto
qed

lemma conf_reload_path_eq:
  assumes "get_source i s = Some source"
    and "(if override_path = None then lookup_file path source else None) = orig"
    and "(if orig = None then source else remove_file path source) = source1"
    and "call (\<lambda>n. cl_read lib n (case override_path of None \<Rightarrow> path | Some p \<Rightarrow> p)) (put_source i source1 s) = (buf, s2)"
  shows "conf_reload_path lib w i path override_path s =
     (case buf of
        None \<Rightarrow> do { s \<leftarrow> destroy_replaced (cs_type source1) orig s2; Some (False, s) }
      | Some buf \<Rightarrow>
          (let s = (if lookup_file path source1 = None then put_source i (conf_file_new source1 path) s2 else s2)
           in do {
             (err, s) \<leftarrow>
               (if cs_type source1 = CONF_JOB_DIR then load_job lib w i path buf s
                else Some (parse_conf lib buf, s));
             s \<leftarrow> destroy_replaced (cs_type source1) orig s;
             Some (case err of None \<Rightarrow> True | Some e \<Rightarrow> soft_error e, s)
           }))"
  unfolding conf_reload_path_def assms(1) Option.bind.bind_lunit Let_def assms(2-4) prod.case by (rule refl)

lemma conf_reload_path_inv:
  assumes ok: "conf_ok w strict N s" and get: "get_source i s = Some source" and lib: "parser_ok lib" "files_fit strict lib"
    and name: "cs_type source = CONF_JOB_DIR \<Longrightarrow> conf_to_job_name (cs_path source) path \<noteq> []"
    and over: "\<And>p. override_path = Some p \<Longrightarrow> is_conf_file_override p"
  shows "\<exists>r s'. conf_reload_path lib w i path override_path s = Some (r, s') \<and> conf_ok w strict N s' \<and> shape s' = shape s"
proof -
  let ?p = "case override_path of None \<Rightarrow> path | Some p \<Rightarrow> p"
  define orig where "orig = (if override_path = None then lookup_file path source else None)"
  define source1 where "source1 = (if orig = None then source else remove_file path source)"
  define C where "C = (case orig of None \<Rightarrow> {} | Some f \<Rightarrow> set (jobs_of [f]))"
  define D where "D = {c. \<exists>f. orig = Some f \<and> f_job f = Some c}"
  let ?s1 = "put_source i source1 s"
  have orig: "orig = None \<or> orig = lookup_file path source" by (simp add: orig_def)
  note out = take_out_inv [OF ok get orig, folded source1_def, folded C_def]
  have type1: "cs_path source1 = cs_path source" "cs_type source1 = cs_type source"
    using out(2,3) by auto
  obtain buf s2 where c: "call (\<lambda>n. cl_read lib n ?p) ?s1 = (buf, s2)" by (meson surj_pair)
  then have s2: "s2 = ?s1\<lparr>s_calls := s_calls ?s1 + 1\<rparr>" and buf: "buf = cl_read lib (s_calls ?s1) ?p" by (auto simp: call_def)
  note eq = conf_reload_path_eq [OF get orig_def [symmetric] source1_def [symmetric] c]
  have srcs2: "s_sources s2 = s_sources ?s1" "s_classes s2 = s_classes ?s1" by (simp_all add: s2)
  have inv2: "sys_inv w {} s2" using out(1) sys_inv_call [OF c] by simp
  have set2: "cs_type source1 = CONF_JOB_DIR \<longrightarrow> settled_in strict C N s2" "cs_type source1 \<noteq> CONF_JOB_DIR \<longrightarrow> settled_in strict {} N s2"
    using out(1) settled_call [OF c] type1(2) by auto
  have D2: "s_classes s2 c \<noteq> None \<and> c \<notin> set (s_sources s2)" if D: "c \<in> D" and type: "cs_type source1 = CONF_JOB_DIR" for c
  proof -
    obtain f where f: "orig = Some f" "f_job f = Some c" using D by (auto simp: D_def)
    have "cs_type source = CONF_JOB_DIR" using type type1(2) by simp
    then show ?thesis using out(1) f unfolding srcs2 by blast
  qed
  have "get_source i s2 = get_source i ?s1" by (rule get_source_cong) (simp add: s2)
  then have get2: "get_source i s2 = Some source1" using get_put_source [OF get, of source1] by simp
  have shape2: "shape s2 = shape s" using shape_put_source [OF get type1] by (simp add: s2 shape_def)
  have finish: "\<exists>s'. destroy_replaced (cs_type source1) orig s3 = Some s' \<and> conf_ok w strict N s' \<and> shape s' = shape s"
    if h: "sys_inv w {} s3" "shape s3 = shape s" "cs_type source1 = CONF_JOB_DIR \<longrightarrow> settled_in strict C N s3"
      "cs_type source1 \<noteq> CONF_JOB_DIR \<longrightarrow> settled_in strict {} N s3"
      "\<forall>c\<in>D. cs_type source1 = CONF_JOB_DIR \<longrightarrow> s_classes s3 c \<noteq> None \<and> c \<notin> set (s_sources s3)" for s3
  proof -
    obtain s' where "destroy_replaced (cs_type source1) orig s3 = Some s'" "sys_inv w {} s'" "settled_in strict {} N s'" "s_conf s' = s_conf s3"
      using destroy_replaced_inv [of w "{}" s3 "cs_type source1" strict orig] h unfolding C_def D_def by blast
    then show ?thesis using h(2) by (auto simp: conf_ok_def shape_def)
  qed
  show ?thesis
  proof (cases buf)
    case None
    obtain s' where "destroy_replaced (cs_type source1) orig s2 = Some s'" "conf_ok w strict N s'" "shape s' = shape s"
      using finish [OF inv2 shape2] set2 D2 by blast
    then show ?thesis unfolding eq None by auto
  next
    case (Some b)
    define s3 where "s3 = (if lookup_file path source1 = None then put_source i (conf_file_new source1 path) s2 else s2)"
    note there = file_there_inv [OF inv2 get2 set2, where path = path, folded s3_def]
    obtain source3 f where src3: "get_source i s3 = Some source3" "cs_path source3 = cs_path source1"
      "cs_type source3 = cs_type source1" "lookup_file path source3 = Some f"
      "lookup_file path source1 = None \<longrightarrow> f_job f = None"
      using there by (elim conjE exE) (rule that, assumption+)
    have f: "f_job f = None \<or> is_conf_file_override ?p"
    proof (cases override_path)
      case None
      have "lookup_file path source1 = None"
      proof (cases orig)
        case None
        then show ?thesis using \<open>override_path = None\<close> by (simp add: source1_def orig_def)
      next
        case (Some f')
        have "path \<notin> f_path ` set (cs_files (remove_file path source))"
        proof (rule file_removed_settled(2))
          show "sys_inv w {} s" "settled_in strict {} N s" using ok by (simp_all add: conf_ok_def)
          show "get_source i s = Some source" by (rule get)
          show "lookup_file path source = Some f'" using Some orig by simp
        qed
        then show ?thesis using Some by (simp add: source1_def lookup_file_None)
      qed
      then show ?thesis using src3(5) by blast
    next
      case (Some p)
      then show ?thesis using over by simp
    qed
    have read: "cl_read lib (s_calls ?s1) ?p = Some b" using Some buf by simp
    have name3: "cs_type source3 = CONF_JOB_DIR \<longrightarrow> conf_to_job_name (cs_path source3) path \<noteq> []"
      using name src3(2,3) type1 by simp
    have "s_sources s3 = s_sources s2" "s_classes s3 = s_classes s2" using there by blast+
    then have D3: "\<forall>c\<in>D. cs_type source3 = CONF_JOB_DIR \<longrightarrow> s_classes s3 c \<noteq> None \<and> c \<notin> set (s_sources s3)"
      using D2 src3(3) by simp
    have set3: "cs_type source3 = CONF_JOB_DIR \<longrightarrow> settled_in strict C N s3" "cs_type source3 \<noteq> CONF_JOB_DIR \<longrightarrow> settled_in strict {} N s3"
      using there unfolding src3(3) by blast+
    have inv3: "sys_inv w {} s3" and shape3: "shape s3 = shape s2" using there by blast+
    obtain err s4 where load: "(if cs_type source3 = CONF_JOB_DIR then load_job lib w i path b s3 else Some (parse_conf lib b, s3)) = Some (err, s4)"
      and s4: "sys_inv w {} s4" "shape s4 = shape s3" "cs_type source3 = CONF_JOB_DIR \<longrightarrow> settled_in strict C N s4"
        "cs_type source3 \<noteq> CONF_JOB_DIR \<longrightarrow> settled_in strict {} N s4"
        "\<forall>c\<in>D. cs_type source3 = CONF_JOB_DIR \<longrightarrow> s_classes s4 c \<noteq> None \<and> c \<notin> set (s_sources s4)"
      using load_there_inv [OF inv3 src3(1,4) set3 lib read name3 f D3] by blast
    obtain s' where "destroy_replaced (cs_type source1) orig s4 = Some s'" "conf_ok w strict N s'" "shape s' = shape s"
      using finish [OF s4(1)] s4 shape2 shape3 unfolding src3(3) by auto
    then show ?thesis using load unfolding eq Some src3(3) by (auto simp: Let_def s3_def [symmetric])
  qed
qed

end
