(* ===== verification/ConfReload.thy ===== *)
theory ConfReload
  imports ConfInv
begin

text \<open>
  Every function of \<^verbatim>\<open>conf.c\<close> that reacts to a change of the files keeps the invariant: loading with the
  override file, the handlers of the watches, and reloading a source or all of them.
\<close>

section \<open>Names of files\<close>

lemma strrchr_append: "c \<notin> set ys \<Longrightarrow> strrchr c (xs @ c # ys) = Some (c # ys)"
proof (induction xs)
  case Nil
  have "strrchr c zs = None" if "c \<notin> set zs" for zs using that by (induction zs) auto
  then show ?case using Nil by simp
qed simp

lemma strrchr_Some: "strrchr c xs = Some r \<Longrightarrow> \<exists>p ys. xs = p @ r \<and> r = c # ys \<and> c \<notin> set ys"
proof (induction xs)
  case (Cons x xs)
  show ?case
  proof (cases "strrchr c xs")
    case None
    have "c \<notin> set zs" if "strrchr c zs = None" for zs using that by (induction zs) (auto split: option.splits if_splits)
    then show ?thesis using Cons.prems None by (auto split: if_splits intro: exI [of _ "[]"])
  next
    case (Some r')
    then show ?thesis using Cons by (auto intro: exI [of _ "x # _"])
  qed
qed simp

lemma before_append [simp]: "before (xs @ ys) ys = xs"
  by (simp add: before_def)

lemma override_name: "is_conf_file_override (dir @ ''/'' @ name @ CONF_EXT_OVERRIDE)"
  using strrchr_append [of "CHR ''.''" "''override''" "dir @ ''/'' @ name"]
  by (simp add: is_conf_file_override_def IS_CONF_EXT_OVERRIDE_def CONF_EXT_OVERRIDE_def)

lemma strncmp_prefix_append [simp]: "strncmp_prefix dir (dir @ path)"
  by (simp add: strncmp_prefix_def)

text \<open>The name of a configuration file in a directory gives the name of a job.\<close>

lemma conf_to_job_name_file:
  assumes "name \<noteq> []" and "hd name \<noteq> CHR ''/''" and "ext = CONF_EXT_STD \<or> ext = CONF_EXT_OVERRIDE"
  shows "conf_to_job_name dir (dir @ ''/'' @ name @ ext) = name"
proof -
  obtain e where e: "ext = CHR ''.'' # e" "CHR ''.'' \<notin> set e"
    using assms(3) by (auto simp: CONF_EXT_STD_def CONF_EXT_OVERRIDE_def)
  have "dropWhile (\<lambda>c. c = CHR ''/'') (''/'' @ name @ ext) = name @ ext" using assms(1,2) by (cases name) simp_all
  moreover have "strrchr CHR ''.'' (name @ ext) = Some ext" using strrchr_append [OF e(2), of name] e(1) by simp
  moreover have "IS_CONF_EXT ext" using assms(3) by (auto simp: IS_CONF_EXT_def IS_CONF_EXT_STD_def IS_CONF_EXT_OVERRIDE_def)
  ultimately show ?thesis by (simp add: conf_to_job_name_def Let_def)
qed

lemma job_name_no_slash: "conf_to_job_name dir path = c # name \<Longrightarrow> c \<noteq> CHR ''/''"
proof -
  assume h: "conf_to_job_name dir path = c # name"
  let ?start = "dropWhile (\<lambda>c. c = CHR ''/'') (if strncmp_prefix dir path then drop (length dir) path else path)"
  have "conf_to_job_name dir path = take (length (conf_to_job_name dir path)) ?start"
    by (simp add: conf_to_job_name_def Let_def before_def split: option.split)
  then have "\<exists>rest. ?start = c # rest" using h by (cases ?start) auto
  then show ?thesis using hd_dropWhile [of "\<lambda>c. c = CHR ''/''"] by (metis list.discI list.sel(1) dropWhile_eq_Nil_conv)
qed

lemma is_conf_file_split:
  assumes "is_conf_file path"
  obtains xs x ext where "path = xs @ x # ext" and "x \<noteq> CHR ''/''" and "ext = CONF_EXT_STD \<or> ext = CONF_EXT_OVERRIDE"
proof -
  obtain ext where ext: "strrchr CHR ''.'' path = Some ext" "length ext < length path" "last (before path ext) \<noteq> CHR ''/''" "IS_CONF_EXT ext"
    using assms by (auto simp: is_conf_file_def split: option.splits)
  obtain p where p: "path = p @ ext" using strrchr_Some [OF ext(1)] by blast
  then obtain xs x where xs: "p = xs @ [x]" using ext(2) by (cases p rule: rev_cases) auto
  then have "x \<noteq> CHR ''/''" using ext(3) unfolding p before_append by simp
  moreover have "ext = CONF_EXT_STD \<or> ext = CONF_EXT_OVERRIDE"
    using ext(4) by (auto simp: IS_CONF_EXT_def IS_CONF_EXT_STD_def IS_CONF_EXT_OVERRIDE_def)
  ultimately show ?thesis using that p xs by simp
qed

lemma job_name_there:
  assumes "is_conf_file (dir @ ''/'' @ rest)"
  shows "conf_to_job_name dir (dir @ ''/'' @ rest) \<noteq> []"
proof -
  obtain xs x ext where split: "dir @ ''/'' @ rest = xs @ x # ext" "x \<noteq> CHR ''/''" "ext = CONF_EXT_STD \<or> ext = CONF_EXT_OVERRIDE"
    using is_conf_file_split [OF assms] .
  have "CHR ''/'' \<notin> set (x # ext)" using split(2,3) by (auto simp: CONF_EXT_STD_def CONF_EXT_OVERRIDE_def)
  moreover have "CHR ''/'' \<in> set (us @ ''/'' @ rest)" for us by simp
  ultimately have "us @ ''/'' @ rest \<noteq> x # ext" for us by metis
  with split(1) have "\<exists>ys. rest = ys @ x # ext" by (auto simp: append_eq_append_conv2 Cons_eq_append_conv)
  then obtain ys where rest: "rest = ys @ x # ext" ..
  let ?start = "dropWhile (\<lambda>c. c = CHR ''/'') (CHR ''/'' # ys @ [x])"
  have "dropWhile (\<lambda>c. c = CHR ''/'') (''/'' @ rest) = ?start @ ext"
    using split(2) by (simp add: rest dropWhile_append)
  moreover have "?start \<noteq> []" using split(2) by (auto simp: dropWhile_eq_Nil_conv)
  ultimately obtain name where name: "dropWhile (\<lambda>c. c = CHR ''/'') (''/'' @ rest) = name @ ext" "name \<noteq> []" by blast
  obtain e where e: "ext = CHR ''.'' # e" "CHR ''.'' \<notin> set e"
    using split(3) by (auto simp: CONF_EXT_STD_def CONF_EXT_OVERRIDE_def)
  have "strrchr CHR ''.'' (name @ ext) = Some ext" using strrchr_append [OF e(2), of name] e(1) by simp
  moreover have "IS_CONF_EXT ext" using split(3) by (auto simp: IS_CONF_EXT_def IS_CONF_EXT_STD_def IS_CONF_EXT_OVERRIDE_def)
  ultimately show ?thesis using name by (simp add: conf_to_job_name_def Let_def)
qed

section \<open>Loading with the override file\<close>

lemma best_override_loop_ok:
  assumes "best_override_loop lib name src sources s = (r, s')" and "conf_ok w strict N s"
  shows "conf_ok w strict N s' \<and> shape s' = shape s \<and> (\<forall>p. r = Some p \<longrightarrow> is_conf_file_override p)"
  using assms
proof (induction sources arbitrary: s)
  case (Cons x sources)
  obtain i source where x: "x = (i, source)" by fastforce
  let ?path = "cs_path source @ ''/'' @ name @ CONF_EXT_OVERRIDE"
  obtain st s1 where c: "call (\<lambda>n. cl_lstat lib n ?path) s = (st, s1)" by fastforce
  have s1: "conf_ok w strict N s1" "shape s1 = shape s" using conf_ok_call [OF c] Cons.prems(2) by auto
  show ?case
  proof (cases "cs_type source = CONF_FILE")
    case True
    then show ?thesis using Cons.IH [OF _ Cons.prems(2)] Cons.prems(1) by (simp add: x)
  next
    case False
    then show ?thesis
      using Cons.IH [OF _ s1(1)] Cons.prems c s1 override_name [of "cs_path source" name]
      by (auto simp: x Let_def split: if_splits)
  qed
qed simp

lemma conf_load_path_with_override_inv:
  assumes ok: "conf_ok w strict N s" and get: "get_source i s = Some source" and lib: "parser_ok lib" "files_fit strict lib"
    and name: "cs_type source = CONF_JOB_DIR \<Longrightarrow> conf_to_job_name (cs_path source) path \<noteq> []"
  shows "keeps_conf w strict N s (conf_load_path_with_override lib w i path s)"
proof -
  obtain r s1 where run: "conf_reload_path lib w i path None s = Some (r, s1)" and s1: "conf_ok w strict N s1" "shape s1 = shape s"
    using conf_reload_path_inv [OF ok get lib name, where override_path = None] by auto
  show ?thesis
  proof (cases r)
    case False
    then show ?thesis using get run s1 by (simp add: conf_load_path_with_override_def keeps_conf_def)
  next
    case True
    let ?name = "conf_to_job_name (cs_path source) path"
    obtain p s2 where best: "conf_get_best_override lib ?name i s1 = (p, s2)" by fastforce
    have s2: "conf_ok w strict N s2" "shape s2 = shape s" and p: "p = Some q \<Longrightarrow> is_conf_file_override q" for q
      using best_override_loop_ok [OF best [unfolded conf_get_best_override_def] s1(1)] s1(2) by auto
    show ?thesis
    proof (cases p)
      case None
      then show ?thesis using get run True best s2 by (simp add: conf_load_path_with_override_def keeps_conf_def)
    next
      case (Some q)
      obtain source2 where get2: "get_source i s2 = Some source2" "cs_path source2 = cs_path source" "cs_type source2 = cs_type source"
        using shape_get [OF s2(2) get] by blast
      obtain r' s3 where "conf_reload_path lib w i path (Some q) s2 = Some (r', s3)" "conf_ok w strict N s3" "shape s3 = shape s2"
        using conf_reload_path_inv [OF s2(1) get2(1) lib, of path "Some q"] name get2(2,3) p [OF Some] by auto
      then show ?thesis using get run True best Some s2(2) by (simp add: conf_load_path_with_override_def keeps_conf_def)
    qed
  qed
qed

section \<open>The handlers\<close>

text \<open>A sequence of steps, each of which keeps the invariant.\<close>

lemma keeps_conf_foldM:
  assumes "conf_ok w strict N s" and "\<And>x s'. x \<in> set xs \<Longrightarrow> conf_ok w strict N s' \<Longrightarrow> shape s' = shape s \<Longrightarrow> keeps_conf w strict N s' (f x s')"
  shows "keeps_conf w strict N s (foldM f xs s)"
  using assms
proof (induction xs arbitrary: s)
  case (Cons x xs)
  have "keeps_conf w strict N s (f x s)" using Cons.prems by simp
  then show ?case unfolding foldM.simps
    by (rule keeps_conf_trans) (rule Cons.IH, use Cons.prems in simp_all)
qed (simp add: keeps_conf_same)

lemma reload_matching_inv:
  assumes ok: "conf_ok w strict N s" and lib: "parser_ok lib" "files_fit strict lib" and i: "i < length (s_conf s)"
    and name: "name \<noteq> []" "hd name \<noteq> CHR ''/''"
  shows "keeps_conf w strict N s (reload_matching lib w name i s)"
proof -
  obtain source where get: "get_source i s = Some source" using i by (simp add: get_source_def)
  have "conf_to_job_name (cs_path source) (cs_path source @ ''/'' @ name @ CONF_EXT_STD) \<noteq> []"
    using conf_to_job_name_file [OF name, of CONF_EXT_STD "cs_path source"] name(1) by simp
  then show ?thesis
    using get conf_load_path_with_override_inv [OF ok get lib] keeps_conf_same [OF ok]
    by (auto simp: reload_matching_def Let_def)
qed

lemma shape_length: "shape s' = shape s \<Longrightarrow> length (s_conf s') = length (s_conf s)"
  by (metis shape_def length_map)

lemma conf_create_modify_handler_inv:
  assumes ok: "conf_ok w strict N s" and get: "get_source i s = Some source" and lib: "parser_ok lib" "files_fit strict lib"
    and name: "cs_type source = CONF_JOB_DIR \<or> \<not> is_conf_file_std path \<Longrightarrow> is_conf_file path \<Longrightarrow>
      conf_to_job_name (cs_path source) path \<noteq> []"
  shows "keeps_conf w strict N s (conf_create_modify_handler lib w i path statbuf s)"
proof -
  let ?name = "conf_to_job_name (cs_path source) path"
  have std: "keeps_conf w strict N s (conf_load_path_with_override lib w i path s)" if "is_conf_file path"
    by (rule conf_load_path_with_override_inv [OF ok get lib]) (use name that in blast)
  have all: "keeps_conf w strict N s (foldM (reload_matching lib w ?name) [0..<length (s_conf s)] s)"
    if "is_conf_file path" "\<not> is_conf_file_std path"
  proof (rule keeps_conf_foldM [OF ok])
    fix k s'
    assume k: "k \<in> set [0..<length (s_conf s)]" and s': "conf_ok w strict N s'" "shape s' = shape s"
    have "hd ?name \<noteq> CHR ''/''" using name that job_name_no_slash by (metis list.collapse)
    then show "keeps_conf w strict N s' (reload_matching lib w ?name k s')"
      using reload_matching_inv [OF s'(1) lib] k name that shape_length [OF s'(2)] by simp
  qed
  show ?thesis
    using get keeps_conf_same [OF ok] std all by (simp add: conf_create_modify_handler_def)
qed

section \<open>Deleting files\<close>

text \<open>A source changes without its files.\<close>

lemma conf_ok_put:
  assumes ok: "conf_ok w strict N s" and get: "get_source i s = Some source"
    and same: "cs_path source' = cs_path source" "cs_type source' = cs_type source" "cs_files source' = cs_files source"
  shows "conf_ok w strict N (put_source i source' s)" and "shape (put_source i source' s) = shape s"
    and "get_source i (put_source i source' s) = Some source'"
proof -
  have inv: "sys_inv w {} s" and set: "settled_in strict {} N s" using ok by (simp_all add: conf_ok_def)
  have jobs: "source_jobs source' = source_jobs source" using same by (simp add: source_jobs_eq)
  have "sys_inv w {} (put_source i source' s)"
    by (rule put_source_inv [OF inv get]) (use get_source_inv [OF inv get] same jobs in simp_all)
  moreover have "s_sources (put_source i source' s) = s_sources s" using put_source_jobs [OF get] jobs by metis
  then have "settled_in strict {} N (put_source i source' s)" by (rule settled_in_same [OF set]) simp_all
  ultimately show "conf_ok w strict N (put_source i source' s)" by (simp add: conf_ok_def)
  show "shape (put_source i source' s) = shape s" by (rule shape_put_source [OF get same(1,2)])
  show "get_source i (put_source i source' s) = Some source'" by (rule get_put_source [OF get])
qed

lemma conf_delete_handler_inv:
  assumes ok: "conf_ok w strict N s" and get: "get_source i s = Some source" and lib: "parser_ok lib" "files_fit strict lib"
    and name: "is_conf_file_override path \<Longrightarrow> is_conf_file path \<Longrightarrow> conf_to_job_name (cs_path source) path \<noteq> []"
  shows "keeps_conf w strict N s (conf_delete_handler lib w i watch_path path s)"
proof -
  have over: "keeps_conf w strict N s (conf_create_modify_handler lib w i path None s)" if "is_conf_file_override path"
    by (rule conf_create_modify_handler_inv [OF ok get lib]) (use name that in blast)
  have none: "keeps_conf w strict N s (Some s)" "keeps_conf w strict N s (Some (put_source i (source\<lparr>cs_watch := None\<rparr>) s))"
    using conf_ok_put [OF ok get, of "source\<lparr>cs_watch := None\<rparr>"] ok by (auto simp: keeps_conf_def)
  have del: "keeps_conf w strict N s (conf_file_destroy (cs_type source) f (put_source i (remove_file path source) s))"
    if f: "lookup_file path source = Some f" for f
  proof -
    have inv: "sys_inv w {} s" and set: "settled_in strict {} N s" using ok by (simp_all add: conf_ok_def)
    note out = file_removed_settled [OF inv set get f]
    obtain s' where "destroy_replaced (cs_type source) (Some f) (put_source i (remove_file path source) s) = Some s'"
      "sys_inv w {} s'" "settled_in strict {} N s'" "s_conf s' = s_conf (put_source i (remove_file path source) s)"
      using destroy_replaced_inv [OF out(1), of "cs_type source" strict "Some f"] out(3-5) by auto
    moreover have "shape (put_source i (remove_file path source) s) = shape s"
      by (rule shape_put_source [OF get]) (simp_all add: remove_file_def split: option.split)
    ultimately show ?thesis by (auto simp: keeps_conf_def conf_ok_def shape_def destroy_replaced_def)
  qed
  show ?thesis
    using get over none del by (simp add: conf_delete_handler_def Let_def split: option.split)
qed

lemma destroy_files_inv:
  assumes "sys_inv w X s" and "settled_in strict (set (jobs_of fs)) N s" and "distinct (jobs_of fs)"
    and "\<And>c. c \<in> set (jobs_of fs) \<Longrightarrow> s_classes s c \<noteq> None \<and> c \<notin> set (s_sources s)"
  shows "\<exists>s'. foldM (conf_file_destroy CONF_JOB_DIR) fs s = Some s' \<and> sys_inv w X s' \<and> settled_in strict {} N s' \<and> s_conf s' = s_conf s"
  using assms
proof (induction fs arbitrary: s)
  case (Cons f fs)
  have "set (jobs_of (f # fs)) = set (jobs_of [f]) \<union> set (jobs_of fs)" by auto
  with Cons.prems(2) have set: "settled_in strict (set (jobs_of [f]) \<union> set (jobs_of fs)) N s" by simp
  have out: "s_classes s c \<noteq> None \<and> c \<notin> set (s_sources s)" if "f_job f = Some c" for c
    using Cons.prems(4) [of c] that by simp
  obtain s1 where s1: "conf_file_destroy CONF_JOB_DIR f s = Some s1" "sys_inv w X s1" "settled_in strict (set (jobs_of fs)) N s1"
    "s_conf s1 = s_conf s" "\<forall>c. f_job f \<noteq> Some c \<longrightarrow> s_classes s1 c = s_classes s c"
    using destroy_settled [OF Cons.prems(1) set out] by blast
  have "s_classes s1 c \<noteq> None \<and> c \<notin> set (s_sources s1)" if "c \<in> set (jobs_of fs)" for c
  proof -
    have "f_job f \<noteq> Some c" using that Cons.prems(3) by auto
    then have "s_classes s1 c = s_classes s c" using s1(5) by blast
    then show ?thesis using that Cons.prems(4) [of c] s1(4) by (auto simp: s_sources_def)
  qed
  then show ?case using Cons.IH [OF s1(2,3)] Cons.prems(3) s1(1,4) by (auto split: option.splits)
qed (simp add:)

lemma jobs_of_mem: "c \<in> set (jobs_of fs) \<longleftrightarrow> (\<exists>f\<in>set fs. f_job f = Some c)"
  by (induction fs) (auto split: option.splits)

lemma find_filtered:
  "find P xs = Some z \<Longrightarrow> Q z \<Longrightarrow> find P (filter Q xs) = Some z"
  "find P xs = None \<Longrightarrow> find P (filter Q xs) = None"
  by (induction xs) (auto split: if_splits)

lemma jobs_of_filter: "distinct (jobs_of fs) \<Longrightarrow>
    jobs_of (filter Q fs) = filter (\<lambda>c. c \<notin> set (jobs_of (filter (\<lambda>f. \<not> Q f) fs))) (jobs_of fs)"
  by (induction fs) (auto simp: jobs_of_mem split: option.splits intro!: filter_cong)

lemma distinct_jobs_of_filter: "distinct (jobs_of fs) \<Longrightarrow> distinct (jobs_of (filter Q fs))"
  using jobs_of_filter [of fs Q] by simp

lemma delete_stale_inv:
  assumes ok: "conf_ok w strict N s" and get: "get_source i s = Some source"
  shows "keeps_conf w strict N s (delete_stale i s)"
proof -
  have inv: "sys_inv w {} s" and set: "settled_in strict {} N s" using ok by (simp_all add: conf_ok_def)
  let ?Q = "\<lambda>f. f_flag f = cs_flag source"
  let ?keep = "filter ?Q (cs_files source)" and ?del = "filter (\<lambda>f. \<not> ?Q f) (cs_files source)"
  let ?source = "source\<lparr>cs_files := ?keep\<rparr>"
  let ?s = "put_source i ?source s"
  note src = get_source_inv [OF inv get]
  have run: "delete_stale i s = foldM (conf_file_destroy (cs_type source)) ?del ?s"
    using get by (simp add: delete_stale_def partition_filter_conv comp_def)
  have sub: "set (source_jobs ?source) \<subseteq> set (source_jobs source)" "distinct (source_jobs ?source)"
    using src(2) distinct_jobs_of_filter [of "cs_files source" ?Q] by (auto simp: source_jobs_eq jobs_of_mem split: if_splits)
  have inv1: "sys_inv w {} ?s"
    by (rule put_source_inv [OF inv get]) (use src(1) sub in \<open>auto simp: distinct_map_filter\<close>)
  have shape: "shape ?s = shape s" by (rule shape_put_source [OF get]) simp_all
  obtain A B where jobs: "s_sources s = A @ source_jobs source @ B" "s_sources ?s = A @ source_jobs ?source @ B"
    using put_source_jobs [OF get] by metis
  have dist: "distinct (s_sources s)" using sys_inv_conf(1) [OF inv] by (simp add: conf_fit_def s_sources_def)
  show ?thesis
  proof (cases "cs_type source = CONF_JOB_DIR")
    case False
    have "foldM (conf_file_destroy (cs_type source)) fs t = Some t" for fs t
      using False by (induction fs) (simp_all add: conf_file_destroy_def)
    moreover have "settled_in strict {} N ?s"
      by (rule settled_in_same [OF set]) (use jobs False in \<open>simp_all add: source_jobs_eq\<close>)
    ultimately show ?thesis using run inv1 shape by (simp add: keeps_conf_def conf_ok_def)
  next
    case True
    let ?D = "set (jobs_of ?del)"
    have all: "source_jobs source = jobs_of (cs_files source)" "source_jobs ?source = filter (\<lambda>c. c \<notin> ?D) (jobs_of (cs_files source))"
      using True src(2) jobs_of_filter [of "cs_files source" ?Q] by (simp_all add: source_jobs_eq)
    have D: "?D \<subseteq> set (jobs_of (cs_files source))" by (auto simp: jobs_of_mem)
    then have "filter (\<lambda>c. c \<notin> ?D) A = A" "filter (\<lambda>c. c \<notin> ?D) B = B"
      using dist jobs(1) all(1) by (auto simp: filter_id_conv)
    then have fewer: "s_sources ?s = filter (\<lambda>c. c \<notin> ?D) (s_sources s)" using jobs all by simp
    obtain C where C: "strays strict C s" "settled_but C N s" using set by (auto simp: settled_in_def)
    have "settled_but (?D \<union> C) N ?s"
    proof (rule settled_fewer [OF C(2)])
      fix n c
      let ?P = "\<lambda>cid. class_name s cid = Some n"
      have sel: "conf_select_job n s = find ?P (s_sources s)" "conf_select_job n ?s = find ?P (filter (\<lambda>c. c \<notin> ?D) (s_sources s))"
        unfolding conf_select_job_def fewer [symmetric] by simp_all
      show "c \<in> ?D \<or> conf_select_job n ?s = Some c" if "conf_select_job n s = Some c"
        using that find_filtered(1) [of ?P "s_sources s" c "\<lambda>c. c \<notin> ?D"] unfolding sel by blast
      show "conf_select_job n ?s = None" if "conf_select_job n s = None"
        using that find_filtered(2) unfolding sel by blast
    qed simp_all
    moreover have "strays strict C ?s" by (rule strays_mono [OF C(1)]) (use fewer in auto)
    ultimately have "settled_in strict ?D N ?s" by (auto simp: settled_in_def)
    moreover have "distinct (jobs_of ?del)" using src(2) all(1) distinct_jobs_of_filter by simp
    moreover have "s_classes ?s c \<noteq> None \<and> c \<notin> set (s_sources ?s)" if "c \<in> ?D" for c
      using that D sources_there [OF inv, of c] jobs(1) all(1) fewer by auto
    ultimately obtain s' where "foldM (conf_file_destroy CONF_JOB_DIR) ?del ?s = Some s'" "sys_inv w {} s'" "settled_in strict {} N s'"
      "s_conf s' = s_conf ?s"
      using destroy_files_inv [OF inv1, of strict ?del] by auto
    then show ?thesis using run True shape by (simp add: keeps_conf_def conf_ok_def shape_def)
  qed
qed

section \<open>Reloading\<close>

text \<open>Of the watch and of \<^verbatim>\<open>nih_dir_walk\<close> it is used that regular files are only visited below the
  directory, and only if the filter lets them pass.\<close>

definition visits :: "conf_lib \<Rightarrow> string \<Rightarrow> (string \<Rightarrow> bool \<Rightarrow> bool) \<Rightarrow> (string \<times> bool) list \<Rightarrow> bool" where
  "visits lib dir leave_out entries \<longleftrightarrow>
     (\<forall>path. (path, True) \<in> set entries \<longrightarrow> \<not> leave_out path False \<and> (\<exists>rest. path = dir @ ''/'' @ rest))"

definition walk_ok :: "conf_lib \<Rightarrow> bool" where
  "walk_ok lib \<longleftrightarrow> (\<forall>n dir leave_out entries.
     (cl_watch_dir lib n dir leave_out = Some entries \<or> cl_walk lib n dir leave_out = Some entries) \<longrightarrow>
       visits lib dir leave_out entries)"

lemma visited_name:
  assumes "visits lib (cs_path source) (conf_dir_filter lib source) entries" and "(path, True) \<in> set entries"
  shows "is_conf_file path" and "conf_to_job_name (cs_path source) path \<noteq> []"
proof -
  obtain rest where path: "path = cs_path source @ ''/'' @ rest" and pass: "\<not> conf_dir_filter lib source path False"
    using assms unfolding visits_def by blast
  then show "is_conf_file path" by (auto simp: conf_dir_filter_def split: if_splits)
  then show "conf_to_job_name (cs_path source) path \<noteq> []" using job_name_there path by blast
qed

lemma conf_source_reload_dir_inv:
  assumes ok: "conf_ok w strict N s" and get: "get_source i s = Some source" and type: "cs_type source \<noteq> CONF_FILE"
    and lib: "parser_ok lib" "files_fit strict lib" "walk_ok lib"
  shows "\<exists>r s'. conf_source_reload_dir lib w i s = Some (r, s') \<and> conf_ok w strict N s' \<and> shape s' = shape s"
proof -
  let ?filter = "conf_dir_filter lib source"
  obtain watched s1 where c1: "(if cs_watch source = None then call (\<lambda>n. cl_watch_dir lib n (cs_path source) ?filter) s
      else (None, s)) = (watched, s1)" by fastforce
  have s1: "conf_ok w strict N s1" "shape s1 = shape s"
    using c1 conf_ok_call [of "\<lambda>n. cl_watch_dir lib n (cs_path source) ?filter" s watched s1] ok by (auto split: if_splits)
  have step: "keeps_conf w strict N s' (conf_create_modify_handler lib w i path (Some regular) s')"
    "keeps_conf w strict N s' (conf_file_visitor lib w i (path, regular) s')"
    if e: "(path, regular) \<in> set entries" "visits lib (cs_path source) ?filter entries" and s': "conf_ok w strict N s'" "shape s' = shape s"
    for path regular entries s'
  proof -
    obtain source' where get': "get_source i s' = Some source'" "cs_path source' = cs_path source" "cs_type source' = cs_type source"
      using shape_get [OF s'(2) get] by blast
    have name: "conf_to_job_name (cs_path source') path \<noteq> []" if regular
      using visited_name(2) [OF e(2)] e(1) that get'(2) by simp
    show "keeps_conf w strict N s' (conf_create_modify_handler lib w i path (Some regular) s')"
    proof (cases regular)
      case True
      then show ?thesis using conf_create_modify_handler_inv [OF s'(1) get'(1) lib(1,2)] name by simp
    next
      case False
      then show ?thesis using get' keeps_conf_same [OF s'(1)] by (simp add: conf_create_modify_handler_def)
    qed
    show "keeps_conf w strict N s' (conf_file_visitor lib w i (path, regular) s')"
      using conf_load_path_with_override_inv [OF s'(1) get'(1) lib(1,2)] name keeps_conf_same [OF s'(1)]
      by (simp add: conf_file_visitor_def)
  qed
  show ?thesis
  proof (cases watched)
    case (Some entries)
    then have v: "visits lib (cs_path source) ?filter entries"
      using c1 lib(3) unfolding walk_ok_def call_def by (auto split: if_splits)
    have "keeps_conf w strict N s1 (foldM (\<lambda>(path, regular). conf_create_modify_handler lib w i path (Some regular)) entries s1)"
      by (rule keeps_conf_foldM [OF s1(1)]) (use step(1) [OF _ v] s1(2) in \<open>auto split: prod.split\<close>)
    then obtain s2 where s2: "foldM (\<lambda>(path, regular). conf_create_modify_handler lib w i path (Some regular)) entries s1 = Some s2"
      "conf_ok w strict N s2" "shape s2 = shape s" using s1(2) by (auto simp: keeps_conf_def)
    obtain source2 where get2: "get_source i s2 = Some source2" using shape_get [OF s2(3) get] by blast
    show ?thesis
      using get type c1 Some s2 get2 conf_ok_put(1,2) [OF s2(2) get2, of "source2\<lparr>cs_watch := Some (cs_path source2)\<rparr>"]
      by (auto simp: conf_source_reload_dir_def Let_def nih_assert_def)
  next
    case None
    obtain walked s2 where c2: "call (\<lambda>n. cl_walk lib n (cs_path source) ?filter) s1 = (walked, s2)" by fastforce
    have s2: "conf_ok w strict N s2" "shape s2 = shape s" using conf_ok_call [OF c2] s1 by auto
    have "keeps_conf w strict N s2 (foldM (conf_file_visitor lib w i) entries s2)" if "walked = Some entries" for entries
    proof (rule keeps_conf_foldM [OF s2(1)])
      have v: "visits lib (cs_path source) ?filter entries"
        using c2 lib(3) that unfolding walk_ok_def call_def by auto
      show "keeps_conf w strict N s' (conf_file_visitor lib w i x s')"
        if "x \<in> set entries" "conf_ok w strict N s'" "shape s' = shape s2" for x s'
        using step(2) [OF _ v] that s2(2) by (cases x) simp
    qed
    then show ?thesis
      using get type c1 None c2 s2 by (cases walked) (auto simp: conf_source_reload_dir_def Let_def nih_assert_def keeps_conf_def)
  qed
qed

lemma toggled_override:
  assumes "is_conf_file_std path"
  shows "\<exists>p. toggle_conf_name path = Some p \<and> is_conf_file_override p"
proof -
  obtain xs where "path = xs @ CONF_EXT_STD" and "strrchr CHR ''.'' path = Some CONF_EXT_STD"
    using assms strrchr_Some by (fastforce simp: is_conf_file_std_def IS_CONF_EXT_STD_def split: option.splits)
  moreover have "strrchr CHR ''.'' (xs @ CONF_EXT_OVERRIDE) = Some CONF_EXT_OVERRIDE" for xs
    using strrchr_append [of "CHR ''.''" "''override''"] by (simp add: CONF_EXT_OVERRIDE_def)
  ultimately show ?thesis
    by (simp add: toggle_conf_name_def IS_CONF_EXT_STD_def is_conf_file_override_def IS_CONF_EXT_OVERRIDE_def)
qed

lemma conf_source_reload_file_inv:
  assumes ok: "conf_ok w strict N s" and get: "get_source i s = Some source" and type: "cs_type source = CONF_FILE"
    and lib: "parser_ok lib" "files_fit strict lib"
  shows "\<exists>r s'. conf_source_reload_file lib w i s = Some (r, s') \<and> conf_ok w strict N s' \<and> shape s' = shape s"
proof -
  let ?path = "cs_path source"
  obtain watched s0 where c0: "call (\<lambda>n. cl_watch_file lib n (dirname ?path)) s = (watched, s0)" by fastforce
  have s0: "conf_ok w strict N s0" "shape s0 = shape s" "get_source i s0 = Some source"
    using conf_ok_call [OF c0] ok get get_source_cong [of s0 s] c0 by (auto simp: call_def)
  define s1 where "s1 = (if cs_watch source = None then if watched then put_source i (source\<lparr>cs_watch := Some (dirname ?path)\<rparr>) s0 else s0 else s)"
  have s1: "conf_ok w strict N s1" "shape s1 = shape s"
    using conf_ok_put(1,2) [OF s0(1,3), of "source\<lparr>cs_watch := Some (dirname ?path)\<rparr>"] s0 ok by (auto simp: s1_def)
  obtain source1 where get1: "get_source i s1 = Some source1" "cs_path source1 = ?path" "cs_type source1 = cs_type source"
    using shape_get [OF s1(2) get] by blast
  obtain r s2 where run: "conf_reload_path lib w i ?path None s1 = Some (r, s2)" and s2: "conf_ok w strict N s2" "shape s2 = shape s"
    using conf_reload_path_inv [OF s1(1) get1(1) lib, of ?path None] get1(3) type s1(2) by auto
  have start: "conf_source_reload_file lib w i s = (if \<not> r then Some (False, s2)
     else if \<not> is_conf_file_std ?path then Some (True, s2)
     else do {
       override_path \<leftarrow> toggle_conf_name ?path;
       let (st, s) = call (\<lambda>n. cl_lstat lib n override_path) s2;
       if st = None then Some (True, s) else conf_reload_path lib w i ?path (Some override_path) s
     })"
  proof -
    have "(if cs_watch source = None then
        (case call (\<lambda>n. cl_watch_file lib n (dirname ?path)) s of (watched, s) \<Rightarrow>
          if watched then put_source i (source\<lparr>cs_watch := Some (dirname ?path)\<rparr>) s else s) else s) = s1"
      using c0 by (simp add: s1_def)
    then show ?thesis using run type unfolding conf_source_reload_file_def get Let_def nih_assert_def by simp
  qed
  show ?thesis
  proof (cases "r \<and> is_conf_file_std ?path")
    case False
    then show ?thesis using start s2 by auto
  next
    case True
    then obtain p where p: "toggle_conf_name ?path = Some p" "is_conf_file_override p" using toggled_override by blast
    obtain st s3 where c3: "call (\<lambda>n. cl_lstat lib n p) s2 = (st, s3)" by fastforce
    have s3: "conf_ok w strict N s3" "shape s3 = shape s" using conf_ok_call [OF c3] s2 by auto
    obtain source3 where get3: "get_source i s3 = Some source3" "cs_type source3 = cs_type source"
      using shape_get [OF s3(2) get] by blast
    have "\<exists>r s'. conf_reload_path lib w i ?path (Some p) s3 = Some (r, s') \<and> conf_ok w strict N s' \<and> shape s' = shape s3"
      by (rule conf_reload_path_inv [OF s3(1) get3(1) lib]) (use get3(2) type p in auto)
    then show ?thesis using start True p c3 s3 by auto
  qed
qed

lemma conf_source_reload_inv:
  assumes ok: "conf_ok w strict N s" and get: "get_source i s = Some source" and lib: "parser_ok lib" "files_fit strict lib" "walk_ok lib"
  shows "\<exists>r s'. conf_source_reload lib w i s = Some (r, s') \<and> conf_ok w strict N s' \<and> shape s' = shape s"
proof -
  let ?source = "source\<lparr>cs_flag := \<not> cs_flag source\<rparr>"
  let ?s = "put_source i ?source s"
  note s1 = conf_ok_put [OF ok get, of ?source, simplified]
  obtain r s2 where run: "(if cs_type source = CONF_FILE then conf_source_reload_file lib w i ?s
        else conf_source_reload_dir lib w i ?s) = Some (r, s2)" and s2: "conf_ok w strict N s2" "shape s2 = shape s"
    using conf_source_reload_file_inv [OF s1(1,3) _ lib(1,2)] conf_source_reload_dir_inv [OF s1(1,3) _ lib] s1(2)
    by (cases "cs_type source = CONF_FILE") auto
  obtain source2 where "get_source i s2 = Some source2" using shape_get [OF s2(2) get] by blast
  then obtain s3 where "delete_stale i s2 = Some s3" "conf_ok w strict N s3" "shape s3 = shape s"
    using delete_stale_inv [OF s2(1)] s2(2) by (auto simp: keeps_conf_def)
  then show ?thesis using get run by (simp add: conf_source_reload_def Let_def)
qed

lemma conf_reload_inv:
  assumes ok: "conf_ok w strict N s" and lib: "parser_ok lib" "files_fit strict lib" "walk_ok lib"
  shows "keeps_conf w strict N s (conf_reload lib w s)"
  unfolding conf_reload_def
proof (rule keeps_conf_foldM [OF ok])
  fix i s'
  assume i: "i \<in> set [0..<length (s_conf s)]" and s': "conf_ok w strict N s'" "shape s' = shape s"
  then obtain source where "get_source i s' = Some source" using shape_length [OF s'(2)] by (simp add: get_source_def)
  from conf_source_reload_inv [OF s'(1) this lib]
  show "keeps_conf w strict N s' (do { (_, s) \<leftarrow> conf_source_reload lib w i s'; Some s })" by (auto simp: keeps_conf_def)
qed

section \<open>The invariant of the daemon\<close>

text \<open>What is used of libnih and the kernel.\<close>

definition lib_ok :: "conf_lib \<Rightarrow> bool" where
  "lib_ok lib \<longleftrightarrow> parser_ok lib \<and> walk_ok lib"

text \<open>The paths that the watch of a source reports: those below a directory, and for a single file the
  file itself, which is no override file.\<close>

definition watched_path :: "nat \<Rightarrow> string \<Rightarrow> sys \<Rightarrow> bool" where
  "watched_path i path s \<longleftrightarrow>
     (case get_source i s of
        None \<Rightarrow> False
      | Some source \<Rightarrow> is_conf_file path \<longrightarrow>
          cs_type source = CONF_FILE \<and> \<not> is_conf_file_override path \<or> conf_to_job_name (cs_path source) path \<noteq> [])"

lemma watched_below:
  assumes "get_source i s = Some source" and "path = cs_path source @ ''/'' @ rest"
  shows "watched_path i path s"
  using assms job_name_there by (simp add: watched_path_def)

lemma is_conf_file_either: "is_conf_file path \<Longrightarrow> is_conf_file_override path \<longleftrightarrow> \<not> is_conf_file_std path"
  by (auto simp: is_conf_file_def is_conf_file_override_def is_conf_file_std_def IS_CONF_EXT_def IS_CONF_EXT_OVERRIDE_def
    IS_CONF_EXT_STD_def CONF_EXT_STD_def CONF_EXT_OVERRIDE_def split: option.splits)

lemma conf_ok_all: "conf_ok w strict UNIV s \<longleftrightarrow> sys_inv w {} s"
proof -
  have "settled_in strict {} UNIV s" by (rule settled_inI) (simp add: settled_but_def)
  then show ?thesis by (simp add: conf_ok_def)
qed

lemma keeps_conf_all: "keeps_conf w strict UNIV s r \<longleftrightarrow> (\<exists>s'. r = Some s' \<and> sys_inv w {} s' \<and> shape s' = shape s)"
  by (simp add: keeps_conf_def conf_ok_all)

lemma files_fit_any: "files_ok lib \<Longrightarrow> files_fit False lib"
  by (simp add: files_fit_def)

text \<open>The exempt classes of the invariant are those of \<^verbatim>\<open>conf_settled\<close>.\<close>

lemma conf_ok_settled: "conf_ok w strict {} s \<longleftrightarrow> sys_inv w {} s \<and> conf_settled strict s"
proof -
  have "settled_in strict {} {} s \<longleftrightarrow> conf_settled strict s" if inv: "sys_inv w {} s"
  proof
    assume "settled_in strict {} {} s"
    then obtain C where C: "strays strict C s" "settled_but C {} s" by (auto simp: settled_in_def)
    then have "c \<in> C \<Longrightarrow> \<not> strict \<and> c \<notin> set (s_sources s)" for c by (auto simp: strays_def)
    then show "conf_settled strict s"
      using C(2) unfolding settled_but_def conf_settled_def by (fastforce split: option.splits)
  next
    assume set: "conf_settled strict s"
    let ?C = "{c. \<not> strict \<and> c \<notin> set (s_sources s) \<and> c < s_next s}"
    have "c < s_next s" if "job_class_get_registered n s = Some c" for n c
    proof -
      have "c \<in> set (s_registered s)" using that by (auto simp: job_class_get_registered_def find_Some_iff)
      then show ?thesis using sys_inv_table [OF inv] sys_inv_conf(2) [OF inv, of c] by (auto simp: table_ok_def)
    qed
    then have "settled_but ?C {} s" using set unfolding settled_but_def conf_settled_def by (fastforce split: option.splits)
    moreover have "strays strict ?C s" by (simp add: strays_def)
    ultimately show "settled_in strict {} {} s" by (auto simp: settled_in_def)
  qed
  then show ?thesis by (auto simp: conf_ok_def)
qed

lemma conf_reload_sys:
  assumes "sys_inv w {} s" and "lib_ok lib" and "files_ok lib"
  shows "\<exists>s'. conf_reload lib w s = Some s' \<and> sys_inv w {} s' \<and> shape s' = shape s"
  using conf_reload_inv [of w False UNIV s lib] assms files_fit_any by (simp add: conf_ok_all keeps_conf_all lib_ok_def)

lemma conf_changed_sys:
  assumes "sys_inv w {} s" and "lib_ok lib" and "files_ok lib" and "watched_path i path s"
  shows "\<exists>s'. conf_create_modify_handler lib w i path statbuf s = Some s' \<and> sys_inv w {} s' \<and> shape s' = shape s"
proof -
  obtain source where get: "get_source i s = Some source" using assms(4) by (auto simp: watched_path_def split: option.splits)
  have name: "cs_type source = CONF_JOB_DIR \<or> \<not> is_conf_file_std path \<Longrightarrow> is_conf_file path \<Longrightarrow>
      conf_to_job_name (cs_path source) path \<noteq> []"
    using assms(4) get is_conf_file_either by (auto simp: watched_path_def)
  show ?thesis
    using conf_create_modify_handler_inv [of w False UNIV s i source lib path, OF _ get _ _ name] assms(1-3) files_fit_any
    by (simp add: conf_ok_all keeps_conf_all lib_ok_def)
qed

lemma conf_deleted_sys:
  assumes "sys_inv w {} s" and "lib_ok lib" and "files_ok lib" and "watched_path i path s"
  shows "\<exists>s'. conf_delete_handler lib w i watch_path path s = Some s' \<and> sys_inv w {} s' \<and> shape s' = shape s"
proof -
  obtain source where get: "get_source i s = Some source" using assms(4) by (auto simp: watched_path_def split: option.splits)
  have name: "is_conf_file_override path \<Longrightarrow> is_conf_file path \<Longrightarrow> conf_to_job_name (cs_path source) path \<noteq> []"
    using assms(4) get by (auto simp: watched_path_def)
  show ?thesis
    using conf_delete_handler_inv [of w False UNIV s i source lib path, OF _ get _ _ name] assms(1-3) files_fit_any
    by (simp add: conf_ok_all keeps_conf_all lib_ok_def)
qed

end
