(* ===== verification/ChildProps.thy ===== *)
theory ChildProps
  imports SysMethods
begin

text \<open>
  The set-up of a child: what happens when the pipe to it is closed, when it reports an error, and when it announces
  that it is ready. Each keeps the invariant of the daemon, as long as the error is one of the process that its job
  waits for, or the job is stopping already; \<open>post_stop_error_frees\<close> and \<open>security_error_stuck\<close> show what errors of the
  other two processes do.

  Also the start of the classes that waited for the cgroup manager.
\<close>

section \<open>One job\<close>

text \<open>A step of a job that has been started, put back into the store.\<close>

lemma duty_step:
  assumes inv: "sys_inv w X s" and job: "s_jobs s jid = Some job" and w: "os_ok w" and new: "j_state job \<noteq> JOB_WAITING"
    and step: "\<And>cls. on_duty w (others s jid) s cls job \<Longrightarrow> class_of s job = Some cls \<Longrightarrow>
      event_steady w (others s jid) cls s job (f s job) \<and> (\<forall>s' r. f s job = Some (s', r) \<longrightarrow> shifts job s s' r)"
  shows "\<exists>s'. with_job jid f s = Some s' \<and> sys_inv w X s'"
proof -
  obtain cls where cls: "s_classes s (j_class job) = Some cls" and ok: "job_ok (others s jid) s cls job"
    "placed (others s jid) s cls job" "between_calls job" "tracked w cls (j_state job) job" "j_id job = jid"
    using sys_inv_job [OF inv job w] by blast
  have duty: "on_duty w (others s jid) s cls job" using ok w new by (simp add: on_duty_def)
  have "class_of s job = Some cls" using cls by (simp add: class_of_def)
  from step [OF duty this] obtain s' r goal where run: "f s job = Some (s', r)"
    "steady w (others s jid) cls s (job\<lparr>j_goal := goal\<rparr>) s' r" and sh: "shifts job s s' r"
    by (auto simp: event_steady_def)
  have "shifts (job\<lparr>j_goal := goal\<rparr>) s s' r" by (rule shifts_cong [OF sh]) simp_all
  from job_step_shifts [OF inv job cls run(2) this] ok(5) have "sys_inv w X (put_job (s', r))" by simp
  then show ?thesis using run(1) job by (auto simp: with_job_def put_job_def split: option.splits)
qed

text \<open>A step that changes nothing but what the job knows of its children.\<close>

lemma aside_step:
  assumes inv: "sys_inv w X s" and job: "s_jobs s jid = Some job" and w: "os_ok w"
    and run: "f s job = Some (send out s, Some job')" and same: "same_phase job job'"
    and "j_stop_on job' = j_stop_on job" and "j_blocking job' = j_blocking job"
  shows "\<exists>s'. with_job jid f s = Some s' \<and> sys_inv w X s'"
proof -
  obtain cls where wk: "working w X cls s job s job" using working_start [OF inv job w] by blast
  have "sys_inv w X (set_job job' s)" by (rule working_done [OF inv working_job [OF wk same assms(6,7)]])
  moreover have "set_job job' (send out s) = send out (set_job job' s)" by (simp add: set_job_def send_def)
  ultimately show ?thesis using job run by (simp add: with_job_def)
qed

lemma send_nothing [simp]: "send [] s = s"
  by (simp add: send_def)

section \<open>The child is ready\<close>

lemma job_process_readyfd_reader_inv:
  assumes inv: "sys_inv w X s" and job: "s_jobs s jid = Some job" and w: "os_ok w"
  shows "\<exists>s'. with_job jid (job_process_readyfd_reader w buf) s = Some s' \<and> sys_inv w X s'"
proof (cases "j_state job = JOB_SPAWNED \<and> NL \<in> set buf")
  case True
  show ?thesis
  proof (rule duty_step [OF inv job w])
    fix cls
    assume duty: "on_duty w (others s jid) s cls job"
    have run: "job_process_readyfd_reader w buf s job = change_to_next w s job"
      using True by (simp add: job_process_readyfd_reader_def)
    have "event_steady w (others s jid) cls s job (change_to_next w s job)"
      by (rule moves [OF duty, of PROCESS_MAIN]) (use True in \<open>simp_all add: spawn_state_def\<close>)
    then show "event_steady w (others s jid) cls s job (job_process_readyfd_reader w buf s job) \<and>
        (\<forall>s' r. job_process_readyfd_reader w buf s job = Some (s', r) \<longrightarrow> shifts job s s' r)"
      using run change_to_next_shifts sys_inv_fresh [OF inv] by auto
  qed (use True in simp)
next
  case False
  then have "job_process_readyfd_reader w buf s job = Some (send [] s, Some job)"
    by (auto simp: job_process_readyfd_reader_def)
  then show ?thesis by (rule aside_step [OF inv job w]) (simp_all add: same_phase_def)
qed

section \<open>The child has been set up\<close>

lemma job_process_run_bottom_eq:
  "\<exists>out d. job_process_run_bottom process data s job = (send out s, job\<lparr>j_process_data := d\<rparr>)"
proof -
  have same: "(s, job) = (send [] s, job\<lparr>j_process_data := j_process_data job\<rparr>)" by simp
  show ?thesis
  proof (cases "pd_script data")
    case None
    then show ?thesis by (simp add: job_process_run_bottom_def) (use same in fast)
  next
    case (Some script)
    show ?thesis
    proof (cases "pd_shell data")
      case True
      then show ?thesis by (simp add: job_process_run_bottom_def Some) blast
    next
      case False
      then show ?thesis by (simp add: job_process_run_bottom_def Some) (use same in fast)
    qed
  qed
qed

lemma rest_states: "at_rest job \<Longrightarrow> j_state job \<notin> {JOB_SECURITY_SPAWNING, JOB_PRE_STARTING, JOB_SPAWNING,
    JOB_POST_STARTING, JOB_PRE_STOPPING, JOB_POST_STOPPING}"
  by (auto simp: at_rest_def)

lemma spawned_next_kept:
  assumes "change_to_next w s job = Some (s', r)" and "j_state job = JOB_SPAWNED"
  shows "r \<noteq> None"
proof -
  obtain st s1 job1 where "job_next_state s job = Some (st, s1, job1)" "job_change_state w st s1 job1 = Some (s', r)"
    using assms(1) by (auto simp: change_to_next_def elim!: bind_eq_Some_E)
  then show ?thesis using job_next_state_final [of s job st s1 job1] job_change_state_not_freed assms(2) by fastforce
qed

lemma close_handler_moves:
  assumes duty: "on_duty w R s cls job" and fresh: "fresh_ok s" and data: "j_process_data job PROCESS_MAIN = Some data"
    and valid: "pd_valid data" and st: "j_state job = JOB_SPAWNED" "c_expect cls = EXPECT_NONE" and cls: "class_of s job = Some cls"
  shows "event_steady w R cls s job (job_process_close_handler w PROCESS_MAIN s job) \<and>
    (\<forall>s' r. job_process_close_handler w PROCESS_MAIN s job = Some (s', r) \<longrightarrow> shifts job s s' r)"
proof -
  let ?data = "data\<lparr>pd_fd_open := False, pd_valid := False\<rparr>"
  let ?job = "job\<lparr>j_process_data := (j_process_data job)(PROCESS_MAIN \<mapsto> ?data)\<rparr>"
  obtain out d where bottom: "job_process_run_bottom PROCESS_MAIN ?data s ?job = (send out s, ?job\<lparr>j_process_data := d\<rparr>)"
    using job_process_run_bottom_eq by blast
  let ?job1 = "?job\<lparr>j_process_data := d\<rparr>"
  have "event_steady w R cls s job (change_to_next w (send out s) ?job1)"
    by (rule moves [OF duty, of PROCESS_MAIN]) (use st in \<open>simp_all add: spawn_state_def same_run_def\<close>)
  then obtain s' r goal where next1: "change_to_next w (send out s) ?job1 = Some (s', r)"
    "steady w R cls s (job\<lparr>j_goal := goal\<rparr>) s' r"
    by (auto simp: event_steady_def)
  obtain job' where r: "r = Some job'" using spawned_next_kept [OF next1(1)] st by auto
  have "at_rest job'" using next1(2) by (simp add: r steady_def settled_def)
  then have run: "job_process_close_handler w PROCESS_MAIN s job = Some (s', r)"
    using data valid st cls bottom next1(1) rest_states [of job'] by (simp add: job_process_close_handler_def Let_def r)
  have "fresh_ok (send out s)" using fresh by (simp add: fresh_ok_def send_def)
  from change_to_next_shifts [OF next1(1) this] have "shifts job s s' r" by (rule still_shifts [rotated 3]) simp_all
  then show ?thesis using event_steadyI [OF run next1(2)] run by simp
qed

lemma job_process_close_handler_inv:
  assumes inv: "sys_inv w X s" and job: "s_jobs s jid = Some job" and w: "os_ok w"
  shows "\<exists>s'. with_job jid (job_process_close_handler w process) s = Some s' \<and> sys_inv w X s'"
proof -
  obtain cls where cls: "s_classes s (j_class job) = Some cls" and between: "between_calls job"
    using sys_inv_job [OF inv job w] by blast
  then have of_job: "class_of s job = Some cls" by (simp add: class_of_def)
  show ?thesis
  proof (cases "j_process_data job process = None \<or> \<not> pd_valid (the (j_process_data job process))")
    case True
    then have "job_process_close_handler w process s job = Some (send [] s, Some job)"
      by (auto simp: job_process_close_handler_def split: option.split)
    then show ?thesis by (rule aside_step [OF inv job w]) (simp_all add: same_phase_def)
  next
    case False
    then obtain data where data: "j_process_data job process = Some data" "pd_valid data" by auto
    show ?thesis
    proof (cases "j_state job = JOB_SPAWNED \<and> c_expect cls = EXPECT_NONE \<and> process = PROCESS_MAIN")
      case True
      show ?thesis
        by (rule duty_step [OF inv job w])
          (use True data of_job close_handler_moves [OF _ sys_inv_fresh [OF inv], of w] in auto)
    next
      case other: False
      let ?data = "data\<lparr>pd_fd_open := False, pd_valid := False\<rparr>"
      let ?job = "job\<lparr>j_process_data := (j_process_data job)(process \<mapsto> ?data)\<rparr>"
      obtain out d where bottom: "job_process_run_bottom process ?data s ?job = (send out s, ?job\<lparr>j_process_data := d\<rparr>)"
        using job_process_run_bottom_eq by blast
      have "j_state job \<notin> {JOB_SECURITY_SPAWNING, JOB_PRE_STARTING, JOB_SPAWNING, JOB_POST_STARTING, JOB_PRE_STOPPING,
          JOB_POST_STOPPING}"
        using between rest_states [of job] by (auto simp: between_calls_def)
      then have "job_process_close_handler w process s job = Some (send out s, Some (?job\<lparr>j_process_data := d\<rparr>))"
        using data of_job bottom other by (auto simp: job_process_close_handler_def Let_def)
      then show ?thesis by (rule aside_step [OF inv job w]) (simp_all add: same_phase_def)
    qed
  qed
qed

section \<open>The child could not be set up\<close>

text \<open>The process is the one that its job waits for, or a post-start process whose end has already been handled.\<close>

definition awaited :: "ProcessType \<Rightarrow> Job \<Rightarrow> bool" where
  "awaited process job \<longleftrightarrow>
     (process, j_state job) \<in> {(PROCESS_PRE_START, JOB_PRE_START), (PROCESS_MAIN, JOB_SPAWNED),
       (PROCESS_POST_START, JOB_POST_START), (PROCESS_POST_START, JOB_RUNNING), (PROCESS_PRE_STOP, JOB_PRE_STOP)}"

text \<open>The job is stopping already, for instance because the end of the process was handled before its error.\<close>

definition stopping_already :: "ProcessType \<Rightarrow> Job \<Rightarrow> bool" where
  "stopping_already process job \<longleftrightarrow> j_state job = JOB_STOPPING \<and>
     process \<in> {PROCESS_PRE_START, PROCESS_MAIN, PROCESS_POST_START, PROCESS_PRE_STOP}"

lemma job_next_state_data: "job_next_state s job = Some (st, s', job') \<Longrightarrow> j_process_data job' = j_process_data job"
  by (auto simp: job_next_state_def set_goal_def split: JobState.splits JobGoal.splits if_splits elim!: bind_eq_Some_E)

lemma job_change_state_data:
  assumes "job_change_state w st s job = Some (s', Some job')" and "st \<in> {JOB_STOPPING, JOB_RUNNING}"
  shows "j_process_data job' = j_process_data job"
proof (cases "j_state job = st \<or> j_blocker job \<noteq> None")
  case True
  then show ?thesis using assms by (subst (asm) job_change_state.simps) (auto split: if_splits)
next
  case False
  then obtain st' s1 job1 where ent: "enter_state w st s job = Some (st', s1, Some job1)"
    and run: "job_change_state w st' s1 job1 = Some (s', Some job')"
    using assms(1) by (subst (asm) job_change_state.simps) (auto split: option.splits elim!: bind_eq_Some_E)
  have "st' = st \<and> j_state job1 = st"
    using ent assms(2) by (auto simp: enter_state_def enter_action_def Let_def dest!: enter_fixed_state
      elim!: bind_eq_Some_E)
  then have "job' = job1" using run by (subst (asm) job_change_state.simps) simp
  moreover have "j_process_data job1 = j_process_data job"
    using ent assms(2) by (auto simp: enter_state_def enter_action_def enter_running_def enter_stopping_def
      job_finished_def Let_def split: option.splits if_splits elim!: bind_eq_Some_E)
  ultimately show ?thesis by simp
qed

lemma awaited_free:
  assumes "awaited process job" and "between_calls job"
  shows "j_blocker job = None \<and> quiet job"
proof -
  have "at_rest job" and "j_state job \<notin> {JOB_STARTING, JOB_STOPPING, JOB_KILLED}"
    using assms by (auto simp: awaited_def between_calls_def)
  then show ?thesis by (simp add: at_rest_def)
qed

lemma awaited_movable:
  assumes aw: "awaited process job" and between: "between_calls job" and st: "j_state job1 = j_state job"
    and free: "j_blocker job1 = None" "quiet job1"
    and goal: "j_goal job1 = (if process \<in> {PROCESS_PRE_START, PROCESS_MAIN} then JOB_STOP else j_goal job)"
  shows "movable job1"
proof -
  have "j_goal job1 = JOB_RESPAWN \<Longrightarrow> j_state job \<in> {JOB_POST_START, JOB_PRE_STOP}"
    using between goal by (simp add: between_calls_def split: if_splits)
  moreover have "j_state job \<in> {JOB_PRE_START, JOB_SPAWNED, JOB_POST_START, JOB_RUNNING, JOB_PRE_STOP}"
    using aw by (auto simp: awaited_def)
  ultimately show ?thesis using free st by (auto simp: movable_def)
qed

text \<open>What the handler does before it goes on to the next state.\<close>

definition failed_over :: "(nat \<Rightarrow> nat) \<Rightarrow> JobClass \<Rightarrow> ProcessType \<Rightarrow> sys \<Rightarrow> Job \<Rightarrow> sys \<Rightarrow> Job \<Rightarrow> bool" where
  "failed_over R cls process s job s1 job1 \<longleftrightarrow> calm s s1 \<and> job_ok R s1 cls job1 \<and> shifts job s s1 (Some job1) \<and>
     j_class job1 = j_class job \<and> j_state job1 = j_state job \<and> j_pid job1 = (j_pid job)(process := 0) \<and>
     j_blocker job1 = None \<and> quiet job1 \<and> j_process_data job1 = j_process_data job \<and>
     j_goal job1 = (if process \<in> {PROCESS_PRE_START, PROCESS_MAIN} then JOB_STOP else j_goal job)"

lemma fail_and_stop_run:
  assumes ok: "job_ok R s cls job" and st: "j_state job \<noteq> JOB_RUNNING"
  obtains s1 job1 where "(do { (s, job) \<leftarrow> job_failed process (-1) s job; job_change_goal w JOB_STOP s job }) =
      Some (s1, Some (job1\<lparr>j_goal := JOB_STOP\<rparr>))"
    and "calm s s1" and "job_ok R s1 cls (job1\<lparr>j_goal := JOB_STOP\<rparr>)" and "shifts job s s1 (Some (job1\<lparr>j_goal := JOB_STOP\<rparr>))"
    and "same_run job job1" and "j_process_data job1 = j_process_data job"
proof -
  obtain s1 job1 where f: "job_failed process (-1) s job = Some (s1, job1)" "calm s s1" "job_ok R s1 cls job1"
    "same_run job job1" "j_process_data job1 = j_process_data job"
    using job_failed_ok [OF ok, of process "-1"] by (fastforce simp: same_run_def)
  obtain s2 where s2: "job_change_goal w JOB_STOP s1 job1 = Some (s2, Some (job1\<lparr>j_goal := JOB_STOP\<rparr>))" "tame s1 s2"
  proof (cases "j_goal job1 = JOB_STOP")
    case True
    then have "job_change_goal w JOB_STOP s1 job1 = Some (s1, Some (job1\<lparr>j_goal := JOB_STOP\<rparr>))"
      by (simp add: job_change_goal_def)
    then show ?thesis using that tame_refl by blast
  next
    case False
    moreover obtain s2 where "set_goal JOB_STOP s1 job1 = (s2, job1\<lparr>j_goal := JOB_STOP\<rparr>)" "tame s1 s2"
      using False by (simp add: set_goal_def)
    ultimately show ?thesis using that st f(4) by (simp add: job_change_goal_def same_run_def)
  qed
  have fresh: "fresh_ok s" "fresh_ok s1" using ok f(3) by (simp_all add: job_ok_def)
  have "shifts job s s2 (Some (job1\<lparr>j_goal := JOB_STOP\<rparr>))"
    using shifts_trans [OF job_failed_shifts [OF f(1)] job_change_goal_shifts [OF s2(1) fresh(2)]] .
  moreover have "calm s s2" using f(2) s2(2) calm_trans by (auto simp: tame_def)
  moreover have "job_ok R s2 cls (job1\<lparr>j_goal := JOB_STOP\<rparr>)" by (rule job_ok_tame [OF f(3) s2(2)]) simp_all
  ultimately show ?thesis using that [of s2 job1] f(1,4,5) s2(1) by simp
qed

lemma job_child_error_handler_run:
  assumes duty: "on_duty w R s cls job" and aw: "awaited process job"
  obtains s1 job1 where "job_child_error_handler w process s job = change_to_next w s1 job1"
    and "failed_over R cls process s job s1 job1"
proof -
  note d = on_dutyD [OF duty]
  let ?job = "job\<lparr>j_pid := (j_pid job)(process := 0)\<rparr>"
  have ok: "job_ok R s cls ?job" by (rule job_ok_tame [OF d(1) tame_refl]) simp_all
  have st: "j_blocker job = None" "quiet job" using awaited_free [OF aw d(4)] by blast+
  have sh: "shifts ?job s s1 r \<Longrightarrow> shifts job s s1 r" for s1 r by (erule shifts_cong) simp_all
  show ?thesis
  proof (cases "process \<in> {PROCESS_PRE_START, PROCESS_MAIN}")
    case True
    obtain s1 job1 where f: "(do { (s, job) \<leftarrow> job_failed process (-1) s ?job; job_change_goal w JOB_STOP s job }) =
        Some (s1, Some (job1\<lparr>j_goal := JOB_STOP\<rparr>))" "calm s s1" "job_ok R s1 cls (job1\<lparr>j_goal := JOB_STOP\<rparr>)"
      "shifts ?job s s1 (Some (job1\<lparr>j_goal := JOB_STOP\<rparr>))" "same_run ?job job1" "j_process_data job1 = j_process_data ?job"
    proof -
      have "j_state ?job \<noteq> JOB_RUNNING" using aw True by (auto simp: awaited_def)
      from fail_and_stop_run [OF ok this, of process w] that show ?thesis by blast
    qed
    have "job_child_error_handler w process s job = change_to_next w s1 (job1\<lparr>j_goal := JOB_STOP\<rparr>)"
    proof -
      have "job_child_error_handler w process s job = on_job (change_to_next w)
          (do { (s, job) \<leftarrow> job_failed process (-1) s ?job; job_change_goal w JOB_STOP s job })"
        using True by (auto simp: job_child_error_handler_def)
      then show ?thesis unfolding f(1) by (simp add: on_job_def)
    qed
    moreover have "failed_over R cls process s job s1 (job1\<lparr>j_goal := JOB_STOP\<rparr>)"
      using True f(2-6) st sh by (auto simp: failed_over_def same_run_def quiet_def)
    ultimately show ?thesis using that by blast
  next
    case False
    then have "job_child_error_handler w process s job = change_to_next w s ?job"
      using aw by (auto simp: job_child_error_handler_def awaited_def)
    moreover have "failed_over R cls process s job s ?job"
      using False ok st sh by (simp add: failed_over_def quiet_def)
    ultimately show ?thesis using that by blast
  qed
qed

lemma failed_over_next:
  assumes duty: "on_duty w R s cls job" and aw: "awaited process job" and fo: "failed_over R cls process s job s1 job1"
  obtains s' job' goal where "change_to_next w s1 job1 = Some (s', Some job')"
    and "steady w R cls s (job\<lparr>j_goal := goal\<rparr>) s' (Some job')" and "shifts job s s' (Some job')"
    and "j_process_data job' = j_process_data job"
proof -
  note d = on_dutyD [OF duty]
  have f: "calm s s1" "job_ok R s1 cls job1" "shifts job s s1 (Some job1)" "j_class job1 = j_class job"
    "j_state job1 = j_state job" "j_pid job1 = (j_pid job)(process := 0)" "j_blocker job1 = None" "quiet job1"
    "j_process_data job1 = j_process_data job"
    "j_goal job1 = (if process \<in> {PROCESS_PRE_START, PROCESS_MAIN} then JOB_STOP else j_goal job)"
    using fo by (auto simp: failed_over_def)
  have id: "j_id job1 = j_id job" using f(3) by (simp add: shifts_def)
  have placed1: "placed R s1 cls job1" using d(2) placed_calm [OF f(1,4)] by simp
  have "tracked w cls (j_state job1) job1" using d(5) f(5,6) by (simp add: tracked_def)
  moreover have "movable job1" using awaited_movable [OF aw d(4) f(5,7,8,10)] .
  moreover have "unheld job1" using aw f(5,6) by (auto simp: unheld_def awaited_def)
  ultimately obtain s' r where run: "change_to_next w s1 job1 = Some (s', r)"
    "steady w R cls s1 (job1\<lparr>j_goal := effective_goal (j_goal job1)\<rparr>) s' r"
    using change_to_next_steady [OF f(2) placed1 d(3)] by blast
  obtain st s2 job2 where st: "job_next_state s1 job1 = Some (st, s2, job2)" "job_change_state w st s2 job2 = Some (s', r)"
    using run(1) by (auto simp: change_to_next_def elim!: bind_eq_Some_E)
  have "st \<in> {JOB_STOPPING, JOB_RUNNING}"
    using st(1) aw f(5,10) d(4) by (auto simp: job_next_state_def awaited_def between_calls_def split: JobGoal.splits if_splits elim!: bind_eq_Some_E)
  then obtain job' where r: "r = Some job'" using job_change_state_not_freed [OF st(2)] by auto
  have "j_process_data job' = j_process_data job"
    using job_change_state_data [of w st s2 job2 s' job'] st(2) job_next_state_data [OF st(1)] f(9) \<open>st \<in> _\<close> by (simp add: r)
  moreover have "steady w R cls s (job\<lparr>j_goal := effective_goal (j_goal job1)\<rparr>) s' (Some job')"
    by (rule steady_calm [OF f(1) run(2) [unfolded r]]) (use id f(4) in simp_all)
  moreover have "shifts job s s' (Some job')"
    using shifts_trans [OF f(3) change_to_next_shifts [OF run(1) [unfolded r]]] f(2) by (simp add: job_ok_def)
  ultimately show ?thesis using that run(1) by (simp add: r)
qed

lemma steady_data:
  assumes "steady w R cls s job s' (Some job')"
  shows "steady w R cls s job s' (Some (job'\<lparr>j_process_data := d\<rparr>))"
proof -
  let ?job = "job'\<lparr>j_process_data := d\<rparr>"
  have st: "calm s s'" "job_ok R s' cls job'" "at_rest job'" "between_calls job'" "tracked w cls (j_state job') job'"
    "j_id job' = j_id job" "j_class job' = j_class job" "j_goal job' = j_goal job"
    using assms by (auto simp: steady_def settled_def)
  have same: "same_run job' ?job" by (simp add: same_run_def)
  have "job_ok R s' cls ?job" by (rule job_ok_tame [OF st(2) tame_refl]) simp_all
  moreover have between: "between_calls ?job" by (rule same_run_between [OF same st(4)])
  moreover have "at_rest ?job" using between at_rest_not_waiting [OF st(3)] by (auto simp: between_calls_def)
  moreover have "tracked w cls (j_state ?job) ?job" using st(5) by (simp add: tracked_def)
  ultimately show ?thesis using st by (simp add: steady_def settled_def)
qed

text \<open>The error of a process whose job is stopping changes neither its state nor what blocks it.\<close>

lemma stopping_steady:
  assumes duty: "on_duty w R s cls job" and st: "j_state job = JOB_STOPPING" and calm: "calm s s1" and ok: "job_ok R s1 cls job1"
    and same: "same_run (job\<lparr>j_pid := (j_pid job)(process := 0)\<rparr>) (job1\<lparr>j_goal := j_goal job\<rparr>)" and goal: "j_goal job1 \<noteq> JOB_RESPAWN"
  shows "steady w R cls s (job\<lparr>j_goal := j_goal job1\<rparr>) s1 (Some job1)"
proof -
  note d = on_dutyD [OF duty]
  have rest: "at_rest job1" "between_calls job1"
    using d(4) st same goal by (auto simp: same_run_def between_calls_def at_rest_def quiet_def)
  have "tracked w cls (j_state job1) job1" using d(5) st same by (auto simp: same_run_def tracked_def)
  then show ?thesis using rest ok calm same by (simp add: steady_def settled_def same_run_def)
qed

lemma stopping_handler_run:
  assumes duty: "on_duty w R s cls job" and st: "stopping_already process job"
  obtains s' job' goal where "job_child_error_handler w process s job = Some (s', Some job')"
    and "steady w R cls s (job\<lparr>j_goal := goal\<rparr>) s' (Some job')" and "shifts job s s' (Some job')"
    and "j_process_data job' = j_process_data job"
proof -
  note d = on_dutyD [OF duty]
  let ?job = "job\<lparr>j_pid := (j_pid job)(process := 0)\<rparr>"
  have state: "j_state job = JOB_STOPPING" "j_blocker job \<noteq> None" "j_goal job \<noteq> JOB_RESPAWN"
    using st d(4) by (auto simp: stopping_already_def between_calls_def at_rest_def)
  have ok: "job_ok R s cls ?job" by (rule job_ok_tame [OF d(1) tame_refl]) simp_all
  have sh: "shifts ?job s s1 r \<Longrightarrow> shifts job s s1 r" for s1 r by (erule shifts_cong) simp_all
  show ?thesis
  proof (cases "process \<in> {PROCESS_PRE_START, PROCESS_MAIN}")
    case True
    have "j_state ?job \<noteq> JOB_RUNNING" using state by simp
    from fail_and_stop_run [OF ok this, of process w] obtain s1 job1 where
      f: "(do { (s, job) \<leftarrow> job_failed process (-1) s ?job; job_change_goal w JOB_STOP s job }) =
          Some (s1, Some (job1\<lparr>j_goal := JOB_STOP\<rparr>))" "calm s s1" "job_ok R s1 cls (job1\<lparr>j_goal := JOB_STOP\<rparr>)"
        "shifts ?job s s1 (Some (job1\<lparr>j_goal := JOB_STOP\<rparr>))" "same_run ?job job1" "j_process_data job1 = j_process_data ?job"
      by blast
    have "change_to_next w s1 (job1\<lparr>j_goal := JOB_STOP\<rparr>) = Some (s1, Some (job1\<lparr>j_goal := JOB_STOP\<rparr>))"
      by (rule change_to_next_blocked) (use f(5) state in \<open>simp_all add: same_run_def\<close>)
    moreover have "job_child_error_handler w process s job = on_job (change_to_next w)
        (do { (s, job) \<leftarrow> job_failed process (-1) s ?job; job_change_goal w JOB_STOP s job })"
      using True by (auto simp: job_child_error_handler_def)
    ultimately have run: "job_child_error_handler w process s job = Some (s1, Some (job1\<lparr>j_goal := JOB_STOP\<rparr>))"
      unfolding f(1) by (simp add: on_job_def)
    have "steady w R cls s (job\<lparr>j_goal := j_goal (job1\<lparr>j_goal := JOB_STOP\<rparr>)\<rparr>) s1 (Some (job1\<lparr>j_goal := JOB_STOP\<rparr>))"
      by (rule stopping_steady [OF duty state(1) f(2,3)]) (use f(5) in \<open>simp_all add: same_run_def\<close>)
    then show ?thesis using that [OF run _ sh [OF f(4)]] f(6) by simp
  next
    case False
    have "change_to_next w s ?job = Some (s, Some ?job)" by (rule change_to_next_blocked) (use state in simp_all)
    then have run: "job_child_error_handler w process s job = Some (s, Some ?job)"
      using False st by (auto simp: job_child_error_handler_def stopping_already_def)
    have "steady w R cls s (job\<lparr>j_goal := j_goal ?job\<rparr>) s (Some ?job)"
      by (rule stopping_steady [OF duty state(1) calm_refl ok, where process = process]) (use state in simp_all)
    from that [OF run this sh [OF shifts_refl]] show ?thesis by simp
  qed
qed

text \<open>The handler of an error in time.\<close>

lemma timely_handler_run:
  assumes duty: "on_duty w R s cls job" and "awaited process job \<or> stopping_already process job"
  obtains s' job' goal where "job_child_error_handler w process s job = Some (s', Some job')"
    and "steady w R cls s (job\<lparr>j_goal := goal\<rparr>) s' (Some job')" and "shifts job s s' (Some job')"
    and "j_process_data job' = j_process_data job"
  using assms(2)
proof
  assume aw: "awaited process job"
  obtain s1 job1 where err: "job_child_error_handler w process s job = change_to_next w s1 job1"
    "failed_over R cls process s job s1 job1"
    using job_child_error_handler_run [OF duty aw] by blast
  show ?thesis using failed_over_next [OF duty aw err(2)] that unfolding err(1) by blast
next
  assume "stopping_already process job"
  then show ?thesis using stopping_handler_run [OF duty] that by blast
qed

lemma child_reader_moves:
  assumes duty: "on_duty w R s cls job" and aw: "awaited process job \<or> stopping_already process job"
    and data: "j_process_data job process = Some data" and valid: "pd_valid data"
  shows "event_steady w R cls s job (job_process_child_reader w process False s job) \<and>
    (\<forall>s' r. job_process_child_reader w process False s job = Some (s', r) \<longrightarrow> shifts job s s' r)"
proof -
  let ?job = "job\<lparr>j_process_data := (j_process_data job)(process \<mapsto> data\<lparr>pd_shell := False\<rparr>)\<rparr>"
  have "job_ok R s cls ?job" by (rule job_ok_tame [OF on_dutyD(1) [OF duty] tame_refl]) simp_all
  moreover have "between_calls ?job" by (rule same_run_between [OF _ on_dutyD(4) [OF duty]]) (simp add: same_run_def)
  ultimately have duty1: "on_duty w R s cls ?job"
    using on_dutyD [OF duty] by (simp add: on_duty_def placed_def tracked_def)
  have "awaited process ?job \<or> stopping_already process ?job" using aw by (simp add: awaited_def stopping_already_def)
  from timely_handler_run [OF duty1 this] obtain s' job' goal where
    go: "job_child_error_handler w process s ?job = Some (s', Some job')"
      "steady w R cls s (?job\<lparr>j_goal := goal\<rparr>) s' (Some job')" "shifts ?job s s' (Some job')"
      "j_process_data job' = j_process_data ?job" by blast
  obtain d where run: "job_process_child_reader w process False s job = Some (s', Some (job'\<lparr>j_process_data := d\<rparr>))"
    using data valid go(1,4) by (simp add: job_process_child_reader_def)
  have "steady w R cls s (job\<lparr>j_goal := goal\<rparr>) s' (Some (job'\<lparr>j_process_data := d\<rparr>))"
    by (rule steady_data [OF steady_goal [OF go(2)]]) simp_all
  moreover have "shifts job s s' (Some (job'\<lparr>j_process_data := d\<rparr>))"
    using go(3) by (simp add: shifts_def)
  ultimately show ?thesis using event_steadyI [OF run] run by simp
qed

lemma job_process_child_reader_inv:
  assumes inv: "sys_inv w X s" and job: "s_jobs s jid = Some job" and w: "os_ok w"
    and ok: "\<And>data. j_process_data job process = Some data \<Longrightarrow> pd_valid data \<Longrightarrow> \<not> temporary \<Longrightarrow>
      awaited process job \<or> stopping_already process job"
  shows "\<exists>s'. with_job jid (job_process_child_reader w process temporary) s = Some s' \<and> sys_inv w X s'"
proof (cases "\<exists>data. j_process_data job process = Some data \<and> pd_valid data \<and> \<not> temporary")
  case True
  then obtain data where data: "j_process_data job process = Some data" "pd_valid data" "\<not> temporary" by blast
  note aw = ok [OF data]
  have "temporary = False" using data(3) by simp
  moreover have "j_state job \<noteq> JOB_WAITING" using aw by (auto simp: awaited_def stopping_already_def)
  ultimately show ?thesis
    using duty_step [OF inv job w, of "job_process_child_reader w process False"] child_reader_moves [OF _ aw data(1,2)]
    by simp
next
  case False
  then have "job_process_child_reader w process temporary s job = Some (send [] s, Some job)"
    by (auto simp: job_process_child_reader_def split: option.split)
  then show ?thesis by (rule aside_step [OF inv job w]) (simp_all add: same_phase_def)
qed

text \<open>The other process whose end its job waits for is the post-stop process: there the job is gone when the
  handler returns.\<close>

lemma post_stop_error_handler:
  assumes duty: "on_duty w R s cls job" and st: "j_state job = JOB_POST_STOP"
  obtains s' where "job_child_error_handler w PROCESS_POST_STOP s job = Some (s', None)"
proof -
  note d = on_dutyD [OF duty]
  let ?job = "job\<lparr>j_pid := (j_pid job)(PROCESS_POST_STOP := 0)\<rparr>"
  have ok: "job_ok R s cls ?job" by (rule job_ok_tame [OF d(1) tame_refl]) simp_all
  have "j_state ?job \<noteq> JOB_RUNNING" using st by simp
  from fail_and_stop_run [OF ok this, of PROCESS_POST_STOP w] obtain s1 job1 where
    f: "(do { (s, job) \<leftarrow> job_failed PROCESS_POST_STOP (-1) s ?job; job_change_goal w JOB_STOP s job }) =
        Some (s1, Some (job1\<lparr>j_goal := JOB_STOP\<rparr>))" "calm s s1" "job_ok R s1 cls (job1\<lparr>j_goal := JOB_STOP\<rparr>)"
      "same_run ?job job1" by blast
  let ?job1 = "job1\<lparr>j_goal := JOB_STOP\<rparr>"
  have err: "job_child_error_handler w PROCESS_POST_STOP s job = change_to_next w s1 ?job1"
  proof -
    have "job_child_error_handler w PROCESS_POST_STOP s job = on_job (change_to_next w)
        (do { (s, job) \<leftarrow> job_failed PROCESS_POST_STOP (-1) s ?job; job_change_goal w JOB_STOP s job })"
      by (simp add: job_child_error_handler_def)
    then show ?thesis unfolding f(1) by (simp add: on_job_def)
  qed
  have same: "j_state job1 = JOB_POST_STOP" "j_blocker job1 = None" "quiet job1" "j_class job1 = j_class job"
    "j_pid job1 = (j_pid job)(PROCESS_POST_STOP := 0)"
    using f(4) st d(4) by (auto simp: same_run_def quiet_def between_calls_def at_rest_def)
  have placed1: "placed R s1 cls ?job1" using d(2) placed_calm [OF f(2)] same(4) by simp
  have "tracked w cls (j_state ?job1) ?job1" using d(5) same(1,5) st by (auto simp: tracked_def)
  moreover have "movable ?job1" using same(1-3) by (simp add: movable_def quiet_def)
  moreover have "unheld ?job1" using same(1,5) by (simp add: unheld_def)
  ultimately obtain s' r where run: "change_to_next w s1 ?job1 = Some (s', r)"
    using change_to_next_steady [OF f(3) placed1 d(3)] by blast
  have "job_next_state s1 ?job1 = Some (JOB_WAITING, s1, ?job1)" using same(1) by (simp add: job_next_state_def)
  then have "job_change_state w JOB_WAITING s1 ?job1 = Some (s', r)" using run by (simp add: change_to_next_def)
  then have "r = None" using same(1,2)
    by (subst (asm) job_change_state.simps) (auto simp: enter_state_def enter_action_def Let_def elim!: bind_eq_Some_E)
  then show ?thesis using that err run by simp
qed

text \<open>C37: when the child that was to become the post-stop process of a job reports that it could not be set up,
  the handler of the error frees the job, and \<^verbatim>\<open>job_process_child_reader\<close> then goes on to write to the process
  data, which was freed with the job: an error in the set-up of a post-stop process is a use after free.\<close>

theorem post_stop_error_frees:
  assumes duty: "on_duty w R s cls job" and st: "j_state job = JOB_POST_STOP"
    and data: "j_process_data job PROCESS_POST_STOP = Some data" and valid: "pd_valid data"
  shows "(\<forall>d. \<exists>s'. job_child_error_handler w PROCESS_POST_STOP s (job\<lparr>j_process_data := d\<rparr>) = Some (s', None)) \<and>
    job_process_child_reader w PROCESS_POST_STOP False s job = None"
proof -
  have freed: "\<exists>s'. job_child_error_handler w PROCESS_POST_STOP s (job\<lparr>j_process_data := d\<rparr>) = Some (s', None)" for d
  proof -
    let ?job = "job\<lparr>j_process_data := d\<rparr>"
    have "job_ok R s cls ?job" by (rule job_ok_tame [OF on_dutyD(1) [OF duty] tame_refl]) simp_all
    moreover have "between_calls ?job" by (rule same_run_between [OF _ on_dutyD(4) [OF duty]]) (simp add: same_run_def)
    ultimately have "on_duty w R s cls ?job" using on_dutyD [OF duty] by (simp add: on_duty_def placed_def tracked_def)
    then show ?thesis using post_stop_error_handler [of w R s cls ?job] st by simp metis
  qed
  obtain s' where "job_child_error_handler w PROCESS_POST_STOP s (job\<lparr>j_process_data :=
      (j_process_data job)(PROCESS_POST_STOP \<mapsto> data\<lparr>pd_shell := False\<rparr>)\<rparr>) = Some (s', None)"
    using freed by blast
  then have "job_process_child_reader w PROCESS_POST_STOP False s job = None"
    using data valid by (simp add: job_process_child_reader_def)
  then show ?thesis using freed by simp
qed

definition sample_post_stop :: Job where
  "sample_post_stop = (sample_job JOB_STOP JOB_POST_STOP)\<lparr>j_pid := (\<lambda>_. 0)(PROCESS_POST_STOP := 42),
     j_process_data := [PROCESS_POST_STOP \<mapsto> job_process_data_new]\<rparr>"

definition sample_cleaner :: JobClass where
  "sample_cleaner = sample_main\<lparr>c_process := [PROCESS_POST_STOP \<mapsto> \<lparr>p_script = False, p_command = Some ''clean''\<rparr>]\<rparr>"

theorem post_stop_error_frees_witness:
  "job_process_child_reader sample_os PROCESS_POST_STOP False (sample_state\<lparr>s_classes := [1 \<mapsto> sample_cleaner]\<rparr>)
     sample_post_stop = None"
proof -
  have "on_duty sample_os (\<lambda>_. 0) (sample_state\<lparr>s_classes := [1 \<mapsto> sample_cleaner]\<rparr>) sample_cleaner sample_post_stop"
    using sample_os_ok
    by (auto simp: on_duty_def job_ok_def placed_def sample_state_def sample_sys_def sample_post_stop_def sample_job_def
      sample_cleaner_def sample_main_def sample_class_def job_class_new_def class_of_def class_ok_def cond_ok_def
      blocking_ok_def fresh_ok_def sys_init_def event_ids_def counted_def blockers_of_def job_refs_def cond_refs_def
      blocked_refs_def JOB_DEFAULT_KILL_TIMEOUT_def table_ok_def class_name_def class_refs_def between_calls_def
      at_rest_def quiet_def tracked_def wanted_def has_process_def split: if_splits)
  moreover have "j_state sample_post_stop = JOB_POST_STOP" by (simp add: sample_post_stop_def)
  moreover have "j_process_data sample_post_stop PROCESS_POST_STOP = Some job_process_data_new"
    by (simp add: sample_post_stop_def)
  moreover have "pd_valid job_process_data_new" by (simp add: job_process_data_new_def)
  ultimately show ?thesis using post_stop_error_frees by blast
qed

section \<open>The cgroup manager arrives\<close>

text \<open>The start condition of every class that waits for the cgroup manager holds.\<close>

definition waiting_hold :: "sys \<Rightarrow> bool" where
  "waiting_hold s \<longleftrightarrow>
     (\<forall>cid\<in>set (s_registered s).
        case s_classes s cid of
          None \<Rightarrow> True
        | Some cls \<Rightarrow> (case c_start_on cls of None \<Rightarrow> True | Some t \<Rightarrow> c_cgmanager_wait cls \<longrightarrow> oper_value t))"

lemma set_cgmanager_wait_frame: "set_cgmanager_wait b cid s = Some s' \<Longrightarrow> c \<noteq> cid \<Longrightarrow> s_classes s' c = s_classes s c"
  by (auto simp: set_cgmanager_wait_def set_class_def elim!: bind_eq_Some_E)

lemma induct_waiting_inv:
  assumes inv: "sys_inv w X s" and cls: "s_classes s cid = Some cls" and reg: "cid \<in> set (s_registered s)" and w: "os_ok w"
    and holds: "\<And>t. c_start_on cls = Some t \<Longrightarrow> c_cgmanager_wait cls \<Longrightarrow> oper_value t"
  shows "\<exists>ok s'. induct_waiting w cid (b, s) = Some (ok, s') \<and> sys_inv w X s' \<and> advances s s' \<and>
    (\<forall>c. c \<noteq> cid \<longrightarrow> s_classes s' c = s_classes s c)"
proof (cases "c_start_on cls = None \<or> \<not> c_cgmanager_wait cls")
  case True
  then show ?thesis using inv cls by (auto simp: induct_waiting_def split: option.splits)
next
  case False
  then obtain t where t: "c_start_on cls = Some t" "c_cgmanager_wait cls" by auto
  obtain ok s1 where 1: "job_class_induct_job w cid s = Some (ok, s1)" "sys_inv w X s1" "advances s s1"
    "\<forall>c. c \<noteq> cid \<longrightarrow> s_classes s1 c = s_classes s c"
    using job_class_induct_job_inv [OF inv cls t(1) reg w] by blast
  obtain cls1 where "s_classes s1 cid = Some cls1" using advances_class [OF 1(3) cls] by blast
  then obtain s2 where 2: "reset_start_on cid s1 = Some s2" "sys_inv w X s2" "advances s1 s2"
    using reset_start_on_inv [OF 1(2)] by blast
  obtain cls2 where cls2: "s_classes s2 cid = Some cls2" using advances_class [OF 2(3)] \<open>s_classes s1 cid = _\<close> by blast
  then obtain s3 where 3: "set_cgmanager_wait False cid s2 = Some s3" "sys_inv w X s3" "advances s2 s3"
    using set_cgmanager_wait_inv [OF 2(2)] by blast
  have "induct_waiting w cid (b, s) = Some (b \<and> ok, s3)"
    using cls t holds [OF t] 1(1) 2(1) 3(1) cls2 by (simp add: induct_waiting_def set_cgmanager_wait_def)
  moreover have "advances s s3" using 1(3) 2(3) 3(3) advances_trans by blast
  ultimately show ?thesis
    using 3(2) 1(4) reset_start_on_frame [OF 2(1)] set_cgmanager_wait_frame [OF 3(1)] by auto
qed

lemma job_class_induct_jobs_inv:
  assumes inv: "sys_inv w X s" and w: "os_ok w" and "cgroup_manager_available s" and holds: "waiting_hold s"
  shows "\<exists>ok s'. job_class_induct_jobs w s = Some (ok, s') \<and> sys_inv w X s'"
proof -
  have "\<exists>ok s'. foldM (induct_waiting w) cids (b, t) = Some (ok, s') \<and> sys_inv w X s'"
    if "sys_inv w X t" "set cids \<subseteq> set (s_registered t)" "distinct cids" "s_registered t = s_registered s"
      "\<forall>c\<in>set cids. s_classes t c = s_classes s c" for cids t b
    using that
  proof (induction cids arbitrary: b t)
    case (Cons cid cids)
    have reg: "cid \<in> set (s_registered t)" using Cons.prems(2) by simp
    obtain cls where cls: "s_classes t cid = Some cls"
      using sys_inv_table [OF Cons.prems(1)] reg by (fastforce simp: table_ok_def)
    have "oper_value a" if "c_start_on cls = Some a" "c_cgmanager_wait cls" for a
      using holds reg cls that Cons.prems(4,5) by (fastforce simp: waiting_hold_def split: option.splits)
    then obtain ok t1 where 1: "induct_waiting w cid (b, t) = Some (ok, t1)" "sys_inv w X t1" "advances t t1"
      "\<forall>c. c \<noteq> cid \<longrightarrow> s_classes t1 c = s_classes t c"
      using induct_waiting_inv [OF Cons.prems(1) cls reg w] by blast
    have "s_registered t1 = s_registered t" using 1(3) by (simp add: advances_def)
    then have "\<exists>ok s'. foldM (induct_waiting w) cids (ok1, t1) = Some (ok, s') \<and> sys_inv w X s'" for ok1
      using Cons.prems 1(4) by (intro Cons.IH [OF 1(2)]) auto
    then show ?case using 1(1) by simp
  qed simp
  moreover have "distinct (s_registered s)"
    using sys_inv_table [OF inv] by (simp add: table_ok_def distinct_map)
  ultimately show ?thesis using inv assms(3) by (simp add: job_class_induct_jobs_def)
qed

lemma control_notify_cgroup_manager_address_inv:
  assumes inv: "sys_inv w X s" and w: "os_ok w" and holds: "waiting_hold s"
  shows "upholds w X (control_notify_cgroup_manager_address d k w message address s)"
proof -
  let ?s = "cgroup_manager_set_address address s"
  have "sys_inv w X ?s"
    using inv by (simp add: cgroup_manager_set_address_def)
      (subst sys_inv_cong [of "s\<lparr>s_cgroup_manager := Some address\<rparr>" s], simp_all add: quiesce_ok_def quiesce_in_progress_def)
  moreover have "cgroup_manager_available ?s" by (simp add: cgroup_manager_set_address_def cgroup_manager_available_def)
  moreover have "waiting_hold ?s" using holds by (simp add: waiting_hold_def cgroup_manager_set_address_def)
  ultimately obtain ok s' where "job_class_induct_jobs w ?s = Some (ok, s')" "sys_inv w X s'"
    using job_class_induct_jobs_inv [OF _ w] by blast
  then show ?thesis using inv by (simp add: control_notify_cgroup_manager_address_def upholds_def)
qed

end
