(* ===== verification/Daemon.thy ===== *)
theory Daemon
  imports ConfReload ChildProps
begin

text \<open>
  The daemon as a whole: everything that can happen to it - requests on the control interface, changes
  of the configuration, the death of processes, timers, and the main loop's calls of \<^verbatim>\<open>event_poll\<close> - as steps of one transition system, with its invariant.
\<close>

section \<open>Shutting a session down\<close>

lemma stop_job_inv:
  assumes inv: "sys_inv w X s" and jid: "jid \<in> dom (s_jobs s)" and w: "os_ok w"
  shows "\<exists>s'. with_job jid (job_change_goal w JOB_STOP) s = Some s' \<and> sys_inv w X s' \<and> advances s s' \<and> globals s' = globals s"
proof -
  obtain job where job: "s_jobs s jid = Some job" using jid by blast
  then obtain cls where wk: "working w X cls s job s job" using working_start [OF inv job w] by blast
  obtain s2 job2 where run: "(if j_goal job \<noteq> JOB_STOP then job_change_goal w JOB_STOP s job else Some (s, Some job)) =
      Some (s2, Some job2)" and wk2: "working w X cls s job s2 job2"
    using working_stop_goal [OF inv wk w] by blast
  have "job_change_goal w JOB_STOP s job = Some (s2, Some job2)"
    using run by (cases "j_goal job = JOB_STOP") (auto simp: job_change_goal_def)
  then have "with_job jid (job_change_goal w JOB_STOP) s = Some (set_job job2 s2)"
    using job by (simp add: with_job_def put_job_def)
  moreover have "globals s2 = globals s" using wk2 by (auto simp: working_def calm_def globals_def)
  ultimately show ?thesis using working_done [OF inv wk2] working_advances [OF wk2] by simp
qed

lemma job_process_stop_all_inv:
  assumes inv: "sys_inv w X s" and w: "os_ok w"
  shows "\<exists>s'. job_process_stop_all w s = Some s' \<and> sys_inv w X s' \<and> globals s' = globals s"
proof -
  have "\<exists>s'. foldM (\<lambda>jid. with_job jid (job_change_goal w JOB_STOP)) jids s = Some s' \<and> sys_inv w X s' \<and> globals s' = globals s"
    if "sys_inv w X s" "set jids \<subseteq> dom (s_jobs s)" for jids s
    using that
  proof (induction jids arbitrary: s)
    case (Cons jid jids)
    then obtain s1 where s1: "with_job jid (job_change_goal w JOB_STOP) s = Some s1" "sys_inv w X s1" "advances s s1"
      "globals s1 = globals s"
      using stop_job_inv [OF Cons.prems(1) _ w, of jid] by auto
    moreover have "set jids \<subseteq> dom (s_jobs s1)" using Cons.prems(2) s1(3) by (auto simp: advances_def)
    ultimately show ?case using Cons.IH by fastforce
  qed simp
  moreover have "set (all_instances s) \<subseteq> dom (s_jobs s)"
    by (auto simp: all_instances_def class_instances_def split: option.splits)
  ultimately show ?thesis using inv by (simp add: job_process_stop_all_def)
qed

lemma max_kill_timeout_pos: "job_class_max_kill_timeout s > 0"
proof -
  let ?f = "\<lambda>m cid. case s_classes s cid of
         None \<Rightarrow> m
       | Some cls \<Rightarrow> if class_instances s cid \<noteq> [] \<and> c_kill_timeout cls > m then c_kill_timeout cls else m"
  have "foldl ?f m cids \<ge> m" for cids m
  proof (induction cids arbitrary: m)
    case (Cons cid cids)
    have "?f m cid \<ge> m" by (simp split: option.splits)
    then show ?case using Cons.IH [of "?f m cid"] by (simp only: foldl_Cons)
  qed simp
  from this [of JOB_DEFAULT_KILL_TIMEOUT "s_registered s"] have "job_class_max_kill_timeout s \<ge> JOB_DEFAULT_KILL_TIMEOUT"
    unfolding job_class_max_kill_timeout_def .
  then show ?thesis by (simp add: JOB_DEFAULT_KILL_TIMEOUT_def)
qed

lemma max_kill_timeout_upd: "job_class_max_kill_timeout (upd_quiesce f s) = job_class_max_kill_timeout s"
proof -
  have "class_instances (upd_quiesce f s) = class_instances s"
    by (simp add: fun_eq_iff class_instances_def upd_quiesce_def)
  moreover have "s_classes (upd_quiesce f s) = s_classes s" "s_registered (upd_quiesce f s) = s_registered s"
    by (simp_all add: upd_quiesce_def)
  ultimately show ?thesis unfolding job_class_max_kill_timeout_def by metis
qed

text \<open>The conditions of classes can be matched against any event.\<close>

lemma some_match_total:
  assumes "\<forall>t\<in>set ts. o_type (value t) = EVENT_MATCH \<longrightarrow> (\<exists>a. t = Node Leaf a Leaf)"
    and "\<forall>v\<in>set (e_env event). entry_valid v"
  shows "\<exists>b. some_match ts event = Some b"
  using assms(1)
proof (induction ts)
  case (Cons t ts)
  show ?case
  proof (cases "o_type (value t) = EVENT_MATCH")
    case True
    then obtain a where "t = Node Leaf a Leaf" using Cons.prems by auto
    then show ?thesis using True Cons event_operator_match_eq [OF _ assms(2)] by auto
  qed (use Cons in auto)
qed auto

lemma oper_ok_nodes:
  "oper_ok t \<Longrightarrow> n \<in> set (post_nodes t) \<Longrightarrow> o_type (value n) = EVENT_MATCH \<Longrightarrow> \<exists>a. n = Node Leaf a Leaf"
  by (induction t) (auto split: if_splits)

lemma quiesce_event_match_total:
  assumes "sys_inv w X s" and "\<forall>v\<in>set (e_env event). entry_valid v"
  shows "\<exists>b. quiesce_event_match event s = Some b"
  unfolding quiesce_event_match_def
proof (rule some_match_total [OF _ assms(2)])
  have "oper_ok t" if "s_classes s cid = Some cls" "c_start_on cls = Some t" for cid cls t
    using sys_inv_class(1) [OF assms(1) that(1)] that(2) by (simp add: class_fit_def class_ok_def cond_ok_def)
  then have "\<forall>n\<in>set (start_nodes s cid). o_type (value n) = EVENT_MATCH \<longrightarrow> (\<exists>a. n = Node Leaf a Leaf)" for cid
    by (cases "s_classes s cid") (auto simp: start_nodes_def split: option.splits dest!: sym [of "Some _"] intro: oper_ok_nodes)
  then show "\<forall>n\<in>set (concat (map (start_nodes s) (s_registered s))).
      o_type (value n) = EVENT_MATCH \<longrightarrow> (\<exists>a. n = Node Leaf a Leaf)" by auto
qed

lemma quiesce_kill_inv:
  assumes inv: "sys_inv w X s" and w: "os_ok w"
  shows "\<exists>s'. quiesce_kill w s = Some s' \<and> sys_inv w X s' \<and>
    s_quiesce s' = (s_quiesce s)\<lparr>q_max_kill_timeout := job_class_max_kill_timeout s\<rparr>"
proof -
  let ?s = "upd_quiesce (\<lambda>q. q\<lparr>q_max_kill_timeout := job_class_max_kill_timeout s\<rparr>) s"
  have "quiesce_ok ?s"
    using inv max_kill_timeout_pos [of s]
    by (auto simp: quiesce_ok_def upd_quiesce_def sys_inv_def quiesce_in_progress_def)
  then have "sys_inv w X ?s" using upd_quiesce_inv [OF inv] by blast
  from job_process_stop_all_inv [OF this w] show ?thesis
    by (auto simp: quiesce_kill_def globals_def) (simp add: upd_quiesce_def)
qed

lemma disable_respawn_inv: "sys_inv w X (s\<lparr>s_disable_respawn := b\<rparr>) = sys_inv w X s"
  by (rule sys_inv_cong) (simp_all add: quiesce_ok_def quiesce_in_progress_def)

text \<open>The variables of a shutdown that has begun.\<close>

definition armed :: "sys \<Rightarrow> bool" where
  "armed s \<longleftrightarrow> q_start_time (s_quiesce s) \<noteq> 0 \<and> q_phase_time (s_quiesce s) \<noteq> 0 \<and>
     q_requester (s_quiesce s) \<noteq> QUIESCE_REQUESTER_INVALID \<and> phase s \<in> {QUIESCE_PHASE_WAIT, QUIESCE_PHASE_KILL}"

lemma armed_cong: "s_quiesce s' = s_quiesce s \<Longrightarrow> armed s' = armed s"
  by (simp add: armed_def)

text \<open>The first half of \<^verbatim>\<open>quiesce\<close>: the jobs that wait for the end of the session.\<close>

lemma quiesce_wait_phase:
  assumes inv: "sys_inv w X s" and w: "os_ok w" and armed: "armed s"
    and idle: "q_timer (s_quiesce s) \<longrightarrow> q_finalising (s_quiesce s)" and ev: "\<forall>v\<in>set (e_env event). entry_valid v"
  shows "\<exists>s'. (if phase s = QUIESCE_PHASE_WAIT then do {
      found \<leftarrow> quiesce_event_match event s;
      let s = upd_quiesce (\<lambda>q. q\<lparr>q_session_end_jobs := found\<rparr>) s;
      if found then job_process_stop_all w s
      else Some (upd_quiesce (\<lambda>q. q\<lparr>q_phase := QUIESCE_PHASE_KILL\<rparr>) s)
    } else Some s) = Some s' \<and> sys_inv w X s' \<and> armed s'"
proof (cases "phase s = QUIESCE_PHASE_WAIT")
  case False
  then show ?thesis using inv armed by simp
next
  case True
  obtain found where found: "quiesce_event_match event s = Some found"
    using quiesce_event_match_total [OF inv ev] by blast
  have upd: "sys_inv w X (upd_quiesce f s) \<and> armed (upd_quiesce f s)"
    if "f = (\<lambda>q. q\<lparr>q_session_end_jobs := found\<rparr>) \<or>
      f = (\<lambda>q. q\<lparr>q_session_end_jobs := found, q_phase := QUIESCE_PHASE_KILL\<rparr>)" for f
    using upd_quiesce_inv [OF inv, of f] that armed idle by (auto simp: quiesce_ok_def upd_quiesce_def armed_def)
  show ?thesis
  proof (cases found)
    case False
    have "upd_quiesce (\<lambda>q. q\<lparr>q_phase := QUIESCE_PHASE_KILL\<rparr>) (upd_quiesce (\<lambda>q. q\<lparr>q_session_end_jobs := found\<rparr>) s) =
        upd_quiesce (\<lambda>q. q\<lparr>q_session_end_jobs := found, q_phase := QUIESCE_PHASE_KILL\<rparr>) s"
      by (simp add: upd_quiesce_def)
    then show ?thesis using True found False upd by (simp add: Let_def)
  next
    case yes: True
    let ?s = "upd_quiesce (\<lambda>q. q\<lparr>q_session_end_jobs := found\<rparr>) s"
    obtain s' where s': "job_process_stop_all w ?s = Some s'" "sys_inv w X s'" "globals s' = globals ?s"
      using job_process_stop_all_inv [OF _ w, of X ?s] upd by blast
    then have "s_quiesce s' = s_quiesce ?s" by (simp add: globals_def)
    moreover from this have "armed s'" using armed_cong [of s' ?s] upd by blast
    ultimately show ?thesis using True found yes s'(1,2) upd by (simp add: Let_def)
  qed
qed

lemma quiesce_kill_phase:
  assumes inv: "sys_inv w X s" and w: "os_ok w" and armed: "armed s"
  shows "\<exists>s'. (if phase s = QUIESCE_PHASE_KILL then quiesce_kill w s else Some s) = Some s' \<and> sys_inv w X s' \<and>
    armed s' \<and> (phase s' = QUIESCE_PHASE_KILL \<longrightarrow> q_max_kill_timeout (s_quiesce s') \<noteq> 0)"
proof (cases "phase s = QUIESCE_PHASE_KILL")
  case True
  then obtain s' where "quiesce_kill w s = Some s'" "sys_inv w X s'"
    "s_quiesce s' = (s_quiesce s)\<lparr>q_max_kill_timeout := job_class_max_kill_timeout s\<rparr>"
    using quiesce_kill_inv [OF inv w] by blast
  then show ?thesis using True armed max_kill_timeout_pos [of s] by (simp add: armed_def)
qed (use inv armed in simp)

lemma environ_new_str_Some: "environ_new_str genv str = Some v \<Longrightarrow> entry_valid v"
  by (auto simp: environ_new_str_def entry_valid_def char_at_def NUL_def split: if_splits) (metis nth_mem)

lemma next_event_fresh: "sys_inv w X s \<Longrightarrow> s_next s \<notin> event_ids (s_events s)"
  by (auto simp: sys_inv_def events_ok_def fresh_ok_def)

lemma add_event_get:
  assumes "sys_inv w X s" and "e_id e = s_next s"
  shows "event_get (s_next s) (s_events (add_event e s)) = Some e"
proof -
  have "event_get (s_next s) (s_events s) = None" using next_event_fresh [OF assms(1)] by simp
  then show ?thesis using assms(2) by (simp add: add_event_def event_get_append event_get_Cons del: event_get_None_iff)
qed

text \<open>The event is emitted and the phases follow.\<close>

lemma quiesce_phases:
  assumes inv: "sys_inv w X s" and w: "os_ok w" and armed: "armed s"
    and idle: "q_timer (s_quiesce s) \<longrightarrow> q_finalising (s_quiesce s)" and env: "\<forall>v\<in>set env. entry_valid v"
  shows "\<exists>s'. (do {
      (i, s) \<leftarrow> event_create SESSION_END_EVENT env s;
      event \<leftarrow> event_get i (s_events s);
      s \<leftarrow> (if phase s = QUIESCE_PHASE_WAIT then do {
            found \<leftarrow> quiesce_event_match event s;
            let s = upd_quiesce (\<lambda>q. q\<lparr>q_session_end_jobs := found\<rparr>) s;
            if found then job_process_stop_all w s
            else Some (upd_quiesce (\<lambda>q. q\<lparr>q_phase := QUIESCE_PHASE_KILL\<rparr>) s)
          } else Some s);
      s \<leftarrow> (if phase s = QUIESCE_PHASE_KILL then quiesce_kill w s else Some s);
      Some (upd_quiesce (\<lambda>q. q\<lparr>q_timer := True\<rparr>) s)
    }) = Some s' \<and> sys_inv w X s'"
proof -
  define e where "e = new_event SESSION_END_EVENT env (-1) [] (s_next s)"
  define s1 where "s1 = add_event e s"
  have run: "event_create SESSION_END_EVENT env s = Some (s_next s, s1)"
    unfolding s1_def e_def by (rule event_create_run) (simp add: SESSION_END_EVENT_def)
  have s1: "sys_inv w X s1" using add_event_inv [OF inv env _ s1_def [unfolded e_def]] by simp
  have get: "event_get (s_next s) (s_events s1) = Some e"
    unfolding s1_def by (rule add_event_get [OF inv]) (simp add: e_def new_event_def)
  have q: "s_quiesce s1 = s_quiesce s" by (simp add: s1_def add_event_def send_def)
  have armed1: "armed s1" using armed armed_cong [OF q] by simp
  have "\<forall>v\<in>set (e_env e). entry_valid v" using env by (simp add: e_def new_event_def)
  then obtain s2 where 2: "(if phase s1 = QUIESCE_PHASE_WAIT then do {
      found \<leftarrow> quiesce_event_match e s1;
      let s = upd_quiesce (\<lambda>q. q\<lparr>q_session_end_jobs := found\<rparr>) s1;
      if found then job_process_stop_all w s
      else Some (upd_quiesce (\<lambda>q. q\<lparr>q_phase := QUIESCE_PHASE_KILL\<rparr>) s)
    } else Some s1) = Some s2" "sys_inv w X s2" "armed s2"
    using quiesce_wait_phase [OF s1 w armed1] idle q by auto
  obtain s3 where 3: "(if phase s2 = QUIESCE_PHASE_KILL then quiesce_kill w s2 else Some s2) = Some s3" "sys_inv w X s3"
    "armed s3" "phase s3 = QUIESCE_PHASE_KILL \<longrightarrow> q_max_kill_timeout (s_quiesce s3) \<noteq> 0"
    using quiesce_kill_phase [OF 2(2) w 2(3)] by blast
  have "sys_inv w X (upd_quiesce (\<lambda>q. q\<lparr>q_timer := True\<rparr>) s3)"
    using upd_quiesce_inv [OF 3(2), of "\<lambda>q. q\<lparr>q_timer := True\<rparr>"] 3(3,4) by (auto simp: quiesce_ok_def upd_quiesce_def armed_def)
  then show ?thesis using run get 2(1) 3(1) by simp
qed

lemma quiesce_inv:
  assumes inv: "sys_inv w X s" and w: "os_ok w" and clock: "\<forall>n. os_time w n \<noteq> 0"
    and requester: "requester \<noteq> QUIESCE_REQUESTER_INVALID"
  shows "\<exists>s'. quiesce w requester s = Some s' \<and> sys_inv w X s'"
proof (cases "quiesce_in_progress s")
  case True
  then show ?thesis using inv by (simp add: quiesce_def)
next
  case False
  define ph where "ph = (if requester = QUIESCE_REQUESTER_SYSTEM then QUIESCE_PHASE_KILL else QUIESCE_PHASE_WAIT)"
  define reason where "reason = (if requester = QUIESCE_REQUESTER_SESSION then ''logout'' else ''shutdown'')"
  obtain now s1 where c: "call (os_time w) s = (now, s1)" by (meson surj_pair)
  have s1: "sys_inv w X s1" "s_quiesce s1 = s_quiesce s" using inv sys_inv_call [OF c] c by (auto simp: call_def)
  let ?f = "\<lambda>q. q\<lparr>q_requester := requester, q_phase := ph, q_start_time := now, q_phase_time := now\<rparr>"
  define s2 where "s2 = (upd_quiesce ?f s1)\<lparr>s_disable_respawn := True\<rparr>"
  have now: "now \<noteq> 0" using c clock by (auto simp: call_def)
  have idle: "q_timer (s_quiesce s) \<longrightarrow> q_finalising (s_quiesce s)"
    using inv False by (auto simp: sys_inv_def quiesce_ok_def quiesce_in_progress_def)
  have "quiesce_ok (upd_quiesce ?f s1)" using now idle s1(2) by (auto simp: quiesce_ok_def upd_quiesce_def)
  then have inv2: "sys_inv w X s2" using upd_quiesce_inv [OF s1(1)] by (simp add: s2_def disable_respawn_inv)
  have q2: "s_quiesce s2 = ?f (s_quiesce s)" by (simp add: s2_def upd_quiesce_def s1(2))
  have armed: "armed s2" using now requester by (simp add: armed_def q2 ph_def)
  have "\<forall>v\<in>set (environ_set (os_getenv w) True (''TYPE='' @ reason) []). entry_valid v"
    by (auto simp: environ_set_def environ_add_def split: option.splits intro: environ_new_str_Some [OF sym])
  from quiesce_phases [OF inv2 w armed _ this] idle q2 False c show ?thesis
    by (simp add: quiesce_def ph_def [symmetric] reason_def [symmetric] s2_def [symmetric] Let_def del: append_Cons)
qed

text \<open>The timer of the shutdown.\<close>

lemma quiesce_out_inv:
  assumes inv: "sys_inv w X s" and "q_start_time (s_quiesce s) \<noteq> 0"
  shows "\<exists>s'. quiesce_out w s = Some s' \<and> sys_inv w X s'"
proof -
  obtain s1 where 1: "quiesce_finalise w (upd_quiesce (\<lambda>q. q\<lparr>q_phase := QUIESCE_PHASE_CLEANUP\<rparr>) s) = Some s1"
    "sys_inv w X s1"
    using quiesce_finalise_inv [OF assms] by blast
  have "quiesce_ok (upd_quiesce (\<lambda>q. q\<lparr>q_timer := False\<rparr>) s1)"
    using 1(2) by (auto simp: sys_inv_def quiesce_ok_def upd_quiesce_def quiesce_in_progress_def)
  then show ?thesis using 1 upd_quiesce_inv by (simp add: quiesce_out_def)
qed

lemma quiesce_enter_kill:
  assumes inv: "sys_inv w X s" and w: "os_ok w" and clock: "\<forall>n. os_time w n \<noteq> 0" and armed: "armed s"
  shows "\<exists>s'. (let (now, s) = call (os_time w) s
    in quiesce_kill w (upd_quiesce (\<lambda>q. q\<lparr>q_phase := QUIESCE_PHASE_KILL, q_phase_time := now\<rparr>) s)) = Some s' \<and>
    sys_inv w X s' \<and> armed s'"
proof -
  obtain now s1 where c: "call (os_time w) s = (now, s1)" by (meson surj_pair)
  have s1: "sys_inv w X s1" "s_quiesce s1 = s_quiesce s" "now \<noteq> 0"
    using inv sys_inv_call [OF c] c clock by (auto simp: call_def)
  let ?max = "q_max_kill_timeout (s_quiesce s)"
  let ?f = "\<lambda>q. q\<lparr>q_phase := QUIESCE_PHASE_KILL, q_phase_time := now, q_max_kill_timeout := 1\<rparr>"
  have ok: "quiesce_ok (upd_quiesce ?f s1)" using armed s1(2,3) by (auto simp: quiesce_ok_def upd_quiesce_def armed_def)
  have "quiesce_kill w (upd_quiesce (\<lambda>q. q\<lparr>q_phase := QUIESCE_PHASE_KILL, q_phase_time := now\<rparr>) s1) =
      quiesce_kill w (upd_quiesce ?f s1)"
    by (simp add: quiesce_kill_def max_kill_timeout_upd) (simp add: upd_quiesce_def)
  moreover obtain s' where "quiesce_kill w (upd_quiesce ?f s1) = Some s'" "sys_inv w X s'"
    "s_quiesce s' = (s_quiesce (upd_quiesce ?f s1))\<lparr>q_max_kill_timeout := job_class_max_kill_timeout (upd_quiesce ?f s1)\<rparr>"
    using quiesce_kill_inv [OF _ w, of X "upd_quiesce ?f s1"] upd_quiesce_inv [OF s1(1) ok] by blast
  ultimately show ?thesis using c armed s1(2,3) by (simp add: armed_def upd_quiesce_def)
qed

lemma quiesce_wait_callback_inv:
  assumes inv: "sys_inv w X s" and w: "os_ok w" and clock: "\<forall>n. os_time w n \<noteq> 0"
    and timer: "q_timer (s_quiesce s)" "\<not> q_finalising (s_quiesce s)"
  shows "\<exists>s'. quiesce_wait_callback w s = Some s' \<and> sys_inv w X s'"
proof -
  have q: "q_phase_time (s_quiesce s) \<noteq> 0" "q_requester (s_quiesce s) \<noteq> QUIESCE_REQUESTER_INVALID"
    "phase s = QUIESCE_PHASE_WAIT \<or> phase s = QUIESCE_PHASE_KILL \<and> q_max_kill_timeout (s_quiesce s) \<noteq> 0"
    "q_start_time (s_quiesce s) \<noteq> 0"
    using inv timer by (auto simp: sys_inv_def quiesce_ok_def quiesce_in_progress_def)
  obtain now s1 where c: "call (os_time w) s = (now, s1)" by (meson surj_pair)
  have s1: "sys_inv w X s1" "s_quiesce s1 = s_quiesce s" using inv sys_inv_call [OF c] c by (auto simp: call_def)
  have armed: "armed s1" using q s1(2) by (auto simp: armed_def)
  obtain s2 where kill: "(let (now, s) = call (os_time w) s1
      in quiesce_kill w (upd_quiesce (\<lambda>q. q\<lparr>q_phase := QUIESCE_PHASE_KILL, q_phase_time := now\<rparr>) s)) = Some s2"
    "sys_inv w X s2" "armed s2"
    using quiesce_enter_kill [OF s1(1) w clock armed] by blast
  have out: "\<exists>s'. (if b \<or> \<not> job_process_jobs_running s3 then quiesce_out w s3 else Some s3) = Some s' \<and> sys_inv w X s'"
    if "sys_inv w X s3" "armed s3" for b s3
    using that quiesce_out_inv [OF that(1)] by (simp add: armed_def)
  show ?thesis
  proof (cases "phase s = QUIESCE_PHASE_KILL")
    case True
    then show ?thesis using q c s1 armed out [OF s1(1) armed] by (simp add: quiesce_wait_callback_def)
  next
    case False
    then show ?thesis
      using q c s1 armed out [OF s1(1) armed, of False] out [OF kill(2,3), of False] kill
      by (simp add: quiesce_wait_callback_def split_beta Let_def)
  qed
qed

section \<open>The control interface\<close>

lemma control_emit_event_inv:
  assumes inv: "sys_inv w X s"
  shows "upholds w X (control_emit_event_with_file d k message name env wait fd s)"
proof (cases "\<not> control_check_permission d k message \<or> name = [] \<or> \<not> environ_all_valid env")
  case True
  then show ?thesis using inv by (auto simp: control_emit_event_with_file_def upholds_def)
next
  case False
  let ?blocking = "if wait then [blocked_new BLOCKED_EMIT_METHOD message] else []"
  let ?e = "\<lambda>fd blocking. new_event name env fd blocking (s_next s)"
  have "sys_inv w X (add_event (?e fd ?blocking) s)"
    using add_event_inv [OF inv _ _ refl, of env ?blocking name fd] False
    by (simp add: environ_all_valid_iff blocked_new_def)
  moreover have "event_upd (s_next s) f (s_events s) = s_events s" for f
    using next_event_fresh [OF inv] by (force simp: event_upd_def event_ids_def intro!: map_idI)
  then have "set_events (event_upd (s_next s) (\<lambda>e. e\<lparr>e_fd := fd, e_blocking := e_blocking e @ ?blocking\<rparr>)
      (s_events (add_event (?e (-1) []) s))) (add_event (?e (-1) []) s) = add_event (?e fd ?blocking) s"
    by (simp add: add_event_def set_events_def send_def new_event_def event_upd_def)
  ultimately show ?thesis
    using False event_create_run [of name env s]
    by (cases wait) (simp_all add: control_emit_event_with_file_def upholds_def Let_def)
qed

lemma s_conns_inv: "sys_inv w X (s\<lparr>s_conns := conns\<rparr>) = sys_inv w X s"
  by (rule sys_inv_cong) (simp_all add: quiesce_ok_def quiesce_in_progress_def)

lemma control_register_all_sends:
  assumes "table_ok s"
  shows "\<exists>p. control_register_all conn s = Some (send p s)"
proof -
  let ?s = "send [ObjectNew conn DBUS_PATH_UPSTART] s"
  have "\<exists>p. foldM (\<lambda>cid. job_class_register cid conn False) (s_registered s) ?s = Some (send p ?s)"
  proof (rule foldM_sends)
    fix cid t
    assume "cid \<in> set (s_registered s)" and "\<exists>p. t = send p ?s"
    then have "s_classes t cid \<noteq> None" using assms by (auto simp: table_ok_def)
    then show "\<exists>p. job_class_register cid conn False t = Some (send p t)" using job_class_register_sends by blast
  qed
  then show ?thesis by (auto simp: control_register_all_def send_send)
qed

lemma control_server_connect_inv:
  assumes "sys_inv w X s"
  shows "\<exists>s'. control_server_connect conn s = Some s' \<and> sys_inv w X s'"
  using control_register_all_sends [OF sys_inv_table [OF assms], of conn] assms
  by (auto simp: control_server_connect_def s_conns_inv)

lemma control_disconnected_inv: "sys_inv w X s \<Longrightarrow> sys_inv w X (snd (control_disconnected conn k s))"
  by (simp add: control_disconnected_def s_conns_inv)

lemma control_notify_dbus_address_inv:
  assumes inv: "sys_inv w X s"
  shows "\<exists>e k' s'. control_notify_dbus_address d message address k s = Some (e, k', s') \<and> sys_inv w X s'"
proof -
  have "\<exists>e k' s'. control_bus_open d k1 s = Some (e, k', s') \<and> sys_inv w X s'" if "k_bus k1 = None" for k1
  proof -
    obtain c where c: "(case (if s_user_mode s then k_bus_address k1 else None) of
         Some address \<Rightarrow>
           (case bus_connect d address of
              None \<Rightarrow> Inl ''ConnectFailed''
            | Some conn \<Rightarrow> if bus_register d conn then Inr conn else Inl ''RegisterFailed'')
       | None \<Rightarrow>
           (case bus_open d (k_session_bus k1) of
              None \<Rightarrow> Inl ''ConnectFailed''
            | Some conn \<Rightarrow> Inr conn)) = c" by blast
    show ?thesis
    proof (cases c)
      case (Inr conn)
      obtain p where "control_register_all conn s = Some (send p s)"
        using control_register_all_sends [OF sys_inv_table [OF inv]] by blast
      then show ?thesis using that c Inr inv by (simp add: control_bus_open_def s_conns_inv Let_def)
    qed (use that c inv in \<open>simp add: control_bus_open_def\<close>)
  qed
  then show ?thesis using inv by (auto simp: control_notify_dbus_address_def)
qed

lemma control_end_session_inv:
  assumes "sys_inv w X s" and "os_ok w" and "\<forall>n. os_time w n \<noteq> 0"
  shows "upholds w X (control_end_session d k w message s)"
  using quiesce_inv [OF assms, of QUIESCE_REQUESTER_SESSION] assms(1) by (auto simp: control_end_session_def upholds_def)

text \<open>The environments of jobs do not matter to the invariant.\<close>

lemma job_env_inv:
  assumes inv: "sys_inv w X s" and job: "s_jobs s jid = Some job" and w: "os_ok w"
  shows "sys_inv w X (s\<lparr>s_jobs := (s_jobs s)(jid \<mapsto> job\<lparr>j_env := env\<rparr>)\<rparr>)"
proof -
  obtain cls where wk: "working w X cls s job s job" "j_id job = jid" using working_start [OF inv job w] by blast
  have "working w X cls s job s (job\<lparr>j_env := env\<rparr>)" by (rule working_job [OF wk(1)]) (simp_all add: same_phase_def)
  from working_done [OF inv this] show ?thesis using wk(2) by (simp add: set_job_def)
qed

lemma map_job_env_inv:
  "sys_inv w X s \<Longrightarrow> os_ok w \<Longrightarrow> sys_inv w X (map_job (\<lambda>job. job\<lparr>j_env := f (j_env job)\<rparr>) jid s)"
  by (auto simp: map_job_def job_env_inv split: option.splits)

lemma job_environ_inv: "s_job_environ s \<noteq> None \<Longrightarrow> sys_inv w X (s\<lparr>s_job_environ := Some env\<rparr>) = sys_inv w X s"
  by (rule sys_inv_cong) (simp_all add: quiesce_ok_def quiesce_in_progress_def)

lemma sys_inv_environ: "sys_inv w X s \<Longrightarrow> \<exists>env. s_job_environ s = Some env"
  by (auto simp: sys_inv_def store_ok_def)

lemma job_class_environment_set_inv:
  assumes inv: "sys_inv w X s" and w: "os_ok w"
  shows "\<exists>s'. job_class_environment_set w' var replace s = Some s' \<and> sys_inv w X s'"
proof -
  have "sys_inv w X (fold (map_job (\<lambda>job. job\<lparr>j_env := f (j_env job)\<rparr>)) jids t)" if "sys_inv w X t" for f jids t
    using that by (induction jids arbitrary: t) (simp_all add: map_job_env_inv [OF _ w])
  moreover obtain env where "s_job_environ s = Some env" using sys_inv_environ [OF inv] by blast
  ultimately show ?thesis using inv by (simp add: job_class_environment_set_def Let_def job_environ_inv)
qed

lemma set_env_vars_inv:
  assumes "sys_inv w X s" and w: "os_ok w"
  shows "\<exists>s'. foldM (set_env_var d k w job replace) vars s = Some s' \<and> sys_inv w X s'"
  using assms(1)
proof (induction vars arbitrary: s)
  case (Cons var vars)
  have "\<exists>s1. set_env_var d k w job replace var s = Some s1 \<and> sys_inv w X s1"
  proof (cases job)
    case None
    obtain s1 where "job_class_environment_set w (if CHR ''='' \<notin> set var then var @ ''='' else var) replace s = Some s1"
      "sys_inv w X s1"
      using job_class_environment_set_inv [OF Cons.prems w] by blast
    then show ?thesis using None by (simp add: set_env_var_def Let_def activation_environment_def)
  next
    case (Some jid)
    then show ?thesis using map_job_env_inv [OF Cons.prems w] by (simp add: set_env_var_def Let_def)
  qed
  then show ?case using Cons.IH by fastforce
qed simp

lemma unset_instances_inv:
  assumes "sys_inv w X s" and "os_ok w"
  shows "sys_inv w X (snd (unset_instances name jids s))"
  using assms by (induction name jids s rule: unset_instances.induct) (auto simp: job_env_inv split: option.splits)

text \<open>The job that is named exists.\<close>

lemma control_get_job_total:
  "\<exists>r. control_get_job details s = Some r \<and> (\<forall>jid. r = Inr (Some jid) \<longrightarrow> (\<exists>job. s_jobs s jid = Some job))"
proof (cases details)
  case Nil
  then show ?thesis by (simp add: control_get_job_def)
next
  case (Cons name rest)
  then show ?thesis
    by (cases "job_class_get_registered name s")
      (auto simp: control_get_job_def job_find_def dest: instance_lookup_Some split: option.splits list.splits)
qed

lemma control_set_env_list_inv:
  assumes inv: "sys_inv w X s" and w: "os_ok w"
  shows "upholds w X (control_set_env_list d k w message details vars replace s)"
proof -
  obtain r where r: "control_get_job details s = Some r" using control_get_job_total by blast
  show ?thesis
  proof (cases r)
    case (Inr job)
    obtain s' where "foldM (set_env_var d k w job replace) vars s = Some s'" "sys_inv w X s'"
      using set_env_vars_inv [OF inv w] by blast
    then show ?thesis using r Inr inv by (simp add: control_set_env_list_def upholds_def)
  qed (use r inv in \<open>simp add: control_set_env_list_def upholds_def\<close>)
qed

lemma unset_env_var_inv:
  assumes inv: "sys_inv w X s" and w: "os_ok w" and job: "\<forall>jid. job = Some jid \<longrightarrow> jid \<in> dom (s_jobs s)"
  shows "\<exists>r s'. unset_env_var job name s = Some (r, s') \<and> sys_inv w X s' \<and> dom (s_jobs s) \<subseteq> dom (s_jobs s')"
proof (cases job)
  case None
  obtain env where env: "s_job_environ s = Some env" using sys_inv_environ [OF inv] by blast
  have dom: "dom (s_jobs (snd (unset_instances name jids t))) = dom (s_jobs t)" for jids t
    by (induction name jids t rule: unset_instances.induct) (auto split: option.splits if_splits)
  show ?thesis
  proof (cases "environ_remove name env")
    case (Some e)
    let ?t = "s\<lparr>s_job_environ := Some e\<rparr>"
    have "sys_inv w X (snd (unset_instances name (all_instances s) ?t))"
      by (rule unset_instances_inv [OF _ w]) (use inv env in \<open>simp add: job_environ_inv\<close>)
    then show ?thesis
      using None env Some dom [of "all_instances s" ?t]
      by (cases "unset_instances name (all_instances s) ?t") (simp add: unset_env_var_def job_class_environment_unset_def)
  qed (use None env inv in \<open>simp add: unset_env_var_def job_class_environment_unset_def\<close>)
next
  case (Some jid)
  then obtain j where "s_jobs s jid = Some j" using job by blast
  then show ?thesis
    using Some job_env_inv [OF inv _ w, of jid j] inv by (auto simp: unset_env_var_def split: option.splits)
qed

lemma control_unset_env_list_inv:
  assumes inv: "sys_inv w X s" and w: "os_ok w"
  shows "upholds w X (control_unset_env_list d k message details names s)"
proof -
  have "upholds w X (unset_env_vars job names t)"
    if "sys_inv w X t" "\<forall>jid. job = Some jid \<longrightarrow> jid \<in> dom (s_jobs t)" for job t
    using that
  proof (induction names arbitrary: t)
    case (Cons name names)
    obtain r t' where t': "unset_env_var job name t = Some (r, t')" "sys_inv w X t'" "dom (s_jobs t) \<subseteq> dom (s_jobs t')"
      using unset_env_var_inv [OF Cons.prems(1) w Cons.prems(2)] by blast
    then have "upholds w X (unset_env_vars job names t')" using Cons.IH [OF t'(2)] Cons.prems(2) by blast
    then show ?case using t' by (cases r) (simp_all add: upholds_def)
  qed (simp add: upholds_def)
  moreover obtain r where "control_get_job details s = Some r" "\<forall>jid. r = Inr (Some jid) \<longrightarrow> jid \<in> dom (s_jobs s)"
    using control_get_job_total by blast
  ultimately show ?thesis using inv by (cases r) (simp_all add: control_unset_env_list_def upholds_def)
qed

lemma control_reset_env_inv:
  assumes inv: "sys_inv w X s" and w: "os_ok w"
  shows "upholds w X (control_reset_env d k w message details s)"
proof -
  obtain env where env: "s_job_environ s = Some env" using sys_inv_environ [OF inv] by blast
  have reset: "sys_inv w X (job_class_environment_reset w s)"
    using inv env job_environ_inv [of s]
    by (simp add: job_class_environment_reset_def job_class_environment_init_def job_class_environment_clear_def Let_def)
  obtain r where r: "control_get_job details s = Some r" "\<forall>jid. r = Inr (Some jid) \<longrightarrow> (\<exists>job. s_jobs s jid = Some job)"
    using control_get_job_total by blast
  show ?thesis
  proof (cases "\<exists>jid. r = Inr (Some jid)")
    case True
    then obtain jid job where job: "r = Inr (Some jid)" "s_jobs s jid = Some job" using r(2) by blast
    obtain cls where "class_of s job = Some cls" using sys_inv_job [OF inv job(2) w] by (auto simp: class_of_def)
    then show ?thesis
      using r(1) job inv env job_env_inv [OF inv job(2) w] by (simp add: control_reset_env_def upholds_def job_class_environment_def)
  next
    case False
    then show ?thesis using r(1) inv reset
      by (cases r) (auto simp: control_reset_env_def upholds_def split: option.splits)
  qed
qed

lemma job_reload_inv:
  assumes inv: "sys_inv w X s" and job: "s_jobs s jid = Some job" and w: "os_ok w"
  shows "method_keeps w X (job_reload w message s job)"
proof -
  obtain cls where cls: "class_of s job = Some cls" using sys_inv_job [OF inv job w] by (auto simp: class_of_def)
  obtain b s1 where c: "call (os_kill w) s = (b, s1)" by (meson surj_pair)
  then have "sys_inv w X s1" "s_jobs s1 jid = Some job" using inv sys_inv_call [OF c] job by (auto simp: call_def)
  then have "sys_inv w X (send out s1)" "s_jobs (send out s1) jid = Some job" for out by simp_all
  from working_keeps [OF this w] show ?thesis
    using cls c working_keeps [OF inv job w] by (auto simp: job_reload_def raise_error_def send_send Let_def)
qed

section \<open>Requests that only answer\<close>

lemma control_get_job_by_name_total:
  assumes "sys_inv w X s"
  shows "\<exists>a. control_get_job_by_name name s = Some a"
proof (cases "job_class_get_registered name s")
  case (Some cid)
  then have "\<exists>cls. s_classes s cid = Some cls"
    by (auto simp: job_class_get_registered_def find_Some_iff class_name_def split: option.splits)
  then show ?thesis using Some by (auto simp: control_get_job_by_name_def)
qed (simp add: control_get_job_by_name_def)

lemma control_get_env_total:
  assumes "sys_inv w X s"
  shows "\<exists>a. control_get_env d k m details name s = Some a"
proof -
  obtain env where env: "s_job_environ s = Some env" using sys_inv_environ [OF assms] by blast
  obtain r where r: "control_get_job details s = Some r" "\<forall>jid. r = Inr (Some jid) \<longrightarrow> (\<exists>job. s_jobs s jid = Some job)"
    using control_get_job_total by blast
  then show ?thesis
    using env by (cases r) (auto simp: control_get_env_def job_class_environment_get_def split: option.splits)
qed

lemma control_list_env_total:
  assumes "sys_inv w X s"
  shows "\<exists>a. control_list_env d k m details s = Some a"
proof -
  obtain env where env: "s_job_environ s = Some env" using sys_inv_environ [OF assms] by blast
  obtain r where r: "control_get_job details s = Some r" "\<forall>jid. r = Inr (Some jid) \<longrightarrow> (\<exists>job. s_jobs s jid = Some job)"
    using control_get_job_total by blast
  then show ?thesis
    using env by (cases r) (auto simp: control_list_env_def job_class_environment_get_all_def split: option.splits)
qed

section \<open>The daemon\<close>

text \<open>What can happen. The requests are numbered by their message.\<close>

datatype action =
    Connect nat
  | Disconnect nat
  | NotifyDBusAddress nat string
  | NotifyCGroupManagerAddress nat string
  | SetLogPriority nat string
  | EmitEvent nat string "string list" bool int
  | EndSession nat
  | Terminate
  | SetEnv nat "string list" "string list" bool
  | UnsetEnv nat "string list" "string list"
  | ResetEnv nat "string list"
  | ClassStart nat nat "string list" bool
  | ClassStop nat nat "string list" bool
  | ClassRestart nat nat "string list" bool
  | JobStart nat nat bool
  | JobStop nat nat bool
  | JobRestart nat nat bool
  | JobReload nat nat
  | GetJobByName nat string
  | GetEnv nat "string list" string
  | ListEnv nat "string list"
  | Child int NihChildEvents int
  | CloseHandler nat ProcessType
  | ChildReader nat ProcessType bool
  | ReadyFd nat string
  | KillTimer nat
  | QuiesceTimer
  | ReloadConfiguration nat
  | FileChanged nat string "bool option"
  | FileDeleted nat string string
  | Poll nat

datatype outcome = Next control sys | Abort | NotYet

definition on_control :: "control \<Rightarrow> ('e \<times> sys) option \<Rightarrow> outcome" where
  "on_control k r = (case r of None \<Rightarrow> Abort | Some (_, s) \<Rightarrow> Next k s)"

definition on_sys :: "control \<Rightarrow> sys option \<Rightarrow> outcome" where
  "on_sys k r = (case r of None \<Rightarrow> Abort | Some s \<Rightarrow> Next k s)"

definition on_instance :: "control \<Rightarrow> nat \<Rightarrow> (sys \<Rightarrow> Job \<Rightarrow> method_result) \<Rightarrow> sys \<Rightarrow> outcome" where
  "on_instance k jid f s = on_sys k (do {
     job \<leftarrow> s_jobs s jid;
     (_, r) \<leftarrow> f s job;
     Some (put_job r)
   })"

definition on_answer :: "control \<Rightarrow> sys \<Rightarrow> 'a option \<Rightarrow> outcome" where
  "on_answer k s r = (case r of None \<Rightarrow> Abort | Some _ \<Rightarrow> Next k s)"

fun perform :: "conf_lib \<Rightarrow> bus \<Rightarrow> os \<Rightarrow> action \<Rightarrow> control \<Rightarrow> sys \<Rightarrow> outcome" where
  "perform lib d w (Connect conn) k s = on_sys k (control_server_connect conn s)"
| "perform lib d w (Disconnect conn) k s = (case control_disconnected conn k s of (k, s) \<Rightarrow> Next k s)"
| "perform lib d w (NotifyDBusAddress m address) k s =
     (case control_notify_dbus_address d m address k s of None \<Rightarrow> Abort | Some (_, k, s) \<Rightarrow> Next k s)"
| "perform lib d w (NotifyCGroupManagerAddress m address) k s =
     on_control k (control_notify_cgroup_manager_address d k w m address s)"
| "perform lib d w (SetLogPriority m priority) k s =
     (case control_set_log_priority d k m priority of Inl _ \<Rightarrow> Next k s | Inr k \<Rightarrow> Next k s)"
| "perform lib d w (EmitEvent m name env wait fd) k s =
     on_control k (control_emit_event_with_file d k m name env wait fd s)"
| "perform lib d w (EndSession m) k s = on_control k (control_end_session d k w m s)"
| "perform lib d w Terminate k s = on_sys k (quiesce w QUIESCE_REQUESTER_SYSTEM s)"
| "perform lib d w (SetEnv m details vars replace) k s = on_control k (control_set_env_list d k w m details vars replace s)"
| "perform lib d w (UnsetEnv m details names) k s = on_control k (control_unset_env_list d k m details names s)"
| "perform lib d w (ResetEnv m details) k s = on_control k (control_reset_env d k w m details s)"
| "perform lib d w (ClassStart m cid env wait) k s = on_control k (job_class_start w cid m env wait s)"
| "perform lib d w (ClassStop m cid env wait) k s = on_control k (job_class_stop w cid m env wait s)"
| "perform lib d w (ClassRestart m cid env wait) k s = on_control k (job_class_restart w cid m env wait s)"
| "perform lib d w (JobStart m jid wait) k s = on_instance k jid (job_start w m wait) s"
| "perform lib d w (JobStop m jid wait) k s = on_instance k jid (job_stop w m wait) s"
| "perform lib d w (JobRestart m jid wait) k s = on_instance k jid (job_restart w m wait) s"
| "perform lib d w (JobReload m jid) k s = on_instance k jid (job_reload w m) s"
| "perform lib d w (GetJobByName m name) k s = on_answer k s (control_get_job_by_name name s)"
| "perform lib d w (GetEnv m details name) k s = on_answer k s (control_get_env d k m details name s)"
| "perform lib d w (ListEnv m details) k s = on_answer k s (control_list_env d k m details s)"
| "perform lib d w (Child pid event status) k s = on_sys k (job_process_handler w pid event status s)"
| "perform lib d w (CloseHandler jid process) k s = on_sys k (with_job jid (job_process_close_handler w process) s)"
| "perform lib d w (ChildReader jid process temporary) k s =
     on_sys k (with_job jid (job_process_child_reader w process temporary) s)"
| "perform lib d w (ReadyFd jid buf) k s = on_sys k (with_job jid (job_process_readyfd_reader w buf) s)"
| "perform lib d w (KillTimer jid) k s =
     on_sys k (with_job jid (\<lambda>s job. map_option (apsnd Some) (job_process_kill_timer w s job)) s)"
| "perform lib d w QuiesceTimer k s = on_sys k (quiesce_wait_callback w s)"
| "perform lib d w (ReloadConfiguration m) k s = on_control k (control_reload_configuration lib d k w m s)"
| "perform lib d w (FileChanged i path statbuf) k s = on_sys k (conf_create_modify_handler lib w i path statbuf s)"
| "perform lib d w (FileDeleted i watch path) k s = on_sys k (conf_delete_handler lib w i watch path s)"
| "perform lib d w (Poll fuel) k s =
     (case event_poll fuel w s of Polled s \<Rightarrow> Next k s | Aborted \<Rightarrow> Abort | OutOfFuel \<Rightarrow> NotYet)"

text \<open>When it can happen. That the objects of a request exist, that timers are set, that changes of files are
  reported by the watch of a source, that the kernel reports real processes, and of traced ones only the forks
  and execs that \<^verbatim>\<open>PTRACE_SETOPTIONS\<close> asked for, is how the requests come about. Three things that can happen in the code
  are left out, because they go wrong there: the address of the cgroup manager arrives while the condition of a waiting class
  does not hold (\<open>cgroup_wait_aborts\<close>); the child that was to be the security or post-stop process of a job reports an error
  (\<open>security_error_stuck\<close>, \<open>post_stop_error_frees\<close>), or another child does when its job has already gone on, other than to stopping; the timer of the shutdown ticks once
  more after the main loop was told to exit, where \<^verbatim>\<open>quiesce_wait_callback\<close> has an assertion.\<close>

text \<open>The error is temporary, or of the process that the job waits for, or the job is stopping already, or no one
  listens to it any more.\<close>

definition error_timely :: "ProcessType \<Rightarrow> bool \<Rightarrow> Job \<Rightarrow> bool" where
  "error_timely process temporary job \<longleftrightarrow>
     temporary \<or> awaited process job \<or> stopping_already process job \<or>
     (case j_process_data job process of None \<Rightarrow> True | Some data \<Rightarrow> \<not> pd_valid data)"

fun enabled :: "action \<Rightarrow> sys \<Rightarrow> bool" where
  "enabled (ClassStart m cid env wait) s \<longleftrightarrow> cid \<in> set (s_registered s)"
| "enabled (ClassStop m cid env wait) s \<longleftrightarrow> cid \<in> set (s_registered s)"
| "enabled (ClassRestart m cid env wait) s \<longleftrightarrow> cid \<in> set (s_registered s)"
| "enabled (JobStart m jid wait) s \<longleftrightarrow> s_jobs s jid \<noteq> None"
| "enabled (JobStop m jid wait) s \<longleftrightarrow> s_jobs s jid \<noteq> None"
| "enabled (JobRestart m jid wait) s \<longleftrightarrow> s_jobs s jid \<noteq> None"
| "enabled (JobReload m jid) s \<longleftrightarrow> s_jobs s jid \<noteq> None"
| "enabled (Child pid event status) s \<longleftrightarrow> pid > 0 \<and>
     (event = NIH_CHILD_PTRACE \<longrightarrow> status = PTRACE_EVENT_FORK \<or> status = PTRACE_EVENT_EXEC)"
| "enabled (NotifyCGroupManagerAddress m address) s \<longleftrightarrow> cgroup_manager_available s \<or> waiting_hold s"
| "enabled (CloseHandler jid process) s \<longleftrightarrow> s_jobs s jid \<noteq> None"
| "enabled (ReadyFd jid buf) s \<longleftrightarrow> s_jobs s jid \<noteq> None"
| "enabled (ChildReader jid process temporary) s \<longleftrightarrow>
     (case s_jobs s jid of None \<Rightarrow> False | Some job \<Rightarrow> error_timely process temporary job)"
| "enabled (KillTimer jid) s \<longleftrightarrow> (case s_jobs s jid of None \<Rightarrow> False | Some job \<Rightarrow> j_kill_timer job \<noteq> None)"
| "enabled QuiesceTimer s \<longleftrightarrow> q_timer (s_quiesce s) \<and> \<not> q_finalising (s_quiesce s)"
| "enabled (FileChanged i path statbuf) s \<longleftrightarrow> watched_path i path s"
| "enabled (FileDeleted i watch path) s \<longleftrightarrow> watched_path i path s"
| "enabled _ s \<longleftrightarrow> True"

definition world_ok :: "conf_lib \<Rightarrow> os \<Rightarrow> bool" where
  "world_ok lib w \<longleftrightarrow> os_ok w \<and> (\<forall>n. os_ptrace_msg w n > 0) \<and> (\<forall>n. os_time w n \<noteq> 0) \<and> lib_ok lib"

inductive reaches :: "conf_lib \<Rightarrow> bus \<Rightarrow> os \<Rightarrow> control \<Rightarrow> sys \<Rightarrow> control \<Rightarrow> sys \<Rightarrow> bool" for lib d w k0 s0 where
  start: "reaches lib d w k0 s0 k0 s0"
| step: "reaches lib d w k0 s0 k s \<Longrightarrow> enabled a s \<Longrightarrow> perform lib d w a k s = Next k' s' \<Longrightarrow> reaches lib d w k0 s0 k' s'"

definition outcome_ok :: "os \<Rightarrow> outcome \<Rightarrow> bool" where
  "outcome_ok w r \<longleftrightarrow> (case r of Next k s \<Rightarrow> sys_ok w s | Abort \<Rightarrow> False | NotYet \<Rightarrow> True)"

lemma on_control_ok: "upholds w {} r \<Longrightarrow> outcome_ok w (on_control k r)"
  by (auto simp: upholds_def on_control_def outcome_ok_def sys_ok_def)

lemma on_answer_ok: "sys_ok w s \<Longrightarrow> \<exists>a. r = Some a \<Longrightarrow> outcome_ok w (on_answer k s r)"
  by (auto simp: on_answer_def outcome_ok_def)

lemma on_sys_ok: "\<exists>s. r = Some s \<and> sys_inv w {} s \<Longrightarrow> outcome_ok w (on_sys k r)"
  by (auto simp: on_sys_def outcome_ok_def sys_ok_def)

lemma on_instance_ok:
  "s_jobs s jid = Some job \<Longrightarrow> method_keeps w {} (f s job) \<Longrightarrow> outcome_ok w (on_instance k jid f s)"
  unfolding on_instance_def by (rule on_sys_ok) (auto simp: method_keeps_def)

lemma registered_class: "sys_inv w X s \<Longrightarrow> cid \<in> set (s_registered s) \<Longrightarrow> \<exists>cls. s_classes s cid = Some cls"
  using sys_inv_table by (fastforce simp: table_ok_def)

lemma control_reload_configuration_inv:
  assumes "sys_inv w {} s" and "lib_ok lib" and "files_ok lib"
  shows "upholds w {} (control_reload_configuration lib d k w m s)"
  using conf_reload_sys [OF assms] assms(1) by (auto simp: control_reload_configuration_def upholds_def)

lemma perform_ok:
  assumes "sys_ok w s" and world: "world_ok lib w" and files: "files_ok lib" and en: "enabled a s"
  shows "outcome_ok w (perform lib d w a k s)"
proof -
  have inv: "sys_inv w {} s" and w: "os_ok w" and clock: "\<forall>n. os_time w n \<noteq> 0" and child: "\<forall>n. os_ptrace_msg w n > 0"
    and lib: "lib_ok lib"
    using assms by (simp_all add: sys_ok_def world_ok_def)
  note sys = on_sys_ok and job = on_instance_ok and ctl = on_control_ok
  show ?thesis
  proof (cases a)
    case (Connect conn)
    then show ?thesis using sys control_server_connect_inv [OF inv] by simp
  next
    case (Disconnect conn)
    then show ?thesis using control_disconnected_inv [OF inv, of conn k]
      by (auto simp: outcome_ok_def sys_ok_def split: prod.splits)
  next
    case (NotifyDBusAddress m address)
    then show ?thesis using control_notify_dbus_address_inv [OF inv, of d m address k]
      by (auto simp: outcome_ok_def sys_ok_def)
  next
    case (ClassStart m cid env wait)
    then show ?thesis using ctl job_class_start_inv [OF inv _ _ w, of cid] registered_class [OF inv, of cid] en by fastforce
  next
    case (ClassStop m cid env wait)
    then show ?thesis using ctl job_class_stop_inv [OF inv _ w, of cid] registered_class [OF inv, of cid] en by fastforce
  next
    case (ClassRestart m cid env wait)
    then show ?thesis using ctl job_class_restart_inv [OF inv _ w, of cid] registered_class [OF inv, of cid] en by fastforce
  next
    case (JobStart m jid wait)
    then show ?thesis using job job_start_inv [OF inv _ w, of jid] en by fastforce
  next
    case (JobStop m jid wait)
    then show ?thesis using job job_stop_inv [OF inv _ w, of jid] en by fastforce
  next
    case (JobRestart m jid wait)
    then show ?thesis using job job_restart_inv [OF inv _ w, of jid] en by fastforce
  next
    case (JobReload m jid)
    then show ?thesis using job job_reload_inv [OF inv _ w, of jid] en by fastforce
  next
    case (Child pid event status)
    then show ?thesis using sys job_process_handler_inv [OF inv w _ child, of pid event status] en by auto
  next
    case (CloseHandler jid process)
    then show ?thesis using sys job_process_close_handler_inv [OF inv _ w, of jid _ process] en by fastforce
  next
    case (ReadyFd jid buf)
    then show ?thesis using sys job_process_readyfd_reader_inv [OF inv _ w, of jid _ buf] en by fastforce
  next
    case (ChildReader jid process temporary)
    then obtain j where "s_jobs s jid = Some j" "error_timely process temporary j" using en by (auto split: option.splits)
    then have "\<exists>s'. with_job jid (job_process_child_reader w process temporary) s = Some s' \<and> sys_inv w {} s'"
      using job_process_child_reader_inv [OF inv _ w, of jid j process temporary] by (auto simp: error_timely_def split: option.splits)
    then show ?thesis using ChildReader sys by simp
  next
    case (NotifyCGroupManagerAddress m address)
    then have "cgroup_manager_available s \<or> waiting_hold s" using en by simp
    then have "upholds w {} (control_notify_cgroup_manager_address d k w m address s)"
    proof
      assume "cgroup_manager_available s"
      then show ?thesis using inv by (simp add: control_notify_cgroup_manager_address_def upholds_def)
    qed (rule control_notify_cgroup_manager_address_inv [OF inv w])
    then show ?thesis using NotifyCGroupManagerAddress ctl by simp
  next
    case (SetLogPriority m priority)
    then show ?thesis using assms(1)
      by (simp add: outcome_ok_def split: sum.split)
  next
    case Terminate
    then show ?thesis using sys quiesce_inv [OF inv w clock, of QUIESCE_REQUESTER_SYSTEM] by simp
  next
    case (KillTimer jid)
    then obtain j where "s_jobs s jid = Some j" "j_kill_timer j \<noteq> None" using en by (auto split: option.splits)
    then show ?thesis using KillTimer sys job_process_kill_timer_inv [OF inv _ w] by simp
  next
    case QuiesceTimer
    then show ?thesis using sys quiesce_wait_callback_inv [OF inv w clock] en by simp
  next
    case (ReloadConfiguration m)
    then show ?thesis by (simp add: on_control_ok control_reload_configuration_inv [OF inv lib files])
  next
    case (FileChanged i path statbuf)
    then show ?thesis using sys conf_changed_sys [OF inv lib files, of i path statbuf] en by auto
  next
    case (FileDeleted i watch path)
    then show ?thesis using sys conf_deleted_sys [OF inv lib files, of i path watch] en by auto
  next
    case (Poll fuel)
    then show ?thesis using event_poll_inv [OF inv w, of fuel]
      by (simp add: outcome_ok_def sys_ok_def split: poll_result.splits)
  qed (simp_all add: on_control_ok on_answer_ok [OF assms(1)] control_get_job_by_name_total [OF inv]
      control_get_env_total [OF inv] control_list_env_total [OF inv] control_emit_event_inv [OF inv] control_end_session_inv [OF inv w clock]
      control_set_env_list_inv [OF inv w] control_unset_env_list_inv [OF inv w] control_reset_env_inv [OF inv w])
qed

lemma reaches_ok:
  assumes "reaches lib d w k0 s0 k s" and "sys_ok w s0" and "world_ok lib w" and "files_ok lib"
  shows "sys_ok w s"
  using assms(1)
proof induction
  case (step k s a k' s')
  then show ?case using perform_ok [OF step.IH assms(3,4) step.hyps(2), of d k] by (simp add: outcome_ok_def)
qed (rule assms(2))

end
