(* ===== verification/ConfProps.thy ===== *)
theory ConfProps
  imports ConfReload
begin

text \<open>
  The properties of loading configuration: which class is registered under each name after a reload or
  a change of a file, which override file counts, how the names of files and jobs correspond, and
  what an error in an override file does.
\<close>

section \<open>A sample\<close>

text \<open>A directory with a job and an override file, whose parser knows one stanza in a file.\<close>

definition sample_files :: "string \<Rightarrow> string \<Rightarrow> string option" where
  "sample_files over = [''/etc/init/a.conf'' \<mapsto> ''nice 5'', ''/etc/init/a.override'' \<mapsto> over]"

definition sample_entries :: "string \<Rightarrow> (string \<Rightarrow> bool \<Rightarrow> bool) \<Rightarrow> (string \<times> bool) list option" where
  "sample_entries dir leave_out =
     Some (filter (\<lambda>(path, regular). \<not> leave_out path False) [(dir @ ''/'' @ ''a.conf'', True), (dir @ ''/'' @ ''a.override'', True)])"

definition sample_dir :: "string \<Rightarrow> conf_lib" where
  "sample_dir over = \<lparr>cl_read = (\<lambda>_. sample_files over), cl_lstat = (\<lambda>_ path. map_option (\<lambda>_. True) (sample_files over path)),
     cl_watch_file = (\<lambda>_ _. True), cl_watch_dir = (\<lambda>_. sample_entries), cl_walk = (\<lambda>_. sample_entries),
     cl_ignore = (\<lambda>_. False), cl_parse_file = sample_parse_file, cl_options = (\<lambda>_. None), cl_debug = False,
     cl_config = sample_nih\<rparr>"

text \<open>The override file is fine, or it has an error.\<close>

definition sample_lib :: conf_lib where
  "sample_lib = sample_dir ''nice 7''"

definition sample_broken :: conf_lib where
  "sample_broken = sample_dir ''nice 50''"

lemma sample_nice_stanza:
  assumes "take_word buf blank_chars False (0, 1) = (Inr ''nice'', pos)"
  shows "parse_job sample_parse_file False sample_nih cls buf (0, 1) = Some (stanza_nice sample_nih buf pos cls)"
  using assms by (simp add: parse_job_def sample_parse_file_def stanzas_def always_def)

lemma sample_nice_steps:
  "take_word ''nice 5'' blank_chars False (0, 1) = (Inr ''nice'', (5, 1))"
  "take_word ''nice 7'' blank_chars False (0, 1) = (Inr ''nice'', (5, 1))"
  "take_word ''nice 50'' blank_chars False (0, 1) = (Inr ''nice'', (5, 1))"
  "next_arg sample_nih ''nice 5'' (5, 1) = (Inr ''5'', (6, 1))"
  "next_arg sample_nih ''nice 7'' (5, 1) = (Inr ''7'', (6, 1))"
  "next_arg sample_nih ''nice 50'' (5, 1) = (Inr ''50'', (7, 1))"
  "skip_comment sample_nih ''nice 5'' (6, 1) = (None, (6, 2))"
  "skip_comment sample_nih ''nice 7'' (6, 1) = (None, (6, 2))"
  "strtol 10 ''5'' = (5, [], False)" "strtol 10 ''7'' = (7, [], False)" "strtol 10 ''50'' = (50, [], False)"
  "to_int 5 = 5" "to_int 7 = 7" "to_int 50 = 50"
  by code_simp+

lemma sample_nice:
  "parse_job sample_parse_file False sample_nih cls ''nice 5'' (0, 1) = Some (None, (6, 2), cls\<lparr>c_nice := 5\<rparr>)"
  "parse_job sample_parse_file False sample_nih cls ''nice 7'' (0, 1) = Some (None, (6, 2), cls\<lparr>c_nice := 7\<rparr>)"
  "parse_job sample_parse_file False sample_nih cls ''nice 50'' (0, 1) =
     Some (Some PARSE_ILLEGAL_NICE, (5, 1), cls\<lparr>c_nice := 50\<rparr>)"
  by (simp_all only: sample_nice_stanza [OF sample_nice_steps(1)] sample_nice_stanza [OF sample_nice_steps(2)]
    sample_nice_stanza [OF sample_nice_steps(3)])
    (simp_all add: stanza_nice_def store_number_def finish_def sample_nice_steps del: One_nat_def)

lemma sample_dir_ok: "lib_ok (sample_dir over)"
proof -
  have "parser_ok (sample_dir over)" using sample_parse_file_handled by (simp add: parser_ok_def sample_dir_def)
  moreover have "walk_ok (sample_dir over)"
    by (auto simp: walk_ok_def visits_def sample_dir_def sample_entries_def)
  ultimately show ?thesis by (simp add: lib_ok_def)
qed

lemma sample_lib_ok: "lib_ok sample_lib" "files_ok sample_lib" "overrides_ok sample_lib"
  using sample_dir_ok
  by (auto simp: sample_lib_def files_ok_def overrides_ok_def sample_dir_def sample_files_def sample_nice split: if_splits
    simp del: One_nat_def)

lemma sample_broken_ok: "lib_ok sample_broken" "files_ok sample_broken"
  using sample_dir_ok
  by (auto simp: sample_broken_def files_ok_def sample_dir_def sample_files_def sample_nice reworked_def split: if_splits
    simp del: One_nat_def)

text \<open>The directory has not been read yet.\<close>

definition sample_empty :: sys where
  "sample_empty = sys_init\<lparr>s_conf := [sample_source []], s_job_environ := Some []\<rparr>"

lemma sample_empty_ok: "sys_inv sample_os {} sample_empty" "conf_settled strict sample_empty"
proof -
  have "conf_fit [sample_source []]" by (simp add: conf_fit_def) (simp add: sample_source_def)
  then show "sys_inv sample_os {} sample_empty"
    by (simp add: sys_inv_def store_ok_def events_ok_def links_ok_def quiesce_ok_def table_ok_def sample_empty_def sys_init_def
      quiesce_in_progress_def class_count_def job_count_def blockers_of_def event_ids_def fresh_ok_def)
  show "conf_settled strict sample_empty"
    by (simp add: conf_settled_def job_class_get_registered_def conf_select_job_def sample_empty_def sys_init_def)
qed

section \<open>Reloading\<close>

text \<open>C4: reloading the configuration keeps classes, jobs and events fitting together, does not abort, and leaves
  under every name the class that the sources prefer - the first one in the order of the sources -
  unless the class registered before still has instances. The sources stay. Files that cannot be read, and
  errors in configuration files, are covered.

  This is under three conditions on the files (\<open>files_ok\<close>), not on the code: their parsing ends; none sets the kill timeout
  to 0; and an error in an override file does not take away the instance name, the command of a process
  or a condition in a way that leaves half of it. \<open>kill_timeout_zero_aborts\<close> and \<open>exec_error_aborts\<close> show that the
  daemon aborts later otherwise. An override file may have any other error, but then (when \<open>strict\<close> is not set, before the
  reload or by it) a class may stay registered that has lost its file, as \<open>override_error_orphans\<close> shows; if no override file has
  an error (\<open>strict\<close>), there is no such class.\<close>

theorem conf_reload_settles:
  assumes "sys_inv w {} s" and "conf_settled strict s" and "lib_ok lib" and "files_ok lib" and "strict \<longrightarrow> overrides_ok lib"
  shows "\<exists>s'. conf_reload lib w s = Some s' \<and> sys_inv w {} s' \<and> shape s' = shape s \<and>
    (\<forall>n. case job_class_get_registered n s' of
       None \<Rightarrow> conf_select_job n s' = None
     | Some reg \<Rightarrow> conf_select_job n s' = Some reg \<or> class_instances s' reg \<noteq> [] \<or>
         \<not> strict \<and> reg \<notin> set (s_sources s'))"
proof -
  have "keeps_conf w strict {} s (conf_reload lib w s)"
    by (rule conf_reload_inv) (use assms in \<open>simp_all add: conf_ok_settled lib_ok_def files_fit_def\<close>)
  then show ?thesis unfolding keeps_conf_def conf_ok_settled conf_settled_def by blast
qed

lemma sample_reloaded:
  "case conf_reload sample_lib sample_os sample_empty of
     None \<Rightarrow> False
   | Some s \<Rightarrow> (case job_class_get_registered ''a'' s of
         None \<Rightarrow> False
       | Some cid \<Rightarrow> (case s_classes s cid of None \<Rightarrow> False | Some cls \<Rightarrow> c_nice cls = 7))"
  by code_simp

lemma sample_broken_reloaded:
  "case conf_reload sample_broken sample_os sample_empty of
     None \<Rightarrow> False
   | Some s \<Rightarrow> (case job_class_get_registered ''a'' s of
         None \<Rightarrow> False
       | Some cid \<Rightarrow> conf_select_job ''a'' s = None \<and> class_instances s cid = [])"
  by code_simp

text \<open>The class of a directory with a good override file, and with a broken one.\<close>

theorem conf_reload_settles_witness:
  "(\<exists>s' cid cls. conf_reload sample_lib sample_os sample_empty = Some s' \<and>
     job_class_get_registered ''a'' s' = Some cid \<and> s_classes s' cid = Some cls \<and> c_nice cls = 7 \<and>
     (conf_select_job ''a'' s' = Some cid \<or> class_instances s' cid \<noteq> [])) \<and>
   (\<exists>s' cid. conf_reload sample_broken sample_os sample_empty = Some s' \<and>
     job_class_get_registered ''a'' s' = Some cid \<and> cid \<notin> set (s_sources s'))"
proof
  obtain s' where run: "conf_reload sample_lib sample_os sample_empty = Some s'"
    and set: "\<forall>n. case job_class_get_registered n s' of
       None \<Rightarrow> conf_select_job n s' = None
     | Some reg \<Rightarrow> conf_select_job n s' = Some reg \<or> class_instances s' reg \<noteq> [] \<or> \<not> True \<and> reg \<notin> set (s_sources s')"
    using conf_reload_settles [OF sample_empty_ok(1) sample_empty_ok(2) [of True] sample_lib_ok(1,2)] sample_lib_ok(3) by blast
  moreover obtain cid cls where "job_class_get_registered ''a'' s' = Some cid" "s_classes s' cid = Some cls" "c_nice cls = 7"
    using sample_reloaded run by (auto split: option.splits)
  ultimately show "\<exists>s' cid cls. conf_reload sample_lib sample_os sample_empty = Some s' \<and>
     job_class_get_registered ''a'' s' = Some cid \<and> s_classes s' cid = Some cls \<and> c_nice cls = 7 \<and>
     (conf_select_job ''a'' s' = Some cid \<or> class_instances s' cid \<noteq> [])"
    using set [rule_format, of "''a''"] by auto
next
  obtain s' where run: "conf_reload sample_broken sample_os sample_empty = Some s'"
    and set: "\<forall>n. case job_class_get_registered n s' of
       None \<Rightarrow> conf_select_job n s' = None
     | Some reg \<Rightarrow> conf_select_job n s' = Some reg \<or> class_instances s' reg \<noteq> [] \<or> \<not> False \<and> reg \<notin> set (s_sources s')"
    using conf_reload_settles [OF sample_empty_ok(1) sample_empty_ok(2) [of False] sample_broken_ok] by blast
  moreover obtain cid where "job_class_get_registered ''a'' s' = Some cid" "conf_select_job ''a'' s' = None" "class_instances s' cid = []"
    using sample_broken_reloaded run by (auto split: option.splits)
  ultimately show "\<exists>s' cid. conf_reload sample_broken sample_os sample_empty = Some s' \<and>
     job_class_get_registered ''a'' s' = Some cid \<and> cid \<notin> set (s_sources s')"
    using set [rule_format, of "''a''"] by auto
qed

text \<open>C5: the same holds after every change of a file that a watch reports, on the same conditions: whether a configuration
  or override file is created, changed or deleted, the classes registered are again the ones the sources prefer,
  wherever they have no instances; only after an error in an override file (\<open>strict\<close> is not set) may a class
  that has lost its file stay registered. A configuration file is loaded with its override; an override file
  makes all configuration files of its name be loaded again.\<close>

theorem conf_watch_settles:
  assumes "sys_inv w {} s" and "conf_settled strict s" and "lib_ok lib" and "files_ok lib" and "strict \<longrightarrow> overrides_ok lib"
    and "watched_path i path s"
    and "r = conf_create_modify_handler lib w i path statbuf s \<or> r = conf_delete_handler lib w i watch_path path s"
  shows "\<exists>s'. r = Some s' \<and> sys_inv w {} s' \<and> conf_settled strict s' \<and> shape s' = shape s"
proof -
  have ok: "conf_ok w strict {} s" using assms(1,2) by (simp add: conf_ok_settled)
  have lib: "parser_ok lib" "files_fit strict lib" using assms(3-5) by (simp_all add: lib_ok_def files_fit_def)
  obtain source where get: "get_source i s = Some source" using assms(6) by (auto simp: watched_path_def split: option.splits)
  have name: "cs_type source = CONF_JOB_DIR \<or> \<not> is_conf_file_std path \<Longrightarrow> is_conf_file path \<Longrightarrow>
      conf_to_job_name (cs_path source) path \<noteq> []"
    using assms(6) get is_conf_file_either by (auto simp: watched_path_def)
  have "keeps_conf w strict {} s r"
    using assms(7) conf_create_modify_handler_inv [OF ok get lib name]
      conf_delete_handler_inv [OF ok get lib, of path] name is_conf_file_either by blast
  then show ?thesis by (auto simp: keeps_conf_def conf_ok_settled)
qed

lemma sample_changed:
  "case conf_create_modify_handler sample_lib sample_os 0 ''/etc/init/a.conf'' (Some True) sample_empty of
     None \<Rightarrow> False
   | Some s \<Rightarrow> job_class_get_registered ''a'' s = Some 0"
  by code_simp

theorem conf_watch_settles_witness:
  "\<exists>s'. conf_create_modify_handler sample_lib sample_os 0 ''/etc/init/a.conf'' (Some True) sample_empty = Some s' \<and>
     job_class_get_registered ''a'' s' = Some 0 \<and> conf_settled True s'"
proof -
  have path: "watched_path 0 ''/etc/init/a.conf'' sample_empty" by code_simp
  from conf_watch_settles [OF sample_empty_ok(1) sample_empty_ok(2) [of True] sample_lib_ok(1,2) _ path disjI1 [OF refl], of "Some True"]
  show ?thesis using sample_changed sample_lib_ok(3) by (auto split: option.splits)
qed

section \<open>Names\<close>

lemma ext_dot: "ext = CONF_EXT_STD \<or> ext = CONF_EXT_OVERRIDE \<Longrightarrow> \<exists>e. ext = CHR ''.'' # e \<and> CHR ''.'' \<notin> set e \<and> CHR ''/'' \<notin> set e"
  by (auto simp: CONF_EXT_STD_def CONF_EXT_OVERRIDE_def)

text \<open>The name of the job of a file in a directory does not depend on which of the two extensions it has.\<close>

lemma job_name_of_file:
  assumes "ext = CONF_EXT_STD \<or> ext = CONF_EXT_OVERRIDE"
  shows "conf_to_job_name dir (dir @ ''/'' @ ys @ ext) = dropWhile (\<lambda>c. c = CHR ''/'') ys"
proof -
  obtain e where e: "ext = CHR ''.'' # e" "CHR ''.'' \<notin> set e" using ext_dot [OF assms] by blast
  have "dropWhile (\<lambda>c. c = CHR ''/'') (ys @ ext) = dropWhile (\<lambda>c. c = CHR ''/'') ys @ ext"
    by (induction ys) (simp_all add: e(1))
  moreover have "strrchr CHR ''.'' (zs @ ext) = Some ext" for zs using strrchr_append [OF e(2), of zs] e(1) by simp
  moreover have "IS_CONF_EXT ext" using assms by (auto simp: IS_CONF_EXT_def IS_CONF_EXT_STD_def IS_CONF_EXT_OVERRIDE_def)
  ultimately show ?thesis by (simp add: conf_to_job_name_def Let_def)
qed

text \<open>C38: the names of configuration and override files correspond: going from one to the other and back gives the
  same path, a configuration file becomes an override file and the other way round, and for a file below the directory of a
  source both paths give the same name of a job.\<close>

theorem toggle_conf_name_round_trip:
  assumes "is_conf_file_std path \<or> is_conf_file_override path"
  shows "\<exists>p. toggle_conf_name path = Some p \<and> toggle_conf_name p = Some path \<and>
    is_conf_file_std p = is_conf_file_override path \<and> is_conf_file_override p = is_conf_file_std path \<and>
    (\<forall>dir rest. path = dir @ ''/'' @ rest \<longrightarrow> conf_to_job_name dir p = conf_to_job_name dir path)"
proof -
  have found: "strrchr CHR ''.'' (xs @ CONF_EXT_OVERRIDE) = Some CONF_EXT_OVERRIDE"
    "strrchr CHR ''.'' (xs @ CONF_EXT_STD) = Some CONF_EXT_STD" for xs
    using strrchr_append [of "CHR ''.''" "''override''" xs] strrchr_append [of "CHR ''.''" "''conf''" xs]
    by (simp_all add: CONF_EXT_OVERRIDE_def CONF_EXT_STD_def)
  have diff: "CONF_EXT_STD \<noteq> CONF_EXT_OVERRIDE" by (simp add: CONF_EXT_OVERRIDE_def CONF_EXT_STD_def)
  define ext where "ext = (if is_conf_file_std path then CONF_EXT_STD else CONF_EXT_OVERRIDE)"
  define new where "new = (if is_conf_file_std path then CONF_EXT_OVERRIDE else CONF_EXT_STD)"
  have ext: "ext = CONF_EXT_STD \<and> new = CONF_EXT_OVERRIDE \<or> ext = CONF_EXT_OVERRIDE \<and> new = CONF_EXT_STD"
    by (simp add: ext_def new_def)
  have "strrchr CHR ''.'' path = Some ext"
    using assms by (auto simp: ext_def is_conf_file_std_def is_conf_file_override_def IS_CONF_EXT_STD_def
      IS_CONF_EXT_OVERRIDE_def split: option.splits)
  then obtain xs where path: "path = xs @ ext" using strrchr_Some by blast
  have job: "conf_to_job_name dir (xs @ new) = conf_to_job_name dir path" if "path = dir @ ''/'' @ rest" for dir rest
  proof -
    obtain e where e: "ext = CHR ''.'' # e" "CHR ''/'' \<notin> set ext" using ext_dot [of ext] ext by auto
    have none: "us @ ''/'' @ rest \<noteq> ext" for us using e(2) by auto
    have "xs @ ext = dir @ (''/'' @ rest)" using that path by simp
    then obtain us where "xs = dir @ us \<and> us @ ext = ''/'' @ rest \<or> xs @ us = dir \<and> ext = us @ ''/'' @ rest"
      unfolding append_eq_append_conv2 by blast
    then have us: "xs = dir @ us" "us @ ext = ''/'' @ rest" using none by metis+
    then obtain ys where "us = ''/'' @ ys" using none [of "[]"] by (cases us) auto
    then have "xs = dir @ ''/'' @ ys" using us(1) by simp
    then show ?thesis using job_name_of_file [of ext dir ys] job_name_of_file [of new dir ys] ext path by auto
  qed
  then show ?thesis
    using diff ext path by (auto simp: toggle_conf_name_def is_conf_file_std_def is_conf_file_override_def IS_CONF_EXT_STD_def
      IS_CONF_EXT_OVERRIDE_def found)
qed

theorem toggle_conf_name_round_trip_witness:
  "toggle_conf_name ''/etc/init/a.conf'' = Some ''/etc/init/a.override'' \<and>
     toggle_conf_name ''/etc/init/a.override'' = Some ''/etc/init/a.conf'' \<and>
     conf_to_job_name ''/etc/init'' ''/etc/init/a.override'' = conf_to_job_name ''/etc/init'' ''/etc/init/a.conf''"
proof -
  have "is_conf_file_std ''/etc/init/a.conf''" by code_simp
  moreover have "toggle_conf_name ''/etc/init/a.conf'' = Some ''/etc/init/a.override''" by code_simp
  ultimately obtain p where p: "toggle_conf_name ''/etc/init/a.conf'' = Some p" "toggle_conf_name p = Some ''/etc/init/a.conf''"
      "p = ''/etc/init/a.override''"
    and job: "''/etc/init/a.conf'' = dir @ ''/'' @ rest \<Longrightarrow> conf_to_job_name dir p = conf_to_job_name dir ''/etc/init/a.conf''" for dir rest
    using toggle_conf_name_round_trip [of "''/etc/init/a.conf''"] by auto
  then show ?thesis using job [of "''/etc/init''" "''a.conf''"] by simp
qed

section \<open>Override files\<close>

text \<open>A directory with an override file for the job.\<close>

definition override_in :: "(string \<Rightarrow> bool option) \<Rightarrow> string \<Rightarrow> ConfSource \<Rightarrow> bool" where
  "override_in lstat name source \<longleftrightarrow>
     cs_type source \<noteq> CONF_FILE \<and> lstat (cs_path source @ ''/'' @ name @ CONF_EXT_OVERRIDE) = Some True"

lemma best_override_loop_first:
  assumes "\<And>n path. cl_lstat lib n path = lstat path" and "k \<le> j" and "j < k + length sources"
    and "cs_type (sources ! (j - k)) \<noteq> CONF_FILE"
  shows "fst (best_override_loop lib name j (List.enumerate k sources) s) =
    map_option (\<lambda>source. cs_path source @ ''/'' @ name @ CONF_EXT_OVERRIDE)
      (find (override_in lstat name) (take (Suc j - k) sources))"
  using assms(2-)
proof (induction sources arbitrary: k s)
  case (Cons source sources)
  have take: "take (Suc j - k) (source # sources) = source # take (j - k) sources" using Cons.prems(1) by (simp add: Suc_diff_le)
  show ?case
  proof (cases "k = j")
    case True
    then show ?thesis using Cons.prems by (simp add: take override_in_def call_def assms(1) Let_def)
  next
    case False
    then have k: "Suc k \<le> j" "j < Suc k + length sources" "cs_type (sources ! (j - Suc k)) \<noteq> CONF_FILE"
      using Cons.prems by (simp_all add: nth_Cons')
    show ?thesis using False Cons.IH [OF k] by (simp add: take override_in_def call_def assms(1) Let_def)
  qed
qed simp

text \<open>C7: the override file that counts is that of the first directory that has one, in the order of the
  sources and up to the source of the configuration file; sources that are single files are passed over.\<close>

theorem conf_get_best_override_first:
  assumes "\<And>n path. cl_lstat lib n path = lstat path" and "get_source j s = Some source" and "cs_type source \<noteq> CONF_FILE"
  shows "fst (conf_get_best_override lib name j s) =
    map_option (\<lambda>source. cs_path source @ ''/'' @ name @ CONF_EXT_OVERRIDE)
      (find (override_in lstat name) (take (Suc j) (s_conf s)))"
  unfolding conf_get_best_override_def
  by (subst best_override_loop_first [OF assms(1)]) (use assms(2,3) in \<open>auto simp: get_source_def split: if_splits\<close>)

theorem conf_get_best_override_first_witness:
  "fst (conf_get_best_override sample_lib ''a'' 0 sample_empty) = Some ''/etc/init/a.override''"
proof -
  let ?lstat = "\<lambda>path. map_option (\<lambda>_. True) (sample_files ''nice 7'' path)"
  have "fst (conf_get_best_override sample_lib ''a'' 0 sample_empty) =
      map_option (\<lambda>source. cs_path source @ ''/'' @ ''a'' @ CONF_EXT_OVERRIDE)
        (find (override_in ?lstat ''a'') (take (Suc 0) (s_conf sample_empty)))"
  proof (rule conf_get_best_override_first)
    show "get_source 0 sample_empty = Some (sample_source [])" by (simp add: get_source_def sample_empty_def)
  qed (simp_all add: sample_lib_def sample_dir_def sample_source_def)
  also have "\<dots> = Some ''/etc/init/a.override''" by code_simp
  finally show ?thesis .
qed

text \<open>C6: an error in an override file is not undone. The class keeps what was read before the error, stays
  registered and can be started, but its file has no class any more: it is no longer the preferred class of its
  name, and a reload does not find it again.\<close>

theorem override_error_orphans:
  assumes "get_source i s = Some source" and "cs_type source = CONF_JOB_DIR" and "lookup_file path source = Some f"
    and "f_job f = Some cid" and "s_classes s cid = Some cls" and "distinct (s_sources s)"
    and "parse_job (cl_parse_file lib) (cl_debug lib) (cl_config lib) cls buf (0, 1) = Some (Some e, pos, cls')"
    and "c_start_on cls' = c_start_on cls" and "c_stop_on cls' = c_stop_on cls"
  shows "\<exists>s'. load_job lib w i path buf s = Some (Some e, s') \<and> s_classes s' cid = Some cls' \<and>
    s_registered s' = s_registered s \<and> cid \<notin> set (s_sources s')"
proof -
  have "parse_into lib w (Some cid) name buf s = Some (Some e, cid, set_class cid cls' s)" for name
    using assms(5,7-9) by (simp add: parse_into_def free_replaced_def)
  then have run: "load_job lib w i path buf s = Some (Some e, put_source i (set_file_job path None source) (set_class cid cls' s))"
    using assms(1,3,4) by (simp add: load_job_def)
  obtain fs1 fs2 where split: "cs_files source = fs1 @ f # fs2" "f_path f = path" "path \<notin> f_path ` set fs1"
    using lookup_file_split [OF assms(3)] .
  let ?source = "set_file_job path None source"
  have "get_source i (set_class cid cls' s) = Some source" using assms(1) get_source_cong [of "set_class cid cls' s" s] by simp
  then obtain A B where jobs: "s_sources (set_class cid cls' s) = A @ source_jobs source @ B"
    "s_sources (put_source i ?source (set_class cid cls' s)) = A @ source_jobs ?source @ B"
    using put_source_jobs by metis
  have "distinct (A @ (jobs_of fs1 @ cid # jobs_of fs2) @ B)"
    using assms(2,4,6) jobs(1) split(1) by (simp add: source_jobs_eq)
  moreover have "source_jobs ?source = jobs_of fs1 @ jobs_of fs2"
    using set_job_of_split [OF split(3,2)] split(1) assms(2) by (simp add: source_jobs_eq set_file_job_def)
  ultimately have "cid \<notin> set (s_sources (put_source i ?source (set_class cid cls' s)))" using jobs(2) by auto
  then show ?thesis using run by simp
qed

theorem override_error_orphans_witness:
  "\<exists>s'. load_job sample_lib sample_os 0 ''/etc/init/aa.conf'' ''nice 50'' sample_two = Some (Some PARSE_ILLEGAL_NICE, s') \<and>
     s_classes s' 2 = Some ((sample_class ''a'')\<lparr>c_nice := 50\<rparr>) \<and> s_registered s' = [2] \<and> 2 \<notin> set (s_sources s')"
proof -
  have "get_source 0 sample_two = Some (sample_source [1, 2])" by (simp add: get_source_def sample_two_def)
  moreover have "cs_type (sample_source [1, 2]) = CONF_JOB_DIR" by (simp add: sample_source_def)
  moreover have "lookup_file ''/etc/init/aa.conf'' (sample_source [1, 2]) =
      Some \<lparr>f_path = ''/etc/init/aa.conf'', f_flag = False, f_job = Some 2\<rparr>" by code_simp
  moreover have "distinct (s_sources sample_two)" "s_registered sample_two = [2]" by (simp_all add: sample_two_def)
  moreover have "parse_job (cl_parse_file sample_lib) (cl_debug sample_lib) (cl_config sample_lib) (sample_class ''a'')
      ''nice 50'' (0, 1) = Some (Some PARSE_ILLEGAL_NICE, (5, 1), (sample_class ''a'')\<lparr>c_nice := 50\<rparr>)"
    unfolding sample_nice(3) [symmetric] by (simp add: sample_lib_def sample_dir_def)
  ultimately show ?thesis
    using override_error_orphans [of 0 sample_two "sample_source [1, 2]" "''/etc/init/aa.conf''" _ 2 "sample_class ''a''"
        sample_lib "''nice 50''" PARSE_ILLEGAL_NICE "(5, 1)" "(sample_class ''a'')\<lparr>c_nice := 50\<rparr>" sample_os]
      sample_two_simps(3) by fastforce
qed

text \<open>What else a broken override can do: after an \<open>exec\<close> without a command the class has a main process without one,
  and \<^verbatim>\<open>job_process_start\<close> asserts that it has. This is one of the files that \<open>files_ok\<close> keeps out.\<close>

lemma exec_error_aborts:
  assumes "\<not> has_token nih file pos" and "c_process cls PROCESS_MAIN = None"
    and "class_of s job = Some (snd (snd (stanza_exec nih file pos cls)))"
  shows "fst (stanza_exec nih file pos cls) = Some NIH_CONFIG_EXPECTED_TOKEN \<and> job_process_start w PROCESS_MAIN s job = None"
  using assms by (simp add: stanza_exec_def parse_exec_def job_process_start_def the_process_def set_process_def nih_assert_def)

end
