(* ===== verification/DaemonProps.thy ===== *)
theory DaemonProps
  imports Daemon ConfProps
begin

text \<open>
  The properties of the daemon as a whole, for all sequences of the steps of \<open>perform\<close> in \<open>Daemon\<close>.
\<close>

section \<open>A sample\<close>

text \<open>One running job, of a class that starts on two events.\<close>

definition sample_daemon :: sys where
  "sample_daemon = sample_state\<lparr>s_classes := [1 \<mapsto> sample_main\<lparr>c_start_on := Some sample_and\<rparr>], s_job_environ := Some []\<rparr>"

definition sample_bus :: bus where
  "sample_bus = \<lparr>bus_connected = (\<lambda>_. True), bus_sender = (\<lambda>_. None), bus_user = (\<lambda>_ _. None),
     bus_conn_user = (\<lambda>_. Some 0), bus_getuid = 0, bus_connect = (\<lambda>_. None), bus_register = (\<lambda>_. True),
     bus_open = (\<lambda>_. None), bus_request_name = (\<lambda>_. 1), bus_str_split = (\<lambda>s. [s])\<rparr>"

definition sample_control :: control where
  "sample_control = \<lparr>k_bus = None, k_bus_address = None, k_log_priority = NIH_LOG_MESSAGE, k_session_bus = False,
     k_insecure = False, k_disable_dbus = False, k_disable_cgroups = False\<rparr>"

lemmas sample_defs = sample_daemon_def sample_state_def sample_sys_def sample_run_def sample_job_def sample_main_def
  sample_class_def job_class_new_def sys_init_def sample_and_def sample_match_def

lemma sample_world: "world_ok sample_lib sample_os"
  by (simp add: world_ok_def sample_os_ok sample_lib_ok(1)) (simp add: sample_os_def)

lemma sample_daemon_ok: "sys_ok sample_os sample_daemon"
proof -
  have "class_fit sample_daemon 1 (sample_main\<lparr>c_start_on := Some sample_and\<rparr>)"
    by (simp add: class_fit_def class_ok_def cond_ok_def sample_defs JOB_DEFAULT_KILL_TIMEOUT_def)
  moreover have "job_fit sample_os sample_daemon 5 sample_run"
    using sample_running(1)
    by (simp add: job_fit_def) (simp add: sample_defs cond_ok_def blocking_ok_def tracked_def wanted_def has_process_def)
  moreover have "table_ok sample_daemon"
    by (simp add: table_ok_def class_name_def sample_defs)
  moreover have "conf_fit [sample_source [1]]" by (simp add: conf_fit_def) (simp add: sample_source_def)
  ultimately have "store_ok sample_os sample_daemon"
    by (simp add: store_ok_def) (simp add: sample_daemon_def sample_state_def sample_sys_def sys_init_def)
  moreover have "events_ok sample_daemon"
    by (simp add: events_ok_def fresh_ok_def event_ids_def class_count_def job_count_def blockers_of_def sample_defs
      class_refs_def job_refs_def cond_refs_def blocked_refs_def)
  moreover have "links_ok {} sample_daemon"
    by (simp add: links_ok_def sample_defs)
  moreover have "quiesce_ok sample_daemon"
    by (simp add: quiesce_ok_def quiesce_in_progress_def sample_defs)
  ultimately show ?thesis by (simp add: sys_ok_def sys_inv_def)
qed

text \<open>A request to emit an event.\<close>

definition sample_emit :: action where
  "sample_emit = EmitEvent 3 ''a'' [''K=v''] True (-1)"

lemma sample_emitted:
  "\<exists>s. perform sample_lib sample_bus sample_os sample_emit sample_control sample_daemon = Next sample_control s \<and>
     reaches sample_lib sample_bus sample_os sample_control sample_daemon sample_control s"
proof -
  have "outcome_ok sample_os (perform sample_lib sample_bus sample_os sample_emit sample_control sample_daemon)"
    by (rule perform_ok [OF sample_daemon_ok sample_world sample_lib_ok(2)]) (simp add: sample_emit_def)
  then obtain s where "perform sample_lib sample_bus sample_os sample_emit sample_control sample_daemon = Next sample_control s"
    by (auto simp: outcome_ok_def sample_emit_def on_control_def split: option.splits)
  then show ?thesis using reaches.step [OF reaches.start, of sample_emit sample_daemon] by (auto simp: sample_emit_def)
qed

lemma sample_polled:
  "case perform sample_lib sample_bus sample_os sample_emit sample_control sample_daemon of
     Next k s \<Rightarrow> (case event_poll 9 sample_os s of Polled s' \<Rightarrow> map e_id (s_events s') = [6] | _ \<Rightarrow> False)
   | _ \<Rightarrow> False"
  by code_simp

lemma sum_dom_nonzero:
  "(\<Sum>x\<in>dom m. f (the (m x))) \<noteq> (0 :: nat) \<Longrightarrow> \<exists>x y. m x = Some y \<and> f y \<noteq> 0"
  by (erule sum.not_neutral_contains_not_neutral) (use domIff in force)

section \<open>Properties\<close>

text \<open>C1: from a state whose classes, jobs and events fit together, after any sequence of the steps of \<open>perform\<close>,
  whatever of these can happen next runs to its end - without an assertion that fails and without a use of a freed object; a poll may
  need more steps - and leaves such a state. The steps are connections and disconnections, the methods of the control interface, the
  end of a session and SIGTERM, the methods of classes and instances, events of child processes, the reports of a child
  that it has been set up, could not be or is ready, the timers of jobs and of the shutdown, a reload and the changes of configuration
  files, and polls of the events.

  Not covered are the following cases, in most of which the code fails, and which \<open>enabled\<close> and \<open>files_ok\<close> keep out: the address of the cgroup manager arrives
  while the condition of a class that waits for it does not hold (\<open>cgroup_wait_aborts\<close>); the child that was to be the security or
  post-stop process of a job reports an error (\<open>security_error_stuck\<close>, \<open>post_stop_error_frees\<close>), or another child does so late that its job
  has got beyond stopping; the timer of the shutdown ticks once more after the main loop was told to exit; a file sets
  the kill timeout to 0 (\<open>kill_timeout_zero_aborts\<close>), or an override file has an error by which the class loses its instance name, the
  command of a process or the form of its conditions (\<open>exec_error_aborts\<close>). Other errors of files and override files are
  covered. Logging and the re-execution of the daemon are no steps.\<close>

theorem daemon_never_aborts:
  assumes "sys_ok w s0" and "world_ok lib w" and "files_ok lib" and "reaches lib d w k0 s0 k s" and "enabled a s"
  shows "perform lib d w a k s \<noteq> Abort \<and> (\<forall>k' s'. perform lib d w a k s = Next k' s' \<longrightarrow> sys_ok w s')"
  using perform_ok [OF reaches_ok [OF assms(4,1-3)] assms(2,3,5), of d k]
  by (auto simp: outcome_ok_def split: outcome.splits)

theorem daemon_never_aborts_witness:
  "\<exists>s. perform sample_lib sample_bus sample_os sample_emit sample_control sample_daemon = Next sample_control s \<and>
     perform sample_lib sample_bus sample_os (Child 42 NIH_CHILD_EXITED 1) sample_control s \<noteq> Abort"
proof -
  obtain s where s: "perform sample_lib sample_bus sample_os sample_emit sample_control sample_daemon = Next sample_control s"
    "reaches sample_lib sample_bus sample_os sample_control sample_daemon sample_control s"
    using sample_emitted by blast
  then show ?thesis
    using daemon_never_aborts [OF sample_daemon_ok sample_world sample_lib_ok(2) s(2), of "Child 42 NIH_CHILD_EXITED 1"] by auto
qed

text \<open>C2: events live exactly as long as something refers to them, and are counted right. In every state that is
  reached by the steps of \<open>perform\<close> (those of \<open>daemon_never_aborts\<close>, the set-up of children and the arrival of the cgroup manager among
  them, with the same exceptions in \<open>enabled\<close> and \<open>files_ok\<close>), the number of blockers of an event is the number of references to it in the start and stop
  conditions of classes and in the stop conditions and the lists of blocked events of jobs.\<close>

theorem daemon_references_counted:
  assumes "sys_ok w s0" and "world_ok lib w" and "files_ok lib" and "reaches lib d w k0 s0 k s" and "event_get i (s_events s) = Some e"
  shows "e_blockers e =
    (\<Sum>c\<in>dom (s_classes s). count_list (class_refs (the (s_classes s c))) i) +
    (\<Sum>j\<in>dom (s_jobs s). count_list (job_refs (the (s_jobs s j))) i)"
proof -
  have "blockers_of (s_events s) i = class_count s i + job_count s {} i"
    using reaches_ok [OF assms(4,1-3)] by (simp add: sys_ok_def sys_inv_def events_ok_def)
  then show ?thesis using assms(5) by (simp add: blockers_of_def class_count_def job_count_def)
qed

theorem daemon_references_counted_witness:
  "\<exists>s e. perform sample_lib sample_bus sample_os sample_emit sample_control sample_daemon = Next sample_control s \<and>
     event_get 6 (s_events s) = Some e \<and>
     e_blockers e = (\<Sum>c\<in>dom (s_classes s). count_list (class_refs (the (s_classes s c))) 6) +
       (\<Sum>j\<in>dom (s_jobs s). count_list (job_refs (the (s_jobs s j))) 6)"
proof -
  obtain s where s: "perform sample_lib sample_bus sample_os sample_emit sample_control sample_daemon = Next sample_control s"
    "reaches sample_lib sample_bus sample_os sample_control sample_daemon sample_control s"
    using sample_emitted by blast
  have "event_get 6 (s_events s) \<noteq> None"
    using s(1) by (auto simp: sample_emit_def on_control_def control_emit_event_with_file_def control_check_permission_def
      control_get_origin_uid_def sample_bus_def sample_control_def environ_all_valid_iff entry_valid_def event_create_def
      event_new_def set_events_def event_ids_def event_upd_def sample_defs)
  then show ?thesis using s(1) daemon_references_counted [OF sample_daemon_ok sample_world sample_lib_ok(2) s(2)] by blast
qed

text \<open>C3: no job waits for an event that is gone, and no event holds a job that does not wait for it. In every state
  that is reached by the steps of \<open>perform\<close> (those of \<open>daemon_never_aborts\<close>, with the same exceptions in \<open>enabled\<close> and
  \<open>files_ok\<close>), a job is blocked by an event exactly when the event is in the list of events, is not finished,
  and has the job in the list of what it blocks.\<close>

theorem daemon_blocked_jobs:
  assumes "sys_ok w s0" and "world_ok lib w" and "files_ok lib" and "reaches lib d w k0 s0 k s" and "s_jobs s jid = Some job"
  shows "j_blocker job = Some i \<longleftrightarrow>
    (\<exists>e\<in>set (s_events s). e_id e = i \<and> e_progress e \<noteq> EVENT_FINISHED \<and> blocked_new BLOCKED_JOB jid \<in> set (e_blocking e))"
proof -
  have links: "links_ok {} s" using reaches_ok [OF assms(4,1-3)] by (simp add: sys_ok_def sys_inv_def)
  then show ?thesis
    using assms(5) by (fastforce simp: links_ok_def blocks_ok_def blocker_ok_def blocked_new_def)
qed

theorem daemon_blocked_jobs_witness:
  "\<exists>s. perform sample_lib sample_bus sample_os sample_emit sample_control sample_daemon = Next sample_control s \<and>
     (\<forall>e\<in>set (s_events s). \<forall>job. s_jobs s 5 = Some job \<longrightarrow> j_blocker job = None \<longrightarrow> e_progress e \<noteq> EVENT_FINISHED \<longrightarrow>
        blocked_new BLOCKED_JOB 5 \<notin> set (e_blocking e))"
proof -
  obtain s where s: "perform sample_lib sample_bus sample_os sample_emit sample_control sample_daemon = Next sample_control s"
    "reaches sample_lib sample_bus sample_os sample_control sample_daemon sample_control s"
    using sample_emitted by blast
  then show ?thesis using daemon_blocked_jobs [OF sample_daemon_ok sample_world sample_lib_ok(2) s(2)] by (metis option.distinct(1))
qed

text \<open>C8: when \<^verbatim>\<open>event_poll\<close> returns there is nothing left to do: every event that is still there is being handled, and
  a condition of a class or a job holds it; events that nothing refers to are gone.\<close>

theorem event_poll_settles:
  assumes "sys_ok w s" and "os_ok w" and "event_poll fuel w s = Polled s'" and "e \<in> set (s_events s')"
  shows "e_progress e = EVENT_HANDLING \<and>
    ((\<exists>c cls. s_classes s' c = Some cls \<and> e_id e \<in> set (class_refs cls)) \<or>
     (\<exists>j job. s_jobs s' j = Some job \<and> e_id e \<in> set (job_refs job)))"
proof -
  have ok: "events_ok s'" using event_poll_inv [of w s fuel] assms(1-3) by (auto simp: sys_ok_def sys_inv_def)
  have "e_id e \<in> event_ids (s_events s')" using assms(4) by (simp add: event_ids_def)
  then obtain e' where e': "event_get (e_id e) (s_events s') = Some e'" "e_progress e' = EVENT_HANDLING" "e_blockers e' \<noteq> 0"
    using event_poll_idle [OF assms(3)] by blast
  have "inj_on e_id (set (s_events s'))" using ok by (simp add: events_ok_def distinct_map)
  then have "e' = e" using event_get_set [OF e'(1)] event_get_id [OF e'(1)] assms(4) by (auto dest: inj_onD)
  moreover have "class_count s' (e_id e) + job_count s' {} (e_id e) \<noteq> 0"
    using ok e'(1,3) by (auto simp: events_ok_def blockers_of_def dest: spec [of _ "e_id e"])
  then consider "class_count s' (e_id e) \<noteq> 0" | "job_count s' {} (e_id e) \<noteq> 0" by linarith
  then have "(\<exists>c cls. s_classes s' c = Some cls \<and> e_id e \<in> set (class_refs cls)) \<or>
     (\<exists>j job. s_jobs s' j = Some job \<and> e_id e \<in> set (job_refs job))"
    using sum_dom_nonzero [of "\<lambda>c. count_list (class_refs c) (e_id e)" "s_classes s'"]
      sum_dom_nonzero [of "\<lambda>j. count_list (job_refs j) (e_id e)" "s_jobs s'"]
    by cases (auto simp: class_count_def job_count_def count_list_0_iff)
  ultimately show ?thesis using e'(2) by blast
qed

theorem event_poll_settles_witness:
  "\<exists>s s'. perform sample_lib sample_bus sample_os sample_emit sample_control sample_daemon = Next sample_control s \<and>
     event_poll 9 sample_os s = Polled s' \<and>
     ((\<exists>c cls. s_classes s' c = Some cls \<and> 6 \<in> set (class_refs cls)) \<or>
      (\<exists>j job. s_jobs s' j = Some job \<and> 6 \<in> set (job_refs job)))"
proof -
  obtain s where s: "perform sample_lib sample_bus sample_os sample_emit sample_control sample_daemon = Next sample_control s"
    "reaches sample_lib sample_bus sample_os sample_control sample_daemon sample_control s"
    using sample_emitted by blast
  then obtain s' where s': "event_poll 9 sample_os s = Polled s'" "map e_id (s_events s') = [6]"
    using sample_polled by (auto split: poll_result.splits)
  then obtain e where "e \<in> set (s_events s')" "e_id e = 6" by (cases "s_events s'") auto
  then show ?thesis
    using s(1) s'(1) event_poll_settles [OF reaches_ok [OF s(2) sample_daemon_ok sample_world sample_lib_ok(2)] sample_os_ok s'(1)] by metis
qed

text \<open>C9: a class with a cgroup stanza whose start condition has been matched in part makes the daemon abort when the
  address of the cgroup manager is announced: \<^verbatim>\<open>event_pending_handle_jobs\<close> marks the class as waiting at
  the first event that matches, and \<^verbatim>\<open>job_class_induct_jobs\<close> asserts that the condition of a waiting class holds.\<close>

theorem cgroup_wait_aborts:
  assumes "control_check_permission d k message" and "\<not> k_disable_cgroups k" and "\<not> cgroup_manager_available s"
    and "s_registered s = cids @ cid # rest"
    and "\<forall>c\<in>set cids. \<exists>cls. s_classes s c = Some cls \<and> (c_start_on cls = None \<or> \<not> c_cgmanager_wait cls)"
    and "s_classes s cid = Some cls" and "c_cgmanager_wait cls" and "c_start_on cls = Some t" and "\<not> oper_value t"
  shows "control_notify_cgroup_manager_address d k w message address s = None"
proof -
  let ?s = "cgroup_manager_set_address address s"
  have "foldM (induct_waiting w) cids (True, ?s) = Some (True, ?s)"
    using assms(5) by (induction cids) (auto simp: induct_waiting_def cgroup_manager_set_address_def split: option.splits)
  moreover have "induct_waiting w cid (True, ?s) = None"
    using assms(6-9) by (simp add: induct_waiting_def cgroup_manager_set_address_def nih_assert_def)
  ultimately have "foldM (induct_waiting w) (cids @ cid # rest) (True, ?s) = None" by (simp add: foldM_append)
  moreover have "s_registered ?s = cids @ cid # rest" "cgroup_manager_available ?s"
    using assms(4) by (simp_all add: cgroup_manager_set_address_def cgroup_manager_available_def)
  ultimately show ?thesis
    using assms(1-3) by (simp add: control_notify_cgroup_manager_address_def job_class_induct_jobs_def)
qed

text \<open>The state after one of the two events, with the cgroup manager not yet there.\<close>

definition sample_cgroup :: sys where
  "sample_cgroup = sample_daemon\<lparr>s_classes := [1 \<mapsto> sample_main\<lparr>c_start_on := Some sample_and,
     c_cgroups := [\<lparr>cg_controller = ''cpu'', cg_names = []\<rparr>]\<rparr>]\<rparr>"

definition sample_cgroup_polled :: poll_result where
  "sample_cgroup_polled =
     (case perform sample_lib sample_bus sample_os sample_emit sample_control sample_cgroup of
        Next k s \<Rightarrow> event_poll 9 sample_os s | _ \<Rightarrow> Aborted)"

lemma sample_cgroup_waits:
  "case sample_cgroup_polled of
     Polled s \<Rightarrow> s_registered s = [1] \<and> s_cgroup_manager s = None \<and>
       (case s_classes s 1 of
          None \<Rightarrow> False
        | Some cls \<Rightarrow> c_cgmanager_wait cls \<and> (case c_start_on cls of None \<Rightarrow> False | Some t \<Rightarrow> \<not> oper_value t))
   | _ \<Rightarrow> False"
  by code_simp

theorem cgroup_wait_aborts_witness:
  "\<exists>s. sample_cgroup_polled = Polled s \<and>
     control_notify_cgroup_manager_address sample_bus sample_control sample_os 4 ''unix:/x'' s = None"
proof -
  obtain s where s: "sample_cgroup_polled = Polled s" "s_registered s = [] @ 1 # []" "s_cgroup_manager s = None"
    using sample_cgroup_waits by (auto split: poll_result.splits)
  moreover obtain cls t where "s_classes s 1 = Some cls" "c_cgmanager_wait cls" "c_start_on cls = Some t" "\<not> oper_value t"
    using sample_cgroup_waits unfolding s(1)
    by (cases "s_classes s 1"; cases "c_start_on (the (s_classes s 1))") auto
  moreover have "control_check_permission sample_bus sample_control 4" "\<not> k_disable_cgroups sample_control"
    by (simp_all add: control_check_permission_def control_get_origin_uid_def sample_bus_def sample_control_def)
  ultimately show ?thesis
    using cgroup_wait_aborts [of sample_bus sample_control 4 s "[]" 1 "[]" cls t] by (auto simp: cgroup_manager_available_def)
qed

end
