(* ===== verification/Log.thy ===== *)
theory Log
  imports Prelude "HOL-Library.Sublist"
begin

text \<open>
  \<^verbatim>\<open>src/init/log.c\<close>: the output of jobs goes to files. What cannot be written is kept in a buffer, and
  logs whose jobs have ended before the disk was writeable wait in a list.

  \<open>log_os\<close> stands for the kernel, its answers being functions of the number of system calls made:
  the link count of an open file, the result of opening and how much of a text is written. Bytes are
  characters. \<open>l_written\<close> is not part of the structure: it is what has been written to the file.
  Memory allocation does not fail.
\<close>

section \<open>Definitions\<close>

definition ENOSPC :: int where "ENOSPC = 28"
definition EROFS :: int where "EROFS = 30"
definition EPERM :: int where "EPERM = 1"
definition EACCES :: int where "EACCES = 13"
definition EIO :: int where "EIO = 5"
definition EINTR :: int where "EINTR = 4"
definition EAGAIN :: int where "EAGAIN = 11"
definition EWOULDBLOCK :: int where "EWOULDBLOCK = EAGAIN"
definition POSIX_PATH_MAX :: nat where "POSIX_PATH_MAX = 256"
definition PATH_MAX :: nat where "PATH_MAX = 4096"

text \<open>\<open>l_io\<close> is the receive buffer of the NihIo, or \<open>None\<close> where that is NULL.\<close>

record Log =
  l_fd :: int
  l_path :: string
  l_io :: "string option"
  l_uid :: int
  l_unflushed :: string
  l_detached :: bool
  l_remote_closed :: bool
  l_open_errno :: int
  l_written :: string

text \<open>\<open>lo_errno\<close> is the value of errno after an \<^verbatim>\<open>open\<close> that succeeded.\<close>

record log_os =
  lo_nlink :: "nat \<Rightarrow> int + nat"
  lo_open :: "nat \<Rightarrow> int + int"
  lo_errno :: "nat \<Rightarrow> int"
  lo_write :: "nat \<Rightarrow> string \<Rightarrow> int + nat"

definition log_new :: "string \<Rightarrow> int \<Rightarrow> int \<Rightarrow> Log option option" where
  "log_new path fd uid = do {
     nih_assert (fd > 0);
     Some (if uid \<noteq> 0 then None
       else if path = [] then None
       else if (if hd path = CHR ''/'' then length path + 1 > POSIX_PATH_MAX else length path + 1 > PATH_MAX) then None
       else Some \<lparr>l_fd = -1, l_path = path, l_io = Some [], l_uid = uid, l_unflushed = [], l_detached = False,
              l_remote_closed = False, l_open_errno = 0, l_written = []\<rparr>)
   }"

text \<open>The state: the log and the number of system calls.\<close>

type_synonym log_state = "Log \<times> nat"

definition log_file_open :: "log_os \<Rightarrow> log_state \<Rightarrow> (bool \<times> log_state) option" where
  "log_file_open w = (\<lambda>(log, n). do {
     nih_assert (l_uid log = 0);
     let nlink = (if l_fd log < 0 then Inl 9 else lo_nlink w n);
     if l_fd log > -1 \<and> (case nlink of Inl _ \<Rightarrow> False | Inr k \<Rightarrow> k \<noteq> 0) then Some (True, log, n + 1)
     else do {
       let log = (if l_fd log > -1 then log\<lparr>l_fd := -1\<rparr> else log);
       nih_assert (l_fd log = -1);
       Some (case lo_open w (n + 1) of
           Inl e \<Rightarrow> (False, log\<lparr>l_open_errno := e\<rparr>, n + 2)
         | Inr fd \<Rightarrow> (True, log\<lparr>l_fd := fd, l_open_errno := lo_errno w (n + 1)\<rparr>, n + 2))
     }
   })"

text \<open>The label \<open>error\<close> of \<^verbatim>\<open>log_file_write\<close>.\<close>

definition write_error :: "log_state \<Rightarrow> (bool \<times> log_state) option" where
  "write_error = (\<lambda>(log, n). Some (False, log\<lparr>l_fd := -1\<rparr>, n))"

text \<open>\<open>data\<close> is the new output, empty where the code passes NULL; it stands at the start of the receive
  buffer, from which it is removed.\<close>

definition shrink_recv :: "nat \<Rightarrow> Log \<Rightarrow> Log" where
  "shrink_recv k log = log\<lparr>l_io := map_option (drop k) (l_io log)\<rparr>"

definition keep_new :: "int \<Rightarrow> string \<Rightarrow> Log \<Rightarrow> Log" where
  "keep_new e data log = shrink_recv (length data)
     (if e \<noteq> ENOSPC then log\<lparr>l_unflushed := l_unflushed log @ data\<rparr> else log)"

text \<open>Writing the unflushed data: the result is the error, if any.\<close>

definition write_unflushed :: "log_os \<Rightarrow> log_state \<Rightarrow> int option \<times> log_state" where
  "write_unflushed w = (\<lambda>(log, n).
     if l_unflushed log = [] then (None, log, n)
     else (case lo_write w n (l_unflushed log) of
         Inl e \<Rightarrow> (Some e, log, n + 1)
       | Inr k \<Rightarrow> (None, log\<lparr>l_written := l_written log @ take k (l_unflushed log),
                    l_unflushed := drop k (l_unflushed log)\<rparr>, n + 1)))"

definition log_file_write :: "log_os \<Rightarrow> string \<Rightarrow> log_state \<Rightarrow> (bool \<times> log_state) option" where
  "log_file_write w data = (\<lambda>(log, n). do {
     nih_assert (l_fd log \<noteq> -1);
     nih_assert (l_uid log = 0);
     (case write_unflushed w (log, n) of
        (Some e, log, n) \<Rightarrow> write_error (keep_new e data log, n)
      | (None, log, n) \<Rightarrow>
          if l_unflushed log \<noteq> [] then write_error (keep_new 0 data log, n)
          else if data = [] then Some (True, log, n)
          else (case lo_write w n data of
              Inl e \<Rightarrow> write_error (keep_new e data log, n + 1)
            | Inr k \<Rightarrow> Some (True, shrink_recv k (log\<lparr>l_written := l_written log @ take k data\<rparr>), n + 1)))
   })"

text \<open>The reader is called with the whole receive buffer.\<close>

definition log_io_reader :: "log_os \<Rightarrow> log_state \<Rightarrow> log_state option" where
  "log_io_reader w = (\<lambda>(log, n). do {
     data \<leftarrow> l_io log;
     nih_assert (data \<noteq> []);
     nih_assert (l_uid log = 0);
     (ok, log, n) \<leftarrow> log_file_open w (log, n);
     if \<not> ok then Some (keep_new (l_open_errno log) data log, n)
     else do {
       (_, st) \<leftarrow> log_file_write w data (log, n);
       Some st
     }
   })"

definition log_io_error_handler :: "int \<Rightarrow> Log \<Rightarrow> Log option" where
  "log_io_error_handler e log = do {
     nih_assert (l_uid log = 0);
     nih_assert (e = EIO);
     Some (log\<lparr>l_io := None, l_remote_closed := True\<rparr>)
   }"

text \<open>The results of \<^verbatim>\<open>read\<close> on the terminal of the job: an error, or what was read, nothing at the end of
  the data. The list ends with the answers that are used; \<open>None\<close> is an abort or an answer that is missing.\<close>

fun log_read_loop :: "log_os \<Rightarrow> (int + string) list \<Rightarrow> log_state \<Rightarrow> (log_state \<times> (int + string) list) option" where
  "log_read_loop w [] st = None"
| "log_read_loop w (r # rs) (log, n) = do {
     data \<leftarrow> l_io log;
     let data = data @ (case r of Inl _ \<Rightarrow> [] | Inr d \<Rightarrow> d);
     let log = log\<lparr>l_io := Some data\<rparr>;
     (log, n) \<leftarrow> (if data \<noteq> [] then log_io_reader w (log, n) else Some (log, n));
     (case r of
        Inl e \<Rightarrow>
          if e = EINTR then log_read_loop w rs (log, n)
          else Some ((log\<lparr>l_remote_closed := l_remote_closed log \<or> e \<noteq> EAGAIN \<and> e \<noteq> EWOULDBLOCK, l_fd := -1\<rparr>, n), rs)
      | Inr d \<Rightarrow>
          if d \<noteq> [] then log_read_loop w rs (log, n)
          else Some ((log\<lparr>l_fd := -1\<rparr>, n), rs))
   }"

definition log_read_watch :: "log_os \<Rightarrow> (int + string) list \<Rightarrow> log_state \<Rightarrow> (log_state \<times> (int + string) list) option" where
  "log_read_watch w rs st = (if l_io (fst st) = None then Some (st, rs) else log_read_loop w rs st)"

text \<open>\<open>valid\<close> tells whether the terminal is still a valid descriptor afterwards.\<close>

definition log_flush :: "log_os \<Rightarrow> bool \<Rightarrow> (int + string) list \<Rightarrow> log_state \<Rightarrow> log_state option" where
  "log_flush w valid rs = (\<lambda>(log, n). do {
     nih_assert (l_uid log = 0);
     (ok, log, n) \<leftarrow>
       (if l_unflushed log \<noteq> [] then do {
          (ok, log, n) \<leftarrow> log_file_open w (log, n);
          if \<not> ok then Some (False, log, n) else log_file_write w [] (log, n)
        } else Some (True, log, n));
     if \<not> ok then Some (log\<lparr>l_fd := -1\<rparr>, n)
     else if l_io log = None then Some (log\<lparr>l_fd := -1\<rparr>, n)
     else do {
       ((log, n), _) \<leftarrow> (if \<not> l_remote_closed log then log_read_watch w rs (log, n) else Some ((log, n), rs));
       let log = (if valid then log else log\<lparr>l_io := None\<rparr>);
       Some (log\<lparr>l_fd := -1\<rparr>, n)
     }
   })"

definition log_destroy :: "log_os \<Rightarrow> bool \<Rightarrow> (int + string) list \<Rightarrow> log_state \<Rightarrow> log_state option" where
  "log_destroy w valid rs = (\<lambda>(log, n). do {
     nih_assert (l_uid log = 0);
     (log, n) \<leftarrow> log_flush w valid rs (log, n);
     Some (log\<lparr>l_fd := -1\<rparr>, n)
   })"

section \<open>Logs of jobs that have ended\<close>

text \<open>\<open>lg_files\<close> is \<^verbatim>\<open>log_unflushed_files\<close>. The result of \<^verbatim>\<open>log_handle_unflushed\<close> is whether the log was
  added to the list; if not it stays with the process of the job. Freed logs are lost; what they have written
  is collected in \<open>lg_done\<close>.\<close>

record logs =
  lg_files :: "Log list"
  lg_flushed :: bool
  lg_done :: "Log list"

definition log_handle_unflushed ::
    "log_os \<Rightarrow> (int + string) list \<Rightarrow> log_state \<Rightarrow> logs \<Rightarrow> (bool \<times> log_state \<times> logs) option" where
  "log_handle_unflushed w rs = (\<lambda>(log, n) g. do {
     nih_assert (\<not> l_detached log);
     ((log, n), _) \<leftarrow> log_read_watch w rs (log, n);
     if l_unflushed log = [] then Some (False, (log, n), g)
     else if l_open_errno log \<notin> {EROFS, EPERM, EACCES} \<or> lg_flushed g then Some (False, (log, n), g)
     else do {
       let log = log\<lparr>l_detached := True\<rparr>;
       Some (True, (log, n), g\<lparr>lg_files := log # lg_files g\<rparr>)
     }
   })"

text \<open>Each log has its own answers to reads and its own descriptor, in the order of the list.\<close>

fun clear_loop :: "log_os \<Rightarrow> (bool \<times> (int + string) list) list \<Rightarrow> nat \<Rightarrow> logs \<Rightarrow> (bool \<times> nat \<times> logs) option" where
  "clear_loop w [] n g = (if lg_files g = [] then Some (True, n, g) else None)"
| "clear_loop w ((valid, rs) # rss) n g =
     (case lg_files g of
        [] \<Rightarrow> Some (True, n, g)
      | log # files \<Rightarrow>
          if l_unflushed log = [] then do {
            (log, n) \<leftarrow> log_destroy w valid rs (log\<lparr>l_io := None\<rparr>, n);
            clear_loop w rss n (g\<lparr>lg_files := files, lg_done := lg_done g @ [log]\<rparr>)
          }
          else do {
            nih_assert (l_detached log);
            nih_assert (l_open_errno log \<noteq> 0);
            nih_assert (l_remote_closed log \<or> l_io log \<noteq> None);
            (ok, log, n) \<leftarrow> log_file_open w (log, n);
            if \<not> ok then Some (False, n, g\<lparr>lg_files := log # files\<rparr>)
            else do {
              (ok, log, n) \<leftarrow> log_file_write w [] (log, n);
              if \<not> ok then Some (False, n, g\<lparr>lg_files := log # files\<rparr>)
              else do {
                (log, n) \<leftarrow> log_destroy w valid rs (log, n);
                clear_loop w rss n (g\<lparr>lg_files := files, lg_done := lg_done g @ [log]\<rparr>)
              }
            }
          })"

definition log_clear_unflushed ::
    "log_os \<Rightarrow> (bool \<times> (int + string) list) list \<Rightarrow> nat \<Rightarrow> logs \<Rightarrow> (bool \<times> nat \<times> logs) option" where
  "log_clear_unflushed w rss n g = do {
     (ok, n, g) \<leftarrow> clear_loop w rss n g;
     Some (ok, n, if ok then g\<lparr>lg_flushed := True\<rparr> else g)
   }"

end
