(* ===== verification/LogProps.thy ===== *)
theory LogProps
  imports Log
begin

text \<open>
  The properties of \<^verbatim>\<open>src/init/log.c\<close>: output is neither lost nor put in another order, whatever the kernel
  answers, unless the disk is full; and flushing the waiting logs writes all they hold.
\<close>

section \<open>What a log holds\<close>

definition recv :: "Log \<Rightarrow> string" where
  "recv log = (case l_io log of None \<Rightarrow> [] | Some d \<Rightarrow> d)"

text \<open>All output that has come in, in order: in the file, in the buffer and not yet handled.\<close>

definition held :: "Log \<Rightarrow> string" where
  "held log = l_written log @ l_unflushed log @ recv log"

definition log_ok :: "Log \<Rightarrow> bool" where
  "log_ok log \<longleftrightarrow> l_uid log = 0 \<and> l_fd log \<ge> -1 \<and> (l_io log = None \<longrightarrow> l_remote_closed log)"

text \<open>Descriptors are not negative; a disk that never fills up.\<close>

definition log_os_ok :: "log_os \<Rightarrow> bool" where
  "log_os_ok w \<longleftrightarrow> (\<forall>n fd. lo_open w n = Inr fd \<longrightarrow> fd \<ge> 0)"

definition roomy :: "log_os \<Rightarrow> bool" where
  "roomy w \<longleftrightarrow> (\<forall>n. lo_open w n \<noteq> Inl ENOSPC) \<and> (\<forall>n x. lo_write w n x \<noteq> Inl ENOSPC)"

text \<open>From one state of a log to a later one, with new output: nothing comes twice or in another order, and where there
  is room nothing is lost; what is in the file stays there.\<close>

definition carries :: "log_os \<Rightarrow> string \<Rightarrow> Log \<Rightarrow> Log \<Rightarrow> bool" where
  "carries w d log log' \<longleftrightarrow> subseq (held log') (held log @ d) \<and> (roomy w \<longrightarrow> held log' = held log @ d) \<and>
     prefix (l_written log) (l_written log')"

lemma carries_refl: "carries w [] log log"
  by (simp add: carries_def)

lemma carries_trans:
  assumes "carries w d log log1" and "carries w d' log1 log2"
  shows "carries w (d @ d') log log2"
proof -
  have "subseq (held log1 @ d') ((held log @ d) @ d')"
    using assms(1) unfolding carries_def by (intro list_emb_append_mono) auto
  then have "subseq (held log2) (held log @ d @ d')" using assms(2) subseq_order.trans by (fastforce simp: carries_def)
  then show ?thesis using assms prefix_order.trans by (fastforce simp: carries_def)
qed

lemma carries_same:
  "carries w d log log' \<Longrightarrow> l_written log2 = l_written log' \<Longrightarrow> l_unflushed log2 = l_unflushed log' \<Longrightarrow>
     l_io log2 = l_io log' \<Longrightarrow> carries w d log log2"
  by (simp add: carries_def held_def recv_def)

lemma carries_fd: "carries w d log (log'\<lparr>l_fd := fd\<rparr>) = carries w d log log'"
  by (simp add: carries_def held_def recv_def)

section \<open>Files\<close>

text \<open>What all operations keep of a log.\<close>

definition same_log :: "Log \<Rightarrow> Log \<Rightarrow> bool" where
  "same_log log log' \<longleftrightarrow> (l_io log' = None) = (l_io log = None) \<and> l_detached log' = l_detached log \<and> l_path log' = l_path log \<and>
     (l_remote_closed log \<longrightarrow> l_remote_closed log')"

lemma same_log_refl: "same_log log log"
  by (simp add: same_log_def)

lemma same_log_trans: "same_log a b \<Longrightarrow> same_log b c \<Longrightarrow> same_log a c"
  by (simp add: same_log_def)

lemma log_file_open_ok:
  assumes ok: "log_ok log" and w: "log_os_ok w"
  shows "\<exists>b log' n'. log_file_open w (log, n) = Some (b, log', n') \<and> log_ok log' \<and> carries w [] log log' \<and> same_log log log' \<and>
    l_unflushed log' = l_unflushed log \<and> recv log' = recv log \<and> l_written log' = l_written log \<and>
    (if b then l_fd log' > -1 else roomy w \<longrightarrow> l_open_errno log' \<noteq> ENOSPC)"
proof (cases "l_fd log > -1 \<and> (case (if l_fd log < 0 then Inl 9 else lo_nlink w n) of Inl _ \<Rightarrow> False | Inr k \<Rightarrow> k \<noteq> 0)")
  case True
  then show ?thesis using ok carries_refl same_log_refl by (auto simp: log_file_open_def log_ok_def)
next
  case False
  let ?log = "if l_fd log > -1 then log\<lparr>l_fd := -1\<rparr> else log"
  have fd: "l_fd ?log = -1" using ok by (auto simp: log_ok_def)
  show ?thesis
  proof (cases "lo_open w (n + 1)")
    case (Inl e)
    then show ?thesis using False fd ok
      by (auto simp: log_file_open_def Let_def log_ok_def carries_def held_def recv_def same_log_def roomy_def)
  next
    case (Inr f)
    then have "f \<ge> 0" using w by (simp add: log_os_ok_def)
    then show ?thesis using Inr False fd ok
      by (auto simp: log_file_open_def Let_def log_ok_def carries_def held_def recv_def same_log_def)
  qed
qed

lemma write_unflushed_ok:
  assumes "write_unflushed w (log, n) = (e, log', n')"
  shows "l_written log' @ l_unflushed log' = l_written log @ l_unflushed log \<and> prefix (l_written log) (l_written log') \<and>
    l_io log' = l_io log \<and> same_log log log' \<and> l_fd log' = l_fd log \<and> l_uid log' = l_uid log \<and>
    l_remote_closed log' = l_remote_closed log \<and> (\<forall>x. e = Some x \<and> roomy w \<longrightarrow> x \<noteq> ENOSPC)"
  using assms by (auto simp: write_unflushed_def same_log_def roomy_def split: if_splits sum.splits)

lemma keep_new_carries:
  assumes "recv log = data" and "roomy w \<longrightarrow> e \<noteq> ENOSPC"
  shows "carries w [] log (keep_new e data log)"
  using assms by (cases "l_io log") (auto simp: carries_def held_def recv_def keep_new_def shrink_recv_def)

lemma keep_new_nothing [simp]: "keep_new e [] log = log"
  by (cases "l_io log") (simp_all add: keep_new_def shrink_recv_def)

lemma log_file_write_ok:
  assumes ok: "log_ok log" and fd: "l_fd log \<noteq> -1" and data: "data = [] \<or> recv log = data"
  shows "\<exists>b log' n'. log_file_write w data (log, n) = Some (b, log', n') \<and> log_ok log' \<and> carries w [] log log' \<and> same_log log log' \<and>
    (b \<longrightarrow> l_unflushed log' = [] \<and> prefix (l_written log @ l_unflushed log) (l_written log'))"
proof -
  obtain e log1 n1 where run: "write_unflushed w (log, n) = (e, log1, n1)" by (metis prod_cases3)
  note 1 = write_unflushed_ok [OF run]
  have c1: "carries w [] log log1" using 1 by (auto simp: carries_def held_def recv_def simp flip: append_assoc)
  have ok1: "log_ok log1" using ok 1 by (simp add: log_ok_def)
  have r1: "data = [] \<or> recv log1 = data" using data 1 by (simp add: recv_def)
  have keep: "\<exists>b log' n'. write_error (keep_new x data log1, m) = Some (b, log', n') \<and> log_ok log' \<and> carries w [] log log' \<and>
      same_log log log' \<and> (b \<longrightarrow> l_unflushed log' = [] \<and> prefix (l_written log @ l_unflushed log) (l_written log'))"
    if "roomy w \<longrightarrow> x \<noteq> ENOSPC" for x m
  proof -
    have "carries w [] log1 (keep_new x data log1)"
      using r1 keep_new_carries [OF _ that] carries_refl by auto
    from carries_trans [OF c1 this] have "carries w [] log (keep_new x data log1)" by simp
    moreover have "log_ok ((keep_new x data log1)\<lparr>l_fd := -1\<rparr>)" "same_log log1 ((keep_new x data log1)\<lparr>l_fd := -1\<rparr>)"
      using ok1 by (simp_all add: log_ok_def same_log_def keep_new_def shrink_recv_def)
    ultimately show ?thesis using 1 same_log_trans by (auto simp: write_error_def carries_fd)
  qed
  show ?thesis
  proof (cases e)
    case (Some x)
    then show ?thesis using run keep 1 ok fd by (simp add: log_file_write_def log_ok_def)
  next
    case None
    show ?thesis
    proof (cases "l_unflushed log1 = [] \<and> data \<noteq> []")
      case False
      then show ?thesis using run None keep [of 0] ok ok1 fd c1 1
        by (cases "l_unflushed log1 = []") (auto simp: log_file_write_def log_ok_def ENOSPC_def)
    next
      case True
      then have rec: "recv log1 = data" using r1 by simp
      show ?thesis
      proof (cases "lo_write w n1 data")
        case (Inl x)
        then have "roomy w \<longrightarrow> x \<noteq> ENOSPC" by (auto simp: roomy_def)
        then show ?thesis using run None True Inl keep ok fd by (simp add: log_file_write_def log_ok_def)
      next
        case (Inr k)
        let ?log = "shrink_recv k (log1\<lparr>l_written := l_written log1 @ take k data\<rparr>)"
        have "carries w [] log1 ?log"
          using True rec by (cases "l_io log1") (auto simp: carries_def held_def recv_def shrink_recv_def)
        from carries_trans [OF c1 this] have "carries w [] log ?log" by simp
        moreover have "log_ok ?log" "same_log log1 ?log" "l_unflushed ?log = []"
          using ok1 True by (simp_all add: log_ok_def same_log_def shrink_recv_def)
        moreover have "prefix (l_written log @ l_unflushed log) (l_written ?log)"
          using 1 True by (simp add: shrink_recv_def)
        moreover have "log_file_write w data (log, n) = Some (True, ?log, n1 + 1)"
          using run None True Inr ok fd by (simp add: log_file_write_def log_ok_def)
        ultimately show ?thesis using 1 same_log_trans by blast
      qed
    qed
  qed
qed

lemma log_io_reader_ok:
  assumes ok: "log_ok log" and w: "log_os_ok w" and data: "l_io log = Some data" "data \<noteq> []"
  shows "\<exists>log' n'. log_io_reader w (log, n) = Some (log', n') \<and> log_ok log' \<and> carries w [] log log' \<and> same_log log log'"
proof -
  obtain b log1 n1 where 1: "log_file_open w (log, n) = Some (b, log1, n1)" "log_ok log1" "carries w [] log log1" "same_log log log1"
    "recv log1 = recv log" "if b then l_fd log1 > -1 else roomy w \<longrightarrow> l_open_errno log1 \<noteq> ENOSPC"
    using log_file_open_ok [OF ok w] by blast
  have rec: "recv log1 = data" using 1(5) data by (simp add: recv_def)
  show ?thesis
  proof (cases b)
    case True
    obtain c log2 n2 where "log_file_write w data (log1, n1) = Some (c, log2, n2)" "log_ok log2" "carries w [] log1 log2"
      "same_log log1 log2"
      using log_file_write_ok [OF 1(2), of data w n1] rec 1(6) True by auto
    then show ?thesis
      using 1 True data ok carries_trans [OF 1(3)] same_log_trans [OF 1(4)] by (fastforce simp: log_io_reader_def log_ok_def)
  next
    case False
    let ?log = "keep_new (l_open_errno log1) data log1"
    have "carries w [] log1 ?log" using keep_new_carries [OF rec] 1(6) False by simp
    moreover have "log_ok ?log" "same_log log1 ?log" using 1(2) by (auto simp: log_ok_def same_log_def keep_new_def shrink_recv_def)
    ultimately show ?thesis
      using 1 False data ok carries_trans [OF 1(3)] same_log_trans [OF 1(4)] by (fastforce simp: log_io_reader_def log_ok_def)
  qed
qed

section \<open>Reading what is left\<close>

text \<open>What the answers to reads deliver until they end; \<open>None\<close> where they do not.\<close>

fun received :: "(int + string) list \<Rightarrow> string option" where
  "received [] = None"
| "received (Inl e # rs) = (if e = EINTR then received rs else Some [])"
| "received (Inr d # rs) = (if d = [] then Some [] else map_option ((@) d) (received rs))"

lemma carries_recv:
  assumes "l_io log = Some data"
  shows "carries w d log (log\<lparr>l_io := Some (data @ d)\<rparr>)"
  using assms by (simp add: carries_def held_def recv_def)

lemma log_read_step:
  assumes ok: "log_ok log" and w: "log_os_ok w" and io: "l_io log = Some data"
  shows "\<exists>log' n'. (if data @ d \<noteq> [] then log_io_reader w (log\<lparr>l_io := Some (data @ d)\<rparr>, n)
      else Some (log\<lparr>l_io := Some (data @ d)\<rparr>, n)) = Some (log', n') \<and>
    log_ok log' \<and> carries w d log log' \<and> same_log log log'"
proof -
  let ?log = "log\<lparr>l_io := Some (data @ d)\<rparr>"
  have ok': "log_ok ?log" "same_log log ?log" using ok io by (simp_all add: log_ok_def same_log_def)
  show ?thesis
  proof (cases "data @ d = []")
    case True
    then show ?thesis using ok' carries_recv [OF io, of w d] by simp
  next
    case False
    then obtain log' n' where "log_io_reader w (?log, n) = Some (log', n')" "log_ok log'" "carries w [] ?log log'" "same_log ?log log'"
      using log_io_reader_ok [OF ok'(1) w, of "data @ d" n] by auto
    moreover have "carries w d log log'" using carries_trans [OF carries_recv [OF io] \<open>carries w [] ?log log'\<close>] by simp
    ultimately show ?thesis using False same_log_trans [OF ok'(2)] by auto
  qed
qed

lemma log_read_loop_ok:
  assumes "log_ok log" and w: "log_os_ok w" and "l_io log \<noteq> None" and "received rs = Some d"
  shows "\<exists>log' n' rest. log_read_loop w rs (log, n) = Some ((log', n'), rest) \<and> log_ok log' \<and> carries w d log log' \<and> same_log log log'"
  using assms(1,3,4)
proof (induction rs arbitrary: log n d)
  case Nil
  then show ?case by simp
next
  case (Cons r rs)
  obtain data where io: "l_io log = Some data" using Cons.prems(2) by blast
  let ?d = "case r of Inl _ \<Rightarrow> [] | Inr d \<Rightarrow> d"
  obtain log1 n1 where 1: "(if data @ ?d \<noteq> [] then log_io_reader w (log\<lparr>l_io := Some (data @ ?d)\<rparr>, n)
      else Some (log\<lparr>l_io := Some (data @ ?d)\<rparr>, n)) = Some (log1, n1)" "log_ok log1" "carries w ?d log log1" "same_log log log1"
    using log_read_step [OF Cons.prems(1) w io] by blast
  have io1: "l_io log1 \<noteq> None" using 1(4) io by (simp add: same_log_def)
  show ?case
  proof (cases "r = Inl EINTR \<or> (\<exists>x. r = Inr x \<and> x \<noteq> [])")
    case True
    then obtain d' where d': "received rs = Some d'" "d = ?d @ d'" using Cons.prems(3) by (auto split: if_splits)
    obtain log' n' rest where "log_read_loop w rs (log1, n1) = Some ((log', n'), rest)" "log_ok log'" "carries w d' log1 log'"
      "same_log log1 log'"
      using Cons.IH [OF 1(2) io1 d'(1)] by blast
    then show ?thesis
      using True 1(1) io d'(2) carries_trans [OF 1(3)] same_log_trans [OF 1(4)] by (auto simp: Let_def)
  next
    case False
    let ?log = "case r of Inl e \<Rightarrow> log1\<lparr>l_remote_closed := l_remote_closed log1 \<or> e \<noteq> EAGAIN \<and> e \<noteq> EWOULDBLOCK, l_fd := -1\<rparr>
      | Inr _ \<Rightarrow> log1\<lparr>l_fd := -1\<rparr>"
    have "d = ?d" using False Cons.prems(3) by (cases r) auto
    moreover have "log_read_loop w (r # rs) (log, n) = Some ((?log, n1), rs)"
      using False 1(1) io by (cases r) (auto simp: Let_def)
    moreover have "log_ok ?log" "same_log log1 ?log" using 1(2) by (auto simp: log_ok_def same_log_def split: sum.splits)
    moreover have "carries w ?d log ?log"
      by (rule carries_same [OF 1(3)]) (auto split: sum.splits)
    ultimately show ?thesis using same_log_trans [OF 1(4)] by blast
  qed
qed

lemma log_read_watch_ok:
  assumes "log_ok log" and "log_os_ok w" and "received rs = Some d"
  shows "\<exists>log' n' rest. log_read_watch w rs (log, n) = Some ((log', n'), rest) \<and> log_ok log' \<and>
    carries w (if l_io log = None then [] else d) log log' \<and> same_log log log'"
  using log_read_loop_ok [OF assms(1,2) _ assms(3)] assms(1) carries_refl same_log_refl
  by (cases "l_io log") (auto simp: log_read_watch_def)

section \<open>Flushing\<close>

lemma log_flush_ok:
  assumes ok: "log_ok log" and w: "log_os_ok w" and rs: "received rs = Some d"
  shows "\<exists>log' n'. log_flush w valid rs (log, n) = Some (log', n') \<and> l_uid log' = 0 \<and> prefix (l_written log) (l_written log')"
proof -
  have uid: "l_uid log = 0" using ok by (simp add: log_ok_def)
  have "\<exists>b log1 n1. (if l_unflushed log \<noteq> [] then do {
        (ok, log, n) \<leftarrow> log_file_open w (log, n);
        if \<not> ok then Some (False, log, n) else log_file_write w [] (log, n)
      } else Some (True, log, n)) = Some (b, log1, n1) \<and> log_ok log1 \<and> carries w [] log log1"
  proof (cases "l_unflushed log = []")
    case True
    then show ?thesis using ok carries_refl by auto
  next
    case False
    obtain b log1 n1 where 1: "log_file_open w (log, n) = Some (b, log1, n1)" "log_ok log1" "carries w [] log log1"
      "if b then l_fd log1 > -1 else roomy w \<longrightarrow> l_open_errno log1 \<noteq> ENOSPC"
      using log_file_open_ok [OF ok w] by blast
    then show ?thesis
      using False log_file_write_ok [OF 1(2), of "[]" w n1] carries_trans [OF 1(3)] by (cases b) auto
  qed
  then obtain b log1 n1 where 1: "(if l_unflushed log \<noteq> [] then do {
        (ok, log, n) \<leftarrow> log_file_open w (log, n);
        if \<not> ok then Some (False, log, n) else log_file_write w [] (log, n)
      } else Some (True, log, n)) = Some (b, log1, n1)" "log_ok log1" "carries w [] log log1" by blast
  obtain log2 n2 rest where 2: "log_read_watch w rs (log1, n1) = Some ((log2, n2), rest)" "log_ok log2"
    "prefix (l_written log1) (l_written log2)"
    using log_read_watch_ok [OF 1(2) w rs, of n1] by (auto simp: carries_def)
  have "prefix (l_written log) (l_written log1)" using 1(3) by (simp add: carries_def)
  then show ?thesis
    using 1(1,2) 2 uid prefix_order.trans
    by (cases b; cases "l_io log1"; cases "l_remote_closed log1"; cases valid) (auto simp: log_flush_def log_ok_def Let_def)
qed

lemma log_destroy_ok:
  assumes "log_ok log" and "log_os_ok w" and "received rs = Some d"
  shows "\<exists>log' n'. log_destroy w valid rs (log, n) = Some (log', n') \<and> prefix (l_written log) (l_written log')"
  using log_flush_ok [OF assms, of valid n] assms(1) by (auto simp: log_destroy_def log_ok_def)

text \<open>A log that waits in the list.\<close>

definition waits :: "Log \<Rightarrow> bool" where
  "waits log \<longleftrightarrow> log_ok log \<and> l_detached log \<and> l_open_errno log \<noteq> 0"

text \<open>What became of it: all it held unwritten is in the file.\<close>

definition saved :: "Log \<Rightarrow> Log \<Rightarrow> bool" where
  "saved log log' \<longleftrightarrow> prefix (l_written log @ l_unflushed log) (l_written log')"

lemma clear_loop_step:
  assumes log: "waits log" and w: "log_os_ok w" and rs: "received rs = Some d"
    and files: "lg_files g = log # files"
  shows "(\<exists>log' n'. clear_loop w ((valid, rs) # rss) n g =
        clear_loop w rss n' (g\<lparr>lg_files := files, lg_done := lg_done g @ [log']\<rparr>) \<and> saved log log') \<or>
    (\<exists>log' n'. clear_loop w ((valid, rs) # rss) n g = Some (False, n', g\<lparr>lg_files := log' # files\<rparr>) \<and>
        carries w [] log log')"
proof (cases "l_unflushed log = []")
  case True
  have "\<exists>log' n'. log_destroy w valid rs (log\<lparr>l_io := None\<rparr>, n) = Some (log', n') \<and> prefix (l_written log) (l_written log')"
    using log True by (auto simp: log_destroy_def log_flush_def waits_def log_ok_def)
  then obtain log' n' where "log_destroy w valid rs (log\<lparr>l_io := None\<rparr>, n) = Some (log', n')" "saved log log'"
    using True by (auto simp: saved_def)
  then show ?thesis using files True by (intro disjI1) (auto intro!: exI [of _ log'])
next
  case False
  have ok: "log_ok log" using log by (simp add: waits_def)
  have asserts: "l_detached log" "l_open_errno log \<noteq> 0" "l_remote_closed log \<or> l_io log \<noteq> None"
    using log by (auto simp: waits_def log_ok_def)
  obtain b log1 n1 where 1: "log_file_open w (log, n) = Some (b, log1, n1)" "log_ok log1" "carries w [] log log1"
    "l_unflushed log1 = l_unflushed log" "l_written log1 = l_written log"
    "if b then l_fd log1 > -1 else roomy w \<longrightarrow> l_open_errno log1 \<noteq> ENOSPC"
    using log_file_open_ok [OF ok w] by blast
  show ?thesis
  proof (cases b)
    case no: False
    then show ?thesis using False files asserts 1 by auto
  next
    case True
    obtain c log2 n2 where 2: "log_file_write w [] (log1, n1) = Some (c, log2, n2)" "log_ok log2" "carries w [] log1 log2"
      "c \<longrightarrow> l_unflushed log2 = [] \<and> prefix (l_written log1 @ l_unflushed log1) (l_written log2)"
      using log_file_write_ok [OF 1(2), of "[]" w n1] 1(6) True by auto
    obtain log3 n3 where 3: "log_destroy w valid rs (log2, n2) = Some (log3, n3)" "prefix (l_written log2) (l_written log3)"
      using log_destroy_ok [OF 2(2) w rs] by blast
    show ?thesis
    proof (cases c)
      case no: False
      then show ?thesis using False True files asserts 1(1) 2(1) carries_trans [OF 1(3) 2(3)] by auto
    next
      case yes: True
      then have "saved log log3" using 1(4,5) 2(4) 3(2) prefix_order.trans by (auto simp: saved_def)
      then show ?thesis using False True yes files asserts 1(1) 2(1) 3(1) by (intro disjI1) (auto intro!: exI [of _ log3])
    qed
  qed
qed

lemma clear_loop_ok:
  assumes "\<forall>log\<in>set (lg_files g). waits log" and w: "log_os_ok w" and "length (lg_files g) \<le> length rss"
    and rss: "\<forall>(valid, rs)\<in>set rss. received rs \<noteq> None"
  shows "\<exists>ok n' g' new. clear_loop w rss n g = Some (ok, n', g') \<and> lg_done g' = lg_done g @ new \<and>
    (\<exists>old left. lg_files g = old @ left \<and> list_all2 saved old new \<and>
       (if ok then left = [] \<and> lg_files g' = []
        else \<exists>log log' files. left = log # files \<and> lg_files g' = log' # files \<and> carries w [] log log'))"
  using assms(1,3) rss
proof (induction rss arbitrary: n g)
  case Nil
  then show ?case by auto
next
  case (Cons r rss)
  obtain valid rs where r: "r = (valid, rs)" by (meson surj_pair)
  then obtain d where d: "received rs = Some d" using Cons.prems(3) by auto
  show ?case
  proof (cases "lg_files g")
    case Nil
    then show ?thesis using r by auto
  next
    case (Cons log files)
    have log: "waits log" using Cons.prems(1) Cons by simp
    from clear_loop_step [OF log w d Cons, of valid rss n] show ?thesis
    proof (elim disjE exE conjE)
      fix log' n1
      assume run: "clear_loop w ((valid, rs) # rss) n g =
          clear_loop w rss n1 (g\<lparr>lg_files := files, lg_done := lg_done g @ [log']\<rparr>)" and sv: "saved log log'"
      let ?g = "g\<lparr>lg_files := files, lg_done := lg_done g @ [log']\<rparr>"
      obtain ok n' g' new old left where 1: "clear_loop w rss n1 ?g = Some (ok, n', g')" "lg_done g' = lg_done ?g @ new"
        "files = old @ left" "list_all2 saved old new"
        "if ok then left = [] \<and> lg_files g' = []
         else \<exists>log log' files. left = log # files \<and> lg_files g' = log' # files \<and> carries w [] log log'"
        using Cons.IH [of ?g n1] Cons.prems Cons by auto
      then show ?thesis
        using r run sv Cons
        by (intro exI [of _ ok] exI [of _ n'] exI [of _ g'] exI [of _ "log' # new"] conjI exI [of _ "log # old"] exI [of _ left])
          (auto simp del: clear_loop.simps)
    next
      fix log' n'
      assume "clear_loop w ((valid, rs) # rss) n g = Some (False, n', g\<lparr>lg_files := log' # files\<rparr>)" and "carries w [] log log'"
      then show ?thesis using r Cons
        by (intro exI [of _ False] exI [of _ n'] exI [of _ "g\<lparr>lg_files := log' # files\<rparr>"] exI [of _ "[]"] conjI
            exI [of _ "[]"] exI [of _ "log # files"]) (auto simp del: clear_loop.simps)
    qed
  qed
qed

text \<open>The logs in the list are those that \<^verbatim>\<open>log_handle_unflushed\<close> put there.\<close>

lemma log_handle_unflushed_waits:
  assumes "log_ok log" and "log_os_ok w" and "\<not> l_detached log" and "received rs = Some d"
  shows "\<exists>b st' g'. log_handle_unflushed w rs (log, n) g = Some (b, st', g') \<and>
    (if b then lg_files g' = fst st' # lg_files g \<and> waits (fst st') else g' = g) \<and>
    carries w (if l_io log = None then [] else d) log (fst st')"
proof -
  obtain log' n' rest where run: "log_read_watch w rs (log, n) = Some ((log', n'), rest)" "log_ok log'"
    "carries w (if l_io log = None then [] else d) log log'"
    using log_read_watch_ok [OF assms(1,2,4)] by blast
  have kept: "carries w x log (log'\<lparr>l_detached := True\<rparr>) = carries w x log log'" for x
    by (simp add: carries_def held_def recv_def)
  show ?thesis
  proof (cases "l_unflushed log' = [] \<or> l_open_errno log' \<notin> {EROFS, EPERM, EACCES} \<or> lg_flushed g")
    case True
    then show ?thesis using run assms(3)
      by (intro exI [of _ False] exI [of _ "(log', n')"] exI [of _ g]) (auto simp: log_handle_unflushed_def)
  next
    case False
    then have "waits (log'\<lparr>l_detached := True\<rparr>)"
      using run(2) by (auto simp: waits_def log_ok_def EROFS_def EPERM_def EACCES_def)
    then show ?thesis using False run assms(3)
      by (intro exI [of _ True] exI [of _ "(log'\<lparr>l_detached := True\<rparr>, n')"]
            exI [of _ "g\<lparr>lg_files := log'\<lparr>l_detached := True\<rparr> # lg_files g\<rparr>"])
         (auto simp: log_handle_unflushed_def Let_def kept)
  qed
qed

section \<open>A sample\<close>

text \<open>A disk that is read-only at first and then accepts three characters at a time.\<close>

definition sample_log_os :: log_os where
  "sample_log_os = \<lparr>lo_nlink = (\<lambda>_. Inr 1), lo_open = (\<lambda>n. if n < 5 then Inl EROFS else Inr 7), lo_errno = (\<lambda>_. 0),
     lo_write = (\<lambda>_ x. Inr 3)\<rparr>"

definition sample_log :: Log where
  "sample_log = \<lparr>l_fd = -1, l_path = ''/var/log/a.log'', l_io = Some [], l_uid = 0, l_unflushed = [], l_detached = False,
     l_remote_closed = False, l_open_errno = 0, l_written = []\<rparr>"

lemma sample_log_ok: "log_ok sample_log" "log_os_ok sample_log_os" "roomy sample_log_os"
  by (auto simp: log_ok_def sample_log_def log_os_ok_def sample_log_os_def roomy_def EROFS_def ENOSPC_def)

definition sample_logs :: logs where
  "sample_logs = \<lparr>lg_files = [sample_log\<lparr>l_unflushed := ''abc'', l_detached := True, l_open_errno := EROFS\<rparr>],
     lg_flushed = False, lg_done = []\<rparr>"

section \<open>Properties\<close>

text \<open>C10: the output of a job is neither lost nor reordered: \<^verbatim>\<open>log_read_watch\<close>, which drains the terminal when a process has
  ended, returns whatever opening, writing in part, and interrupted reads answer; what was in the file stays there, and the
  file, the buffer of unflushed data and the receive buffer together hold what they held before followed by the new output,
  of which only parts are missing that were discarded because the disk was full. This includes logs with unflushed data, for
  which the comment of \<^verbatim>\<open>log_read_watch\<close> says that it must not be called, as the log would then not be written in
  order: nothing checks that, \<^verbatim>\<open>log_io_reader\<close> puts what it reads behind the unflushed data, and the order is kept.\<close>

theorem log_read_watch_conserves:
  assumes "log_ok log" and "log_os_ok w" and "l_io log \<noteq> None" and "received rs = Some d"
  shows "\<exists>log' n' rest. log_read_watch w rs (log, n) = Some ((log', n'), rest) \<and>
    prefix (l_written log) (l_written log') \<and>
    subseq (l_written log' @ l_unflushed log' @ recv log') (l_written log @ l_unflushed log @ recv log @ d) \<and>
    (roomy w \<longrightarrow> l_written log' @ l_unflushed log' @ recv log' = l_written log @ l_unflushed log @ recv log @ d)"
  using log_read_watch_ok [OF assms(1,2,4), of n] assms(3) by (fastforce simp: carries_def held_def)

theorem log_read_watch_conserves_witness:
  "\<exists>log' n' rest. log_read_watch sample_log_os [Inr ''one '', Inl EINTR, Inr ''two '', Inr ''three'', Inl EIO] (sample_log, 0) =
       Some ((log', n'), rest) \<and>
     l_written log' @ l_unflushed log' @ recv log' = ''one two three''"
  using log_read_watch_conserves [OF sample_log_ok(1,2), of "[Inr ''one '', Inl EINTR, Inr ''two '', Inr ''three'', Inl EIO]" "''one two three''" 0]
    sample_log_ok(3)
  by (auto simp: sample_log_def recv_def EINTR_def EIO_def)

text \<open>C11: \<^verbatim>\<open>log_clear_unflushed\<close>, called when the disk has become writeable, does not abort on the logs that
  \<^verbatim>\<open>log_handle_unflushed\<close> put into the list. The logs it removes have written all the data they had waiting. If it succeeds
  the list is empty and later logs are not put there; if it fails the log that could not be written is still in the list, in
  front of those not tried, with its data.\<close>

theorem log_clear_unflushed_saves:
  assumes "\<forall>log\<in>set (lg_files g). waits log" and "log_os_ok w" and "length (lg_files g) \<le> length rss"
    and "\<forall>(valid, rs)\<in>set rss. received rs \<noteq> None"
  shows "\<exists>ok n' g' old new left. log_clear_unflushed w rss n g = Some (ok, n', g') \<and>
    lg_files g = old @ left \<and> lg_done g' = lg_done g @ new \<and>
    list_all2 (\<lambda>log log'. prefix (l_written log @ l_unflushed log) (l_written log')) old new \<and>
    (if ok then left = [] \<and> lg_files g' = [] \<and> lg_flushed g'
     else \<exists>log log' files. left = log # files \<and> lg_files g' = log' # files \<and> carries w [] log log')"
proof -
  obtain ok n' g' new old left where "clear_loop w rss n g = Some (ok, n', g')" "lg_done g' = lg_done g @ new"
    "lg_files g = old @ left" "list_all2 saved old new"
    "if ok then left = [] \<and> lg_files g' = []
     else \<exists>log log' files. left = log # files \<and> lg_files g' = log' # files \<and> carries w [] log log'"
    using clear_loop_ok [OF assms] by blast
  then show ?thesis
    by (intro exI [of _ ok] exI [of _ n'] exI [of _ "if ok then g'\<lparr>lg_flushed := True\<rparr> else g'"] exI [of _ old] exI [of _ new]
        exI [of _ left] conjI)
      (auto simp: log_clear_unflushed_def saved_def [abs_def] split: if_splits)
qed

theorem log_clear_unflushed_saves_witness:
  "\<exists>n' g'. log_clear_unflushed sample_log_os [(True, [Inl EIO])] 9 sample_logs = Some (True, n', g') \<and>
     lg_files g' = [] \<and> map l_written (lg_done g') = [''abc'']"
proof -
  have run: "log_clear_unflushed sample_log_os [(True, [Inl EIO])] 9 sample_logs =
      Some (True, 12, sample_logs\<lparr>lg_files := [], lg_flushed := True,
        lg_done := [sample_log\<lparr>l_written := ''abc'', l_detached := True, l_open_errno := 0, l_remote_closed := True\<rparr>]\<rparr>)"
    by code_simp
  have "\<forall>log\<in>set (lg_files sample_logs). waits log"
    using sample_log_ok(1) by (simp add: sample_logs_def waits_def log_ok_def EROFS_def)
  from log_clear_unflushed_saves [OF this sample_log_ok(2), of "[(True, [Inl EIO])]" 9] run show ?thesis
    by (auto simp: sample_logs_def EINTR_def EIO_def split: if_splits)
qed

end
