(* ===== verification/ParseRoundTrip.thy ===== *)
theory ParseRoundTrip
  imports ParseOn
begin

text \<open>
  Printing a condition and parsing it again: \<^verbatim>\<open>event_operator_collapse\<close> (\<^verbatim>\<open>src/init/event_operator.c\<close>)
  and \<^verbatim>\<open>parse_on\<close> (\<^verbatim>\<open>src/init/parse_job.c\<close>). The state that is handed over when init executes itself
  has conditions in this form. The texts are cut into tokens by libnih; \<open>splits_words\<close> says what is
  used of it.
\<close>

section \<open>Plain conditions\<close>

text \<open>Characters that mean nothing to the tokeniser, and words that are not operators.\<close>

definition special_chars :: string where
  "special_chars = '' ()#'' @ [CHR 0x22, CHR 0x27, CHR 0x5C, CHR 0x09, CHR 0x0D, CHR 0x0A, NUL]"

definition word_ok :: "string \<Rightarrow> bool" where
  "word_ok w \<longleftrightarrow> w \<noteq> [] \<and> set w \<inter> set special_chars = {} \<and> operator_type w = None"

inductive plain_tree :: "EventOperator \<Rightarrow> bool" where
  plain_match: "word_ok name \<Longrightarrow> \<forall>arg\<in>set args. word_ok arg \<Longrightarrow> variables_ok True args \<Longrightarrow>
    plain_tree (match_node name args)"
| plain_oper: "ty \<noteq> EVENT_MATCH \<Longrightarrow> plain_tree t \<Longrightarrow> plain_tree u \<Longrightarrow> plain_tree (oper_node ty t u)"

fun word_of :: "EventOperatorType \<Rightarrow> string" where
  "word_of EVENT_OR = ''or''"
| "word_of EVENT_AND = ''and''"
| "word_of EVENT_MATCH = []"

fun condition_tokens :: "EventOperator \<Rightarrow> on_token list" where
  "condition_tokens Leaf = []"
| "condition_tokens (Node l a r) =
     (if o_type a = EVENT_MATCH then
        map (\<lambda>w. Word w w) ((case o_name a of None \<Rightarrow> [] | Some n \<Rightarrow> [n]) @ (case o_env a of None \<Rightarrow> [] | Some e \<Rightarrow> e))
      else Open # condition_tokens l @ Word (word_of (o_type a)) (word_of (o_type a)) # condition_tokens r @ [Close])"

fun condition_text :: "EventOperator \<Rightarrow> string" where
  "condition_text Leaf = []"
| "condition_text (Node l a r) =
     (if o_type a = EVENT_MATCH then
        (case o_name a of None \<Rightarrow> [] | Some n \<Rightarrow> n) @
        concat (map (\<lambda>w. CHR '' '' # w) (case o_env a of None \<Rightarrow> [] | Some e \<Rightarrow> e))
      else ''('' @ condition_text l @ '' '' @ word_of (o_type a) @ '' '' @ condition_text r @ '')'')"

lemma node_simps [simp]:
  "condition_tokens (match_node name args) = map (\<lambda>w. Word w w) (name # args)"
  "ty \<noteq> EVENT_MATCH \<Longrightarrow> condition_tokens (oper_node ty t u) =
     Open # condition_tokens t @ Word (word_of ty) (word_of ty) # condition_tokens u @ [Close]"
  "condition_text (match_node name args) = name @ concat (map (\<lambda>w. CHR '' '' # w) args)"
  "ty \<noteq> EVENT_MATCH \<Longrightarrow> condition_text (oper_node ty t u) =
     ''('' @ condition_text t @ '' '' @ word_of ty @ '' '' @ condition_text u @ '')''"
  by (simp_all add: match_node_def oper_node_def new_oper_def)

lemma operator_word [simp]: "ty \<noteq> EVENT_MATCH \<Longrightarrow> operator_type (word_of ty) = Some ty"
  by (cases ty) (simp_all add: operator_type_def)

lemma plain_tree_operand: "plain_tree t \<Longrightarrow> operand (condition_tokens t) t"
proof (induction rule: plain_tree.induct)
  case (plain_match name args)
  then have "list_all2 plain_word (map (\<lambda>w. Word w w) args) args"
    by (auto simp: list_all2_conv_all_nth plain_word_def word_ok_def)
  with plain_match show ?case by (auto simp: plain_word_def word_ok_def intro!: event)
next
  case (plain_oper ty t u)
  then have "condition (condition_tokens t @ Word (word_of ty) (word_of ty) # condition_tokens u) (oper_node ty t u)"
    by (intro binary single) simp_all
  from group [OF this] show ?case using plain_oper by simp
qed

lemma plain_tree_ok: "plain_tree t \<Longrightarrow> oper_ok t"
  by (induction rule: plain_tree.induct) (simp_all add: match_node_def oper_node_def new_oper_def)

section \<open>Printing\<close>

lemma collapse_elem_plain: "word_ok w \<Longrightarrow> collapse_elem w = w"
  by (auto simp: collapse_elem_def word_ok_def special_chars_def split: option.splits dest: in_set_dropD)

lemma collapse_loop_plain:
  "\<forall>w\<in>set ws. word_ok w \<Longrightarrow> collapse_loop False ws (Some s) = Some (s @ concat (map (\<lambda>w. CHR '' '' # w) ws))"
  by (induction ws arbitrary: s) (simp_all add: collapse_elem_plain)

lemma print_oper_plain: "plain_tree t \<Longrightarrow> print_oper t = Some (condition_text t)"
proof (induction rule: plain_tree.induct)
  case (plain_match name args)
  have "collapse_loop True args None = Some (tl (concat (map (\<lambda>w. CHR '' '' # w) args)))" if "args \<noteq> []"
    using that plain_match by (cases args) (simp_all add: collapse_elem_plain collapse_loop_plain)
  then show ?case
    by (cases args) (simp_all add: match_node_def new_oper_def collapse_match_def state_collapse_env_def)
next
  case (plain_oper ty t u)
  then show ?case by (cases ty) (simp_all add: oper_node_def new_oper_def)
qed

section \<open>Cutting into tokens\<close>

definition ws_chars :: string where
  "ws_chars = [CHR '' '', CHR 0x09, CHR 0x0D, CHR 0x5C]"

text \<open>What is used of the tokeniser on texts without quotes, escapes, comments and line ends: words
  end at spaces and parentheses and are given as they are, spaces after a token are skipped, and there
  are tokens up to the end.\<close>

definition splits_words :: "nih_config \<Rightarrow> string \<Rightarrow> bool" where
  "splits_words nih file \<longleftrightarrow>
     (\<forall>p l. p < length file \<longrightarrow> file ! p \<notin> {CHR ''#'', CHR 0x0A} \<longrightarrow> has_token nih file (p, l)) \<and>
     (\<forall>p l. (drop p file = [] \<or> hd (drop p file) \<notin> set ws_chars) \<longrightarrow> skip_whitespace nih file (p, l) = (p, l)) \<and>
     (\<forall>p l rest. drop p file = CHR '' '' # rest \<longrightarrow> (rest = [] \<or> hd rest \<notin> set ws_chars) \<longrightarrow>
        skip_whitespace nih file (p, l) = (Suc p, l)) \<and>
     (\<forall>p l w rest dequote. drop p file = w @ rest \<longrightarrow> w \<noteq> [] \<longrightarrow> set w \<inter> set special_chars = {} \<longrightarrow>
        (rest = [] \<or> hd rest \<in> set '' ()'') \<longrightarrow>
        next_token nih file (''()'' @ cnlws nih) dequote (p, l) = (Inr w, skip_whitespace nih file (p + length w, l)))"

lemma splits_wordsD:
  assumes "splits_words nih file"
  shows "p < length file \<Longrightarrow> file ! p \<notin> {CHR ''#'', CHR 0x0A} \<Longrightarrow> has_token nih file (p, l)"
    and "drop p file = [] \<or> hd (drop p file) \<notin> set ws_chars \<Longrightarrow> skip_whitespace nih file (p, l) = (p, l)"
    and "drop p file = CHR '' '' # rest \<Longrightarrow> rest = [] \<or> hd rest \<notin> set ws_chars \<Longrightarrow>
        skip_whitespace nih file (p, l) = (Suc p, l)"
    and "drop p file = w @ rest \<Longrightarrow> w \<noteq> [] \<Longrightarrow> set w \<inter> set special_chars = {} \<Longrightarrow>
        rest = [] \<or> hd rest \<in> set '' ()'' \<Longrightarrow>
        next_token nih file (''()'' @ cnlws nih) dequote (p, l) = (Inr w, skip_whitespace nih file (p + length w, l))"
  using assms unfolding splits_words_def by blast+

text \<open>Reading a given list of tokens one after the other.\<close>

fun lex :: "nih_config \<Rightarrow> string \<Rightarrow> on_token list \<Rightarrow> cur \<Rightarrow> cur option" where
  "lex nih file [] c = Some c"
| "lex nih file (tok # toks) c =
     (case read_token nih file c of
        None \<Rightarrow> None
      | Some (tok', c) \<Rightarrow> if tok' = tok then lex nih file toks c else None)"

lemma lex_append: "lex nih file (ts @ us) c = Option.bind (lex nih file ts c) (lex nih file us)"
  by (induction ts arbitrary: c) (auto split: option.split)

lemma at_char_drop: "drop p file = c # rest \<Longrightarrow> at_char file (p, l) = c \<and> p < length file"
  by (metis at_char_def char_at_Cons_0 char_at_def drop_all drop_eq_Nil fst_conv hd_drop_conv_nth leI list.sel(1) list.simps(3))

lemma read_token_word:
  assumes "splits_words nih file" and "drop p file = w @ rest" and "w \<noteq> []" and "set w \<inter> set special_chars = {}"
    and "rest = [] \<or> hd rest \<in> set '' ()''"
  shows "read_token nih file (p, l) = Some (Word w w, skip_whitespace nih file (p + length w, l))"
proof -
  obtain c w' where w: "w = c # w'" using assms(3) by (cases w) auto
  then have c: "at_char file (p, l) = c" "c \<notin> set special_chars" using at_char_drop [of p "file" c] assms(2,4) by auto
  then show ?thesis
    using splits_wordsD(4) [OF assms] by (auto simp: read_token_def special_chars_def)
qed

lemma read_token_paren:
  assumes "drop p file = c # rest" and "c = CHR ''('' \<and> tok = Open \<or> c = CHR '')'' \<and> tok = Close"
  shows "read_token nih file (p, l) = Some (tok, skip_whitespace nih file (Suc p, l))"
  using at_char_drop [OF assms(1)] assms(2) by (auto simp: read_token_def Let_def NUL_def)

lemma word_ok_head: "word_ok w \<Longrightarrow> w \<noteq> [] \<and> hd w \<notin> set ws_chars \<and> hd w \<noteq> CHR '' ''"
  by (cases w) (auto simp: word_ok_def special_chars_def ws_chars_def)

lemma condition_text_head: "plain_tree t \<Longrightarrow> condition_text t \<noteq> [] \<and> hd (condition_text t) \<notin> set ws_chars"
  by (induction rule: plain_tree.induct) (auto simp: word_ok_head hd_append, simp add: ws_chars_def)

lemma drop_more: "drop p file = xs @ rest \<Longrightarrow> drop (p + length xs) file = rest"
  by (metis append_eq_conv_conj drop_drop add.commute)

lemma skip_space:
  assumes "splits_words nih file" and "drop p file = CHR '' '' # w @ rest" and "w \<noteq> []" and "hd w \<notin> set ws_chars"
  shows "skip_whitespace nih file (p, l) = (Suc p, l)" and "drop (Suc p) file = w @ rest"
  using splits_wordsD(3) [OF assms(1,2)] assms(3,4) drop_more [of p "file" "[CHR '' '']"] assms(2) by auto

lemma lex_words:
  assumes sp: "splits_words nih file"
  shows "word_ok w \<Longrightarrow> \<forall>v\<in>set ws. word_ok v \<Longrightarrow> drop p file = w @ concat (map (\<lambda>v. CHR '' '' # v) ws) @ rest \<Longrightarrow>
    rest = [] \<or> hd rest \<in> set '' ()'' \<Longrightarrow>
    lex nih file (map (\<lambda>v. Word v v) (w # ws)) (p, l) =
      Some (skip_whitespace nih file (p + length (w @ concat (map (\<lambda>v. CHR '' '' # v) ws)), l))"
proof (induction ws arbitrary: w p)
  case Nil
  then show ?case using read_token_word [OF sp, of p w rest l] by (simp add: word_ok_def)
next
  case (Cons v ws)
  let ?rest = "CHR '' '' # v @ concat (map (\<lambda>v. CHR '' '' # v) ws) @ rest"
  have one: "read_token nih file (p, l) = Some (Word w w, skip_whitespace nih file (p + length w, l))"
    using Cons.prems by (intro read_token_word [OF sp, of _ _ ?rest]) (auto simp: word_ok_def)
  have d: "drop (p + length w) file = ?rest" using drop_more [of p "file" w ?rest] Cons.prems by simp
  have "v \<noteq> []" "hd v \<notin> set ws_chars" using word_ok_head [of v] Cons.prems by auto
  note skip = skip_space [OF sp d this]
  have "lex nih file (map (\<lambda>v. Word v v) (v # ws)) (Suc (p + length w), l) =
      Some (skip_whitespace nih file (Suc (p + length w) + length (v @ concat (map (\<lambda>v. CHR '' '' # v) ws)), l))"
    using Cons.prems skip(2) by (intro Cons.IH) auto
  then show ?case using one skip(1) by (simp add: ac_simps)
qed

lemma word_of_plain: "ty \<noteq> EVENT_MATCH \<Longrightarrow> word_of ty \<noteq> [] \<and> hd (word_of ty) \<notin> set ws_chars \<and>
    set (word_of ty) \<inter> set special_chars = {}"
  by (cases ty) (simp_all add: ws_chars_def special_chars_def NUL_def)

lemma lex_operator:
  assumes sp: "splits_words nih file" and "ty \<noteq> EVENT_MATCH" and d: "drop p file = '' '' @ word_of ty @ '' '' @ w @ rest"
    and w: "w \<noteq> []" "hd w \<notin> set ws_chars"
  shows "Option.bind (Some (skip_whitespace nih file (p, l))) (lex nih file [Word (word_of ty) (word_of ty)]) =
      Some (p + length (word_of ty) + 2, l)"
    and "drop (p + length (word_of ty) + 2) file = w @ rest"
proof -
  let ?o = "word_of ty" and ?rest = "'' '' @ w @ rest"
  have o: "?o \<noteq> []" "hd ?o \<notin> set ws_chars" "set ?o \<inter> set special_chars = {}"
    using assms(2) word_of_plain by blast+
  have d1: "drop p file = CHR '' '' # ?o @ ?rest" using d by simp
  note s1 = skip_space [OF sp d1 o(1,2)]
  have d2: "drop (Suc p + length ?o) file = CHR '' '' # w @ rest" using drop_more [OF s1(2)] by simp
  note s2 = skip_space [OF sp d2 w]
  have "read_token nih file (Suc p, l) = Some (Word ?o ?o, (p + length ?o + 2, l))"
    using read_token_word [OF sp s1(2) o(1,3)] s2(1) by simp
  then show "Option.bind (Some (skip_whitespace nih file (p, l))) (lex nih file [Word ?o ?o]) = Some (p + length ?o + 2, l)"
    using s1(1) by simp
  show "drop (p + length ?o + 2) file = w @ rest" using s2(2) by simp
qed

lemma lex_condition:
  assumes sp: "splits_words nih file"
  shows "plain_tree t \<Longrightarrow> drop p file = condition_text t @ rest \<Longrightarrow> rest = [] \<or> hd rest \<in> set '' )'' \<Longrightarrow>
    lex nih file (condition_tokens t) (p, l) = Some (skip_whitespace nih file (p + length (condition_text t), l))"
proof (induction arbitrary: p rest rule: plain_tree.induct)
  case (plain_match name args)
  then show ?case using lex_words [OF sp, of name args p rest l] by auto
next
  case (plain_oper ty t u)
  let ?t = "condition_text t" and ?u = "condition_text u" and ?o = "word_of ty"
  let ?mid = "'' '' @ ?o @ '' '' @ ?u @ CHR '')'' # rest"
  have d: "drop p file = CHR ''('' # ?t @ ?mid" using plain_oper by simp
  then have d1: "drop (Suc p) file = ?t @ ?mid" using drop_more [of p "file" "''(''"] by simp
  have skip1: "skip_whitespace nih file (Suc p, l) = (Suc p, l)"
    using splits_wordsD(2) [OF sp, of "Suc p" l] d1 condition_text_head [OF plain_oper(2)] by simp
  have left: "lex nih file (condition_tokens t) (Suc p, l) = Some (skip_whitespace nih file (Suc p + length ?t, l))"
    using d1 by (intro plain_oper.IH) auto
  have d2: "drop (Suc p + length ?t) file = '' '' @ ?o @ '' '' @ ?u @ CHR '')'' # rest" using drop_more [OF d1] by simp
  note op = lex_operator [OF sp plain_oper(1) d2 conjunct1 conjunct2, OF condition_text_head condition_text_head, OF plain_oper(3,3)]
  let ?p3 = "Suc p + length ?t + length ?o + 2"
  have right: "lex nih file (condition_tokens u) (?p3, l) = Some (skip_whitespace nih file (?p3 + length ?u, l))"
    using op(2) by (intro plain_oper.IH) auto
  have d4: "drop (?p3 + length ?u) file = CHR '')'' # rest" using drop_more [OF op(2)] by simp
  have skip4: "skip_whitespace nih file (?p3 + length ?u, l) = (?p3 + length ?u, l)"
    using splits_wordsD(2) [OF sp, of "?p3 + length ?u" l] d4 by (simp add: ws_chars_def)
  have close: "read_token nih file (?p3 + length ?u, l) = Some (Close, skip_whitespace nih file (Suc (?p3 + length ?u), l))"
    using read_token_paren [OF d4] by simp
  have "lex nih file (Word ?o ?o # condition_tokens u @ [Close]) (skip_whitespace nih file (Suc p + length ?t, l)) =
      Some (skip_whitespace nih file (Suc (?p3 + length ?u), l))"
    using op(1) [of l] right skip4 close lex_append [of nih "file" "[Word ?o ?o]" "condition_tokens u @ [Close]"]
    by (simp add: lex_append)
  then show ?case
    using read_token_paren [OF d, of Open nih l] skip1 left plain_oper(1) by (simp add: lex_append ac_simps)
qed

section \<open>Parsing what was printed\<close>

lemma read_token_moves:
  assumes ok: "tokeniser_ok nih file" and c: "fst c \<le> length file" and run: "read_token nih file c = Some (tok, c')"
  shows "fst c < fst c' \<and> fst c' \<le> length file"
proof (cases "fst c < length file \<and> at_char file c \<in> {CHR ''('', CHR '')'', NUL}")
  case True
  then have "c' = skip_whitespace nih file (Suc (fst c), snd c)"
    using run unfolding read_token_def Let_def by (auto split: if_splits)
  then show ?thesis using tokeniser_okD(2,3) [OF ok, of "(Suc (fst c), snd c)"] True by auto
next
  case False
  then have "\<exists>dequote arg. next_token nih file (''()'' @ cnlws nih) dequote c = (Inr arg, c')"
    using run unfolding read_token_def Let_def if_not_P [OF False] by (auto split: sum.splits prod.splits if_splits)
  then show ?thesis using tokeniser_okD(4) [OF ok c] by blast
qed

lemma read_line_lex:
  assumes ok: "tokeniser_ok nih file" and sp: "splits_words nih file" and plain: "set file \<inter> {CHR ''#'', CHR 0x0A} = {}"
  shows "toks \<noteq> [] \<Longrightarrow> fst c \<le> length file \<Longrightarrow> lex nih file toks c = Some c' \<Longrightarrow> fst c' = length file \<Longrightarrow>
    length toks \<le> fuel \<Longrightarrow> read_line fuel nih file c n = Some (toks, fold open_after toks n, c')"
proof (induction fuel arbitrary: toks c n)
  case (Suc fuel)
  obtain tok rest where toks: "toks = tok # rest" using Suc.prems(1) by (cases toks) auto
  obtain c1 where one: "read_token nih file c = Some (tok, c1)" "lex nih file rest c1 = Some c'"
    using Suc.prems(3) toks by (auto split: option.splits if_splits)
  have c1: "fst c1 \<le> length file" using read_token_moves [OF ok Suc.prems(2) one(1)] by simp
  show ?case
  proof (cases rest)
    case Nil
    then have "\<not> has_token nih file c1" using tokeniser_okD(1) [OF ok c1] one(2) Suc.prems(4) by auto
    then show ?thesis using one toks Nil by simp
  next
    case (Cons tok2 rest2)
    then obtain c2 where "read_token nih file c1 = Some (tok2, c2)" using one(2) by (auto split: option.splits if_splits)
    then have "fst c1 < length file" using read_token_moves [OF ok c1] by fastforce
    moreover from this have "file ! fst c1 \<notin> {CHR ''#'', CHR 0x0A}" using plain nth_mem [of "fst c1" "file"] by blast
    ultimately have "has_token nih file c1" using splits_wordsD(1) [OF sp, of "fst c1" "snd c1"] by simp
    moreover have "read_line fuel nih file c1 (open_after tok n) = Some (rest, fold open_after rest (open_after tok n), c')"
      using Cons c1 one(2) Suc.prems toks by (intro Suc.IH) auto
    ultimately show ?thesis using one(1) toks by simp
  qed
qed simp

lemma condition_text_plain: "plain_tree t \<Longrightarrow> set (condition_text t) \<inter> {CHR ''#'', CHR 0x0A, NUL} = {}"
proof (induction rule: plain_tree.induct)
  case (plain_match name args)
  have "set name \<inter> {CHR ''#'', CHR 0x0A, NUL} = {}" "\<forall>arg\<in>set args. set arg \<inter> {CHR ''#'', CHR 0x0A, NUL} = {}"
    using plain_match unfolding word_ok_def special_chars_def by auto
  then show ?case by (auto simp: NUL_def)
next
  case (plain_oper ty t u)
  then show ?case by (cases ty) (auto simp: NUL_def)
qed

lemma condition_tokens_length: "plain_tree t \<Longrightarrow> length (condition_tokens t) \<le> length (condition_text t)"
proof (induction rule: plain_tree.induct)
  case (plain_match name args)
  have "length args \<le> length (concat (map (\<lambda>w. CHR '' '' # w) args))" by (induction args) auto
  moreover have "1 \<le> length name" using plain_match by (cases name) (simp_all add: word_ok_def)
  ultimately show ?case by simp
qed simp

lemma condition_tokens_nonempty: "plain_tree t \<Longrightarrow> condition_tokens t \<noteq> []"
  by (induction rule: plain_tree.induct) simp_all

lemma read_tokens_text:
  assumes ok: "tokeniser_ok nih (condition_text t)" and sp: "splits_words nih (condition_text t)" and t: "plain_tree t"
  shows "\<exists>c'. read_tokens (parse_on_fuel (condition_text t)) nih (condition_text t) (0, 0) 0 = Some (condition_tokens t, c')"
proof -
  let ?f = "condition_text t" and ?n = "length (condition_text t)"
  have s0: "skip_whitespace nih ?f (0, 0) = (0, 0)" and s1: "skip_whitespace nih ?f (?n, 0) = (?n, 0)"
    using splits_wordsD(2) [OF sp] condition_text_head [OF t] by auto
  have "lex nih ?f (condition_tokens t) (0, 0) = Some (?n, 0)"
    using lex_condition [OF sp t, of 0 "[]" 0] s1 by simp
  then have line: "read_line (?n + 2) nih ?f (0, 0) 0 = Some (condition_tokens t, fold open_after (condition_tokens t) 0, (?n, 0))"
    using condition_tokens_nonempty [OF t] condition_tokens_length [OF t]
    condition_text_plain [OF t] by (intro read_line_lex [OF ok sp]) auto
  have "\<not> has_token nih ?f (?n, 0)" using tokeniser_okD(1) [OF ok, of "(?n, 0)"] by auto
  then obtain c' where "skip_comment nih ?f (?n, 0) = (None, c')" "fst c' = ?n"
    using tokeniser_okD(5) [OF ok, of "(?n, 0)"] by fastforce
  then show ?thesis using line s0 by (simp add: parse_on_fuel_def numeral_3_eq_3)
qed

text \<open>C28: a condition that is printed and parsed again is the same: \<^verbatim>\<open>parse_on_simple\<close> applied to the
  text of \<^verbatim>\<open>event_operator_collapse\<close> gives the tree back, for conditions whose names and arguments
  are words without special characters and not operators.\<close>

theorem parse_printed_condition:
  assumes "plain_tree t" and "stanza \<in> set stanza_names"
    and "\<And>file. NUL \<notin> set file \<Longrightarrow> tokeniser_ok nih file \<and> splits_words nih file"
  shows "\<exists>str. event_operator_collapse t = Some str \<and> parse_on_simple nih stanza str = Some (Inr t)"
proof -
  have "event_operator_collapse t = Some (condition_text t)"
    using event_operator_collapse_eq [OF plain_tree_ok] print_oper_plain assms(1) by simp
  moreover have "condition (condition_tokens t) t" using plain_tree_operand [OF assms(1)] single by simp
  moreover have "tokeniser_ok nih (condition_text t)" "splits_words nih (condition_text t)"
    using assms(3) condition_text_plain [OF assms(1)] by auto
  then obtain c' where "read_tokens (parse_on_fuel (condition_text t)) nih (condition_text t) (0, 0) 0 =
      Some (condition_tokens t, c')"
    using read_tokens_text assms(1) by blast
  ultimately have "parse_on (parse_on_fuel (condition_text t)) nih (condition_text t) (0, 0) = Some (Inr t, c')"
    using parse_on_accepts by blast
  with \<open>event_operator_collapse t = Some (condition_text t)\<close> show ?thesis
    using assms(2) by (simp add: parse_on_simple_def)
qed

lemma takeWhile_prefix: "(\<forall>x\<in>set w. P x) \<Longrightarrow> rest = [] \<or> \<not> P (hd rest) \<Longrightarrow> takeWhile P (w @ rest) = w"
  by (cases rest) (simp_all add: takeWhile_append)

lemma sample_splits_words: "splits_words sample_nih file"
  unfolding splits_words_def
proof (intro conjI allI impI)
  fix p l assume "drop p file = [] \<or> hd (drop p file) \<notin> set ws_chars"
  then show "skip_whitespace sample_nih file (p, l) = (p, l)"
    by (cases "drop p file") (auto simp: sample_nih_def skip_blanks_def run_length_def ws_chars_def)
next
  fix p l rest assume "drop p file = CHR '' '' # rest" "rest = [] \<or> hd rest \<notin> set ws_chars"
  then show "skip_whitespace sample_nih file (p, l) = (Suc p, l)"
    by (cases rest) (auto simp: sample_nih_def skip_blanks_def run_length_def ws_chars_def)
next
  fix p l w rest dequote
  assume d: "drop p file = w @ rest" "w \<noteq> []" "set w \<inter> set special_chars = {}" "rest = [] \<or> hd rest \<in> set '' ()''"
  let ?delim = "''()'' @ blank_chars"
  have "takeWhile (\<lambda>c. c \<notin> set ?delim) (w @ rest) = w"
    using d(3,4) by (intro takeWhile_prefix) (auto simp: special_chars_def blank_chars_def)
  then show "next_token sample_nih file (''()'' @ cnlws sample_nih) dequote (p, l) =
      (Inr w, skip_whitespace sample_nih file (p + length w, l))"
    using d(1,2) by (simp add: sample_nih_def take_word_def Let_def)
qed (simp add: sample_nih_def)

theorem parse_printed_condition_witness:
  "\<exists>str. event_operator_collapse (oper_node EVENT_AND (match_node ''a'' [''K=v'']) (match_node ''b'' [])) = Some str \<and>
     parse_on_simple sample_nih ''start'' str =
       Some (Inr (oper_node EVENT_AND (match_node ''a'' [''K=v'']) (match_node ''b'' [])))"
proof (rule parse_printed_condition)
  have "word_ok ''a''" "word_ok ''b''" "word_ok ''K=v''"
    by (simp_all add: word_ok_def special_chars_def operator_type_def NUL_def)
  then show "plain_tree (oper_node EVENT_AND (match_node ''a'' [''K=v'']) (match_node ''b'' []))"
    by (auto intro!: plain_oper plain_match simp: strchr_def)
  show "NUL \<notin> set file \<Longrightarrow> tokeniser_ok sample_nih file \<and> splits_words sample_nih file" for "file"
    using sample_tokeniser_ok sample_splits_words by blast
qed (simp add: stanza_names_def)

end
