(* ===== verification/Spec2Isabelle.thy ===== *)
theory Spec2Isabelle
  imports DaemonProps LogProps ParseRoundTrip
begin

text \<open>
  A model of the init daemon of upstart, \<^verbatim>\<open>src/init\<close>, with its correctness theorems.

  \<^bold>\<open>The program.\<close> The daemon keeps a table of job classes, read from configuration files, and for
  each class the jobs (instances) that exist of it. Events are queued and offered to the start and stop
  conditions of classes and jobs. A condition that becomes true changes the goal of a job, and the state
  machine of the job follows the goal: it starts processes, waits for them, emits events of its own and is blocked until these are
  finished. Requests over D-Bus emit events, start, stop and restart jobs, change the environment of jobs, reload the
  configuration and end the session. A state that outlives a call is one record, \<open>sys\<close> (\<open>Objects\<close>):
  the list \<open>s_events\<close>, the classes and jobs by number with the registered classes \<open>s_registered\<close> and the list \<open>s_instances\<close>,
  the sources of configuration \<open>s_conf\<close>, the connections, the variables of the shutdown, the counters, and \<open>s_out\<close>, what
  the daemon has sent to the kernel and its connections.

  \<^bold>\<open>Theories and source files.\<close> Each group of definitions follows the functions of the file in their order
  and has their names; helpers have the names of what they do, and stand before the function whose lines they hold.

  \<^item> \<open>Prelude\<close>: strings of C, folds in the option monad, and the interfaces as locales: \<open>kv_table\<close> (tables of keys and values),
    \<open>refcounted\<close> (objects with counted references), \<open>enum_codec\<close> (names of enumerations).
  \<^item> \<open>Names\<close>: the enumerations of \<^verbatim>\<open>job.h\<close>, \<^verbatim>\<open>job_class.h\<close>, \<^verbatim>\<open>event.h\<close>, \<^verbatim>\<open>event_operator.h\<close>, \<^verbatim>\<open>process.h\<close>, \<^verbatim>\<open>blocked.h\<close> and
    their names; \<open>enum_codec\<close> is interpreted on all of them.
  \<^item> \<open>Environ\<close>, \<open>Expand\<close>: \<^verbatim>\<open>environ.c\<close>, the tables of variables (interpreting \<open>kv_table\<close>) and the expansion of references in place.
  \<^item> \<open>Glob\<close>: \<^verbatim>\<open>fnmatch\<close> of the C library. \<open>Event\<close>, \<open>EventOperator\<close>: \<^verbatim>\<open>event.c\<close>, \<^verbatim>\<open>blocked.c\<close>, \<^verbatim>\<open>event_operator.c\<close>, events with counted
    references (interpreting \<open>refcounted\<close>) and the trees of conditions.
  \<^item> \<open>Cgroup\<close>: \<^verbatim>\<open>cgroup.c\<close>, the groups of a class (interpreting \<open>kv_table\<close>) and the requests to the manager.
  \<^item> \<open>Objects\<close>, \<open>ClassTable\<close>, \<open>ClassMethods\<close>: the records of the daemon, and \<^verbatim>\<open>job_class.c\<close>: the registered classes, the environment of jobs and the
    methods of a class.
  \<^item> \<open>JobSpawn\<close>, \<open>Job\<close>, \<open>JobProcess\<close>: \<^verbatim>\<open>job.c\<close> and \<^verbatim>\<open>job_process.c\<close>: starting and killing processes, the state machine
    and the methods of a job, what the kernel reports of processes, and the set-up of a child.
  \<^item> \<open>Quiesce\<close>, \<open>EventLoop\<close>: \<^verbatim>\<open>quiesce.c\<close>, the end of a session, and the handling of events of \<^verbatim>\<open>event.c\<close>.
  \<^item> \<open>ParseOn\<close>, \<open>ParseJob\<close>: \<^verbatim>\<open>parse_job.c\<close>, conditions and all stanzas, over the tokeniser of libnih (\<open>nih_config\<close>).
  \<^item> \<open>Conf\<close>: \<^verbatim>\<open>conf.c\<close>, sources, files, override files and watches. \<open>Control\<close>: \<^verbatim>\<open>control.c\<close>. \<open>Log\<close>: \<^verbatim>\<open>log.c\<close>.
  \<^item> \<open>Daemon\<close>: the daemon as a transition system. \<open>perform\<close> stands for the main loop of libnih and the glue code that is generated
    from the D-Bus interface: an \<open>action\<close> is a call of one function above, \<open>enabled\<close> says when it can come, \<open>reaches\<close> is what sequences of actions lead to.

  \<^bold>\<open>Lemmas.\<close> Invariants and frames: \<open>JobInv\<close> (\<open>job_ok\<close>, \<open>at_rest\<close>, \<open>settled\<close>: what \<open>job_change_state\<close> keeps and where it
  ends), \<open>JobPids\<close> (which process lives in which state), \<open>JobEvents\<close> (what an operation on a job does to the events), \<open>SysInv\<close> (\<open>sys_inv\<close>:
  classes, jobs and events fit together, and references are counted), \<open>SysLoop\<close>, \<open>SysMethods\<close>, \<open>ChildProps\<close>, \<open>ConfInv\<close>, \<open>ConfReload\<close> and
  \<open>Daemon\<close> (every operation keeps it), \<open>ParseJobProps\<close> (the locale \<open>stanza_invariant\<close>: what all stanzas keep, interpreted on \<open>class_legal\<close> and in
  \<open>ConfInv\<close> on \<open>reworked\<close>). Properties stand in \<open>DaemonProps\<close>, \<open>ConfProps\<close>, \<open>LogProps\<close>, \<open>ChildProps\<close>, \<open>JobProcessProps\<close>, \<open>JobProps\<close>,
  \<open>ParseJobProps\<close>, \<open>ParseRoundTrip\<close> and at the end of the theories of small components. Every property with a hypothesis has a witness at a
  concrete input.

  \<^bold>\<open>Errors.\<close> A function that may run into an assertion, or use an object that was freed, returns an option, and \<open>None\<close> is that
  failure. An error that is raised is the left side of a sum or an error value. A job that is freed is \<open>None\<close> in the result
  \<open>job_result\<close>. Memory does not run out, as the code loops until an allocation succeeds.

  \<^bold>\<open>Loops.\<close> The loop of \<open>job_change_state\<close> ends by \<open>state_rank\<close>; that of \<open>event_operator_collapse\<close> and \<open>environ_expand\<close> by theorems.
  \<open>parse_on\<close> and the loop of \<open>stanza_normal\<close> get fuel, and the length of the file, with \<open>parse_on_fuel\<close> 3 more, suffices (\<open>stanzas_return\<close>). \<open>event_poll\<close> has
  fuel because the loop need not end, when jobs emit the events that start them: \<open>OutOfFuel\<close> (\<open>NotYet\<close> in \<open>perform\<close>) is kept
  apart from \<open>Aborted\<close>, and the theorems speak of polls that return. \<open>log_read_watch\<close> takes the answers of \<^verbatim>\<open>read\<close> as a list.

  \<^bold>\<open>Parameters.\<close> Code that is not under \<^verbatim>\<open>src/\<close> is an argument: the kernel (\<open>os\<close>, answers numbered by calls; \<open>log_os\<close> for files), D-Bus (\<open>bus\<close>), the
  files and the parser of libnih (\<open>conf_lib\<close>, \<open>nih_config\<close>), the cgroup manager (\<open>cgroup_manager\<close>, \<open>None\<close> while there is no connection). What
  is relied on is named: \<open>os_ok\<close> (processes have positive ids, AppArmor does not come and go), \<open>world_ok\<close> (a clock that is not 0, ids of forks that
  are positive, \<open>lib_ok\<close>: the parser calls the handlers of stanzas and directories are walked), \<open>log_os_ok\<close>; \<open>files_ok\<close> is about the contents of files, and a
  hypothesis of its own: parsing ends, no file sets the kill timeout to 0, and no error in an override file takes away the instance name, the
  command of a process or the form of a condition. \<open>ENABLE_CGROUPS\<close> is on.

  \<^bold>\<open>Scope of the theorems about the daemon.\<close> The steps are the methods of \<^verbatim>\<open>control.c\<close>, of classes and of instances that are modelled, the end of a
  session and SIGTERM of a session, the events of child processes, the three handlers of the set-up of a child, the timers of jobs and of the
  shutdown, reloading and changes of files, and polls. \<open>enabled\<close> leaves out what cannot come (objects that are not there, timers that
  are not set, events of \<^verbatim>\<open>ptrace\<close> that were not asked for) and cases in which the code fails: the cgroup manager arrives
  while the condition of a waiting class does not hold (\<open>cgroup_wait_aborts\<close>), and the child that was to be a security or
  post-stop process reports an error (\<open>security_error_stuck\<close>, \<open>post_stop_error_frees\<close>). It also leaves out an error of another child that comes when
  its job has got beyond stopping, and a tick of the timer of the shutdown after the main loop was told to exit. \<open>kill_timeout_zero_aborts\<close> and \<open>exec_error_aborts\<close> show the reasons for \<open>files_ok\<close>,
  \<open>override_error_orphans\<close> what an error in an override file does that \<open>files_ok\<close> admits.

  \<^bold>\<open>Representation.\<close> An environment that is NULL is the empty list. Hash tables are iterated in the order of their lists. Arrays by process type are functions.
  Numbers are unbounded where the code cannot exceed their width, and reduced where it does (\<open>stanza_nice\<close>, user ids). Log messages,
  utmp records, and the freeing of log objects with their job are left out.

  \<^bold>\<open>Not modelled.\<close> The JSON state for re-execution (\<^verbatim>\<open>state.c\<close> and the functions \<^verbatim>\<open>*_serialise\<close>), whose form is that of json-c; \<^verbatim>\<open>job_process_spawn_with_fd\<close> after
  the fork, \<^verbatim>\<open>system.c\<close>, \<^verbatim>\<open>apparmor.c\<close>, \<^verbatim>\<open>xdg.c\<close> and \<^verbatim>\<open>main.c\<close>, which are calls of the kernel and set-up; the clients in \<^verbatim>\<open>src/util\<close>, the bridges in
  \<^verbatim>\<open>src/extra\<close>, the generated library in \<^verbatim>\<open>src/lib\<close>.
\<close>

end
